(* ===== verification/Sodl_Prelude.thy ===== *)
theory Sodl_Prelude
  imports Main "HOL-Library.Word" "HOL-Library.AList" "HOL-Library.Multiset"
    "HOL-Library.Char_ord" "HOL-Library.List_Lexorder" "HOL-Library.Signed_Division"
begin

text \<open>
  Shared vocabulary of the development.

  \<^item> \<open>outcome\<close>: what a Rust call produces. \<open>Ok\<close> and \<open>Err\<close> are the two constructors of
    \<open>Result\<close>; \<open>Panic\<close> is an unwinding or aborting call (an assertion, an out-of-range
    slice, an arithmetic overflow under overflow checks).
  \<^item> \<open>act\<close>: a call through \<open>&self\<close> on state with interior mutability. It returns the
    outcome and the state, also when it fails: Rust does not roll state back on an error.
    \<open>bindM\<close> is the sequencing that the \<open>?\<close> operator gives, \<open>forM\<close> the \<open>for\<close> loop
    whose body uses \<open>?\<close>.
  \<^item> \<open>hmap\<close>: a \<open>HashMap\<close>. Its entries form a list; the order of the list stands for
    the iteration order of the table, which the standard library leaves unspecified. Facts
    about listings are therefore stated for every entry list.
  \<^item> strings are their UTF-8 bytes, as in Rust; \<open>length\<close> is \<open>str::len\<close>.
\<close>

section \<open>Outcomes\<close>

datatype ('e, 'a) outcome = Ok 'a | Err 'e | Panic

definition bindR :: "('e, 'a) outcome \<Rightarrow> ('a \<Rightarrow> ('e, 'b) outcome) \<Rightarrow> ('e, 'b) outcome" where
  "bindR r f = (case r of Ok a \<Rightarrow> f a | Err e \<Rightarrow> Err e | Panic \<Rightarrow> Panic)"

lemma bindR_simps [simp]:
  "bindR (Ok a) f = f a"
  "bindR (Err e) f = Err e"
  "bindR Panic f = Panic"
  by (simp_all add: bindR_def)

lemma bindR_eq_Ok: "bindR r f = Ok b \<longleftrightarrow> (\<exists>a. r = Ok a \<and> f a = Ok b)"
  by (cases r) auto

definition of_option :: "'e \<Rightarrow> 'a option \<Rightarrow> ('e, 'a) outcome" where
  "of_option e x = (case x of Some a \<Rightarrow> Ok a | None \<Rightarrow> Err e)"

lemma of_option_simps [simp]:
  "of_option e (Some a) = Ok a"
  "of_option e None = Err e"
  by (simp_all add: of_option_def)

fun mapR :: "('a \<Rightarrow> ('e, 'b) outcome) \<Rightarrow> 'a list \<Rightarrow> ('e, 'b list) outcome" where
  "mapR f [] = Ok []"
| "mapR f (x # xs) = bindR (f x) (\<lambda>y. bindR (mapR f xs) (\<lambda>ys. Ok (y # ys)))"

lemma mapR_Ok: "(\<And>x. x \<in> set xs \<Longrightarrow> f x = Ok (g x)) \<Longrightarrow> mapR f xs = Ok (map g xs)"
  by (induction xs) auto

lemma mapR_length: "mapR f xs = Ok ys \<Longrightarrow> length ys = length xs"
  by (induction xs arbitrary: ys) (auto simp: bindR_eq_Ok)


section \<open>Stateful calls\<close>

type_synonym ('s, 'e, 'a) act = "'s \<Rightarrow> ('e, 'a) outcome \<times> 's"

definition pureM :: "('e, 'a) outcome \<Rightarrow> ('s, 'e, 'a) act" where
  "pureM r s = (r, s)"

definition returnM :: "'a \<Rightarrow> ('s, 'e, 'a) act" where
  "returnM a s = (Ok a, s)"

definition modifyM :: "('s \<Rightarrow> 's) \<Rightarrow> ('s, 'e, unit) act" where
  "modifyM f s = (Ok (), f s)"

definition readM :: "('s \<Rightarrow> ('e, 'a) outcome) \<Rightarrow> ('s, 'e, 'a) act" where
  "readM f s = (f s, s)"

definition bindM :: "('s, 'e, 'a) act \<Rightarrow> ('a \<Rightarrow> ('s, 'e, 'b) act) \<Rightarrow> ('s, 'e, 'b) act" where
  "bindM m f s = (case m s of
      (Ok a, t) \<Rightarrow> f a t
    | (Err e, t) \<Rightarrow> (Err e, t)
    | (Panic, t) \<Rightarrow> (Panic, t))"

definition seqM :: "('s, 'e, unit) act \<Rightarrow> ('s, 'e, 'b) act \<Rightarrow> ('s, 'e, 'b) act" where
  "seqM m k = bindM m (\<lambda>_. k)"

fun forM :: "'a list \<Rightarrow> ('a \<Rightarrow> ('s, 'e, unit) act) \<Rightarrow> ('s, 'e, unit) act" where
  "forM [] f = returnM ()"
| "forM (x # xs) f = seqM (f x) (forM xs f)"

fun mapM :: "('a \<Rightarrow> ('s, 'e, 'b) act) \<Rightarrow> 'a list \<Rightarrow> ('s, 'e, 'b list) act" where
  "mapM f [] = returnM []"
| "mapM f (x # xs) = bindM (f x) (\<lambda>y. bindM (mapM f xs) (\<lambda>ys. returnM (y # ys)))"

text \<open>A call on one component of a larger state.\<close>

definition liftM :: "('w \<Rightarrow> 's) \<Rightarrow> ('s \<Rightarrow> 'w \<Rightarrow> 'w) \<Rightarrow> ('s, 'e, 'a) act \<Rightarrow> ('w, 'e, 'a) act" where
  "liftM get put m w = (case m (get w) of (r, s) \<Rightarrow> (r, put s w))"

named_theorems act_simps "evaluation of stateful calls"

lemma act_basic [act_simps, simp]:
  "pureM r s = (r, s)"
  "returnM a s = (Ok a, s)"
  "modifyM f s = (Ok (), f s)"
  "readM g s = (g s, s)"
  by (simp_all add: pureM_def returnM_def modifyM_def readM_def)

lemma bindM_Ok [act_simps]: "m s = (Ok a, t) \<Longrightarrow> bindM m f s = f a t"
  by (simp add: bindM_def)

lemma bindM_bool [act_simps]:
  "m s = (Ok True, t) \<Longrightarrow> bindM m f s = f True t"
  "m s = (Ok False, t) \<Longrightarrow> bindM m f s = f False t"
  by (simp_all add: bindM_def)

lemma bindM_Err [act_simps]: "m s = (Err e, t) \<Longrightarrow> bindM m f s = (Err e, t)"
  by (simp add: bindM_def)

lemma bindM_Panic [act_simps]: "m s = (Panic, t) \<Longrightarrow> bindM m f s = (Panic, t)"
  by (simp add: bindM_def)

lemma bindM_pure [simp]: "bindM (pureM (Ok a)) f s = f a s"
  by (simp add: bindM_def)

lemma bindM_return [simp]: "bindM (returnM a) f s = f a s"
  by (simp add: bindM_def)

lemma bindM_modify [simp]: "bindM (modifyM g) f s = f () (g s)"
  by (simp add: bindM_def)

lemma seqM_Ok [act_simps]: "m s = (Ok (), t) \<Longrightarrow> seqM m k s = k t"
  by (simp add: seqM_def bindM_def)

lemma seqM_Err [act_simps]: "m s = (Err e, t) \<Longrightarrow> seqM m k s = (Err e, t)"
  by (simp add: seqM_def bindM_def)

lemma seqM_modify [simp]: "seqM (modifyM g) k s = k (g s)"
  by (simp add: seqM_def bindM_def)

lemma seqM_return [simp]: "seqM (returnM ()) k s = k s"
  by (simp add: seqM_def bindM_def)

lemma bindM_eq_Ok:
  "bindM m f s = (Ok b, u) \<longleftrightarrow> (\<exists>a t. m s = (Ok a, t) \<and> f a t = (Ok b, u))"
  by (auto simp: bindM_def split: prod.splits outcome.splits)

lemma seqM_eq_Ok:
  "seqM m k s = (Ok b, u) \<longleftrightarrow> (\<exists>t. m s = (Ok (), t) \<and> k t = (Ok b, u))"
  by (auto simp: seqM_def bindM_eq_Ok)

lemmas act_Ok_iffs = bindM_eq_Ok seqM_eq_Ok

text \<open>A loop whose body always succeeds is a fold over the state.\<close>

lemma forM_fold:
  assumes "\<And>x s. x \<in> set xs \<Longrightarrow> f x s = (Ok (), g x s)"
  shows "forM xs f s = (Ok (), fold g xs s)"
  using assms by (induction xs arbitrary: s) (auto simp: act_simps)

text \<open>A loop keeps what every step of its body keeps, whatever the outcome.\<close>

lemma bindM_inv:
  assumes "P (snd (m s))" and "\<And>a t. m s = (Ok a, t) \<Longrightarrow> P t \<Longrightarrow> P (snd (f a t))"
  shows "P (snd (bindM m f s))"
  using assms by (auto simp: bindM_def split: prod.splits outcome.splits)

lemma seqM_inv:
  assumes "P (snd (m s))" and "\<And>t. P t \<Longrightarrow> P (snd (k t))"
  shows "P (snd (seqM m k s))"
  unfolding seqM_def by (rule bindM_inv) (use assms in auto)

lemma forM_inv:
  assumes "P s" and "\<And>x t. x \<in> set xs \<Longrightarrow> P t \<Longrightarrow> P (snd (f x t))"
  shows "P (snd (forM xs f s))"
  using assms
proof (induction xs arbitrary: s)
  case Nil
  then show ?case by simp
next
  case (Cons x xs)
  have "P (snd (f x s))" using Cons.prems by simp
  then show ?case
    using Cons.IH Cons.prems(2) by (auto intro: seqM_inv)
qed

text \<open>A call whose result is dropped.\<close>

definition voidM :: "('s, 'e, 'a) act \<Rightarrow> ('s, 'e, unit) act" where
  "voidM m = bindM m (\<lambda>_. returnM ())"

lemma voidM_state [simp]: "snd (voidM m s) = snd (m s)"
  by (auto simp: voidM_def bindM_def split: prod.splits outcome.splits)

lemma voidM_Ok: "m s = (Ok a, t) \<Longrightarrow> voidM m s = (Ok (), t)"
  by (simp add: voidM_def bindM_Ok)

text \<open>\<open>let _ = call\<close>: an error is dropped, a panic is not.\<close>

definition ignoreM :: "('s, 'e, 'a) act \<Rightarrow> ('s, 'e, unit) act" where
  "ignoreM m s = (case m s of (Panic, t) \<Rightarrow> (Panic, t) | (_, t) \<Rightarrow> (Ok (), t))"

lemma ignoreM_Ok [act_simps]: "m s = (Ok a, t) \<Longrightarrow> ignoreM m s = (Ok (), t)"
  by (simp add: ignoreM_def)

lemma mapM_pure:
  "(\<And>x. x \<in> set xs \<Longrightarrow> f x s = (g x, s)) \<Longrightarrow> mapM f xs s = (mapR g xs, s)"
  by (induction xs) (auto simp: bindM_def bindR_def split: outcome.splits)

lemma mapM_read: "(\<And>x. x \<in> set xs \<Longrightarrow> f x s = (Ok (g x), s)) \<Longrightarrow> mapM f xs s = (Ok (map g xs), s)"
  by (induction xs) (auto simp: bindM_def split: outcome.splits)

lemma liftM_apply [act_simps]:
  "m (get w) = (r, s) \<Longrightarrow> liftM get put m w = (r, put s w)"
  by (simp add: liftM_def)


section \<open>Hash maps\<close>

type_synonym ('k, 'v) hmap = "('k \<times> 'v) list"

definition hget :: "('k, 'v) hmap \<Rightarrow> 'k \<Rightarrow> 'v option" where
  "hget m = map_of m"

definition hput :: "'k \<Rightarrow> 'v \<Rightarrow> ('k, 'v) hmap \<Rightarrow> ('k, 'v) hmap" where
  "hput k v m = AList.update k v m"

definition hdel :: "'k \<Rightarrow> ('k, 'v) hmap \<Rightarrow> ('k, 'v) hmap" where
  "hdel k m = AList.delete k m"

definition hhas :: "('k, 'v) hmap \<Rightarrow> 'k \<Rightarrow> bool" where
  "hhas m k = (hget m k \<noteq> None)"

definition hkeys :: "('k, 'v) hmap \<Rightarrow> 'k list" where
  "hkeys m = map fst m"

definition hvals :: "('k, 'v) hmap \<Rightarrow> 'v list" where
  "hvals m = map snd m"

text \<open>\<open>*map.entry(k).or_insert(d)\<close> followed by an update of the entry.\<close>

definition hentry :: "'k \<Rightarrow> 'v \<Rightarrow> ('v \<Rightarrow> 'v) \<Rightarrow> ('k, 'v) hmap \<Rightarrow> ('k, 'v) hmap" where
  "hentry k d f m = hput k (f (case hget m k of Some v \<Rightarrow> v | None \<Rightarrow> d)) m"

definition hwf :: "('k, 'v) hmap \<Rightarrow> bool" where
  "hwf m = distinct (map fst m)"

lemma hget_Nil [simp]: "hget [] k = None"
  by (simp add: hget_def)

lemma hget_Cons: "hget ((a, b) # m) k = (if k = a then Some b else hget m k)"
  by (simp add: hget_def)

lemma hget_hput [simp]: "hget (hput k v m) = (hget m)(k \<mapsto> v)"
  by (simp add: hget_def hput_def update_conv')

lemma hget_hdel [simp]: "hget (hdel k m) = (hget m)(k := None)"
  by (simp add: hget_def hdel_def delete_conv')

lemma hhas_iff [simp]: "hhas m k \<longleftrightarrow> (\<exists>v. hget m k = Some v)"
  by (auto simp: hhas_def)

lemma hwf_Nil [simp]: "hwf []"
  by (simp add: hwf_def)

lemma hwf_hput [simp]: "hwf m \<Longrightarrow> hwf (hput k v m)"
  by (simp add: hwf_def hput_def distinct_update)

lemma hwf_hdel [simp]: "hwf m \<Longrightarrow> hwf (hdel k m)"
  by (simp add: hwf_def hdel_def distinct_delete)

lemma hget_hentry [simp]:
  "hget (hentry k d f m) = (hget m)(k \<mapsto> f (case hget m k of Some v \<Rightarrow> v | None \<Rightarrow> d))"
  by (simp add: hentry_def)

lemma hwf_hentry [simp]: "hwf m \<Longrightarrow> hwf (hentry k d f m)"
  by (simp add: hentry_def)

lemma set_hkeys: "set (hkeys m) = {k. hget m k \<noteq> None}"
  using dom_map_of_conv_image_fst [of m] by (simp add: hkeys_def hget_def dom_def)

lemma hget_mem: "hget m k = Some v \<Longrightarrow> (k, v) \<in> set m"
  by (simp add: hget_def map_of_SomeD)

lemma mem_hget: "hwf m \<Longrightarrow> (k, v) \<in> set m \<Longrightarrow> hget m k = Some v"
  by (simp add: hget_def hwf_def)

lemma hvals_iff:
  assumes "hwf m"
  shows "v \<in> set (hvals m) \<longleftrightarrow> (\<exists>k. hget m k = Some v)"
proof
  assume "v \<in> set (hvals m)"
  then obtain k where "(k, v) \<in> set m" by (auto simp: hvals_def)
  with assms have "hget m k = Some v" by (rule mem_hget)
  then show "\<exists>k. hget m k = Some v" ..
next
  assume "\<exists>k. hget m k = Some v"
  then obtain k where "(k, v) \<in> set m" using hget_mem by fast
  then show "v \<in> set (hvals m)" by (force simp: hvals_def)
qed


section \<open>Bytes, strings and paths of characters\<close>

unbundle bit_operations_syntax

type_synonym byte = "8 word"
type_synonym bytes = "byte list"
type_synonym u8 = "8 word"
type_synonym u32 = "32 word"
type_synonym u64 = "64 word"

lemma u32_bound: "unat (w :: u32) < 4294967296"
  using unsigned_less [of w, where 'a = nat] by simp

lemma u64_bound: "unat (w :: u64) < 18446744073709551616"
  using unsigned_less [of w, where 'a = nat] by simp

lemma unat_of_nat_u32: "n < 4294967296 \<Longrightarrow> unat (of_nat n :: u32) = n"
  by (simp add: unat_of_nat)

lemma unat_of_nat_u64: "n < 18446744073709551616 \<Longrightarrow> unat (of_nat n :: u64) = n"
  by (simp add: unat_of_nat)

lemma byte_bound: "unat (b :: byte) < 256"
  using unsigned_less [of b, where 'a = nat] by simp

lemma byte_widened: "unat (ucast (b :: byte) :: u32) = unat b"
  using byte_bound [of b] by (simp add: unsigned_ucast_eq take_bit_nat_eq_self_iff)

text \<open>Arithmetic on unsigned integers under overflow checks: an overflow panics. A release build wraps instead;
  the two agree where the properties use it, on sums in range.\<close>

definition add_checked :: "('n::len) word \<Rightarrow> 'n word \<Rightarrow> ('e, 'n word) outcome" where
  "add_checked a b = (if unat a + unat b < 2 ^ LENGTH('n) then Ok (a + b) else Panic)"

fun sum_checked :: "('n::len) word \<Rightarrow> 'n word list \<Rightarrow> ('e, 'n word) outcome" where
  "sum_checked acc [] = Ok acc"
| "sum_checked acc (x # xs) = bindR (add_checked acc x) (\<lambda>a. sum_checked a xs)"

lemma add_checked_Ok:
  "unat a + unat b < 2 ^ LENGTH('n) \<Longrightarrow> add_checked (a :: 'n::len word) b = Ok (a + b)"
  by (simp add: add_checked_def)

lemma unat_add_bounded:
  "unat a + unat b < 2 ^ LENGTH('n) \<Longrightarrow> unat (a + b) = unat a + unat (b :: 'n::len word)"
  by (simp add: unat_word_ariths)

lemma sum_checked_Ok:
  "unat acc + sum_list (map unat xs) < 2 ^ LENGTH('n) \<Longrightarrow>
   sum_checked (acc :: 'n::len word) xs = Ok (acc + sum_list xs)"
proof (induction xs arbitrary: acc)
  case Nil
  then show ?case by simp
next
  case (Cons x xs)
  have "unat acc + unat x < 2 ^ LENGTH('n)" using Cons.prems by simp
  then show ?case
    using Cons by (simp add: add_checked_Ok unat_add_bounded add.assoc)
qed

text \<open>\<open>str::split_once\<close> on one character.\<close>

fun split_once :: "char \<Rightarrow> string \<Rightarrow> (string \<times> string) option" where
  "split_once c [] = None"
| "split_once c (x # xs) =
     (if x = c then Some ([], xs)
      else map_option (\<lambda>(a, b). (x # a, b)) (split_once c xs))"

lemma split_once_Some_iff:
  "split_once c s = Some (a, b) \<longleftrightarrow> s = a @ c # b \<and> c \<notin> set a"
proof (induction s arbitrary: a)
  case Nil
  then show ?case by simp
next
  case (Cons x s)
  then show ?case
    by (cases a) (auto split: option.splits)
qed

lemma split_once_append [simp]: "c \<notin> set a \<Longrightarrow> split_once c (a @ c # b) = Some (a, b)"
  by (simp add: split_once_Some_iff)

lemma split_once_None_iff: "split_once c s = None \<longleftrightarrow> c \<notin> set s"
  by (induction s) (auto split: option.splits)

lemma sep_inj:
  fixes c :: char
  assumes "c \<notin> set x" and "c \<notin> set y" and "x @ c # r = y @ c # s"
  shows "x = y \<and> r = s"
proof -
  have "split_once c (x @ c # r) = Some (x, r)" "split_once c (y @ c # s) = Some (y, s)"
    using assms(1,2) by simp_all
  then show ?thesis by (metis assms(3) option.inject Pair_inject)
qed

text \<open>The bytes of a string.\<close>

lemma of_char_byte_inj: "(of_char c :: byte) = of_char d \<Longrightarrow> c = d"
proof -
  assume eq: "(of_char c :: byte) = of_char d"
  have "unat (of_char x :: byte) = (of_char x :: nat)" for x
    using unat_of_nat [of "of_char x :: nat", where 'a = 8]
    by (simp add: of_nat_of_char)
  then have "(of_char c :: nat) = of_char d" by (metis eq)
  then show ?thesis by simp
qed

text \<open>Decimal rendering of a number by \<open>format!\<close>.\<close>

fun dec_nat :: "nat \<Rightarrow> string" where
  "dec_nat n = (if n < 10 then [char_of (48 + n)]
                else dec_nat (n div 10) @ [char_of (48 + n mod 10)])"

declare dec_nat.simps [simp del]

text \<open>
  \<open>str::is_char_boundary\<close>: slicing a \<open>str\<close> inside a multi-byte character panics.
  A UTF-8 continuation byte is one in \<open>0x80 .. 0xBF\<close>.
\<close>

definition char_boundary :: "string \<Rightarrow> nat \<Rightarrow> bool" where
  "char_boundary s i \<longleftrightarrow>
     i = 0 \<or> i = length s \<or>
     (i < length s \<and> \<not> (128 \<le> (of_char (s ! i) :: nat) \<and> (of_char (s ! i) :: nat) < 192))"

text \<open>
  \<open>s.trim().is_empty()\<close>: every character has the Unicode property White_Space, given
  here by the UTF-8 encodings of those characters.
\<close>

fun blank_codes :: "nat list \<Rightarrow> bool" where
  "blank_codes [] = True"
| "blank_codes (c # r) =
     (if (9 \<le> c \<and> c \<le> 13) \<or> c = 32 then blank_codes r
      else case r of
          [] \<Rightarrow> False
        | d # r2 \<Rightarrow>
            if c = 194 \<and> (d = 133 \<or> d = 160) then blank_codes r2
            else case r2 of
                [] \<Rightarrow> False
              | e # r3 \<Rightarrow>
                  if (c = 225 \<and> d = 154 \<and> e = 128)
                     \<or> (c = 226 \<and> d = 128 \<and> (128 \<le> e \<and> e \<le> 138 \<or> e = 168 \<or> e = 169 \<or> e = 175))
                     \<or> (c = 226 \<and> d = 129 \<and> e = 159)
                     \<or> (c = 227 \<and> d = 128 \<and> e = 128)
                  then blank_codes r3 else False)"

definition is_blank :: "string \<Rightarrow> bool" where
  "is_blank s = blank_codes (map of_char s)"

lemma blank_not_blank_cons:
  "32 < c \<Longrightarrow> c < 194 \<Longrightarrow> \<not> blank_codes (c # r)"
  by (auto split: list.splits)

end
