(* ===== verification/Sodl_Core.thy ===== *)
theory Sodl_Core
  imports Sodl_Prelude
begin

text \<open>
  The primitives of \<open>crates/sodl-core\<close>: identifiers, the shared enumerations, the
  error type and the \<open>Result\<close> alias. An origin identifier is a 128-bit UUID; the other
  identifiers are newtypes around strings and are modelled by the string itself.
  \<open>OffsetDateTime\<close> values are integers (nanoseconds since the epoch).
\<close>

type_synonym uuid = "128 word"
type_synonym origin_id = uuid
type_synonym derivation_id = string
type_synonym share_id = string
type_synonym blob_id = string
type_synonym fingerprint_id = string
type_synonym key_ref = string
type_synonym principal_id = string
type_synonym cluster_id = blob_id
type_synonym time = int

definition SODL_SCHEMA_VERSION :: string where
  "SODL_SCHEMA_VERSION = ''sodl-v1''"

datatype durability = Ephemeral | BestEffort | Durable

datatype capability = Read | Reshare | Derive | PinCap | Admin

datatype media_kind = Binary | Image | Audio | Video | Document | AiModel

datatype weight_pin_reason = Identity | Logic | FrequentUse | Prefetch

datatype sodl_error =
    NotFound
  | Integrity
  | Unauthorized
  | Conflict
  | Invalid string
  | Io string
  | Crypto string
  | Unsupported string
  | Compression string
  | Serialization string
  | WeightStoreErr string

type_synonym 'a res = "(sodl_error, 'a) outcome"
type_synonym ('s, 'a) op = "('s, sodl_error, 'a) act"

end
