(* ===== verification/Sodl_Meta.thy ===== *)
theory Sodl_Meta
  imports Sodl_Core
begin

text \<open>
  The metadata records: policies, pins and tiering (\<open>crates/sodl-policy\<close>), origins
  (\<open>crates/sodl-origin\<close>), derivation manifests and shares (\<open>crates/sodl-manifest\<close>), and
  the reference kinds and lineage edges of \<open>crates/sodl-index\<close>. The current time, which the
  constructors read from the system clock, is an argument.
\<close>

section \<open>Policies and pins\<close>

type_synonym storage_zone = string

record retention_policy =
  rp_durability :: durability
  rp_ttl_seconds :: "u64 option"
  rp_min_replicas :: "u8 option"

record access_policy =
  ap_default_caps :: "capability list"
  ap_allow_reshare :: bool
  ap_allow_derivation :: bool

record origin_policy =
  op_origin_id :: origin_id
  op_retention :: retention_policy
  op_access :: access_policy

datatype pin_target = PinOrigin origin_id | PinRepresentation origin_id string

datatype pin_state = Pending | Active | Released

record pin_record =
  pr_pin_id :: string
  pr_target :: pin_target
  pr_requested_by :: principal_id
  pr_created_at :: time
  pr_state :: pin_state
  pr_min_replicas :: "u8 option"
  pr_required_zones :: "storage_zone list"

datatype access_tier = Hot | Warm | Cold

definition access_tier_default :: access_tier where
  "access_tier_default = Warm"

record tiering_policy =
  tp_hot_threshold_accesses :: u64
  tp_hot_window_seconds :: u64
  tp_cold_after_seconds :: u64

definition tiering_default :: tiering_policy where
  "tiering_default = \<lparr>tp_hot_threshold_accesses = 5, tp_hot_window_seconds = 86400,
     tp_cold_after_seconds = 7 * 86400\<rparr>"

definition evaluate_tier :: "u64 \<Rightarrow> u64 \<Rightarrow> tiering_policy \<Rightarrow> access_tier" where
  "evaluate_tier access_count idle p =
     (if access_count \<ge> tp_hot_threshold_accesses p \<and> idle \<le> tp_hot_window_seconds p then Hot
      else if idle > tp_cold_after_seconds p then Cold
      else Warm)"


section \<open>Origins\<close>

record representation =
  rep_name :: string
  rep_media_kind :: media_kind
  rep_mime :: "string option"
  rep_size_bytes :: "u64 option"
  rep_root_blobs :: "blob_id list"

record origin_record =
  or_origin_id :: origin_id
  or_media_kind :: media_kind
  or_durability :: durability
  or_created_at :: time
  or_tombstoned_at :: "time option"
  or_tombstone_reason :: "string option"
  or_representations :: "representation list"
  or_fingerprint_ids :: "fingerprint_id list"
  or_key_ref :: "key_ref option"
  or_owner :: "principal_id option"

definition origin_record_new :: "origin_id \<Rightarrow> media_kind \<Rightarrow> durability \<Rightarrow> time \<Rightarrow> origin_record" where
  "origin_record_new org media dur now =
     \<lparr>or_origin_id = org, or_media_kind = media, or_durability = dur, or_created_at = now,
      or_tombstoned_at = None, or_tombstone_reason = None, or_representations = [],
      or_fingerprint_ids = [], or_key_ref = None, or_owner = None\<rparr>"


section \<open>Derivations and shares\<close>

record timeline_range =
  start_ms :: u64
  end_ms :: u64

datatype derivation_kind =
    Trim timeline_range
  | Crop u32 u32 u32 u32
  | Transform string

record derivation_manifest =
  dm_schema :: string
  dm_origin_id :: origin_id
  dm_derivation_id :: derivation_id
  dm_parent :: "derivation_id option"
  dm_created_at :: time
  dm_media_kind :: media_kind
  dm_kind :: derivation_kind
  dm_output_blobs :: "blob_id list"
  dm_fingerprint_ids :: "fingerprint_id list"

definition derivation_new ::
  "origin_id \<Rightarrow> derivation_id \<Rightarrow> media_kind \<Rightarrow> derivation_kind \<Rightarrow> time \<Rightarrow> derivation_manifest" where
  "derivation_new org did media kind now =
     \<lparr>dm_schema = SODL_SCHEMA_VERSION, dm_origin_id = org, dm_derivation_id = did,
      dm_parent = None, dm_created_at = now, dm_media_kind = media, dm_kind = kind,
      dm_output_blobs = [], dm_fingerprint_ids = []\<rparr>"

definition schema_mismatch :: "string \<Rightarrow> sodl_error" where
  "schema_mismatch got =
     Invalid (''schema mismatch: expected '' @ SODL_SCHEMA_VERSION @ '', got '' @ got)"

definition derivation_validate :: "derivation_manifest \<Rightarrow> unit res" where
  "derivation_validate m =
     (if dm_schema m \<noteq> SODL_SCHEMA_VERSION then Err (schema_mismatch (dm_schema m)) else Ok ())"

record share_record =
  sr_schema :: string
  sr_share_id :: share_id
  sr_origin_id :: origin_id
  sr_derivation_id :: "derivation_id option"
  sr_from_principal :: principal_id
  sr_to_principal :: principal_id
  sr_created_at :: time
  sr_capabilities :: "capability list"
  sr_proof_digest :: string
  sr_proof_created_at :: time
  sr_proof_key_id :: "string option"
  sr_proof_sig_b64 :: "string option"

definition share_validate :: "share_record \<Rightarrow> unit res" where
  "share_validate s =
     (if sr_schema s \<noteq> SODL_SCHEMA_VERSION then Err (schema_mismatch (sr_schema s))
      else if is_blank (sr_proof_digest s) then Err (Invalid ''missing lineage_proof_digest'')
      else Ok ())"

lemma derivation_new_valid [simp]: "derivation_validate (derivation_new org did media kind now) = Ok ()"
  by (simp add: derivation_validate_def derivation_new_def)


section \<open>References and lineage\<close>

datatype ref_kind =
    RefRepresentation string
  | RefShare share_id principal_id principal_id
  | RefDerivation derivation_id
  | RefPin string

record lineage_edge =
  le_edge_id :: string
  le_origin_id :: origin_id
  le_blob_id :: "blob_id option"
  le_kind :: ref_kind
  le_created_at :: time


section \<open>Tiers\<close>

fun tier_rank :: "access_tier \<Rightarrow> nat" where
  "tier_rank Cold = 0"
| "tier_rank Warm = 1"
| "tier_rank Hot = 2"

text \<open>Tiering is monotone under every policy, consistent or not: more accesses never move a blob to
  a colder tier, and a longer idle time never moves it to a hotter one.\<close>

theorem tiering_monotone:
  "(a \<le> a' \<longrightarrow> tier_rank (evaluate_tier a idle p) \<le> tier_rank (evaluate_tier a' idle p))
   \<and> (idle \<le> idle' \<longrightarrow> tier_rank (evaluate_tier a idle' p) \<le> tier_rank (evaluate_tier a idle p))"
  by (auto simp: evaluate_tier_def)

theorem tiering_monotone_witness:
  "tier_rank (evaluate_tier 5 700000 tiering_default) \<le> tier_rank (evaluate_tier 5 3600 tiering_default)
   \<and> evaluate_tier 5 3600 tiering_default = Hot \<and> evaluate_tier 5 700000 tiering_default = Cold"
proof -
  have "(3600 :: u64) \<le> 700000" by (simp add: word_le_nat_alt)
  then have "tier_rank (evaluate_tier 5 700000 tiering_default) \<le> tier_rank (evaluate_tier 5 3600 tiering_default)"
    using tiering_monotone [of 5 5 3600 tiering_default 700000] by simp
  moreover have "evaluate_tier 5 3600 tiering_default = Hot \<and> evaluate_tier 5 700000 tiering_default = Cold"
    by (simp add: evaluate_tier_def tiering_default_def word_le_nat_alt word_less_nat_alt)
  ultimately show ?thesis by simp
qed

end
