(* ===== verification/Sodl_Index.thy ===== *)
theory Sodl_Index
  imports Sodl_Meta
begin

text \<open>
  The in-memory index, \<open>crates/sodl-index\<close>: reference counters of origins and blobs, the
  lineage edges, the provenance fingerprints and the access tracker. Counters are 64-bit
  signed integers, kept as \<open>int\<close> with the overflow of an increment written out.
\<close>

section \<open>MemIndex\<close>

record mem_index =
  mi_origin_counts :: "(origin_id, int) hmap"
  mi_blob_counts :: "(string, int) hmap"
  mi_edges :: "lineage_edge list"
  mi_payload_fps :: "(string, origin_id list) hmap"
  mi_chunk_fps :: "(string, origin_id list) hmap"

definition mem_index_new :: mem_index where
  "mem_index_new = \<lparr>mi_origin_counts = [], mi_blob_counts = [], mi_edges = [],
     mi_payload_fps = [], mi_chunk_fps = []\<rparr>"

definition I64_MAX :: int where "I64_MAX = 2 ^ 63 - 1"

definition count_of :: "('k, int) hmap \<Rightarrow> 'k \<Rightarrow> int" where
  "count_of m k = (case hget m k of Some n \<Rightarrow> n | None \<Rightarrow> 0)"

definition mem_inc_origin :: "origin_id \<Rightarrow> ref_kind \<Rightarrow> (mem_index, unit) op" where
  "mem_inc_origin org reason s =
     (if count_of (mi_origin_counts s) org = I64_MAX then (Panic, s)
      else (Ok (), s\<lparr>mi_origin_counts := hentry org 0 (\<lambda>n. n + 1) (mi_origin_counts s)\<rparr>))"

definition mem_dec_origin :: "origin_id \<Rightarrow> ref_kind \<Rightarrow> (mem_index, unit) op" where
  "mem_dec_origin org reason =
     modifyM (\<lambda>s. s\<lparr>mi_origin_counts :=
       hentry org 0 (\<lambda>n. if n - 1 < 0 then 0 else n - 1) (mi_origin_counts s)\<rparr>)"

definition mem_get_origin_refs :: "origin_id \<Rightarrow> (mem_index, int) op" where
  "mem_get_origin_refs org = readM (\<lambda>s. Ok (count_of (mi_origin_counts s) org))"

definition mem_inc_blob :: "blob_id \<Rightarrow> ref_kind \<Rightarrow> (mem_index, unit) op" where
  "mem_inc_blob bid reason s =
     (if count_of (mi_blob_counts s) bid = I64_MAX then (Panic, s)
      else (Ok (), s\<lparr>mi_blob_counts := hentry bid 0 (\<lambda>n. n + 1) (mi_blob_counts s)\<rparr>))"

definition mem_dec_blob :: "blob_id \<Rightarrow> ref_kind \<Rightarrow> (mem_index, unit) op" where
  "mem_dec_blob bid reason =
     modifyM (\<lambda>s. s\<lparr>mi_blob_counts :=
       hentry bid 0 (\<lambda>n. if n - 1 < 0 then 0 else n - 1) (mi_blob_counts s)\<rparr>)"

definition mem_get_blob_refs :: "blob_id \<Rightarrow> (mem_index, int) op" where
  "mem_get_blob_refs bid = readM (\<lambda>s. Ok (count_of (mi_blob_counts s) bid))"

definition mem_list_origins :: "(mem_index, origin_id list) op" where
  "mem_list_origins = readM (\<lambda>s. Ok (hkeys (mi_origin_counts s)))"

definition mem_list_blobs :: "(mem_index, blob_id list) op" where
  "mem_list_blobs = readM (\<lambda>s. Ok (hkeys (mi_blob_counts s)))"

definition mem_add_edge :: "lineage_edge \<Rightarrow> (mem_index, unit) op" where
  "mem_add_edge e = modifyM (\<lambda>s. s\<lparr>mi_edges := mi_edges s @ [e]\<rparr>)"

definition mem_list_edges :: "origin_id \<Rightarrow> (mem_index, lineage_edge list) op" where
  "mem_list_edges org = readM (\<lambda>s. Ok (filter (\<lambda>e. le_origin_id e = org) (mi_edges s)))"

definition push_unique :: "'a \<Rightarrow> 'a list \<Rightarrow> 'a list" where
  "push_unique x xs = (if x \<in> set xs then xs else xs @ [x])"

definition mem_put_payload_fp :: "origin_id \<Rightarrow> string \<Rightarrow> (mem_index, unit) op" where
  "mem_put_payload_fp org fp =
     modifyM (\<lambda>s. s\<lparr>mi_payload_fps := hentry fp [] (push_unique org) (mi_payload_fps s)\<rparr>)"

definition mem_put_chunk_fps :: "origin_id \<Rightarrow> string list \<Rightarrow> (mem_index, unit) op" where
  "mem_put_chunk_fps org fps =
     modifyM (\<lambda>s. s\<lparr>mi_chunk_fps := fold (\<lambda>fp. hentry fp [] (push_unique org)) fps (mi_chunk_fps s)\<rparr>)"

definition mem_find_payload_fp :: "string \<Rightarrow> (mem_index, origin_id list) op" where
  "mem_find_payload_fp fp =
     readM (\<lambda>s. Ok (case hget (mi_payload_fps s) fp of Some l \<Rightarrow> l | None \<Rightarrow> []))"

text \<open>The counts of a query: one for every queried fingerprint and every origin that has it,
  most matches first. The sort is stable on the arbitrary order of the table.\<close>

definition fp_counts :: "(string, origin_id list) hmap \<Rightarrow> string list \<Rightarrow> (origin_id, nat) hmap" where
  "fp_counts m fps =
     fold (\<lambda>fp c. case hget m fp of None \<Rightarrow> c | Some l \<Rightarrow> fold (\<lambda>org. hentry org 0 Suc) l c) fps []"

definition mem_find_chunk_fps :: "string list \<Rightarrow> (mem_index, (origin_id \<times> nat) list) op" where
  "mem_find_chunk_fps fps =
     readM (\<lambda>s. Ok (rev (sort_key snd (rev (fp_counts (mi_chunk_fps s) fps)))))"


section \<open>MemAccessTracker\<close>

record access_record =
  ar_blob_id :: blob_id
  ar_access_count :: u64
  ar_first_accessed_at :: time
  ar_last_accessed_at :: time

type_synonym access_tracker = "(string, access_record) hmap"

definition record_access :: "blob_id \<Rightarrow> time \<Rightarrow> (access_tracker, unit) op" where
  "record_access bid now m =
     (let rec0 = (case hget m bid of Some r \<Rightarrow> r
        | None \<Rightarrow> \<lparr>ar_blob_id = bid, ar_access_count = 0, ar_first_accessed_at = now, ar_last_accessed_at = now\<rparr>)
      in case add_checked (ar_access_count rec0) 1 of
           Ok n \<Rightarrow> (Ok (), hput bid (rec0\<lparr>ar_access_count := n, ar_last_accessed_at := now\<rparr>) m)
         | Err e \<Rightarrow> (Err e, m)
         | Panic \<Rightarrow> (Panic, m))"

definition tracker_get :: "blob_id \<Rightarrow> (access_tracker, access_record option) op" where
  "tracker_get bid = readM (\<lambda>m. Ok (hget m bid))"

definition tracker_list :: "(access_tracker, access_record list) op" where
  "tracker_list = readM (\<lambda>m. Ok (hvals m))"


section \<open>Counters\<close>

lemma count_of_hentry [simp]:
  "count_of (hentry k 0 f m) j = (if j = k then f (count_of m k) else count_of m j)"
  by (simp add: count_of_def)

lemma count_of_Nil [simp]: "count_of [] k = 0"
  by (simp add: count_of_def)

definition saturating_dec :: "int \<Rightarrow> int" where
  "saturating_dec n = max 0 (n - 1)"

lemma dec_saturating: "(if n - 1 < 0 then 0 else n - 1) = saturating_dec n"
  by (simp add: saturating_dec_def)

lemma saturating_dec_inc: "0 \<le> n \<Longrightarrow> saturating_dec (n + 1) = n"
  by (simp add: saturating_dec_def)

definition mi_counts_ok :: "mem_index \<Rightarrow> bool" where
  "mi_counts_ok s \<longleftrightarrow> hwf (mi_origin_counts s) \<and> hwf (mi_blob_counts s)
     \<and> (\<forall>org. 0 \<le> count_of (mi_origin_counts s) org) \<and> (\<forall>b. 0 \<le> count_of (mi_blob_counts s) b)"

lemma mi_counts_ok_steps:
  assumes "mi_counts_ok s"
  shows "mi_counts_ok (snd (mem_inc_origin org r s))" "mi_counts_ok (snd (mem_dec_origin org r s))"
    "mi_counts_ok (snd (mem_inc_blob b r s))" "mi_counts_ok (snd (mem_dec_blob b r s))"
  using assms by (auto simp: mi_counts_ok_def mem_inc_origin_def mem_dec_origin_def mem_inc_blob_def
      mem_dec_blob_def)


section \<open>Provenance queries\<close>

definition tally :: "('k, nat) hmap \<Rightarrow> 'k \<Rightarrow> nat" where
  "tally c k = (case hget c k of Some n \<Rightarrow> n | None \<Rightarrow> 0)"

lemma tally_hentry [simp]:
  "tally (hentry org 0 Suc c) k = (if k = org then Suc (tally c k) else tally c k)"
  by (simp add: tally_def)

lemma fold_incr_count: "tally (fold (\<lambda>org. hentry org 0 Suc) l c) k = tally c k + count_list l k"
  by (induction l arbitrary: c) auto

lemma fold_incr_wf: "hwf c \<Longrightarrow> hwf (fold (\<lambda>org. hentry org 0 Suc) l c)"
  by (induction l arbitrary: c) simp_all

lemma fold_incr_keys:
  "{k. hget (fold (\<lambda>org. hentry org (0::nat) Suc) l c) k \<noteq> None} = {k. hget c k \<noteq> None} \<union> set l"
  by (induction l arbitrary: c) auto

definition fp_of :: "(string, origin_id list) hmap \<Rightarrow> string \<Rightarrow> origin_id list" where
  "fp_of m fp = (case hget m fp of Some l \<Rightarrow> l | None \<Rightarrow> [])"

lemma fp_counts_concat:
  "fp_counts m fps = fold (\<lambda>org. hentry org 0 Suc) (concat (map (fp_of m) fps)) []"
proof -
  have "fold (\<lambda>fp c. case hget m fp of None \<Rightarrow> c | Some l \<Rightarrow> fold (\<lambda>org. hentry org 0 Suc) l c) fps c
    = fold (\<lambda>org. hentry org 0 Suc) (concat (map (fp_of m) fps)) c" for c :: "(origin_id, nat) hmap"
    by (induction fps arbitrary: c) (auto simp: fp_of_def split: option.splits)
  then show ?thesis by (simp add: fp_counts_def)
qed

text \<open>Counting the entries of a list, most frequent first.\<close>

lemma ranked_counts:
  fixes l :: "origin_id list"
  assumes "out = rev (sort_key snd (rev (fold (\<lambda>org. hentry org 0 Suc) l [])))"
  shows "distinct (map fst out)" "sorted (rev (map snd out))"
    "(org, n) \<in> set out \<longleftrightarrow> n = count_list l org \<and> 0 < n"
proof -
  let ?c = "fold (\<lambda>org. hentry org 0 Suc) l [] :: (origin_id, nat) hmap"
  have wf: "hwf ?c" by (rule fold_incr_wf) simp
  have cnt: "tally ?c k = count_list l k" for k
    using fold_incr_count [of l "[]" k] by (simp add: tally_def)
  have "(org, n) \<in> set out \<longleftrightarrow> hget ?c org = Some n"
    using hget_mem [of ?c org n] mem_hget [OF wf, of org n] assms by auto
  moreover have "hget ?c org = Some n \<longleftrightarrow> n = count_list l org \<and> 0 < n"
  proof -
    have "hget ?c org \<noteq> None \<longleftrightarrow> org \<in> set l" using fold_incr_keys [of l "[]"] by auto
    moreover have "0 < count_list l org \<longleftrightarrow> org \<in> set l" using count_list_0_iff [of l org] by auto
    ultimately show ?thesis using cnt [of org] by (cases "hget ?c org") (auto simp: tally_def)
  qed
  ultimately show "(org, n) \<in> set out \<longleftrightarrow> n = count_list l org \<and> 0 < n" by simp
  show "distinct (map fst out)" using wf assms by (simp add: hwf_def distinct_map inj_on_def)
  show "sorted (rev (map snd out))" using assms by (simp add: rev_map)
qed

lemma ranked_keys:
  fixes l :: "origin_id list"
  assumes "out = rev (sort_key snd (rev (fold (\<lambda>org. hentry org 0 Suc) l [])))"
  shows "set (map fst out) = set l \<and> (\<forall>x \<in> set out. 0 < snd x)"
proof -
  note ranked = ranked_counts(3) [OF assms]
  have "org \<in> fst ` set out \<longleftrightarrow> (\<exists>n. (org, n) \<in> set out)" for org by (force simp: image_iff)
  then have "org \<in> fst ` set out \<longleftrightarrow> org \<in> set l" for org
    using ranked count_list_0_iff [of l org] by auto
  moreover have "0 < snd x" if "x \<in> set out" for x using ranked [of "fst x" "snd x"] that by simp
  ultimately show ?thesis by auto
qed

lemma chunk_query:
  "\<exists>out. mem_find_chunk_fps fps s = (Ok out, s) \<and> distinct (map fst out) \<and> sorted (rev (map snd out))
    \<and> (\<forall>org n. (org, n) \<in> set out \<longleftrightarrow>
        n = sum_list (map (\<lambda>fp. count_list (fp_of (mi_chunk_fps s) fp) org) fps) \<and> 0 < n)"
proof -
  let ?l = "concat (map (fp_of (mi_chunk_fps s)) fps)"
  define out where out: "out = rev (sort_key snd (rev (fold (\<lambda>org. hentry org 0 Suc) ?l [])))"
  have "mem_find_chunk_fps fps s = (Ok out, s)"
    by (simp add: mem_find_chunk_fps_def fp_counts_concat out)
  moreover have "count_list ?l k = sum_list (map (\<lambda>fp. count_list (fp_of (mi_chunk_fps s) fp) k) fps)" for k
    by (induction fps) simp_all
  ultimately show ?thesis using ranked_counts [OF out] by auto
qed

text \<open>A provenance query returns every origin that shares a fingerprint with the query exactly once,
  with the number of matching query fingerprints (repetitions in the query counted), best match first.\<close>

theorem find_chunk_fps_spec:
  "\<exists>out. mem_find_chunk_fps fps s = (Ok out, s) \<and> distinct (map fst out) \<and> sorted (rev (map snd out))
    \<and> (\<forall>org n. (org, n) \<in> set out \<longleftrightarrow>
        n = sum_list (map (\<lambda>fp. count_list (fp_of (mi_chunk_fps s) fp) org) fps) \<and> 0 < n)"
  by (rule chunk_query)

end
