(* ===== verification/Sodl_MemStores.thy ===== *)
theory Sodl_MemStores
  imports Sodl_Meta
begin

text \<open>
  The in-memory metadata stores: origins, policies, pins, derivations and shares
  (\<open>crates/sodl-service/src/lib.rs\<close>), tombstones (\<open>crates/sodl-gc\<close>) and replicas
  (\<open>crates/sodl-replica\<close>), each as operations on its own table.
\<close>

section \<open>Origins and policies\<close>

type_synonym mem_origins = "(origin_id, origin_record) hmap"

definition mem_create_origin :: "origin_record \<Rightarrow> (mem_origins, unit) op" where
  "mem_create_origin r m =
     (if hhas m (or_origin_id r) then (Err Conflict, m) else (Ok (), hput (or_origin_id r) r m))"

definition mem_get_origin :: "origin_id \<Rightarrow> (mem_origins, origin_record) op" where
  "mem_get_origin org = readM (\<lambda>m. of_option NotFound (hget m org))"

definition mem_update_origin :: "origin_record \<Rightarrow> (mem_origins, unit) op" where
  "mem_update_origin r = modifyM (hput (or_origin_id r) r)"

definition mem_delete_origin :: "origin_id \<Rightarrow> (mem_origins, unit) op" where
  "mem_delete_origin org = modifyM (hdel org)"

type_synonym mem_policies = "(origin_id, origin_policy) hmap"

definition mem_get_policy :: "origin_id \<Rightarrow> (mem_policies, origin_policy) op" where
  "mem_get_policy org = readM (\<lambda>m. of_option NotFound (hget m org))"

definition mem_put_policy :: "origin_policy \<Rightarrow> (mem_policies, unit) op" where
  "mem_put_policy p = modifyM (hput (op_origin_id p) p)"


section \<open>Pins\<close>

type_synonym mem_pins = "(string, pin_record) hmap"

definition mem_create_pin :: "pin_record \<Rightarrow> (mem_pins, unit) op" where
  "mem_create_pin p = modifyM (hput (pr_pin_id p) p)"

definition mem_get_pin :: "string \<Rightarrow> (mem_pins, pin_record) op" where
  "mem_get_pin pid = readM (\<lambda>m. of_option NotFound (hget m pid))"

definition mem_list_pins :: "origin_id \<Rightarrow> (mem_pins, pin_record list) op" where
  "mem_list_pins org = readM (\<lambda>m. Ok (filter (\<lambda>p. pr_target p = PinOrigin org) (hvals m)))"

definition mem_update_pin :: "pin_record \<Rightarrow> (mem_pins, unit) op" where
  "mem_update_pin p = modifyM (hput (pr_pin_id p) p)"

definition mem_release_pin :: "string \<Rightarrow> (mem_pins, unit) op" where
  "mem_release_pin pid m =
     (case hget m pid of
        Some p \<Rightarrow> (Ok (), hput pid (p\<lparr>pr_state := Released\<rparr>) m)
      | None \<Rightarrow> (Err NotFound, m))"


section \<open>Derivations and shares\<close>

type_synonym mem_derivations = "(origin_id \<times> string, derivation_manifest) hmap"

definition mem_put_derivation :: "derivation_manifest \<Rightarrow> (mem_derivations, unit) op" where
  "mem_put_derivation d = modifyM (hput (dm_origin_id d, dm_derivation_id d) d)"

definition mem_get_derivation :: "origin_id \<Rightarrow> derivation_id \<Rightarrow> (mem_derivations, derivation_manifest) op" where
  "mem_get_derivation org did = readM (\<lambda>m. of_option NotFound (hget m (org, did)))"

definition mem_list_derivations :: "origin_id \<Rightarrow> (mem_derivations, derivation_manifest list) op" where
  "mem_list_derivations org = readM (\<lambda>m. Ok (filter (\<lambda>d. dm_origin_id d = org) (hvals m)))"

type_synonym mem_shares = "(string, share_record) hmap"

definition mem_put_share :: "share_record \<Rightarrow> (mem_shares, unit) op" where
  "mem_put_share s = modifyM (hput (sr_share_id s) s)"

definition mem_get_share :: "share_id \<Rightarrow> (mem_shares, share_record) op" where
  "mem_get_share sid = readM (\<lambda>m. of_option NotFound (hget m sid))"

definition mem_list_shares :: "origin_id \<Rightarrow> (mem_shares, share_record list) op" where
  "mem_list_shares org = readM (\<lambda>m. Ok (filter (\<lambda>s. sr_origin_id s = org) (hvals m)))"


section \<open>Tombstones\<close>

datatype tombstone_kind = TombOrigin | TombBlob

record tombstone =
  tb_tombstone_id :: string
  tb_kind :: tombstone_kind
  tb_origin_id :: "origin_id option"
  tb_blob_id :: "blob_id option"
  tb_reason :: string
  tb_created_at :: time

type_synonym mem_tombstones = "tombstone list"

definition mem_put_tombstone :: "tombstone \<Rightarrow> (mem_tombstones, unit) op" where
  "mem_put_tombstone t = modifyM (\<lambda>ts. ts @ [t])"

definition mem_get_tombstone :: "string \<Rightarrow> (mem_tombstones, tombstone) op" where
  "mem_get_tombstone tid = readM (\<lambda>ts. of_option NotFound (List.find (\<lambda>t. tb_tombstone_id t = tid) ts))"

definition mem_list_tombstones :: "origin_id \<Rightarrow> (mem_tombstones, tombstone list) op" where
  "mem_list_tombstones org = readM (\<lambda>ts. Ok (filter (\<lambda>t. tb_origin_id t = Some org) ts))"


section \<open>Replicas\<close>

datatype replica_state = Healthy | Unknown | Dead

record replica_record =
  rr_blob_id :: blob_id
  rr_node_id :: string
  rr_state :: replica_state
  rr_last_seen :: time

type_synonym mem_replicas = "(string \<times> string, replica_record) hmap"

definition mem_upsert_replica :: "replica_record \<Rightarrow> (mem_replicas, unit) op" where
  "mem_upsert_replica r = modifyM (hput (rr_blob_id r, rr_node_id r) r)"

definition mem_list_replicas :: "blob_id \<Rightarrow> (mem_replicas, replica_record list) op" where
  "mem_list_replicas bid = readM (\<lambda>m. Ok (filter (\<lambda>r. rr_blob_id r = bid) (hvals m)))"

definition mem_healthy_count :: "blob_id \<Rightarrow> (mem_replicas, int) op" where
  "mem_healthy_count bid =
     bindM (mem_list_replicas bid)
       (\<lambda>rs. returnM (int (length (filter (\<lambda>r. rr_state r = Healthy) rs))))"

text \<open>\<open>Duration::whole_seconds\<close> truncates towards zero.\<close>

definition whole_seconds :: "int \<Rightarrow> int" where
  "whole_seconds d = (if 0 \<le> d then d div 1000000000 else - ((- d) div 1000000000))"

definition fresh :: "int \<Rightarrow> time \<Rightarrow> replica_record \<Rightarrow> bool" where
  "fresh stale now r \<longleftrightarrow> whole_seconds (now - rr_last_seen r) \<le> stale"

definition mem_healthy_count_with_stale :: "blob_id \<Rightarrow> int \<Rightarrow> time \<Rightarrow> (mem_replicas, int) op" where
  "mem_healthy_count_with_stale bid stale now =
     bindM (mem_list_replicas bid)
       (\<lambda>rs. returnM (fold (\<lambda>r n. if rr_state r \<noteq> Healthy then n
                 else if fresh stale now r then n + 1 else n) rs 0))"

text \<open>The key of a row is made of the fields of its record.\<close>

definition replicas_keyed :: "mem_replicas \<Rightarrow> bool" where
  "replicas_keyed m \<longleftrightarrow> hwf m \<and> (\<forall>k r. hget m k = Some r \<longrightarrow> k = (rr_blob_id r, rr_node_id r))"

lemma upsert_keyed: "replicas_keyed m \<Longrightarrow> replicas_keyed (snd (mem_upsert_replica r m))"
  by (auto simp: replicas_keyed_def mem_upsert_replica_def split: if_splits)

lemma fold_count:
  "fold (\<lambda>r n. if P r then n else if Q r then n + 1 else n) rs (k :: int)
    = k + int (length (filter (\<lambda>r. \<not> P r \<and> Q r) rs))"
  by (induction rs arbitrary: k) auto

lemma mem_healthy_count_with_stale_eq:
  "mem_healthy_count_with_stale bid stale now m =
    (Ok (int (length (filter (\<lambda>r. rr_blob_id r = bid \<and> rr_state r = Healthy \<and> fresh stale now r) (hvals m)))), m)"
  by (simp add: mem_healthy_count_with_stale_def mem_list_replicas_def fold_count conj_commute conj_left_commute
      bindM_Ok [of "readM _"])

end
