(* ===== verification/Sodl_Fs.thy ===== *)
theory Sodl_Fs
  imports Sodl_Core
begin

text \<open>
  The part of \<open>std::fs\<close> and \<open>std::path\<close> that the stores call, on a tree of directories
  and regular files without symbolic links. A path is the list of its components from the
  root of the file system. \<open>fs_walk\<close> resolves a path the way the kernel does: every
  component but the last has to be an existing directory, and \<open>..\<close> goes to the parent.
  The failures modelled are those of the tree itself (missing or wrong kind of node), not
  those of the device.
\<close>

section \<open>Paths\<close>

type_synonym path = "string list"

fun split_all :: "char \<Rightarrow> string \<Rightarrow> string list" where
  "split_all c [] = [[]]"
| "split_all c (x # xs) =
     (if x = c then [] # split_all c xs
      else case split_all c xs of [] \<Rightarrow> [[x]] | y # ys \<Rightarrow> (x # y) # ys)"

definition path_comps :: "string \<Rightarrow> path" where
  "path_comps s = filter (\<lambda>c. c \<noteq> [] \<and> c \<noteq> ''.'') (split_all (CHR ''/'') s)"

text \<open>\<open>Path::join\<close>: an absolute argument replaces the path.\<close>

definition path_join :: "path \<Rightarrow> string \<Rightarrow> path" where
  "path_join p s =
     (if s \<noteq> [] \<and> hd s = CHR ''/'' then path_comps s else p @ path_comps s)"

text \<open>\<open>Path::with_extension\<close>: replaces what follows the last dot of the file name, unless
  that dot starts it.\<close>

definition name_with_extension :: "string \<Rightarrow> string \<Rightarrow> string" where
  "name_with_extension name ext =
     (case split_once (CHR ''.'') (rev name) of
        None \<Rightarrow> name @ ''.'' @ ext
      | Some (_, stem_rev) \<Rightarrow>
          if stem_rev = [] then name @ ''.'' @ ext else rev stem_rev @ ''.'' @ ext)"

definition path_with_extension :: "path \<Rightarrow> string \<Rightarrow> path" where
  "path_with_extension p ext =
     (if p = [] \<or> last p = ''..'' then p
      else butlast p @ [name_with_extension (last p) ext])"

definition path_show :: "path \<Rightarrow> string" where
  "path_show p = (if p = [] then ''/'' else concat (map (\<lambda>c. ''/'' @ c) p))"

lemma split_all_no_sep: "c \<notin> set s \<Longrightarrow> split_all c s = [s]"
  by (induction s) auto

lemma path_comps_single:
  "s \<noteq> [] \<Longrightarrow> s \<noteq> ''.'' \<Longrightarrow> CHR ''/'' \<notin> set s \<Longrightarrow> path_comps s = [s]"
  by (simp add: path_comps_def split_all_no_sep)

lemma path_join_single:
  "s \<noteq> [] \<Longrightarrow> s \<noteq> ''.'' \<Longrightarrow> CHR ''/'' \<notin> set s \<Longrightarrow> path_join p s = p @ [s]"
  by (cases s) (auto simp: path_join_def path_comps_single)

lemma name_with_extension_no_dot:
  "CHR ''.'' \<notin> set name \<Longrightarrow> name_with_extension name ext = name @ ''.'' @ ext"
  by (simp add: name_with_extension_def split_once_None_iff [THEN iffD2])


section \<open>The tree\<close>

record fs =
  fs_files :: "(path, bytes) hmap"
  fs_dirs :: "path list"

datatype io_kind = EntryNotFound | NotADirectory | IsADirectory | AlreadyExists

fun io_show :: "io_kind \<Rightarrow> string" where
  "io_show EntryNotFound = ''No such file or directory (os error 2)''"
| "io_show NotADirectory = ''Not a directory (os error 20)''"
| "io_show IsADirectory = ''Is a directory (os error 21)''"
| "io_show AlreadyExists = ''File exists (os error 17)''"

fun fs_walk :: "fs \<Rightarrow> path \<Rightarrow> string list \<Rightarrow> (io_kind, path) outcome" where
  "fs_walk s cur [] = Ok cur"
| "fs_walk s cur (c # cs) =
     (if cur \<in> set (fs_dirs s) then
        fs_walk s (if c = ''..'' then butlast cur else cur @ [c]) cs
      else if hhas (fs_files s) cur then Err NotADirectory
      else Err EntryNotFound)"

definition fs_exists :: "fs \<Rightarrow> path \<Rightarrow> bool" where
  "fs_exists s p =
     (case fs_walk s [] p of
        Ok q \<Rightarrow> q \<in> set (fs_dirs s) \<or> hhas (fs_files s) q
      | _ \<Rightarrow> False)"

definition fs_read :: "path \<Rightarrow> (fs, io_kind, bytes) act" where
  "fs_read p s =
     (bindR (fs_walk s [] p) (\<lambda>q.
        if q \<in> set (fs_dirs s) then Err IsADirectory
        else of_option EntryNotFound (hget (fs_files s) q)), s)"

definition fs_write :: "path \<Rightarrow> bytes \<Rightarrow> (fs, io_kind, unit) act" where
  "fs_write p d s =
     (case bindR (fs_walk s [] p) (\<lambda>q.
         if q \<in> set (fs_dirs s) then Err IsADirectory
         else if butlast q \<in> set (fs_dirs s) then Ok q
         else Err EntryNotFound) of
        Ok q \<Rightarrow> (Ok (), s\<lparr>fs_files := hput q d (fs_files s)\<rparr>)
      | Err e \<Rightarrow> (Err e, s)
      | Panic \<Rightarrow> (Panic, s))"

text \<open>\<open>std::fs::rename\<close> of a regular file; an existing target file is replaced.\<close>

definition fs_rename :: "path \<Rightarrow> path \<Rightarrow> (fs, io_kind, unit) act" where
  "fs_rename a b s =
     (case bindR (fs_walk s [] a) (\<lambda>p. bindR (fs_walk s [] b) (\<lambda>q.
         case hget (fs_files s) p of
           None \<Rightarrow> Err EntryNotFound
         | Some d \<Rightarrow>
             if q \<in> set (fs_dirs s) then Err IsADirectory
             else if butlast q \<in> set (fs_dirs s) then Ok (p, q, d)
             else Err EntryNotFound)) of
        Ok (p, q, d) \<Rightarrow> (Ok (), s\<lparr>fs_files := hput q d (hdel p (fs_files s))\<rparr>)
      | Err e \<Rightarrow> (Err e, s)
      | Panic \<Rightarrow> (Panic, s))"

definition fs_remove_file :: "path \<Rightarrow> (fs, io_kind, unit) act" where
  "fs_remove_file p s =
     (case bindR (fs_walk s [] p) (\<lambda>q.
         if q \<in> set (fs_dirs s) then Err IsADirectory
         else if hhas (fs_files s) q then Ok q else Err EntryNotFound) of
        Ok q \<Rightarrow> (Ok (), s\<lparr>fs_files := hdel q (fs_files s)\<rparr>)
      | Err e \<Rightarrow> (Err e, s)
      | Panic \<Rightarrow> (Panic, s))"

fun fs_mkdirs :: "path \<Rightarrow> string list \<Rightarrow> (fs, io_kind, unit) act" where
  "fs_mkdirs cur [] s = (Ok (), s)"
| "fs_mkdirs cur (c # cs) s =
     (let next = (if c = ''..'' then butlast cur else cur @ [c]) in
      if hhas (fs_files s) next then (Err (if cs = [] then AlreadyExists else NotADirectory), s)
      else fs_mkdirs next cs
             (if next \<in> set (fs_dirs s) then s else s\<lparr>fs_dirs := next # fs_dirs s\<rparr>))"

definition fs_create_dir_all :: "path \<Rightarrow> (fs, io_kind, unit) act" where
  "fs_create_dir_all p = fs_mkdirs [] p"

text \<open>A tree: it has a root, its parents are directories, and no path is of both kinds.\<close>

definition fs_wf :: "fs \<Rightarrow> bool" where
  "fs_wf s \<longleftrightarrow> [] \<in> set (fs_dirs s)
     \<and> (\<forall>d \<in> set (fs_dirs s). butlast d \<in> set (fs_dirs s) \<and> ''..'' \<notin> set d)
     \<and> (\<forall>p. hhas (fs_files s) p \<longrightarrow> p \<notin> set (fs_dirs s))
     \<and> (\<forall>p. hhas (fs_files s) p \<longrightarrow> butlast p \<in> set (fs_dirs s))"

lemma fs_wf_root: "fs_wf s \<Longrightarrow> [] \<in> set (fs_dirs s)"
  by (simp add: fs_wf_def)

lemma fs_wf_parent: "fs_wf s \<Longrightarrow> d \<in> set (fs_dirs s) \<Longrightarrow> butlast d \<in> set (fs_dirs s)"
  by (simp add: fs_wf_def)

lemma fs_wf_kind: "fs_wf s \<Longrightarrow> d \<in> set (fs_dirs s) \<Longrightarrow> hget (fs_files s) d = None"
  by (auto simp: fs_wf_def)

lemma fs_wf_prefix:
  "fs_wf s \<Longrightarrow> d @ e \<in> set (fs_dirs s) \<Longrightarrow> d \<in> set (fs_dirs s)"
proof (induction e rule: rev_induct)
  case Nil
  then show ?case by simp
next
  case (snoc c e)
  then have "butlast (d @ e @ [c]) \<in> set (fs_dirs s)" by (blast intro: fs_wf_parent)
  then show ?case using snoc by (simp add: butlast_append)
qed

lemma fs_walk_dirs:
  assumes "fs_wf s" and "cur @ cs \<in> set (fs_dirs s)"
  shows "fs_walk s cur cs = Ok (cur @ cs)"
  using assms(2)
proof (induction cs arbitrary: cur)
  case Nil
  then show ?case by simp
next
  case (Cons c cs)
  have "cur \<in> set (fs_dirs s)" using fs_wf_prefix [OF assms(1)] Cons.prems by blast
  moreover have "c \<noteq> ''..''" using assms(1) Cons.prems by (auto simp: fs_wf_def)
  ultimately show ?case using Cons.IH [of "cur @ [c]"] Cons.prems by simp
qed

lemma fs_walk_append:
  "fs_walk s cur (p @ q) = bindR (fs_walk s cur p) (\<lambda>r. fs_walk s r q)"
  by (induction p arbitrary: cur) auto

lemma fs_walk_child:
  assumes "fs_wf s" and "d \<in> set (fs_dirs s)" and "c \<noteq> ''..''"
  shows "fs_walk s [] (d @ [c]) = Ok (d @ [c])"
  using assms fs_walk_dirs [of s "[]" d] by (simp add: fs_walk_append)

text \<open>A path below a directory that is not in the tree resolves to nothing.\<close>

lemma fs_walk_missing:
  assumes "fs_wf s" and "d \<in> set (fs_dirs s)" and "c \<noteq> ''..''"
    and "d @ [c] \<notin> set (fs_dirs s)" and "hget (fs_files s) (d @ [c]) = None" and "cs \<noteq> []"
  shows "fs_walk s [] (d @ c # cs) = Err EntryNotFound"
proof -
  have "fs_walk s [] (d @ c # cs) = fs_walk s (d @ [c]) cs"
    using assms(1-3) fs_walk_dirs [of s "[]" d] by (simp add: fs_walk_append)
  then show ?thesis using assms(4-6) by (cases cs) auto
qed

text \<open>A file next to others: the calls on \<open>d/c\<close> for an existing directory \<open>d\<close>.\<close>

lemma fs_exists_child:
  assumes "fs_wf s" and "d \<in> set (fs_dirs s)" and "c \<noteq> ''..''"
  shows "fs_exists s (d @ [c]) \<longleftrightarrow> d @ [c] \<in> set (fs_dirs s) \<or> hget (fs_files s) (d @ [c]) \<noteq> None"
  using fs_walk_child [OF assms] by (auto simp: fs_exists_def)

lemma fs_read_child:
  assumes "fs_wf s" and "d \<in> set (fs_dirs s)" and "c \<noteq> ''..''" and "d @ [c] \<notin> set (fs_dirs s)"
  shows "fs_read (d @ [c]) s = (of_option EntryNotFound (hget (fs_files s) (d @ [c])), s)"
  using fs_walk_child [OF assms(1-3)] assms(4) by (simp add: fs_read_def)

lemma fs_write_child:
  assumes "fs_wf s" and "d \<in> set (fs_dirs s)" and "c \<noteq> ''..''" and "d @ [c] \<notin> set (fs_dirs s)"
  shows "fs_write (d @ [c]) b s = (Ok (), s\<lparr>fs_files := hput (d @ [c]) b (fs_files s)\<rparr>)"
  using fs_walk_child [OF assms(1-3)] assms(2,4) by (simp add: fs_write_def)

lemma fs_rename_child:
  assumes "fs_wf s" and "d \<in> set (fs_dirs s)" and "c \<noteq> ''..''" and "e \<noteq> ''..''"
    and "d @ [e] \<notin> set (fs_dirs s)" and "hget (fs_files s) (d @ [c]) = Some b"
  shows "fs_rename (d @ [c]) (d @ [e]) s
    = (Ok (), s\<lparr>fs_files := hput (d @ [e]) b (hdel (d @ [c]) (fs_files s))\<rparr>)"
  using fs_walk_child [OF assms(1,2,3)] fs_walk_child [OF assms(1,2,4)] assms(2,5,6)
  by (simp add: fs_rename_def)

lemma fs_wf_put_child:
  "fs_wf s \<Longrightarrow> d \<in> set (fs_dirs s) \<Longrightarrow> d @ [c] \<notin> set (fs_dirs s) \<Longrightarrow>
   fs_wf (s\<lparr>fs_files := hput (d @ [c]) b (fs_files s)\<rparr>)"
  unfolding fs_wf_def by (auto split: if_splits)

lemma fs_wf_del: "fs_wf s \<Longrightarrow> fs_wf (s\<lparr>fs_files := hdel p (fs_files s)\<rparr>)"
  unfolding fs_wf_def by (auto split: if_splits)

text \<open>
  \<open>std::fs::read_dir\<close>: the names in a directory. The order of the listing is unspecified; here
  it is that of the entries of the tree.
\<close>

definition fs_read_dir :: "path \<Rightarrow> (fs, io_kind, string list) act" where
  "fs_read_dir p s =
     (bindR (fs_walk s [] p) (\<lambda>q.
        if q \<in> set (fs_dirs s) then
          Ok (map last (filter (\<lambda>e. e \<noteq> [] \<and> butlast e = q) (remdups (fs_dirs s @ hkeys (fs_files s)))))
        else if hhas (fs_files s) q then Err NotADirectory
        else Err EntryNotFound), s)"

lemma fs_read_dir_Ok:
  assumes "fs_wf s" and "d \<in> set (fs_dirs s)"
  obtains names where "fs_read_dir d s = (Ok names, s)"
    and "\<And>n. n \<in> set names \<longleftrightarrow> d @ [n] \<in> set (fs_dirs s) \<or> hget (fs_files s) (d @ [n]) \<noteq> None"
proof -
  have walk: "fs_walk s [] d = Ok d" using fs_walk_dirs [of s "[]" d] assms by simp
  let ?l = "filter (\<lambda>e. e \<noteq> [] \<and> butlast e = d) (remdups (fs_dirs s @ hkeys (fs_files s)))"
  have mem: "n \<in> set (map last ?l) \<longleftrightarrow> d @ [n] \<in> set (fs_dirs s) \<or> hget (fs_files s) (d @ [n]) \<noteq> None" for n
  proof -
    have "n \<in> set (map last ?l) \<longleftrightarrow> (\<exists>e. e \<in> set ?l \<and> last e = n)" by auto
    also have "\<dots> \<longleftrightarrow> d @ [n] \<in> set ?l"
    proof
      assume "\<exists>e. e \<in> set ?l \<and> last e = n"
      then obtain e where e: "e \<in> set ?l" "last e = n" by blast
      then have "d @ [n] = e" using append_butlast_last_id [of e] by simp
      then show "d @ [n] \<in> set ?l" using e(1) by simp
    next
      assume "d @ [n] \<in> set ?l"
      then show "\<exists>e. e \<in> set ?l \<and> last e = n" by (intro exI [of _ "d @ [n]"]) simp
    qed
    also have "\<dots> \<longleftrightarrow> d @ [n] \<in> set (fs_dirs s) \<or> hget (fs_files s) (d @ [n]) \<noteq> None"
      by (simp add: set_hkeys)
    finally show ?thesis .
  qed
  show ?thesis
    by (rule that [of "map last ?l"]) (use walk assms(2) mem in \<open>simp_all add: fs_read_dir_def\<close>)
qed

end
