(* ===== verification/Sodl_Cas.thy ===== *)
theory Sodl_Cas
  imports Sodl_Fs
begin

text \<open>
  Content-addressed storage, \<open>crates/sodl-cas/src/lib.rs\<close>: blob identifiers, integrity
  verification, the \<open>BlobStore\<close> trait as a record of calls (the table behind
  \<open>&dyn BlobStore\<close>), and its two implementations. The BLAKE3 and SHA-256 digests come
  from third-party crates: \<open>hashes\<close> carries them as functions to lower-case hex.
  The locale \<open>blob_store_laws\<close> is what every client relies on: on identifiers that
  content addressing produces, a store behaves like a map from identifiers to bytes.
\<close>

section \<open>Blob identifiers\<close>

datatype hash_alg = Blake3 | Sha256

record hashes =
  blake3_hex :: "bytes \<Rightarrow> string"
  sha256_hex :: "bytes \<Rightarrow> string"

fun compute_blob_id :: "hashes \<Rightarrow> bytes \<Rightarrow> hash_alg \<Rightarrow> blob_id" where
  "compute_blob_id H b Blake3 = ''blake3:'' @ blake3_hex H b"
| "compute_blob_id H b Sha256 = ''sha256:'' @ sha256_hex H b"

definition verify_integrity :: "hashes \<Rightarrow> blob_id \<Rightarrow> bytes \<Rightarrow> unit res" where
  "verify_integrity H bid data =
     bindR (of_option (Invalid ''BlobId missing prefix'') (split_once (CHR '':'') bid))
       (\<lambda>(alg, expected).
          bindR (if alg = ''blake3'' then Ok (blake3_hex H data)
                 else if alg = ''sha256'' then Ok (sha256_hex H data)
                 else Err (Invalid (''unknown hash alg: '' @ alg)))
            (\<lambda>actual. if actual = expected then Ok () else Err Integrity))"

lemma verify_compute [simp]: "verify_integrity H (compute_blob_id H b alg) b = Ok ()"
  by (cases alg) (simp_all add: verify_integrity_def)

lemma verify_compute_other:
  "verify_integrity H (compute_blob_id H b alg) b' =
     (if compute_blob_id H b' alg = compute_blob_id H b alg then Ok () else Err Integrity)"
  by (cases alg) (simp_all add: verify_integrity_def)

lemma verify_Ok_iff:
  "verify_integrity H bid b = Ok () \<longleftrightarrow>
     bid = compute_blob_id H b Blake3 \<or> bid = compute_blob_id H b Sha256"
proof (cases "split_once (CHR '':'') bid")
  case None
  then have "CHR '':'' \<notin> set bid" by (simp add: split_once_None_iff)
  then show ?thesis using None by (auto simp: verify_integrity_def)
next
  case (Some p)
  then obtain alg hex where p: "p = (alg, hex)" by force
  then have "bid = alg @ CHR '':'' # hex" and "CHR '':'' \<notin> set alg"
    using Some by (simp_all add: split_once_Some_iff)
  moreover have "''blake3:'' @ x = ''blake3'' @ CHR '':'' # x"
    and "''sha256:'' @ x = ''sha256'' @ CHR '':'' # x" for x by simp_all
  ultimately show ?thesis
    using Some p by (auto simp: verify_integrity_def append_eq_append_conv2 append_eq_Cons_conv)
qed

lemma verify_outcomes:
  "verify_integrity H bid b = Ok () \<or> (\<exists>e. verify_integrity H bid b = Err e)"
  by (auto simp: verify_integrity_def of_option_def split: option.splits)


section \<open>The BlobStore trait\<close>

record 's blob_store =
  bs_has :: "blob_id \<Rightarrow> ('s, bool) op"
  bs_put :: "blob_id \<Rightarrow> bytes \<Rightarrow> ('s, unit) op"
  bs_get :: "blob_id \<Rightarrow> ('s, bytes) op"
  bs_delete :: "blob_id \<Rightarrow> ('s, unit) op"

text \<open>
  The contract. \<open>blobs\<close> is the content, \<open>valid\<close> the identifiers the contract covers
  and \<open>inv\<close> the representation invariant. Content addressing never stores two payloads
  under one identifier, so the law of \<open>put\<close> covers a vacant identifier or a repeated put.
\<close>

locale blob_store_laws =
  fixes bs :: "'s blob_store"
    and blobs :: "'s \<Rightarrow> blob_id \<Rightarrow> bytes option"
    and valid :: "blob_id \<Rightarrow> bool"
    and inv :: "'s \<Rightarrow> bool"
  assumes has_law: "inv s \<Longrightarrow> valid bid \<Longrightarrow> bs_has bs bid s = (Ok (blobs s bid \<noteq> None), s)"
    and get_law: "inv s \<Longrightarrow> valid bid \<Longrightarrow> bs_get bs bid s = (of_option NotFound (blobs s bid), s)"
    and put_law: "inv s \<Longrightarrow> valid bid \<Longrightarrow> blobs s bid = None \<or> blobs s bid = Some d \<Longrightarrow>
      \<exists>t. bs_put bs bid d s = (Ok (), t) \<and> inv t \<and> blobs t = (blobs s)(bid \<mapsto> d)"
    and delete_law: "inv s \<Longrightarrow> valid bid \<Longrightarrow>
      \<exists>t. bs_delete bs bid s = (Ok (), t) \<and> inv t \<and> blobs t = (blobs s)(bid := None)"
begin

lemma put_then_get:
  assumes "inv s" and "valid bid" and "blobs s bid = None \<or> blobs s bid = Some d"
    and "bs_put bs bid d s = (r, t)"
  shows "r = Ok () \<and> bs_get bs bid t = (Ok d, t)"
proof -
  obtain u where "bs_put bs bid d s = (Ok (), u)" "inv u" "blobs u = (blobs s)(bid \<mapsto> d)"
    using put_law [OF assms(1-3)] by blast
  then show ?thesis using assms(4) get_law [of u bid] assms(2) by simp
qed

lemma put_frame:
  assumes "inv s" and "valid bid" and "blobs s bid = None \<or> blobs s bid = Some d"
    and "bs_put bs bid d s = (r, t)" and "valid bid'" and "bid' \<noteq> bid"
  shows "fst (bs_get bs bid' t) = fst (bs_get bs bid' s)"
proof -
  obtain u where "bs_put bs bid d s = (Ok (), u)" "inv u" "blobs u = (blobs s)(bid \<mapsto> d)"
    using put_law [OF assms(1-3)] by blast
  then show ?thesis using assms get_law [of u bid'] get_law [of s bid'] by simp
qed

lemma delete_then_get:
  assumes "inv s" and "valid bid" and "bs_delete bs bid s = (r, t)"
  shows "r = Ok () \<and> bs_get bs bid t = (Err NotFound, t)"
proof -
  obtain u where "bs_delete bs bid s = (Ok (), u)" "inv u" "blobs u = (blobs s)(bid := None)"
    using delete_law [OF assms(1,2)] by blast
  then show ?thesis using assms(3) get_law [of u bid] assms(2) by simp
qed

end


section \<open>MemBlobStore\<close>

type_synonym mem_blobs = "(string, bytes) hmap"

definition mem_blob_has :: "blob_id \<Rightarrow> (mem_blobs, bool) op" where
  "mem_blob_has bid = readM (\<lambda>m. Ok (hhas m bid))"

definition mem_blob_put :: "blob_id \<Rightarrow> bytes \<Rightarrow> (mem_blobs, unit) op" where
  "mem_blob_put bid d = modifyM (hput bid d)"

definition mem_blob_get :: "blob_id \<Rightarrow> (mem_blobs, bytes) op" where
  "mem_blob_get bid = readM (\<lambda>m. of_option NotFound (hget m bid))"

definition mem_blob_delete :: "blob_id \<Rightarrow> (mem_blobs, unit) op" where
  "mem_blob_delete bid = modifyM (hdel bid)"

definition mem_blob_store :: "mem_blobs blob_store" where
  "mem_blob_store = \<lparr>bs_has = mem_blob_has, bs_put = mem_blob_put,
     bs_get = mem_blob_get, bs_delete = mem_blob_delete\<rparr>"

interpretation mem_cas: blob_store_laws mem_blob_store hget "\<lambda>_. True" "\<lambda>_. True"
  by unfold_locales
    (auto simp: mem_blob_store_def mem_blob_has_def mem_blob_get_def mem_blob_put_def
      mem_blob_delete_def)


section \<open>FsBlobStore\<close>

text \<open>\<open>blob_path\<close>: the directory and the file of a blob. Slicing the hex part at byte 2
  panics inside a multi-byte character.\<close>

definition blob_path :: "path \<Rightarrow> blob_id \<Rightarrow> (path \<times> path) res" where
  "blob_path root bid =
     bindR (of_option (Invalid ''BlobId missing prefix'') (split_once (CHR '':'') bid))
       (\<lambda>(alg, hex).
          if length hex < 3 then Err (Invalid ''BlobId hex too short'')
          else if \<not> char_boundary hex 2 then Panic
          else let dir = path_join (path_join root alg) (take 2 hex)
               in Ok (dir, path_join dir (drop 2 hex)))"

definition io_message :: "string \<Rightarrow> path \<Rightarrow> io_kind \<Rightarrow> sodl_error" where
  "io_message what p k = Io (what @ '' '' @ path_show p @ '': '' @ io_show k)"

definition map_io :: "string \<Rightarrow> path \<Rightarrow> ('s, io_kind, 'a) act \<Rightarrow> ('s, 'a) op" where
  "map_io what p m s =
     (case m s of
        (Ok a, t) \<Rightarrow> (Ok a, t)
      | (Err k, t) \<Rightarrow> (Err (io_message what p k), t)
      | (Panic, t) \<Rightarrow> (Panic, t))"

definition fs_blob_open :: "path \<Rightarrow> (fs, path) op" where
  "fs_blob_open root =
     seqM (map_io ''create blob root'' root (fs_create_dir_all root)) (returnM root)"

definition fs_blob_has :: "path \<Rightarrow> blob_id \<Rightarrow> (fs, bool) op" where
  "fs_blob_has root bid =
     bindM (pureM (blob_path root bid)) (\<lambda>(_, p). readM (\<lambda>s. Ok (fs_exists s p)))"

text \<open>
  \<open>put\<close> over the calls of the file system it makes, so that the same body runs on the real
  calls and on calls that can be cut short. The write goes to a temporary file that is then
  renamed over the blob.
\<close>

record 's file_calls =
  fc_exists :: "path \<Rightarrow> 's \<Rightarrow> bool"
  fc_create_dir_all :: "path \<Rightarrow> ('s, io_kind, unit) act"
  fc_write :: "path \<Rightarrow> bytes \<Rightarrow> ('s, io_kind, unit) act"
  fc_rename :: "path \<Rightarrow> path \<Rightarrow> ('s, io_kind, unit) act"

definition fs_put_on :: "'s file_calls \<Rightarrow> path \<Rightarrow> blob_id \<Rightarrow> bytes \<Rightarrow> ('s, unit) op" where
  "fs_put_on C root bid d =
     bindM (pureM (blob_path root bid)) (\<lambda>(dir, p).
       bindM (readM (\<lambda>s. Ok (fc_exists C p s))) (\<lambda>found.
         if found then returnM ()
         else
           seqM (map_io ''mkdir'' dir (fc_create_dir_all C dir))
             (let tmp = path_with_extension p ''tmp'' in
              seqM (map_io ''write'' tmp (fc_write C tmp d))
                (map_io ''rename'' p (fc_rename C tmp p)))))"

definition std_calls :: "fs file_calls" where
  "std_calls = \<lparr>fc_exists = (\<lambda>p s. fs_exists s p), fc_create_dir_all = fs_create_dir_all,
     fc_write = fs_write, fc_rename = fs_rename\<rparr>"

lemma std_calls_simps:
  "fc_exists std_calls p = (\<lambda>s. fs_exists s p)" "fc_create_dir_all std_calls = fs_create_dir_all"
  "fc_write std_calls = fs_write" "fc_rename std_calls = fs_rename"
  by (simp_all add: std_calls_def)

definition fs_blob_put :: "path \<Rightarrow> blob_id \<Rightarrow> bytes \<Rightarrow> (fs, unit) op" where
  fs_blob_put_std: "fs_blob_put = fs_put_on std_calls"

lemma fs_blob_put_def:
  "fs_blob_put root bid d =
     bindM (pureM (blob_path root bid)) (\<lambda>(dir, p).
       bindM (readM (\<lambda>s. Ok (fs_exists s p))) (\<lambda>found.
         if found then returnM ()
         else
           seqM (map_io ''mkdir'' dir (fs_create_dir_all dir))
             (let tmp = path_with_extension p ''tmp'' in
              seqM (map_io ''write'' tmp (fs_write tmp d))
                (map_io ''rename'' p (fs_rename tmp p)))))"
  unfolding fs_blob_put_std fs_put_on_def std_calls_simps ..

definition fs_blob_get :: "path \<Rightarrow> blob_id \<Rightarrow> (fs, bytes) op" where
  "fs_blob_get root bid =
     bindM (pureM (blob_path root bid)) (\<lambda>(_, p) s.
       (case fs_read p s of
          (Ok d, t) \<Rightarrow> (Ok d, t)
        | (Err k, t) \<Rightarrow>
            (Err (if k = EntryNotFound then NotFound else io_message ''read'' p k), t)
        | (Panic, t) \<Rightarrow> (Panic, t)))"

definition fs_blob_delete :: "path \<Rightarrow> blob_id \<Rightarrow> (fs, unit) op" where
  "fs_blob_delete root bid =
     bindM (pureM (blob_path root bid)) (\<lambda>(_, p) s.
       (case fs_remove_file p s of
          (Ok u, t) \<Rightarrow> (Ok (), t)
        | (Err k, t) \<Rightarrow>
            ((if k = EntryNotFound then Ok () else Err (io_message ''delete'' p k)), t)
        | (Panic, t) \<Rightarrow> (Panic, t)))"

definition fs_blob_store :: "path \<Rightarrow> fs blob_store" where
  "fs_blob_store root = \<lparr>bs_has = fs_blob_has root, bs_put = fs_blob_put root,
     bs_get = fs_blob_get root, bs_delete = fs_blob_delete root\<rparr>"

end
