(* ===== verification/Sodl_Node.thy ===== *)
theory Sodl_Node
  imports Sodl_Index Sodl_MemStores Sodl_Cas
begin

text \<open>
  A node: the trait objects that the service, the garbage collector and the auditor are
  given, as records of calls on one state \<open>'w\<close>. The abstract view \<open>facts\<close> says what the
  stores of a node hold, independently of their representation; the locale \<open>node_laws\<close> is the
  contract of all traits in terms of it, in-memory node is the first implementation.
\<close>

section \<open>The traits\<close>

record 'w ref_counter =
  rc_inc_origin :: "origin_id \<Rightarrow> ref_kind \<Rightarrow> ('w, unit) op"
  rc_dec_origin :: "origin_id \<Rightarrow> ref_kind \<Rightarrow> ('w, unit) op"
  rc_get_origin :: "origin_id \<Rightarrow> ('w, int) op"
  rc_inc_blob :: "blob_id \<Rightarrow> ref_kind \<Rightarrow> ('w, unit) op"
  rc_dec_blob :: "blob_id \<Rightarrow> ref_kind \<Rightarrow> ('w, unit) op"
  rc_get_blob :: "blob_id \<Rightarrow> ('w, int) op"

record 'w scan_index =
  si_list_origins :: "('w, origin_id list) op"
  si_list_blobs :: "('w, blob_id list) op"

record 'w lineage_store =
  ls_add_edge :: "lineage_edge \<Rightarrow> ('w, unit) op"
  ls_list_edges :: "origin_id \<Rightarrow> ('w, lineage_edge list) op"

record 'w provenance_index =
  pv_put_payload :: "origin_id \<Rightarrow> string \<Rightarrow> ('w, unit) op"
  pv_put_chunks :: "origin_id \<Rightarrow> string list \<Rightarrow> ('w, unit) op"
  pv_find_payload :: "string \<Rightarrow> ('w, origin_id list) op"
  pv_find_chunks :: "string list \<Rightarrow> ('w, (origin_id \<times> nat) list) op"

record 'w origin_registry =
  og_create :: "origin_record \<Rightarrow> ('w, unit) op"
  og_get :: "origin_id \<Rightarrow> ('w, origin_record) op"
  og_update :: "origin_record \<Rightarrow> ('w, unit) op"
  og_delete :: "origin_id \<Rightarrow> ('w, unit) op"

record 'w policy_store =
  po_get :: "origin_id \<Rightarrow> ('w, origin_policy) op"
  po_put :: "origin_policy \<Rightarrow> ('w, unit) op"

record 'w pin_store =
  pn_create :: "pin_record \<Rightarrow> ('w, unit) op"
  pn_get :: "string \<Rightarrow> ('w, pin_record) op"
  pn_list :: "origin_id \<Rightarrow> ('w, pin_record list) op"
  pn_update :: "pin_record \<Rightarrow> ('w, unit) op"
  pn_release :: "string \<Rightarrow> ('w, unit) op"

record 'w derivation_store =
  dv_put :: "derivation_manifest \<Rightarrow> ('w, unit) op"
  dv_get :: "origin_id \<Rightarrow> derivation_id \<Rightarrow> ('w, derivation_manifest) op"
  dv_list :: "origin_id \<Rightarrow> ('w, derivation_manifest list) op"

record 'w share_store =
  sh_put :: "share_record \<Rightarrow> ('w, unit) op"
  sh_get :: "share_id \<Rightarrow> ('w, share_record) op"
  sh_list :: "origin_id \<Rightarrow> ('w, share_record list) op"

record 'w tombstone_store =
  ts_put :: "tombstone \<Rightarrow> ('w, unit) op"
  ts_get :: "string \<Rightarrow> ('w, tombstone) op"
  ts_list :: "origin_id \<Rightarrow> ('w, tombstone list) op"

record 'w replica_store =
  rs_upsert :: "replica_record \<Rightarrow> ('w, unit) op"
  rs_list :: "blob_id \<Rightarrow> ('w, replica_record list) op"
  rs_healthy :: "blob_id \<Rightarrow> ('w, int) op"
  rs_healthy_stale :: "blob_id \<Rightarrow> int \<Rightarrow> time \<Rightarrow> ('w, int) op"

record 'w node =
  nd_index :: "'w ref_counter"
  nd_scan :: "'w scan_index"
  nd_lineage :: "'w lineage_store"
  nd_provenance :: "'w provenance_index"
  nd_origins :: "'w origin_registry"
  nd_policies :: "'w policy_store"
  nd_pins :: "'w pin_store"
  nd_derivations :: "'w derivation_store"
  nd_shares :: "'w share_store"
  nd_tombstones :: "'w tombstone_store"
  nd_replicas :: "'w replica_store"
  nd_store :: "'w blob_store"


section \<open>What a node holds\<close>

record facts =
  f_origin_refs :: "origin_id \<Rightarrow> int"
  f_blob_refs :: "blob_id \<Rightarrow> int"
  f_edges :: "lineage_edge multiset"
  f_payload_fps :: "string \<Rightarrow> origin_id set"
  f_chunk_fps :: "string \<Rightarrow> origin_id set"
  f_origins :: "origin_id \<Rightarrow> origin_record option"
  f_policies :: "origin_id \<Rightarrow> origin_policy option"
  f_pins :: "string \<Rightarrow> pin_record option"
  f_derivations :: "origin_id \<Rightarrow> derivation_id \<Rightarrow> derivation_manifest option"
  f_shares :: "share_id \<Rightarrow> share_record option"
  f_tombstones :: "tombstone multiset"
  f_replicas :: "blob_id \<Rightarrow> string \<Rightarrow> replica_record option"
  f_blobs :: "blob_id \<Rightarrow> bytes option"

definition org_refs :: "origin_id \<Rightarrow> int \<Rightarrow> facts \<Rightarrow> facts" where
  "org_refs org n f = f\<lparr>f_origin_refs := (f_origin_refs f)(org := n)\<rparr>"

definition blob_refs :: "blob_id \<Rightarrow> int \<Rightarrow> facts \<Rightarrow> facts" where
  "blob_refs b n f = f\<lparr>f_blob_refs := (f_blob_refs f)(b := n)\<rparr>"

locale node_laws =
  fixes nd :: "'w node"
    and view :: "'w \<Rightarrow> facts"
    and inv :: "'w \<Rightarrow> bool"
    and valid :: "blob_id \<Rightarrow> bool"
  assumes inc_origin: "inv s \<Longrightarrow> f_origin_refs (view s) org < I64_MAX \<Longrightarrow>
      \<exists>t. rc_inc_origin (nd_index nd) org r s = (Ok (), t) \<and> inv t
        \<and> view t = org_refs org (f_origin_refs (view s) org + 1) (view s)"
    and dec_origin: "inv s \<Longrightarrow>
      \<exists>t. rc_dec_origin (nd_index nd) org r s = (Ok (), t) \<and> inv t
        \<and> view t = org_refs org (saturating_dec (f_origin_refs (view s) org)) (view s)"
    and get_origin_refs: "inv s \<Longrightarrow> rc_get_origin (nd_index nd) org s = (Ok (f_origin_refs (view s) org), s)"
    and inc_blob: "inv s \<Longrightarrow> f_blob_refs (view s) b < I64_MAX \<Longrightarrow>
      \<exists>t. rc_inc_blob (nd_index nd) b r s = (Ok (), t) \<and> inv t
        \<and> view t = blob_refs b (f_blob_refs (view s) b + 1) (view s)"
    and dec_blob: "inv s \<Longrightarrow>
      \<exists>t. rc_dec_blob (nd_index nd) b r s = (Ok (), t) \<and> inv t
        \<and> view t = blob_refs b (saturating_dec (f_blob_refs (view s) b)) (view s)"
    and get_blob_refs: "inv s \<Longrightarrow> rc_get_blob (nd_index nd) b s = (Ok (f_blob_refs (view s) b), s)"
    and refs_nonneg: "inv s \<Longrightarrow> 0 \<le> f_origin_refs (view s) org \<and> 0 \<le> f_blob_refs (view s) b"
    and add_edge: "inv s \<Longrightarrow> le_edge_id e \<notin> le_edge_id ` set_mset (f_edges (view s)) \<Longrightarrow>
      \<exists>t. ls_add_edge (nd_lineage nd) e s = (Ok (), t) \<and> inv t
        \<and> view t = (view s)\<lparr>f_edges := add_mset e (f_edges (view s))\<rparr>"
    and list_edges: "inv s \<Longrightarrow>
      \<exists>es. ls_list_edges (nd_lineage nd) org s = (Ok es, s)
        \<and> mset es = filter_mset (\<lambda>e. le_origin_id e = org) (f_edges (view s))"
    and put_payload: "inv s \<Longrightarrow>
      \<exists>t. pv_put_payload (nd_provenance nd) org fp s = (Ok (), t) \<and> inv t
        \<and> view t = (view s)\<lparr>f_payload_fps := (f_payload_fps (view s))(fp := insert org (f_payload_fps (view s) fp))\<rparr>"
    and put_chunks: "inv s \<Longrightarrow>
      \<exists>t. pv_put_chunks (nd_provenance nd) org fps s = (Ok (), t) \<and> inv t
        \<and> view t = (view s)\<lparr>f_chunk_fps := (\<lambda>fp. if fp \<in> set fps then insert org (f_chunk_fps (view s) fp)
            else f_chunk_fps (view s) fp)\<rparr>"
    and find_payload: "inv s \<Longrightarrow>
      \<exists>os. pv_find_payload (nd_provenance nd) fp s = (Ok os, s) \<and> distinct os \<and> set os = f_payload_fps (view s) fp"
    and find_chunks: "inv s \<Longrightarrow>
      \<exists>l. pv_find_chunks (nd_provenance nd) fps s = (Ok l, s) \<and> distinct (map fst l)
        \<and> set (map fst l) = (\<Union>fp \<in> set fps. f_chunk_fps (view s) fp) \<and> (\<forall>x \<in> set l. 0 < snd x)"
    and create_origin: "inv s \<Longrightarrow> f_origins (view s) (or_origin_id rec) = None \<Longrightarrow>
      \<exists>t. og_create (nd_origins nd) rec s = (Ok (), t) \<and> inv t
        \<and> view t = (view s)\<lparr>f_origins := (f_origins (view s))(or_origin_id rec \<mapsto> rec)\<rparr>"
    and get_origin: "inv s \<Longrightarrow> og_get (nd_origins nd) org s = (of_option NotFound (f_origins (view s) org), s)"
    and update_origin: "inv s \<Longrightarrow> f_origins (view s) (or_origin_id rec) \<noteq> None \<Longrightarrow>
      \<exists>t. og_update (nd_origins nd) rec s = (Ok (), t) \<and> inv t
        \<and> view t = (view s)\<lparr>f_origins := (f_origins (view s))(or_origin_id rec \<mapsto> rec)\<rparr>"
    and origin_key: "inv s \<Longrightarrow> f_origins (view s) org = Some rec \<Longrightarrow> or_origin_id rec = org"
    and get_policy: "inv s \<Longrightarrow> po_get (nd_policies nd) org s = (of_option NotFound (f_policies (view s) org), s)"
    and put_policy: "inv s \<Longrightarrow>
      \<exists>t. po_put (nd_policies nd) pol s = (Ok (), t) \<and> inv t
        \<and> view t = (view s)\<lparr>f_policies := (f_policies (view s))(op_origin_id pol \<mapsto> pol)\<rparr>"
    and create_pin: "inv s \<Longrightarrow> f_pins (view s) (pr_pin_id p) = None \<Longrightarrow>
      \<exists>t. pn_create (nd_pins nd) p s = (Ok (), t) \<and> inv t
        \<and> view t = (view s)\<lparr>f_pins := (f_pins (view s))(pr_pin_id p \<mapsto> p)\<rparr>"
    and get_pin: "inv s \<Longrightarrow> pn_get (nd_pins nd) pid s = (of_option NotFound (f_pins (view s) pid), s)"
    and release_pin: "inv s \<Longrightarrow> f_pins (view s) pid = Some p \<Longrightarrow>
      \<exists>t. pn_release (nd_pins nd) pid s = (Ok (), t) \<and> inv t
        \<and> view t = (view s)\<lparr>f_pins := (f_pins (view s))(pid \<mapsto> p\<lparr>pr_state := Released\<rparr>)\<rparr>"
    and list_pins: "inv s \<Longrightarrow>
      \<exists>l. pn_list (nd_pins nd) org s = (Ok l, s)
        \<and> {p \<in> set l. pr_target p = PinOrigin org} = {p. (\<exists>pid. f_pins (view s) pid = Some p) \<and> pr_target p = PinOrigin org}"
    and put_derivation: "inv s \<Longrightarrow> f_derivations (view s) (dm_origin_id d) (dm_derivation_id d) = None \<Longrightarrow>
      \<exists>t. dv_put (nd_derivations nd) d s = (Ok (), t) \<and> inv t
        \<and> view t = (view s)\<lparr>f_derivations := (f_derivations (view s))(dm_origin_id d :=
              (f_derivations (view s) (dm_origin_id d))(dm_derivation_id d \<mapsto> d))\<rparr>"
    and put_share: "inv s \<Longrightarrow> f_shares (view s) (sr_share_id sh) = None \<Longrightarrow>
      \<exists>t. sh_put (nd_shares nd) sh s = (Ok (), t) \<and> inv t
        \<and> view t = (view s)\<lparr>f_shares := (f_shares (view s))(sr_share_id sh \<mapsto> sh)\<rparr>"
    and get_share: "inv s \<Longrightarrow> sh_get (nd_shares nd) sid s = (of_option NotFound (f_shares (view s) sid), s)"
    and put_tombstone: "inv s \<Longrightarrow>
      \<exists>t. ts_put (nd_tombstones nd) tb s = (Ok (), t) \<and> inv t
        \<and> view t = (view s)\<lparr>f_tombstones := add_mset tb (f_tombstones (view s))\<rparr>"
    and upsert_replica: "inv s \<Longrightarrow>
      \<exists>t. rs_upsert (nd_replicas nd) rr s = (Ok (), t) \<and> inv t
        \<and> view t = (view s)\<lparr>f_replicas := (f_replicas (view s))(rr_blob_id rr :=
              (f_replicas (view s) (rr_blob_id rr))(rr_node_id rr \<mapsto> rr))\<rparr>"
    and healthy_stale: "inv s \<Longrightarrow>
      rs_healthy_stale (nd_replicas nd) b stale now s =
        (Ok (int (card {n. \<exists>rr. f_replicas (view s) b n = Some rr \<and> rr_state rr = Healthy \<and> fresh stale now rr})), s)"
    and scan_origins: "inv s \<Longrightarrow> \<exists>os. si_list_origins (nd_scan nd) s = (Ok os, s)"
    and scan_blobs: "inv s \<Longrightarrow> \<exists>bs. si_list_blobs (nd_scan nd) s = (Ok bs, s)"
    and store_has: "inv s \<Longrightarrow> valid b \<Longrightarrow> bs_has (nd_store nd) b s = (Ok (f_blobs (view s) b \<noteq> None), s)"
    and store_get: "inv s \<Longrightarrow> valid b \<Longrightarrow> bs_get (nd_store nd) b s = (of_option NotFound (f_blobs (view s) b), s)"
    and store_put: "inv s \<Longrightarrow> valid b \<Longrightarrow> f_blobs (view s) b = None \<or> f_blobs (view s) b = Some dt \<Longrightarrow>
      \<exists>t. bs_put (nd_store nd) b dt s = (Ok (), t) \<and> inv t
        \<and> view t = (view s)\<lparr>f_blobs := (f_blobs (view s))(b \<mapsto> dt)\<rparr>"
    and store_delete: "inv s \<Longrightarrow> valid b \<Longrightarrow>
      \<exists>t. bs_delete (nd_store nd) b s = (Ok (), t) \<and> inv t
        \<and> view t = (view s)\<lparr>f_blobs := (f_blobs (view s))(b := None)\<rparr>"

text \<open>The blob store of a node satisfies the contract of blob stores, and its operations leave
  the rest of the view, here \<open>R\<close>, alone.\<close>

definition frame :: "facts \<Rightarrow> facts" where
  "frame f = f\<lparr>f_blobs := (\<lambda>_. None)\<rparr>"

lemma frame_eq: "frame f = frame g \<Longrightarrow> f = g\<lparr>f_blobs := f_blobs f\<rparr>"
  by (cases f, cases g) (simp add: frame_def)

lemma frame_blobs [simp]: "frame (f\<lparr>f_blobs := m\<rparr>) = frame f"
  by (simp add: frame_def)

sublocale node_laws \<subseteq> node_blobs: blob_store_laws "nd_store nd" "\<lambda>s. f_blobs (view s)" valid
  "\<lambda>s. inv s \<and> frame (view s) = R" for R
proof unfold_locales
  show "\<exists>t. bs_put (nd_store nd) bid d s = (Ok (), t) \<and> (inv t \<and> frame (view t) = R)
      \<and> f_blobs (view t) = (f_blobs (view s))(bid \<mapsto> d)"
    if "inv s \<and> frame (view s) = R" "valid bid" "f_blobs (view s) bid = None \<or> f_blobs (view s) bid = Some d" for s bid d
    using store_put [of s bid d] that by fastforce
  show "\<exists>t. bs_delete (nd_store nd) bid s = (Ok (), t) \<and> (inv t \<and> frame (view t) = R)
      \<and> f_blobs (view t) = (f_blobs (view s))(bid := None)"
    if "inv s \<and> frame (view s) = R" "valid bid" for s bid
    using store_delete [of s bid] that by fastforce
qed (simp_all add: store_has store_get)


text \<open>A node whose blob store accepts every identifier.\<close>

locale total_node = node_laws +
  assumes all_valid: "valid b"


section \<open>The in-memory node\<close>

record mem_world =
  mw_index :: mem_index
  mw_origins :: mem_origins
  mw_policies :: mem_policies
  mw_pins :: mem_pins
  mw_derivations :: mem_derivations
  mw_shares :: mem_shares
  mw_tombstones :: mem_tombstones
  mw_replicas :: mem_replicas
  mw_blobs :: mem_blobs

abbreviation on_index where "on_index \<equiv> liftM mw_index (\<lambda>x w. w\<lparr>mw_index := x\<rparr>)"
abbreviation on_origins where "on_origins \<equiv> liftM mw_origins (\<lambda>x w. w\<lparr>mw_origins := x\<rparr>)"
abbreviation on_policies where "on_policies \<equiv> liftM mw_policies (\<lambda>x w. w\<lparr>mw_policies := x\<rparr>)"
abbreviation on_pins where "on_pins \<equiv> liftM mw_pins (\<lambda>x w. w\<lparr>mw_pins := x\<rparr>)"
abbreviation on_derivations where "on_derivations \<equiv> liftM mw_derivations (\<lambda>x w. w\<lparr>mw_derivations := x\<rparr>)"
abbreviation on_shares where "on_shares \<equiv> liftM mw_shares (\<lambda>x w. w\<lparr>mw_shares := x\<rparr>)"
abbreviation on_tombstones where "on_tombstones \<equiv> liftM mw_tombstones (\<lambda>x w. w\<lparr>mw_tombstones := x\<rparr>)"
abbreviation on_replicas where "on_replicas \<equiv> liftM mw_replicas (\<lambda>x w. w\<lparr>mw_replicas := x\<rparr>)"
abbreviation on_blobs where "on_blobs \<equiv> liftM mw_blobs (\<lambda>x w. w\<lparr>mw_blobs := x\<rparr>)"

definition mem_node :: "mem_world node" where
  "mem_node =
     \<lparr>nd_index = \<lparr>rc_inc_origin = (\<lambda>og r. on_index (mem_inc_origin og r)),
          rc_dec_origin = (\<lambda>og r. on_index (mem_dec_origin og r)),
          rc_get_origin = (\<lambda>og. on_index (mem_get_origin_refs og)),
          rc_inc_blob = (\<lambda>b r. on_index (mem_inc_blob b r)),
          rc_dec_blob = (\<lambda>b r. on_index (mem_dec_blob b r)),
          rc_get_blob = (\<lambda>b. on_index (mem_get_blob_refs b))\<rparr>,
      nd_scan = \<lparr>si_list_origins = on_index mem_list_origins, si_list_blobs = on_index mem_list_blobs\<rparr>,
      nd_lineage = \<lparr>ls_add_edge = (\<lambda>e. on_index (mem_add_edge e)),
          ls_list_edges = (\<lambda>og. on_index (mem_list_edges og))\<rparr>,
      nd_provenance = \<lparr>pv_put_payload = (\<lambda>og f. on_index (mem_put_payload_fp og f)),
          pv_put_chunks = (\<lambda>og fs. on_index (mem_put_chunk_fps og fs)),
          pv_find_payload = (\<lambda>f. on_index (mem_find_payload_fp f)),
          pv_find_chunks = (\<lambda>fs. on_index (mem_find_chunk_fps fs))\<rparr>,
      nd_origins = \<lparr>og_create = (\<lambda>r. on_origins (mem_create_origin r)),
          og_get = (\<lambda>og. on_origins (mem_get_origin og)),
          og_update = (\<lambda>r. on_origins (mem_update_origin r)),
          og_delete = (\<lambda>og. on_origins (mem_delete_origin og))\<rparr>,
      nd_policies = \<lparr>po_get = (\<lambda>og. on_policies (mem_get_policy og)),
          po_put = (\<lambda>p. on_policies (mem_put_policy p))\<rparr>,
      nd_pins = \<lparr>pn_create = (\<lambda>p. on_pins (mem_create_pin p)), pn_get = (\<lambda>i. on_pins (mem_get_pin i)),
          pn_list = (\<lambda>og. on_pins (mem_list_pins og)), pn_update = (\<lambda>p. on_pins (mem_update_pin p)),
          pn_release = (\<lambda>i. on_pins (mem_release_pin i))\<rparr>,
      nd_derivations = \<lparr>dv_put = (\<lambda>d. on_derivations (mem_put_derivation d)),
          dv_get = (\<lambda>og d. on_derivations (mem_get_derivation og d)),
          dv_list = (\<lambda>og. on_derivations (mem_list_derivations og))\<rparr>,
      nd_shares = \<lparr>sh_put = (\<lambda>s. on_shares (mem_put_share s)), sh_get = (\<lambda>i. on_shares (mem_get_share i)),
          sh_list = (\<lambda>og. on_shares (mem_list_shares og))\<rparr>,
      nd_tombstones = \<lparr>ts_put = (\<lambda>t. on_tombstones (mem_put_tombstone t)),
          ts_get = (\<lambda>i. on_tombstones (mem_get_tombstone i)),
          ts_list = (\<lambda>og. on_tombstones (mem_list_tombstones og))\<rparr>,
      nd_replicas = \<lparr>rs_upsert = (\<lambda>r. on_replicas (mem_upsert_replica r)),
          rs_list = (\<lambda>b. on_replicas (mem_list_replicas b)),
          rs_healthy = (\<lambda>b. on_replicas (mem_healthy_count b)),
          rs_healthy_stale = (\<lambda>b st now. on_replicas (mem_healthy_count_with_stale b st now))\<rparr>,
      nd_store = \<lparr>bs_has = (\<lambda>b. on_blobs (mem_blob_has b)), bs_put = (\<lambda>b d. on_blobs (mem_blob_put b d)),
          bs_get = (\<lambda>b. on_blobs (mem_blob_get b)), bs_delete = (\<lambda>b. on_blobs (mem_blob_delete b))\<rparr>\<rparr>"

definition mem_view :: "mem_world \<Rightarrow> facts" where
  "mem_view w =
     \<lparr>f_origin_refs = count_of (mi_origin_counts (mw_index w)),
      f_blob_refs = count_of (mi_blob_counts (mw_index w)),
      f_edges = mset (mi_edges (mw_index w)),
      f_payload_fps = (\<lambda>f. set (fp_of (mi_payload_fps (mw_index w)) f)),
      f_chunk_fps = (\<lambda>f. set (fp_of (mi_chunk_fps (mw_index w)) f)),
      f_origins = hget (mw_origins w),
      f_policies = hget (mw_policies w),
      f_pins = hget (mw_pins w),
      f_derivations = (\<lambda>og d. hget (mw_derivations w) (og, d)),
      f_shares = hget (mw_shares w),
      f_tombstones = mset (mw_tombstones w),
      f_replicas = (\<lambda>b n. hget (mw_replicas w) (b, n)),
      f_blobs = hget (mw_blobs w)\<rparr>"

definition mem_inv :: "mem_world \<Rightarrow> bool" where
  "mem_inv w \<longleftrightarrow> mi_counts_ok (mw_index w)
     \<and> (\<forall>org. count_of (mi_origin_counts (mw_index w)) org \<le> I64_MAX)
     \<and> (\<forall>b. count_of (mi_blob_counts (mw_index w)) b \<le> I64_MAX)
     \<and> (\<forall>f. distinct (fp_of (mi_payload_fps (mw_index w)) f))
     \<and> (\<forall>org r. hget (mw_origins w) org = Some r \<longrightarrow> or_origin_id r = org)
     \<and> hwf (mw_pins w) \<and> replicas_keyed (mw_replicas w)"


lemma fp_of_push [simp]:
  "fp_of (hentry fp [] (push_unique org) m) g = (if g = fp then push_unique org (fp_of m fp) else fp_of m g)"
  by (simp add: fp_of_def)

lemma push_unique_set [simp]: "set (push_unique x xs) = insert x (set xs)"
  by (auto simp: push_unique_def)

lemma push_unique_distinct [simp]: "distinct (push_unique x xs) = distinct xs"
  by (simp add: push_unique_def)

lemma fp_of_fold_set:
  "set (fp_of (fold (\<lambda>fp. hentry fp [] (push_unique org)) fps m) g) =
     (if g \<in> set fps then insert org (set (fp_of m g)) else set (fp_of m g))"
  by (induction fps arbitrary: m) auto

lemma healthy_card:
  assumes "replicas_keyed m"
  shows "length (filter (\<lambda>r. rr_blob_id r = b \<and> P r) (hvals m)) = card {n. \<exists>r. hget m (b, n) = Some r \<and> P r}"
proof -
  let ?F = "filter (\<lambda>kv. rr_blob_id (snd kv) = b \<and> P (snd kv)) m"
  have wf: "distinct (map fst m)" using assms by (simp add: replicas_keyed_def hwf_def)
  have key: "k = (rr_blob_id r, rr_node_id r)" if "(k, r) \<in> set m" for k r
    using mem_hget [of m k r] that assms unfolding replicas_keyed_def by blast
  have inj: "inj_on (\<lambda>kv. snd (fst kv)) (set ?F)"
    using wf key by (fastforce simp: inj_on_def distinct_map)
  have "length (filter (\<lambda>r. rr_blob_id r = b \<and> P r) (hvals m)) = length ?F"
    by (simp add: hvals_def filter_map comp_def)
  also have "\<dots> = card (set ?F)"
    using distinct_card [of ?F] wf by (simp add: distinct_map distinct_filter)
  also have "\<dots> = card ((\<lambda>kv. snd (fst kv)) ` set ?F)" by (rule card_image [OF inj, symmetric])
  also have "(\<lambda>kv. snd (fst kv)) ` set ?F = {n. \<exists>r. hget m (b, n) = Some r \<and> P r}"
  proof (rule set_eqI)
    fix n
    have "n \<in> (\<lambda>kv. snd (fst kv)) ` set ?F \<longleftrightarrow> (\<exists>r. ((b, n), r) \<in> set m \<and> P r)"
    proof
      assume "n \<in> (\<lambda>kv. snd (fst kv)) ` set ?F"
      then obtain k r where "(k, r) \<in> set m" "rr_blob_id r = b" "P r" "n = snd k" by auto
      then show "\<exists>r. ((b, n), r) \<in> set m \<and> P r" using key [of k r] by auto
    next
      assume "\<exists>r. ((b, n), r) \<in> set m \<and> P r"
      then obtain r where r: "((b, n), r) \<in> set m" "P r" by blast
      then have "((b, n), r) \<in> set ?F" using key by auto
      then show "n \<in> (\<lambda>kv. snd (fst kv)) ` set ?F" by force
    qed
    then show "n \<in> (\<lambda>kv. snd (fst kv)) ` set ?F \<longleftrightarrow> n \<in> {n. \<exists>r. hget m (b, n) = Some r \<and> P r}"
      using hget_mem [of m "(b, n)"] mem_hget [of m "(b, n)"] assms unfolding replicas_keyed_def by blast
  qed
  finally show ?thesis .
qed

lemmas mem_ops = mem_inc_origin_def mem_dec_origin_def mem_get_origin_refs_def mem_inc_blob_def
  mem_dec_blob_def mem_get_blob_refs_def mem_list_origins_def mem_list_blobs_def mem_add_edge_def
  mem_list_edges_def mem_put_payload_fp_def mem_put_chunk_fps_def mem_find_payload_fp_def
  mem_create_origin_def mem_get_origin_def mem_update_origin_def mem_delete_origin_def
  mem_get_policy_def mem_put_policy_def mem_create_pin_def mem_get_pin_def mem_list_pins_def
  mem_update_pin_def mem_release_pin_def mem_put_derivation_def mem_get_derivation_def
  mem_list_derivations_def mem_put_share_def mem_get_share_def mem_list_shares_def
  mem_put_tombstone_def mem_get_tombstone_def mem_list_tombstones_def mem_upsert_replica_def
  mem_list_replicas_def mem_blob_has_def mem_blob_put_def mem_blob_get_def mem_blob_delete_def


lemma I64_nonneg [simp]: "0 \<le> I64_MAX"
  by (simp add: I64_MAX_def)

lemma I64_dec: "\<forall>k. f k \<le> I64_MAX \<Longrightarrow> f j - 1 \<le> I64_MAX"
  by (metis diff_le_eq le_add_same_cancel1 order_trans zero_le_one)

text \<open>Each group of traits satisfies its part of the contract.\<close>

lemmas mem_eval = mem_node_def mem_view_def mem_inv_def liftM_def org_refs_def blob_refs_def

lemma mem_get_keeps:
  "mi_counts_ok s \<Longrightarrow> mi_counts_ok (s\<lparr>mi_edges := e\<rparr>)" "mi_counts_ok s \<Longrightarrow> mi_counts_ok (s\<lparr>mi_payload_fps := p\<rparr>)"
  "mi_counts_ok s \<Longrightarrow> mi_counts_ok (s\<lparr>mi_chunk_fps := c\<rparr>)"
  by (simp_all add: mi_counts_ok_def)

lemma mem_inc_law:
  assumes "mem_inv s" and "f_origin_refs (mem_view s) org < I64_MAX"
  shows "\<exists>t. rc_inc_origin (nd_index mem_node) org r s = (Ok (), t) \<and> mem_inv t
    \<and> mem_view t = org_refs org (f_origin_refs (mem_view s) org + 1) (mem_view s)"
  using assms mi_counts_ok_steps(1) [of "mw_index s" org r]
  by (auto simp: mem_eval mem_inc_origin_def fun_eq_iff)

lemma mem_inc_blob_law:
  assumes "mem_inv s" and "f_blob_refs (mem_view s) b < I64_MAX"
  shows "\<exists>t. rc_inc_blob (nd_index mem_node) b r s = (Ok (), t) \<and> mem_inv t
    \<and> mem_view t = blob_refs b (f_blob_refs (mem_view s) b + 1) (mem_view s)"
  using assms mi_counts_ok_steps(3) [of "mw_index s" b r]
  by (auto simp: mem_eval mem_inc_blob_def fun_eq_iff)

lemma mem_dec_law:
  assumes "mem_inv s"
  shows "\<exists>t. rc_dec_origin (nd_index mem_node) org r s = (Ok (), t) \<and> mem_inv t
    \<and> mem_view t = org_refs org (saturating_dec (f_origin_refs (mem_view s) org)) (mem_view s)"
  using assms mi_counts_ok_steps(2) [of "mw_index s" org r]
  by (auto simp: mem_eval mem_dec_origin_def fun_eq_iff saturating_dec_def intro: I64_dec)

lemma mem_dec_blob_law:
  assumes "mem_inv s"
  shows "\<exists>t. rc_dec_blob (nd_index mem_node) b r s = (Ok (), t) \<and> mem_inv t
    \<and> mem_view t = blob_refs b (saturating_dec (f_blob_refs (mem_view s) b)) (mem_view s)"
  using assms mi_counts_ok_steps(4) [of "mw_index s" b r]
  by (auto simp: mem_eval mem_dec_blob_def fun_eq_iff saturating_dec_def intro: I64_dec)


interpretation mem_laws: node_laws mem_node mem_view mem_inv "\<lambda>_. True"
proof (unfold_locales, goal_cases)
  case (1 s org r)
  then show ?case by (rule mem_inc_law)
next
  case (2 s org r)
  then show ?case by (rule mem_dec_law)
next
  case (4 s b r)
  then show ?case by (rule mem_inc_blob_law)
next
  case (5 s b r)
  then show ?case by (rule mem_dec_blob_law)
next
  case (7 s org b)
  then show ?case by (simp add: mem_eval mi_counts_ok_def)
next
  case (8 s e)
  then show ?case by (simp add: mem_eval mem_ops mem_get_keeps)
next
  case (10 s org fp)
  then show ?case by (simp add: mem_eval mem_ops mem_get_keeps fun_eq_iff)
next
  case (11 s org fps)
  then show ?case by (simp add: mem_eval mem_ops mem_get_keeps fun_eq_iff fp_of_fold_set)
next
  case (12 s fp)
  then show ?case by (simp add: mem_eval mem_ops fp_of_def)
next
  case (13 s fps)
  define out where out: "out = rev (sort_key snd (rev (fold (\<lambda>org. hentry org 0 Suc)
      (concat (map (fp_of (mi_chunk_fps (mw_index s))) fps)) [])))"
  have "mem_find_chunk_fps fps (mw_index s) = (Ok out, mw_index s)"
    by (simp add: mem_find_chunk_fps_def fp_counts_concat out)
  then show ?case using ranked_counts(1) [OF out] ranked_keys [OF out] by (simp add: mem_eval)
next
  case (23 s org)
  then show ?case using hvals_iff [of "mw_pins s"] by (auto simp: mem_eval mem_ops)
next
  case (28 s rr)
  then show ?case using upsert_keyed [of "mw_replicas s" rr] by (simp add: mem_eval mem_ops fun_eq_iff)
next
  case (29 s b stale now)
  then show ?case using healthy_card [of "mw_replicas s" b "\<lambda>r. rr_state r = Healthy \<and> fresh stale now r"]
    by (simp add: mem_eval mem_healthy_count_with_stale_eq)
qed (auto simp: mem_eval mem_ops fun_eq_iff split: if_splits)

interpretation mem_total: total_node mem_node mem_view mem_inv "\<lambda>_. True"
  by unfold_locales simp

end
