(* ===== verification/Sodl_Codec.thy ===== *)
theory Sodl_Codec
  imports Sodl_Core
begin

text \<open>
  Serialisers. The program serialises its records with \<open>serde_json\<close>, which is not under
  the repository; a \<open>codec\<close> carries the two calls it makes, \<open>serde_json::to_vec\<close> and
  \<open>serde_json::from_slice\<close>, with the error rendered as a string. \<open>codec_ok\<close> is the
  documented behaviour the code relies on: what was serialised can be read back. The second
  half builds a codec from a reversible encoding of numbers, strings, lists and pairs, on
  which the hypotheses about codecs are shown to be satisfiable.
\<close>

record 'a codec =
  to_vec :: "'a \<Rightarrow> (string, bytes) outcome"
  from_slice :: "bytes \<Rightarrow> (string, 'a) outcome"

definition codec_ok :: "'a codec \<Rightarrow> bool" where
  "codec_ok J \<longleftrightarrow> (\<forall>x. \<exists>b. to_vec J x = Ok b \<and> from_slice J b = Ok x)"

definition try_parse :: "'a codec \<Rightarrow> bytes \<Rightarrow> 'a option" where
  "try_parse J b = (case from_slice J b of Ok x \<Rightarrow> Some x | _ \<Rightarrow> None)"

lemma codec_okE:
  assumes "codec_ok J"
  obtains b where "to_vec J x = Ok b" and "from_slice J b = Ok x"
  using assms by (auto simp: codec_ok_def)

lemma codec_ok_parse: "codec_ok J \<Longrightarrow> to_vec J x = Ok b \<Longrightarrow> try_parse J b = Some x"
  by (erule codec_okE [of J x]) (simp add: try_parse_def)


section \<open>A reversible encoding\<close>

type_synonym 'a enc = "'a \<Rightarrow> bytes"
type_synonym 'a dec = "bytes \<Rightarrow> ('a \<times> bytes) option"

definition rev_code :: "'a enc \<Rightarrow> 'a dec \<Rightarrow> bool" where
  "rev_code e d \<longleftrightarrow> (\<forall>x r. d (e x @ r) = Some (x, r))"

definition nat_enc :: "nat enc" where
  "nat_enc n = replicate n 1 @ [0]"

fun nat_dec :: "nat dec" where
  "nat_dec [] = None"
| "nat_dec (b # bs) = (if b = 0 then Some (0, bs) else map_option (\<lambda>(n, r). (Suc n, r)) (nat_dec bs))"

lemma nat_code: "rev_code nat_enc nat_dec"
proof -
  have "nat_dec (replicate n 1 @ 0 # r) = Some (n, r)" for n r
    by (induction n) auto
  then show ?thesis by (simp add: rev_code_def nat_enc_def)
qed

definition pair_enc :: "'a enc \<Rightarrow> 'b enc \<Rightarrow> ('a \<times> 'b) enc" where
  "pair_enc e f = (\<lambda>(x, y). e x @ f y)"

definition pair_dec :: "'a dec \<Rightarrow> 'b dec \<Rightarrow> ('a \<times> 'b) dec" where
  "pair_dec d g bs = (case d bs of None \<Rightarrow> None
     | Some (x, r) \<Rightarrow> map_option (\<lambda>(y, r'). ((x, y), r')) (g r))"

lemma pair_code: "rev_code e d \<Longrightarrow> rev_code f g \<Longrightarrow> rev_code (pair_enc e f) (pair_dec d g)"
  by (simp add: rev_code_def pair_enc_def pair_dec_def)

definition map_enc :: "('b \<Rightarrow> 'a) \<Rightarrow> 'a enc \<Rightarrow> 'b enc" where
  "map_enc f e = (\<lambda>x. e (f x))"

definition map_dec :: "('a \<Rightarrow> 'b) \<Rightarrow> 'a dec \<Rightarrow> 'b dec" where
  "map_dec g d bs = map_option (\<lambda>(x, r). (g x, r)) (d bs)"

lemma map_code: "rev_code e d \<Longrightarrow> (\<And>x. g (f x) = x) \<Longrightarrow> rev_code (map_enc f e) (map_dec g d)"
  by (simp add: rev_code_def map_enc_def map_dec_def)

fun reps_dec :: "'a dec \<Rightarrow> nat \<Rightarrow> 'a list dec" where
  "reps_dec d 0 bs = Some ([], bs)"
| "reps_dec d (Suc n) bs = (case d bs of None \<Rightarrow> None
     | Some (x, r) \<Rightarrow> map_option (\<lambda>(xs, r'). (x # xs, r')) (reps_dec d n r))"

definition list_enc :: "'a enc \<Rightarrow> 'a list enc" where
  "list_enc e xs = nat_enc (length xs) @ concat (map e xs)"

definition list_dec :: "'a dec \<Rightarrow> 'a list dec" where
  "list_dec d bs = (case nat_dec bs of None \<Rightarrow> None | Some (n, r) \<Rightarrow> reps_dec d n r)"

lemma list_code:
  assumes "rev_code e d"
  shows "rev_code (list_enc e) (list_dec d)"
proof -
  have "reps_dec d (length xs) (concat (map e xs) @ r) = Some (xs, r)" for xs r
    using assms by (induction xs) (auto simp: rev_code_def)
  then show ?thesis
    using nat_code by (simp add: rev_code_def list_enc_def list_dec_def)
qed

definition word_enc :: "('n :: len) word enc" where
  "word_enc = map_enc unat nat_enc"

definition word_dec :: "('n :: len) word dec" where
  "word_dec = map_dec of_nat nat_dec"

definition text_enc :: "string enc" where
  "text_enc = list_enc (map_enc of_char nat_enc)"

definition text_dec :: "string dec" where
  "text_dec = list_dec (map_dec char_of nat_dec)"

lemma word_code: "rev_code word_enc word_dec"
  unfolding word_enc_def word_dec_def by (rule map_code [OF nat_code]) simp

lemma text_code: "rev_code text_enc text_dec"
  unfolding text_enc_def text_dec_def by (rule list_code, rule map_code [OF nat_code]) simp

definition bool_enc :: "bool enc" where
  "bool_enc = map_enc of_bool nat_enc"

definition bool_dec :: "bool dec" where
  "bool_dec = map_dec (\<lambda>n. n = 1) nat_dec"

definition int_enc :: "int enc" where
  "int_enc = map_enc (\<lambda>i. (i < 0, nat (abs i))) (pair_enc bool_enc nat_enc)"

definition int_dec :: "int dec" where
  "int_dec = map_dec (\<lambda>(neg, n). if neg then - int n else int n) (pair_dec bool_dec nat_dec)"

definition opt_enc :: "'a enc \<Rightarrow> 'a option enc" where
  "opt_enc e = map_enc (\<lambda>x. case x of None \<Rightarrow> [] | Some a \<Rightarrow> [a]) (list_enc e)"

definition opt_dec :: "'a dec \<Rightarrow> 'a option dec" where
  "opt_dec d = map_dec (\<lambda>l. case l of [] \<Rightarrow> None | a # _ \<Rightarrow> Some a) (list_dec d)"

lemma bool_code: "rev_code bool_enc bool_dec"
  unfolding bool_enc_def bool_dec_def by (rule map_code [OF nat_code]) simp

lemma int_code: "rev_code int_enc int_dec"
  unfolding int_enc_def int_dec_def by (rule map_code [OF pair_code [OF bool_code nat_code]]) simp

lemma opt_code: "rev_code e d \<Longrightarrow> rev_code (opt_enc e) (opt_dec d)"
  unfolding opt_enc_def opt_dec_def by (erule map_code [OF list_code]) (simp split: option.split)

abbreviation texts_enc :: "string list enc" where "texts_enc \<equiv> list_enc text_enc"
abbreviation texts_dec :: "string list dec" where "texts_dec \<equiv> list_dec text_dec"

lemmas plain_codes = nat_code pair_code list_code word_code text_code bool_code int_code opt_code

definition codec_of :: "'a enc \<Rightarrow> 'a dec \<Rightarrow> 'a codec" where
  "codec_of e d = \<lparr>to_vec = (\<lambda>x. Ok (e x)),
     from_slice = (\<lambda>b. case d b of Some (x, []) \<Rightarrow> Ok x | _ \<Rightarrow> Err ''trailing characters'')\<rparr>"

lemma codec_of_ok:
  assumes "rev_code e d"
  shows "codec_ok (codec_of e d)"
proof -
  have "d (e x) = Some (x, [])" for x using assms by (metis append_Nil2 rev_code_def)
  then show ?thesis by (simp add: codec_ok_def codec_of_def)
qed

lemma rev_code_whole: "rev_code e d \<Longrightarrow> d (e x) = Some (x, [])"
  unfolding rev_code_def by (metis append_Nil2)

end
