(* ===== verification/Sodl_Chunk.thy ===== *)
theory Sodl_Chunk
  imports Sodl_Cas Sodl_Codec
begin

text \<open>
  Chunking, \<open>crates/sodl-chunk\<close>: the fixed-width and the FastCDC chunker, the chunk
  manifest, the pipeline that stores a payload as chunks and the one that reassembles it.
  The locale \<open>chunker_laws\<close> states what the pipeline needs of a chunker: the chunks
  tile the payload. The chunkers here satisfy it on the configurations their constructors
  accept.
\<close>

section \<open>Chunkers\<close>

record chunk_descriptor =
  cd_offset :: u64
  cd_length :: u32
  cd_data :: bytes

type_synonym chunker = "bytes \<Rightarrow> chunk_descriptor list res"

fun chunks_cover :: "nat \<Rightarrow> chunk_descriptor list \<Rightarrow> bytes \<Rightarrow> bool" where
  "chunks_cover off [] data = (data = [])"
| "chunks_cover off (d # ds) data =
     (cd_offset d = of_nat off \<and> unat (cd_length d) = length (cd_data d)
      \<and> (\<exists>rest. data = cd_data d @ rest \<and> chunks_cover (off + length (cd_data d)) ds rest))"

lemma chunks_cover_concat: "chunks_cover off ds data \<Longrightarrow> concat (map cd_data ds) = data"
  by (induction ds arbitrary: off data) auto

definition covering :: "chunker \<Rightarrow> bool" where
  "covering ck \<longleftrightarrow> (\<forall>data. length data < 2 ^ 63 \<longrightarrow> (\<exists>ds. ck data = Ok ds \<and> chunks_cover 0 ds data))"

locale chunker_laws =
  fixes chunk :: "'c \<Rightarrow> chunker"
    and good :: "'c \<Rightarrow> bool"
  assumes chunk_law: "good c \<Longrightarrow> length data < 2 ^ 63 \<Longrightarrow>
    \<exists>ds. chunk c data = Ok ds \<and> chunks_cover 0 ds data"
begin

lemma chunk_covering: "good c \<Longrightarrow> covering (chunk c)"
  using chunk_law by (simp add: covering_def)

lemma chunk_concat: "good c \<Longrightarrow> length data < 2 ^ 63 \<Longrightarrow>
  \<exists>ds. chunk c data = Ok ds \<and> concat (map cd_data ds) = data"
  using chunk_law chunks_cover_concat by blast

end


section \<open>FixedSizeChunker\<close>

record fixed_size_chunker =
  chunk_size :: u32

definition fixed_new :: "u32 \<Rightarrow> fixed_size_chunker res" where
  "fixed_new cs = (if cs = 0 then Panic else Ok \<lparr>chunk_size = cs\<rparr>)"

function fixed_go :: "nat \<Rightarrow> bytes \<Rightarrow> nat \<Rightarrow> chunk_descriptor list" where
  "fixed_go cs data offset =
     (if cs \<noteq> 0 \<and> offset < length data then
        let e = min (offset + cs) (length data) in
        \<lparr>cd_offset = of_nat offset, cd_length = of_nat (e - offset),
          cd_data = take (e - offset) (drop offset data)\<rparr> # fixed_go cs data e
      else [])"
  by auto
termination by (relation "measure (\<lambda>(cs, data, offset). length data - offset)") auto

declare fixed_go.simps [simp del]

text \<open>\<open>data.len() / cs\<close> panics for a width of zero.\<close>

definition fixed_chunk :: "fixed_size_chunker \<Rightarrow> chunker" where
  "fixed_chunk c data =
     (let cs = unat (chunk_size c) in
      if cs = 0 then Panic else Ok (fixed_go cs data 0))"


section \<open>FastCdcChunker\<close>

definition xorshift64 :: "u64 \<Rightarrow> u64" where
  "xorshift64 s0 =
     (let s1 = s0 XOR push_bit 13 s0;
          s2 = s1 XOR drop_bit 7 s1
      in s2 XOR push_bit 17 s2)"

fun gear_gen :: "nat \<Rightarrow> u64 \<Rightarrow> u64 list" where
  "gear_gen 0 state = []"
| "gear_gen (Suc n) state = (let s = xorshift64 state in s # gear_gen n s)"

definition GEAR_TABLE :: "u64 list" where
  "GEAR_TABLE = gear_gen 256 42"

record fast_cdc_chunker =
  min_size :: u32
  avg_size :: u32
  max_size :: u32

definition cdc_default :: fast_cdc_chunker where
  "cdc_default = \<lparr>min_size = 16 * 1024, avg_size = 64 * 1024, max_size = 256 * 1024\<rparr>"

definition cdc_new :: "u32 \<Rightarrow> u32 \<Rightarrow> u32 \<Rightarrow> fast_cdc_chunker res" where
  "cdc_new mn av mx =
     (if mn < av \<and> av < mx then Ok \<lparr>min_size = mn, avg_size = av, max_size = mx\<rparr> else Panic)"

definition leading_zeros64 :: "u64 \<Rightarrow> nat" where
  "leading_zeros64 w = length (takeWhile (\<lambda>i. \<not> bit w i) (rev [0..<64]))"

text \<open>\<open>bits - 1\<close> underflows when the average size is zero.\<close>

definition cdc_mask :: "fast_cdc_chunker \<Rightarrow> u64 res" where
  "cdc_mask c =
     (let bits = 64 - leading_zeros64 (ucast (avg_size c)) in
      if bits = 0 then Panic else Ok (push_bit (bits - 1) 1 - 1))"

function cdc_scan :: "u64 \<Rightarrow> nat \<Rightarrow> bytes \<Rightarrow> u64 \<Rightarrow> nat \<Rightarrow> nat" where
  "cdc_scan m mx data hash i =
     (if i < mx then
        let hash' = push_bit 1 hash + GEAR_TABLE ! unat (data ! i) in
        if hash' AND m = 0 then i + 1 else cdc_scan m mx data hash' (i + 1)
      else mx)"
  by auto
termination by (relation "measure (\<lambda>(m, mx, data, hash, i). mx - i)") auto

declare cdc_scan.simps [simp del]

definition cut_point :: "fast_cdc_chunker \<Rightarrow> bytes \<Rightarrow> nat res" where
  "cut_point c data =
     (let len = length data;
          mn = min (unat (min_size c)) len;
          mx = min (unat (max_size c)) len
      in bindR (cdc_mask c) (\<lambda>m. Ok (cdc_scan m mx data 0 mn)))"

text \<open>
  The loop advances by the cut. A cut of zero (a maximum size of zero, which
  \<open>new\<close> rejects) would push empty chunks until the allocation fails: \<open>Panic\<close>.
\<close>

function cdc_go :: "fast_cdc_chunker \<Rightarrow> bytes \<Rightarrow> nat \<Rightarrow> chunk_descriptor list res" where
  "cdc_go c data offset =
     (if offset < length data then
        let remaining = drop offset data in
        case cut_point c remaining of
          Ok k \<Rightarrow>
            if k = 0 then Panic
            else bindR (cdc_go c data (offset + k))
              (\<lambda>ds. Ok (\<lparr>cd_offset = of_nat offset, cd_length = of_nat k,
                         cd_data = take k remaining\<rparr> # ds))
        | Err e \<Rightarrow> Err e
        | Panic \<Rightarrow> Panic
      else Ok [])"
  by auto
termination by (relation "measure (\<lambda>(c, data, offset). length data - offset)") auto

declare cdc_go.simps [simp del]

definition cdc_chunk :: "fast_cdc_chunker \<Rightarrow> chunker" where
  "cdc_chunk c data =
     (if data = [] then Ok [\<lparr>cd_offset = 0, cd_length = 0, cd_data = []\<rparr>]
      else cdc_go c data 0)"

definition cdc_valid :: "fast_cdc_chunker \<Rightarrow> bool" where
  "cdc_valid c \<longleftrightarrow> min_size c < avg_size c \<and> avg_size c < max_size c"

lemma cdc_new_Ok_iff: "cdc_new mn av mx = Ok c \<longleftrightarrow>
    cdc_valid c \<and> c = \<lparr>min_size = mn, avg_size = av, max_size = mx\<rparr>"
  by (auto simp: cdc_new_def cdc_valid_def)

lemma cdc_default_valid: "cdc_valid cdc_default"
  by (simp add: cdc_valid_def cdc_default_def)


section \<open>The mask\<close>

lemma leading_zeros64_eq:
  assumes "2 ^ k \<le> unat w" and "unat w < 2 ^ (k + 1)" and "k < 64"
  shows "leading_zeros64 w = 63 - k"
proof -
  have split: "rev [0..<64] = rev [Suc k..<64] @ k # rev [0..<k]"
  proof -
    have "[0..<64] = [0..<k] @ k # [Suc k..<64]"
      using assms(3) upt_add_eq_append [of 0 k "64 - k"] by (simp add: upt_conv_Cons)
    then show ?thesis by simp
  qed
  have zero: "\<not> bit w i" if "Suc k \<le> i" for i
  proof -
    have "unat w < 2 ^ i" using assms(2) that
      by (metis Suc_eq_plus1 less_le_trans one_le_numeral power_increasing)
    then have "\<not> bit (unat w) i" by (simp add: bit_iff_odd)
    then show ?thesis by (simp add: bit_unsigned_iff)
  qed
  have "unat w div 2 ^ k = 1"
    using assms(1,2) by (intro div_nat_eqI) (auto simp: mult.commute)
  then have "bit (unat w) k" by (simp add: bit_iff_odd)
  then have one: "bit w k" by (simp add: bit_unsigned_iff)
  have "takeWhile (\<lambda>i. \<not> bit w i) (rev [Suc k..<64] @ k # rev [0..<k]) = rev [Suc k..<64]"
    using zero one by (subst takeWhile_append2) auto
  then show ?thesis by (simp add: leading_zeros64_def split)
qed


lemma width_bound:
  fixes w :: u32
  assumes "2 ^ k \<le> unat w"
  shows "k < 32"
proof (rule ccontr)
  assume "\<not> k < 32"
  then have "(2 :: nat) ^ 32 \<le> 2 ^ k" by (intro power_increasing) auto
  moreover have "unat w < 2 ^ 32" using unsigned_less [of w] by simp
  ultimately show False using assms by linarith
qed

lemma cdc_mask_eq:
  assumes "2 ^ k \<le> unat (avg_size c)" and "unat (avg_size c) < 2 ^ (k + 1)"
  shows "cdc_mask c = Ok (push_bit k 1 - 1)"
proof -
  have k: "k < 32" by (rule width_bound [OF assms(1)])
  have "unat (ucast (avg_size c) :: u64) = unat (avg_size c)"
    using u32_bound [of "avg_size c"] by (simp add: unsigned_ucast_eq take_bit_nat_eq_self)
  then have "leading_zeros64 (ucast (avg_size c)) = 63 - k"
    using leading_zeros64_eq [of k] assms k by simp
  then show ?thesis using k by (simp add: cdc_mask_def Let_def)
qed

lemma cdc_mask_Ok: "avg_size c \<noteq> 0 \<Longrightarrow> \<exists>m. cdc_mask c = Ok m"
proof -
  assume "avg_size c \<noteq> 0"
  then have "0 < unat (avg_size c)" by (simp add: unat_gt_0)
  then obtain k where "2 ^ k \<le> unat (avg_size c)" "unat (avg_size c) < 2 ^ (k + 1)"
    using ex_power_ivl1 [of 2 "unat (avg_size c)"] by auto
  then show ?thesis using cdc_mask_eq by blast
qed

text \<open>The mask of the chunker has as many low bits set as the binary logarithm of the average
  size rounded down, for every average size: a boundary is expected once per 2 ^ floor(log2 avg)
  bytes, not once per 2 ^ (ceil(log2 avg) - 1).\<close>

theorem cdc_mask_low_bits:
  assumes "2 ^ k \<le> unat (avg_size c)" and "unat (avg_size c) < 2 ^ (k + 1)"
  shows "\<exists>m. cdc_mask c = Ok m \<and> (\<forall>i. bit m i = (i < k))"
proof -
  have k: "k < 64" using width_bound [OF assms(1)] by simp
  have "bit (push_bit k 1 - 1 :: u64) i = (i < k)" for i
    using k by (auto simp flip: mask_eq_exp_minus_1 mask_eq_decr_exp simp: push_bit_eq_mult bit_mask_iff)
  then show ?thesis using cdc_mask_eq [OF assms] by blast
qed

theorem cdc_mask_low_bits_witness:
  "\<exists>m. cdc_mask cdc_default = Ok m \<and> (\<forall>i. bit m i = (i < 16))"
  by (rule cdc_mask_low_bits) (simp_all add: cdc_default_def)



section \<open>Both chunkers tile the payload\<close>

lemma fixed_go_cover:
  assumes "0 < cs" and "cs < 4294967296" and "offset \<le> length data"
  shows "chunks_cover offset (fixed_go cs data offset) (drop offset data)"
  using assms
proof (induction cs data offset rule: fixed_go.induct)
  case (1 cs data offset)
  show ?case
  proof (cases "offset < length data")
    case False
    then show ?thesis by (simp add: fixed_go.simps)
  next
    case True
    let ?e = "min (offset + cs) (length data)"
    have le: "offset \<le> ?e" "?e \<le> length data" "?e - offset < 4294967296" using True 1(2,3) by auto
    have u: "unat (of_nat (?e - offset) :: u32) = ?e - offset"
      by (rule unat_of_nat_u32 [OF le(3)])
    have "chunks_cover ?e (fixed_go cs data ?e) (drop ?e data)"
      by (rule 1(1) [OF _ refl]) (use True 1 in auto)
    moreover have "drop offset data = take (?e - offset) (drop offset data) @ drop ?e data"
      using le(1) append_take_drop_id [of "?e - offset" "drop offset data"] by simp
    moreover have "length (take (?e - offset) (drop offset data)) = ?e - offset"
      using le by simp
    ultimately show ?thesis
      using True 1(2) le u by (subst fixed_go.simps) (auto simp: Let_def simp del: take_drop drop_drop of_nat_diff)
  qed
qed

lemma fixed_chunk_covers:
  "chunk_size c \<noteq> 0 \<Longrightarrow> \<exists>ds. fixed_chunk c data = Ok ds \<and> chunks_cover 0 ds data"
  using fixed_go_cover [of "unat (chunk_size c)" 0 data] u32_bound [of "chunk_size c"]
  by (simp add: fixed_chunk_def Let_def unat_gt_0 unat_eq_0)

interpretation fixed_chunks: chunker_laws fixed_chunk "\<lambda>c. chunk_size c \<noteq> 0"
  by unfold_locales (rule fixed_chunk_covers)

lemma cdc_scan_bounds: "i \<le> mx \<Longrightarrow> i \<le> cdc_scan m mx data hash i \<and> cdc_scan m mx data hash i \<le> mx
    \<and> (i < mx \<longrightarrow> i < cdc_scan m mx data hash i)"
proof (induction m mx data hash i rule: cdc_scan.induct)
  case (1 m mx data hash i)
  then show ?case by (subst (1 2 3) cdc_scan.simps) (force simp: Let_def)
qed

lemma cdc_valid_sizes:
  assumes "cdc_valid c"
  shows "unat (min_size c) < unat (max_size c)" and "0 < unat (max_size c)" and "avg_size c \<noteq> 0"
  using assms by (auto simp: cdc_valid_def word_less_nat_alt)

lemma cut_point_bounds:
  assumes "cdc_valid c" and "data \<noteq> []"
  shows "\<exists>k. cut_point c data = Ok k \<and> 0 < k \<and> k \<le> length data \<and> k \<le> unat (max_size c)
    \<and> (k < length data \<longrightarrow> unat (min_size c) < k)"
proof -
  obtain m where m: "cdc_mask c = Ok m" using cdc_mask_Ok cdc_valid_sizes(3) [OF assms(1)] by blast
  let ?mn = "min (unat (min_size c)) (length data)" and ?mx = "min (unat (max_size c)) (length data)"
  have "?mn \<le> ?mx" "0 < ?mx" using cdc_valid_sizes [OF assms(1)] assms(2) by auto
  then show ?thesis
    using cdc_scan_bounds [of ?mn ?mx m data 0] cdc_valid_sizes [OF assms(1)] m
    by (auto simp: cut_point_def Let_def)
qed

definition cdc_sized :: "fast_cdc_chunker \<Rightarrow> chunk_descriptor list \<Rightarrow> bool" where
  "cdc_sized c ds \<longleftrightarrow> (\<forall>d \<in> set ds. length (cd_data d) \<le> unat (max_size c))
     \<and> (\<forall>d \<in> set (butlast ds). unat (min_size c) < length (cd_data d))"

lemma cdc_go_cover:
  assumes "cdc_valid c"
  shows "\<exists>ds. cdc_go c data offset = Ok ds \<and> chunks_cover offset ds (drop offset data)
    \<and> cdc_sized c ds \<and> (offset < length data \<longrightarrow> ds \<noteq> []) \<and> (\<forall>d \<in> set ds. cd_data d \<noteq> [])"
  using assms
proof (induction c data offset rule: cdc_go.induct)
  case (1 c data offset)
  show ?case
  proof (cases "offset < length data")
    case False
    then show ?thesis by (simp add: cdc_go.simps cdc_sized_def)
  next
    case True
    obtain k where cut: "cut_point c (drop offset data) = Ok k" and k: "0 < k"
      "k \<le> length data - offset" "k \<le> unat (max_size c)"
      "k < length data - offset \<longrightarrow> unat (min_size c) < k"
      using cut_point_bounds [OF 1(2), of "drop offset data"] True by auto
    obtain ds where go: "cdc_go c data (offset + k) = Ok ds"
      and ds: "chunks_cover (offset + k) ds (drop (offset + k) data)" "cdc_sized c ds"
        "offset + k < length data \<longrightarrow> ds \<noteq> []" "\<forall>d \<in> set ds. cd_data d \<noteq> []"
      using 1(1) [OF True refl cut _ 1(2)] k by auto
    let ?d = "\<lparr>cd_offset = of_nat offset, cd_length = of_nat k,
      cd_data = take k (drop offset data)\<rparr> :: chunk_descriptor"
    have "k < 4294967296" using k(3) u32_bound [of "max_size c"] by simp
    then have u: "unat (of_nat k :: u32) = k" by (simp add: unat_of_nat_u32)
    have len: "length (take k (drop offset data)) = k" using k True by simp
    have eq: "cdc_go c data offset = Ok (?d # ds)"
      using True cut go k by (subst cdc_go.simps) (simp add: Let_def)
    have "drop offset data = take k (drop offset data) @ drop (offset + k) data"
      using append_take_drop_id [of k "drop offset data"] by (simp add: add.commute)
    then have "chunks_cover offset (?d # ds) (drop offset data)"
      using ds(1) u len by auto
    moreover have "offset + k < length data" if "ds \<noteq> []"
      using that ds(1,4) by (cases ds) (auto simp: linorder_not_le [symmetric])
    then have "cdc_sized c (?d # ds)"
      using ds(2) k len True by (cases "ds = []") (auto simp: cdc_sized_def)
    ultimately show ?thesis using eq ds(4) len k(1) by auto
  qed
qed

lemma cdc_chunk_covers: "cdc_valid c \<Longrightarrow> \<exists>ds. cdc_chunk c data = Ok ds \<and> chunks_cover 0 ds data"
  using cdc_go_cover [of c data 0] by (auto simp: cdc_chunk_def)

interpretation cdc_chunks: chunker_laws cdc_chunk cdc_valid
  by unfold_locales (rule cdc_chunk_covers)

text \<open>C30: FastCDC on any configuration its constructor accepts and any payload terminates without a
  panic; its chunks, in order, carry contiguous offsets and exact lengths, concatenate to the
  payload, are never longer than the maximum, and all but the last are longer than the minimum.\<close>

theorem cdc_chunk_tiles:
  assumes "cdc_new mn av mx = Ok c"
  shows "\<exists>ds. cdc_chunk c data = Ok ds \<and> chunks_cover 0 ds data \<and> concat (map cd_data ds) = data
    \<and> (\<forall>d \<in> set ds. length (cd_data d) \<le> unat mx)
    \<and> (\<forall>d \<in> set (butlast ds). unat mn < length (cd_data d))"
proof -
  have v: "cdc_valid c" "min_size c = mn" "max_size c = mx"
    using assms by (auto simp: cdc_new_Ok_iff)
  show ?thesis
  proof (cases "data = []")
    case True
    then show ?thesis by (simp add: cdc_chunk_def)
  next
    case False
    then obtain ds where "cdc_chunk c data = Ok ds" "chunks_cover 0 ds data" "cdc_sized c ds"
      using cdc_go_cover [OF v(1), of data 0] by (auto simp: cdc_chunk_def)
    then show ?thesis
      using chunks_cover_concat [of 0 ds data] v(2,3) unfolding cdc_sized_def by blast
  qed
qed

theorem cdc_chunk_tiles_witness:
  "\<exists>ds. cdc_chunk \<lparr>min_size = 2, avg_size = 4, max_size = 8\<rparr> [1, 2, 3, 4, 5, 6, 7, 8, 9, 10] = Ok ds
     \<and> concat (map cd_data ds) = [1, 2, 3, 4, 5, 6, 7, 8, 9, 10]
     \<and> (\<forall>d \<in> set ds. length (cd_data d) \<le> 8) \<and> (\<forall>d \<in> set (butlast ds). 2 < length (cd_data d))"
proof -
  have "cdc_new 2 4 8 = Ok \<lparr>min_size = 2, avg_size = 4, max_size = 8\<rparr>" by (simp add: cdc_new_def)
  from cdc_chunk_tiles [OF this, of "[1, 2, 3, 4, 5, 6, 7, 8, 9, 10]"] show ?thesis by auto
qed



section \<open>Boundaries depend on the following bytes only\<close>

lemma cdc_go_shift:
  "bindR (cdc_go c (p @ s) (length p + offset)) (\<lambda>ds. Ok (map cd_data ds)) =
   (bindR (cdc_go c s offset) (\<lambda>ds. Ok (map cd_data ds)) :: bytes list res)"
proof (induction c s offset rule: cdc_go.induct)
  case (1 c s offset)
  show ?case
  proof (cases "offset < length s")
    case False
    then show ?thesis by (simp add: cdc_go.simps)
  next
    case True
    show ?thesis
    proof (cases "cut_point c (drop offset s)")
      case (Ok k)
      show ?thesis
      proof (cases "k = 0")
        case True
        then show ?thesis using Ok \<open>offset < length s\<close> by (subst (1 2) cdc_go.simps) simp
      next
        case False
        have IH: "bindR (cdc_go c (p @ s) (length p + (offset + k))) (\<lambda>ds. Ok (map cd_data ds)) =
          (bindR (cdc_go c s (offset + k)) (\<lambda>ds. Ok (map cd_data ds)) :: bytes list res)"
          using 1 [OF True refl Ok False] .
        then show ?thesis using Ok False True
          by (subst (1 2) cdc_go.simps)
            (cases "cdc_go c (p @ s) (length p + (offset + k))";
             cases "cdc_go c s (offset + k)"; simp add: add.assoc Let_def)
      qed
    qed (use True in \<open>(subst (1 2) cdc_go.simps; simp)+\<close>)
  qed
qed

lemma cdc_go_tail:
  assumes "cdc_valid c" and "cdc_go c data offset = Ok (ds1 @ ds2)"
  shows "cdc_go c data (offset + length (concat (map cd_data ds1))) = Ok ds2"
  using assms(2)
proof (induction ds1 arbitrary: offset)
  case Nil
  then show ?case by simp
next
  case (Cons d ds1)
  have lt: "offset < length data" using Cons.prems by (subst (asm) cdc_go.simps) (auto split: if_splits)
  then obtain k where k: "cut_point c (drop offset data) = Ok k" "0 < k" "k \<le> length data - offset"
    using cut_point_bounds [OF assms(1), of "drop offset data"] by auto
  then have "cdc_go c data (offset + k) = Ok (ds1 @ ds2)" and "length (cd_data d) = k"
    using Cons.prems lt by (subst (asm) cdc_go.simps; auto simp: bindR_eq_Ok)+
  then show ?case using Cons.IH [of "offset + k"] by (simp add: add.assoc)
qed

lemma cdc_chunk_tail:
  assumes "cdc_valid c" and "s \<noteq> []" and "cdc_chunk c (p @ s) = Ok (ds1 @ ds2)"
    and "concat (map cd_data ds1) = p"
  shows "bindR (cdc_chunk c s) (\<lambda>ds. Ok (map cd_data ds)) = (Ok (map cd_data ds2) :: bytes list res)"
proof -
  have "cdc_go c (p @ s) (length p) = Ok ds2"
    using cdc_go_tail [OF assms(1), of "p @ s" 0 ds1 ds2] assms(2,3,4) by (simp add: cdc_chunk_def)
  then show ?thesis using cdc_go_shift [of c p s 0] assms(2) by (simp add: cdc_chunk_def)
qed

text \<open>C26: Content-defined chunking resynchronises. If two payloads end in the same bytes and both have
  a chunk boundary where these bytes start, all chunks from there on are identical, whatever comes
  before: an edit changes only the chunks up to the next common boundary.\<close>

theorem cdc_resynchronises:
  assumes "cdc_new mn av mx = Ok c" and "s \<noteq> []"
    and "cdc_chunk c (p @ s) = Ok (ds1 @ ds2)" and "concat (map cd_data ds1) = p"
    and "cdc_chunk c (q @ s) = Ok (es1 @ es2)" and "concat (map cd_data es1) = q"
  shows "map cd_data ds2 = map cd_data es2
    \<and> map (\<lambda>d. compute_blob_id H (cd_data d) alg) ds2 = map (\<lambda>d. compute_blob_id H (cd_data d) alg) es2"
proof -
  have v: "cdc_valid c" using assms(1) by (auto simp: cdc_new_Ok_iff)
  have eq: "map cd_data ds2 = map cd_data es2"
    using cdc_chunk_tail [OF v assms(2,3,4)] cdc_chunk_tail [OF v assms(2,5,6)] by simp
  have "map (\<lambda>b. compute_blob_id H b alg) (map cd_data ds2)
    = map (\<lambda>b. compute_blob_id H b alg) (map cd_data es2)" unfolding eq ..
  then have "map (\<lambda>d. compute_blob_id H (cd_data d) alg) ds2
    = map (\<lambda>d. compute_blob_id H (cd_data d) alg) es2" by (simp only: map_map comp_def)
  with eq show ?thesis ..
qed

lemma gear_nth: "i < n \<Longrightarrow> gear_gen n s ! i = (xorshift64 ^^ Suc i) s"
proof (induction n arbitrary: i s)
  case 0
  then show ?case by simp
next
  case (Suc n)
  then show ?case by (cases i) (simp_all add: Let_def funpow_swap1)
qed

lemma gear_first:
  "GEAR_TABLE ! 0 = 45454805674"
  "GEAR_TABLE ! Suc 0 = 11532217803599905471"
  "GEAR_TABLE ! 2 = 10021416941527320954"
proof -
  have x: "xorshift64 42 = 45454805674" "xorshift64 45454805674 = 11532217803599905471"
    "xorshift64 11532217803599905471 = 10021416941527320954"
    by code_simp+
  show "GEAR_TABLE ! 0 = 45454805674" "GEAR_TABLE ! Suc 0 = 11532217803599905471"
    "GEAR_TABLE ! 2 = 10021416941527320954"
    by (simp_all add: GEAR_TABLE_def gear_nth x numeral_2_eq_2)
qed

definition small_cdc :: fast_cdc_chunker where
  "small_cdc = \<lparr>min_size = 1, avg_size = 2, max_size = 4\<rparr>"

lemma small_cdc_mask: "cdc_mask small_cdc = Ok 1"
  using cdc_mask_eq [of 1 small_cdc] by (simp add: small_cdc_def)

lemma small_cdc_cut: "cut_point small_cdc data =
    Ok (cdc_scan 1 (min 4 (length data)) data 0 (min 1 (length data)))"
  unfolding cut_point_def Let_def small_cdc_mask by (simp add: small_cdc_def)

lemmas small_cdc_eval = cdc_chunk_def cdc_go.simps cdc_scan.simps small_cdc_cut Let_def gear_first

theorem cdc_resynchronises_witness:
  "\<exists>ds1 ds2 es1 es2. cdc_chunk small_cdc ([0, 1, 2] @ [1, 0, 2]) = Ok (ds1 @ ds2)
     \<and> cdc_chunk small_cdc ([2, 0, 0, 1, 2] @ [1, 0, 2]) = Ok (es1 @ es2)
     \<and> length ds1 = 1 \<and> length es1 = 2 \<and> map cd_data ds2 = map cd_data es2"
proof -
  let ?D = "\<lambda>off len d. \<lparr>cd_offset = off, cd_length = len, cd_data = d\<rparr> :: chunk_descriptor"
  have a: "cdc_chunk small_cdc ([0, 1, 2] @ [1, 0, 2])
    = Ok ([?D 0 3 [0, 1, 2]] @ [?D 3 2 [1, 0], ?D 5 1 [2]])"
    by (simp add: small_cdc_eval)
  have b: "cdc_chunk small_cdc ([2, 0, 0, 1, 2] @ [1, 0, 2])
    = Ok ([?D 0 2 [2, 0], ?D 2 3 [0, 1, 2]] @ [?D 5 2 [1, 0], ?D 7 1 [2]])"
    by (simp add: small_cdc_eval)
  have "cdc_new 1 2 4 = Ok small_cdc" by (simp add: cdc_new_def small_cdc_def)
  from cdc_resynchronises [OF this _ a _ b]
  have "map cd_data [?D 3 2 [1, 0], ?D 5 1 [2]] = map cd_data [?D 5 2 [1, 0], ?D 7 1 [2]]" by simp
  moreover have "length [?D 0 3 [0, 1, 2]] = 1" "length [?D 0 2 [2, 0], ?D 2 3 [0, 1, 2]] = 2" by simp_all
  ultimately show ?thesis using a b by blast
qed

end
