(* ===== verification/Sodl_FsCas.thy ===== *)
theory Sodl_FsCas
  imports Sodl_Cas
begin

text \<open>
  \<open>FsBlobStore\<close> satisfies the contract of a blob store on every identifier that
  \<open>compute_blob_id\<close> produces, a put interrupted at any point leaves the store unchanged
  or complete, and what happens on identifiers of another form.
\<close>

section \<open>Identifiers and files\<close>

definition hex_digit :: "char \<Rightarrow> bool" where
  "hex_digit c \<longleftrightarrow> (c \<in> set ''0123456789abcdef'')"

definition good_blob_id :: "blob_id \<Rightarrow> bool" where
  "good_blob_id bid \<longleftrightarrow>
     (case split_once (CHR '':'') bid of
        None \<Rightarrow> False
      | Some (alg, hex) \<Rightarrow> (alg = ''blake3'' \<or> alg = ''sha256'')
          \<and> 3 \<le> length hex \<and> list_all hex_digit hex)"

definition blob_file :: "path \<Rightarrow> blob_id \<Rightarrow> path" where
  "blob_file root bid =
     (case split_once (CHR '':'') bid of
        None \<Rightarrow> root
      | Some (alg, hex) \<Rightarrow> root @ [alg, take 2 hex, drop 2 hex])"

definition fs_blobs :: "path \<Rightarrow> fs \<Rightarrow> blob_id \<Rightarrow> bytes option" where
  "fs_blobs root s bid =
     (if good_blob_id bid then hget (fs_files s) (blob_file root bid) else None)"

text \<open>
  Below the two directories of the digest algorithms there is one level of directories, with files
  in them. The rest of the root is free: the bindings put registries of documents there.
\<close>

definition alg_dir :: "string \<Rightarrow> bool" where
  "alg_dir a \<longleftrightarrow> a = ''blake3'' \<or> a = ''sha256''"

lemma alg_dir_up [simp]: "\<not> alg_dir ''..''"
  by (simp add: alg_dir_def)

lemma alg_dir_neq [simp]: "alg_dir a \<Longrightarrow> a \<noteq> ''..''"
  by auto

definition fs_store_inv :: "path \<Rightarrow> fs \<Rightarrow> bool" where
  "fs_store_inv root s \<longleftrightarrow> fs_wf s \<and> root \<in> set (fs_dirs s)
     \<and> (\<forall>a e. alg_dir a \<and> root @ a # e \<in> set (fs_dirs s) \<longrightarrow> length e \<le> 1)
     \<and> (\<forall>a e. alg_dir a \<and> hhas (fs_files s) (root @ a # e) \<longrightarrow> length e = 2)"

lemma hex_digit_special: "hex_digit c \<Longrightarrow> c \<noteq> CHR ''.'' \<and> c \<noteq> CHR ''/'' \<and> c \<noteq> CHR '':''"
  by (auto simp: hex_digit_def)

lemma hex_digit_ascii: "hex_digit c \<Longrightarrow> (of_char c :: nat) < 128"
  by (auto simp: hex_digit_def)

lemma good_blob_idE:
  assumes "good_blob_id bid"
  obtains alg pre rest where "bid = alg @ CHR '':'' # pre @ rest"
    "split_once (CHR '':'') bid = Some (alg, pre @ rest)"
    "alg = ''blake3'' \<or> alg = ''sha256''" "length pre = 2" "rest \<noteq> []"
    "\<And>c. c \<in> set pre \<union> set rest \<Longrightarrow> hex_digit c"
proof -
  from assms obtain alg hex where sp: "split_once (CHR '':'') bid = Some (alg, hex)"
    and alg: "alg = ''blake3'' \<or> alg = ''sha256''" and len: "3 \<le> length hex"
    and hex: "list_all hex_digit hex"
    by (auto simp: good_blob_id_def split: option.splits)
  show ?thesis
  proof (rule that [of alg "take 2 hex" "drop 2 hex"])
    show "bid = alg @ CHR '':'' # take 2 hex @ drop 2 hex"
      using sp by (simp add: split_once_Some_iff)
    show "\<And>c. c \<in> set (take 2 hex) \<union> set (drop 2 hex) \<Longrightarrow> hex_digit c"
      using hex by (auto simp: list_all_iff dest: in_set_takeD in_set_dropD)
    show "split_once (CHR '':'') bid = Some (alg, take 2 hex @ drop 2 hex)" using sp by simp
    show "alg = ''blake3'' \<or> alg = ''sha256''" by (rule alg)
    show "length (take 2 hex) = 2" and "drop 2 hex \<noteq> []" using len by simp_all
  qed
qed

text \<open>Digests are lower-case hexadecimal strings of some length above two.\<close>

definition hash_ok :: "hashes \<Rightarrow> bool" where
  "hash_ok H \<longleftrightarrow> (\<forall>b. 3 \<le> length (blake3_hex H b) \<and> list_all hex_digit (blake3_hex H b)
     \<and> 3 \<le> length (sha256_hex H b) \<and> list_all hex_digit (sha256_hex H b))"

lemma hash_ok_good: "hash_ok H \<Longrightarrow> good_blob_id (compute_blob_id H b alg)"
proof -
  assume H: "hash_ok H"
  have "split_once (CHR '':'') (''blake3'' @ CHR '':'' # blake3_hex H b) = Some (''blake3'', blake3_hex H b)"
    "split_once (CHR '':'') (''sha256'' @ CHR '':'' # sha256_hex H b) = Some (''sha256'', sha256_hex H b)"
    by (rule split_once_append; simp)+
  then show ?thesis using H by (cases alg) (simp_all add: good_blob_id_def hash_ok_def)
qed

text \<open>A hash function for evaluation: the bytes in unary.\<close>

definition demo_hex :: "bytes \<Rightarrow> string" where
  "demo_hex b = ''000'' @ concat (map (\<lambda>w. replicate (unat w) (CHR ''a'') @ ''b'') b)"

definition demo_hashes :: hashes where
  "demo_hashes = \<lparr>blake3_hex = demo_hex, sha256_hex = demo_hex\<rparr>"

lemma demo_hash_ok: "hash_ok demo_hashes"
  by (auto simp: hash_ok_def demo_hashes_def demo_hex_def list_all_iff hex_digit_def)

lemma unary_inj:
  "concat (map (\<lambda>w. replicate (unat w) (CHR ''a'') @ ''b'') xs)
   = concat (map (\<lambda>w. replicate (unat w) (CHR ''a'') @ ''b'') ys) \<Longrightarrow> xs = (ys :: bytes)"
proof (induction xs arbitrary: ys)
  case Nil
  then show ?case by simp
next
  case (Cons x xs)
  have eq: "n = m \<and> r = r'"
    if "replicate n (CHR ''a'') @ CHR ''b'' # r = replicate m (CHR ''a'') @ CHR ''b'' # r'" for n m r r'
    using that
  proof (induction n arbitrary: m)
    case 0
    then show ?case by (cases m) auto
  next
    case (Suc n)
    then show ?case by (cases m) auto
  qed
  from Cons.prems obtain y zs where ys: "ys = y # zs" by (cases ys) auto
  let ?u = "\<lambda>w. replicate (unat w) (CHR ''a'') @ ''b''"
  have "unat x = unat y \<and> concat (map ?u xs) = concat (map ?u zs)"
    using Cons.prems by (intro eq) (simp add: ys)
  then show ?case using Cons.IH [of zs] unsigned_word_eqI [of x y] by (simp add: ys)
qed

lemma demo_hash_inj: "inj (\<lambda>b. compute_blob_id demo_hashes b alg)"
  by (cases alg) (auto intro!: injI dest: unary_inj simp: demo_hashes_def demo_hex_def)

text \<open>The parts of a good identifier are plain path components.\<close>

lemma good_parts:
  assumes "good_blob_id bid"
  obtains alg pre rest where "split_once (CHR '':'') bid = Some (alg, pre @ rest)"
    "length pre = 2" "rest \<noteq> []" "CHR ''.'' \<notin> set rest"
    "alg_dir alg" "pre \<noteq> ''..''" "rest \<noteq> ''..''"
    "blob_file root bid = root @ [alg, pre, rest]"
    "blob_path root bid = Ok (root @ [alg, pre], root @ [alg, pre, rest])"
proof -
  obtain alg pre rest where p: "split_once (CHR '':'') bid = Some (alg, pre @ rest)"
    and alg: "alg = ''blake3'' \<or> alg = ''sha256''" and pre: "length pre = 2" and rest: "rest \<noteq> []"
    and hex: "\<And>c. c \<in> set pre \<union> set rest \<Longrightarrow> hex_digit c"
    by (rule good_blob_idE [OF assms]) blast
  have special: "CHR ''.'' \<notin> set pre" "CHR ''.'' \<notin> set rest"
    "CHR ''/'' \<notin> set pre" "CHR ''/'' \<notin> set rest"
    using hex hex_digit_special by blast+
  have nonempty: "pre \<noteq> []" "pre \<noteq> ''.''" "pre \<noteq> ''..''" "rest \<noteq> ''.''" "rest \<noteq> ''..''"
    using pre special by auto
  have joins: "path_join root alg = root @ [alg]"
    "path_join (root @ [alg]) pre = root @ [alg, pre]"
    "path_join (root @ [alg, pre]) rest = root @ [alg, pre, rest]"
    using alg nonempty rest special by (auto simp: path_join_single)
  have "(pre @ rest) ! 2 = hd rest" using pre rest by (simp add: nth_append hd_conv_nth)
  moreover have "(of_char (hd rest) :: nat) < 128"
    using hex [of "hd rest"] rest hex_digit_ascii by simp
  ultimately have "char_boundary (pre @ rest) 2"
    using pre rest by (simp add: char_boundary_def)
  moreover have "\<not> length (pre @ rest) < 3" using pre rest by (cases rest) auto
  ultimately have path: "blob_path root bid = Ok (root @ [alg, pre], root @ [alg, pre, rest])"
    using p pre joins by (simp add: blob_path_def)
  have "blob_file root bid = root @ [alg, pre, rest]"
    using p pre by (simp add: blob_file_def)
  moreover have "alg_dir alg" using alg by (simp add: alg_dir_def)
  ultimately show ?thesis using that p pre rest special nonempty path by blast
qed

lemma blob_file_inj:
  assumes "good_blob_id a" and "good_blob_id b" and "blob_file root a = blob_file root b"
  shows "a = b"
proof -
  obtain alg pre rest where a: "split_once (CHR '':'') a = Some (alg, pre @ rest)"
    "blob_file root a = root @ [alg, pre, rest]"
    using good_parts [OF assms(1)] by metis
  obtain alg' pre' rest' where b: "split_once (CHR '':'') b = Some (alg', pre' @ rest')"
    "blob_file root b = root @ [alg', pre', rest']"
    using good_parts [OF assms(2)] by metis
  show ?thesis using a b assms(3) by (simp add: split_once_Some_iff)
qed


section \<open>Resolving the path of a blob\<close>

lemma store_inv_wf: "fs_store_inv root s \<Longrightarrow> fs_wf s"
  and store_inv_root: "fs_store_inv root s \<Longrightarrow> root \<in> set (fs_dirs s)"
  by (simp_all add: fs_store_inv_def)

lemma store_inv_dir:
  "fs_store_inv root s \<Longrightarrow> alg_dir alg \<Longrightarrow> length e = 2 \<Longrightarrow> root @ alg # e \<notin> set (fs_dirs s)"
  by (fastforce simp: fs_store_inv_def)

lemma store_inv_file:
  "fs_store_inv root s \<Longrightarrow> alg_dir alg \<Longrightarrow> length e \<noteq> 2 \<Longrightarrow> hget (fs_files s) (root @ alg # e) = None"
  by (fastforce simp: fs_store_inv_def)

lemma walk_blob:
  assumes inv: "fs_store_inv root s" and "alg_dir alg" and "pre \<noteq> ''..''" and "f \<noteq> ''..''"
  shows "fs_walk s [] (root @ [alg, pre, f]) =
    (if root @ [alg, pre] \<in> set (fs_dirs s) then Ok (root @ [alg, pre, f]) else Err EntryNotFound)"
proof (cases "root @ [alg] \<in> set (fs_dirs s)")
  case False
  then have "root @ [alg, pre] \<notin> set (fs_dirs s)"
    using fs_wf_parent [OF store_inv_wf [OF inv], of "root @ [alg, pre]"] by (auto simp: butlast_append)
  then show ?thesis
    using fs_walk_missing [of s root alg "[pre, f]"] False assms
      store_inv_wf [OF inv] store_inv_root [OF inv] store_inv_file [OF inv assms(2), of "[]"] by simp
next
  case A: True
  show ?thesis
  proof (cases "root @ [alg, pre] \<in> set (fs_dirs s)")
    case False
    then show ?thesis
      using fs_walk_missing [of s "root @ [alg]" pre "[f]"] A assms
        store_inv_wf [OF inv] store_inv_file [OF inv, of alg "[pre]"] by simp
  next
    case True
    then show ?thesis
      using fs_walk_child [of s "root @ [alg, pre]" f] assms store_inv_wf [OF inv] by simp
  qed
qed

lemma no_dir_no_blob:
  assumes "fs_store_inv root s" and "root @ [alg, pre] \<notin> set (fs_dirs s)"
  shows "hget (fs_files s) (root @ [alg, pre, f]) = None"
proof (rule ccontr)
  assume "hget (fs_files s) (root @ [alg, pre, f]) \<noteq> None"
  then have "hhas (fs_files s) (root @ [alg, pre, f])" by auto
  then have "butlast (root @ [alg, pre, f]) \<in> set (fs_dirs s)"
    using store_inv_wf [OF assms(1)] unfolding fs_wf_def by blast
  then show False using assms(2) by (simp add: butlast_append)
qed

lemma exists_blob:
  assumes "fs_store_inv root s" and "alg_dir alg" and "pre \<noteq> ''..''" and "f \<noteq> ''..''"
  shows "fs_exists s (root @ [alg, pre, f]) = (hget (fs_files s) (root @ [alg, pre, f]) \<noteq> None)"
  using walk_blob [OF assms] no_dir_no_blob [OF assms(1)]
    store_inv_dir [OF assms(1,2), of "[pre, f]"]
  by (simp add: fs_exists_def)


section \<open>What the store leaves alone\<close>

text \<open>The store touches only what lies in the directories of the digest algorithms.\<close>

definition blob_area :: "path \<Rightarrow> path \<Rightarrow> bool" where
  "blob_area root p \<longleftrightarrow> take (length root) p = root
     \<and> (case drop (length root) p of [] \<Rightarrow> False | a # e \<Rightarrow> alg_dir a)"

definition same_outside :: "path \<Rightarrow> fs \<Rightarrow> fs \<Rightarrow> bool" where
  "same_outside root s t \<longleftrightarrow> (\<forall>p. \<not> blob_area root p \<longrightarrow>
     hget (fs_files t) p = hget (fs_files s) p \<and> (p \<in> set (fs_dirs t) \<longleftrightarrow> p \<in> set (fs_dirs s)))"

lemma blob_area_append [simp]: "blob_area root (root @ a # e) \<longleftrightarrow> alg_dir a"
  by (simp add: blob_area_def)

lemma blob_area_iff: "blob_area root p \<longleftrightarrow> (\<exists>a e. alg_dir a \<and> p = root @ a # e)"
proof
  assume "blob_area root p"
  then show "\<exists>a e. alg_dir a \<and> p = root @ a # e"
    unfolding blob_area_def using append_take_drop_id [of "length root" p]
    by (auto split: list.splits)
qed auto

lemma same_outside_refl [simp]: "same_outside root s s"
  by (simp add: same_outside_def)

lemma same_outside_trans: "same_outside root s t \<Longrightarrow> same_outside root t u \<Longrightarrow> same_outside root s u"
  by (simp add: same_outside_def)

lemma tmp_name:
  "CHR ''.'' \<notin> set rest \<Longrightarrow> rest \<noteq> ''..'' \<Longrightarrow>
   path_with_extension (root @ [alg, pre, rest]) ''tmp'' = root @ [alg, pre, rest @ ''.tmp'']"
  by (simp add: path_with_extension_def butlast_append name_with_extension_no_dot)

lemma same_outside_blob_file:
  assumes "good_blob_id bid"
  shows "blob_area root (blob_file root bid)"
    and "blob_area root (path_with_extension (blob_file root bid) ''tmp'')"
proof -
  obtain alg pre rest where "CHR ''.'' \<notin> set rest" "rest \<noteq> ''..''" "alg_dir alg"
    "blob_file root bid = root @ [alg, pre, rest]"
    using good_parts [OF assms] by metis
  then show "blob_area root (blob_file root bid)"
    and "blob_area root (path_with_extension (blob_file root bid) ''tmp'')"
    by (simp_all add: tmp_name)
qed

section \<open>The operations\<close>

lemma mkdirs_existing:
  "fs_wf s \<Longrightarrow> cur @ cs \<in> set (fs_dirs s) \<Longrightarrow> fs_mkdirs cur (cs @ e) s = fs_mkdirs (cur @ cs) e s"
proof (induction cs arbitrary: cur)
  case Nil
  then show ?case by simp
next
  case (Cons c cs)
  have d: "cur @ [c] \<in> set (fs_dirs s)" using fs_wf_prefix [of s "cur @ [c]" cs] Cons.prems by simp
  moreover have "c \<noteq> ''..''" using Cons.prems by (auto simp: fs_wf_def)
  moreover have "hget (fs_files s) (cur @ [c]) = None" using d Cons.prems(1) by (simp add: fs_wf_kind)
  ultimately show ?case using Cons.IH [of "cur @ [c]"] Cons.prems by (simp add: Let_def)
qed

lemma add_dir_inv:
  assumes inv: "fs_store_inv root s" and dir: "root @ e \<in> set (fs_dirs s)"
    and alg: "alg_dir (hd (e @ [c]))" and len: "length e < 2" and up: "c \<noteq> ''..''"
  shows "fs_store_inv root (s\<lparr>fs_dirs := (root @ e @ [c]) # fs_dirs s\<rparr>)"
proof -
  obtain a e' where ae: "e @ [c] = a # e'" and a: "alg_dir a" "length e' < 2"
    using alg len by (cases e) auto
  have none: "hget (fs_files s) (root @ e @ [c]) = None"
    unfolding ae using a store_inv_file [OF inv, of a e'] by simp
  have "''..'' \<notin> set (root @ e @ [c])"
    using inv dir up by (auto simp: fs_store_inv_def fs_wf_def)
  moreover have "length x \<le> 1" if "root @ b # x = root @ e @ [c]" for b x
    using that ae a(2) by simp
  ultimately show ?thesis
    using inv dir none unfolding fs_store_inv_def fs_wf_def
    by (auto simp: butlast_append)
qed

lemma create_blob_dir:
  assumes inv: "fs_store_inv root s" and "alg_dir alg" and "pre \<noteq> ''..''"
  shows "\<exists>t. fs_create_dir_all (root @ [alg, pre]) s = (Ok (), t) \<and> fs_store_inv root t
    \<and> root @ [alg, pre] \<in> set (fs_dirs t) \<and> fs_files t = fs_files s \<and> same_outside root s t"
proof -
  define s1 where "s1 = (if root @ [alg] \<in> set (fs_dirs s) then s
    else s\<lparr>fs_dirs := (root @ [alg]) # fs_dirs s\<rparr>)"
  have inv1: "fs_store_inv root s1" and d1: "root @ [alg] \<in> set (fs_dirs s1)"
    using add_dir_inv [OF inv, of "[]" alg] assms store_inv_root [OF inv] by (auto simp: s1_def)
  define s2 where "s2 = (if root @ [alg, pre] \<in> set (fs_dirs s1) then s1
    else s1\<lparr>fs_dirs := (root @ [alg, pre]) # fs_dirs s1\<rparr>)"
  have inv2: "fs_store_inv root s2" and d2: "root @ [alg, pre] \<in> set (fs_dirs s2)"
    using add_dir_inv [OF inv1, of "[alg]" pre] inv1 d1 assms by (auto simp: s2_def)
  have files: "fs_files s1 = fs_files s" "fs_files s2 = fs_files s" by (auto simp: s1_def s2_def)
  have "fs_create_dir_all (root @ [alg, pre]) s = fs_mkdirs root [alg, pre] s"
    using mkdirs_existing [of s "[]" root "[alg, pre]"] store_inv_wf [OF inv] store_inv_root [OF inv]
    by (simp add: fs_create_dir_all_def)
  also have "\<dots> = (Ok (), s2)"
    using assms store_inv_file [OF inv, of alg "[]"] store_inv_file [OF inv, of alg "[pre]"]
    by (simp add: Let_def s1_def s2_def)
  finally have "fs_create_dir_all (root @ [alg, pre]) s = (Ok (), s2)" .
  moreover have "same_outside root s s2"
    using assms(2) blob_area_append [of root alg] by (auto simp: same_outside_def s1_def s2_def)
  ultimately show ?thesis using inv2 d2 files by blast
qed

text \<open>One file on the third level appears, is replaced or disappears.\<close>

lemma put_file_inv:
  assumes "fs_store_inv root s" and "alg_dir alg" and "root @ [alg, pre] \<in> set (fs_dirs s)"
  shows "fs_store_inv root (s\<lparr>fs_files := hput (root @ [alg, pre, f]) d (fs_files s)\<rparr>)"
  using assms store_inv_dir [OF assms(1,2), of "[pre, f]"] unfolding fs_store_inv_def fs_wf_def
  by (auto simp: butlast_append split: if_splits)

lemma del_file_inv:
  assumes "fs_store_inv root s"
  shows "fs_store_inv root (s\<lparr>fs_files := hdel p (fs_files s)\<rparr>)"
  using assms unfolding fs_store_inv_def fs_wf_def by (auto split: if_splits)

definition put_result :: "path \<Rightarrow> bytes \<Rightarrow> fs \<Rightarrow> fs" where
  "put_result p d t =
     t\<lparr>fs_files := hput p d (hdel (path_with_extension p ''tmp'')
         (hput (path_with_extension p ''tmp'') d (fs_files t)))\<rparr>"

lemma put_vacant:
  assumes inv: "fs_store_inv root s" and good: "good_blob_id bid"
    and vacant: "hget (fs_files s) (blob_file root bid) = None"
  shows "\<exists>t. fs_blob_put root bid d s = (Ok (), put_result (blob_file root bid) d t)
    \<and> fs_store_inv root t \<and> fs_files t = fs_files s
    \<and> fs_store_inv root (put_result (blob_file root bid) d t)
    \<and> same_outside root s (put_result (blob_file root bid) d t)"
proof -
  obtain alg pre rest where p: "rest \<noteq> []" "CHR ''.'' \<notin> set rest"
    "alg_dir alg" "pre \<noteq> ''..''" "rest \<noteq> ''..''"
    and loc: "blob_file root bid = root @ [alg, pre, rest]"
    and path: "blob_path root bid = Ok (root @ [alg, pre], root @ [alg, pre, rest])"
    using good_parts [OF good] by metis
  obtain t where mk: "fs_create_dir_all (root @ [alg, pre]) s = (Ok (), t)"
    and t: "fs_store_inv root t" "root @ [alg, pre] \<in> set (fs_dirs t)" "fs_files t = fs_files s"
      "same_outside root s t"
    using create_blob_dir [OF inv p(3,4)] by blast
  let ?p = "root @ [alg, pre, rest]" and ?tmp = "root @ [alg, pre, rest @ ''.tmp'']"
  have tmp: "path_with_extension ?p ''tmp'' = ?tmp" using p by (simp add: tmp_name)
  have tmp': "rest @ ''.tmp'' \<noteq> ''..''" by (cases rest; cases "tl rest") auto
  define u where "u = t\<lparr>fs_files := hput ?tmp d (fs_files t)\<rparr>"
  have u: "fs_store_inv root u" "root @ [alg, pre] \<in> set (fs_dirs u)"
    using put_file_inv [OF t(1) p(3) t(2)] t(2) by (simp_all add: u_def)
  have wr: "fs_write ?tmp d t = (Ok (), u)"
    using walk_blob [OF t(1) p(3,4) tmp'] t store_inv_dir [OF t(1) p(3), of "[pre, rest @ ''.tmp'']"]
    by (simp add: fs_write_def u_def butlast_append)
  have mv: "fs_rename ?tmp ?p u = (Ok (), put_result ?p d t)"
    using walk_blob [OF u(1) p(3,4) tmp'] walk_blob [OF u(1) p(3,4,5)] u(2)
      store_inv_dir [OF u(1) p(3), of "[pre, rest]"] tmp
    by (simp add: fs_rename_def put_result_def u_def butlast_append)
  have "fs_blob_put root bid d s = (Ok (), put_result ?p d t)"
    using exists_blob [OF inv p(3,4,5)] vacant loc path mk wr mv tmp
    by (simp add: fs_blob_put_def map_io_def act_simps Let_def)
  moreover have "fs_store_inv root (put_result ?p d t)"
    using put_file_inv [OF del_file_inv [OF u(1), of ?tmp] p(3), of pre rest d] u(2) tmp
    by (simp add: put_result_def u_def)
  moreover have "same_outside root s (put_result ?p d t)"
    using t(4) same_outside_blob_file [OF good, of root] loc by (auto simp: same_outside_def put_result_def)
  ultimately show ?thesis using t loc by auto
qed

lemma put_result_blobs:
  assumes "good_blob_id bid" and "fs_files t = fs_files s"
  shows "fs_blobs root (put_result (blob_file root bid) d t) = (fs_blobs root s)(bid \<mapsto> d)"
proof
  fix x
  have tmp: "blob_file root x \<noteq> path_with_extension (blob_file root bid) ''tmp''" if g: "good_blob_id x" for x
  proof -
    obtain alg pre rest where "CHR ''.'' \<notin> set rest" "blob_file root x = root @ [alg, pre, rest]"
      using good_parts [OF g] by metis
    moreover obtain alg' pre' rest' where "CHR ''.'' \<notin> set rest'" "rest' \<noteq> ''..''"
      "blob_file root bid = root @ [alg', pre', rest']"
      using good_parts [OF assms(1)] by metis
    ultimately show ?thesis by (auto simp: tmp_name)
  qed
  show "fs_blobs root (put_result (blob_file root bid) d t) x = ((fs_blobs root s)(bid \<mapsto> d)) x"
    using assms blob_file_inj [OF _ assms(1), of x] tmp [of x] tmp [of bid]
    by (auto simp: fs_blobs_def put_result_def)
qed

lemma fs_has_law:
  assumes "fs_store_inv root s" and "good_blob_id bid"
  shows "fs_blob_has root bid s = (Ok (fs_blobs root s bid \<noteq> None), s)"
proof -
  obtain alg pre rest where p: "alg_dir alg" "pre \<noteq> ''..''" "rest \<noteq> ''..''"
    and loc: "blob_file root bid = root @ [alg, pre, rest]"
    and path: "blob_path root bid = Ok (root @ [alg, pre], root @ [alg, pre, rest])"
    using good_parts [OF assms(2)] by metis
  show ?thesis
    using exists_blob [OF assms(1) p] loc path assms(2)
    by (simp add: fs_blob_has_def fs_blobs_def)
qed

lemma fs_get_law:
  assumes "fs_store_inv root s" and "good_blob_id bid"
  shows "fs_blob_get root bid s = (of_option NotFound (fs_blobs root s bid), s)"
proof -
  obtain alg pre rest where p: "alg_dir alg" "pre \<noteq> ''..''" "rest \<noteq> ''..''"
    and loc: "blob_file root bid = root @ [alg, pre, rest]"
    and path: "blob_path root bid = Ok (root @ [alg, pre], root @ [alg, pre, rest])"
    using good_parts [OF assms(2)] by metis
  show ?thesis
    using walk_blob [OF assms(1) p] no_dir_no_blob [OF assms(1), of alg pre rest] loc path assms(2)
      store_inv_dir [OF assms(1) p(1), of "[pre, rest]"]
    by (auto simp: fs_blob_get_def fs_read_def fs_blobs_def of_option_def split: option.splits)
qed

lemma fs_delete_law:
  assumes "fs_store_inv root s" and "good_blob_id bid"
  shows "\<exists>t. fs_blob_delete root bid s = (Ok (), t) \<and> fs_store_inv root t
    \<and> fs_blobs root t = (fs_blobs root s)(bid := None) \<and> same_outside root s t"
proof -
  obtain alg pre rest where p: "alg_dir alg" "pre \<noteq> ''..''" "rest \<noteq> ''..''"
    and loc: "blob_file root bid = root @ [alg, pre, rest]"
    and path: "blob_path root bid = Ok (root @ [alg, pre], root @ [alg, pre, rest])"
    using good_parts [OF assms(2)] by metis
  let ?t = "if hget (fs_files s) (blob_file root bid) = None then s
    else s\<lparr>fs_files := hdel (blob_file root bid) (fs_files s)\<rparr>"
  have "fs_blob_delete root bid s = (Ok (), ?t)"
    using walk_blob [OF assms(1) p] no_dir_no_blob [OF assms(1), of alg pre rest] loc path
      store_inv_dir [OF assms(1) p(1), of "[pre, rest]"]
    by (auto simp: fs_blob_delete_def fs_remove_file_def)
  moreover have "fs_store_inv root ?t" using assms(1) del_file_inv by simp
  moreover have "fs_blobs root ?t = (fs_blobs root s)(bid := None)"
    using assms(2) blob_file_inj [OF _ assms(2)] by (auto simp: fs_blobs_def fun_eq_iff)
  moreover have "same_outside root s ?t"
    using same_outside_blob_file(1) [OF assms(2), of root] by (auto simp: same_outside_def)
  ultimately show ?thesis by blast
qed

text \<open>A put of an identifier that is taken does nothing.\<close>

lemma put_present:
  assumes "fs_store_inv root s" and "good_blob_id b" and "fs_blobs root s b = Some d'"
  shows "fs_blob_put root b d s = (Ok (), s)"
proof -
  obtain alg pre rest where p: "alg_dir alg" "pre \<noteq> ''..''" "rest \<noteq> ''..''"
    and loc: "blob_file root b = root @ [alg, pre, rest]"
    and path: "blob_path root b = Ok (root @ [alg, pre], root @ [alg, pre, rest])"
    using good_parts [OF assms(2)] by metis
  then show ?thesis
    using exists_blob [OF assms(1) p] assms(2,3) by (simp add: fs_blob_put_def fs_blobs_def act_simps)
qed

lemma fs_put_law:
  assumes "fs_store_inv root s" and "good_blob_id bid"
    and "fs_blobs root s bid = None \<or> fs_blobs root s bid = Some d"
  shows "\<exists>t. fs_blob_put root bid d s = (Ok (), t) \<and> fs_store_inv root t
    \<and> fs_blobs root t = (fs_blobs root s)(bid \<mapsto> d) \<and> same_outside root s t"
proof (cases "hget (fs_files s) (blob_file root bid)")
  case None
  then show ?thesis using put_vacant [OF assms(1,2)] put_result_blobs [OF assms(2)] by blast
next
  case (Some d')
  then have same: "fs_blobs root s bid = Some d" using assms(2,3) by (simp add: fs_blobs_def)
  have "fs_blob_put root bid d s = (Ok (), s)" by (rule put_present [OF assms(1,2) same])
  then show ?thesis using assms(1) same by (auto simp: fun_upd_idem)
qed

interpretation fs_cas: blob_store_laws "fs_blob_store root" "fs_blobs root" good_blob_id "fs_store_inv root"
  by unfold_locales
    (use fs_put_law fs_delete_law in \<open>simp_all add: fs_blob_store_def fs_has_law fs_get_law, metis+\<close>)


section \<open>Puts, gets and interrupted puts\<close>

text \<open>On the file-system store, for every identifier that content addressing produces, a put
  of a vacant (or identically filled) identifier succeeds, keeps the layout of the store, makes the
  following get return exactly the bytes put, and changes no other blob.\<close>

theorem fs_put_get:
  assumes "fs_store_inv root s" and "good_blob_id bid"
    and "fs_blobs root s bid = None \<or> fs_blobs root s bid = Some d"
    and "fs_blob_put root bid d s = (r, t)"
  shows "r = Ok () \<and> fs_store_inv root t \<and> fs_blob_get root bid t = (Ok d, t)
    \<and> fs_blobs root t = (fs_blobs root s)(bid \<mapsto> d)"
proof -
  have "r = Ok () \<and> fs_blob_get root bid t = (Ok d, t)"
    using fs_cas.put_then_get [of root s bid d r t] assms by (simp add: fs_blob_store_def)
  then show ?thesis using fs_put_law [OF assms(1-3)] assms(4) by auto
qed

definition demo_fs :: fs where
  "demo_fs = \<lparr>fs_files = [], fs_dirs = [[], [''blobs'']]\<rparr>"

lemma demo_fs_inv: "fs_store_inv [''blobs''] demo_fs"
  by (auto simp: demo_fs_def fs_store_inv_def fs_wf_def)

lemma demo_good: "good_blob_id ''blake3:abcd''"
  by code_simp

lemma demo_vacant: "fs_blobs root demo_fs bid = None"
  by (simp add: fs_blobs_def demo_fs_def)

theorem fs_put_get_witness:
  "\<exists>t. fs_blob_put [''blobs''] ''blake3:abcd'' [1, 2] demo_fs = (Ok (), t)
     \<and> fs_blob_get [''blobs''] ''blake3:abcd'' t = (Ok [1, 2], t)"
proof -
  obtain r t where "fs_blob_put [''blobs''] ''blake3:abcd'' [1, 2] demo_fs = (r, t)" by force
  then show ?thesis using fs_put_get [OF demo_fs_inv demo_good] demo_vacant by blast
qed

text \<open>
  A put that is killed. The calls run on a disk and a budget of steps: every directory of a path,
  the creation of a file, every byte written to it and every rename takes one step, and when the budget
  is spent the process is gone, which ends the put the way a panic does. What had been done stays
  done, as it does when a process dies and the system goes on.
\<close>

type_synonym killable = "fs \<times> nat"

fun kill_mkdirs :: "path \<Rightarrow> string list \<Rightarrow> (killable, io_kind, unit) act" where
  "kill_mkdirs cur [] w = (Ok (), w)"
| "kill_mkdirs cur (c # cs) (s, n) =
     (case n of
        0 \<Rightarrow> (Panic, (s, 0))
      | Suc k \<Rightarrow>
          (let next = (if c = ''..'' then butlast cur else cur @ [c]) in
           if hhas (fs_files s) next then (Err (if cs = [] then AlreadyExists else NotADirectory), (s, k))
           else kill_mkdirs next cs
                  (if next \<in> set (fs_dirs s) then s else s\<lparr>fs_dirs := next # fs_dirs s\<rparr>, k)))"

definition kill_write :: "path \<Rightarrow> bytes \<Rightarrow> (killable, io_kind, unit) act" where
  "kill_write p d w =
     (case w of (s, n) \<Rightarrow>
        if n = 0 then (Panic, (s, 0))
        else case fs_write p (take (n - 1) d) s of
            (Ok u, t) \<Rightarrow> if length d < n then (Ok (), (t, n - Suc (length d))) else (Panic, (t, 0))
          | (r, t) \<Rightarrow> (r, (t, n - 1)))"

definition kill_rename :: "path \<Rightarrow> path \<Rightarrow> (killable, io_kind, unit) act" where
  "kill_rename a b w =
     (case w of (s, n) \<Rightarrow>
        if n = 0 then (Panic, (s, 0))
        else case fs_rename a b s of (r, t) \<Rightarrow> (r, (t, n - 1)))"

definition kill_calls :: "killable file_calls" where
  "kill_calls = \<lparr>fc_exists = (\<lambda>p w. fs_exists (fst w) p), fc_create_dir_all = kill_mkdirs [],
     fc_write = kill_write, fc_rename = kill_rename\<rparr>"

definition killed_put :: "path \<Rightarrow> blob_id \<Rightarrow> bytes \<Rightarrow> nat \<Rightarrow> fs \<Rightarrow> unit res \<times> fs" where
  "killed_put root bid d n s =
     (case fs_put_on kill_calls root bid d (s, n) of (r, t, k) \<Rightarrow> (r, t))"

lemma kill_mkdirs_Ok:
  "fs_mkdirs cur cs s = (Ok (), t) \<Longrightarrow>
   kill_mkdirs cur cs (s, n) =
     (if length cs \<le> n then (Ok (), (t, n - length cs)) else (Panic, (snd (fs_mkdirs cur (take n cs) s), 0)))"
proof (induction cs arbitrary: cur s n)
  case Nil
  then show ?case by simp
next
  case (Cons c cs)
  then show ?case by (cases n) (auto simp: Let_def split: if_splits)
qed

lemma create_alg_dir:
  assumes inv: "fs_store_inv root s" and "alg_dir alg"
  shows "\<exists>t. fs_create_dir_all (root @ [alg]) s = (Ok (), t) \<and> fs_store_inv root t
    \<and> fs_files t = fs_files s"
proof -
  have "fs_create_dir_all (root @ [alg]) s = fs_mkdirs root [alg] s"
    using mkdirs_existing [of s "[]" root "[alg]"] store_inv_wf [OF inv] store_inv_root [OF inv]
    by (simp add: fs_create_dir_all_def)
  then show ?thesis
    using assms store_inv_file [OF inv, of alg "[]"] add_dir_inv [of root s "[]" alg]
      store_inv_root [OF inv] by (auto simp: Let_def)
qed

lemma torn_write:
  assumes inv: "fs_store_inv root t" and good: "good_blob_id bid"
    and dir: "root @ [alg, pre] \<in> set (fs_dirs t)"
    and loc: "blob_file root bid = root @ [alg, pre, rest]"
    and p: "CHR ''.'' \<notin> set rest" "rest \<noteq> []" "alg_dir alg" "pre \<noteq> ''..''" "rest \<noteq> ''..''"
    and w: "fs_write (path_with_extension (root @ [alg, pre, rest]) ''tmp'') x t = (r, u)"
  shows "fs_store_inv root u \<and> fs_blobs root u = fs_blobs root t"
proof -
  let ?tmp = "root @ [alg, pre, rest @ ''.tmp'']"
  have tmp': "rest @ ''.tmp'' \<noteq> ''..''" using p(2) by (cases rest; cases "tl rest") auto
  have u: "u = t\<lparr>fs_files := hput ?tmp x (fs_files t)\<rparr>"
    using walk_blob [OF inv p(3,4) tmp'] dir store_inv_dir [OF inv p(3), of "[pre, rest @ ''.tmp'']"]
      w p by (auto simp: fs_write_def butlast_append tmp_name)
  have "blob_file root b \<noteq> ?tmp" if g: "good_blob_id b" for b
  proof -
    obtain alg' pre' rest' where "CHR ''.'' \<notin> set rest'" "blob_file root b = root @ [alg', pre', rest']"
      using good_parts [OF g] by metis
    then show ?thesis by auto
  qed
  then show ?thesis using put_file_inv [OF inv p(3) dir] u by (auto simp: fs_blobs_def fun_eq_iff)
qed

lemma cut_mkdirs:
  assumes inv: "fs_store_inv root s" and "alg_dir alg" and "pre \<noteq> ''..''"
    and cut: "n < length (root @ [alg, pre])"
  shows "fs_store_inv root (snd (fs_mkdirs [] (take n (root @ [alg, pre])) s))
    \<and> fs_files (snd (fs_mkdirs [] (take n (root @ [alg, pre])) s)) = fs_files s"
proof (cases "n \<le> length root")
  case True
  have "take n root \<in> set (fs_dirs s)"
    using fs_wf_prefix [of s "take n root" "drop n root"] store_inv_wf [OF inv] store_inv_root [OF inv] by simp
  then have "fs_mkdirs [] (take n root) s = (Ok (), s)"
    using mkdirs_existing [of s "[]" "take n root" "[]"] store_inv_wf [OF inv] by simp
  then show ?thesis using True inv by simp
next
  case False
  then have "take n (root @ [alg, pre]) = root @ [alg]" using cut by (simp add: take_Cons')
  then show ?thesis
    using create_alg_dir [OF inv assms(2)] by (auto simp: fs_create_dir_all_def)
qed

lemma seqM_Panic: "m s = (Panic, t) \<Longrightarrow> seqM m k s = (Panic, t)"
  by (simp add: seqM_def bindM_Panic)

lemma same_files_blobs: "fs_files v = fs_files s \<Longrightarrow> fs_blobs root v = fs_blobs root s"
  by (simp add: fs_blobs_def fun_eq_iff)

lemma killed_put_cases:
  assumes inv: "fs_store_inv root s" and good: "good_blob_id bid"
    and vacant: "fs_blobs root s bid = None" and killed: "killed_put root bid d n s = (r, t)"
  shows "fs_store_inv root t
    \<and> (if length root + length d + 4 \<le> n
       then r = Ok () \<and> fs_blob_put root bid d s = (Ok (), t) \<and> fs_blobs root t = (fs_blobs root s)(bid \<mapsto> d)
       else r = Panic \<and> fs_blobs root t = fs_blobs root s)"
proof -
  obtain alg pre rest where p: "CHR ''.'' \<notin> set rest" "rest \<noteq> []" "alg_dir alg" "pre \<noteq> ''..''" "rest \<noteq> ''..''"
    and loc: "blob_file root bid = root @ [alg, pre, rest]"
    and path: "blob_path root bid = Ok (root @ [alg, pre], root @ [alg, pre, rest])"
    using good_parts [OF good] by metis
  let ?dir = "root @ [alg, pre]" and ?p = "root @ [alg, pre, rest]" and ?tmp = "root @ [alg, pre, rest @ ''.tmp'']"
  have tmp: "path_with_extension ?p ''tmp'' = ?tmp" using p by (simp add: tmp_name)
  have none: "hget (fs_files s) ?p = None" using vacant good loc by (simp add: fs_blobs_def)
  then have found: "\<not> fs_exists s ?p" using exists_blob [OF inv p(3,4,5)] by simp
  obtain m where mk: "fs_mkdirs [] ?dir s = (Ok (), m)"
    and m: "fs_store_inv root m" "?dir \<in> set (fs_dirs m)" "fs_files m = fs_files s"
    using create_blob_dir [OF inv p(3,4)] by (auto simp: fs_create_dir_all_def)
  have tmp': "rest @ ''.tmp'' \<noteq> ''..''" using p(2) by (cases rest; cases "tl rest") auto
  define u where "u x = m\<lparr>fs_files := hput ?tmp x (fs_files m)\<rparr>" for x
  have wr: "fs_write ?tmp x m = (Ok (), u x)" for x
    using walk_blob [OF m(1) p(3,4) tmp'] m(2) store_inv_dir [OF m(1) p(3), of "[pre, rest @ ''.tmp'']"]
    by (simp add: fs_write_def u_def butlast_append)
  have torn: "fs_store_inv root (u x) \<and> fs_blobs root (u x) = fs_blobs root s" for x
    using torn_write [OF m(1) good m(2) loc p, of x "Ok ()" "u x"] wr tmp same_files_blobs [OF m(3)] by simp
  obtain v where put: "fs_blob_put root bid d s = (Ok (), v)" "fs_store_inv root v"
    "fs_blobs root v = (fs_blobs root s)(bid \<mapsto> d)"
    using fs_put_law [OF inv good] vacant by blast
  have mv: "fs_rename ?tmp ?p (u d) = (Ok (), v)"
  proof -
    have "fs_blob_put root bid d s = map_io ''rename'' ?p (fs_rename ?tmp ?p) (u d)"
      using path found mk wr [of d] tmp
      by (simp add: fs_blob_put_def fs_create_dir_all_def map_io_def act_simps seqM_Panic Let_def)
    then show ?thesis using put(1)
      by (cases "fs_rename ?tmp ?p (u d)") (auto simp: map_io_def split: outcome.splits)
  qed
  let ?k = "length root + 2"
  consider (in_dirs) "n < ?k" | (in_file) "n = ?k" | (in_bytes) "?k < n" "n \<le> ?k + length d"
    | (in_rename) "n = Suc (?k + length d)" | (in_all) "Suc (?k + length d) < n"
    by linarith
  then show ?thesis
  proof cases
    case in_dirs
    then have "killed_put root bid d n s = (Panic, snd (fs_mkdirs [] (take n ?dir) s))"
      using path found kill_mkdirs_Ok [OF mk, of n]
      by (simp add: killed_put_def fs_put_on_def kill_calls_def map_io_def act_simps seqM_Panic Let_def del: take_append)
    then show ?thesis
      using killed in_dirs cut_mkdirs [OF inv p(3,4), of n] same_files_blobs [of t s root] by (auto simp del: take_append)
  next
    case in_file
    then have "killed_put root bid d n s = (Panic, m)"
      using path found kill_mkdirs_Ok [OF mk, of n]
      by (simp add: killed_put_def fs_put_on_def kill_calls_def kill_write_def map_io_def act_simps seqM_Panic Let_def)
    then show ?thesis using killed in_file m(1) same_files_blobs [OF m(3)] by simp
  next
    case in_bytes
    then have "kill_write ?tmp d (m, n - ?k) = (Panic, (u (take (n - ?k - 1) d), 0))"
      using wr by (simp add: kill_write_def)
    then have "killed_put root bid d n s = (Panic, u (take (n - ?k - 1) d))"
      using in_bytes path found kill_mkdirs_Ok [OF mk, of n] tmp
      by (simp add: killed_put_def fs_put_on_def kill_calls_def map_io_def act_simps seqM_Panic Let_def)
    then show ?thesis using killed in_bytes torn by auto
  next
    case in_rename
    then have "kill_write ?tmp d (m, n - ?k) = (Ok (), (u d, 0))" using wr by (simp add: kill_write_def)
    then have "killed_put root bid d n s = (Panic, u d)"
      using in_rename path found kill_mkdirs_Ok [OF mk, of n] tmp
      by (simp add: killed_put_def fs_put_on_def kill_calls_def kill_rename_def map_io_def act_simps Let_def)
    then show ?thesis using killed in_rename torn by auto
  next
    case in_all
    then have "kill_write ?tmp d (m, n - ?k) = (Ok (), (u d, n - Suc (?k + length d)))"
      using wr by (simp add: kill_write_def)
    then have "killed_put root bid d n s = (Ok (), v)"
      using in_all path found kill_mkdirs_Ok [OF mk, of n] tmp mv
      by (simp add: killed_put_def fs_put_on_def kill_calls_def kill_rename_def map_io_def act_simps Let_def)
    then show ?thesis using killed in_all put by simp
  qed
qed

text \<open>C28: A put of a vacant identifier is atomic however early its process is killed. The directories
  take a step each, the temporary file one to create and one for each byte, and the rename one. With that
  many steps the put ends as the undisturbed one and the complete blob is there; with fewer, the temporary
  file possibly half written, every blob is what it was before. Either way the layout of the store holds
  and repeating the put completes it.\<close>

theorem fs_put_crash_safe:
  assumes inv: "fs_store_inv root s" and good: "good_blob_id bid"
    and vacant: "fs_blobs root s bid = None" and killed: "killed_put root bid d n s = (r, t)"
  shows "fs_store_inv root t
    \<and> (if length root + length d + 4 \<le> n
       then r = Ok () \<and> fs_blob_put root bid d s = (Ok (), t) \<and> fs_blobs root t = (fs_blobs root s)(bid \<mapsto> d)
       else r = Panic \<and> fs_blobs root t = fs_blobs root s)
    \<and> fst (fs_blob_put root bid d t) = Ok ()
    \<and> fs_blobs root (snd (fs_blob_put root bid d t)) = (fs_blobs root s)(bid \<mapsto> d)"
proof -
  have "fs_store_inv root t
    \<and> (if length root + length d + 4 \<le> n
       then r = Ok () \<and> fs_blob_put root bid d s = (Ok (), t) \<and> fs_blobs root t = (fs_blobs root s)(bid \<mapsto> d)
       else r = Panic \<and> fs_blobs root t = fs_blobs root s)"
    using killed_put_cases [OF inv good vacant killed] by auto
  moreover from this have "fs_blobs root t bid = None \<or> fs_blobs root t bid = Some d"
    using vacant by (auto split: if_splits)
  then obtain t' where "fs_blob_put root bid d t = (Ok (), t')"
    "fs_blobs root t' = (fs_blobs root t)(bid \<mapsto> d)"
    using fs_put_law [OF _ good] calculation by blast
  ultimately show ?thesis by (auto split: if_splits)
qed

theorem fs_put_crash_safe_witness:
  "\<exists>u. killed_put [''blobs''] ''blake3:abcd'' [1, 2] 5 demo_fs = (Panic, u)
     \<and> hget (fs_files u) [''blobs'', ''blake3'', ''ab'', ''cd.tmp''] = Some [1]
     \<and> fs_blobs [''blobs''] u ''blake3:abcd'' = None
     \<and> fst (fs_blob_put [''blobs''] ''blake3:abcd'' [1, 2] u) = Ok ()"
proof -
  obtain r u where k: "killed_put [''blobs''] ''blake3:abcd'' [1, 2] 5 demo_fs = (r, u)" by force
  have "hget (fs_files (snd (killed_put [''blobs''] ''blake3:abcd'' [1, 2] 5 demo_fs)))
    [''blobs'', ''blake3'', ''ab'', ''cd.tmp''] = Some [1]"
    by code_simp
  then show ?thesis
    using fs_put_crash_safe [OF demo_fs_inv demo_good demo_vacant k] k demo_vacant
    by (intro exI [of _ u]) simp
qed


section \<open>Identifiers that content addressing does not produce\<close>

text \<open>Complete description of how an identifier is turned into a path: no colon and a short
  digest are input errors, a multi-byte character across the second byte of the digest panics, and
  everything else is accepted, whatever its characters.\<close>

theorem blob_path_cases:
  "blob_path root bid =
    (if CHR '':'' \<notin> set bid then Err (Invalid ''BlobId missing prefix'')
     else let hex = tl (dropWhile (\<lambda>c. c \<noteq> CHR '':'') bid);
              dir = path_join (path_join root (takeWhile (\<lambda>c. c \<noteq> CHR '':'') bid)) (take 2 hex)
          in if length hex < 3 then Err (Invalid ''BlobId hex too short'')
             else if 128 \<le> (of_char (hex ! 2) :: nat) \<and> (of_char (hex ! 2) :: nat) < 192 then Panic
             else Ok (dir, path_join dir (drop 2 hex)))"
proof (cases "split_once (CHR '':'') bid")
  case None
  moreover have "CHR '':'' \<notin> set bid" using None split_once_None_iff by metis
  ultimately show ?thesis by (simp add: blob_path_def)
next
  case (Some p)
  obtain alg hex where p: "p = (alg, hex)" by force
  then have bid: "bid = alg @ CHR '':'' # hex" and alg: "CHR '':'' \<notin> set alg"
    using Some by (simp_all add: split_once_Some_iff)
  have "takeWhile (\<lambda>c. c \<noteq> CHR '':'') bid = alg" "dropWhile (\<lambda>c. c \<noteq> CHR '':'') bid = CHR '':'' # hex"
    using alg unfolding bid by (induction alg) auto
  moreover have "CHR '':'' \<in> set bid" by (simp add: bid)
  moreover have "3 \<le> length hex \<Longrightarrow> char_boundary hex 2 =
      (\<not> (128 \<le> (of_char (hex ! 2) :: nat) \<and> (of_char (hex ! 2) :: nat) < 192))"
    by (simp add: char_boundary_def)
  ultimately show ?thesis using Some p by (simp add: blob_path_def Let_def)
qed

text \<open>The store does not confine identifiers to its root: an identifier whose digest continues with an
  absolute path after its second byte denotes that path.\<close>

lemma escaped_blob:
  assumes "fs_wf s" and "f = CHR ''/'' # g" and "path_comps f = d @ [n]"
    and "hget (fs_files s) (d @ [n]) = Some data" and "n \<noteq> ''..''"
  shows "fs_blob_has root (''x:ab'' @ f) s = (Ok True, s)
    \<and> fs_blob_get root (''x:ab'' @ f) s = (Ok data, s)
    \<and> fs_blob_delete root (''x:ab'' @ f) s = (Ok (), s\<lparr>fs_files := hdel (d @ [n]) (fs_files s)\<rparr>)"
proof -
  have sp: "split_once (CHR '':'') (''x:ab'' @ f) = Some (''x'', ''ab'' @ f)" by simp
  have "char_boundary (''ab'' @ f) 2" using assms(2) by (simp add: char_boundary_def)
  moreover have "path_join p f = d @ [n]" for p using assms(2,3) by (simp add: path_join_def)
  ultimately have path: "\<exists>dir. blob_path root (''x:ab'' @ f) = Ok (dir, d @ [n])"
    using sp assms(2) by (simp add: blob_path_def Let_def)
  have kind: "d @ [n] \<notin> set (fs_dirs s)" "d \<in> set (fs_dirs s)"
  proof -
    have "hhas (fs_files s) (d @ [n])" using assms(4) by simp
    then show "d @ [n] \<notin> set (fs_dirs s)" using assms(1) unfolding fs_wf_def by blast
    have "butlast (d @ [n]) \<in> set (fs_dirs s)"
      using \<open>hhas (fs_files s) (d @ [n])\<close> assms(1) unfolding fs_wf_def by blast
    then show "d \<in> set (fs_dirs s)" by simp
  qed
  then have "fs_walk s [] (d @ [n]) = Ok (d @ [n])"
    using fs_walk_child [OF assms(1)] assms(5) by simp
  then show ?thesis
    using path kind assms(4)
    by (auto simp: fs_blob_has_def fs_exists_def fs_blob_get_def fs_blob_delete_def fs_read_def fs_remove_file_def)
qed

end
