(* ===== verification/Sodl_Pipeline.thy ===== *)
theory Sodl_Pipeline
  imports Sodl_Chunk Sodl_FsCas
begin

text \<open>
  The chunk manifest and the storing and reassembling of payloads,
  \<open>crates/sodl-chunk/src/manifest.rs\<close> and the second half of
  \<open>crates/sodl-chunk/src/lib.rs\<close>. The abstract view of the pipeline is
  \<open>planned_blobs\<close>, the list of payloads a call writes: on a store that satisfies the
  contract, \<open>chunk_and_store\<close> adds exactly these.
\<close>

section \<open>The manifest\<close>

record chunk_entry =
  ce_blob_id :: blob_id
  ce_offset :: u64
  ce_length :: u32

record chunk_manifest =
  cm_version :: u32
  cm_total_size :: u64
  cm_chunk_count :: u32
  cm_hash_alg :: string
  cm_chunks :: "chunk_entry list"

fun check_offsets :: "u64 \<Rightarrow> chunk_entry list \<Rightarrow> unit res" where
  "check_offsets expected [] = Ok ()"
| "check_offsets expected (c # cs) =
     (if ce_offset c \<noteq> expected
      then Err (Invalid (''chunk offset gap: expected '' @ dec_nat (unat expected)
                 @ '', got '' @ dec_nat (unat (ce_offset c))))
      else bindR (add_checked expected (ucast (ce_length c))) (\<lambda>e. check_offsets e cs))"

definition manifest_validate :: "chunk_manifest \<Rightarrow> unit res" where
  "manifest_validate m =
     (if cm_version m \<noteq> 1
      then Err (Invalid (''unsupported chunk manifest version: '' @ dec_nat (unat (cm_version m))))
      else if cm_chunk_count m \<noteq> of_nat (length (cm_chunks m))
      then Err (Invalid ''chunk_count doesn't match chunks length'')
      else bindR (sum_checked 0 (map (\<lambda>c. ucast (ce_length c)) (cm_chunks m))) (\<lambda>tot.
        if tot \<noteq> cm_total_size m
        then Err (Invalid (''total_size mismatch: declared '' @ dec_nat (unat (cm_total_size m))
                   @ '', actual '' @ dec_nat (unat tot)))
        else check_offsets 0 (cm_chunks m)))"


section \<open>Storing\<close>

record chunk_config =
  inline_threshold :: u64
  custom_chunker :: "chunker option"

definition config_default :: chunk_config where
  "config_default = \<lparr>inline_threshold = 256 * 1024, custom_chunker = None\<rparr>"

definition with_chunker :: "chunker \<Rightarrow> chunk_config \<Rightarrow> chunk_config" where
  "with_chunker c cfg = cfg\<lparr>custom_chunker := Some c\<rparr>"

definition with_inline_threshold :: "u64 \<Rightarrow> chunk_config \<Rightarrow> chunk_config" where
  "with_inline_threshold n cfg = cfg\<lparr>inline_threshold := n\<rparr>"

definition effective_chunker :: "chunk_config \<Rightarrow> chunker" where
  "effective_chunker cfg =
     (case custom_chunker cfg of Some c \<Rightarrow> c | None \<Rightarrow> cdc_chunk cdc_default)"

record chunked_upload =
  cu_root_blob :: blob_id
  cu_chunk_blobs :: "blob_id list"
  cu_total_size :: u64
  cu_chunked :: bool

fun alg_lower :: "hash_alg \<Rightarrow> string" where
  "alg_lower Blake3 = ''blake3''"
| "alg_lower Sha256 = ''sha256''"

definition entry_of :: "hashes \<Rightarrow> hash_alg \<Rightarrow> chunk_descriptor \<Rightarrow> chunk_entry" where
  "entry_of H alg d = \<lparr>ce_blob_id = compute_blob_id H (cd_data d) alg,
     ce_offset = cd_offset d, ce_length = cd_length d\<rparr>"

definition build_manifest :: "hash_alg \<Rightarrow> u64 \<Rightarrow> chunk_entry list \<Rightarrow> chunk_manifest" where
  "build_manifest alg tot entries = \<lparr>cm_version = 1, cm_total_size = tot,
     cm_chunk_count = of_nat (length entries), cm_hash_alg = alg_lower alg, cm_chunks = entries\<rparr>"

definition store_chunk :: "hashes \<Rightarrow> hash_alg \<Rightarrow> 's blob_store \<Rightarrow> chunk_descriptor \<Rightarrow> ('s, chunk_entry) op" where
  "store_chunk H alg bs d =
     seqM (bs_put bs (compute_blob_id H (cd_data d) alg) (cd_data d)) (returnM (entry_of H alg d))"

text \<open>The \<open>debug_assert!\<close> on the covered length is part of the model.\<close>

definition chunk_and_store ::
  "hashes \<Rightarrow> chunk_manifest codec \<Rightarrow> bytes \<Rightarrow> 's blob_store \<Rightarrow> hash_alg \<Rightarrow> chunk_config
     \<Rightarrow> ('s, chunked_upload) op" where
  "chunk_and_store H J data bs alg cfg =
     (let tot = of_nat (length data) :: u64 in
      if tot \<le> inline_threshold cfg then
        (let bid = compute_blob_id H data alg in
         seqM (bs_put bs bid data)
           (returnM \<lparr>cu_root_blob = bid, cu_chunk_blobs = [], cu_total_size = tot, cu_chunked = False\<rparr>))
      else
        bindM (pureM (effective_chunker cfg data)) (\<lambda>chunks.
        bindM (pureM (sum_checked 0 (map (\<lambda>c. ucast (cd_length c)) chunks))) (\<lambda>covered.
        if covered \<noteq> tot then pureM Panic
        else
          bindM (mapM (store_chunk H alg bs) chunks) (\<lambda>entries.
          bindM (pureM (case to_vec J (build_manifest alg tot entries) of
                   Ok b \<Rightarrow> Ok b
                 | Err e \<Rightarrow> Err (Io (''serialize chunk manifest: '' @ e))
                 | Panic \<Rightarrow> Panic)) (\<lambda>mb.
          let mbid = compute_blob_id H mb alg in
          seqM (bs_put bs mbid mb)
            (returnM \<lparr>cu_root_blob = mbid, cu_chunk_blobs = map ce_blob_id entries,
               cu_total_size = tot, cu_chunked = True\<rparr>))))))"

definition compute_chunk_blob_ids :: "hashes \<Rightarrow> bytes \<Rightarrow> hash_alg \<Rightarrow> chunk_config \<Rightarrow> blob_id list res" where
  "compute_chunk_blob_ids H data alg cfg =
     (if (of_nat (length data) :: u64) \<le> inline_threshold cfg then Ok [compute_blob_id H data alg]
      else bindR (effective_chunker cfg data)
        (\<lambda>chunks. Ok (map (\<lambda>c. compute_blob_id H (cd_data c) alg) chunks)))"


section \<open>Reassembling\<close>

definition fetch_chunk :: "hashes \<Rightarrow> 's blob_store \<Rightarrow> chunk_entry \<Rightarrow> ('s, bytes) op" where
  "fetch_chunk H bs e =
     bindM (bs_get bs (ce_blob_id e)) (\<lambda>chunk.
       seqM (pureM (verify_integrity H (ce_blob_id e) chunk))
         (if length chunk \<noteq> unat (ce_length e) then pureM (Err Integrity) else returnM chunk))"

text \<open>\<open>Vec::with_capacity\<close> panics above \<open>isize::MAX\<close> bytes.\<close>

definition reassemble :: "hashes \<Rightarrow> chunk_manifest \<Rightarrow> 's blob_store \<Rightarrow> ('s, bytes) op" where
  "reassemble H m bs =
     (if 2 ^ 63 \<le> unat (cm_total_size m) then pureM Panic
      else bindM (mapM (fetch_chunk H bs) (cm_chunks m)) (\<lambda>parts.
        let buf = concat parts in
        if of_nat (length buf) \<noteq> cm_total_size m then pureM (Err Integrity) else returnM buf))"

definition try_parse_manifest :: "chunk_manifest codec \<Rightarrow> bytes \<Rightarrow> chunk_manifest option" where
  "try_parse_manifest J b = try_parse J b"


section \<open>What a call writes\<close>

definition planned_manifest :: "hashes \<Rightarrow> bytes \<Rightarrow> hash_alg \<Rightarrow> chunk_config \<Rightarrow> chunk_manifest option" where
  "planned_manifest H data alg cfg =
     (if (of_nat (length data) :: u64) \<le> inline_threshold cfg then None
      else case effective_chunker cfg data of
          Ok ds \<Rightarrow> Some (build_manifest alg (of_nat (length data)) (map (entry_of H alg) ds))
        | _ \<Rightarrow> None)"

definition planned_blobs :: "hashes \<Rightarrow> chunk_manifest codec \<Rightarrow> bytes \<Rightarrow> hash_alg \<Rightarrow> chunk_config \<Rightarrow> bytes list" where
  "planned_blobs H J data alg cfg =
     (if (of_nat (length data) :: u64) \<le> inline_threshold cfg then [data]
      else case effective_chunker cfg data of
          Ok ds \<Rightarrow>
            map cd_data ds @
            (case to_vec J (build_manifest alg (of_nat (length data)) (map (entry_of H alg) ds)) of
               Ok b \<Rightarrow> [b] | _ \<Rightarrow> [])
        | _ \<Rightarrow> [])"

text \<open>Every blob of a content-addressed store verifies against its identifier, and no two of
  the payloads in play have the same digest.\<close>

definition cas_ok :: "hashes \<Rightarrow> (blob_id \<Rightarrow> bytes option) \<Rightarrow> bool" where
  "cas_ok H m \<longleftrightarrow> (\<forall>bid d. m bid = Some d \<longrightarrow> verify_integrity H bid d = Ok ())"

definition no_collision :: "hashes \<Rightarrow> hash_alg \<Rightarrow> (blob_id \<Rightarrow> bytes option) \<Rightarrow> bytes list \<Rightarrow> bool" where
  "no_collision H alg m bs \<longleftrightarrow> inj_on (\<lambda>b. compute_blob_id H b alg) (ran m \<union> set bs)"

definition add_blobs :: "hashes \<Rightarrow> hash_alg \<Rightarrow> bytes list \<Rightarrow> (blob_id \<Rightarrow> bytes option) \<Rightarrow> blob_id \<Rightarrow> bytes option" where
  "add_blobs H alg bs m = fold (\<lambda>b m. m(compute_blob_id H b alg \<mapsto> b)) bs m"

lemma compute_alg_disjoint: "compute_blob_id H a Blake3 \<noteq> compute_blob_id H b Sha256"
  by simp

lemma verify_same_alg:
  assumes "verify_integrity H (compute_blob_id H b alg) d = Ok ()"
  shows "compute_blob_id H d alg = compute_blob_id H b alg"
  using assms by (simp add: verify_compute_other split: if_splits)

lemma vacant_or_same:
  assumes "cas_ok H m" and "no_collision H alg m bs" and "b \<in> set bs"
  shows "m (compute_blob_id H b alg) = None \<or> m (compute_blob_id H b alg) = Some b"
proof (cases "m (compute_blob_id H b alg)")
  case (Some d)
  then have "compute_blob_id H d alg = compute_blob_id H b alg"
    using assms(1) verify_same_alg unfolding cas_ok_def by blast
  moreover have "d \<in> ran m" using Some by (rule ranI)
  ultimately have "d = b" using assms(2,3) unfolding no_collision_def inj_on_def by blast
  then show ?thesis using Some by simp
qed simp

lemma cas_ok_put: "cas_ok H m \<Longrightarrow> cas_ok H (m(compute_blob_id H b alg \<mapsto> b))"
  by (simp add: cas_ok_def)

lemma no_collision_put:
  assumes "no_collision H alg m bs" and "b \<in> set bs"
  shows "no_collision H alg (m(compute_blob_id H b alg \<mapsto> b)) bs"
proof -
  have "ran (m(compute_blob_id H b alg \<mapsto> b)) \<union> set bs \<subseteq> ran m \<union> set bs"
    using assms(2) by (auto simp: ran_def)
  then show ?thesis using assms(1) unfolding no_collision_def by (rule inj_on_subset [rotated])
qed

lemma add_blobs_simps [simp]:
  "add_blobs H alg [] m = m"
  "add_blobs H alg (b # bs) m = add_blobs H alg bs (m(compute_blob_id H b alg \<mapsto> b))"
  by (simp_all add: add_blobs_def)

lemma add_blobs_append: "add_blobs H alg (xs @ ys) m = add_blobs H alg ys (add_blobs H alg xs m)"
  by (simp add: add_blobs_def)

lemma cas_ok_add: "cas_ok H m \<Longrightarrow> cas_ok H (add_blobs H alg bs m)"
  by (induction bs arbitrary: m) (simp_all add: cas_ok_put)

lemma no_collision_subset: "no_collision H alg m bs \<Longrightarrow> set cs \<subseteq> set bs \<Longrightarrow> no_collision H alg m cs"
  unfolding no_collision_def by (rule inj_on_subset) auto

lemma add_blobs_mono:
  assumes "cas_ok H m" and "no_collision H alg m bs" and "m bid = Some d"
  shows "add_blobs H alg bs m bid = Some d"
  using assms
proof (induction bs arbitrary: m)
  case Nil
  then show ?case by simp
next
  case (Cons b bs)
  have "(m(compute_blob_id H b alg \<mapsto> b)) bid = Some d"
    using Cons.prems vacant_or_same [of H m alg "b # bs" b] by auto
  moreover have "no_collision H alg (m(compute_blob_id H b alg \<mapsto> b)) bs"
    using no_collision_put [OF Cons.prems(2), of b] by (auto intro: no_collision_subset)
  ultimately show ?case
    unfolding add_blobs_simps by (rule Cons.IH [OF cas_ok_put [OF Cons.prems(1)], rotated])
qed

lemma add_blobs_mem:
  assumes "cas_ok H m" and "no_collision H alg m bs" and "b \<in> set bs"
  shows "add_blobs H alg bs m (compute_blob_id H b alg) = Some b"
  using assms
proof (induction bs arbitrary: m)
  case Nil
  then show ?case by simp
next
  case (Cons c bs)
  have nc: "no_collision H alg (m(compute_blob_id H c alg \<mapsto> c)) bs"
    using no_collision_put [OF Cons.prems(2), of c] by (auto intro: no_collision_subset)
  show ?case
  proof (cases "b \<in> set bs")
    case True
    then show ?thesis unfolding add_blobs_simps
      by (rule Cons.IH [OF cas_ok_put [OF Cons.prems(1)] nc])
  next
    case False
    then have "b = c" using Cons.prems(3) by simp
    then show ?thesis
      using add_blobs_mono [OF cas_ok_put [OF Cons.prems(1)] nc, of "compute_blob_id H c alg" c]
      by simp
  qed
qed

lemma no_collision_add:
  assumes "no_collision H alg m (xs @ ys)"
  shows "no_collision H alg (add_blobs H alg xs m) (xs @ ys)"
proof -
  have "no_collision H alg (add_blobs H alg zs m) (xs @ ys)" if "set zs \<subseteq> set (xs @ ys)" for zs
    using that assms by (induction zs arbitrary: m) (simp_all add: no_collision_put)
  then show ?thesis by simp
qed


lemma demo_no_collision: "no_collision demo_hashes alg m bs"
  using demo_hash_inj unfolding no_collision_def by (meson inj_on_subset subset_UNIV)


section \<open>The pipeline on any store that satisfies the contract\<close>

lemma cover_sum:
  assumes "chunks_cover off ds data"
  shows "sum_list (map (\<lambda>d. unat (cd_length d)) ds) = length data"
  using assms by (induction ds arbitrary: off data) auto

lemma unat_u32_u64 [simp]: "unat (ucast (w :: u32) :: u64) = unat w"
  using u32_bound [of w] by (simp add: unsigned_ucast_eq take_bit_nat_eq_self)

lemma sum_of_lengths:
  assumes "sum_list (map (\<lambda>d. unat (cd_length d)) ds) = n" and "n < 2 ^ 63"
  shows "sum_checked (0 :: u64) (map (\<lambda>d. ucast (cd_length d)) ds) = (Ok (of_nat n) :: u64 res)"
proof -
  have "(sum_checked (0 :: u64) (map (\<lambda>d. ucast (cd_length d)) ds) :: u64 res)
    = Ok (sum_list (map (\<lambda>d. ucast (cd_length d)) ds))"
    using assms by (subst sum_checked_Ok) (simp_all add: comp_def)
  moreover have "sum_list (map (\<lambda>d. ucast (cd_length d)) ds) = (of_nat n :: u64)"
    unfolding assms(1) [symmetric] by (induction ds) (simp_all add: unsigned_ucast_eq [symmetric] flip: ucast_id)
  ultimately show ?thesis by simp
qed

lemma check_offsets_cover:
  assumes "chunks_cover off ds data" and "off + length data < 2 ^ 63"
  shows "check_offsets (of_nat off) (map (entry_of H alg) ds) = Ok ()"
  using assms
proof (induction ds arbitrary: off data)
  case Nil
  then show ?case by simp
next
  case (Cons d ds)
  obtain rest where data: "data = cd_data d @ rest"
    and rest: "chunks_cover (off + length (cd_data d)) ds rest"
    and d: "cd_offset d = of_nat off" "unat (cd_length d) = length (cd_data d)"
    using Cons.prems(1) by auto
  have "(ucast (cd_length d) :: u64) = of_nat (length (cd_data d))"
    using d(2) by (metis of_nat_unat)
  moreover have "unat (of_nat off :: u64) = off" "unat (of_nat (length (cd_data d)) :: u64) = length (cd_data d)"
    using Cons.prems(2) data by (simp_all add: unat_of_nat_u64)
  ultimately have "add_checked (of_nat off) (ucast (cd_length d)) = (Ok (of_nat (off + length (cd_data d))) :: u64 res)"
    using Cons.prems(2) data by (subst add_checked_Ok) simp_all
  then show ?case
    using Cons.IH [OF rest] Cons.prems(2) data d(1) by (simp add: entry_of_def)
qed

lemma built_manifest_valid:
  assumes "chunks_cover 0 ds data" and "length data < 2 ^ 63"
  shows "manifest_validate (build_manifest alg (of_nat (length data)) (map (entry_of H alg) ds)) = Ok ()"
  using sum_of_lengths [OF cover_sum [OF assms(1)] assms(2)] check_offsets_cover [OF assms(1)] assms(2)
  by (simp add: manifest_validate_def build_manifest_def comp_def entry_of_def)


context blob_store_laws begin

lemma store_chunks:
  assumes "inv s" and "cas_ok H (blobs s)" and "\<And>b. valid (compute_blob_id H b alg)"
    and "no_collision H alg (blobs s) (map cd_data ds)"
  shows "\<exists>t. mapM (store_chunk H alg bs) ds s = (Ok (map (entry_of H alg) ds), t)
    \<and> inv t \<and> blobs t = add_blobs H alg (map cd_data ds) (blobs s)"
  using assms
proof (induction ds arbitrary: s)
  case Nil
  then show ?case by simp
next
  case (Cons d ds)
  let ?id = "compute_blob_id H (cd_data d) alg"
  have "blobs s ?id = None \<or> blobs s ?id = Some (cd_data d)"
    using vacant_or_same [OF Cons.prems(2,4)] by simp
  then obtain u where u: "bs_put bs ?id (cd_data d) s = (Ok (), u)" "inv u"
    "blobs u = (blobs s)(?id \<mapsto> cd_data d)"
    using put_law [OF Cons.prems(1) Cons.prems(3)] by blast
  have "no_collision H alg (blobs u) (map cd_data ds)"
    using no_collision_subset [OF no_collision_put [OF Cons.prems(4), of "cd_data d"], of "map cd_data ds"]
      u(3) by (simp add: subset_insertI)
  moreover have "cas_ok H (blobs u)" using cas_ok_put [OF Cons.prems(2)] u(3) by simp
  ultimately obtain t where "mapM (store_chunk H alg bs) ds u = (Ok (map (entry_of H alg) ds), t)"
    "inv t" "blobs t = add_blobs H alg (map cd_data ds) (blobs u)"
    using Cons.IH [OF u(2) _ Cons.prems(3)] by blast
  moreover have "store_chunk H alg bs d s = (Ok (entry_of H alg d), u)"
    using u(1) by (simp add: store_chunk_def act_simps)
  ultimately show ?case using u(3) by (simp add: act_simps del: fun_upd_apply)
qed

text \<open>The call is the abstract one: it adds the planned blobs.\<close>

lemma chunk_and_store_refines:
  assumes s: "inv s" "cas_ok H (blobs s)" "\<And>b. valid (compute_blob_id H b alg)"
    and nc: "no_collision H alg (blobs s) (planned_blobs H J data alg cfg)"
    and J: "codec_ok J" and ck: "covering (effective_chunker cfg)" and len: "length data < 2 ^ 63"
  shows "\<exists>r t. chunk_and_store H J data bs alg cfg s = (Ok r, t) \<and> inv t
    \<and> blobs t = add_blobs H alg (planned_blobs H J data alg cfg) (blobs s)
    \<and> cu_total_size r = of_nat (length data)
    \<and> cu_chunked r = (planned_manifest H data alg cfg \<noteq> None)
    \<and> planned_blobs H J data alg cfg \<noteq> []
    \<and> cu_root_blob r = compute_blob_id H (last (planned_blobs H J data alg cfg)) alg
    \<and> cu_chunk_blobs r = map (\<lambda>b. compute_blob_id H b alg) (butlast (planned_blobs H J data alg cfg))"
proof (cases "(of_nat (length data) :: u64) \<le> inline_threshold cfg")
  case True
  then have p: "planned_blobs H J data alg cfg = [data]" by (simp add: planned_blobs_def)
  then have "blobs s (compute_blob_id H data alg) = None \<or> blobs s (compute_blob_id H data alg) = Some data"
    using vacant_or_same [OF s(2) nc] by simp
  then obtain t where "bs_put bs (compute_blob_id H data alg) data s = (Ok (), t)" "inv t"
    "blobs t = (blobs s)(compute_blob_id H data alg \<mapsto> data)"
    using put_law [OF s(1,3)] by blast
  then show ?thesis
    using True p by (simp add: chunk_and_store_def Let_def act_simps planned_manifest_def)
next
  case False
  obtain ds where ds: "effective_chunker cfg data = Ok ds" "chunks_cover 0 ds data"
    using ck len by (auto simp: covering_def)
  obtain mb where mb: "to_vec J (build_manifest alg (of_nat (length data)) (map (entry_of H alg) ds)) = Ok mb"
    by (rule codec_okE [OF J])
  have p: "planned_blobs H J data alg cfg = map cd_data ds @ [mb]"
    using False ds mb by (simp add: planned_blobs_def)
  obtain u where u: "mapM (store_chunk H alg bs) ds s = (Ok (map (entry_of H alg) ds), u)" "inv u"
    "blobs u = add_blobs H alg (map cd_data ds) (blobs s)"
    using store_chunks [OF s no_collision_subset [OF nc]] p by auto
  have "blobs u (compute_blob_id H mb alg) = None \<or> blobs u (compute_blob_id H mb alg) = Some mb"
    using vacant_or_same [of H "blobs u" alg "map cd_data ds @ [mb]" mb] cas_ok_add [OF s(2)]
      no_collision_add [of H alg "blobs s" "map cd_data ds" "[mb]"] nc u(3) p by simp
  then obtain t where t: "bs_put bs (compute_blob_id H mb alg) mb u = (Ok (), t)" "inv t"
    "blobs t = (blobs u)(compute_blob_id H mb alg \<mapsto> mb)"
    using put_law [OF u(2) s(3)] by blast
  have "(sum_checked 0 (map (\<lambda>d. ucast (cd_length d)) ds) :: u64 res) = Ok (of_nat (length data))"
    using sum_of_lengths [OF cover_sum [OF ds(2)] len] by simp
  then show ?thesis
    using False ds u t mb p
    by (simp add: chunk_and_store_def Let_def act_simps planned_manifest_def add_blobs_append
        entry_of_def comp_def)
qed

lemma fetch_stored:
  assumes "inv s" and "valid (compute_blob_id H (cd_data d) alg)"
    and "blobs s (compute_blob_id H (cd_data d) alg) = Some (cd_data d)"
    and "unat (cd_length d) = length (cd_data d)"
  shows "fetch_chunk H bs (entry_of H alg d) s = (Ok (cd_data d), s)"
  using get_law [OF assms(1,2)] assms(3,4) by (simp add: fetch_chunk_def entry_of_def act_simps)

lemma fetch_all:
  assumes "inv s" and "\<And>b. valid (compute_blob_id H b alg)"
    and "\<And>d. d \<in> set ds \<Longrightarrow> blobs s (compute_blob_id H (cd_data d) alg) = Some (cd_data d)"
    and "\<And>d. d \<in> set ds \<Longrightarrow> unat (cd_length d) = length (cd_data d)"
  shows "mapM (fetch_chunk H bs) (map (entry_of H alg) ds) s = (Ok (map cd_data ds), s)"
  using assms(3,4) by (induction ds) (simp_all add: act_simps fetch_stored [OF assms(1,2)])

lemma reassemble_stored:
  assumes "inv s" and "\<And>b. valid (compute_blob_id H b alg)"
    and "\<And>d. d \<in> set ds \<Longrightarrow> blobs s (compute_blob_id H (cd_data d) alg) = Some (cd_data d)"
    and "chunks_cover 0 ds data" and "length data < 2 ^ 63"
  shows "reassemble H (build_manifest alg (of_nat (length data)) (map (entry_of H alg) ds)) bs s = (Ok data, s)"
proof -
  have "unat (cd_length d) = length (cd_data d)" if "d \<in> set ds" for d
  proof -
    have "chunks_cover off ds x \<Longrightarrow> unat (cd_length d) = length (cd_data d)" for off x
      using that by (induction ds arbitrary: off x) auto
    then show ?thesis using assms(4) by blast
  qed
  then have "mapM (fetch_chunk H bs) (map (entry_of H alg) ds) s = (Ok (map cd_data ds), s)"
    using fetch_all assms(1-3) by blast
  then show ?thesis
    using chunks_cover_concat [OF assms(4)] assms(5)
    by (simp add: reassemble_def build_manifest_def act_simps Let_def unat_of_nat_u64)
qed

text \<open>Storing and reading back, on any store that satisfies the contract.\<close>

lemma chunk_round_trip:
  assumes s: "inv s" "cas_ok H (blobs s)" "\<And>b. valid (compute_blob_id H b alg)"
    and nc: "no_collision H alg (blobs s) (planned_blobs H J data alg cfg)"
    and J: "codec_ok J" and ck: "covering (effective_chunker cfg)" and len: "length data < 2 ^ 63"
  shows "\<exists>r t root. chunk_and_store H J data bs alg cfg s = (Ok r, t) \<and> inv t \<and> cas_ok H (blobs t)
    \<and> bs_get bs (cu_root_blob r) t = (Ok root, t)
    \<and> (if cu_chunked r
       then \<exists>m. try_parse_manifest J root = Some m \<and> manifest_validate m = Ok ()
         \<and> map ce_blob_id (cm_chunks m) = cu_chunk_blobs r \<and> reassemble H m bs t = (Ok data, t)
       else root = data)"
proof -
  let ?P = "planned_blobs H J data alg cfg"
  obtain r t where run: "chunk_and_store H J data bs alg cfg s = (Ok r, t)" and t: "inv t"
    and bl: "blobs t = add_blobs H alg ?P (blobs s)"
    and chunked: "cu_chunked r = (planned_manifest H data alg cfg \<noteq> None)" and ne: "?P \<noteq> []"
    and root: "cu_root_blob r = compute_blob_id H (last ?P) alg"
    and cids: "cu_chunk_blobs r = map (\<lambda>b. compute_blob_id H b alg) (butlast ?P)"
    using chunk_and_store_refines [OF assms] by blast
  have stored: "blobs t (compute_blob_id H b alg) = Some b" if "b \<in> set ?P" for b
    using add_blobs_mem [OF s(2) nc that] bl by simp
  have get: "bs_get bs (cu_root_blob r) t = (Ok (last ?P), t)"
    using get_law [OF t s(3)] stored [of "last ?P"] ne root by simp
  have "cas_ok H (blobs t)" using cas_ok_add [OF s(2)] bl by simp
  moreover have "if cu_chunked r
       then \<exists>m. try_parse_manifest J (last ?P) = Some m \<and> manifest_validate m = Ok ()
         \<and> map ce_blob_id (cm_chunks m) = cu_chunk_blobs r \<and> reassemble H m bs t = (Ok data, t)
       else last ?P = data"
  proof (cases "(of_nat (length data) :: u64) \<le> inline_threshold cfg")
    case True
    then show ?thesis using chunked by (simp add: planned_manifest_def planned_blobs_def)
  next
    case False
    obtain ds where ds: "effective_chunker cfg data = Ok ds" "chunks_cover 0 ds data"
      using ck len by (auto simp: covering_def)
    let ?m = "build_manifest alg (of_nat (length data)) (map (entry_of H alg) ds)"
    obtain mb where mb: "to_vec J ?m = Ok mb" by (rule codec_okE [OF J])
    have p: "?P = map cd_data ds @ [mb]" using False ds mb by (simp add: planned_blobs_def)
    have "reassemble H ?m bs t = (Ok data, t)"
      using reassemble_stored [OF t s(3) _ ds(2) len] stored p by auto
    moreover have "try_parse_manifest J (last ?P) = Some ?m"
      using codec_ok_parse [OF J mb] p by (simp add: try_parse_manifest_def)
    moreover have "map ce_blob_id (cm_chunks ?m) = cu_chunk_blobs r"
      using cids p by (simp add: build_manifest_def entry_of_def comp_def)
    ultimately show ?thesis
      using chunked False ds built_manifest_valid [OF ds(2) len] by (auto simp: planned_manifest_def)
  qed
  ultimately show ?thesis using run t get by blast
qed

end


section \<open>Properties\<close>

text \<open>A codec for manifests on which the round trip can be evaluated.\<close>

definition entry_enc :: "chunk_entry enc" where
  "entry_enc = map_enc (\<lambda>e. (ce_blob_id e, ce_offset e, ce_length e))
     (pair_enc text_enc (pair_enc word_enc word_enc))"

definition entry_dec :: "chunk_entry dec" where
  "entry_dec = map_dec (\<lambda>(b, off, l). \<lparr>ce_blob_id = b, ce_offset = off, ce_length = l\<rparr>)
     (pair_dec text_dec (pair_dec word_dec word_dec))"

definition demo_manifest_codec :: "chunk_manifest codec" where
  "demo_manifest_codec = codec_of
     (map_enc (\<lambda>m. (cm_version m, cm_total_size m, cm_chunk_count m, cm_hash_alg m, cm_chunks m))
       (pair_enc word_enc (pair_enc word_enc (pair_enc word_enc (pair_enc text_enc (list_enc entry_enc))))))
     (map_dec (\<lambda>(v, t, c, a, es). \<lparr>cm_version = v, cm_total_size = t, cm_chunk_count = c,
         cm_hash_alg = a, cm_chunks = es\<rparr>)
       (pair_dec word_dec (pair_dec word_dec (pair_dec word_dec (pair_dec text_dec (list_dec entry_dec))))))"

lemma demo_manifest_codec_ok: "codec_ok demo_manifest_codec"
proof -
  have "rev_code entry_enc entry_dec"
    unfolding entry_enc_def entry_dec_def
    by (rule map_code [OF pair_code [OF text_code pair_code [OF word_code word_code]]]) auto
  then show ?thesis
    unfolding demo_manifest_codec_def
    by (intro codec_of_ok map_code pair_code word_code text_code list_code) auto
qed

text \<open>C25: Storing a payload and reading it back, on the file-system store and for every chunker that
  tiles its input: the upload succeeds, keeps the layout of the store and the integrity of every
  blob, and the root blob is either the payload itself or a manifest that validates, lists exactly
  the reported chunk blobs and reassembles to the payload.\<close>

theorem fs_chunk_round_trip:
  assumes "fs_store_inv root s" and "cas_ok H (fs_blobs root s)" and "hash_ok H"
    and "no_collision H alg (fs_blobs root s) (planned_blobs H J data alg cfg)"
    and "codec_ok J" and "covering (effective_chunker cfg)" and "length data < 2 ^ 63"
  shows "\<exists>r t rb. chunk_and_store H J data (fs_blob_store root) alg cfg s = (Ok r, t)
    \<and> fs_store_inv root t \<and> cas_ok H (fs_blobs root t)
    \<and> fs_blob_get root (cu_root_blob r) t = (Ok rb, t)
    \<and> (if cu_chunked r
       then \<exists>m. try_parse_manifest J rb = Some m \<and> manifest_validate m = Ok ()
         \<and> map ce_blob_id (cm_chunks m) = cu_chunk_blobs r
         \<and> reassemble H m (fs_blob_store root) t = (Ok data, t)
       else rb = data)"
  using fs_cas.chunk_round_trip [of root s H alg J data cfg] assms hash_ok_good [OF assms(3)]
  by (simp add: fs_blob_store_def)

theorem fs_chunk_round_trip_witness:
  "\<exists>r t. chunk_and_store demo_hashes demo_manifest_codec [1, 2, 3] (fs_blob_store [''blobs'']) Blake3
       (with_chunker (fixed_chunk \<lparr>chunk_size = 2\<rparr>) (with_inline_threshold 1 config_default)) demo_fs = (Ok r, t)
     \<and> cu_chunked r \<and> length (cu_chunk_blobs r) = 2
     \<and> (\<exists>m. reassemble demo_hashes m (fs_blob_store [''blobs'']) t = (Ok [1, 2, 3], t))"
proof -
  let ?cfg = "with_chunker (fixed_chunk \<lparr>chunk_size = 2\<rparr>) (with_inline_threshold 1 config_default)"
  have ck: "effective_chunker ?cfg = fixed_chunk \<lparr>chunk_size = 2\<rparr>"
    by (simp add: effective_chunker_def with_chunker_def with_inline_threshold_def config_default_def)
  then have cov: "covering (effective_chunker ?cfg)"
    using fixed_chunks.chunk_covering [of "\<lparr>chunk_size = 2\<rparr>"] by simp
  have cas: "cas_ok demo_hashes (fs_blobs [''blobs''] demo_fs)" by (simp add: cas_ok_def demo_vacant)
  obtain r t rb where run: "chunk_and_store demo_hashes demo_manifest_codec [1, 2, 3] (fs_blob_store [''blobs'']) Blake3 ?cfg demo_fs = (Ok r, t)"
    and st: "if cu_chunked r then \<exists>m. try_parse_manifest demo_manifest_codec rb = Some m \<and> manifest_validate m = Ok ()
         \<and> map ce_blob_id (cm_chunks m) = cu_chunk_blobs r
         \<and> reassemble demo_hashes m (fs_blob_store [''blobs'']) t = (Ok [1, 2, 3], t) else rb = [1, 2, 3]"
    using fs_chunk_round_trip [OF demo_fs_inv cas demo_hash_ok demo_no_collision [of Blake3] demo_manifest_codec_ok cov, of "[1, 2, 3]"]
    by auto
  have "fixed_chunk \<lparr>chunk_size = 2\<rparr> [1, 2, 3] = Ok [\<lparr>cd_offset = 0, cd_length = 2, cd_data = [1, 2]\<rparr>,
      \<lparr>cd_offset = 2, cd_length = 1, cd_data = [3]\<rparr>]"
    by (simp add: fixed_chunk_def fixed_go.simps Let_def)
  moreover have "\<not> (3 :: u64) \<le> inline_threshold ?cfg"
    by (simp add: with_inline_threshold_def with_chunker_def word_le_nat_alt)
  ultimately have "cu_chunked r \<and> length (cu_chunk_blobs r) = 2"
    using run unfolding chunk_and_store_def ck
    by (auto simp: act_Ok_iffs Let_def add_checked_def store_chunk_def)
  then show ?thesis using run st by auto
qed

lemma fetch_one_authentic:
  assumes "fetch_chunk H bs (entry_of H alg d) s = (Ok b, t)"
    and "\<And>x. compute_blob_id H x alg = compute_blob_id H (cd_data d) alg \<Longrightarrow> x = cd_data d"
  shows "b = cd_data d"
  using assms verify_same_alg
  by (auto simp: fetch_chunk_def entry_of_def act_Ok_iffs split: if_splits)

lemma fetch_all_authentic:
  assumes "mapM (fetch_chunk H bs) (map (entry_of H alg) ds) s = (Ok parts, t)"
    and "\<And>d x. d \<in> set ds \<Longrightarrow> compute_blob_id H x alg = compute_blob_id H (cd_data d) alg \<Longrightarrow> x = cd_data d"
  shows "parts = map cd_data ds"
  using assms
proof (induction ds arbitrary: s parts)
  case Nil
  then show ?case by simp
next
  case (Cons d ds)
  from Cons.prems(1) obtain b u rest where one: "fetch_chunk H bs (entry_of H alg d) s = (Ok b, u)"
    and more: "mapM (fetch_chunk H bs) (map (entry_of H alg) ds) u = (Ok rest, t)" and parts: "parts = b # rest"
    by (auto simp: act_Ok_iffs)
  have "b = cd_data d" by (rule fetch_one_authentic [OF one]) (simp add: Cons.prems(2))
  moreover have "rest = map cd_data ds" by (rule Cons.IH [OF more]) (simp add: Cons.prems(2))
  ultimately show ?case using parts by simp
qed

text \<open>Reassembly is authentic against any store. Whatever the store answers (it need not satisfy
  any contract), if reassembling the manifest of a payload returns bytes, these are the payload,
  as long as no other bytes have the digest of one of its chunks.\<close>

theorem reassemble_authentic:
  assumes "chunks_cover 0 ds data"
    and "reassemble H (build_manifest alg (of_nat (length data)) (map (entry_of H alg) ds)) bs s = (Ok b, t)"
    and "\<And>d x. d \<in> set ds \<Longrightarrow> compute_blob_id H x alg = compute_blob_id H (cd_data d) alg \<Longrightarrow> x = cd_data d"
  shows "b = data"
proof -
  obtain parts where "mapM (fetch_chunk H bs) (map (entry_of H alg) ds) s = (Ok parts, t)" "b = concat parts"
    using assms(2) by (auto simp: reassemble_def build_manifest_def act_Ok_iffs Let_def split: if_splits)
  then have "parts = map cd_data ds" using fetch_all_authentic [of H bs alg ds s parts t] assms(3) by simp
  then show ?thesis using \<open>b = concat parts\<close> chunks_cover_concat [OF assms(1)] by simp
qed

theorem reassemble_authentic_witness:
  "\<exists>b. reassemble demo_hashes (build_manifest Blake3 (of_nat (length [7, 8 :: byte]))
       (map (entry_of demo_hashes Blake3) [\<lparr>cd_offset = 0, cd_length = 2, cd_data = [7, 8]\<rparr>])) mem_blob_store
       [(compute_blob_id demo_hashes [7, 8] Blake3, [7, 8])] = (Ok b, [(compute_blob_id demo_hashes [7, 8] Blake3, [7, 8])])
     \<and> b = [7, 8]"
proof -
  let ?s = "[(compute_blob_id demo_hashes [7, 8] Blake3, [7, 8])] :: mem_blobs"
  let ?d = "\<lparr>cd_offset = 0, cd_length = 2, cd_data = [7, 8]\<rparr> :: chunk_descriptor"
  have run: "reassemble demo_hashes (build_manifest Blake3 (of_nat (length [7, 8 :: byte]))
      (map (entry_of demo_hashes Blake3) [?d])) mem_blob_store ?s = (Ok [7, 8], ?s)"
    using mem_cas.reassemble_stored [where ds = "[?d]" and s = ?s and alg = Blake3 and H = demo_hashes and data = "[7, 8]"]
    by (simp add: hget_Cons)
  have "[7, 8] = [7, 8 :: byte]"
    by (rule reassemble_authentic [OF _ run]) (auto dest: injD [OF demo_hash_inj [of Blake3], simplified])
  then show ?thesis using run by blast
qed

end
