(* ===== verification/Sodl_Crypto.thy ===== *)
theory Sodl_Crypto
  imports Sodl_Core
begin

text \<open>
  Encryption of payloads, \<open>crates/sodl-crypto\<close>: the \<open>Crypto\<close> trait as a record of calls,
  its three implementations, the hexadecimal helpers and the in-memory key manager. The
  primitives (HKDF-SHA256, BLAKE3, XChaCha20-Poly1305) are third-party code: \<open>crypto_prims\<close>
  carries them as functions, \<open>prims_ok\<close> is the documented behaviour of theirs that the code
  relies on. The locale \<open>crypto_laws\<close> is what clients rely on: what was encrypted for an
  origin decrypts for that origin.
\<close>

section \<open>The Crypto trait\<close>

record crypto =
  cr_encrypt :: "origin_id \<Rightarrow> bytes \<Rightarrow> bytes res"
  cr_decrypt :: "origin_id \<Rightarrow> bytes \<Rightarrow> bytes res"

definition crypto_ok :: "crypto \<Rightarrow> bool" where
  "crypto_ok c \<longleftrightarrow> (\<forall>org p ct. cr_encrypt c org p = Ok ct \<longrightarrow> cr_decrypt c org ct = Ok p)"

locale crypto_laws =
  fixes provider :: "'c \<Rightarrow> crypto"
    and good :: "'c \<Rightarrow> bool"
  assumes decrypt_law: "good c \<Longrightarrow> cr_encrypt (provider c) org p = Ok ct \<Longrightarrow>
    cr_decrypt (provider c) org ct = Ok p"
begin

lemma provider_ok: "good c \<Longrightarrow> crypto_ok (provider c)"
  using decrypt_law by (simp add: crypto_ok_def)

lemma encrypt_inj:
  "good c \<Longrightarrow> cr_encrypt (provider c) org p = Ok ct \<Longrightarrow> cr_encrypt (provider c) org q = Ok ct \<Longrightarrow> p = q"
  using decrypt_law [of c org p ct] decrypt_law [of c org q ct] by simp

end

definition null_crypto :: crypto where
  "null_crypto = \<lparr>cr_encrypt = (\<lambda>_ plaintext. Ok plaintext), cr_decrypt = (\<lambda>_ ciphertext. Ok ciphertext)\<rparr>"

text \<open>The sixteen bytes of a UUID, most significant first, and its hyphenated form.\<close>

definition uuid_bytes :: "uuid \<Rightarrow> bytes" where
  "uuid_bytes u = map (\<lambda>i. ucast (drop_bit (8 * (15 - i)) u)) [0..<16]"

definition xor_mask :: "u8 \<Rightarrow> origin_id \<Rightarrow> u8" where
  "xor_mask key org = fold (\<lambda>x b. b XOR x) (uuid_bytes org) key"

definition xor_encrypt :: "u8 \<Rightarrow> origin_id \<Rightarrow> bytes \<Rightarrow> bytes res" where
  "xor_encrypt key org plaintext = Ok (map (\<lambda>v. v XOR xor_mask key org) plaintext)"

definition xor_crypto :: "u8 \<Rightarrow> crypto" where
  "xor_crypto key = \<lparr>cr_encrypt = xor_encrypt key, cr_decrypt = xor_encrypt key\<rparr>"

interpretation null_provider: crypto_laws "\<lambda>_. null_crypto" "\<lambda>_. True"
  by unfold_locales (simp add: null_crypto_def)

interpretation xor_provider: crypto_laws xor_crypto "\<lambda>_. True"
  by unfold_locales (auto simp: xor_crypto_def xor_encrypt_def comp_def xor.assoc)


section \<open>Hexadecimal\<close>

definition hex_char :: "nat \<Rightarrow> char" where
  "hex_char n = ''0123456789abcdef'' ! n"

definition hex2 :: "u8 \<Rightarrow> string" where
  "hex2 b = [hex_char (unat b div 16), hex_char (unat b mod 16)]"

definition bytes_to_hex :: "bytes \<Rightarrow> string" where
  "bytes_to_hex b = concat (map hex2 b)"

definition uuid_show :: "uuid \<Rightarrow> string" where
  "uuid_show u = (let h = bytes_to_hex (uuid_bytes u) in
     take 8 h @ ''-'' @ take 4 (drop 8 h) @ ''-'' @ take 4 (drop 12 h) @ ''-''
       @ take 4 (drop 16 h) @ ''-'' @ drop 20 h)"

definition hex_value :: "char \<Rightarrow> nat option" where
  "hex_value c = (let n = of_char c in
     if 48 \<le> n \<and> n \<le> 57 then Some (n - 48)
     else if 97 \<le> n \<and> n \<le> 102 then Some (n - 87)
     else if 65 \<le> n \<and> n \<le> 70 then Some (n - 55) else None)"

text \<open>\<open>u8::from_str_radix\<close> on two bytes: a leading plus sign is accepted.\<close>

definition u8_from_hex :: "char \<Rightarrow> char \<Rightarrow> u8 res" where
  "u8_from_hex a b =
     (let bad = Err (Invalid (''invalid hex: invalid digit found in string'')) in
      if a = CHR ''+'' then (case hex_value b of Some y \<Rightarrow> Ok (of_nat y) | None \<Rightarrow> bad)
      else case (hex_value a, hex_value b) of
          (Some x, Some y) \<Rightarrow> Ok (of_nat (16 * x + y))
        | _ \<Rightarrow> bad)"

text \<open>The slice \<open>hex[i..i + 2]\<close> panics inside a multi-byte character.\<close>

definition hex_to_bytes :: "string \<Rightarrow> bytes res" where
  "hex_to_bytes hex =
     (if length hex mod 2 \<noteq> 0 then Err (Invalid ''hex string length must be even'')
      else mapR (\<lambda>k. let i = 2 * k in
          if char_boundary hex i \<and> char_boundary hex (i + 2)
          then u8_from_hex (hex ! i) (hex ! (i + 1)) else Panic)
        [0..<length hex div 2])"


section \<open>AeadCrypto\<close>

record crypto_prims =
  hkdf_expand :: "bytes \<Rightarrow> string \<Rightarrow> bytes"
  blake3_raw :: "bytes \<Rightarrow> bytes"
  aead_seal :: "bytes \<Rightarrow> bytes \<Rightarrow> bytes \<Rightarrow> (string, bytes) outcome"
  aead_open :: "bytes \<Rightarrow> bytes \<Rightarrow> bytes \<Rightarrow> (string, bytes) outcome"

definition ENVELOPE_VERSION :: u8 where "ENVELOPE_VERSION = 0x01"

definition NONCE_LEN :: nat where "NONCE_LEN = 24"

definition MIN_CIPHERTEXT_LEN :: nat where "MIN_CIPHERTEXT_LEN = 1 + NONCE_LEN + 16"

type_synonym aead_crypto = "crypto_prims \<times> bytes"

definition aead_from_hex :: "crypto_prims \<Rightarrow> string \<Rightarrow> aead_crypto res" where
  "aead_from_hex P hex = bindR (hex_to_bytes hex) (\<lambda>b.
     if length b \<noteq> 32 then Err (Invalid (''master key must be 32 bytes, got '' @ dec_nat (length b)))
     else Ok (P, b))"

definition master_key_hex :: "aead_crypto \<Rightarrow> string" where
  "master_key_hex c = bytes_to_hex (snd c)"

definition derive_origin_key :: "crypto_prims \<Rightarrow> bytes \<Rightarrow> origin_id \<Rightarrow> bytes" where
  "derive_origin_key P master org = hkdf_expand P master (''sodl-origin-v1:'' @ uuid_show org)"

definition deterministic_nonce :: "crypto_prims \<Rightarrow> bytes \<Rightarrow> bytes \<Rightarrow> bytes" where
  "deterministic_nonce P key plaintext = take NONCE_LEN (blake3_raw P (key @ plaintext))"

definition aead_encrypt :: "aead_crypto \<Rightarrow> origin_id \<Rightarrow> bytes \<Rightarrow> bytes res" where
  "aead_encrypt c org plaintext =
     (let P = fst c;
          key = derive_origin_key P (snd c) org;
          nonce = deterministic_nonce P key plaintext
      in case aead_seal P key nonce plaintext of
           Ok ct \<Rightarrow> Ok ([ENVELOPE_VERSION] @ nonce @ ct)
         | Err e \<Rightarrow> Err (Crypto (''AEAD encrypt failed: '' @ e))
         | Panic \<Rightarrow> Panic)"

definition aead_decrypt :: "aead_crypto \<Rightarrow> origin_id \<Rightarrow> bytes \<Rightarrow> bytes res" where
  "aead_decrypt c org ciphertext =
     (if length ciphertext < MIN_CIPHERTEXT_LEN
      then Err (Crypto (''ciphertext too short: '' @ dec_nat (length ciphertext)
                 @ '' bytes (min '' @ dec_nat MIN_CIPHERTEXT_LEN @ '')''))
      else if ciphertext ! 0 \<noteq> ENVELOPE_VERSION
      then Err (Crypto (''unsupported ciphertext version: 0x'' @ hex2 (ciphertext ! 0)
                 @ '' (expected 0x'' @ hex2 ENVELOPE_VERSION @ '')''))
      else
        let P = fst c;
            nonce = take NONCE_LEN (drop 1 ciphertext);
            ct = drop (1 + NONCE_LEN) ciphertext;
            key = derive_origin_key P (snd c) org
        in case aead_open P key nonce ct of
             Ok p \<Rightarrow> Ok p
           | Err e \<Rightarrow> Err (Crypto (''AEAD decrypt failed (wrong key or tampered): '' @ e))
           | Panic \<Rightarrow> Panic)"

definition aead_provider :: "aead_crypto \<Rightarrow> crypto" where
  "aead_provider c = \<lparr>cr_encrypt = aead_encrypt c, cr_decrypt = aead_decrypt c\<rparr>"

text \<open>A BLAKE3 digest has 32 bytes; opening what was sealed gives it back, and the sealed
  text is the plaintext's length plus a tag of 16 bytes.\<close>

definition prims_ok :: "crypto_prims \<Rightarrow> bool" where
  "prims_ok P \<longleftrightarrow> (\<forall>b. length (blake3_raw P b) = 32) \<and> (\<forall>m i. length (hkdf_expand P m i) = 32)
     \<and> (\<forall>k n p ct. aead_seal P k n p = Ok ct \<longrightarrow> aead_open P k n ct = Ok p \<and> length ct = length p + 16)"

lemma aead_encrypt_Ok_iff:
  "aead_encrypt (P, m) org p = Ok e \<longleftrightarrow>
    (\<exists>ct. aead_seal P (derive_origin_key P m org) (deterministic_nonce P (derive_origin_key P m org) p) p = Ok ct
      \<and> e = ENVELOPE_VERSION # deterministic_nonce P (derive_origin_key P m org) p @ ct)"
  by (auto simp: aead_encrypt_def Let_def split: outcome.splits)

lemma aead_round:
  assumes "prims_ok P" and "aead_encrypt (P, m) org p = Ok e"
  shows "length e = length p + 41 \<and> hd e = ENVELOPE_VERSION \<and> aead_decrypt (P, m) org e = Ok p"
proof -
  let ?k = "derive_origin_key P m org"
  let ?n = "deterministic_nonce P ?k p"
  obtain ct where ct: "aead_seal P ?k ?n p = Ok ct" "e = ENVELOPE_VERSION # ?n @ ct"
    using assms(2) by (auto simp: aead_encrypt_Ok_iff)
  then have "aead_open P ?k ?n ct = Ok p" "length ct = length p + 16"
    using assms(1) by (auto simp: prims_ok_def)
  moreover have "length ?n = 24"
    using assms(1) by (simp add: prims_ok_def deterministic_nonce_def NONCE_LEN_def)
  ultimately show ?thesis
    using ct by (simp add: aead_decrypt_def MIN_CIPHERTEXT_LEN_def NONCE_LEN_def Let_def)
qed

interpretation aead_laws: crypto_laws aead_provider "\<lambda>c. prims_ok (fst c)"
  by unfold_locales (auto simp: aead_provider_def dest: aead_round)

text \<open>Primitives for evaluation: the tag is sixteen copies of the sum of key and nonce.\<close>

definition demo_prims :: crypto_prims where
  "demo_prims =
     (let tag = (\<lambda>k n. replicate 16 (sum_list k + sum_list n)) in
      \<lparr>hkdf_expand = (\<lambda>m i. replicate 32 (sum_list m + of_nat (length i))),
       blake3_raw = (\<lambda>b. replicate 32 (sum_list b)),
       aead_seal = (\<lambda>k n p. Ok (map (\<lambda>x. x XOR hd k) p @ tag k n)),
       aead_open = (\<lambda>k n c. let p = map (\<lambda>x. x XOR hd k) (take (length c - 16) c) in
          if drop (length c - 16) c = tag k n then Ok p else Err ''aead::Error'')\<rparr>)"

lemma demo_prims_ok: "prims_ok demo_prims"
  by (auto simp: prims_ok_def demo_prims_def Let_def comp_def xor.assoc)

text \<open>The encryption envelope round-trips: whatever the authenticated cipher seals for an origin
  is framed as version, nonce and ciphertext with exactly 41 bytes of overhead, and decrypting it
  for the same origin gives the plaintext.\<close>

theorem aead_envelope_round_trip:
  assumes "prims_ok P" and "aead_encrypt (P, m) org p = Ok e"
  shows "length e = length p + 41 \<and> hd e = ENVELOPE_VERSION \<and> aead_decrypt (P, m) org e = Ok p"
  by (rule aead_round [OF assms])

theorem aead_envelope_round_trip_witness:
  "\<exists>e. aead_encrypt (demo_prims, [9]) 5 [1, 2, 3] = Ok e \<and> length e = 44
    \<and> aead_decrypt (demo_prims, [9]) 5 e = Ok [1, 2, 3]"
proof -
  obtain e where "aead_encrypt (demo_prims, [9]) 5 [1, 2, 3] = Ok e"
    by (simp add: aead_encrypt_def demo_prims_def Let_def)
  from aead_envelope_round_trip [OF demo_prims_ok this] this show ?thesis by auto
qed

text \<open>C27: What decryption accepts: exactly the envelopes of at least 41 bytes whose first byte is
  the version and whose remainder the cipher opens under the key of the origin with the nonce
  found in bytes 1 to 24; every other input is a \<open>Crypto\<close> error, never a panic.\<close>

theorem aead_decrypt_accepts_iff:
  assumes "\<And>k n c. aead_open P k n c \<noteq> Panic"
  shows "(aead_decrypt (P, m) org e = Ok p \<longleftrightarrow>
      (\<exists>nonce ct. e = ENVELOPE_VERSION # nonce @ ct \<and> length nonce = 24 \<and> 16 \<le> length ct
        \<and> aead_open P (derive_origin_key P m org) nonce ct = Ok p))
    \<and> ((\<exists>q. aead_decrypt (P, m) org e = Ok q) \<or> (\<exists>msg. aead_decrypt (P, m) org e = Err (Crypto msg)))"
proof
  show "aead_decrypt (P, m) org e = Ok p \<longleftrightarrow>
      (\<exists>nonce ct. e = ENVELOPE_VERSION # nonce @ ct \<and> length nonce = 24 \<and> 16 \<le> length ct
        \<and> aead_open P (derive_origin_key P m org) nonce ct = Ok p)" (is "?L \<longleftrightarrow> ?R")
  proof
    assume l: ?L
    then have len: "41 \<le> length e" and v: "e ! 0 = ENVELOPE_VERSION"
      and op: "aead_open P (derive_origin_key P m org) (take 24 (drop 1 e)) (drop 25 e) = Ok p"
      by (auto simp: aead_decrypt_def MIN_CIPHERTEXT_LEN_def NONCE_LEN_def Let_def
          split: if_splits outcome.splits)
    obtain x r where e: "e = x # r" using len by (cases e) auto
    then have "e = ENVELOPE_VERSION # take 24 (drop 1 e) @ drop 25 e" using v by simp
    then show ?R using op len by (intro exI [of _ "take 24 (drop 1 e)"] exI [of _ "drop 25 e"]) simp
  next
    assume ?R
    then show ?L by (auto simp: aead_decrypt_def MIN_CIPHERTEXT_LEN_def NONCE_LEN_def Let_def)
  qed
  show "(\<exists>q. aead_decrypt (P, m) org e = Ok q) \<or> (\<exists>msg. aead_decrypt (P, m) org e = Err (Crypto msg))"
    using assms by (auto simp: aead_decrypt_def Let_def split: outcome.splits)
qed

theorem aead_decrypt_accepts_iff_witness:
  "(\<exists>msg. aead_decrypt (demo_prims, [9]) 5 [1, 2, 3] = Err (Crypto msg))"
proof -
  have np: "aead_open demo_prims k n c \<noteq> Panic" for k n c
    by (simp add: demo_prims_def Let_def)
  have "aead_decrypt (demo_prims, [9]) 5 [1, 2, 3] \<noteq> Ok q" for q
    using aead_decrypt_accepts_iff [OF np, of "[9]" 5 "[1, 2, 3]" q]
    by (auto dest!: arg_cong [where f = length])
  then show ?thesis using aead_decrypt_accepts_iff [OF np, of "[9]" 5 "[1, 2, 3]"] by blast
qed



section \<open>Hexadecimal round trips\<close>

lemma hex_char_props:
  assumes "d < 16"
  shows "hex_value (hex_char d) = Some d \<and> hex_char d \<noteq> CHR ''+'' \<and> (of_char (hex_char d) :: nat) < 128"
proof -
  have "\<forall>d \<in> set [0..<16]. hex_value (hex_char d) = Some d \<and> hex_char d \<noteq> CHR ''+''
    \<and> (of_char (hex_char d) :: nat) < 128"
    by code_simp
  then show ?thesis using assms by simp
qed

lemma byte_bounds: "unat (b :: u8) div 16 < 16" "unat b mod 16 < 16"
  using unsigned_less [of b, where 'a = nat] by auto

lemma u8_hex2: "u8_from_hex (hex_char (unat b div 16)) (hex_char (unat b mod 16)) = Ok b"
  using hex_char_props [OF byte_bounds(1), of b] hex_char_props [OF byte_bounds(2), of b]
  by (simp add: u8_from_hex_def Let_def)

lemma length_bytes_to_hex [simp]: "length (bytes_to_hex b) = 2 * length b"
  by (induction b) (simp_all add: bytes_to_hex_def hex2_def)

lemma nth_bytes_to_hex:
  "k < length b \<Longrightarrow> bytes_to_hex b ! (2 * k) = hex_char (unat (b ! k) div 16)
    \<and> bytes_to_hex b ! (2 * k + 1) = hex_char (unat (b ! k) mod 16)"
proof (induction b arbitrary: k)
  case Nil
  then show ?case by simp
next
  case (Cons x b)
  have "bytes_to_hex (x # b) = hex_char (unat x div 16) # hex_char (unat x mod 16) # bytes_to_hex b"
    by (simp add: bytes_to_hex_def hex2_def)
  then show ?case using Cons by (cases k) auto
qed

lemma ascii_boundary:
  assumes "\<And>c. c \<in> set s \<Longrightarrow> (of_char c :: nat) < 128" and "i \<le> length s"
  shows "char_boundary s i"
  using assms(1) [of "s ! i"] assms(2) by (cases "i = length s") (auto simp: char_boundary_def)

lemma bytes_to_hex_ascii: "c \<in> set (bytes_to_hex b) \<Longrightarrow> (of_char c :: nat) < 128"
  using hex_char_props byte_bounds by (fastforce simp: bytes_to_hex_def hex2_def)

lemma hex_bytes_hex: "hex_to_bytes (bytes_to_hex b) = Ok b"
proof -
  have "mapR (\<lambda>k. let i = 2 * k in
      if char_boundary (bytes_to_hex b) i \<and> char_boundary (bytes_to_hex b) (i + 2)
      then u8_from_hex (bytes_to_hex b ! i) (bytes_to_hex b ! (i + 1)) else Panic) [0..<length b]
    = Ok (map (\<lambda>k. b ! k) [0..<length b])"
  proof (rule mapR_Ok)
    fix k
    assume "k \<in> set [0..<length b]"
    then have k: "k < length b" by simp
    have "char_boundary (bytes_to_hex b) (2 * k)" "char_boundary (bytes_to_hex b) (2 * k + 2)"
      by (rule ascii_boundary [OF bytes_to_hex_ascii]; use k in simp)+
    then show "(let i = 2 * k in
      if char_boundary (bytes_to_hex b) i \<and> char_boundary (bytes_to_hex b) (i + 2)
      then u8_from_hex (bytes_to_hex b ! i) (bytes_to_hex b ! (i + 1)) else Panic) = Ok (b ! k)"
      using nth_bytes_to_hex [OF k] u8_hex2 [of "b ! k"] by (simp add: Let_def)
  qed
  then show ?thesis by (simp add: hex_to_bytes_def map_nth)
qed

text \<open>The master key can be persisted: the hexadecimal form of every 32-byte key reads back as
  the same key, while the reader also accepts a plus sign in the place of any first digit, so that
  texts that are not hexadecimal denote keys too.\<close>

theorem master_key_hex_round_trip:
  "(length k = 32 \<longrightarrow> aead_from_hex P (master_key_hex (P, k)) = Ok (P, k))
   \<and> hex_to_bytes ''+f0a'' = Ok [15, 10]"
proof
  show "length k = 32 \<longrightarrow> aead_from_hex P (master_key_hex (P, k)) = Ok (P, k)"
    by (simp add: aead_from_hex_def master_key_hex_def hex_bytes_hex)
  show "hex_to_bytes ''+f0a'' = Ok [15, 10]" by code_simp
qed

theorem master_key_hex_round_trip_witness:
  "aead_from_hex demo_prims (master_key_hex (demo_prims, replicate 32 66)) = Ok (demo_prims, replicate 32 66)"
  using master_key_hex_round_trip [of "replicate 32 66" demo_prims] by simp


section \<open>InMemoryKeyManager\<close>

record key_envelope =
  ke_origin_id :: origin_id
  ke_principal :: principal_id
  ke_wrapped_key :: bytes
  ke_meta :: "string option"

record key_manager =
  km_master :: bytes
  km_cache :: "(origin_id, bytes) hmap"

definition km_new :: "bytes \<Rightarrow> key_manager" where
  "km_new master = \<lparr>km_master = master, km_cache = []\<rparr>"

definition principal_mask :: "crypto_prims \<Rightarrow> principal_id \<Rightarrow> bytes" where
  "principal_mask P who = take 32 (blake3_raw P (map of_char who))"

definition ensure_origin_key :: "crypto_prims \<Rightarrow> origin_id \<Rightarrow> (key_manager, key_ref) op" where
  "ensure_origin_key P org =
     (\<lambda>s. (Ok (''mem:'' @ uuid_show org),
       s\<lparr>km_cache := hput org (derive_origin_key P (km_master s) org) (km_cache s)\<rparr>))"

definition wrap_origin_key :: "crypto_prims \<Rightarrow> origin_id \<Rightarrow> principal_id \<Rightarrow> (key_manager, key_envelope) op" where
  "wrap_origin_key P org who =
     readM (\<lambda>s.
       let key = derive_origin_key P (km_master s) org;
           msk = principal_mask P who
       in Ok \<lparr>ke_origin_id = org, ke_principal = who,
            ke_wrapped_key = map (\<lambda>(k, m). k XOR m) (zip key msk),
            ke_meta = Some ''xchacha20poly1305-hkdf-v1''\<rparr>)"

definition unwrap_origin_key :: "crypto_prims \<Rightarrow> key_envelope \<Rightarrow> (key_manager, bytes) op" where
  "unwrap_origin_key P env =
     readM (\<lambda>_.
       let msk = principal_mask P (ke_principal env) in
       if length (ke_wrapped_key env) \<noteq> 32
       then Err (Crypto (''invalid wrapped key length: '' @ dec_nat (length (ke_wrapped_key env))))
       else Ok (map (\<lambda>(k, m). k XOR m) (zip (ke_wrapped_key env) msk)))"

lemma xor_zip_twice:
  "length k = length m \<Longrightarrow>
   map (\<lambda>(k, m). k XOR m) (zip (map (\<lambda>(k, m). k XOR m) (zip k m)) m) = (k :: bytes)"
  by (induction k m rule: list_induct2) (simp_all add: xor.assoc)

text \<open>The key envelope of the in-memory key manager round-trips to the key the cipher derives for
  that origin, and since the mask depends on nothing but the principal's name, the envelope
  unwraps on any key manager, whatever its master key.\<close>

theorem key_envelope_round_trip:
  assumes "prims_ok P" and "wrap_origin_key P org who s = (Ok env, s')"
  shows "s' = s \<and> unwrap_origin_key P env t = (Ok (derive_origin_key P (km_master s) org), t)"
proof -
  let ?k = "derive_origin_key P (km_master s) org"
  have env: "env = \<lparr>ke_origin_id = org, ke_principal = who,
            ke_wrapped_key = map (\<lambda>(k, m). k XOR m) (zip ?k (principal_mask P who)),
            ke_meta = Some ''xchacha20poly1305-hkdf-v1''\<rparr>" and "s' = s"
    using assms(2) by (auto simp: wrap_origin_key_def Let_def)
  moreover have "length ?k = 32" "length (principal_mask P who) = 32"
    using assms(1) by (simp_all add: prims_ok_def derive_origin_key_def principal_mask_def)
  ultimately show ?thesis by (simp add: unwrap_origin_key_def xor_zip_twice)
qed

theorem key_envelope_round_trip_witness:
  "\<exists>env. wrap_origin_key demo_prims 7 ''alice'' (km_new [1]) = (Ok env, km_new [1])
    \<and> unwrap_origin_key demo_prims env (km_new [2]) = (Ok (derive_origin_key demo_prims [1] 7), km_new [2])"
proof -
  obtain env where w: "wrap_origin_key demo_prims 7 ''alice'' (km_new [1]) = (Ok env, km_new [1])"
    by (simp add: wrap_origin_key_def Let_def)
  from key_envelope_round_trip [OF demo_prims_ok w, of "km_new [2]"] w show ?thesis
    by (auto simp: km_new_def)
qed

end
