(* ===== verification/Sodl_Store.thy ===== *)
theory Sodl_Store
  imports Sodl_Pipeline Sodl_Crypto
begin

text \<open>
  \<open>EncryptedCas\<close>, \<open>crates/sodl-store/src/lib.rs\<close>: payloads are encrypted for their
  origin, addressed by the digest of the ciphertext, verified on the way back and decrypted.
  It is a client of the blob-store contract and of the crypto contract.
\<close>

record 's encrypted_cas =
  ec_store :: "'s blob_store"
  ec_crypto :: crypto
  ec_hash_alg :: hash_alg

definition put_plain :: "hashes \<Rightarrow> 's encrypted_cas \<Rightarrow> origin_id \<Rightarrow> bytes \<Rightarrow> ('s, blob_id) op" where
  "put_plain H ec org plaintext =
     bindM (pureM (cr_encrypt (ec_crypto ec) org plaintext)) (\<lambda>ciphertext.
       let bid = compute_blob_id H ciphertext (ec_hash_alg ec) in
       seqM (bs_put (ec_store ec) bid ciphertext) (returnM bid))"

definition get_plain :: "hashes \<Rightarrow> 's encrypted_cas \<Rightarrow> origin_id \<Rightarrow> blob_id \<Rightarrow> ('s, bytes) op" where
  "get_plain H ec org bid =
     bindM (bs_get (ec_store ec) bid) (\<lambda>ciphertext.
       seqM (pureM (verify_integrity H bid ciphertext))
         (pureM (cr_decrypt (ec_crypto ec) org ciphertext)))"

context blob_store_laws begin

lemma plain_round_trip:
  assumes "inv s" and "cas_ok H (blobs s)" and "\<And>b. valid (compute_blob_id H b alg)"
    and "crypto_ok c" and "cr_encrypt c org p = Ok ct" and "no_collision H alg (blobs s) [ct]"
  shows "\<exists>t. put_plain H \<lparr>ec_store = bs, ec_crypto = c, ec_hash_alg = alg\<rparr> org p s
      = (Ok (compute_blob_id H ct alg), t) \<and> inv t
    \<and> get_plain H \<lparr>ec_store = bs, ec_crypto = c, ec_hash_alg = alg\<rparr> org (compute_blob_id H ct alg) t = (Ok p, t)"
proof -
  have "blobs s (compute_blob_id H ct alg) = None \<or> blobs s (compute_blob_id H ct alg) = Some ct"
    using vacant_or_same [OF assms(2,6)] by simp
  then obtain t where "bs_put bs (compute_blob_id H ct alg) ct s = (Ok (), t)" "inv t"
    "blobs t = (blobs s)(compute_blob_id H ct alg \<mapsto> ct)"
    using put_law [OF assms(1,3)] by blast
  moreover from this have "bs_get bs (compute_blob_id H ct alg) t = (Ok ct, t)"
    using get_law [OF _ assms(3), of t ct] by simp
  ultimately show ?thesis
    using assms(4,5) by (simp add: put_plain_def get_plain_def act_simps crypto_ok_def Let_def)
qed

end

text \<open>Encrypted content-addressed storage round-trips on the in-memory store with the
  authenticated cipher: the identifier returned by \<open>put_plain\<close> reads back as the plaintext.\<close>

theorem encrypted_round_trip:
  assumes "cas_ok H (hget m)" and "prims_ok (fst c)" and "aead_encrypt c org p = Ok ct"
    and "no_collision H alg (hget m) [ct]"
  shows "\<exists>m'. put_plain H \<lparr>ec_store = mem_blob_store, ec_crypto = aead_provider c, ec_hash_alg = alg\<rparr> org p m
      = (Ok (compute_blob_id H ct alg), m')
    \<and> get_plain H \<lparr>ec_store = mem_blob_store, ec_crypto = aead_provider c, ec_hash_alg = alg\<rparr> org
        (compute_blob_id H ct alg) m' = (Ok p, m')"
  using mem_cas.plain_round_trip [where s = m and H = H and alg = alg and c = "aead_provider c"
      and org = org and p = p and ct = ct]
    aead_laws.provider_ok [of c] assms by (simp add: aead_provider_def)

theorem encrypted_round_trip_witness:
  "\<exists>ct m'. put_plain demo_hashes \<lparr>ec_store = mem_blob_store, ec_crypto = aead_provider (demo_prims, [3]),
        ec_hash_alg = Sha256\<rparr> 5 [1, 2] [] = (Ok (compute_blob_id demo_hashes ct Sha256), m')
    \<and> get_plain demo_hashes \<lparr>ec_store = mem_blob_store, ec_crypto = aead_provider (demo_prims, [3]),
        ec_hash_alg = Sha256\<rparr> 5 (compute_blob_id demo_hashes ct Sha256) m' = (Ok [1, 2], m')"
proof -
  obtain ct where e: "aead_encrypt (demo_prims, [3]) 5 [1, 2] = Ok ct"
    by (simp add: aead_encrypt_def demo_prims_def Let_def)
  have "cas_ok demo_hashes (hget [])" by (simp add: cas_ok_def)
  then have "\<exists>m'. put_plain demo_hashes \<lparr>ec_store = mem_blob_store, ec_crypto = aead_provider (demo_prims, [3]),
        ec_hash_alg = Sha256\<rparr> 5 [1, 2] [] = (Ok (compute_blob_id demo_hashes ct Sha256), m')
    \<and> get_plain demo_hashes \<lparr>ec_store = mem_blob_store, ec_crypto = aead_provider (demo_prims, [3]),
        ec_hash_alg = Sha256\<rparr> 5 (compute_blob_id demo_hashes ct Sha256) m' = (Ok [1, 2], m')"
    by (rule encrypted_round_trip) (use e demo_prims_ok in \<open>simp_all add: demo_no_collision\<close>)
  then show ?thesis by blast
qed

text \<open>Reads are authenticated against any store: a plaintext is returned only if the bytes the store
  answered have the requested digest and decrypt to it for that origin, and a get of an identifier
  the digests do not produce never succeeds.\<close>

theorem get_plain_authentic:
  "get_plain H \<lparr>ec_store = bs, ec_crypto = c, ec_hash_alg = alg\<rparr> org bid s = (Ok p, t) \<longleftrightarrow>
     (\<exists>ct. bs_get bs bid s = (Ok ct, t) \<and> cr_decrypt c org ct = Ok p
        \<and> (bid = compute_blob_id H ct Blake3 \<or> bid = compute_blob_id H ct Sha256))"
  unfolding get_plain_def by (auto simp: act_Ok_iffs verify_Ok_iff simp del: compute_blob_id.simps)

end
