(* ===== verification/Sodl_Proof.thy ===== *)
theory Sodl_Proof
  imports Sodl_Meta Sodl_FsCas Sodl_Crypto
begin

text \<open>
  Lineage proofs, \<open>crates/sodl-proof\<close>: the digest over the canonical text of the edges of
  an origin, and signers. Ed25519 and base64 are third-party code and appear as functions in
  \<open>ed_prims\<close>; the locale \<open>signer_laws\<close> is what the service relies on.
\<close>

record lineage_proof =
  lp_origin_id :: origin_id
  lp_digest :: string
  lp_created_at :: time

fun kind_string :: "ref_kind \<Rightarrow> string" where
  "kind_string (RefRepresentation name) = ''origin_rep:'' @ name"
| "kind_string (RefShare sid src dst) = ''share:'' @ sid @ '':'' @ src @ '':'' @ dst"
| "kind_string (RefDerivation did) = ''derivation:'' @ did"
| "kind_string (RefPin pin) = ''pin:'' @ pin"

definition nl :: char where "nl = CHR 0x0A"

definition edge_lines :: "lineage_edge \<Rightarrow> string list" where
  "edge_lines e = [le_edge_id e, uuid_show (le_origin_id e),
     (case le_blob_id e of Some b \<Rightarrow> b | None \<Rightarrow> ''-''), kind_string (le_kind e)]"

definition proof_text :: "origin_id \<Rightarrow> lineage_edge list \<Rightarrow> string" where
  "proof_text org edges =
     concat (map (\<lambda>l. l @ [nl])
       ([''SODL_LINEAGE_PROOF_V1'', uuid_show org] @ concat (map edge_lines edges)))"

definition generate_proof_unsigned ::
  "hashes \<Rightarrow> origin_id \<Rightarrow> lineage_edge list \<Rightarrow> time \<Rightarrow> lineage_proof res" where
  "generate_proof_unsigned H org edges now =
     Ok \<lparr>lp_origin_id = org,
         lp_digest = blake3_hex H (map of_char (proof_text org (sort_key le_edge_id edges))),
         lp_created_at = now\<rparr>"


section \<open>Signers\<close>

record signer =
  sg_key_id :: string
  sg_sign :: "string \<Rightarrow> string res"
  sg_verify :: "string \<Rightarrow> string \<Rightarrow> bool res"

locale signer_laws =
  fixes signer_of :: "'c \<Rightarrow> signer"
    and good :: "'c \<Rightarrow> bool"
  assumes sign_law: "good c \<Longrightarrow> \<exists>sig. sg_sign (signer_of c) d = Ok sig \<and> sg_verify (signer_of c) d sig = Ok True"
begin

lemma signed_verifies: "good c \<Longrightarrow> sg_sign (signer_of c) d = Ok sig \<Longrightarrow> sg_verify (signer_of c) d sig = Ok True"
  using sign_law [of c d] by auto

end

record ed_prims =
  ed_sign :: "bytes \<Rightarrow> bytes \<Rightarrow> bytes"
  ed_verify :: "bytes \<Rightarrow> bytes \<Rightarrow> bytes \<Rightarrow> bool"
  ed_public :: "bytes \<Rightarrow> bytes"
  sig_from_slice :: "bytes \<Rightarrow> (string, bytes) outcome"
  b64_encode :: "bytes \<Rightarrow> string"
  b64_decode :: "string \<Rightarrow> (string, bytes) outcome"

record ed25519 =
  ed_key_id :: string
  ed_signing :: bytes
  ed_verifying :: bytes

definition ed_from_seed :: "ed_prims \<Rightarrow> string \<Rightarrow> bytes \<Rightarrow> ed25519" where
  "ed_from_seed E kid seed = \<lparr>ed_key_id = kid, ed_signing = seed, ed_verifying = ed_public E seed\<rparr>"

definition map_invalid :: "(string, 'a) outcome \<Rightarrow> 'a res" where
  "map_invalid r = (case r of Ok a \<Rightarrow> Ok a | Err e \<Rightarrow> Err (Invalid e) | Panic \<Rightarrow> Panic)"

definition ed_signer :: "ed_prims \<Rightarrow> ed25519 \<Rightarrow> signer" where
  "ed_signer E k =
     \<lparr>sg_key_id = ed_key_id k,
      sg_sign = (\<lambda>digest. Ok (b64_encode E (ed_sign E (ed_signing k) (map of_char digest)))),
      sg_verify = (\<lambda>digest sig.
        bindR (map_invalid (b64_decode E sig)) (\<lambda>b.
        bindR (map_invalid (sig_from_slice E b)) (\<lambda>sg.
          Ok (ed_verify E (ed_verifying k) (map of_char digest) sg))))\<rparr>"

text \<open>A signature is a valid 64-byte signature text, and verifies under the public key.\<close>

definition ed_ok :: "ed_prims \<Rightarrow> bool" where
  "ed_ok E \<longleftrightarrow> (\<forall>seed m. b64_decode E (b64_encode E (ed_sign E seed m)) = Ok (ed_sign E seed m)
     \<and> sig_from_slice E (ed_sign E seed m) = Ok (ed_sign E seed m)
     \<and> ed_verify E (ed_public E seed) m (ed_sign E seed m))"

definition ed_good :: "ed_prims \<times> ed25519 \<Rightarrow> bool" where
  "ed_good = (\<lambda>(E, k). ed_ok E \<and> ed_verifying k = ed_public E (ed_signing k))"

interpretation ed_laws: signer_laws "\<lambda>(E, k). ed_signer E k" ed_good
  by unfold_locales (auto simp: ed_good_def ed_signer_def ed_ok_def map_invalid_def)

lemma ed_from_seed_good: "ed_ok E \<Longrightarrow> ed_good (E, ed_from_seed E kid seed)"
  by (simp add: ed_good_def ed_from_seed_def)


section \<open>The canonical text\<close>

lemma lines_inj:
  assumes "\<And>l. l \<in> set xs \<union> set ys \<Longrightarrow> nl \<notin> set l"
    and "concat (map (\<lambda>l. l @ [nl]) xs) = concat (map (\<lambda>l. l @ [nl]) ys)"
  shows "xs = ys"
  using assms
proof (induction xs arbitrary: ys)
  case Nil
  then show ?case by simp
next
  case (Cons x xs)
  then obtain y zs where ys: "ys = y # zs" by (cases ys) auto
  have eq: "x @ nl # concat (map (\<lambda>l. l @ [nl]) xs) = y @ nl # concat (map (\<lambda>l. l @ [nl]) zs)"
    using Cons.prems(2) ys by simp
  have "nl \<notin> set x" "nl \<notin> set y" using Cons.prems(1) ys by auto
  then have "x = y" and tails: "concat (map (\<lambda>l. l @ [nl]) xs) = concat (map (\<lambda>l. l @ [nl]) zs)"
    using sep_inj [OF _ _ eq] by blast+
  moreover have "xs = zs" by (rule Cons.IH) (use Cons.prems(1) ys tails in simp_all)
  ultimately show ?case using ys by simp
qed

lemma quads_inj:
  assumes "concat (map edge_lines es) = concat (map edge_lines fs)"
  shows "map edge_lines es = map edge_lines fs"
  using assms
proof (induction es arbitrary: fs)
  case Nil
  then show ?case by (cases fs) (auto simp: edge_lines_def)
next
  case (Cons e es)
  then show ?case by (cases fs) (auto simp: edge_lines_def)
qed

lemma generate_perm:
  assumes "mset es = mset fs" and "distinct (map le_edge_id es)"
  shows "generate_proof_unsigned H org es now = generate_proof_unsigned H org fs now"
proof -
  have "inj_on le_edge_id (set es)" using assms(2) by (simp add: distinct_map)
  then have "sort_key le_edge_id es = sort_key le_edge_id fs"
    using sort_key_inj_key_eq [of es "sort_key le_edge_id fs" le_edge_id] assms(1) by simp
  then show ?thesis by (simp add: generate_proof_unsigned_def)
qed

text \<open>The digest depends on the set of edges, not on the order the store lists them in, as long as
  the edge identifiers are distinct.\<close>

theorem proof_order_independent:
  assumes "mset es = mset fs" and "distinct (map le_edge_id es)"
  shows "generate_proof_unsigned H org es now = generate_proof_unsigned H org fs now"
  by (rule generate_perm [OF assms])

definition edge_a :: lineage_edge where
  "edge_a = \<lparr>le_edge_id = ''e1'', le_origin_id = 1, le_blob_id = None, le_kind = RefPin ''p'', le_created_at = 0\<rparr>"

definition edge_b :: lineage_edge where
  "edge_b = \<lparr>le_edge_id = ''e2'', le_origin_id = 1, le_blob_id = Some ''blake3:aa'',
     le_kind = RefRepresentation ''source'', le_created_at = 1\<rparr>"

theorem proof_order_independent_witness:
  "generate_proof_unsigned demo_hashes 1 [edge_a, edge_b] 5 = generate_proof_unsigned demo_hashes 1 [edge_b, edge_a] 5"
  by (rule proof_order_independent) (simp_all add: edge_a_def edge_b_def)

text \<open>Edges whose fields cannot be confused: no line breaks, no blob called \<open>-\<close>, share
  identifiers of the form the service makes, and no colon in the sending principal.\<close>

fun clean_kind :: "ref_kind \<Rightarrow> bool" where
  "clean_kind (RefShare sid src dst) = (length sid = 42 \<and> CHR '':'' \<notin> set src)"
| "clean_kind _ = True"

definition clean_edge :: "lineage_edge \<Rightarrow> bool" where
  "clean_edge e \<longleftrightarrow> (\<forall>l \<in> set (edge_lines e). nl \<notin> set l) \<and> le_blob_id e \<noteq> Some ''-'' \<and> clean_kind (le_kind e)"

lemma kind_string_inj:
  assumes "clean_kind a" and "clean_kind b" and "kind_string a = kind_string b"
  shows "a = b"
proof (cases a)
  case (RefShare sid src dst)
  obtain sid' src' dst' where b: "b = RefShare sid' src' dst'" using RefShare assms(3) by (cases b) auto
  have eq: "sid @ CHR '':'' # src @ CHR '':'' # dst = sid' @ CHR '':'' # src' @ CHR '':'' # dst'"
    using assms(3) RefShare b by simp
  then have "sid = sid'" "src @ CHR '':'' # dst = src' @ CHR '':'' # dst'"
    using assms(1,2) RefShare b by simp_all
  moreover have "src = src' \<and> dst = dst'"
    by (rule sep_inj [of "CHR '':''"]) (use calculation(2) assms(1,2) RefShare b in simp_all)
  ultimately show ?thesis using RefShare b by simp
qed (use assms in \<open>cases b; simp\<close>)+

definition edge_content :: "lineage_edge \<Rightarrow> string \<times> string \<times> blob_id option \<times> ref_kind" where
  "edge_content e = (le_edge_id e, uuid_show (le_origin_id e), le_blob_id e, le_kind e)"

lemma edge_lines_inj:
  assumes "clean_edge e" and "clean_edge f" and "edge_lines e = edge_lines f"
  shows "edge_content e = edge_content f"
  using assms kind_string_inj [of "le_kind e" "le_kind f"]
  by (auto simp: clean_edge_def edge_lines_def edge_content_def split: option.splits)

lemma proof_text_inj:
  assumes "\<forall>e \<in> set es \<union> set fs. clean_edge e" and "nl \<notin> set (uuid_show org)"
    and "proof_text org es = proof_text org fs"
  shows "map edge_content es = map edge_content fs"
proof -
  let ?L = "\<lambda>es. [''SODL_LINEAGE_PROOF_V1'', uuid_show org] @ concat (map edge_lines es)"
  have "nl \<notin> set l" if "l \<in> set (?L es) \<union> set (?L fs)" for l
    using that assms(1,2) by (auto simp: clean_edge_def nl_def)
  then have "?L es = ?L fs" using lines_inj assms(3) unfolding proof_text_def by blast
  then have lines: "map edge_lines es = map edge_lines fs" using quads_inj by simp
  then have len: "length es = length fs" by (metis length_map)
  show ?thesis
  proof (rule nth_equalityI)
    fix i
    assume i: "i < length (map edge_content es)"
    then have "edge_lines (es ! i) = edge_lines (fs ! i)"
      using lines len by (metis length_map nth_map)
    then show "map edge_content es ! i = map edge_content fs ! i"
      using i len assms(1) edge_lines_inj by simp
  qed (simp add: len)
qed

lemma uuid_show_no_nl: "nl \<notin> set (uuid_show u)"
proof -
  have "c \<noteq> nl" if "c \<in> set (bytes_to_hex b)" for c b
  proof -
    have "hex_value c \<noteq> None"
      using that hex_char_props byte_bounds by (fastforce simp: bytes_to_hex_def hex2_def)
    moreover have "hex_value nl = None" by code_simp
    ultimately show ?thesis by auto
  qed
  then show ?thesis
    unfolding uuid_show_def Let_def
    by (auto simp: nl_def dest!: in_set_takeD in_set_dropD)
qed

text \<open>What a digest covers of an edge: identifier, origin, blob, where an absent one counts as a blob called
  \<open>-\<close>, and kind, where a share counts only as its identifier and principals joined by colons. The time of
  creation is not covered.\<close>

fun covered_kind :: "ref_kind \<Rightarrow> string + ref_kind" where
  "covered_kind (RefShare sid src dst) = Inl (sid @ '':'' @ src @ '':'' @ dst)"
| "covered_kind k = Inr k"

definition covered :: "lineage_edge \<Rightarrow> string \<times> string \<times> blob_id \<times> (string + ref_kind)" where
  "covered e = (le_edge_id e, uuid_show (le_origin_id e), (case le_blob_id e of None \<Rightarrow> ''-'' | Some b \<Rightarrow> b), covered_kind (le_kind e))"

definition one_line :: "lineage_edge \<Rightarrow> bool" where
  "one_line e \<longleftrightarrow> nl \<notin> set (le_edge_id e) \<and> (case le_blob_id e of None \<Rightarrow> True | Some b \<Rightarrow> nl \<notin> set b)
     \<and> (case le_kind e of RefRepresentation n \<Rightarrow> nl \<notin> set n
        | RefShare sid src dst \<Rightarrow> nl \<notin> set sid \<union> set src \<union> set dst
        | RefDerivation d \<Rightarrow> nl \<notin> set d | RefPin n \<Rightarrow> nl \<notin> set n)"

lemma kind_string_covered: "kind_string a = kind_string b \<longleftrightarrow> covered_kind a = covered_kind b"
  by (cases a; cases b; simp)

lemma edge_lines_covered: "edge_lines e = edge_lines f \<longleftrightarrow> covered e = covered f"
  by (auto simp: edge_lines_def covered_def kind_string_covered)

lemma one_line_lines: "one_line e \<Longrightarrow> l \<in> set (edge_lines e) \<Longrightarrow> nl \<notin> set l"
  using uuid_show_no_nl [of "le_origin_id e"]
  by (cases "le_kind e"; cases "le_blob_id e") (auto simp: one_line_def edge_lines_def nl_def)

lemma proof_text_covered:
  assumes "\<forall>e \<in> set es \<union> set fs. one_line e"
  shows "proof_text org es = proof_text org fs \<longleftrightarrow> map covered es = map covered fs"
proof -
  let ?L = "\<lambda>es. [''SODL_LINEAGE_PROOF_V1'', uuid_show org] @ concat (map edge_lines es)"
  have clean: "nl \<notin> set l" if "l \<in> set (?L es) \<union> set (?L fs)" for l
    using that assms one_line_lines uuid_show_no_nl [of org] by (auto simp: nl_def)
  have "proof_text org es = proof_text org fs \<longleftrightarrow> ?L es = ?L fs"
    using lines_inj [of "?L es" "?L fs"] clean unfolding proof_text_def by metis
  also have "\<dots> \<longleftrightarrow> map edge_lines es = map edge_lines fs" using quads_inj [of es fs] by auto
  also have "\<dots> \<longleftrightarrow> map covered es = map covered fs"
  proof (induction es arbitrary: fs)
    case (Cons e es)
    then show ?case by (cases fs) (simp_all add: edge_lines_covered)
  qed simp
  finally show ?thesis .
qed

text \<open>C33: What a lineage proof pins. For edges without line breaks and a hash that does not collide on their two
  texts, the digests of two lists are equal exactly if the lists agree, in the order of edge identifiers, on
  everything \<open>covered\<close>: identifiers, origins, blobs and kinds, but not the times of creation, and of a share only the text
  that joins its identifier, sender and receiver. If moreover no blob is called \<open>-\<close>, share identifiers
  have the form the service makes and no sender contains a colon, the kinds agree completely.\<close>

theorem proof_pins_lineage:
  assumes "generate_proof_unsigned H org es t = Ok p" and "generate_proof_unsigned H org fs u = Ok q"
    and "\<forall>e \<in> set es \<union> set fs. one_line e"
    and "inj_on (blake3_hex H) {map of_char (proof_text org (sort_key le_edge_id es)),
           map of_char (proof_text org (sort_key le_edge_id fs))}"
  shows "(lp_digest p = lp_digest q \<longleftrightarrow> map covered (sort_key le_edge_id es) = map covered (sort_key le_edge_id fs))
    \<and> (lp_digest p = lp_digest q \<and> (\<forall>e \<in> set es \<union> set fs. clean_edge e)
        \<longrightarrow> map edge_content (sort_key le_edge_id es) = map edge_content (sort_key le_edge_id fs))"
proof -
  have inj: "inj (of_char :: char \<Rightarrow> byte)"
    by (rule injI) (rule of_char_byte_inj)
  have "lp_digest p = blake3_hex H (map of_char (proof_text org (sort_key le_edge_id es)))"
    "lp_digest q = blake3_hex H (map of_char (proof_text org (sort_key le_edge_id fs)))"
    using assms(1,2) by (auto simp: generate_proof_unsigned_def)
  then have "lp_digest p = lp_digest q \<longleftrightarrow>
      map of_char (proof_text org (sort_key le_edge_id es)) = (map of_char (proof_text org (sort_key le_edge_id fs)) :: bytes)"
    using inj_on_eq_iff [OF assms(4)] by simp
  then have digests: "lp_digest p = lp_digest q \<longleftrightarrow>
      proof_text org (sort_key le_edge_id es) = proof_text org (sort_key le_edge_id fs)"
    using inj by (simp add: inj_map_eq_map)
  have one: "\<forall>e \<in> set (sort_key le_edge_id es) \<union> set (sort_key le_edge_id fs). one_line e"
    using assms(3) by simp
  show ?thesis
  proof (rule conjI [OF _ impI])
    show "lp_digest p = lp_digest q \<longleftrightarrow> map covered (sort_key le_edge_id es) = map covered (sort_key le_edge_id fs)"
      unfolding digests by (rule proof_text_covered [OF one])
  next
    assume eq: "lp_digest p = lp_digest q \<and> (\<forall>e \<in> set es \<union> set fs. clean_edge e)"
    then have "proof_text org (sort_key le_edge_id es) = proof_text org (sort_key le_edge_id fs)"
      using digests by blast
    moreover have "\<forall>e \<in> set (sort_key le_edge_id es) \<union> set (sort_key le_edge_id fs). clean_edge e"
      using eq by simp
    ultimately show "map edge_content (sort_key le_edge_id es) = map edge_content (sort_key le_edge_id fs)"
      using proof_text_inj uuid_show_no_nl by blast
  qed
qed

theorem proof_pins_lineage_witness:
  "\<exists>p q r. generate_proof_unsigned demo_hashes 1 [edge_a] 5 = Ok p
     \<and> generate_proof_unsigned demo_hashes 1 [edge_a\<lparr>le_kind := RefPin ''q''\<rparr>] 6 = Ok q \<and> lp_digest p \<noteq> lp_digest q
     \<and> generate_proof_unsigned demo_hashes 1 [edge_a\<lparr>le_created_at := 9\<rparr>] 7 = Ok r \<and> lp_digest p = lp_digest r"
proof -
  let ?f = "edge_a\<lparr>le_kind := RefPin ''q''\<rparr>" and ?g = "edge_a\<lparr>le_created_at := 9\<rparr>"
  obtain p q r where pq: "generate_proof_unsigned demo_hashes 1 [edge_a] 5 = Ok p"
    "generate_proof_unsigned demo_hashes 1 [?f] 6 = Ok q" "generate_proof_unsigned demo_hashes 1 [?g] 7 = Ok r"
    by (simp add: generate_proof_unsigned_def)
  have line: "\<forall>e \<in> set [edge_a] \<union> set [?f]. one_line e" "\<forall>e \<in> set [edge_a] \<union> set [?g]. one_line e"
    by (auto simp: one_line_def edge_a_def nl_def)
  have inj: "inj_on (blake3_hex demo_hashes) X" for X
    using demo_hash_inj [of Blake3] by (auto simp: inj_on_def inj_def)
  have "lp_digest p \<noteq> lp_digest q"
    using proof_pins_lineage [OF pq(1,2) line(1) inj] by (auto simp: covered_def edge_a_def)
  moreover have "lp_digest p = lp_digest r"
    using proof_pins_lineage [OF pq(1,3) line(2) inj] by (auto simp: covered_def edge_a_def)
  ultimately show ?thesis using pq by blast
qed

text \<open>Without the condition on principals the digest is ambiguous: a share from \<open>user:alice\<close> to
  \<open>bob\<close> and a share from \<open>user\<close> to \<open>alice:bob\<close> have the same digest under every hash
  function, so exchanging one for the other leaves every proof and signature valid.\<close>

theorem proof_share_ambiguous:
  "generate_proof_unsigned H org [e\<lparr>le_kind := RefShare sid ''user:alice'' ''bob''\<rparr>] t
     = generate_proof_unsigned H org [e\<lparr>le_kind := RefShare sid ''user'' ''alice:bob''\<rparr>] t
   \<and> RefShare sid ''user:alice'' ''bob'' \<noteq> RefShare sid ''user'' ''alice:bob''"
  by (simp add: generate_proof_unsigned_def proof_text_def edge_lines_def)

end
