(* ===== verification/Sodl_Service.thy ===== *)
theory Sodl_Service
  imports Sodl_Node Sodl_Store Sodl_Proof
begin

text \<open>
  The service facade, \<open>crates/sodl-service/src/lib.rs\<close>: every operation of \<open>SodlService\<close> over
  the traits of a node. Values the code draws from the environment (random UUIDs, clock
  readings) are arguments, one per draw.
\<close>

section \<open>The service\<close>

record 'w service =
  sv_node :: "'w node"
  sv_enc_cas :: "'w encrypted_cas"
  sv_crypto :: crypto
  sv_signer :: "signer option"
  sv_chunk_config :: "chunk_config option"

record upload_request =
  ur_owner :: principal_id
  ur_media_kind :: media_kind
  ur_mime :: "string option"
  ur_policy :: origin_policy
  ur_bytes :: bytes

record upload_result =
  ul_origin_id :: origin_id
  ul_blob_id :: blob_id
  ul_chunk_blobs :: "blob_id list"
  ul_chunked :: bool

definition source_ref :: ref_kind where
  "source_ref = RefRepresentation ''source''"

definition edge_id_of :: "uuid \<Rightarrow> string" where
  "edge_id_of u = ''edge:'' @ uuid_show u"

text \<open>Step 3 of the upload: the stored root, the chunks, and whether the payload was chunked.\<close>

definition upload_bytes ::
  "hashes \<Rightarrow> chunk_manifest codec \<Rightarrow> 'w service \<Rightarrow> origin_id \<Rightarrow> bytes \<Rightarrow> ('w, blob_id \<times> blob_id list \<times> bool) op" where
  "upload_bytes H J svc org data =
     (case sv_chunk_config svc of
        Some cfg \<Rightarrow>
          bindM (pureM (cr_encrypt (sv_crypto svc) org data)) (\<lambda>ciphertext.
          bindM (chunk_and_store H J ciphertext (ec_store (sv_enc_cas svc)) (ec_hash_alg (sv_enc_cas svc)) cfg)
            (\<lambda>r. returnM (cu_root_blob r, cu_chunk_blobs r, cu_chunked r)))
      | None \<Rightarrow>
          bindM (put_plain H (sv_enc_cas svc) org data) (\<lambda>bid. returnM (bid, [], False)))"

definition plain_fingerprints :: "hashes \<Rightarrow> chunk_config option \<Rightarrow> bytes \<Rightarrow> string list res" where
  "plain_fingerprints H cfg data =
     (case cfg of
        Some c \<Rightarrow> compute_chunk_blob_ids H data Blake3 c
      | None \<Rightarrow> Ok [compute_blob_id H data Blake3])"

definition upload_record :: "origin_id \<Rightarrow> time \<Rightarrow> upload_request \<Rightarrow> blob_id \<Rightarrow> origin_record" where
  "upload_record org now req bid =
     (origin_record_new org (ur_media_kind req) (rp_durability (op_retention (ur_policy req))) now)
       \<lparr>or_owner := Some (ur_owner req),
        or_representations := [\<lparr>rep_name = ''source'', rep_media_kind = ur_media_kind req,
           rep_mime = ur_mime req, rep_size_bytes = None, rep_root_blobs = [bid]\<rparr>]\<rparr>"

text \<open>The arguments \<open>org\<close>, \<open>t_rec\<close>, \<open>u_edge\<close> and \<open>t_edge\<close> are the new origin id, the
  creation time of the record, and the UUID and the time of the lineage edge.\<close>

definition upload ::
  "hashes \<Rightarrow> chunk_manifest codec \<Rightarrow> 'w service \<Rightarrow> origin_id \<Rightarrow> time \<Rightarrow> uuid \<Rightarrow> time
     \<Rightarrow> upload_request \<Rightarrow> ('w, upload_result) op" where
  "upload H J svc org t_rec u_edge t_edge req =
     (let nd = sv_node svc; payload_fp = compute_blob_id H (ur_bytes req) Blake3 in
      bindM (pureM (plain_fingerprints H (sv_chunk_config svc) (ur_bytes req))) (\<lambda>chunk_fps.
      seqM (po_put (nd_policies nd) ((ur_policy req)\<lparr>op_origin_id := org\<rparr>))
      (bindM (upload_bytes H J svc org (ur_bytes req)) (\<lambda>(bid, chunk_blobs, chunked).
      seqM (og_create (nd_origins nd) (upload_record org t_rec req bid))
      (seqM (rc_inc_origin (nd_index nd) org source_ref)
      (seqM (rc_inc_blob (nd_index nd) bid source_ref)
      (seqM (forM chunk_blobs (\<lambda>cb. rc_inc_blob (nd_index nd) cb source_ref))
      (seqM (ls_add_edge (nd_lineage nd)
               \<lparr>le_edge_id = edge_id_of u_edge, le_origin_id = org, le_blob_id = Some bid,
                le_kind = source_ref, le_created_at = t_edge\<rparr>)
      (seqM (pv_put_payload (nd_provenance nd) org payload_fp)
      (seqM (pv_put_chunks (nd_provenance nd) org chunk_fps)
        (returnM \<lparr>ul_origin_id = org, ul_blob_id = bid, ul_chunk_blobs = chunk_blobs,
           ul_chunked = chunked\<rparr>)))))))))))"

definition get_payload :: "hashes \<Rightarrow> chunk_manifest codec \<Rightarrow> 'w service \<Rightarrow> origin_id \<Rightarrow> ('w, bytes) op" where
  "get_payload H J svc org =
     (let store = ec_store (sv_enc_cas svc) in
      bindM (og_get (nd_origins (sv_node svc)) org) (\<lambda>rec.
      bindM (pureM (case or_representations rec of [] \<Rightarrow> Err NotFound | rep # _ \<Rightarrow> Ok rep)) (\<lambda>rep.
      bindM (pureM (case rep_root_blobs rep of [] \<Rightarrow> Err NotFound | b # _ \<Rightarrow> Ok b)) (\<lambda>root_id.
      bindM (bs_get store root_id) (\<lambda>root_bytes.
      case try_parse_manifest J root_bytes of
        Some m \<Rightarrow> bindM (reassemble H m store) (\<lambda>ct. pureM (cr_decrypt (sv_crypto svc) org ct))
      | None \<Rightarrow> seqM (pureM (verify_integrity H root_id root_bytes))
                  (pureM (cr_decrypt (sv_crypto svc) org root_bytes)))))))"

section \<open>Lineage proofs\<close>

definition lineage_proof_now :: "hashes \<Rightarrow> 'w service \<Rightarrow> origin_id \<Rightarrow> time \<Rightarrow> ('w, lineage_proof) op" where
  "lineage_proof_now H svc org now =
     bindM (ls_list_edges (nd_lineage (sv_node svc)) org)
       (\<lambda>edges. pureM (generate_proof_unsigned H org edges now))"

definition lineage_proof_at :: "hashes \<Rightarrow> 'w service \<Rightarrow> origin_id \<Rightarrow> time \<Rightarrow> ('w, lineage_proof) op" where
  "lineage_proof_at H svc org cutoff =
     bindM (ls_list_edges (nd_lineage (sv_node svc)) org)
       (\<lambda>edges. pureM (generate_proof_unsigned H org
          (filter (\<lambda>e. le_created_at e < cutoff) edges) cutoff))"

definition verify_share_proof :: "hashes \<Rightarrow> 'w service \<Rightarrow> share_record \<Rightarrow> ('w, bool) op" where
  "verify_share_proof H svc sh =
     bindM (lineage_proof_at H svc (sr_origin_id sh) (sr_proof_created_at sh)) (\<lambda>proof.
       if lp_digest proof \<noteq> sr_proof_digest sh then returnM False
       else case (sr_proof_key_id sh, sr_proof_sig_b64 sh) of
           (Some _, Some sig) \<Rightarrow>
             (case sv_signer svc of
                Some signer \<Rightarrow> pureM (sg_verify signer (sr_proof_digest sh) sig)
              | None \<Rightarrow> returnM False)
         | _ \<Rightarrow> returnM True)"


section \<open>Shares, derivations and pins\<close>

definition share_id_of :: "uuid \<Rightarrow> share_id" where
  "share_id_of u = ''share:'' @ uuid_show u"

definition sign_proof :: "'w service \<Rightarrow> string \<Rightarrow> (string option \<times> string option) res" where
  "sign_proof svc digest =
     (case sv_signer svc of
        Some signer \<Rightarrow> bindR (sg_sign signer digest) (\<lambda>sig. Ok (Some (sg_key_id signer), Some sig))
      | None \<Rightarrow> Ok (None, None))"

definition share ::
  "hashes \<Rightarrow> 'w service \<Rightarrow> uuid \<Rightarrow> time \<Rightarrow> time \<Rightarrow> uuid \<Rightarrow> time
     \<Rightarrow> principal_id \<Rightarrow> principal_id \<Rightarrow> origin_id \<Rightarrow> capability list \<Rightarrow> ('w, share_id) op" where
  "share H svc u_share anchor t_rec u_edge t_edge src dst org caps =
     (let nd = sv_node svc; sid = share_id_of u_share in
      bindM (lineage_proof_at H svc org anchor) (\<lambda>proof.
      bindM (pureM (sign_proof svc (lp_digest proof))) (\<lambda>(key_id, sig).
      let s = \<lparr>sr_schema = SODL_SCHEMA_VERSION, sr_share_id = sid, sr_origin_id = org,
                sr_derivation_id = None, sr_from_principal = src, sr_to_principal = dst,
                sr_created_at = t_rec, sr_capabilities = caps, sr_proof_digest = lp_digest proof,
                sr_proof_created_at = anchor, sr_proof_key_id = key_id, sr_proof_sig_b64 = sig\<rparr> in
      seqM (pureM (share_validate s))
      (seqM (sh_put (nd_shares nd) s)
      (seqM (rc_inc_origin (nd_index nd) org (RefShare sid src dst))
      (seqM (ls_add_edge (nd_lineage nd)
               \<lparr>le_edge_id = edge_id_of u_edge, le_origin_id = org, le_blob_id = None,
                le_kind = RefShare sid src dst, le_created_at = t_edge\<rparr>)
        (returnM sid)))))))"

definition derive ::
  "'w service \<Rightarrow> uuid \<Rightarrow> time \<Rightarrow> uuid \<Rightarrow> time \<Rightarrow> origin_id \<Rightarrow> derivation_kind \<Rightarrow> media_kind
     \<Rightarrow> ('w, derivation_id) op" where
  "derive svc u_drv t_rec u_edge t_edge org kind media =
     (let nd = sv_node svc; did = ''drv:'' @ uuid_show u_drv;
          m = derivation_new org did media kind t_rec in
      seqM (pureM (derivation_validate m))
      (seqM (dv_put (nd_derivations nd) m)
      (seqM (rc_inc_origin (nd_index nd) org (RefDerivation did))
      (seqM (ls_add_edge (nd_lineage nd)
               \<lparr>le_edge_id = edge_id_of u_edge, le_origin_id = org, le_blob_id = None,
                le_kind = RefDerivation did, le_created_at = t_edge\<rparr>)
        (returnM did)))))"

definition release_share :: "'w service \<Rightarrow> share_id \<Rightarrow> ('w, unit) op" where
  "release_share svc sid =
     bindM (sh_get (nd_shares (sv_node svc)) sid) (\<lambda>s.
       rc_dec_origin (nd_index (sv_node svc)) (sr_origin_id s)
         (RefShare (sr_share_id s) (sr_from_principal s) (sr_to_principal s)))"

definition pin_origin ::
  "'w service \<Rightarrow> uuid \<Rightarrow> time \<Rightarrow> uuid \<Rightarrow> time \<Rightarrow> principal_id \<Rightarrow> origin_id \<Rightarrow> u8 \<Rightarrow> ('w, string) op" where
  "pin_origin svc u_pin t_rec u_edge t_edge who org min_replicas =
     (let nd = sv_node svc; pid = ''pin:'' @ uuid_show u_pin in
      seqM (pn_create (nd_pins nd)
              \<lparr>pr_pin_id = pid, pr_target = PinOrigin org, pr_requested_by = who,
               pr_created_at = t_rec, pr_state = Pending, pr_min_replicas = Some min_replicas,
               pr_required_zones = []\<rparr>)
      (seqM (rc_inc_origin (nd_index nd) org (RefPin pid))
      (seqM (ls_add_edge (nd_lineage nd)
               \<lparr>le_edge_id = edge_id_of u_edge, le_origin_id = org, le_blob_id = None,
                le_kind = RefPin pid, le_created_at = t_edge\<rparr>)
        (returnM pid))))"

definition unpin :: "'w service \<Rightarrow> string \<Rightarrow> ('w, unit) op" where
  "unpin svc pid =
     (let nd = sv_node svc in
      bindM (pn_get (nd_pins nd) pid) (\<lambda>p.
      seqM (pn_release (nd_pins nd) pid)
        (case pr_target p of
           PinOrigin org \<Rightarrow> rc_dec_origin (nd_index nd) org (RefPin pid)
         | PinRepresentation _ _ \<Rightarrow> returnM ())))"

definition is_gc_candidate :: "'w service \<Rightarrow> origin_id \<Rightarrow> ('w, bool) op" where
  "is_gc_candidate svc org =
     bindM (rc_get_origin (nd_index (sv_node svc)) org) (\<lambda>n. returnM (n = 0))"

definition tombstone_origin :: "'w service \<Rightarrow> time \<Rightarrow> origin_id \<Rightarrow> string \<Rightarrow> ('w, unit) op" where
  "tombstone_origin svc now org reason =
     (let nd = sv_node svc in
      bindM (og_get (nd_origins nd) org) (\<lambda>rec.
      seqM (forM (or_representations rec) (\<lambda>rep.
              seqM (rc_dec_origin (nd_index nd) org (RefRepresentation (rep_name rep)))
                (forM (rep_root_blobs rep) (\<lambda>b. rc_dec_blob (nd_index nd) b (RefRepresentation (rep_name rep))))))
        (og_update (nd_origins nd)
           (rec\<lparr>or_tombstoned_at := Some now, or_tombstone_reason := Some reason, or_representations := []\<rparr>))))"


section \<open>Provenance\<close>

text \<open>The confidence of a match is an \<open>f32\<close>. The arithmetic on it (the ratio of two counts,
  the cap of 0.95, the comparison) is a parameter: \<open>ratio\<close> maps the two counts to a
  confidence in a linear order, \<open>exact\<close> is 1.0, \<open>cap\<close> is 0.95 and \<open>zero\<close> is 0.0.\<close>

record 'f ratio_ops =
  ro_ratio :: "nat \<Rightarrow> nat \<Rightarrow> 'f"
  ro_exact :: 'f
  ro_cap :: 'f
  ro_zero :: 'f

datatype 'f provenance_kind = ExactPayload | ChunkOverlap nat nat 'f

record 'f candidate =
  cd_origin :: origin_id
  cd_kind :: "'f provenance_kind"
  cd_confidence :: 'f

definition resolve_provenance ::
  "hashes \<Rightarrow> ('f :: linorder) ratio_ops \<Rightarrow> 'w service \<Rightarrow> bytes
     \<Rightarrow> ('w, string \<times> string list \<times> 'f candidate list) op" where
  "resolve_provenance H R svc data =
     (let pv = nd_provenance (sv_node svc); payload_fp = compute_blob_id H data Blake3 in
      bindM (pureM (plain_fingerprints H (sv_chunk_config svc) data)) (\<lambda>chunk_fps.
      bindM (pv_find_payload pv payload_fp) (\<lambda>exact.
      let exacts = map (\<lambda>org. \<lparr>cd_origin = org, cd_kind = ExactPayload, cd_confidence = ro_exact R\<rparr>) exact;
          total_chunks = max (length chunk_fps) 1 in
      bindM (pv_find_chunks pv chunk_fps) (\<lambda>matches.
      let partial = concat (map (\<lambda>(org, matched).
            if org \<in> set exact then []
            else if ro_ratio R matched total_chunks \<le> ro_zero R then []
            else [\<lparr>cd_origin = org,
                   cd_kind = ChunkOverlap matched total_chunks (ro_ratio R matched total_chunks),
                   cd_confidence = min (ro_ratio R matched total_chunks) (ro_cap R)\<rparr>]) matches)
      in returnM (payload_fp, chunk_fps,
           rev (sort_key cd_confidence (rev (exacts @ partial))))))))"

end
