(* ===== verification/Sodl_Upload.thy ===== *)
theory Sodl_Upload
  imports Sodl_Service
begin

text \<open>
  Uploading and reading back. \<open>payload_of\<close> is the payload of an origin as a function of what
  the node holds; \<open>get_payload\<close> computes it and changes nothing, and an upload makes it the
  uploaded bytes. The lemmas hold for every node that satisfies the contract.
\<close>

section \<open>The payload of an origin\<close>

definition fetch_pure :: "hashes \<Rightarrow> (blob_id \<Rightarrow> bytes option) \<Rightarrow> chunk_entry \<Rightarrow> bytes res" where
  "fetch_pure H m e =
     bindR (of_option NotFound (m (ce_blob_id e))) (\<lambda>chunk.
     bindR (verify_integrity H (ce_blob_id e) chunk) (\<lambda>_.
       if length chunk \<noteq> unat (ce_length e) then Err Integrity else Ok chunk))"

definition reassemble_pure :: "hashes \<Rightarrow> chunk_manifest \<Rightarrow> (blob_id \<Rightarrow> bytes option) \<Rightarrow> bytes res" where
  "reassemble_pure H m blobs =
     (if 2 ^ 63 \<le> unat (cm_total_size m) then Panic
      else bindR (mapR (fetch_pure H blobs) (cm_chunks m)) (\<lambda>parts.
        if of_nat (length (concat parts)) \<noteq> cm_total_size m then Err Integrity else Ok (concat parts)))"

definition root_payload ::
  "hashes \<Rightarrow> chunk_manifest codec \<Rightarrow> crypto \<Rightarrow> origin_id \<Rightarrow> blob_id \<Rightarrow> (blob_id \<Rightarrow> bytes option) \<Rightarrow> bytes res" where
  "root_payload H J c org root_id blobs =
     bindR (of_option NotFound (blobs root_id)) (\<lambda>root_bytes.
       case try_parse_manifest J root_bytes of
         Some m \<Rightarrow> bindR (reassemble_pure H m blobs) (\<lambda>ct. cr_decrypt c org ct)
       | None \<Rightarrow> bindR (verify_integrity H root_id root_bytes) (\<lambda>_. cr_decrypt c org root_bytes))"

definition root_of :: "origin_record \<Rightarrow> blob_id res" where
  "root_of rec = (case or_representations rec of [] \<Rightarrow> Err NotFound
     | rep # _ \<Rightarrow> (case rep_root_blobs rep of [] \<Rightarrow> Err NotFound | b # _ \<Rightarrow> Ok b))"

definition payload_of :: "hashes \<Rightarrow> chunk_manifest codec \<Rightarrow> crypto \<Rightarrow> facts \<Rightarrow> origin_id \<Rightarrow> bytes res" where
  "payload_of H J c f org =
     bindR (of_option NotFound (f_origins f org)) (\<lambda>rec.
     bindR (root_of rec) (\<lambda>root_id. root_payload H J c org root_id (f_blobs f)))"

text \<open>The blobs a payload needs: its root and the chunks of its manifest. Only these matter.\<close>

definition needed :: "chunk_manifest codec \<Rightarrow> blob_id \<Rightarrow> (blob_id \<Rightarrow> bytes option) \<Rightarrow> blob_id set" where
  "needed J root_id blobs = insert root_id (case blobs root_id of None \<Rightarrow> {}
     | Some rb \<Rightarrow> (case try_parse_manifest J rb of None \<Rightarrow> {} | Some m \<Rightarrow> ce_blob_id ` set (cm_chunks m)))"

lemma root_payload_cong:
  assumes "\<And>b. b \<in> needed J root_id m \<Longrightarrow> m' b = m b"
  shows "root_payload H J c org root_id m' = root_payload H J c org root_id m"
proof (cases "m root_id")
  case None
  then show ?thesis using assms by (simp add: root_payload_def needed_def)
next
  case (Some rb)
  then have root: "m' root_id = Some rb" using assms by (simp add: needed_def)
  show ?thesis
  proof (cases "try_parse_manifest J rb")
    case None
    then show ?thesis using Some root by (simp add: root_payload_def)
  next
    case (Some mf)
    have "mapR (fetch_pure H m') xs = mapR (fetch_pure H m) xs" if "set xs \<subseteq> set (cm_chunks mf)" for xs
      using that assms Some \<open>m root_id = Some rb\<close>
      by (induction xs) (auto simp: fetch_pure_def needed_def)
    then show ?thesis using Some root \<open>m root_id = Some rb\<close>
      by (simp add: root_payload_def reassemble_pure_def)
  qed
qed


section \<open>Reading\<close>

definition service_ok :: "'w node \<Rightarrow> chunk_manifest codec \<Rightarrow> 'w service \<Rightarrow> bool" where
  "service_ok nd J svc \<longleftrightarrow> sv_node svc = nd \<and> ec_store (sv_enc_cas svc) = nd_store nd
     \<and> ec_crypto (sv_enc_cas svc) = sv_crypto svc \<and> crypto_ok (sv_crypto svc) \<and> codec_ok J
     \<and> (\<forall>cfg. sv_chunk_config svc = Some cfg \<longrightarrow> covering (effective_chunker cfg))"

context total_node begin

lemma get_blob: "inv s \<Longrightarrow> bs_get (nd_store nd) b s = (of_option NotFound (f_blobs (view s) b), s)"
  using store_get all_valid by simp

lemma fetch_chunk_eq:
  "inv s \<Longrightarrow> fetch_chunk H (nd_store nd) e s = (fetch_pure H (f_blobs (view s)) e, s)"
  using get_blob [of s "ce_blob_id e"] verify_outcomes [of H "ce_blob_id e"]
  by (cases "f_blobs (view s) (ce_blob_id e)")
    (auto simp: fetch_chunk_def fetch_pure_def bindM_def seqM_def split: outcome.splits)

lemma reassemble_eq:
  assumes "inv s"
  shows "reassemble H m (nd_store nd) s = (reassemble_pure H m (f_blobs (view s)), s)"
proof -
  have "mapM (fetch_chunk H (nd_store nd)) es s = (mapR (fetch_pure H (f_blobs (view s))) es, s)" for es
    by (induction es)
      (auto simp: bindM_def bindR_def fetch_chunk_eq [OF assms] split: outcome.splits)
  then show ?thesis
    by (auto simp: reassemble_def reassemble_pure_def bindM_def bindR_def Let_def split: outcome.splits)
qed

lemma get_payload_eq:
  assumes "service_ok nd J svc" and "inv s"
  shows "get_payload H J svc org s = (payload_of H J (sv_crypto svc) (view s) org, s)"
proof -
  have "og_get (nd_origins nd) org s = (of_option NotFound (f_origins (view s) org), s)"
    using get_origin [OF assms(2)] by simp
  then show ?thesis
    using assms(1) get_blob [OF assms(2)] reassemble_eq [OF assms(2)]
    by (cases "f_origins (view s) org")
      (auto simp: get_payload_def payload_of_def service_ok_def root_of_def root_payload_def Let_def
        bindM_def seqM_def bindR_def of_option_def split: list.splits option.splits outcome.splits)
qed

end



section \<open>Uploading\<close>

text \<open>The payloads an upload of a ciphertext writes; the last one is the root.\<close>

definition upload_plan :: "hashes \<Rightarrow> chunk_manifest codec \<Rightarrow> 'w service \<Rightarrow> bytes \<Rightarrow> bytes list" where
  "upload_plan H J svc ct =
     (case sv_chunk_config svc of
        Some cfg \<Rightarrow> planned_blobs H J ct (ec_hash_alg (sv_enc_cas svc)) cfg
      | None \<Rightarrow> [ct])"

definition plan_ids :: "hashes \<Rightarrow> 'w service \<Rightarrow> bytes list \<Rightarrow> blob_id list" where
  "plan_ids H svc P = map (\<lambda>b. compute_blob_id H b (ec_hash_alg (sv_enc_cas svc))) P"

text \<open>What the upload of a payload relies on: the size of the ciphertext is that of a slice and no
  digest collides. Reading it back also needs that a payload that stays in one blob is not itself
  the text of a manifest.\<close>

definition upload_ok :: "hashes \<Rightarrow> chunk_manifest codec \<Rightarrow> 'w service \<Rightarrow> (blob_id \<Rightarrow> bytes option) \<Rightarrow> bytes \<Rightarrow> bool" where
  "upload_ok H J svc blobs ct \<longleftrightarrow> cas_ok H blobs \<and> length ct < 2 ^ 63
     \<and> no_collision H (ec_hash_alg (sv_enc_cas svc)) blobs (upload_plan H J svc ct)"

definition not_manifest :: "hashes \<Rightarrow> chunk_manifest codec \<Rightarrow> 'w service \<Rightarrow> bytes \<Rightarrow> bool" where
  "not_manifest H J svc ct \<longleftrightarrow> (upload_plan H J svc ct = [ct] \<longrightarrow> try_parse_manifest J ct = None)"

definition add_counts :: "blob_id list \<Rightarrow> (blob_id \<Rightarrow> int) \<Rightarrow> blob_id \<Rightarrow> int" where
  "add_counts bs n b = n b + int (count_list bs b)"

lemma last_map_id: "P \<noteq> [] \<Longrightarrow> last (map f P) = f (last P)"
  by (simp add: last_map)

context total_node begin

lemma upload_bytes_law:
  assumes "service_ok nd J svc" and "inv s" and "cr_encrypt (sv_crypto svc) org data = Ok ct"
    and ok: "upload_ok H J svc (f_blobs (view s)) ct"
  shows "\<exists>t ch. upload_bytes H J svc org data s =
      (Ok (last (plan_ids H svc (upload_plan H J svc ct)), butlast (plan_ids H svc (upload_plan H J svc ct)), ch), t)
    \<and> inv t \<and> view t = (view s)\<lparr>f_blobs := add_blobs H (ec_hash_alg (sv_enc_cas svc))
          (upload_plan H J svc ct) (f_blobs (view s))\<rparr>
    \<and> upload_plan H J svc ct \<noteq> []"
proof (cases "sv_chunk_config svc")
  case None
  let ?alg = "ec_hash_alg (sv_enc_cas svc)"
  have P: "upload_plan H J svc ct = [ct]" using None by (simp add: upload_plan_def)
  have "f_blobs (view s) (compute_blob_id H ct ?alg) = None \<or> f_blobs (view s) (compute_blob_id H ct ?alg) = Some ct"
    using ok vacant_or_same [of H "f_blobs (view s)" ?alg "[ct]" ct] P by (simp add: upload_ok_def)
  then obtain t where "bs_put (nd_store nd) (compute_blob_id H ct ?alg) ct s = (Ok (), t)" "inv t"
    "view t = (view s)\<lparr>f_blobs := (f_blobs (view s))(compute_blob_id H ct ?alg \<mapsto> ct)\<rparr>"
    using store_put [OF assms(2) all_valid] by blast
  then show ?thesis
    using None P assms(1,3)
    by (intro exI [of _ t] exI [of _ False])
      (simp add: upload_bytes_def put_plain_def service_ok_def act_simps plan_ids_def Let_def)
next
  case (Some cfg)
  let ?alg = "ec_hash_alg (sv_enc_cas svc)" and ?P = "upload_plan H J svc ct"
  have P: "?P = planned_blobs H J ct ?alg cfg" using Some by (simp add: upload_plan_def)
  obtain r t where run: "chunk_and_store H J ct (nd_store nd) ?alg cfg s = (Ok r, t)"
    and t: "inv t" "frame (view t) = frame (view s)" and bl: "f_blobs (view t) = add_blobs H ?alg ?P (f_blobs (view s))"
    and ne: "?P \<noteq> []" and r: "cu_root_blob r = compute_blob_id H (last ?P) ?alg"
      "cu_chunk_blobs r = map (\<lambda>b. compute_blob_id H b ?alg) (butlast ?P)"
    using node_blobs.chunk_and_store_refines [where s = s and R = "frame (view s)" and H = H and J = J
        and alg = ?alg and cfg = cfg and data = ct] assms Some P all_valid
    by (auto simp: upload_ok_def service_ok_def)
  have "view t = (view s)\<lparr>f_blobs := add_blobs H ?alg ?P (f_blobs (view s))\<rparr>"
    using frame_eq [OF t(2)] bl by simp
  then show ?thesis
    using Some run t(1) ne r assms(1,3)
    by (simp add: upload_bytes_def service_ok_def act_simps plan_ids_def last_map map_butlast)
qed

lemma inc_blobs_law:
  assumes "inv s" and "\<And>b. f_blob_refs (view s) b + int (length bs) \<le> I64_MAX"
  shows "\<exists>t. forM bs (\<lambda>b. rc_inc_blob (nd_index nd) b r) s = (Ok (), t) \<and> inv t
    \<and> view t = (view s)\<lparr>f_blob_refs := add_counts bs (f_blob_refs (view s))\<rparr>"
  using assms
proof (induction bs arbitrary: s)
  case Nil
  then show ?case by (simp add: add_counts_def)
next
  case (Cons b bs)
  have "f_blob_refs (view s) b < I64_MAX" using Cons.prems(2) [of b] by simp
  then obtain u where u: "rc_inc_blob (nd_index nd) b r s = (Ok (), u)" "inv u"
    "view u = blob_refs b (f_blob_refs (view s) b + 1) (view s)"
    using inc_blob [OF Cons.prems(1)] by blast
  have "f_blob_refs (view u) x + int (length bs) \<le> I64_MAX" for x
    using Cons.prems(2) [of x] u(3) by (auto simp: blob_refs_def)
  then obtain t where "forM bs (\<lambda>b. rc_inc_blob (nd_index nd) b r) u = (Ok (), t)" "inv t"
    "view t = (view u)\<lparr>f_blob_refs := add_counts bs (f_blob_refs (view u))\<rparr>"
    using Cons.IH [OF u(2)] by blast
  then show ?case
    using u by (auto simp: act_simps blob_refs_def add_counts_def fun_eq_iff)
qed

end


section \<open>The effect of an upload\<close>

definition upload_edge :: "origin_id \<Rightarrow> uuid \<Rightarrow> time \<Rightarrow> blob_id \<Rightarrow> lineage_edge" where
  "upload_edge org u now bid = \<lparr>le_edge_id = edge_id_of u, le_origin_id = org, le_blob_id = Some bid,
     le_kind = source_ref, le_created_at = now\<rparr>"

definition upload_effect ::
  "hashes \<Rightarrow> 'w service \<Rightarrow> bytes list \<Rightarrow> origin_id \<Rightarrow> time \<Rightarrow> uuid \<Rightarrow> time \<Rightarrow> upload_request \<Rightarrow> string list
     \<Rightarrow> facts \<Rightarrow> facts" where
  "upload_effect H svc P org t_rec u_edge t_edge req fps f =
     (let ids = plan_ids H svc P; bid = last ids in
      f\<lparr>f_policies := (f_policies f)(org \<mapsto> (ur_policy req)\<lparr>op_origin_id := org\<rparr>),
        f_blobs := add_blobs H (ec_hash_alg (sv_enc_cas svc)) P (f_blobs f),
        f_origins := (f_origins f)(org \<mapsto> upload_record org t_rec req bid),
        f_origin_refs := (f_origin_refs f)(org := f_origin_refs f org + 1),
        f_blob_refs := add_counts (butlast ids) ((f_blob_refs f)(bid := f_blob_refs f bid + 1)),
        f_edges := add_mset (upload_edge org u_edge t_edge bid) (f_edges f),
        f_payload_fps := (f_payload_fps f)(compute_blob_id H (ur_bytes req) Blake3 :=
            insert org (f_payload_fps f (compute_blob_id H (ur_bytes req) Blake3))),
        f_chunk_fps := (\<lambda>fp. if fp \<in> set fps then insert org (f_chunk_fps f fp) else f_chunk_fps f fp)\<rparr>)"

text \<open>The UUID drawn for an edge is not the identifier of an edge of the node.\<close>

definition fresh_edge :: "uuid \<Rightarrow> facts \<Rightarrow> bool" where
  "fresh_edge u f \<longleftrightarrow> edge_id_of u \<notin> le_edge_id ` set_mset (f_edges f)"

definition upload_room :: "bytes list \<Rightarrow> origin_id \<Rightarrow> facts \<Rightarrow> bool" where
  "upload_room P org f \<longleftrightarrow> f_origins f org = None \<and> f_origin_refs f org < I64_MAX
     \<and> (\<forall>b. f_blob_refs f b + int (length P) \<le> I64_MAX)"

context total_node begin

lemma upload_law:
  assumes svc: "service_ok nd J svc" and s: "inv s"
    and ct: "cr_encrypt (sv_crypto svc) org (ur_bytes req) = Ok ct"
    and ok: "upload_ok H J svc (f_blobs (view s)) ct"
    and fps: "plain_fingerprints H (sv_chunk_config svc) (ur_bytes req) = Ok fps"
    and room: "upload_room (upload_plan H J svc ct) org (view s)" and edge: "fresh_edge u_edge (view s)"
  shows "\<exists>t r. upload H J svc org t_rec u_edge t_edge req s = (Ok r, t) \<and> inv t
    \<and> view t = upload_effect H svc (upload_plan H J svc ct) org t_rec u_edge t_edge req fps (view s)
    \<and> ul_origin_id r = org \<and> ul_blob_id r = last (plan_ids H svc (upload_plan H J svc ct))
    \<and> ul_chunk_blobs r = butlast (plan_ids H svc (upload_plan H J svc ct))"
proof -
  let ?P = "upload_plan H J svc ct" and ?alg = "ec_hash_alg (sv_enc_cas svc)"
  let ?ids = "plan_ids H svc ?P" and ?f = "view s"
  obtain s1 where s1: "po_put (nd_policies nd) ((ur_policy req)\<lparr>op_origin_id := org\<rparr>) s = (Ok (), s1)" "inv s1"
    "view s1 = ?f\<lparr>f_policies := (f_policies ?f)(org \<mapsto> (ur_policy req)\<lparr>op_origin_id := org\<rparr>)\<rparr>"
    using put_policy [OF s, of "(ur_policy req)\<lparr>op_origin_id := org\<rparr>"] by auto
  have ok1: "upload_ok H J svc (f_blobs (view s1)) ct" using ok s1(3) by simp
  obtain s2 ch where s2: "upload_bytes H J svc org (ur_bytes req) s1 = (Ok (last ?ids, butlast ?ids, ch), s2)" "inv s2"
    "view s2 = (view s1)\<lparr>f_blobs := add_blobs H ?alg ?P (f_blobs (view s1))\<rparr>" and ne: "?P \<noteq> []"
    using upload_bytes_law [OF svc s1(2) ct ok1] by blast
  let ?rec = "upload_record org t_rec req (last ?ids)"
  have rid: "or_origin_id ?rec = org" by (simp add: upload_record_def origin_record_new_def)
  have "f_origins (view s2) (or_origin_id ?rec) = None"
    using room s1(3) s2(3) rid by (simp add: upload_room_def)
  then obtain s3 where s3: "og_create (nd_origins nd) ?rec s2 = (Ok (), s3)" "inv s3"
    "view s3 = (view s2)\<lparr>f_origins := (f_origins (view s2))(org \<mapsto> ?rec)\<rparr>"
    using create_origin [OF s2(2)] rid by metis
  have "f_origin_refs (view s3) org < I64_MAX" using room s1(3) s2(3) s3(3) by (simp add: upload_room_def)
  then obtain s4 where s4: "rc_inc_origin (nd_index nd) org source_ref s3 = (Ok (), s4)" "inv s4"
    "view s4 = org_refs org (f_origin_refs (view s3) org + 1) (view s3)"
    using inc_origin [OF s3(2)] by blast
  have refs4: "f_blob_refs (view s4) = f_blob_refs ?f"
    using s1(3) s2(3) s3(3) s4(3) by (simp add: org_refs_def)
  have len: "int (length ?P) = int (length (butlast ?ids)) + 1"
    using ne by (cases ?P rule: rev_cases) (simp_all add: plan_ids_def)
  have room_b: "f_blob_refs ?f b + int (length (butlast ?ids)) + 1 \<le> I64_MAX" for b
    using room len unfolding upload_room_def by (metis add.assoc)
  have "f_blob_refs (view s4) (last ?ids) < I64_MAX" using room_b [of "last ?ids"] refs4 by simp
  then obtain s5 where s5: "rc_inc_blob (nd_index nd) (last ?ids) source_ref s4 = (Ok (), s5)" "inv s5"
    "view s5 = blob_refs (last ?ids) (f_blob_refs (view s4) (last ?ids) + 1) (view s4)"
    using inc_blob [OF s4(2)] by blast
  have "f_blob_refs (view s5) b + int (length (butlast ?ids)) \<le> I64_MAX" for b
    using room_b [of b] s5(3) refs4 by (auto simp: blob_refs_def)
  then obtain s6 where s6: "forM (butlast ?ids) (\<lambda>cb. rc_inc_blob (nd_index nd) cb source_ref) s5 = (Ok (), s6)" "inv s6"
    "view s6 = (view s5)\<lparr>f_blob_refs := add_counts (butlast ?ids) (f_blob_refs (view s5))\<rparr>"
    using inc_blobs_law [OF s5(2)] by blast
  have "le_edge_id (upload_edge org u_edge t_edge (last ?ids)) \<notin> le_edge_id ` set_mset (f_edges (view s6))"
    using edge s1(3) s2(3) s3(3) s4(3) s5(3) s6(3)
    by (simp add: fresh_edge_def upload_edge_def org_refs_def blob_refs_def)
  then obtain s7 where s7: "ls_add_edge (nd_lineage nd) (upload_edge org u_edge t_edge (last ?ids)) s6 = (Ok (), s7)" "inv s7"
    "view s7 = (view s6)\<lparr>f_edges := add_mset (upload_edge org u_edge t_edge (last ?ids)) (f_edges (view s6))\<rparr>"
    using add_edge [OF s6(2)] by blast
  let ?fp = "compute_blob_id H (ur_bytes req) Blake3"
  obtain s8 where s8: "pv_put_payload (nd_provenance nd) org ?fp s7 = (Ok (), s8)" "inv s8"
    "view s8 = (view s7)\<lparr>f_payload_fps := (f_payload_fps (view s7))(?fp := insert org (f_payload_fps (view s7) ?fp))\<rparr>"
    using put_payload [OF s7(2)] by blast
  obtain s9 where s9: "pv_put_chunks (nd_provenance nd) org fps s8 = (Ok (), s9)" "inv s9"
    "view s9 = (view s8)\<lparr>f_chunk_fps := (\<lambda>fp. if fp \<in> set fps then insert org (f_chunk_fps (view s8) fp)
        else f_chunk_fps (view s8) fp)\<rparr>"
    using put_chunks [OF s8(2)] by blast
  have node: "sv_node svc = nd" using svc by (simp add: service_ok_def)
  have "upload H J svc org t_rec u_edge t_edge req s
    = (Ok \<lparr>ul_origin_id = org, ul_blob_id = last ?ids, ul_chunk_blobs = butlast ?ids, ul_chunked = ch\<rparr>, s9)"
    unfolding upload_def node Let_def fps
    by (simp add: act_simps s1(1) s2(1) s3(1) s4(1) s5(1) s6(1) s7(1) [unfolded upload_edge_def] s8(1) s9(1)
        del: compute_blob_id.simps)
  moreover have "view s9 = upload_effect H svc ?P org t_rec u_edge t_edge req fps ?f"
    unfolding s9(3) s8(3) s7(3) s6(3) s5(3) s4(3) s3(3) s2(3) s1(3) upload_effect_def Let_def
      org_refs_def blob_refs_def
    by (simp cong: if_cong del: compute_blob_id.simps)
  ultimately show ?thesis using s9(2) by auto
qed

end


section \<open>Reading an upload back\<close>

lemma root_of_upload [simp]: "root_of (upload_record org t_rec req bid) = Ok bid"
  by (simp add: root_of_def upload_record_def)

context total_node begin

lemma root_payload_upload:
  assumes svc: "service_ok nd J svc" and t: "inv t"
    and ct: "cr_encrypt (sv_crypto svc) org data = Ok ct"
    and ok: "upload_ok H J svc m ct" and nm: "not_manifest H J svc ct"
    and bl: "f_blobs (view t) = add_blobs H (ec_hash_alg (sv_enc_cas svc)) (upload_plan H J svc ct) m"
  shows "root_payload H J (sv_crypto svc) org (last (plan_ids H svc (upload_plan H J svc ct))) (f_blobs (view t)) = Ok data
    \<and> needed J (last (plan_ids H svc (upload_plan H J svc ct))) (f_blobs (view t)) \<subseteq> set (plan_ids H svc (upload_plan H J svc ct))"
proof -
  let ?P = "upload_plan H J svc ct" and ?alg = "ec_hash_alg (sv_enc_cas svc)"
  let ?id = "\<lambda>b. compute_blob_id H b ?alg"
  have dec: "cr_decrypt (sv_crypto svc) org ct = Ok data"
    using svc ct by (simp add: service_ok_def crypto_ok_def)
  have stored: "f_blobs (view t) (?id b) = Some b" if "b \<in> set ?P" for b
    using add_blobs_mem [of H m ?alg ?P b] ok that bl by (simp add: upload_ok_def)
  have single: ?thesis if P: "?P = [ct]"
  proof -
    have "try_parse_manifest J ct = None" using nm P by (simp add: not_manifest_def)
    then show ?thesis using P stored [of ct] dec
      by (simp add: root_payload_def plan_ids_def needed_def del: compute_blob_id.simps)
  qed
  show ?thesis
  proof (cases "sv_chunk_config svc")
    case None
    then show ?thesis using single by (simp add: upload_plan_def)
  next
    case (Some cfg)
    show ?thesis
    proof (cases "(of_nat (length ct) :: u64) \<le> inline_threshold cfg")
      case True
      then show ?thesis using single Some by (simp add: upload_plan_def planned_blobs_def)
    next
      case False
      have cov: "covering (effective_chunker cfg)" and J: "codec_ok J" using svc Some by (auto simp: service_ok_def)
      have len: "length ct < 2 ^ 63" using ok by (simp add: upload_ok_def)
      obtain ds where ds: "effective_chunker cfg ct = Ok ds" "chunks_cover 0 ds ct"
        using cov len by (auto simp: covering_def)
      let ?m = "build_manifest ?alg (of_nat (length ct)) (map (entry_of H ?alg) ds)"
      obtain mb where mb: "to_vec J ?m = Ok mb" by (rule codec_okE [OF J])
      have P: "?P = map cd_data ds @ [mb]"
        using False Some ds mb by (simp add: upload_plan_def planned_blobs_def)
      have "reassemble H ?m (nd_store nd) t = (Ok ct, t)"
        using node_blobs.reassemble_stored [where s = t and R = "frame (view t)" and alg = ?alg and H = H and ds = ds
            and data = ct] t all_valid stored P ds(2) len by auto
      then have "reassemble_pure H ?m (f_blobs (view t)) = Ok ct" using reassemble_eq [OF t] by simp
      moreover have "try_parse_manifest J mb = Some ?m"
        using codec_ok_parse [OF J mb] by (simp add: try_parse_manifest_def)
      moreover have "f_blobs (view t) (?id mb) = Some mb" using stored P by simp
      moreover have "last (plan_ids H svc ?P) = ?id mb" using P by (simp add: plan_ids_def del: compute_blob_id.simps)
      moreover have "ce_blob_id ` set (cm_chunks ?m) \<subseteq> set (plan_ids H svc ?P)"
        using P by (auto simp: build_manifest_def entry_of_def plan_ids_def simp del: compute_blob_id.simps)
      ultimately show ?thesis
        using dec P by (simp add: root_payload_def needed_def plan_ids_def del: compute_blob_id.simps)
    qed
  qed
qed

lemma upload_payload:
  assumes svc: "service_ok nd J svc" and t: "inv t"
    and ct: "cr_encrypt (sv_crypto svc) org (ur_bytes req) = Ok ct"
    and ok: "upload_ok H J svc (f_blobs f) ct" and nm: "not_manifest H J svc ct"
    and view: "view t = upload_effect H svc (upload_plan H J svc ct) org t_rec u_edge t_edge req fps f"
  shows "payload_of H J (sv_crypto svc) (view t) org = Ok (ur_bytes req)"
  using root_payload_upload [OF svc t ct ok nm] view by (simp add: upload_effect_def Let_def payload_of_def)

end

text \<open>C12: Uploading a payload and reading it back, through the whole service on the in-memory node, with
  any crypto provider that decrypts what it encrypted and with or without chunking: the upload
  succeeds with a fresh origin id and \<open>get_payload\<close> then returns exactly the uploaded bytes and
  changes nothing.\<close>

theorem upload_round_trip:
  assumes "service_ok mem_node J svc" and "mem_inv s"
    and "cr_encrypt (sv_crypto svc) org (ur_bytes req) = Ok ct"
    and "upload_ok H J svc (f_blobs (mem_view s)) ct"
    and "plain_fingerprints H (sv_chunk_config svc) (ur_bytes req) = Ok fps"
    and "upload_room (upload_plan H J svc ct) org (mem_view s)"
    and "fresh_edge u_edge (mem_view s)" and "not_manifest H J svc ct"
  shows "\<exists>t r. upload H J svc org t_rec u_edge t_edge req s = (Ok r, t) \<and> mem_inv t \<and> ul_origin_id r = org
    \<and> get_payload H J svc org t = (Ok (ur_bytes req), t)"
  using mem_total.upload_law [OF assms(1-7), of t_rec t_edge] mem_total.get_payload_eq [OF assms(1)]
    mem_total.upload_payload [OF assms(1) _ assms(3,4,8)] by metis

definition mem_world_new :: mem_world where
  "mem_world_new = \<lparr>mw_index = mem_index_new, mw_origins = [], mw_policies = [], mw_pins = [],
     mw_derivations = [], mw_shares = [], mw_tombstones = [], mw_replicas = [], mw_blobs = []\<rparr>"

lemma mem_world_new_inv: "mem_inv mem_world_new"
  by (simp add: mem_inv_def mem_world_new_def mem_index_new_def mi_counts_ok_def fp_of_def replicas_keyed_def)

definition demo_chunks :: chunk_config where
  "demo_chunks = with_chunker (fixed_chunk \<lparr>chunk_size = 2\<rparr>) (with_inline_threshold 2 config_default)"

lemma demo_chunks_covering: "covering (effective_chunker demo_chunks)"
  using fixed_chunks.chunk_covering [of "\<lparr>chunk_size = 2\<rparr>"]
  by (simp add: demo_chunks_def effective_chunker_def with_chunker_def)

definition demo_service :: "'w node \<Rightarrow> crypto \<Rightarrow> chunk_config option \<Rightarrow> 'w service" where
  "demo_service nd c cfg = \<lparr>sv_node = nd,
     sv_enc_cas = \<lparr>ec_store = nd_store nd, ec_crypto = c, ec_hash_alg = Blake3\<rparr>,
     sv_crypto = c, sv_signer = None, sv_chunk_config = cfg\<rparr>"

lemma demo_service_ok: "crypto_ok c \<Longrightarrow> cfg = None \<or> cfg = Some demo_chunks \<Longrightarrow>
    service_ok nd demo_manifest_codec (demo_service nd c cfg)"
  using demo_manifest_codec_ok demo_chunks_covering by (auto simp: service_ok_def demo_service_def)

definition demo_policy :: origin_policy where
  "demo_policy = \<lparr>op_origin_id = 0,
     op_retention = \<lparr>rp_durability = Durable, rp_ttl_seconds = None, rp_min_replicas = Some 2\<rparr>,
     op_access = \<lparr>ap_default_caps = [Read], ap_allow_reshare = False, ap_allow_derivation = True\<rparr>\<rparr>"

definition demo_request :: "bytes \<Rightarrow> upload_request" where
  "demo_request data = \<lparr>ur_owner = ''alice'', ur_media_kind = Image, ur_mime = None,
     ur_policy = demo_policy, ur_bytes = data\<rparr>"

lemma demo_view_new: "f_blobs (mem_view mem_world_new) = (\<lambda>_. None)" "f_origins (mem_view mem_world_new) org = None"
  "f_origin_refs (mem_view mem_world_new) = (\<lambda>_. 0)" "f_blob_refs (mem_view mem_world_new) = (\<lambda>_. 0)"
  by (simp_all add: mem_view_def mem_world_new_def mem_index_new_def fun_eq_iff)

lemma demo_edge_fresh: "fresh_edge u (mem_view mem_world_new)"
  by (simp add: fresh_edge_def mem_view_def mem_world_new_def mem_index_new_def)

lemma demo_upload_ok:
  "length ct < 2 ^ 63 \<Longrightarrow> upload_ok demo_hashes J svc (f_blobs (mem_view mem_world_new)) ct"
  "int (length P) \<le> I64_MAX \<Longrightarrow> upload_room P org (mem_view mem_world_new)"
  by (simp_all add: upload_ok_def upload_room_def demo_view_new demo_no_collision cas_ok_def I64_MAX_def)

lemma demo_chunks_3: "effective_chunker demo_chunks [a, b, c] =
    Ok [\<lparr>cd_offset = 0, cd_length = 2, cd_data = [a, b]\<rparr>, \<lparr>cd_offset = 2, cd_length = 1, cd_data = [c]\<rparr>]"
  by (simp add: demo_chunks_def effective_chunker_def with_chunker_def fixed_chunk_def fixed_go.simps Let_def)

lemma demo_threshold: "\<not> (3 :: u64) \<le> inline_threshold demo_chunks"
  by (simp add: demo_chunks_def with_chunker_def with_inline_threshold_def word_le_nat_alt)

lemma demo_plan_3:
  obtains mb where "upload_plan demo_hashes demo_manifest_codec (demo_service nd cr (Some demo_chunks)) [a, b, c]
    = [[a, b], [c], mb]"
proof -
  obtain mb where "to_vec demo_manifest_codec (build_manifest Blake3 3 (map (entry_of demo_hashes Blake3)
     [\<lparr>cd_offset = 0, cd_length = 2, cd_data = [a, b]\<rparr>, \<lparr>cd_offset = 2, cd_length = 1, cd_data = [c]\<rparr>])) = Ok mb"
    by (rule codec_okE [OF demo_manifest_codec_ok])
  then show ?thesis using demo_threshold
    by (intro that [of mb]) (simp add: upload_plan_def planned_blobs_def demo_service_def demo_chunks_3)
qed

theorem upload_round_trip_witness:
  "\<exists>t r. upload demo_hashes demo_manifest_codec (demo_service mem_node (xor_crypto 7) (Some demo_chunks)) 5 100 1 101
       (demo_request [1, 2, 3]) mem_world_new = (Ok r, t)
     \<and> get_payload demo_hashes demo_manifest_codec (demo_service mem_node (xor_crypto 7) (Some demo_chunks)) 5 t
         = (Ok [1, 2, 3], t)"
proof -
  let ?svc = "demo_service mem_node (xor_crypto 7) (Some demo_chunks)" and ?m = "xor_mask 7 5"
  have ok: "service_ok mem_node demo_manifest_codec ?svc"
    by (rule demo_service_ok) (simp_all add: xor_provider.provider_ok)
  have ct: "cr_encrypt (sv_crypto ?svc) 5 (ur_bytes (demo_request [1, 2, 3]))
    = Ok [1 XOR ?m, 2 XOR ?m, 3 XOR ?m]"
    by (simp add: demo_service_def xor_crypto_def xor_encrypt_def demo_request_def)
  obtain fps where fps: "plain_fingerprints demo_hashes (sv_chunk_config ?svc) (ur_bytes (demo_request [1, 2, 3])) = Ok fps"
    using demo_threshold
    by (simp add: plain_fingerprints_def demo_service_def demo_request_def compute_chunk_blob_ids_def demo_chunks_3)
  obtain mb where plan: "upload_plan demo_hashes demo_manifest_codec ?svc [1 XOR ?m, 2 XOR ?m, 3 XOR ?m]
    = [[1 XOR ?m, 2 XOR ?m], [3 XOR ?m], mb]"
    by (rule demo_plan_3)
  have "\<exists>t r. upload demo_hashes demo_manifest_codec ?svc 5 100 1 101 (demo_request [1, 2, 3]) mem_world_new = (Ok r, t)
    \<and> mem_inv t \<and> ul_origin_id r = 5
    \<and> get_payload demo_hashes demo_manifest_codec ?svc 5 t = (Ok (ur_bytes (demo_request [1, 2, 3])), t)"
    by (rule upload_round_trip [OF ok mem_world_new_inv ct _ fps])
      (simp_all add: demo_upload_ok not_manifest_def plan I64_MAX_def demo_edge_fresh)
  then show ?thesis by (auto simp: demo_request_def)
qed

end
