(* ===== verification/Sodl_Gc.thy ===== *)
theory Sodl_Gc
  imports Sodl_Node Sodl_Crypto
begin

text \<open>
  Garbage collection and the replica audit, \<open>crates/sodl-gc\<close>: the planner, the executor, the
  auditor of pinned origins and the durability gate, over the traits of a node. The lemmas say
  what a plan contains as a function of what the node holds.
\<close>

section \<open>The planner\<close>

record gc_plan =
  gp_blob_delete :: "blob_id list"
  gp_origin_tombstone :: "origin_id list"

text \<open>Dates range over the years -9999 to 9999; leaving the range panics.\<close>

definition TIME_MIN :: time where "TIME_MIN = -377705116800 * 1000000000"
definition TIME_MAX :: time where "TIME_MAX = 253402300800 * 1000000000 - 1"

definition time_add_seconds :: "time \<Rightarrow> int \<Rightarrow> time res" where
  "time_add_seconds t secs =
     (let r = t + secs * 1000000000 in if TIME_MIN \<le> r \<and> r \<le> TIME_MAX then Ok r else Panic)"

definition pin_active :: "pin_record \<Rightarrow> bool" where
  "pin_active p \<longleftrightarrow> pr_state p \<noteq> Released"

definition plan_origin :: "'w node \<Rightarrow> time \<Rightarrow> origin_id \<Rightarrow> ('w, origin_id list) op" where
  "plan_origin nd now org =
     bindM (rc_get_origin (nd_index nd) org) (\<lambda>refs.
     if refs \<noteq> 0 then returnM []
     else bindM (pn_list (nd_pins nd) org) (\<lambda>pins.
     if list_ex pin_active pins then returnM []
     else bindM (po_get (nd_policies nd) org) (\<lambda>policy.
     case rp_ttl_seconds (op_retention policy) of
       None \<Rightarrow> returnM [org]
     | Some ttl \<Rightarrow>
         bindM (og_get (nd_origins nd) org) (\<lambda>rec.
         bindM (pureM (time_add_seconds (or_created_at rec) (sint ttl))) (\<lambda>expires.
         returnM (if now < expires then [] else [org]))))))"

definition plan_blob :: "'w node \<Rightarrow> blob_id \<Rightarrow> ('w, blob_id list) op" where
  "plan_blob nd b = bindM (rc_get_blob (nd_index nd) b) (\<lambda>n. returnM (if n = 0 then [b] else []))"

definition gc_plan :: "'w node \<Rightarrow> time \<Rightarrow> ('w, gc_plan) op" where
  "gc_plan nd now =
     bindM (si_list_origins (nd_scan nd)) (\<lambda>orgs.
     bindM (mapM (plan_origin nd now) orgs) (\<lambda>tombs.
     bindM (si_list_blobs (nd_scan nd)) (\<lambda>bids.
     bindM (mapM (plan_blob nd) bids) (\<lambda>dels.
     returnM \<lparr>gp_blob_delete = concat dels, gp_origin_tombstone = concat tombs\<rparr>))))"


section \<open>The executor\<close>

definition tomb_id :: "uuid \<Rightarrow> string" where
  "tomb_id u = ''tomb:'' @ uuid_show u"

text \<open>\<open>ids i\<close> is the UUID of the i-th tombstone.\<close>

definition gc_tombstone_origin :: "'w node \<Rightarrow> time \<Rightarrow> uuid \<times> origin_id \<Rightarrow> ('w, unit) op" where
  "gc_tombstone_origin nd now = (\<lambda>(u, org). ts_put (nd_tombstones nd)
     \<lparr>tb_tombstone_id = tomb_id u, tb_kind = TombOrigin, tb_origin_id = Some org, tb_blob_id = None,
      tb_reason = ''gc_origin_candidate'', tb_created_at = now\<rparr>)"

definition gc_delete_blob :: "'w node \<Rightarrow> time \<Rightarrow> uuid \<times> blob_id \<Rightarrow> ('w, unit) op" where
  "gc_delete_blob nd now = (\<lambda>(u, b). seqM (ts_put (nd_tombstones nd)
     \<lparr>tb_tombstone_id = tomb_id u, tb_kind = TombBlob, tb_origin_id = None, tb_blob_id = Some b,
      tb_reason = ''gc_blob_refcount_zero'', tb_created_at = now\<rparr>)
     (ignoreM (bs_delete (nd_store nd) b)))"

definition gc_execute :: "'w node \<Rightarrow> time \<Rightarrow> (nat \<Rightarrow> uuid) \<Rightarrow> gc_plan \<Rightarrow> ('w, unit) op" where
  "gc_execute nd now ids plan =
     (let n = length (gp_origin_tombstone plan) in
      seqM (forM (zip (map ids [0..<n]) (gp_origin_tombstone plan)) (gc_tombstone_origin nd now))
        (forM (zip (map ids [n..<n + length (gp_blob_delete plan)]) (gp_blob_delete plan))
          (gc_delete_blob nd now)))"

definition gc_collect :: "'w node \<Rightarrow> time \<Rightarrow> (nat \<Rightarrow> uuid) \<Rightarrow> ('w, unit) op" where
  "gc_collect nd now ids = bindM (gc_plan nd now) (gc_execute nd now ids)"


section \<open>The auditor and the gate\<close>

record repair_item =
  ri_blob_id :: blob_id
  ri_required :: int
  ri_healthy :: int
  ri_missing :: int

definition required_replicas :: "origin_policy \<Rightarrow> int" where
  "required_replicas p = (case rp_min_replicas (op_retention p) of Some n \<Rightarrow> uint n | None \<Rightarrow> 1)"

definition audit_blob :: "'w node \<Rightarrow> int \<Rightarrow> time \<Rightarrow> int \<Rightarrow> blob_id \<Rightarrow> ('w, repair_item list) op" where
  "audit_blob nd stale now required b =
     bindM (rs_healthy_stale (nd_replicas nd) b stale now) (\<lambda>healthy.
       returnM (if healthy < required
         then [\<lparr>ri_blob_id = b, ri_required = required, ri_healthy = healthy, ri_missing = required - healthy\<rparr>]
         else []))"

definition audit_origin :: "'w node \<Rightarrow> int \<Rightarrow> time \<Rightarrow> origin_id \<Rightarrow> ('w, repair_item list) op" where
  "audit_origin nd stale now org =
     bindM (pn_list (nd_pins nd) org) (\<lambda>pins.
     if \<not> list_ex pin_active pins then returnM []
     else bindM (po_get (nd_policies nd) org) (\<lambda>policy.
     bindM (og_get (nd_origins nd) org) (\<lambda>rec.
     bindM (mapM (audit_blob nd stale now (required_replicas policy))
              (concat (map rep_root_blobs (or_representations rec)))) (\<lambda>items.
     returnM (concat items)))))"

fun gate_blobs :: "'w node \<Rightarrow> int \<Rightarrow> time \<Rightarrow> int \<Rightarrow> blob_id list \<Rightarrow> ('w, bool) op" where
  "gate_blobs nd stale now required [] = returnM True"
| "gate_blobs nd stale now required (b # bs) =
     bindM (rs_healthy_stale (nd_replicas nd) b stale now) (\<lambda>healthy.
       if healthy < required then returnM False else gate_blobs nd stale now required bs)"

definition can_delete_origin_bytes :: "'w node \<Rightarrow> int \<Rightarrow> time \<Rightarrow> origin_id \<Rightarrow> ('w, bool) op" where
  "can_delete_origin_bytes nd stale now org =
     bindM (pn_list (nd_pins nd) org) (\<lambda>pins.
     if \<not> list_ex pin_active pins then returnM True
     else bindM (po_get (nd_policies nd) org) (\<lambda>policy.
     bindM (og_get (nd_origins nd) org) (\<lambda>rec.
     gate_blobs nd stale now (required_replicas policy)
       (concat (map rep_root_blobs (or_representations rec))))))"


section \<open>Plans on a node that satisfies the contract\<close>

definition pinned :: "facts \<Rightarrow> origin_id \<Rightarrow> bool" where
  "pinned f org \<longleftrightarrow> (\<exists>pid p. f_pins f pid = Some p \<and> pr_target p = PinOrigin org \<and> pr_state p \<noteq> Released)"

text \<open>The time to live is cast to a signed integer before it is added.\<close>

definition ttl_elapsed :: "facts \<Rightarrow> time \<Rightarrow> origin_id \<Rightarrow> bool" where
  "ttl_elapsed f now org \<longleftrightarrow> (\<exists>policy. f_policies f org = Some policy
     \<and> (case rp_ttl_seconds (op_retention policy) of None \<Rightarrow> True
        | Some ttl \<Rightarrow> (case f_origins f org of None \<Rightarrow> False
            | Some rec \<Rightarrow> or_created_at rec + sint ttl * 1000000000 \<le> now)))"

definition collectable :: "facts \<Rightarrow> time \<Rightarrow> origin_id \<Rightarrow> bool" where
  "collectable f now org \<longleftrightarrow> f_origin_refs f org = 0 \<and> \<not> pinned f org \<and> ttl_elapsed f now org"

context node_laws begin

lemma plan_blob_eq: "inv s \<Longrightarrow> plan_blob nd b s = (Ok (if f_blob_refs (view s) b = 0 then [b] else []), s)"
  by (simp add: plan_blob_def act_simps get_blob_refs)

lemma plan_origin_pure:
  assumes "inv s"
  shows "snd (plan_origin nd now org s) = s"
proof -
  obtain l where "pn_list (nd_pins nd) org s = (Ok l, s)" using list_pins [OF assms] by blast
  then show ?thesis
    using get_origin_refs [OF assms, of org] get_policy [OF assms, of org] get_origin [OF assms, of org]
    by (auto simp: plan_origin_def bindM_def split: outcome.splits option.splits)
qed

lemma plan_origin_sound:
  assumes "inv s" and "plan_origin nd now org s = (Ok [x], t)"
  shows "x = org \<and> collectable (view s) now org"
proof -
  obtain l where l: "pn_list (nd_pins nd) org s = (Ok l, s)"
    "{p \<in> set l. pr_target p = PinOrigin org} = {p. (\<exists>pid. f_pins (view s) pid = Some p) \<and> pr_target p = PinOrigin org}"
    using list_pins [OF assms(1)] by blast
  have refs: "f_origin_refs (view s) org = 0" "\<not> list_ex pin_active l" "x = org"
    using assms(2) l(1) get_origin_refs [OF assms(1), of org]
    by (auto simp: plan_origin_def act_Ok_iffs split: if_splits option.splits)
  have "pr_state p = Released" if "f_pins (view s) pid = Some p" "pr_target p = PinOrigin org" for pid p
  proof -
    have "p \<in> set l" using l(2) that by blast
    then show ?thesis using refs(2) by (auto simp: list_ex_iff pin_active_def)
  qed
  then have "\<not> pinned (view s) org" by (auto simp: pinned_def)
  moreover have "ttl_elapsed (view s) now org"
  proof -
    obtain policy where pol: "f_policies (view s) org = Some policy"
      using assms(2) l(1) refs get_origin_refs [OF assms(1), of org] get_policy [OF assms(1), of org]
      by (cases "f_policies (view s) org") (auto simp: plan_origin_def act_Ok_iffs split: if_splits)
    show ?thesis
      using assms(2) l(1) refs pol get_origin_refs [OF assms(1), of org] get_policy [OF assms(1), of org]
        get_origin [OF assms(1), of org]
      by (cases "f_origins (view s) org")
        (auto simp: plan_origin_def ttl_elapsed_def act_Ok_iffs time_add_seconds_def Let_def split: if_splits option.splits)
  qed
  ultimately show ?thesis using refs by (simp add: collectable_def)
qed

end


text \<open>The result of a plan as a function of the state; planning changes nothing.\<close>

context node_laws begin

lemma gc_plan_sound:
  assumes "inv s" and "gc_plan nd now s = (r, t)"
  shows "t = s \<and> (\<forall>plan. r = Ok plan \<longrightarrow>
      (\<forall>b \<in> set (gp_blob_delete plan). f_blob_refs (view s) b = 0)
      \<and> (\<forall>org \<in> set (gp_origin_tombstone plan). collectable (view s) now org))"
proof -
  obtain os where os: "si_list_origins (nd_scan nd) s = (Ok os, s)" using scan_origins [OF assms(1)] by blast
  obtain bs where bs: "si_list_blobs (nd_scan nd) s = (Ok bs, s)" using scan_blobs [OF assms(1)] by blast
  have po: "mapM (plan_origin nd now) os s = (mapR (\<lambda>x. fst (plan_origin nd now x s)) os, s)"
    by (rule mapM_pure) (metis plan_origin_pure [OF assms(1)] prod.collapse)
  have pb: "mapM (plan_blob nd) bs s = (Ok (map (\<lambda>b. if f_blob_refs (view s) b = 0 then [b] else []) bs), s)"
    by (subst mapM_pure [where g = "\<lambda>b. Ok (if f_blob_refs (view s) b = 0 then [b] else [])"])
      (simp_all add: plan_blob_eq [OF assms(1)] mapR_Ok)
  have single: "length l \<le> 1" if "plan_origin nd now x s = (Ok l, s)" for x l
    using that by (auto simp: plan_origin_def act_Ok_iffs split: if_splits option.splits)
  show ?thesis
  proof (cases "mapR (\<lambda>x. fst (plan_origin nd now x s)) os")
    case (Ok tombs)
    have "\<exists>x \<in> set os. fst (plan_origin nd now x s) = Ok l" if "l \<in> set tombs" for l
      using Ok that by (induction os arbitrary: tombs) (auto simp: bindR_eq_Ok)
    then have "\<exists>x \<in> set os. plan_origin nd now x s = (Ok l, s)" if "l \<in> set tombs" for l
      using that plan_origin_pure [OF assms(1)] by (metis prod.collapse)
    then have "\<exists>x. plan_origin nd now x s = (Ok [org], s)" if "org \<in> set (concat tombs)" for org
      using that single by (fastforce simp: length_Suc_conv le_Suc_eq)
    then have "collectable (view s) now org"
      if "org \<in> set (concat tombs)" for org
      using that plan_origin_sound [OF assms(1)] by metis
    then show ?thesis using assms(2) os bs po pb Ok
      by (auto simp: gc_plan_def act_simps split: if_splits)
  qed (use assms(2) os po in \<open>auto simp: gc_plan_def bindM_def\<close>)
qed

end

context total_node begin

lemma gc_tombstones_law:
  "inv s \<Longrightarrow> \<exists>t M. forM xs (gc_tombstone_origin nd now) s = (Ok (), t) \<and> inv t
    \<and> view t = (view s)\<lparr>f_tombstones := M\<rparr>"
proof (induction xs arbitrary: s)
  case Nil
  then show ?case by (intro exI [of _ s] exI [of _ "f_tombstones (view s)"]) simp
next
  case (Cons x xs)
  obtain u org where x: "x = (u, org)" by force
  obtain s1 M where s1: "gc_tombstone_origin nd now x s = (Ok (), s1)" "inv s1"
    "view s1 = (view s)\<lparr>f_tombstones := M\<rparr>"
    using put_tombstone [OF Cons.prems] unfolding x gc_tombstone_origin_def by fastforce
  obtain t M' where "forM xs (gc_tombstone_origin nd now) s1 = (Ok (), t)" "inv t"
    "view t = (view s1)\<lparr>f_tombstones := M'\<rparr>" using Cons.IH [OF s1(2)] by blast
  then show ?case using s1 by (auto simp: act_simps)
qed

lemma gc_deletes_law:
  "inv s \<Longrightarrow> \<exists>t M. forM xs (gc_delete_blob nd now) s = (Ok (), t) \<and> inv t
    \<and> view t = (view s)\<lparr>f_tombstones := M,
        f_blobs := (\<lambda>b. if b \<in> snd ` set xs then None else f_blobs (view s) b)\<rparr>"
proof (induction xs arbitrary: s)
  case Nil
  then show ?case by (intro exI [of _ s] exI [of _ "f_tombstones (view s)"]) simp
next
  case (Cons x xs)
  obtain u b where x: "x = (u, b)" by force
  obtain s1 M where s1: "ts_put (nd_tombstones nd)
     \<lparr>tb_tombstone_id = tomb_id u, tb_kind = TombBlob, tb_origin_id = None, tb_blob_id = Some b,
      tb_reason = ''gc_blob_refcount_zero'', tb_created_at = now\<rparr> s = (Ok (), s1)" "inv s1"
    "view s1 = (view s)\<lparr>f_tombstones := M\<rparr>"
    using put_tombstone [OF Cons.prems] by fastforce
  obtain s2 where s2: "bs_delete (nd_store nd) b s1 = (Ok (), s2)" "inv s2"
    "view s2 = (view s1)\<lparr>f_blobs := (f_blobs (view s1))(b := None)\<rparr>"
    using store_delete [OF s1(2) all_valid] by blast
  have step: "gc_delete_blob nd now x s = (Ok (), s2)"
    using s1(1) s2(1) by (simp add: x gc_delete_blob_def act_simps)
  obtain t M' where t: "forM xs (gc_delete_blob nd now) s2 = (Ok (), t)" "inv t"
    "view t = (view s2)\<lparr>f_tombstones := M', f_blobs := (\<lambda>b. if b \<in> snd ` set xs then None else f_blobs (view s2) b)\<rparr>"
    using Cons.IH [OF s2(2)] by blast
  have "view t = (view s)\<lparr>f_tombstones := M', f_blobs := (\<lambda>c. if c \<in> snd ` set (x # xs) then None else f_blobs (view s) c)\<rparr>"
    using t(3) s2(3) s1(3) x by (simp add: fun_eq_iff)
  then show ?case using step t by (auto simp: act_simps)
qed

text \<open>A collection, whatever its outcome, deletes blobs without references and nothing else.\<close>

lemma gc_collect_law:
  assumes "inv s" and "gc_collect nd now ids s = (r, t)"
  shows "inv t \<and> (\<exists>D M. (\<forall>b \<in> D. f_blob_refs (view s) b = 0)
    \<and> view t = (view s)\<lparr>f_tombstones := M, f_blobs := (\<lambda>b. if b \<in> D then None else f_blobs (view s) b)\<rparr>)"
proof (cases "gc_plan nd now s")
  case (Pair q s')
  have s': "s' = s" using gc_plan_sound [OF assms(1) Pair] by simp
  show ?thesis
  proof (cases q)
    case (Ok plan)
    define n where "n = length (gp_origin_tombstone plan)"
    let ?xs = "zip (map ids [0..<n]) (gp_origin_tombstone plan)"
    let ?ys = "zip (map ids [n..<n + length (gp_blob_delete plan)]) (gp_blob_delete plan)"
    obtain s1 M where s1: "forM ?xs (gc_tombstone_origin nd now) s = (Ok (), s1)" "inv s1"
      "view s1 = (view s)\<lparr>f_tombstones := M\<rparr>" using gc_tombstones_law [OF assms(1)] by blast
    obtain s2 M' where s2: "forM ?ys (gc_delete_blob nd now) s1 = (Ok (), s2)" "inv s2"
      "view s2 = (view s1)\<lparr>f_tombstones := M', f_blobs := (\<lambda>b. if b \<in> snd ` set ?ys then None else f_blobs (view s1) b)\<rparr>"
      using gc_deletes_law [OF s1(2)] by blast
    have t: "t = s2"
      using assms(2) Pair Ok s' s1(1) s2(1)
      by (simp add: gc_collect_def gc_execute_def act_simps Let_def n_def)
    have "snd ` set ?ys = set (gp_blob_delete plan)"
      by (metis (no_types, lifting) diff_add_inverse length_map length_upt list.set_map map_snd_zip)
    then show ?thesis
      using t s2 s1(3) gc_plan_sound [OF assms(1) Pair] Ok
      by (intro conjI exI [of _ "set (gp_blob_delete plan)"] exI [of _ M']) (simp_all add: fun_eq_iff)
  next
    case (Err e)
    then have "t = s" using assms(2) Pair s' by (simp add: gc_collect_def act_simps)
    then show ?thesis using assms(1)
      by (intro conjI exI [of _ "{}"] exI [of _ "f_tombstones (view s)"]) simp_all
  next
    case Panic
    then have "t = s" using assms(2) Pair s' by (simp add: gc_collect_def act_simps)
    then show ?thesis using assms(1)
      by (intro conjI exI [of _ "{}"] exI [of _ "f_tombstones (view s)"]) simp_all
  qed
qed

end


section \<open>The gate and the auditor\<close>

definition map_ok :: "('a \<Rightarrow> 'b) \<Rightarrow> ('e, 'a) outcome \<Rightarrow> ('e, 'b) outcome" where
  "map_ok g r = bindR r (\<lambda>x. Ok (g x))"

definition deficits :: "int \<Rightarrow> (blob_id \<Rightarrow> int) \<Rightarrow> blob_id list \<Rightarrow> repair_item list" where
  "deficits required healthy bs =
     map (\<lambda>b. \<lparr>ri_blob_id = b, ri_required = required, ri_healthy = healthy b, ri_missing = required - healthy b\<rparr>)
       (filter (\<lambda>b. healthy b < required) bs)"

lemma concat_guarded: "concat (map (\<lambda>b. if P b then [g b] else []) bs) = map g (filter P bs)"
  by (induction bs) simp_all

lemma audit_blobs_eq:
  assumes "\<And>b. rs_healthy_stale (nd_replicas nd) b stale now s = (Ok (healthy b), s)"
  shows "bindM (mapM (audit_blob nd stale now required) bs) (\<lambda>items. returnM (concat items)) s
    = (Ok (deficits required healthy bs), s)"
proof -
  have "mapM (audit_blob nd stale now required) bs s
    = (mapR (\<lambda>b. Ok (if healthy b < required then [\<lparr>ri_blob_id = b, ri_required = required, ri_healthy = healthy b,
        ri_missing = required - healthy b\<rparr>] else [])) bs, s)"
    by (rule mapM_pure) (simp add: audit_blob_def act_simps assms)
  also have "\<dots> = (Ok (map (\<lambda>b. if healthy b < required then [\<lparr>ri_blob_id = b, ri_required = required, ri_healthy = healthy b,
        ri_missing = required - healthy b\<rparr>] else []) bs), s)"
    by (simp add: mapR_Ok)
  finally show ?thesis
    by (simp add: act_simps deficits_def concat_guarded)
qed

lemma gate_blobs_eq:
  assumes "\<And>b. rs_healthy_stale (nd_replicas nd) b stale now s = (Ok (healthy b), s)"
  shows "gate_blobs nd stale now required bs s = (Ok (deficits required healthy bs = []), s)"
  by (induction bs) (auto simp: act_simps assms deficits_def)

definition healthy_nodes :: "facts \<Rightarrow> int \<Rightarrow> time \<Rightarrow> blob_id \<Rightarrow> int" where
  "healthy_nodes f stale now b = int (card {n. \<exists>rr. f_replicas f b n = Some rr \<and> rr_state rr = Healthy \<and> fresh stale now rr})"

text \<open>The deficits of an origin, and the error of an audit that finds no policy or no record.\<close>

definition origin_deficits :: "facts \<Rightarrow> int \<Rightarrow> time \<Rightarrow> origin_id \<Rightarrow> repair_item list res" where
  "origin_deficits f stale now org =
     (if \<not> pinned f org then Ok []
      else bindR (of_option NotFound (f_policies f org)) (\<lambda>policy.
        bindR (of_option NotFound (f_origins f org)) (\<lambda>rec.
        Ok (deficits (required_replicas policy) (healthy_nodes f stale now)
              (concat (map rep_root_blobs (or_representations rec)))))))"

text \<open>A store that lists only pins of the queried origin, as both implementations do.\<close>

context node_laws begin

lemma pins_active:
  assumes "inv s"
  obtains l where "pn_list (nd_pins nd) org s = (Ok l, s)"
    "(\<forall>p \<in> set l. pr_target p = PinOrigin org) \<longrightarrow> list_ex pin_active l = pinned (view s) org"
proof -
  obtain l where l: "pn_list (nd_pins nd) org s = (Ok l, s)"
    "{p \<in> set l. pr_target p = PinOrigin org} = {p. (\<exists>pid. f_pins (view s) pid = Some p) \<and> pr_target p = PinOrigin org}"
    using list_pins [OF assms] by blast
  have "(p \<in> set l \<and> pr_target p = PinOrigin org)
      = ((\<exists>pid. f_pins (view s) pid = Some p) \<and> pr_target p = PinOrigin org)" for p
    using l(2) by blast
  then have "(\<forall>p \<in> set l. pr_target p = PinOrigin org) \<longrightarrow> list_ex pin_active l = pinned (view s) org"
    unfolding list_ex_iff pinned_def pin_active_def by metis
  then show ?thesis using l(1) by (rule that [rotated])
qed

lemma audit_gate_law:
  assumes s: "inv s" and only: "\<And>l. pn_list (nd_pins nd) org s = (Ok l, s) \<Longrightarrow> \<forall>p \<in> set l. pr_target p = PinOrigin org"
  shows "audit_origin nd stale now org s = (origin_deficits (view s) stale now org, s)"
    and "can_delete_origin_bytes nd stale now org s =
      (map_ok (\<lambda>items. items = []) (origin_deficits (view s) stale now org), s)"
proof -
  obtain l where l: "pn_list (nd_pins nd) org s = (Ok l, s)"
    "(\<forall>p \<in> set l. pr_target p = PinOrigin org) \<longrightarrow> list_ex pin_active l = pinned (view s) org"
    using pins_active [OF s] by blast
  have act: "list_ex pin_active l = pinned (view s) org" using l only by blast
  have h: "rs_healthy_stale (nd_replicas nd) b stale now s = (Ok (healthy_nodes (view s) stale now b), s)" for b
    using healthy_stale [OF s] by (simp add: healthy_nodes_def)
  note eqs = audit_blobs_eq [OF h] gate_blobs_eq [OF h]
  have pol: "po_get (nd_policies nd) org s = (of_option NotFound (f_policies (view s) org), s)"
    by (rule get_policy [OF s])
  have org: "og_get (nd_origins nd) org s = (of_option NotFound (f_origins (view s) org), s)"
    by (rule get_origin [OF s])
  show "audit_origin nd stale now org s = (origin_deficits (view s) stale now org, s)"
    using l(1) act pol org
    by (cases "f_policies (view s) org"; cases "f_origins (view s) org")
      (simp_all add: audit_origin_def origin_deficits_def act_simps eqs)
  show "can_delete_origin_bytes nd stale now org s =
      (map_ok (\<lambda>items. items = []) (origin_deficits (view s) stale now org), s)"
    using l(1) act pol org
    by (cases "f_policies (view s) org"; cases "f_origins (view s) org")
      (simp_all add: can_delete_origin_bytes_def origin_deficits_def act_simps eqs map_ok_def)
qed

end

lemma mem_pins_only: "pn_list (nd_pins mem_node) org s = (Ok l, s) \<Longrightarrow> \<forall>p \<in> set l. pr_target p = PinOrigin org"
  by (auto simp: mem_node_def liftM_def mem_list_pins_def)

text \<open>C14: The auditor and the durability gate agree. On a node, the audit of a pinned origin lists
  exactly the root blobs with fewer healthy, fresh replicas than its policy asks for, in order and
  with the exact deficit; the gate allows deletion exactly if that list is empty; both fail with
  \<open>NotFound\<close> for a pinned origin without policy or record; neither changes the node.\<close>

theorem audit_and_gate:
  assumes "mem_inv s"
  shows "audit_origin mem_node stale now org s = (origin_deficits (mem_view s) stale now org, s)
    \<and> can_delete_origin_bytes mem_node stale now org s =
        (map_ok (\<lambda>items. items = []) (origin_deficits (mem_view s) stale now org), s)"
  by (intro conjI mem_laws.audit_gate_law [OF assms]) (rule mem_pins_only, assumption)+


definition gc_policy :: "u64 option \<Rightarrow> u8 \<Rightarrow> origin_policy" where
  "gc_policy ttl n = \<lparr>op_origin_id = 1,
     op_retention = \<lparr>rp_durability = Durable, rp_ttl_seconds = ttl, rp_min_replicas = Some n\<rparr>,
     op_access = \<lparr>ap_default_caps = [], ap_allow_reshare = False, ap_allow_derivation = False\<rparr>\<rparr>"

definition gc_record :: origin_record where
  "gc_record = (origin_record_new 1 Image Durable 0)\<lparr>or_representations := [\<lparr>rep_name = ''source'', rep_media_kind = Image,
     rep_mime = None, rep_size_bytes = None, rep_root_blobs = [''blake3:aa'']\<rparr>]\<rparr>"

definition gc_world :: "u64 option \<Rightarrow> pin_state \<Rightarrow> mem_world" where
  "gc_world ttl st = \<lparr>mw_index = mem_index_new\<lparr>mi_origin_counts := [(1, 0)]\<rparr>, mw_origins = [(1, gc_record)],
     mw_policies = [(1, gc_policy ttl 2)],
     mw_pins = [(''pin:1'', \<lparr>pr_pin_id = ''pin:1'', pr_target = PinOrigin 1, pr_requested_by = ''alice'', pr_created_at = 0,
        pr_state = st, pr_min_replicas = None, pr_required_zones = []\<rparr>)],
     mw_derivations = [], mw_shares = [], mw_tombstones = [],
     mw_replicas = [((''blake3:aa'', ''n1''), \<lparr>rr_blob_id = ''blake3:aa'', rr_node_id = ''n1'', rr_state = Healthy, rr_last_seen = 0\<rparr>)],
     mw_blobs = []\<rparr>"

lemma gc_world_inv: "mem_inv (gc_world ttl st)"
  by (simp add: mem_inv_def gc_world_def mem_index_new_def mi_counts_ok_def fp_of_def replicas_keyed_def hwf_def
      count_of_def hget_def gc_record_def origin_record_new_def I64_MAX_def split: option.splits if_splits)

theorem audit_and_gate_witness:
  "audit_origin mem_node 60 5 1 (gc_world None Active) =
     (Ok [\<lparr>ri_blob_id = ''blake3:aa'', ri_required = 2, ri_healthy = 1, ri_missing = 1\<rparr>], gc_world None Active)
   \<and> can_delete_origin_bytes mem_node 60 5 1 (gc_world None Active) = (Ok False, gc_world None Active)"
proof -
  let ?f = "mem_view (gc_world None Active)"
  have "{n. \<exists>rr. f_replicas ?f ''blake3:aa'' n = Some rr \<and> rr_state rr = Healthy \<and> fresh 60 5 rr} = {''n1''}"
    by (auto simp: mem_view_def gc_world_def hget_def fresh_def whole_seconds_def split: if_splits)
  then have "healthy_nodes ?f 60 5 ''blake3:aa'' = 1" by (simp add: healthy_nodes_def)
  moreover have "pinned ?f 1"
    unfolding pinned_def by (rule exI [of _ "''pin:1''"]) (simp add: mem_view_def gc_world_def hget_def)
  ultimately have "origin_deficits ?f 60 5 1 = Ok [\<lparr>ri_blob_id = ''blake3:aa'', ri_required = 2, ri_healthy = 1, ri_missing = 1\<rparr>]"
    by (simp add: origin_deficits_def deficits_def required_replicas_def)
      (simp add: mem_view_def gc_world_def hget_def gc_policy_def gc_record_def)
  then show ?thesis
    using audit_and_gate [OF gc_world_inv, of 60 5 1 None Active] by (simp add: map_ok_def)
qed


section \<open>What a plan contains\<close>

lemma gc_world_view:
  "f_origin_refs (mem_view (gc_world ttl st)) = (\<lambda>_. 0)" "f_origins (mem_view (gc_world ttl st)) 1 = Some gc_record"
  "f_policies (mem_view (gc_world ttl st)) 1 = Some (gc_policy ttl 2)" "\<not> pinned (mem_view (gc_world ttl Released)) 1"
  by (auto simp: mem_view_def gc_world_def hget_def mem_index_new_def count_of_def pinned_def split: if_splits)

lemma sint_high_bit:
  fixes w :: u64
  assumes "2 ^ 63 \<le> unat w"
  shows "sint w < 0"
proof -
  have "int (2 ^ 63) \<le> int (unat w)" using assms by (simp only: of_nat_le_iff)
  then have "2 ^ 63 \<le> uint w" by simp
  moreover have "uint w < 2 ^ 64" using uint_bounded [of w] by simp
  ultimately have "uint w div 2 ^ 63 = 1" by (intro int_div_pos_eq [of _ _ _ "uint w - 2 ^ 63"]) simp_all
  then have "bit (uint w) 63" by (simp add: bit_iff_odd)
  then show ?thesis
    using take_bit_int_less_exp [of 64 "uint w"] by (simp add: sint_uint signed_take_bit_eq_take_bit_minus)
qed

text \<open>A time to live of \<open>2^63\<close> seconds or more is read as a negative one: as soon as nothing
  refers to the origin the planner tombstones it (or panics), however young it is.\<close>

theorem gc_ttl_wraps:
  assumes "mem_inv s" and "f_origin_refs (mem_view s) org = 0" and "\<not> pinned (mem_view s) org"
    and "f_policies (mem_view s) org = Some policy" and "rp_ttl_seconds (op_retention policy) = Some ttl"
    and "2 ^ 63 \<le> unat ttl" and "f_origins (mem_view s) org = Some rec" and "or_created_at rec \<le> now"
  shows "plan_origin mem_node now org s = (Ok [org], s) \<or> plan_origin mem_node now org s = (Panic, s)"
proof -
  obtain l where "pn_list (nd_pins mem_node) org s = (Ok l, s)"
    "(\<forall>p \<in> set l. pr_target p = PinOrigin org) \<longrightarrow> list_ex pin_active l = pinned (mem_view s) org"
    using mem_laws.pins_active [OF assms(1)] by blast
  then have l: "pn_list (nd_pins mem_node) org s = (Ok l, s)" "\<not> list_ex pin_active l"
    using mem_pins_only assms(3) by blast+
  have "sint ttl < 0"
    by (rule sint_high_bit [OF assms(6)])
  then have "or_created_at rec + sint ttl * 1000000000 \<le> now" using assms(8) by simp
  then show ?thesis
    using assms l mem_laws.get_origin_refs [OF assms(1), of org] mem_laws.get_policy [OF assms(1), of org]
      mem_laws.get_origin [OF assms(1), of org]
    by (simp add: plan_origin_def act_simps time_add_seconds_def Let_def)
qed

theorem gc_ttl_wraps_witness:
  "plan_origin mem_node 0 1 (gc_world (Some (- 1)) Released) = (Ok [1], gc_world (Some (- 1)) Released)"
proof -
  have "plan_origin mem_node 0 1 (gc_world (Some (- 1)) Released) \<noteq> (Panic, gc_world (Some (- 1)) Released)"
    by (simp add: plan_origin_def gc_world_def mem_node_def liftM_def bindM_def mem_ops hget_def hvals_def
        mem_index_new_def count_of_def pin_active_def gc_policy_def gc_record_def origin_record_new_def
        time_add_seconds_def TIME_MIN_def TIME_MAX_def)
  then show ?thesis
    using gc_ttl_wraps [OF gc_world_inv, of "Some (- 1)" Released 1 "gc_policy (Some (- 1)) 2" "- 1" gc_record 0]
    by (simp add: gc_world_view unsigned_minus_1_eq_mask mask_eq_exp_minus_1)
      (simp add: gc_policy_def gc_record_def origin_record_new_def)
qed

end
