(* ===== verification/Sodl_Collect.thy ===== *)
theory Sodl_Collect
  imports Sodl_Gc
begin

text \<open>
  What a collection achieves: the counterpart of the safety of plans. The plan is computed as a
  function of what the node lists and holds, so that it is known when a collection succeeds and
  that it then leaves no listed garbage; \<open>crates/sodl-gc/src/lib.rs\<close>.
\<close>

section \<open>The plan as a function\<close>

definition origin_plan :: "facts \<Rightarrow> time \<Rightarrow> origin_id \<Rightarrow> origin_id list res" where
  "origin_plan f now org =
     (if f_origin_refs f org \<noteq> 0 \<or> pinned f org then Ok []
      else bindR (of_option NotFound (f_policies f org)) (\<lambda>policy.
        case rp_ttl_seconds (op_retention policy) of
          None \<Rightarrow> Ok [org]
        | Some ttl \<Rightarrow> bindR (of_option NotFound (f_origins f org)) (\<lambda>rec.
            bindR (time_add_seconds (or_created_at rec) (sint ttl)) (\<lambda>expires.
              Ok (if now < expires then [] else [org])))))"

text \<open>An origin that does not stop the planner: it is in use, or its policy is there and its time to live,
  if any, can be added to the date of its record.\<close>

definition plannable :: "facts \<Rightarrow> origin_id \<Rightarrow> bool" where
  "plannable f org \<longleftrightarrow> f_origin_refs f org \<noteq> 0 \<or> pinned f org
     \<or> (case f_policies f org of None \<Rightarrow> False
        | Some policy \<Rightarrow> (case rp_ttl_seconds (op_retention policy) of None \<Rightarrow> True
            | Some ttl \<Rightarrow> (case f_origins f org of None \<Rightarrow> False
                | Some rec \<Rightarrow> (let e = or_created_at rec + sint ttl * 1000000000 in TIME_MIN \<le> e \<and> e \<le> TIME_MAX))))"

lemma origin_plan_cases:
  "plannable f org \<Longrightarrow> origin_plan f now org = Ok (if collectable f now org then [org] else [])"
  "\<not> plannable f org \<Longrightarrow> origin_plan f now org = Err NotFound \<or> origin_plan f now org = Panic"
proof -
  note defs = origin_plan_def plannable_def collectable_def ttl_elapsed_def time_add_seconds_def Let_def
  show "plannable f org \<Longrightarrow> origin_plan f now org = Ok (if collectable f now org then [org] else [])"
    by (cases "f_policies f org"; cases "rp_ttl_seconds (op_retention (the (f_policies f org)))"; cases "f_origins f org")
      (auto simp: defs)
  show "\<not> plannable f org \<Longrightarrow> origin_plan f now org = Err NotFound \<or> origin_plan f now org = Panic"
    by (cases "f_policies f org"; cases "rp_ttl_seconds (op_retention (the (f_policies f org)))"; cases "f_origins f org")
      (auto simp: defs)
qed

lemma mapR_split: "(\<exists>ys. mapR f xs = Ok ys) \<longleftrightarrow> (\<forall>x \<in> set xs. \<exists>y. f x = Ok y)"
  by (induction xs) (auto simp: bindR_eq_Ok)

lemma concat_singles: "concat (map (\<lambda>x. if P x then [x] else []) xs) = filter P xs"
  by (induction xs) simp_all

definition origin_tomb :: "time \<Rightarrow> uuid \<times> origin_id \<Rightarrow> tombstone" where
  "origin_tomb now = (\<lambda>(u, org). \<lparr>tb_tombstone_id = tomb_id u, tb_kind = TombOrigin, tb_origin_id = Some org, tb_blob_id = None,
      tb_reason = ''gc_origin_candidate'', tb_created_at = now\<rparr>)"

definition blob_tomb :: "time \<Rightarrow> uuid \<times> blob_id \<Rightarrow> tombstone" where
  "blob_tomb now = (\<lambda>(u, b). \<lparr>tb_tombstone_id = tomb_id u, tb_kind = TombBlob, tb_origin_id = None, tb_blob_id = Some b,
      tb_reason = ''gc_blob_refcount_zero'', tb_created_at = now\<rparr>)"

text \<open>What a collection that succeeds leaves, if the node lists the origins \<open>os\<close> and the blobs \<open>bs\<close>: one
  tombstone for each origin that may go and each blob without references, under consecutive identifiers,
  and the bytes of exactly these blobs are gone.\<close>

definition collect_facts :: "origin_id list \<Rightarrow> blob_id list \<Rightarrow> time \<Rightarrow> (nat \<Rightarrow> uuid) \<Rightarrow> facts \<Rightarrow> facts" where
  "collect_facts os bs now ids f =
     (let gone = filter (collectable f now) os; dead = filter (\<lambda>b. f_blob_refs f b = 0) bs; n = length gone in
      f\<lparr>f_tombstones := f_tombstones f + mset (map (origin_tomb now) (zip (map ids [0..<n]) gone))
           + mset (map (blob_tomb now) (zip (map ids [n..<n + length dead]) dead)),
        f_blobs := (\<lambda>b. if b \<in> set dead then None else f_blobs f b)\<rparr>)"

context total_node begin

lemma plan_origin_eq:
  assumes s: "inv s" and only: "\<And>l. pn_list (nd_pins nd) org s = (Ok l, s) \<Longrightarrow> \<forall>p \<in> set l. pr_target p = PinOrigin org"
  shows "plan_origin nd now org s = (origin_plan (view s) now org, s)"
proof -
  obtain l where l: "pn_list (nd_pins nd) org s = (Ok l, s)"
    "(\<forall>p \<in> set l. pr_target p = PinOrigin org) \<longrightarrow> list_ex pin_active l = pinned (view s) org"
    using pins_active [OF s] by blast
  have act: "list_ex pin_active l = pinned (view s) org" using l only by blast
  show ?thesis
    using l(1) act get_origin_refs [OF s, of org] get_policy [OF s, of org] get_origin [OF s, of org]
    by (cases "f_policies (view s) org"; cases "f_origins (view s) org")
      (auto simp: plan_origin_def origin_plan_def act_simps time_add_seconds_def Let_def split: option.split)
qed

lemma gc_plan_eq:
  assumes s: "inv s" and os: "si_list_origins (nd_scan nd) s = (Ok os, s)" and bs: "si_list_blobs (nd_scan nd) s = (Ok bs, s)"
    and only: "\<And>org l. pn_list (nd_pins nd) org s = (Ok l, s) \<Longrightarrow> \<forall>p \<in> set l. pr_target p = PinOrigin org"
  shows "gc_plan nd now s = (bindR (mapR (origin_plan (view s) now) os) (\<lambda>tombs.
     Ok \<lparr>gp_blob_delete = filter (\<lambda>b. f_blob_refs (view s) b = 0) bs, gp_origin_tombstone = concat tombs\<rparr>), s)"
proof -
  have po: "mapM (plan_origin nd now) os s = (mapR (origin_plan (view s) now) os, s)"
    by (rule mapM_pure) (rule plan_origin_eq [OF s only])
  have pb: "mapM (plan_blob nd) bs s = (Ok (map (\<lambda>b. if f_blob_refs (view s) b = 0 then [b] else []) bs), s)"
    by (rule mapM_read) (rule plan_blob_eq [OF s])
  show ?thesis
    using os bs po pb
    by (cases "mapR (origin_plan (view s) now) os") (simp_all add: gc_plan_def act_simps concat_singles)
qed

lemma tombstones_added:
  "inv s \<Longrightarrow> \<exists>t. forM xs (gc_tombstone_origin nd now) s = (Ok (), t) \<and> inv t
    \<and> view t = (view s)\<lparr>f_tombstones := f_tombstones (view s) + mset (map (origin_tomb now) xs)\<rparr>"
proof (induction xs arbitrary: s)
  case Nil
  then show ?case by simp
next
  case (Cons x xs)
  obtain s1 where s1: "gc_tombstone_origin nd now x s = (Ok (), s1)" "inv s1"
    "view s1 = (view s)\<lparr>f_tombstones := add_mset (origin_tomb now x) (f_tombstones (view s))\<rparr>"
    using put_tombstone [OF Cons.prems] by (cases x) (auto simp: gc_tombstone_origin_def origin_tomb_def)
  obtain t where "forM xs (gc_tombstone_origin nd now) s1 = (Ok (), t)" "inv t"
    "view t = (view s1)\<lparr>f_tombstones := f_tombstones (view s1) + mset (map (origin_tomb now) xs)\<rparr>"
    using Cons.IH [OF s1(2)] by blast
  then show ?case using s1 by (auto simp: act_simps)
qed

lemma deletes_recorded:
  "inv s \<Longrightarrow> \<exists>t. forM xs (gc_delete_blob nd now) s = (Ok (), t) \<and> inv t
    \<and> view t = (view s)\<lparr>f_tombstones := f_tombstones (view s) + mset (map (blob_tomb now) xs),
        f_blobs := (\<lambda>b. if b \<in> snd ` set xs then None else f_blobs (view s) b)\<rparr>"
proof (induction xs arbitrary: s)
  case Nil
  then show ?case by simp
next
  case (Cons x xs)
  obtain u b where x: "x = (u, b)" by force
  obtain s1 where s1: "ts_put (nd_tombstones nd) (blob_tomb now x) s = (Ok (), s1)" "inv s1"
    "view s1 = (view s)\<lparr>f_tombstones := add_mset (blob_tomb now x) (f_tombstones (view s))\<rparr>"
    using put_tombstone [OF Cons.prems] by blast
  obtain s2 where s2: "bs_delete (nd_store nd) b s1 = (Ok (), s2)" "inv s2"
    "view s2 = (view s1)\<lparr>f_blobs := (f_blobs (view s1))(b := None)\<rparr>"
    using store_delete [OF s1(2) all_valid] by blast
  have step: "gc_delete_blob nd now x s = (Ok (), s2)"
    using s1(1) s2(1) by (simp add: x blob_tomb_def gc_delete_blob_def act_simps)
  obtain t where t: "forM xs (gc_delete_blob nd now) s2 = (Ok (), t)" "inv t"
    "view t = (view s2)\<lparr>f_tombstones := f_tombstones (view s2) + mset (map (blob_tomb now) xs),
        f_blobs := (\<lambda>b. if b \<in> snd ` set xs then None else f_blobs (view s2) b)\<rparr>"
    using Cons.IH [OF s2(2)] by blast
  have "view t = (view s)\<lparr>f_tombstones := f_tombstones (view s) + mset (map (blob_tomb now) (x # xs)),
        f_blobs := (\<lambda>c. if c \<in> snd ` set (x # xs) then None else f_blobs (view s) c)\<rparr>"
    using t(3) s2(3) s1(3) x by (simp add: fun_eq_iff)
  then show ?case using step t(1,2) by (auto simp: act_simps)
qed

text \<open>A collection succeeds exactly if every listed origin can be planned, and then leaves exactly
  \<open>collect_facts\<close>: no listed garbage is left and every collectable origin that is listed has a tombstone.\<close>

lemma gc_collect_exact:
  assumes s: "inv s" and os: "si_list_origins (nd_scan nd) s = (Ok os, s)" and bs: "si_list_blobs (nd_scan nd) s = (Ok bs, s)"
    and only: "\<And>org l. pn_list (nd_pins nd) org s = (Ok l, s) \<Longrightarrow> \<forall>p \<in> set l. pr_target p = PinOrigin org"
    and ok: "\<forall>org \<in> set os. plannable (view s) org"
  shows "\<exists>t. gc_collect nd now ids s = (Ok (), t) \<and> inv t \<and> view t = collect_facts os bs now ids (view s)"
proof -
  let ?dead = "filter (\<lambda>b. f_blob_refs (view s) b = 0) bs" and ?orgs = "filter (collectable (view s) now) os"
  define n where "n = length ?orgs"
  let ?xs = "zip (map ids [0..<n]) ?orgs" and ?ys = "zip (map ids [n..<n + length ?dead]) ?dead"
  have "mapR (origin_plan (view s) now) os = Ok (map (\<lambda>org. if collectable (view s) now org then [org] else []) os)"
    by (rule mapR_Ok) (use ok origin_plan_cases(1) in blast)
  then have plan: "gc_plan nd now s = (Ok \<lparr>gp_blob_delete = ?dead, gp_origin_tombstone = ?orgs\<rparr>, s)"
    using gc_plan_eq [OF s os bs only] by (simp add: concat_singles)
  obtain s1 where s1: "forM ?xs (gc_tombstone_origin nd now) s = (Ok (), s1)" "inv s1"
    "view s1 = (view s)\<lparr>f_tombstones := f_tombstones (view s) + mset (map (origin_tomb now) ?xs)\<rparr>"
    using tombstones_added [OF s] by blast
  obtain t where t: "forM ?ys (gc_delete_blob nd now) s1 = (Ok (), t)" "inv t"
    "view t = (view s1)\<lparr>f_tombstones := f_tombstones (view s1) + mset (map (blob_tomb now) ?ys),
        f_blobs := (\<lambda>b. if b \<in> snd ` set ?ys then None else f_blobs (view s1) b)\<rparr>"
    using deletes_recorded [OF s1(2)] by blast
  have run: "gc_collect nd now ids s = (Ok (), t)"
    using plan s1(1) t(1) by (simp add: gc_collect_def gc_execute_def act_simps Let_def n_def)
  have ys: "snd ` set ?ys = set ?dead"
    by (metis (no_types, lifting) diff_add_inverse length_map length_upt list.set_map map_snd_zip)
  have "view t = collect_facts os bs now ids (view s)"
    unfolding t(3) s1(3) ys by (simp add: collect_facts_def Let_def n_def cong: if_cong)
  then show ?thesis using run t(2) by blast
qed

lemma gc_collect_live:
  assumes s: "inv s" and os: "si_list_origins (nd_scan nd) s = (Ok os, s)" and bs: "si_list_blobs (nd_scan nd) s = (Ok bs, s)"
    and only: "\<And>org l. pn_list (nd_pins nd) org s = (Ok l, s) \<Longrightarrow> \<forall>p \<in> set l. pr_target p = PinOrigin org"
    and ok: "\<forall>org \<in> set os. plannable (view s) org"
  shows "\<exists>t. gc_collect nd now ids s = (Ok (), t)
    \<and> f_blobs (view t) = (\<lambda>b. if b \<in> set bs \<and> f_blob_refs (view s) b = 0 then None else f_blobs (view s) b)
    \<and> (\<forall>org \<in> set os. collectable (view s) now org \<longrightarrow> (\<exists>u. origin_tomb now (u, org) \<in># f_tombstones (view t)))"
proof -
  let ?orgs = "filter (collectable (view s) now) os"
  let ?xs = "zip (map ids [0..<length ?orgs]) ?orgs"
  obtain t where t: "gc_collect nd now ids s = (Ok (), t)" "view t = collect_facts os bs now ids (view s)"
    using gc_collect_exact [OF assms] by blast
  have "\<exists>u. origin_tomb now (u, org) \<in># f_tombstones (view t)" if org: "org \<in> set ?orgs" for org
  proof -
    obtain i where i: "i < length ?orgs" "?orgs ! i = org" using org unfolding in_set_conv_nth by blast
    then have "?xs ! i = (ids i, org)" "i < length ?xs" by simp_all
    then have "(ids i, org) \<in> set ?xs" by (metis nth_mem)
    then have "origin_tomb now (ids i, org) \<in># mset (map (origin_tomb now) ?xs)" by force
    then show ?thesis unfolding t(2) collect_facts_def Let_def by (intro exI [of _ "ids i"]) simp
  qed
  moreover have "f_blobs (view t) = (\<lambda>b. if b \<in> set bs \<and> f_blob_refs (view s) b = 0 then None else f_blobs (view s) b)"
    unfolding t(2) by (auto simp: collect_facts_def Let_def fun_eq_iff)
  ultimately show ?thesis using t(1) by auto
qed

lemma gc_collect_stuck:
  assumes s: "inv s" and os: "si_list_origins (nd_scan nd) s = (Ok os, s)" and bs: "si_list_blobs (nd_scan nd) s = (Ok bs, s)"
    and only: "\<And>org l. pn_list (nd_pins nd) org s = (Ok l, s) \<Longrightarrow> \<forall>p \<in> set l. pr_target p = PinOrigin org"
    and bad: "org \<in> set os" "\<not> plannable (view s) org"
  shows "\<exists>r. r \<noteq> Ok () \<and> gc_collect nd now ids s = (r, s)"
proof -
  have "\<not> (\<exists>ys. mapR (origin_plan (view s) now) os = Ok ys)"
  proof
    assume "\<exists>ys. mapR (origin_plan (view s) now) os = Ok ys"
    then obtain y where "origin_plan (view s) now org = Ok y" using bad(1) unfolding mapR_split by blast
    then show False using origin_plan_cases(2) [OF bad(2), of now] by auto
  qed
  then show ?thesis
    using gc_plan_eq [OF s os bs only, of now]
    by (cases "mapR (origin_plan (view s) now) os") (auto simp: gc_collect_def act_simps)
qed

end


section \<open>What is planned on the in-memory node\<close>

lemma mem_listed:
  "si_list_origins (nd_scan mem_node) w = (Ok (hkeys (mi_origin_counts (mw_index w))), w)"
  "si_list_blobs (nd_scan mem_node) w = (Ok (hkeys (mi_blob_counts (mw_index w))), w)"
  by (simp_all add: mem_node_def liftM_def mem_list_origins_def mem_list_blobs_def)

text \<open>The time to live as the policy means it, an unsigned number of seconds.\<close>

definition unclaimed :: "facts \<Rightarrow> origin_id \<Rightarrow> bool" where
  "unclaimed f org \<longleftrightarrow> f_origin_refs f org = 0 \<and> \<not> pinned f org \<and> f_policies f org \<noteq> None"

definition time_to_live :: "facts \<Rightarrow> origin_id \<Rightarrow> nat option" where
  "time_to_live f org = (case f_policies f org of None \<Rightarrow> None
     | Some policy \<Rightarrow> map_option unat (rp_ttl_seconds (op_retention policy)))"

definition outlived :: "facts \<Rightarrow> time \<Rightarrow> origin_id \<Rightarrow> nat \<Rightarrow> bool" where
  "outlived f now org secs \<longleftrightarrow> (case f_origins f org of None \<Rightarrow> False
     | Some rec \<Rightarrow> or_created_at rec + int secs * 1000000000 \<le> now)"

lemma sint_small:
  fixes w :: u64
  assumes "unat w < 2 ^ 63"
  shows "sint w = int (unat w)"
proof -
  have "int (unat w) < int (2 ^ 63)" using assms by (simp only: of_nat_less_iff)
  then have "uint w < 2 ^ 63" by simp
  moreover have "- (2 ^ 63) \<le> uint w" by (rule order_trans [of _ 0]) simp_all
  ultimately have "signed_take_bit 63 (uint w) = uint w" by (intro signed_take_bit_int_eq_self)
  then show ?thesis by (simp add: sint_uint)
qed

lemma collectable_time:
  "collectable f now org \<longleftrightarrow> unclaimed f org \<and> (case time_to_live f org of None \<Rightarrow> True
     | Some secs \<Rightarrow> if secs < 2 ^ 63 then outlived f now org secs
         else (\<exists>rec ttl. f_origins f org = Some rec \<and> unat (ttl :: u64) = secs \<and> or_created_at rec + sint ttl * 1000000000 \<le> now))"
  by (auto simp: collectable_def ttl_elapsed_def unclaimed_def time_to_live_def outlived_def sint_small
      dest: unsigned_word_eqI split: option.splits)

text \<open>C15: What the collector plans. On the in-memory node, and without changing it, a plan deletes exactly
  the blobs with a reference count that is zero. It tombstones an origin with a reference count exactly if
  that count is zero, no unreleased pin holds it, it has a policy, and the time to live the policy gives,
  if any, has passed since the date of its record. The exception is a time to live of \<open>2^63\<close> seconds or more,
  which the code casts to a negative number: then the origin is tombstoned whatever its age.\<close>

theorem gc_plan_exact:
  assumes "mem_inv w" and "gc_plan mem_node now w = (Ok plan, t)"
  shows "t = w
    \<and> (\<forall>b. b \<in> set (gp_blob_delete plan) \<longleftrightarrow> b \<in> set (hkeys (mi_blob_counts (mw_index w))) \<and> f_blob_refs (mem_view w) b = 0)
    \<and> (\<forall>org. org \<in> set (gp_origin_tombstone plan) \<longrightarrow> org \<in> set (hkeys (mi_origin_counts (mw_index w))) \<and> unclaimed (mem_view w) org)
    \<and> (\<forall>org. org \<in> set (hkeys (mi_origin_counts (mw_index w))) \<and> unclaimed (mem_view w) org \<longrightarrow>
        (case time_to_live (mem_view w) org of
           None \<Rightarrow> org \<in> set (gp_origin_tombstone plan)
         | Some secs \<Rightarrow>
             if secs < 2 ^ 63 then org \<in> set (gp_origin_tombstone plan) \<longleftrightarrow> outlived (mem_view w) now org secs
             else \<forall>rec. f_origins (mem_view w) org = Some rec \<and> or_created_at rec \<le> now \<longrightarrow> org \<in> set (gp_origin_tombstone plan)))"
proof -
  let ?f = "mem_view w" and ?os = "hkeys (mi_origin_counts (mw_index w))"
  have eq: "gc_plan mem_node now w = (bindR (mapR (origin_plan ?f now) ?os) (\<lambda>tombs.
     Ok \<lparr>gp_blob_delete = filter (\<lambda>b. f_blob_refs ?f b = 0) (hkeys (mi_blob_counts (mw_index w))),
       gp_origin_tombstone = concat tombs\<rparr>), w)"
    by (rule mem_total.gc_plan_eq [OF assms(1) mem_listed]) (rule mem_pins_only)
  then obtain ys where ys: "mapR (origin_plan ?f now) ?os = Ok ys"
    using assms(2) by (cases "mapR (origin_plan ?f now) ?os") auto
  have "plannable ?f org" if org: "org \<in> set ?os" for org
  proof -
    have "\<exists>y. origin_plan ?f now org = Ok y"
      using mapR_split [of "origin_plan ?f now" ?os] ys org by auto
    then show ?thesis using origin_plan_cases(2) [of ?f org now] by (cases "plannable ?f org") auto
  qed
  then have "mapR (origin_plan ?f now) ?os = Ok (map (\<lambda>org. if collectable ?f now org then [org] else []) ?os)"
    by (intro mapR_Ok) (rule origin_plan_cases(1))
  then have plan: "t = w" "gp_blob_delete plan = filter (\<lambda>b. f_blob_refs ?f b = 0) (hkeys (mi_blob_counts (mw_index w)))"
    "gp_origin_tombstone plan = filter (collectable ?f now) ?os"
    using eq assms(2) by (auto simp: concat_singles)
  have wrap: "collectable ?f now org"
    if a: "unclaimed ?f org" "time_to_live ?f org = Some secs" "\<not> secs < 2 ^ 63" "f_origins ?f org = Some rec" "or_created_at rec \<le> now"
    for org secs rec
  proof -
    obtain ttl where ttl: "unat (ttl :: u64) = secs" using a(2) by (auto simp: time_to_live_def split: option.splits)
    then have "sint ttl < 0" using sint_high_bit [of ttl] a(3) by simp
    then have "or_created_at rec + sint ttl * 1000000000 \<le> now" using a(5) by simp
    then show ?thesis unfolding collectable_time using a(1-4) ttl by auto
  qed
  show ?thesis
  proof (intro conjI allI impI)
    show "t = w" by (rule plan(1))
  next
    fix org assume h: "org \<in> set ?os \<and> unclaimed ?f org"
    show "case time_to_live ?f org of None \<Rightarrow> org \<in> set (gp_origin_tombstone plan)
       | Some secs \<Rightarrow> if secs < 2 ^ 63 then org \<in> set (gp_origin_tombstone plan) \<longleftrightarrow> outlived ?f now org secs
           else \<forall>rec. f_origins ?f org = Some rec \<and> or_created_at rec \<le> now \<longrightarrow> org \<in> set (gp_origin_tombstone plan)"
      using h wrap [of org] by (cases "time_to_live ?f org") (simp_all add: plan(3) collectable_time)
  qed (auto simp: plan(2,3) collectable_time)
qed

theorem gc_plan_exact_witness:
  "\<exists>p q t u. gc_plan mem_node 5 (gc_world (Some 10) Released) = (Ok p, t) \<and> gp_origin_tombstone p = []
     \<and> gc_plan mem_node 5 (gc_world (Some (- 1)) Released) = (Ok q, u) \<and> set (gp_origin_tombstone q) = {1}"
proof -
  have listed: "hkeys (mi_origin_counts (mw_index (gc_world ttl Released))) = [1]" for ttl
    by (simp add: gc_world_def mem_index_new_def hkeys_def)
  have free: "unclaimed (mem_view (gc_world ttl Released)) 1" for ttl
    by (simp add: unclaimed_def gc_world_view)
  have ttl: "time_to_live (mem_view (gc_world (Some k) Released)) 1 = Some (unat k)" for k
    by (simp add: time_to_live_def gc_world_view gc_policy_def)
  have young: "\<not> outlived (mem_view (gc_world ttl Released)) 5 1 10" for ttl
    by (simp add: outlived_def gc_world_view gc_record_def origin_record_new_def)
  have run: "\<exists>p t. gc_plan mem_node 5 (gc_world (Some k) Released) = (Ok p, t)" if "k = 10 \<or> k = - 1" for k
    using that
    by (auto simp: gc_plan_def plan_origin_def gc_world_def mem_node_def liftM_def bindM_def mem_ops hget_def hkeys_def hvals_def
        mem_index_new_def count_of_def pin_active_def gc_policy_def gc_record_def origin_record_new_def time_add_seconds_def TIME_MIN_def TIME_MAX_def)
  obtain p t where p: "gc_plan mem_node 5 (gc_world (Some 10) Released) = (Ok p, t)" using run [of 10] by blast
  obtain q u where q: "gc_plan mem_node 5 (gc_world (Some (- 1)) Released) = (Ok q, u)" using run [of "- 1"] by blast
  have "set (gp_origin_tombstone p) \<subseteq> {1}" "1 \<notin> set (gp_origin_tombstone p)"
    using gc_plan_exact [OF gc_world_inv p] listed free [of "Some 10"] ttl [of 10] young by auto
  moreover have "set (gp_origin_tombstone q) \<subseteq> {1}" "1 \<in> set (gp_origin_tombstone q)"
    using gc_plan_exact [OF gc_world_inv q] listed free [of "Some (- 1)"] ttl [of "- 1"]
    by (auto simp: gc_world_view gc_record_def origin_record_new_def unsigned_minus_1_eq_mask mask_eq_exp_minus_1)
  ultimately show ?thesis using p q by (metis (no_types, opaque_lifting) empty_iff insertE list.set_sel(1) set_empty subset_empty subset_insert subset_singletonD)
qed


section \<open>The in-memory node\<close>

text \<open>C16: Garbage is collected, or nothing is. On the in-memory node a collection succeeds exactly if every
  origin with a reference count is in use or has a policy (and, under a time to live, a record and a date
  in range); it then deletes every blob whose count has gone to zero and no other, and leaves a tombstone
  of every origin that may be collected. Otherwise, one such origin is enough, every collection fails and
  changes nothing.\<close>

theorem garbage_is_collected:
  assumes "mem_inv w"
  shows "if list_all (plannable (mem_view w)) (hkeys (mi_origin_counts (mw_index w)))
    then \<exists>t. gc_collect mem_node now ids w = (Ok (), t)
      \<and> (\<forall>b. f_blobs (mem_view t) b =
            (if b \<in> set (hkeys (mi_blob_counts (mw_index w))) \<and> f_blob_refs (mem_view w) b = 0 then None else f_blobs (mem_view w) b))
      \<and> list_all (\<lambda>org. if collectable (mem_view w) now org
            then \<exists>u. origin_tomb now (u, org) \<in># f_tombstones (mem_view t) else True) (hkeys (mi_origin_counts (mw_index w)))
    else \<exists>r. r \<noteq> Ok () \<and> gc_collect mem_node now ids w = (r, w)"
proof -
  note os = mem_listed(1) [of w] and bs = mem_listed(2) [of w]
  have only: "\<forall>p \<in> set l. pr_target p = PinOrigin org" if "pn_list (nd_pins mem_node) org w = (Ok l, w)" for org l
    by (rule mem_pins_only [OF that])
  show ?thesis
  proof (cases "list_all (plannable (mem_view w)) (hkeys (mi_origin_counts (mw_index w)))")
    case True
    then have "\<forall>org \<in> set (hkeys (mi_origin_counts (mw_index w))). plannable (mem_view w) org" by (simp only: list_all_iff)
    from mem_total.gc_collect_live [OF assms os bs only this, where now = now and ids = ids] show ?thesis
      using True by (auto simp: list_all_iff)
  next
    case False
    then obtain org where "org \<in> set (hkeys (mi_origin_counts (mw_index w)))" "\<not> plannable (mem_view w) org"
      unfolding list_all_iff by blast
    from mem_total.gc_collect_stuck [OF assms os bs only this, where now = now and ids = ids] show ?thesis
      using False by simp
  qed
qed

text \<open>A released origin with an unreferenced blob is collected; one listed origin without a policy, such as the
  source of a share of an origin that was never created, stops the collection.\<close>

definition garbage_world :: "(origin_id \<times> int) list \<Rightarrow> mem_world" where
  "garbage_world counts = (gc_world None Released)\<lparr>mw_index := mem_index_new\<lparr>mi_origin_counts := counts, mi_blob_counts := [(''blake3:aa'', 0)]\<rparr>,
     mw_blobs := [(''blake3:aa'', [7])]\<rparr>"

lemma garbage_world_inv: "mem_inv (garbage_world [(1, 0)])" "mem_inv (garbage_world [(2, 0), (1, 0)])"
  by (simp_all add: mem_inv_def garbage_world_def gc_world_def mem_index_new_def mi_counts_ok_def fp_of_def replicas_keyed_def hwf_def
      count_of_def hget_def gc_record_def origin_record_new_def I64_MAX_def split: option.splits if_splits)

lemma garbage_world_view:
  "f_policies (mem_view (garbage_world counts)) = (\<lambda>org. if org = 1 then Some (gc_policy None 2) else None)"
  "\<not> pinned (mem_view (garbage_world counts)) org" "f_blob_refs (mem_view (garbage_world counts)) b = 0"
  "f_blobs (mem_view (garbage_world counts)) = (\<lambda>b. if b = ''blake3:aa'' then Some [7] else None)"
  "mi_origin_counts (mw_index (garbage_world counts)) = counts" "mi_blob_counts (mw_index (garbage_world counts)) = [(''blake3:aa'', 0)]"
  by (auto simp: mem_view_def garbage_world_def gc_world_def hget_def mem_index_new_def count_of_def pinned_def fun_eq_iff split: if_splits)

theorem garbage_is_collected_witness:
  "(\<exists>t. gc_collect mem_node 5 of_nat (garbage_world [(1, 0)]) = (Ok (), t) \<and> f_blobs (mem_view t) ''blake3:aa'' = None)
   \<and> (\<exists>r. r \<noteq> Ok () \<and> gc_collect mem_node 5 of_nat (garbage_world [(2, 0), (1, 0)]) = (r, garbage_world [(2, 0), (1, 0)]))"
proof
  have "plannable (mem_view (garbage_world [(1, 0)])) 1"
    by (simp add: plannable_def garbage_world_view gc_policy_def)
  then show "\<exists>t. gc_collect mem_node 5 of_nat (garbage_world [(1, 0)]) = (Ok (), t) \<and> f_blobs (mem_view t) ''blake3:aa'' = None"
    using garbage_is_collected [OF garbage_world_inv(1), of 5 of_nat] by (auto simp: garbage_world_view hkeys_def)
  have "f_origin_refs (mem_view (garbage_world [(2, 0), (1, 0)])) 2 = 0"
    by (simp add: mem_view_def garbage_world_def count_of_def hget_def)
  then have "\<not> plannable (mem_view (garbage_world [(2, 0), (1, 0)])) 2"
    by (simp add: plannable_def garbage_world_view)
  then show "\<exists>r. r \<noteq> Ok () \<and> gc_collect mem_node 5 of_nat (garbage_world [(2, 0), (1, 0)]) = (r, garbage_world [(2, 0), (1, 0)])"
    using garbage_is_collected [OF garbage_world_inv(2), of 5 of_nat] by (simp add: garbage_world_view hkeys_def)
qed

end
