(* ===== verification/Sodl_Events.thy ===== *)
theory Sodl_Events
  imports Sodl_Upload Sodl_Collect
begin

text \<open>
  The operations of the service and the garbage collector as events of one node, and what each
  of them does to the facts the node holds. \<open>event_answer\<close> is the specification: what each operation
  answers and leaves, as a relation on facts. \<open>event_effect\<close> is the part of it that the invariants of
  histories need, and leaves open what a collection finds. Every node that satisfies the contract
  implements both.
\<close>

section \<open>Events\<close>

text \<open>The arguments are those of the operations; times and UUIDs are the ones they draw.\<close>

datatype event =
    EvUpload origin_id time uuid time upload_request
  | EvShare uuid time time uuid time principal_id principal_id origin_id "capability list"
  | EvDerive uuid time uuid time origin_id derivation_kind media_kind
  | EvReleaseShare share_id
  | EvPin uuid time uuid time principal_id origin_id u8
  | EvUnpin string
  | EvTombstone time origin_id string
  | EvCollect time "nat \<Rightarrow> uuid"
  | EvRead origin_id

fun perform :: "hashes \<Rightarrow> chunk_manifest codec \<Rightarrow> 'w service \<Rightarrow> event \<Rightarrow> ('w, unit) op" where
  "perform H J svc (EvUpload org t_rec u t_edge req) = voidM (upload H J svc org t_rec u t_edge req)"
| "perform H J svc (EvShare us anchor t_rec u t_edge src dst org caps) =
     voidM (share H svc us anchor t_rec u t_edge src dst org caps)"
| "perform H J svc (EvDerive ud t_rec u t_edge org kind media) = voidM (derive svc ud t_rec u t_edge org kind media)"
| "perform H J svc (EvReleaseShare sid) = release_share svc sid"
| "perform H J svc (EvPin up t_rec u t_edge who org n) = voidM (pin_origin svc up t_rec u t_edge who org n)"
| "perform H J svc (EvUnpin pid) = unpin svc pid"
| "perform H J svc (EvTombstone now org reason) = tombstone_origin svc now org reason"
| "perform H J svc (EvCollect now ids) = gc_collect (sv_node svc) now ids"
| "perform H J svc (EvRead org) = voidM (get_payload H J svc org)"


section \<open>Effects\<close>

definition plain_edge :: "origin_id \<Rightarrow> uuid \<Rightarrow> time \<Rightarrow> ref_kind \<Rightarrow> lineage_edge" where
  "plain_edge org u now kind = \<lparr>le_edge_id = edge_id_of u, le_origin_id = org, le_blob_id = None,
     le_kind = kind, le_created_at = now\<rparr>"

text \<open>One more reference to an origin, recorded as an edge.\<close>

definition ref_effect :: "origin_id \<Rightarrow> uuid \<Rightarrow> time \<Rightarrow> ref_kind \<Rightarrow> facts \<Rightarrow> facts" where
  "ref_effect org u now kind f =
     (org_refs org (f_origin_refs f org + 1) f)\<lparr>f_edges := add_mset (plain_edge org u now kind) (f_edges f)\<rparr>"

definition deref_effect :: "origin_id \<Rightarrow> facts \<Rightarrow> facts" where
  "deref_effect org f = org_refs org (saturating_dec (f_origin_refs f org)) f"

definition new_share ::
  "share_id \<Rightarrow> time \<Rightarrow> time \<Rightarrow> principal_id \<Rightarrow> principal_id \<Rightarrow> origin_id \<Rightarrow> capability list
     \<Rightarrow> string \<Rightarrow> string option \<times> string option \<Rightarrow> share_record" where
  "new_share sid anchor t_rec src dst org caps digest sig =
     \<lparr>sr_schema = SODL_SCHEMA_VERSION, sr_share_id = sid, sr_origin_id = org,
      sr_derivation_id = None, sr_from_principal = src, sr_to_principal = dst,
      sr_created_at = t_rec, sr_capabilities = caps, sr_proof_digest = digest,
      sr_proof_created_at = anchor, sr_proof_key_id = fst sig, sr_proof_sig_b64 = snd sig\<rparr>"

definition new_pin :: "string \<Rightarrow> time \<Rightarrow> principal_id \<Rightarrow> origin_id \<Rightarrow> u8 \<Rightarrow> pin_record" where
  "new_pin pid t_rec who org n = \<lparr>pr_pin_id = pid, pr_target = PinOrigin org, pr_requested_by = who,
     pr_created_at = t_rec, pr_state = Pending, pr_min_replicas = Some n, pr_required_zones = []\<rparr>"

text \<open>Unpinning and releasing know the pin or the share, not whether it was released before.\<close>

definition unpin_effect :: "string \<Rightarrow> facts \<Rightarrow> facts" where
  "unpin_effect pid f = (case f_pins f pid of
     None \<Rightarrow> f
   | Some p \<Rightarrow> (case pr_target p of PinOrigin org \<Rightarrow> deref_effect org | _ \<Rightarrow> (\<lambda>f. f))
       (f\<lparr>f_pins := (f_pins f)(pid \<mapsto> p\<lparr>pr_state := Released\<rparr>)\<rparr>))"

definition release_effect :: "share_id \<Rightarrow> facts \<Rightarrow> facts" where
  "release_effect sid f = (case f_shares f sid of None \<Rightarrow> f | Some s \<Rightarrow> deref_effect (sr_origin_id s) f)"

definition dec_counts :: "blob_id list \<Rightarrow> (blob_id \<Rightarrow> int) \<Rightarrow> blob_id \<Rightarrow> int" where
  "dec_counts bs n b = (saturating_dec ^^ count_list bs b) (n b)"

lemma dec_counts_append: "dec_counts ys (dec_counts xs n) = dec_counts (xs @ ys) n"
  by (simp add: dec_counts_def fun_eq_iff funpow_add add.commute [of "count_list xs _"])

definition tombstone_effect :: "time \<Rightarrow> origin_id \<Rightarrow> string \<Rightarrow> facts \<Rightarrow> facts" where
  "tombstone_effect now org reason f = (case f_origins f org of
     None \<Rightarrow> f
   | Some rec \<Rightarrow> f\<lparr>
       f_origin_refs := (f_origin_refs f)(org := (saturating_dec ^^ length (or_representations rec)) (f_origin_refs f org)),
       f_blob_refs := dec_counts (concat (map rep_root_blobs (or_representations rec))) (f_blob_refs f),
       f_origins := (f_origins f)(org \<mapsto> rec\<lparr>or_tombstoned_at := Some now, or_tombstone_reason := Some reason,
           or_representations := []\<rparr>)\<rparr>)"

definition collect_effect :: "blob_id set \<Rightarrow> tombstone multiset \<Rightarrow> facts \<Rightarrow> facts" where
  "collect_effect D M f = f\<lparr>f_tombstones := M, f_blobs := (\<lambda>b. if b \<in> D then None else f_blobs f b)\<rparr>"

inductive event_effect :: "hashes \<Rightarrow> chunk_manifest codec \<Rightarrow> 'w service \<Rightarrow> event \<Rightarrow> facts \<Rightarrow> facts \<Rightarrow> bool"
  for H J svc where
  eff_upload: "cr_encrypt (sv_crypto svc) org (ur_bytes req) = Ok ct
    \<Longrightarrow> plain_fingerprints H (sv_chunk_config svc) (ur_bytes req) = Ok fps
    \<Longrightarrow> event_effect H J svc (EvUpload org t_rec u t_edge req) f
          (upload_effect H svc (upload_plan H J svc ct) org t_rec u t_edge req fps f)"
| eff_share: "mset es = filter_mset (\<lambda>e. le_origin_id e = org) (f_edges f)
    \<Longrightarrow> generate_proof_unsigned H org (filter (\<lambda>e. le_created_at e < anchor) es) anchor = Ok p
    \<Longrightarrow> sign_proof svc (lp_digest p) = Ok sig \<Longrightarrow> \<not> is_blank (lp_digest p)
    \<Longrightarrow> s = new_share (share_id_of us) anchor t_rec src dst org caps (lp_digest p) sig
    \<Longrightarrow> event_effect H J svc (EvShare us anchor t_rec u t_edge src dst org caps) f
          (ref_effect org u t_edge (RefShare (share_id_of us) src dst)
            (f\<lparr>f_shares := (f_shares f)(share_id_of us \<mapsto> s)\<rparr>))"
| eff_share_refused: "mset es = filter_mset (\<lambda>e. le_origin_id e = org) (f_edges f)
    \<Longrightarrow> generate_proof_unsigned H org (filter (\<lambda>e. le_created_at e < anchor) es) anchor = Ok p
    \<Longrightarrow> (\<forall>sig. sign_proof svc (lp_digest p) \<noteq> Ok sig) \<or> is_blank (lp_digest p)
    \<Longrightarrow> event_effect H J svc (EvShare us anchor t_rec u t_edge src dst org caps) f f"
| eff_derive: "did = ''drv:'' @ uuid_show ud \<Longrightarrow> m = derivation_new org did media kind t_rec
    \<Longrightarrow> event_effect H J svc (EvDerive ud t_rec u t_edge org kind media) f
          (ref_effect org u t_edge (RefDerivation did)
            (f\<lparr>f_derivations := (f_derivations f)(org := (f_derivations f org)(did \<mapsto> m))\<rparr>))"
| eff_release: "event_effect H J svc (EvReleaseShare sid) f (release_effect sid f)"
| eff_pin: "pid = ''pin:'' @ uuid_show up
    \<Longrightarrow> event_effect H J svc (EvPin up t_rec u t_edge who org n) f
          (ref_effect org u t_edge (RefPin pid)
            (f\<lparr>f_pins := (f_pins f)(pid \<mapsto> new_pin pid t_rec who org n)\<rparr>))"
| eff_unpin: "event_effect H J svc (EvUnpin pid) f (unpin_effect pid f)"
| eff_tombstone: "event_effect H J svc (EvTombstone now org reason) f (tombstone_effect now org reason f)"
| eff_collect: "\<forall>b \<in> D. f_blob_refs f b = 0
    \<Longrightarrow> event_effect H J svc (EvCollect now ids) f (collect_effect D M f)"
| eff_read: "event_effect H J svc (EvRead org) f f"

inductive_cases effect_elims:
  "event_effect H J svc (EvUpload org t_rec u t_edge req) f g"
  "event_effect H J svc (EvShare us anchor t_rec u t_edge src dst org caps) f g"
  "event_effect H J svc (EvDerive ud t_rec u t_edge org kind media) f g"
  "event_effect H J svc (EvReleaseShare sid) f g"
  "event_effect H J svc (EvPin up t_rec u t_edge who org n) f g"
  "event_effect H J svc (EvUnpin pid) f g"
  "event_effect H J svc (EvTombstone now org reason) f g"
  "event_effect H J svc (EvCollect now ids) f g"
  "event_effect H J svc (EvRead org) f g"

text \<open>
  What each event answers and leaves. \<open>os\<close> and \<open>bs\<close> are the origins and blobs the node lists to the
  collector. A share is stored if the provider signs the digest of the proof, and a blank digest is refused.
\<close>

inductive event_answer ::
  "hashes \<Rightarrow> chunk_manifest codec \<Rightarrow> 'w service \<Rightarrow> origin_id list \<Rightarrow> blob_id list \<Rightarrow> event \<Rightarrow> facts \<Rightarrow> unit res \<Rightarrow> facts \<Rightarrow> bool"
  for H J svc os bs where
  ans_upload: "cr_encrypt (sv_crypto svc) org (ur_bytes req) = Ok ct
    \<Longrightarrow> plain_fingerprints H (sv_chunk_config svc) (ur_bytes req) = Ok fps
    \<Longrightarrow> event_answer H J svc os bs (EvUpload org t_rec u t_edge req) f (Ok ())
          (upload_effect H svc (upload_plan H J svc ct) org t_rec u t_edge req fps f)"
| ans_share: "mset es = filter_mset (\<lambda>e. le_origin_id e = org) (f_edges f)
    \<Longrightarrow> generate_proof_unsigned H org (filter (\<lambda>e. le_created_at e < anchor) es) anchor = Ok p
    \<Longrightarrow> sign_proof svc (lp_digest p) = Ok sig \<Longrightarrow> \<not> is_blank (lp_digest p)
    \<Longrightarrow> s = new_share (share_id_of us) anchor t_rec src dst org caps (lp_digest p) sig
    \<Longrightarrow> event_answer H J svc os bs (EvShare us anchor t_rec u t_edge src dst org caps) f (Ok ())
          (ref_effect org u t_edge (RefShare (share_id_of us) src dst)
            (f\<lparr>f_shares := (f_shares f)(share_id_of us \<mapsto> s)\<rparr>))"
| ans_share_refused: "mset es = filter_mset (\<lambda>e. le_origin_id e = org) (f_edges f)
    \<Longrightarrow> generate_proof_unsigned H org (filter (\<lambda>e. le_created_at e < anchor) es) anchor = Ok p
    \<Longrightarrow> (\<forall>sig. sign_proof svc (lp_digest p) \<noteq> Ok sig) \<or> is_blank (lp_digest p) \<Longrightarrow> r \<noteq> Ok ()
    \<Longrightarrow> event_answer H J svc os bs (EvShare us anchor t_rec u t_edge src dst org caps) f r f"
| ans_derive: "did = ''drv:'' @ uuid_show ud \<Longrightarrow> m = derivation_new org did media kind t_rec
    \<Longrightarrow> event_answer H J svc os bs (EvDerive ud t_rec u t_edge org kind media) f (Ok ())
          (ref_effect org u t_edge (RefDerivation did)
            (f\<lparr>f_derivations := (f_derivations f)(org := (f_derivations f org)(did \<mapsto> m))\<rparr>))"
| ans_release: "event_answer H J svc os bs (EvReleaseShare sid) f
      (if f_shares f sid = None then Err NotFound else Ok ()) (release_effect sid f)"
| ans_pin: "pid = ''pin:'' @ uuid_show up
    \<Longrightarrow> event_answer H J svc os bs (EvPin up t_rec u t_edge who org n) f (Ok ())
          (ref_effect org u t_edge (RefPin pid)
            (f\<lparr>f_pins := (f_pins f)(pid \<mapsto> new_pin pid t_rec who org n)\<rparr>))"
| ans_unpin: "event_answer H J svc os bs (EvUnpin pid) f
      (if f_pins f pid = None then Err NotFound else Ok ()) (unpin_effect pid f)"
| ans_tombstone: "event_answer H J svc os bs (EvTombstone now org reason) f
      (if f_origins f org = None then Err NotFound else Ok ()) (tombstone_effect now org reason f)"
| ans_collect: "list_all (plannable f) os
    \<Longrightarrow> event_answer H J svc os bs (EvCollect now ids) f (Ok ()) (collect_facts os bs now ids f)"
| ans_collect_stuck: "\<not> list_all (plannable f) os \<Longrightarrow> r \<noteq> Ok ()
    \<Longrightarrow> event_answer H J svc os bs (EvCollect now ids) f r f"
| ans_read: "event_answer H J svc os bs (EvRead org) f (map_ok (\<lambda>_. ()) (payload_of H J (sv_crypto svc) f org)) f"

inductive_cases answer_elims:
  "event_answer H J svc os bs (EvUpload org t_rec u t_edge req) f r g"
  "event_answer H J svc os bs (EvShare us anchor t_rec u t_edge src dst org caps) f r g"
  "event_answer H J svc os bs (EvDerive ud t_rec u t_edge org kind media) f r g"
  "event_answer H J svc os bs (EvReleaseShare sid) f r g"
  "event_answer H J svc os bs (EvPin up t_rec u t_edge who org n) f r g"
  "event_answer H J svc os bs (EvUnpin pid) f r g"
  "event_answer H J svc os bs (EvTombstone now org reason) f r g"
  "event_answer H J svc os bs (EvCollect now ids) f r g"
  "event_answer H J svc os bs (EvRead org) f r g"

lemma voidM_answer: "m s = (r, t) \<Longrightarrow> voidM m s = (map_ok (\<lambda>_. ()) r, t)"
  by (cases r) (simp_all add: voidM_def bindM_def map_ok_def)

text \<open>Without collections the effect is that of the answer.\<close>

lemma share_answer_effect:
  "event_answer H J svc os bs (EvShare us anchor t_rec u t_edge src dst org caps) f r g
   \<Longrightarrow> event_effect H J svc (EvShare us anchor t_rec u t_edge src dst org caps) f g"
  by (auto elim!: answer_elims intro: eff_share eff_share_refused)

lemma derive_answer_effect:
  "event_answer H J svc os bs (EvDerive ud t_rec u t_edge org kind media) f r g
   \<Longrightarrow> event_effect H J svc (EvDerive ud t_rec u t_edge org kind media) f g"
  by (auto elim!: answer_elims intro: eff_derive)

lemma pin_answer_effect:
  "event_answer H J svc os bs (EvPin up t_rec u t_edge who org n) f r g
   \<Longrightarrow> event_effect H J svc (EvPin up t_rec u t_edge who org n) f g"
  by (auto elim!: answer_elims intro: eff_pin)

text \<open>What an event relies on: identifiers drawn at random are fresh, no counter is about to
  overflow, the provider encrypts, no digest collides, and a payload that is stored as one blob is not
  itself the text of a chunk manifest.\<close>

fun allowed :: "hashes \<Rightarrow> chunk_manifest codec \<Rightarrow> 'w service \<Rightarrow> event \<Rightarrow> facts \<Rightarrow> bool" where
  "allowed H J svc (EvUpload org t_rec u t_edge req) f \<longleftrightarrow>
     (\<exists>fps. plain_fingerprints H (sv_chunk_config svc) (ur_bytes req) = Ok fps)
     \<and> (\<exists>ct. cr_encrypt (sv_crypto svc) org (ur_bytes req) = Ok ct \<and> upload_ok H J svc (f_blobs f) ct
          \<and> upload_room (upload_plan H J svc ct) org f \<and> not_manifest H J svc ct) \<and> fresh_edge u f"
| "allowed H J svc (EvShare us anchor t_rec u t_edge src dst org caps) f \<longleftrightarrow>
     f_shares f (share_id_of us) = None \<and> f_origin_refs f org < I64_MAX \<and> fresh_edge u f"
| "allowed H J svc (EvDerive ud t_rec u t_edge org kind media) f \<longleftrightarrow>
     f_derivations f org (''drv:'' @ uuid_show ud) = None \<and> f_origin_refs f org < I64_MAX \<and> fresh_edge u f"
| "allowed H J svc (EvPin up t_rec u t_edge who org n) f \<longleftrightarrow>
     f_pins f (''pin:'' @ uuid_show up) = None \<and> f_origin_refs f org < I64_MAX \<and> fresh_edge u f"
| "allowed H J svc _ f \<longleftrightarrow> True"


section \<open>Every node implements the effects\<close>

context total_node begin

lemma ref_law:
  assumes "inv s" and "f_origin_refs (view s) org < I64_MAX" and "fresh_edge u (view s)"
  shows "\<exists>t. seqM (rc_inc_origin (nd_index nd) org kind)
       (seqM (ls_add_edge (nd_lineage nd) \<lparr>le_edge_id = edge_id_of u, le_origin_id = org, le_blob_id = None,
          le_kind = kind, le_created_at = now\<rparr>) k) s = k t
     \<and> inv t \<and> view t = ref_effect org u now kind (view s)"
proof -
  obtain s1 where s1: "rc_inc_origin (nd_index nd) org kind s = (Ok (), s1)" "inv s1"
    "view s1 = org_refs org (f_origin_refs (view s) org + 1) (view s)" using inc_origin [OF assms(1,2)] by blast
  have "le_edge_id (plain_edge org u now kind) \<notin> le_edge_id ` set_mset (f_edges (view s1))"
    using assms(3) s1(3) by (simp add: fresh_edge_def plain_edge_def org_refs_def)
  then obtain s2 where "ls_add_edge (nd_lineage nd) (plain_edge org u now kind) s1 = (Ok (), s2)" "inv s2"
    "view s2 = (view s1)\<lparr>f_edges := add_mset (plain_edge org u now kind) (f_edges (view s1))\<rparr>"
    using add_edge [OF s1(2)] by blast
  then show ?thesis using s1
    by (intro exI [of _ s2]) (simp add: act_simps plain_edge_def ref_effect_def org_refs_def)
qed

lemma proof_at_law:
  assumes "service_ok nd J svc" and "inv s"
  shows "\<exists>es p. lineage_proof_at H svc org cutoff s = (Ok p, s)
     \<and> mset es = filter_mset (\<lambda>e. le_origin_id e = org) (f_edges (view s))
     \<and> generate_proof_unsigned H org (filter (\<lambda>e. le_created_at e < cutoff) es) cutoff = Ok p"
proof -
  obtain es where "ls_list_edges (nd_lineage nd) org s = (Ok es, s)"
    "mset es = filter_mset (\<lambda>e. le_origin_id e = org) (f_edges (view s))" using list_edges [OF assms(2)] by blast
  then show ?thesis using assms(1)
    by (simp add: lineage_proof_at_def service_ok_def act_simps generate_proof_unsigned_def) blast
qed

lemma share_law:
  assumes svc: "service_ok nd J svc" and s: "inv s"
    and "f_shares (view s) (share_id_of us) = None" and "f_origin_refs (view s) org < I64_MAX" and "fresh_edge u (view s)"
  shows "\<exists>r t. share H svc us anchor t_rec u t_edge src dst org caps s = (r, t) \<and> inv t
     \<and> event_answer H J svc os bs (EvShare us anchor t_rec u t_edge src dst org caps) (view s) (map_ok (\<lambda>_. ()) r) (view t)"
proof -
  let ?ev = "EvShare us anchor t_rec u t_edge src dst org caps" and ?sid = "share_id_of us"
  have node: "sv_node svc = nd" using svc by (simp add: service_ok_def)
  obtain es p where p: "lineage_proof_at H svc org anchor s = (Ok p, s)"
    "mset es = filter_mset (\<lambda>e. le_origin_id e = org) (f_edges (view s))"
    "generate_proof_unsigned H org (filter (\<lambda>e. le_created_at e < anchor) es) anchor = Ok p"
    using proof_at_law [OF svc s] by blast
  have refused: "event_answer H J svc os bs ?ev (view s) r (view s)"
    if "(\<forall>sig. sign_proof svc (lp_digest p) \<noteq> Ok sig) \<or> is_blank (lp_digest p)" "r \<noteq> Ok ()" for r
    by (rule ans_share_refused [OF p(2,3) that])
  show ?thesis
  proof (cases "sign_proof svc (lp_digest p)")
    case (Ok sig)
    obtain k sg where sig: "sig = (k, sg)" by force
    define sh where "sh = new_share ?sid anchor t_rec src dst org caps (lp_digest p) sig"
    show ?thesis
    proof (cases "is_blank (lp_digest p)")
      case True
      then have "\<exists>e. share H svc us anchor t_rec u t_edge src dst org caps s = (Err e, s)"
        using p Ok sig by (simp add: share_def act_simps Let_def share_validate_def seqM_def bindM_def)
      then show ?thesis using refused True s by (auto simp: map_ok_def)
    next
      case False
      have valid: "share_validate sh = Ok ()" using False by (simp add: sh_def new_share_def share_validate_def)
      have "sr_share_id sh = ?sid" by (simp add: sh_def new_share_def)
      then obtain s1 where s1: "sh_put (nd_shares nd) sh s = (Ok (), s1)" "inv s1"
        "view s1 = (view s)\<lparr>f_shares := (f_shares (view s))(?sid \<mapsto> sh)\<rparr>"
        using put_share [OF s, of sh] assms(3) by auto
      have "f_origin_refs (view s1) org < I64_MAX" "fresh_edge u (view s1)"
        using assms(4,5) s1(3) by (simp_all add: fresh_edge_def)
      then obtain t where t: "seqM (rc_inc_origin (nd_index nd) org (RefShare ?sid src dst))
           (seqM (ls_add_edge (nd_lineage nd) \<lparr>le_edge_id = edge_id_of u, le_origin_id = org, le_blob_id = None,
             le_kind = RefShare ?sid src dst, le_created_at = t_edge\<rparr>) (returnM ?sid)) s1 = returnM ?sid t"
        "inv t" "view t = ref_effect org u t_edge (RefShare ?sid src dst) (view s1)"
        using ref_law [OF s1(2)] by blast
      have "share H svc us anchor t_rec u t_edge src dst org caps s = returnM ?sid t"
        using p(1) Ok valid s1(1) t(1) unfolding share_def node Let_def
        by (simp add: act_simps sig sh_def new_share_def)
      then show ?thesis
        using ans_share [OF p(2,3) Ok False sh_def, of J os bs u t_edge] t(2,3) s1(3) by (auto simp: map_ok_def)
    qed
  next
    case (Err e)
    then have "share H svc us anchor t_rec u t_edge src dst org caps s = (Err e, s)"
      using p by (simp add: share_def act_simps Let_def)
    then show ?thesis using refused Err s by (auto simp: map_ok_def)
  next
    case Panic
    then have "share H svc us anchor t_rec u t_edge src dst org caps s = (Panic, s)"
      using p by (simp add: share_def act_simps Let_def)
    then show ?thesis using refused Panic s by (auto simp: map_ok_def)
  qed
qed

lemma derive_law:
  assumes svc: "service_ok nd J svc" and s: "inv s"
    and "f_derivations (view s) org (''drv:'' @ uuid_show ud) = None" and "f_origin_refs (view s) org < I64_MAX" and "fresh_edge u (view s)"
  shows "\<exists>r t. derive svc ud t_rec u t_edge org kind media s = (r, t) \<and> inv t
     \<and> event_answer H J svc os bs (EvDerive ud t_rec u t_edge org kind media) (view s) (map_ok (\<lambda>_. ()) r) (view t)"
proof -
  let ?did = "''drv:'' @ uuid_show ud"
  define m where "m = derivation_new org ?did media kind t_rec"
  have m: "dm_origin_id m = org" "dm_derivation_id m = ?did" by (simp_all add: m_def derivation_new_def)
  obtain s1 where s1: "dv_put (nd_derivations nd) m s = (Ok (), s1)" "inv s1"
    "view s1 = (view s)\<lparr>f_derivations := (f_derivations (view s))(org := (f_derivations (view s) org)(?did \<mapsto> m))\<rparr>"
    using put_derivation [OF s, of m] assms(3) m by auto
  have "f_origin_refs (view s1) org < I64_MAX" "fresh_edge u (view s1)"
    using assms(4,5) s1(3) by (simp_all add: fresh_edge_def)
  then obtain t where t: "seqM (rc_inc_origin (nd_index nd) org (RefDerivation ?did))
       (seqM (ls_add_edge (nd_lineage nd) \<lparr>le_edge_id = edge_id_of u, le_origin_id = org, le_blob_id = None,
         le_kind = RefDerivation ?did, le_created_at = t_edge\<rparr>) (returnM ?did)) s1 = returnM ?did t"
    "inv t" "view t = ref_effect org u t_edge (RefDerivation ?did) (view s1)"
    using ref_law [OF s1(2)] by blast
  have "derive svc ud t_rec u t_edge org kind media s = returnM ?did t"
    using svc s1(1) t(1) unfolding derive_def Let_def m_def
    by (simp add: act_simps service_ok_def)
  then show ?thesis
    using ans_derive [OF refl m_def, of H J svc os bs u t_edge] t(2,3) s1(3) by (auto simp: map_ok_def)
qed

lemma pin_law:
  assumes svc: "service_ok nd J svc" and s: "inv s"
    and "f_pins (view s) (''pin:'' @ uuid_show up) = None" and "f_origin_refs (view s) org < I64_MAX" and "fresh_edge u (view s)"
  shows "\<exists>r t. pin_origin svc up t_rec u t_edge who org n s = (r, t) \<and> inv t
     \<and> event_answer H J svc os bs (EvPin up t_rec u t_edge who org n) (view s) (map_ok (\<lambda>_. ()) r) (view t)"
proof -
  let ?pid = "''pin:'' @ uuid_show up"
  define p where "p = new_pin ?pid t_rec who org n"
  have p: "pr_pin_id p = ?pid" by (simp add: p_def new_pin_def)
  obtain s1 where s1: "pn_create (nd_pins nd) p s = (Ok (), s1)" "inv s1"
    "view s1 = (view s)\<lparr>f_pins := (f_pins (view s))(?pid \<mapsto> p)\<rparr>"
    using create_pin [OF s, of p] assms(3) p by auto
  have "f_origin_refs (view s1) org < I64_MAX" "fresh_edge u (view s1)"
    using assms(4,5) s1(3) by (simp_all add: fresh_edge_def)
  then obtain t where t: "seqM (rc_inc_origin (nd_index nd) org (RefPin ?pid))
       (seqM (ls_add_edge (nd_lineage nd) \<lparr>le_edge_id = edge_id_of u, le_origin_id = org, le_blob_id = None,
         le_kind = RefPin ?pid, le_created_at = t_edge\<rparr>) (returnM ?pid)) s1 = returnM ?pid t"
    "inv t" "view t = ref_effect org u t_edge (RefPin ?pid) (view s1)"
    using ref_law [OF s1(2)] by blast
  have "pin_origin svc up t_rec u t_edge who org n s = returnM ?pid t"
    using svc s1(1) t(1) unfolding pin_origin_def Let_def p_def new_pin_def
    by (simp add: act_simps service_ok_def)
  then show ?thesis
    using ans_pin [OF refl, of H J svc os bs up t_rec u t_edge who org n "view s"] t(2,3) s1(3) by (auto simp: p_def map_ok_def)
qed

lemma deref_law:
  "inv s \<Longrightarrow> \<exists>t. rc_dec_origin (nd_index nd) org r s = (Ok (), t) \<and> inv t \<and> view t = deref_effect org (view s)"
  using dec_origin by (simp add: deref_effect_def)

lemma release_law:
  assumes "service_ok nd J svc" and "inv s"
  shows "\<exists>t. release_share svc sid s = (if f_shares (view s) sid = None then Err NotFound else Ok (), t) \<and> inv t
     \<and> view t = release_effect sid (view s)"
proof (cases "f_shares (view s) sid")
  case None
  then show ?thesis using assms get_share [OF assms(2), of sid]
    by (simp add: release_share_def service_ok_def act_simps release_effect_def)
next
  case (Some sh)
  then show ?thesis using assms get_share [OF assms(2), of sid] deref_law [OF assms(2), of "sr_origin_id sh"]
    by (simp add: release_share_def service_ok_def act_simps release_effect_def)
qed

lemma unpin_law:
  assumes "service_ok nd J svc" and "inv s"
  shows "\<exists>t. unpin svc pid s = (if f_pins (view s) pid = None then Err NotFound else Ok (), t) \<and> inv t
     \<and> view t = unpin_effect pid (view s)"
proof (cases "f_pins (view s) pid")
  case None
  then show ?thesis using assms get_pin [OF assms(2), of pid]
    by (simp add: unpin_def service_ok_def act_simps unpin_effect_def)
next
  case (Some p)
  obtain t where t: "pn_release (nd_pins nd) pid s = (Ok (), t)" "inv t"
    "view t = (view s)\<lparr>f_pins := (f_pins (view s))(pid \<mapsto> p\<lparr>pr_state := Released\<rparr>)\<rparr>"
    using release_pin [OF assms(2) Some] by blast
  show ?thesis
  proof (cases "pr_target p")
    case (PinOrigin org)
    then show ?thesis using assms get_pin [OF assms(2), of pid] Some t deref_law [OF t(2), of org "RefPin pid"]
      by (auto simp: unpin_def service_ok_def act_simps unpin_effect_def Let_def)
  next
    case (PinRepresentation org name)
    then show ?thesis using assms get_pin [OF assms(2), of pid] Some t
      by (auto simp: unpin_def service_ok_def act_simps unpin_effect_def Let_def)
  qed
qed

lemma dec_blobs_law:
  "inv s \<Longrightarrow> \<exists>t. forM bs (\<lambda>b. rc_dec_blob (nd_index nd) b r) s = (Ok (), t) \<and> inv t
    \<and> view t = (view s)\<lparr>f_blob_refs := dec_counts bs (f_blob_refs (view s))\<rparr>"
proof (induction bs arbitrary: s)
  case Nil
  then show ?case by (simp add: dec_counts_def)
next
  case (Cons b bs)
  obtain u where u: "rc_dec_blob (nd_index nd) b r s = (Ok (), u)" "inv u"
    "view u = blob_refs b (saturating_dec (f_blob_refs (view s) b)) (view s)"
    using dec_blob [OF Cons.prems] by blast
  obtain t where "forM bs (\<lambda>b. rc_dec_blob (nd_index nd) b r) u = (Ok (), t)" "inv t"
    "view t = (view u)\<lparr>f_blob_refs := dec_counts bs (f_blob_refs (view u))\<rparr>"
    using Cons.IH [OF u(2)] by blast
  then show ?case
    using u by (auto simp: act_simps blob_refs_def dec_counts_def fun_eq_iff funpow_swap1)
qed

lemma tombstone_reps_law:
  "inv s \<Longrightarrow> \<exists>t. forM reps (\<lambda>rep.
        seqM (rc_dec_origin (nd_index nd) org (RefRepresentation (rep_name rep)))
          (forM (rep_root_blobs rep) (\<lambda>b. rc_dec_blob (nd_index nd) b (RefRepresentation (rep_name rep))))) s = (Ok (), t)
    \<and> inv t \<and> view t = (view s)\<lparr>
        f_origin_refs := (f_origin_refs (view s))(org := (saturating_dec ^^ length reps) (f_origin_refs (view s) org)),
        f_blob_refs := dec_counts (concat (map rep_root_blobs reps)) (f_blob_refs (view s))\<rparr>"
proof (induction reps arbitrary: s)
  case Nil
  then show ?case by (simp add: dec_counts_def)
next
  case (Cons rep reps)
  obtain s1 where s1: "rc_dec_origin (nd_index nd) org (RefRepresentation (rep_name rep)) s = (Ok (), s1)" "inv s1"
    "view s1 = deref_effect org (view s)" using deref_law [OF Cons.prems] by blast
  obtain s2 where s2: "forM (rep_root_blobs rep) (\<lambda>b. rc_dec_blob (nd_index nd) b (RefRepresentation (rep_name rep))) s1 = (Ok (), s2)"
    "inv s2" "view s2 = (view s1)\<lparr>f_blob_refs := dec_counts (rep_root_blobs rep) (f_blob_refs (view s1))\<rparr>"
    using dec_blobs_law [OF s1(2)] by blast
  obtain t where t: "forM reps (\<lambda>rep.
        seqM (rc_dec_origin (nd_index nd) org (RefRepresentation (rep_name rep)))
          (forM (rep_root_blobs rep) (\<lambda>b. rc_dec_blob (nd_index nd) b (RefRepresentation (rep_name rep))))) s2 = (Ok (), t)"
    "inv t" "view t = (view s2)\<lparr>
        f_origin_refs := (f_origin_refs (view s2))(org := (saturating_dec ^^ length reps) (f_origin_refs (view s2) org)),
        f_blob_refs := dec_counts (concat (map rep_root_blobs reps)) (f_blob_refs (view s2))\<rparr>"
    using Cons.IH [OF s2(2)] by blast
  show ?case
    using s1 s2 t
    by (intro exI [of _ t])
      (simp add: act_simps deref_effect_def org_refs_def dec_counts_append funpow_swap1 fun_upd_def cong: if_cong)
qed

lemma tombstone_law:
  assumes "service_ok nd J svc" and "inv s"
  shows "\<exists>t. tombstone_origin svc now org reason s = (if f_origins (view s) org = None then Err NotFound else Ok (), t)
     \<and> inv t \<and> view t = tombstone_effect now org reason (view s)"
proof (cases "f_origins (view s) org")
  case None
  then show ?thesis using assms get_origin [OF assms(2), of org]
    by (simp add: tombstone_origin_def service_ok_def act_simps tombstone_effect_def)
next
  case (Some rec)
  have key: "or_origin_id rec = org" using origin_key [OF assms(2) Some] .
  let ?rec = "rec\<lparr>or_tombstoned_at := Some now, or_tombstone_reason := Some reason, or_representations := []\<rparr>"
  obtain s1 where s1: "forM (or_representations rec) (\<lambda>rep.
        seqM (rc_dec_origin (nd_index nd) org (RefRepresentation (rep_name rep)))
          (forM (rep_root_blobs rep) (\<lambda>b. rc_dec_blob (nd_index nd) b (RefRepresentation (rep_name rep))))) s = (Ok (), s1)"
    "inv s1" "view s1 = (view s)\<lparr>
        f_origin_refs := (f_origin_refs (view s))(org := (saturating_dec ^^ length (or_representations rec)) (f_origin_refs (view s) org)),
        f_blob_refs := dec_counts (concat (map rep_root_blobs (or_representations rec))) (f_blob_refs (view s))\<rparr>"
    using tombstone_reps_law [OF assms(2)] by blast
  have "f_origins (view s1) (or_origin_id ?rec) \<noteq> None" using Some s1(3) key by simp
  then obtain t where t: "og_update (nd_origins nd) ?rec s1 = (Ok (), t)" "inv t"
    "view t = (view s1)\<lparr>f_origins := (f_origins (view s1))(or_origin_id ?rec \<mapsto> ?rec)\<rparr>"
    using update_origin [OF s1(2)] by blast
  have "tombstone_origin svc now org reason s = (Ok (), t)"
    using assms(1) get_origin [OF assms(2), of org] Some s1(1) t(1)
    by (simp add: tombstone_origin_def service_ok_def act_simps Let_def)
  then show ?thesis using Some t(2,3) s1(3) key by (simp add: tombstone_effect_def)
qed

lemma perform_refines:
  assumes svc: "service_ok nd J svc" and s: "inv s" and ok: "allowed H J svc ev (view s)"
  shows "inv (snd (perform H J svc ev s)) \<and> event_effect H J svc ev (view s) (view (snd (perform H J svc ev s)))"
proof (cases ev)
  case (EvUpload org t_rec u t_edge req)
  obtain fps ct where a: "plain_fingerprints H (sv_chunk_config svc) (ur_bytes req) = Ok fps"
    "cr_encrypt (sv_crypto svc) org (ur_bytes req) = Ok ct" "upload_ok H J svc (f_blobs (view s)) ct"
    "upload_room (upload_plan H J svc ct) org (view s)" "fresh_edge u (view s)" using ok EvUpload by auto
  show ?thesis using upload_law [OF svc s a(2,3,1,4,5), of t_rec t_edge] eff_upload [OF a(2,1)] EvUpload by auto
next
  case (EvShare us anchor t_rec u t_edge src dst org caps)
  then show ?thesis
    using share_law [OF svc s, of us org u H anchor t_rec t_edge src dst caps "[]" "[]"] ok share_answer_effect by fastforce
next
  case (EvDerive ud t_rec u t_edge org kind media)
  then show ?thesis
    using derive_law [OF svc s, of org ud u t_rec t_edge kind media H "[]" "[]"] ok derive_answer_effect by fastforce
next
  case (EvReleaseShare sid)
  then show ?thesis using release_law [OF svc s, of sid] eff_release [of H J svc sid "view s"] by auto
next
  case (EvPin up t_rec u t_edge who org n)
  then show ?thesis
    using pin_law [OF svc s, of up org u t_rec t_edge who n H "[]" "[]"] ok pin_answer_effect by fastforce
next
  case (EvUnpin pid)
  then show ?thesis using unpin_law [OF svc s, of pid] eff_unpin [of H J svc pid "view s"] by auto
next
  case (EvTombstone now org reason)
  then show ?thesis using tombstone_law [OF svc s, of now org reason] eff_tombstone [of H J svc now org reason "view s"] by auto
next
  case (EvCollect now ids)
  obtain r t where run: "gc_collect nd now ids s = (r, t)" by force
  show ?thesis using gc_collect_law [OF s run] eff_collect [of _ "view s" H J svc now ids] EvCollect run svc
    by (auto simp: service_ok_def collect_effect_def)
next
  case (EvRead org)
  then show ?thesis using get_payload_eq [OF svc s] eff_read s by simp
qed

lemma perform_answers:
  assumes svc: "service_ok nd J svc" and s: "inv s" and ok: "allowed H J svc ev (view s)"
    and os: "si_list_origins (nd_scan nd) s = (Ok os, s)" and bs: "si_list_blobs (nd_scan nd) s = (Ok bs, s)"
    and only: "\<And>org l. pn_list (nd_pins nd) org s = (Ok l, s) \<Longrightarrow> \<forall>p \<in> set l. pr_target p = PinOrigin org"
  shows "\<exists>r t. perform H J svc ev s = (r, t) \<and> inv t \<and> event_answer H J svc os bs ev (view s) r (view t)"
proof (cases ev)
  case (EvUpload org t_rec u t_edge req)
  obtain fps ct where a: "plain_fingerprints H (sv_chunk_config svc) (ur_bytes req) = Ok fps"
    "cr_encrypt (sv_crypto svc) org (ur_bytes req) = Ok ct" "upload_ok H J svc (f_blobs (view s)) ct"
    "upload_room (upload_plan H J svc ct) org (view s)" "fresh_edge u (view s)" using ok EvUpload by auto
  show ?thesis using upload_law [OF svc s a(2,3,1,4,5), of t_rec t_edge] ans_upload [OF a(2,1)] EvUpload
    by (auto dest: voidM_answer simp: map_ok_def)
next
  case (EvShare us anchor t_rec u t_edge src dst org caps)
  then show ?thesis using share_law [OF svc s, of us org u H anchor t_rec t_edge src dst caps os bs] ok
    by (auto dest: voidM_answer)
next
  case (EvDerive ud t_rec u t_edge org kind media)
  then show ?thesis using derive_law [OF svc s, of org ud u t_rec t_edge kind media H os bs] ok
    by (auto dest: voidM_answer)
next
  case (EvReleaseShare sid)
  then show ?thesis using release_law [OF svc s, of sid] ans_release [of H J svc os bs sid "view s"] by auto
next
  case (EvPin up t_rec u t_edge who org n)
  then show ?thesis using pin_law [OF svc s, of up org u t_rec t_edge who n H os bs] ok
    by (auto dest: voidM_answer)
next
  case (EvUnpin pid)
  then show ?thesis using unpin_law [OF svc s, of pid] ans_unpin [of H J svc os bs pid "view s"] by auto
next
  case (EvTombstone now org reason)
  then show ?thesis
    using tombstone_law [OF svc s, of now org reason] ans_tombstone [of H J svc os bs now org reason "view s"] by auto
next
  case (EvCollect now ids)
  have run: "perform H J svc ev s = gc_collect nd now ids s" using EvCollect svc by (simp add: service_ok_def)
  show ?thesis
  proof (cases "list_all (plannable (view s)) os")
    case True
    then have "\<forall>org \<in> set os. plannable (view s) org" by (simp only: list_all_iff)
    then show ?thesis
      using gc_collect_exact [OF s os bs only, of now ids] ans_collect [OF True, of H J svc bs now ids] run EvCollect by auto
  next
    case False
    then obtain org where "org \<in> set os" "\<not> plannable (view s) org" unfolding list_all_iff by blast
    then obtain r where "r \<noteq> Ok ()" "gc_collect nd now ids s = (r, s)"
      using gc_collect_stuck [OF s os bs only, of org now ids] by blast
    then show ?thesis using ans_collect_stuck [OF False] run EvCollect s by auto
  qed
next
  case (EvRead org)
  then show ?thesis
    using voidM_answer [of "get_payload H J svc org" s] get_payload_eq [OF svc s, of H org] ans_read [of H J svc os bs org "view s"] s by auto
qed

end

end
