(* ===== verification/Sodl_Lifecycle.thy ===== *)
theory Sodl_Lifecycle
  imports Sodl_Events
begin

text \<open>
  Histories of a node: any sequence of uploads, shares, derivations, pins, tombstones and
  garbage collections. The invariants are about the facts of the node; the properties say what
  a client observes at the end of a history.
\<close>

section \<open>Histories\<close>

text \<open>The latest event is the first of the list.\<close>

inductive node_run ::
  "hashes \<Rightarrow> chunk_manifest codec \<Rightarrow> 'w service \<Rightarrow> ('w \<Rightarrow> facts) \<Rightarrow> 'w \<Rightarrow> event list \<Rightarrow> 'w \<Rightarrow> bool"
  for H J svc view s0 where
  run_start: "node_run H J svc view s0 [] s0"
| run_step: "node_run H J svc view s0 h s \<Longrightarrow> allowed H J svc ev (view s)
    \<Longrightarrow> node_run H J svc view s0 (ev # h) (snd (perform H J svc ev s))"

inductive_cases node_run_ConsE: "node_run H J svc view s0 (ev # h) s"

text \<open>The live uploads of a history: origin, payload, and the identifiers of the blobs.\<close>

fun live :: "hashes \<Rightarrow> chunk_manifest codec \<Rightarrow> 'w service \<Rightarrow> event list \<Rightarrow> (origin_id \<times> bytes \<times> blob_id list) list" where
  "live H J svc [] = []"
| "live H J svc (EvUpload org t_rec u t_edge req # h) =
     (case cr_encrypt (sv_crypto svc) org (ur_bytes req) of
        Ok ct \<Rightarrow> [(org, ur_bytes req, plan_ids H svc (upload_plan H J svc ct))]
      | _ \<Rightarrow> []) @ live H J svc h"
| "live H J svc (EvTombstone now org reason # h) = filter (\<lambda>x. fst x \<noteq> org) (live H J svc h)"
| "live H J svc (_ # h) = live H J svc h"

definition demand :: "(origin_id \<times> bytes \<times> blob_id list) list \<Rightarrow> blob_id \<Rightarrow> int" where
  "demand l b = (\<Sum>(org, d, ids) \<leftarrow> l. int (count_list ids b))"

lemma demand_simps [simp]:
  "demand [] b = 0"
  "demand ((org, d, ids) # l) b = int (count_list ids b) + demand l b"
  by (simp_all add: demand_def)

lemma demand_nonneg: "0 \<le> demand l b"
  by (induction l) (auto simp: demand_def)

lemma demand_pos: "(org, d, ids) \<in> set l \<Longrightarrow> b \<in> set ids \<Longrightarrow> 0 < demand l b"
proof (induction l)
  case (Cons x l)
  then show ?case
    using demand_nonneg [of l b] count_list_0_iff [of "snd (snd x)" b]
    by (cases x) (auto simp: add_pos_nonneg add_nonneg_pos)
qed simp

lemma demand_filter_le: "demand (filter P l) b \<le> demand l b"
  by (induction l) (auto simp: demand_def)

lemma demand_filter:
  "(org, d, ids) \<in> set l \<Longrightarrow> demand (filter (\<lambda>x. fst x \<noteq> org) l) b + int (count_list ids b) \<le> demand l b"
proof (induction l)
  case (Cons x l)
  have le: "demand (filter (\<lambda>x. fst x \<noteq> org) l) b \<le> demand l b" by (rule demand_filter_le)
  then show ?case using Cons by (cases x) auto
qed simp


section \<open>The invariant\<close>

definition kept :: "hashes \<Rightarrow> chunk_manifest codec \<Rightarrow> 'w service \<Rightarrow> facts \<Rightarrow> origin_id \<times> bytes \<times> blob_id list \<Rightarrow> bool" where
  "kept H J svc f = (\<lambda>(org, d, ids). ids \<noteq> []
     \<and> (\<exists>rec. f_origins f org = Some rec \<and> map rep_root_blobs (or_representations rec) = [[last ids]])
     \<and> root_payload H J (sv_crypto svc) org (last ids) (f_blobs f) = Ok d
     \<and> needed J (last ids) (f_blobs f) \<subseteq> set ids)"

text \<open>Origins that were registered without an upload hold references too: \<open>ex\<close> lists them with their
  root blobs.\<close>

definition root_ids :: "origin_record \<Rightarrow> blob_id list" where
  "root_ids rec = concat (map rep_root_blobs (or_representations rec))"

definition registered :: "(origin_id \<times> blob_id list) list \<Rightarrow> blob_id \<Rightarrow> int" where
  "registered ex b = (\<Sum>(org, bs) \<leftarrow> ex. int (count_list bs b))"

lemma registered_simps [simp]:
  "registered [] b = 0"
  "registered ((org, bs) # ex) b = int (count_list bs b) + registered ex b"
  by (simp_all add: registered_def)

lemma registered_nonneg: "0 \<le> registered ex b"
  by (induction ex) (auto simp: registered_def)

lemma registered_filter:
  "registered (filter (\<lambda>x. fst x \<noteq> org) ex) b \<le> registered ex b"
  by (induction ex) auto

lemma registered_removed:
  "(org, bs) \<in> set ex \<Longrightarrow> registered (filter (\<lambda>x. fst x \<noteq> org) ex) b + int (count_list bs b) \<le> registered ex b"
proof (induction ex)
  case (Cons x ex)
  then show ?case using registered_filter [of org ex b] by (cases x) auto
qed simp

definition ledger ::
  "hashes \<Rightarrow> chunk_manifest codec \<Rightarrow> 'w service \<Rightarrow> event list \<Rightarrow> (origin_id \<times> blob_id list) list \<Rightarrow> facts \<Rightarrow> bool" where
  "ledger H J svc h ex f \<longleftrightarrow> cas_ok H (f_blobs f)
     \<and> (\<forall>b. demand (live H J svc h) b + registered ex b \<le> f_blob_refs f b)
     \<and> (\<forall>x \<in> set (live H J svc h). kept H J svc f x)
     \<and> (\<forall>org rec. f_origins f org = Some rec \<longrightarrow>
          or_representations rec = [] \<or> org \<in> fst ` set (live H J svc h) \<or> (org, root_ids rec) \<in> set ex)"

lemma ledgerD:
  assumes "ledger H J svc h ex f"
  shows "cas_ok H (f_blobs f)" "demand (live H J svc h) b + registered ex b \<le> f_blob_refs f b"
    "x \<in> set (live H J svc h) \<Longrightarrow> kept H J svc f x"
    "f_origins f org = Some rec \<Longrightarrow>
      or_representations rec = [] \<or> org \<in> fst ` set (live H J svc h) \<or> (org, root_ids rec) \<in> set ex"
  using assms by (auto simp: ledger_def)

lemma ledger_demand: "ledger H J svc h ex f \<Longrightarrow> demand (live H J svc h) b \<le> f_blob_refs f b"
  using ledgerD(2) [of H J svc h ex f b] registered_nonneg [of ex b] by linarith

lemma fetch_present: "mapR (fetch_pure H m) es = Ok ps \<Longrightarrow> e \<in> set es \<Longrightarrow> m (ce_blob_id e) \<noteq> None"
  by (induction es arbitrary: ps) (auto simp: bindR_eq_Ok fetch_pure_def of_option_def split: option.splits)

lemma root_payload_present:
  assumes "root_payload H J c org r m = Ok d" and "b \<in> needed J r m"
  shows "m b \<noteq> None"
proof -
  obtain rb where rb: "m r = Some rb" using assms(1) by (cases "m r") (auto simp: root_payload_def)
  show ?thesis
  proof (cases "try_parse_manifest J rb")
    case None
    then show ?thesis using assms(2) rb by (auto simp: needed_def)
  next
    case (Some mf)
    then obtain parts where "mapR (fetch_pure H m) (cm_chunks mf) = Ok parts"
      using assms(1) rb by (auto simp: root_payload_def reassemble_pure_def bindR_eq_Ok split: if_splits)
    then show ?thesis using fetch_present assms(2) rb Some by (fastforce simp: needed_def)
  qed
qed

lemma needed_cong:
  assumes "\<And>b. b \<in> needed J r m \<Longrightarrow> m' b = m b"
  shows "needed J r m' = needed J r m"
proof -
  have "m' r = m r" by (rule assms) (simp add: needed_def)
  then show ?thesis by (simp add: needed_def)
qed

text \<open>An upload is kept as long as its origin is untouched and its blobs are.\<close>

lemma kept_cong:
  assumes "kept H J svc f (org, d, ids)" and "f_origins g org = f_origins f org"
    and "\<And>b. b \<in> set ids \<Longrightarrow> f_blobs f b \<noteq> None \<Longrightarrow> f_blobs g b = f_blobs f b"
  shows "kept H J svc g (org, d, ids)"
proof -
  have same: "f_blobs g b = f_blobs f b" if "b \<in> needed J (last ids) (f_blobs f)" for b
    using assms(1,3) that root_payload_present by (fastforce simp: kept_def)
  show ?thesis
    using assms(1,2) root_payload_cong [OF same] needed_cong [OF same] by (simp add: kept_def)
qed

lemma ledger_same:
  assumes "ledger H J svc h ex f" and "live H J svc h' = live H J svc h"
    and "f_blobs g = f_blobs f" and "f_blob_refs g = f_blob_refs f" and "f_origins g = f_origins f"
  shows "ledger H J svc h' ex g"
proof -
  have "kept H J svc g x" if "kept H J svc f x" for x
    using kept_cong [of H J svc f] assms(3,5) that by (cases x) simp
  then show ?thesis using assms by (auto simp: ledger_def)
qed

lemma ledger_collect:
  assumes "ledger H J svc h ex f" and "\<forall>b \<in> D. f_blob_refs f b = 0"
  shows "ledger H J svc (EvCollect now ids # h) ex (collect_effect D M f)"
proof -
  let ?g = "collect_effect D M f"
  have "kept H J svc ?g x" if x: "x \<in> set (live H J svc h)" for x
  proof -
    obtain org d ids where eq: "x = (org, d, ids)" by (cases x)
    have "b \<notin> D" if "b \<in> set ids" for b
    proof -
      have "0 < demand (live H J svc h) b" using demand_pos [of org d ids _ b] x that eq by simp
      then have "f_blob_refs f b \<noteq> 0" using ledger_demand [OF assms(1), of b] by simp
      then show ?thesis using assms(2) by blast
    qed
    then have "f_blobs ?g b = f_blobs f b" if "b \<in> set ids" for b
      using that by (simp add: collect_effect_def)
    then show ?thesis
      using kept_cong [of H J svc f org d ids ?g] ledgerD(3) [OF assms(1) x] eq by (simp add: collect_effect_def)
  qed
  then show ?thesis using assms(1) by (auto simp: ledger_def collect_effect_def cas_ok_def)
qed

lemma dec_counts_le: "0 \<le> n b \<Longrightarrow> n b - int (count_list bs b) \<le> dec_counts bs n b"
proof -
  have "0 \<le> m \<Longrightarrow> m - int k \<le> (saturating_dec ^^ k) m \<and> 0 \<le> (saturating_dec ^^ k) m" for m k
    by (induction k) (auto simp: saturating_dec_def)
  then show "0 \<le> n b \<Longrightarrow> n b - int (count_list bs b) \<le> dec_counts bs n b" by (simp add: dec_counts_def)
qed

lemma ledger_tombstone:
  assumes L: "ledger H J svc h ex f"
  shows "ledger H J svc (EvTombstone now org reason # h) (filter (\<lambda>x. fst x \<noteq> org) ex) (tombstone_effect now org reason f)"
proof (cases "f_origins f org")
  case None
  then have "fst x \<noteq> org" if "x \<in> set (live H J svc h)" for x
    using ledgerD(3) [OF L that] by (cases x) (auto simp: kept_def)
  then have "live H J svc (EvTombstone now org reason # h) = live H J svc h" by simp
  then have E: "ledger H J svc (EvTombstone now org reason # h) ex (tombstone_effect now org reason f)"
    using None by (intro ledger_same [OF L]) (simp_all add: tombstone_effect_def)
  have "demand (live H J svc (EvTombstone now org reason # h)) b + registered (filter (\<lambda>x. fst x \<noteq> org) ex) b
      \<le> f_blob_refs (tombstone_effect now org reason f) b" for b
    using ledgerD(2) [OF E, of b] registered_filter [of org ex b] by linarith
  moreover have "o' \<noteq> org" if "f_origins (tombstone_effect now org reason f) o' = Some rec" for o' rec
    using that None by (auto simp: tombstone_effect_def)
  ultimately show ?thesis using E unfolding ledger_def by (auto simp del: live.simps)
next
  case (Some rec)
  let ?g = "tombstone_effect now org reason f" and ?l = "live H J svc h"
  let ?l' = "filter (\<lambda>x. fst x \<noteq> org) ?l" and ?ex = "filter (\<lambda>x. fst x \<noteq> org) ex"
  have dec: "f_blob_refs f b - int (count_list (root_ids rec) b) \<le> f_blob_refs ?g b" for b
    using dec_counts_le [of "f_blob_refs f" b "root_ids rec"] ledgerD(2) [OF L, of b] demand_nonneg [of ?l b]
      registered_nonneg [of ex b] Some by (simp add: tombstone_effect_def root_ids_def)
  have dm: "demand ?l' b + registered ?ex b \<le> f_blob_refs ?g b" for b
  proof -
    consider "or_representations rec = []" | "org \<in> fst ` set ?l" | "(org, root_ids rec) \<in> set ex"
      using ledgerD(4) [OF L Some] by blast
    then have "demand ?l' b + registered ?ex b \<le> demand ?l b + registered ex b - int (count_list (root_ids rec) b)"
    proof cases
      case 1
      then have "count_list (root_ids rec) b = 0" by (simp add: root_ids_def)
      moreover have "demand ?l' b \<le> demand ?l b" by (rule demand_filter_le)
      ultimately show ?thesis using registered_filter [of org ex b] by simp
    next
      case 2
      then obtain d ids where x: "(org, d, ids) \<in> set ?l" by force
      then have bs: "root_ids rec = [last ids]" "ids \<noteq> []"
        using ledgerD(3) [OF L x] Some by (auto simp: kept_def root_ids_def)
      have "count_list [last ids] b \<le> count_list ids b"
        using bs(2) count_list_0_iff [of ids "last ids"] by (auto simp: Suc_le_eq)
      then show ?thesis
        using demand_filter [OF x, of b] registered_filter [of org ex b] bs(1) by simp
    next
      case 3
      moreover have "demand ?l' b \<le> demand ?l b" by (rule demand_filter_le)
      ultimately show ?thesis using registered_removed [OF 3, of b] by simp
    qed
    then show ?thesis using dec [of b] ledgerD(2) [OF L, of b] by simp
  qed
  have "kept H J svc ?g x" if x: "x \<in> set ?l" "fst x \<noteq> org" for x
  proof -
    obtain o' d ids where eq: "x = (o', d, ids)" by (cases x)
    show ?thesis
      using kept_cong [of H J svc f o' d ids ?g] ledgerD(3) [OF L x(1)] x(2) eq Some by (simp add: tombstone_effect_def)
  qed
  moreover have "f_blobs ?g = f_blobs f" using Some by (simp add: tombstone_effect_def)
  moreover have "or_representations rec' = [] \<or> o' \<in> fst ` set ?l' \<or> (o', root_ids rec') \<in> set ?ex"
    if "f_origins ?g o' = Some rec'" for o' rec'
    using that Some ledgerD(4) [OF L, of o' rec'] by (force simp: tombstone_effect_def split: if_splits)
  ultimately show ?thesis using ledgerD(1) [OF L] dm by (simp add: ledger_def)
qed


section \<open>Every history keeps the invariant\<close>

lemma count_split: "ids \<noteq> [] \<Longrightarrow> count_list ids b = count_list (butlast ids) b + (if b = last ids then 1 else 0)"
  by (cases ids rule: rev_cases) auto

context total_node begin

lemma ledger_upload:
  assumes svc: "service_ok nd J svc" and t: "inv t" and L: "ledger H J svc h ex f"
    and ct: "cr_encrypt (sv_crypto svc) org (ur_bytes req) = Ok ct"
    and ok: "upload_ok H J svc (f_blobs f) ct" and room: "upload_room (upload_plan H J svc ct) org f"
    and nm: "not_manifest H J svc ct" and ne: "upload_plan H J svc ct \<noteq> []"
    and view: "view t = upload_effect H svc (upload_plan H J svc ct) org t_rec u t_edge req fps f"
  shows "ledger H J svc (EvUpload org t_rec u t_edge req # h) ex (view t)"
proof -
  let ?P = "upload_plan H J svc ct" and ?alg = "ec_hash_alg (sv_enc_cas svc)"
  let ?ids = "plan_ids H svc ?P"
  have live: "live H J svc (EvUpload org t_rec u t_edge req # h) = (org, ur_bytes req, ?ids) # live H J svc h"
    using ct by simp
  have ids: "?ids \<noteq> []" using ne by (simp add: plan_ids_def)
  have bl: "f_blobs (view t) = add_blobs H ?alg ?P (f_blobs f)"
    using view by (simp add: upload_effect_def Let_def)
  have refs: "f_blob_refs (view t) b = f_blob_refs f b + int (count_list ?ids b)" for b
    using view count_split [OF ids, of b] by (auto simp: upload_effect_def Let_def add_counts_def)
  have orgs: "f_origins (view t) = (f_origins f)(org \<mapsto> upload_record org t_rec req (last ?ids))"
    using view by (simp add: upload_effect_def Let_def)
  have new: "kept H J svc (view t) (org, ur_bytes req, ?ids)"
    using root_payload_upload [OF svc t ct ok nm bl] ids orgs by (simp add: kept_def upload_record_def)
  have old: "kept H J svc (view t) x" if x: "x \<in> set (live H J svc h)" for x
  proof -
    obtain o' d ids' where eq: "x = (o', d, ids')" by (cases x)
    have k: "kept H J svc f (o', d, ids')" using ledgerD(3) [OF L x] eq by simp
    then have "o' \<noteq> org" using room by (auto simp: kept_def upload_room_def)
    then have "f_origins (view t) o' = f_origins f o'" using orgs by simp
    moreover have "f_blobs (view t) b = f_blobs f b" if "f_blobs f b \<noteq> None" for b
      using that ok bl add_blobs_mono [of H "f_blobs f" ?alg ?P b] by (auto simp: upload_ok_def)
    ultimately show ?thesis unfolding eq by (intro kept_cong [OF k]) simp_all
  qed
  have "cas_ok H (f_blobs (view t))" using ledgerD(1) [OF L] bl cas_ok_add by simp
  moreover have "demand ((org, ur_bytes req, ?ids) # live H J svc h) b + registered ex b \<le> f_blob_refs (view t) b" for b
    using ledgerD(2) [OF L, of b] refs [of b] by simp
  moreover have "or_representations rec = [] \<or> o' \<in> fst ` set ((org, ur_bytes req, ?ids) # live H J svc h)
      \<or> (o', root_ids rec) \<in> set ex"
    if "f_origins (view t) o' = Some rec" for o' rec
    using that orgs ledgerD(4) [OF L, of o' rec] by (auto split: if_splits)
  ultimately show ?thesis using new old unfolding ledger_def live by auto
qed

lemma plan_nonempty:
  assumes "service_ok nd J svc" and "length ct < 2 ^ 63"
  shows "upload_plan H J svc ct \<noteq> []"
proof (cases "sv_chunk_config svc")
  case (Some cfg)
  then obtain ds where "effective_chunker cfg ct = Ok ds"
    using assms by (auto simp: service_ok_def covering_def)
  moreover have J: "codec_ok J" using assms(1) by (simp add: service_ok_def)
  obtain mb where "to_vec J (build_manifest (ec_hash_alg (sv_enc_cas svc)) (of_nat (length ct))
      (map (entry_of H (ec_hash_alg (sv_enc_cas svc))) ds)) = Ok mb"
    by (rule codec_okE [OF J])
  ultimately show ?thesis using Some by (simp add: upload_plan_def planned_blobs_def)
qed (simp add: upload_plan_def)

text \<open>The registered origins that an event leaves.\<close>

lemma ledger_event:
  assumes svc: "service_ok nd J svc" and s: "inv s" and L: "ledger H J svc h ex (view s)"
    and ok: "allowed H J svc ev (view s)"
  shows "ledger H J svc (ev # h) (case ev of EvTombstone now org reason \<Rightarrow> filter (\<lambda>x. fst x \<noteq> org) ex | _ \<Rightarrow> ex)
    (view (snd (perform H J svc ev s)))"
proof -
  let ?t = "snd (perform H J svc ev s)"
  have ref: "inv ?t" "event_effect H J svc ev (view s) (view ?t)"
    using perform_refines [OF svc s ok] by auto
  show ?thesis
  proof (cases ev)
    case (EvUpload org t_rec u t_edge req)
    obtain ct where ct: "cr_encrypt (sv_crypto svc) org (ur_bytes req) = Ok ct"
      "upload_ok H J svc (f_blobs (view s)) ct" "upload_room (upload_plan H J svc ct) org (view s)"
      "not_manifest H J svc ct" using ok EvUpload by auto
    obtain fps where eff: "view ?t = upload_effect H svc (upload_plan H J svc ct) org t_rec u t_edge req fps (view s)"
      using ref(2) ct(1) unfolding EvUpload by (elim effect_elims) simp
    have "upload_plan H J svc ct \<noteq> []" using plan_nonempty [OF svc] ct(2) by (simp add: upload_ok_def)
    then show ?thesis using ledger_upload [OF svc ref(1) L ct(1-4) _ eff] EvUpload by simp
  next
    case (EvTombstone now org reason)
    then show ?thesis using ref(2) ledger_tombstone [OF L] by (auto elim: effect_elims)
  next
    case (EvCollect now ids)
    then show ?thesis using ref(2) ledger_collect [OF L] by (auto elim: effect_elims)
  qed (use ref(2) in \<open>auto elim!: effect_elims intro!: ledger_same [OF L] simp: ref_effect_def org_refs_def
      release_effect_def unpin_effect_def deref_effect_def split: option.splits pin_target.splits\<close>)
qed

lemma run_ledger:
  assumes "node_run H J svc view s0 h s" and svc: "service_ok nd J svc"
    and "inv s0" and "ledger H J svc [] [] (view s0)"
  shows "inv s \<and> ledger H J svc h [] (view s)"
  using assms(1,3,4)
proof induction
  case (run_step h s ev)
  then show ?case
    using ledger_event [OF svc, of s H h "[]" ev] perform_refines [OF svc _ run_step.hyps(2)] by (auto split: event.splits)
qed simp

text \<open>An upload that the ledger lists is read back.\<close>

lemma ledger_payload:
  assumes svc: "service_ok nd J svc" and s: "inv s" and L: "ledger H J svc h ex (view s)"
    and x: "(org, d, ids) \<in> set (live H J svc h)"
  shows "get_payload H J svc org s = (Ok d, s)"
proof -
  have k: "kept H J svc (view s) (org, d, ids)" using ledgerD(3) [OF L x] .
  then obtain rec where "f_origins (view s) org = Some rec" "map rep_root_blobs (or_representations rec) = [[last ids]]"
    by (auto simp: kept_def)
  then have "payload_of H J (sv_crypto svc) (view s) org = Ok d"
    using k by (auto simp: payload_of_def root_of_def kept_def)
  then show ?thesis using get_payload_eq [OF svc s] by simp
qed

lemma run_keeps_payload:
  assumes "node_run H J svc view s0 h s" and svc: "service_ok nd J svc"
    and "inv s0" and "ledger H J svc [] [] (view s0)" and "(org, d, ids) \<in> set (live H J svc h)"
  shows "get_payload H J svc org s = (Ok d, s)"
  using ledger_payload [OF svc] run_ledger [OF assms(1-4)] assms(5) by blast

end


section \<open>Share proofs along a history\<close>

fun edge_time :: "event \<Rightarrow> time option" where
  "edge_time (EvUpload org t_rec u t_edge req) = Some t_edge"
| "edge_time (EvShare us anchor t_rec u t_edge src dst org caps) = Some t_edge"
| "edge_time (EvDerive ud t_rec u t_edge org kind media) = Some t_edge"
| "edge_time (EvPin up t_rec u t_edge who org n) = Some t_edge"
| "edge_time _ = None"

fun anchor_of :: "event \<Rightarrow> time option" where
  "anchor_of (EvShare us anchor t_rec u t_edge src dst org caps) = Some anchor"
| "anchor_of _ = None"

text \<open>Edges are never stamped earlier than the anchor of a share that precedes them.\<close>

fun clocked :: "event list \<Rightarrow> bool" where
  "clocked [] = True"
| "clocked (ev # h) = (clocked h \<and> (case edge_time ev of None \<Rightarrow> True
     | Some t \<Rightarrow> list_all (\<lambda>ev'. case anchor_of ev' of None \<Rightarrow> True | Some a \<Rightarrow> a \<le> t) (ev # h)))"

definition share_proved :: "hashes \<Rightarrow> 'w service \<Rightarrow> facts \<Rightarrow> share_record \<Rightarrow> bool" where
  "share_proved H svc f sh \<longleftrightarrow> (\<exists>es p.
     mset es = filter_mset (\<lambda>e. le_origin_id e = sr_origin_id sh \<and> le_created_at e < sr_proof_created_at sh) (f_edges f)
     \<and> generate_proof_unsigned H (sr_origin_id sh) es (sr_proof_created_at sh) = Ok p \<and> sr_proof_digest sh = lp_digest p
     \<and> sign_proof svc (sr_proof_digest sh) = Ok (sr_proof_key_id sh, sr_proof_sig_b64 sh))"

definition shares_proved :: "hashes \<Rightarrow> 'w service \<Rightarrow> event list \<Rightarrow> facts \<Rightarrow> bool" where
  "shares_proved H svc h f \<longleftrightarrow> (\<forall>sid sh. f_shares f sid = Some sh \<longrightarrow>
     share_proved H svc f sh \<and> Some (sr_proof_created_at sh) \<in> anchor_of ` set h)"

lemma share_proved_mono:
  assumes "share_proved H svc f sh" and "f_edges g = f_edges f
    \<or> (\<exists>e. f_edges g = add_mset e (f_edges f) \<and> sr_proof_created_at sh \<le> le_created_at e)"
  shows "share_proved H svc g sh"
proof -
  have "filter_mset (\<lambda>e. le_origin_id e = sr_origin_id sh \<and> le_created_at e < sr_proof_created_at sh) (f_edges g)
    = filter_mset (\<lambda>e. le_origin_id e = sr_origin_id sh \<and> le_created_at e < sr_proof_created_at sh) (f_edges f)"
    using assms(2) by auto
  then show ?thesis using assms(1) by (simp add: share_proved_def)
qed

lemma effect_edges:
  assumes "event_effect H J svc ev f g"
  shows "f_edges g = f_edges f \<or> (\<exists>e. f_edges g = add_mset e (f_edges f) \<and> edge_time ev = Some (le_created_at e))"
  using assms
  by (cases rule: event_effect.cases)
    (auto simp: upload_effect_def Let_def upload_edge_def ref_effect_def plain_edge_def org_refs_def release_effect_def
      unpin_effect_def deref_effect_def tombstone_effect_def collect_effect_def split: option.splits pin_target.splits)

lemma effect_shares:
  assumes "event_effect H J svc ev f g" and "f_shares g sid = Some sh"
  shows "f_shares f sid = Some sh
    \<or> (share_proved H svc f sh \<and> anchor_of ev = Some (sr_proof_created_at sh))"
  using assms
proof (cases rule: event_effect.cases)
  case (eff_share es org anchor p sig s us t_rec src dst caps u t_edge)
  show ?thesis
  proof (cases "sid = share_id_of us")
    case True
    then have sh: "sh = s" using assms(2) eff_share by (simp add: ref_effect_def org_refs_def)
    have "mset (filter (\<lambda>e. le_created_at e < anchor) es)
      = filter_mset (\<lambda>e. le_origin_id e = org \<and> le_created_at e < anchor) (f_edges f)"
      by (simp add: eff_share(3) filter_filter_mset conj_commute)
    then have "share_proved H svc f sh"
      using eff_share unfolding sh share_proved_def
      by (intro exI [of _ "filter (\<lambda>e. le_created_at e < anchor) es"] exI [of _ p]) (simp add: new_share_def)
    then show ?thesis using sh eff_share by (simp add: new_share_def)
  qed (use assms(2) eff_share in \<open>simp add: ref_effect_def org_refs_def\<close>)
qed (auto simp: upload_effect_def Let_def ref_effect_def org_refs_def release_effect_def
      unpin_effect_def deref_effect_def tombstone_effect_def collect_effect_def split: option.splits pin_target.splits)

lemma shares_proved_step:
  assumes eff: "event_effect H J svc ev f g" and S: "shares_proved H svc h f" and c: "clocked (ev # h)"
  shows "shares_proved H svc (ev # h) g"
proof -
  have "share_proved H svc g sh \<and> Some (sr_proof_created_at sh) \<in> anchor_of ` set (ev # h)"
    if sh: "f_shares g sid = Some sh" for sid sh
  proof -
    have A: "share_proved H svc f sh" "Some (sr_proof_created_at sh) \<in> anchor_of ` set (ev # h)"
      using effect_shares [OF eff sh] S by (auto simp: shares_proved_def)
    obtain ev' where ev': "ev' \<in> set (ev # h)" "anchor_of ev' = Some (sr_proof_created_at sh)" using A(2) by force
    have "sr_proof_created_at sh \<le> t" if "edge_time ev = Some t" for t
      using c that ev' by (auto simp: list_all_iff split: option.splits)
    then show ?thesis using share_proved_mono [OF A(1)] effect_edges [OF eff] A(2) by blast
  qed
  then show ?thesis by (simp add: shares_proved_def)
qed

definition signer_ok :: "'w service \<Rightarrow> bool" where
  "signer_ok svc \<longleftrightarrow> (\<forall>sg d sig. sv_signer svc = Some sg \<longrightarrow> sg_sign sg d = Ok sig \<longrightarrow> sg_verify sg d sig = Ok True)"

text \<open>No two edges of a node have the same identifier.\<close>

definition edge_ids_distinct :: "facts \<Rightarrow> bool" where
  "edge_ids_distinct f \<longleftrightarrow> (\<forall>x. count (image_mset le_edge_id (f_edges f)) x \<le> 1)"

lemma edge_ids_distinctD:
  assumes "edge_ids_distinct f" and "mset es \<subseteq># f_edges f"
  shows "distinct (map le_edge_id es)"
proof -
  have "mset (map le_edge_id es) \<subseteq># image_mset le_edge_id (f_edges f)"
    using image_mset_subseteq_mono [OF assms(2), of le_edge_id] by simp
  then have "count (mset (map le_edge_id es)) x \<le> count (image_mset le_edge_id (f_edges f)) x" for x
    by (rule mset_subset_eq_count)
  then have "count (mset (map le_edge_id es)) x \<le> 1" for x
    using assms(1) by (meson edge_ids_distinct_def order_trans)
  then show ?thesis
    by (metis count_mset_0_iff distinct_count_atmost_1 le_antisym less_one linorder_not_less)
qed

fun edge_uuid :: "event \<Rightarrow> uuid option" where
  "edge_uuid (EvUpload org t_rec u t_edge req) = Some u"
| "edge_uuid (EvShare us anchor t_rec u t_edge src dst org caps) = Some u"
| "edge_uuid (EvDerive ud t_rec u t_edge org kind media) = Some u"
| "edge_uuid (EvPin up t_rec u t_edge who org n) = Some u"
| "edge_uuid _ = None"

lemma allowed_fresh: "allowed H J svc ev f \<Longrightarrow> edge_uuid ev = Some u \<Longrightarrow> fresh_edge u f"
  by (cases ev) simp_all

lemma effect_edge_uuid:
  assumes "event_effect H J svc ev f g"
  shows "f_edges g = f_edges f
    \<or> (\<exists>e u. f_edges g = add_mset e (f_edges f) \<and> edge_uuid ev = Some u \<and> le_edge_id e = edge_id_of u)"
  using assms
  by (cases rule: event_effect.cases)
    (auto simp: upload_effect_def Let_def upload_edge_def ref_effect_def plain_edge_def org_refs_def release_effect_def
      unpin_effect_def deref_effect_def tombstone_effect_def collect_effect_def split: option.splits pin_target.splits)

lemma effect_edges_fresh:
  assumes "event_effect H J svc ev f g" and "allowed H J svc ev f"
  shows "f_edges g = f_edges f
    \<or> (\<exists>e. f_edges g = add_mset e (f_edges f) \<and> le_edge_id e \<notin> le_edge_id ` set_mset (f_edges f))"
  using effect_edge_uuid [OF assms(1)] allowed_fresh [OF assms(2)] by (metis fresh_edge_def)

lemma edge_ids_step:
  assumes "event_effect H J svc ev f g" and "allowed H J svc ev f" and "edge_ids_distinct f"
  shows "edge_ids_distinct g"
proof -
  consider "f_edges g = f_edges f"
    | e where "f_edges g = add_mset e (f_edges f)" "le_edge_id e \<notin> le_edge_id ` set_mset (f_edges f)"
    using effect_edges_fresh [OF assms(1,2)] by blast
  then show ?thesis
  proof cases
    case 1
    then show ?thesis using assms(3) by (simp add: edge_ids_distinct_def)
  next
    case 2
    have "count (image_mset le_edge_id (f_edges f)) (le_edge_id e) = 0"
      using 2(2) by (metis count_eq_zero_iff set_image_mset)
    then show ?thesis using 2(1) assms(3) by (simp add: edge_ids_distinct_def)
  qed
qed

context total_node begin

lemma run_shares:
  assumes "node_run H J svc view s0 h s" and svc: "service_ok nd J svc"
    and "inv s0" and "shares_proved H svc [] (view s0)" and "edge_ids_distinct (view s0)" and "clocked h"
  shows "inv s \<and> shares_proved H svc h (view s) \<and> edge_ids_distinct (view s)"
  using assms(1,3-6)
proof induction
  case (run_step h s ev)
  then have s: "inv s" "shares_proved H svc h (view s)" "edge_ids_distinct (view s)" by auto
  show ?case
    using perform_refines [OF svc s(1) run_step.hyps(2)] shares_proved_step [OF _ s(2)] run_step.prems
      edge_ids_step [OF _ run_step.hyps(2) s(3)] by blast
qed simp

lemma share_verifies:
  assumes svc: "service_ok nd J svc" "signer_ok svc" and s: "inv s" and P: "share_proved H svc (view s) sh"
    and ids: "edge_ids_distinct (view s)"
  shows "verify_share_proof H svc sh s = (Ok True, s)"
proof -
  let ?org = "sr_origin_id sh" and ?a = "sr_proof_created_at sh"
  obtain es p where es: "mset es = filter_mset (\<lambda>e. le_origin_id e = ?org \<and> le_created_at e < ?a) (f_edges (view s))"
    "generate_proof_unsigned H ?org es ?a = Ok p" "sr_proof_digest sh = lp_digest p"
    "sign_proof svc (sr_proof_digest sh) = Ok (sr_proof_key_id sh, sr_proof_sig_b64 sh)"
    using P by (auto simp: share_proved_def)
  obtain fs q where fs: "lineage_proof_at H svc ?org ?a s = (Ok q, s)"
    "mset fs = filter_mset (\<lambda>e. le_origin_id e = ?org) (f_edges (view s))"
    "generate_proof_unsigned H ?org (filter (\<lambda>e. le_created_at e < ?a) fs) ?a = Ok q"
    using proof_at_law [OF svc(1) s] by blast
  have same: "mset es = mset (filter (\<lambda>e. le_created_at e < ?a) fs)"
    using es(1) fs(2) by (simp add: filter_filter_mset conj_commute)
  have "distinct (map le_edge_id es)"
    using edge_ids_distinctD [OF ids] es(1) multiset_filter_subset by metis
  then have "p = q" using generate_perm [OF same] es(2) fs(3) by simp
  then show ?thesis
    using fs(1) es(3,4) svc(2)
    by (auto simp: verify_share_proof_def act_simps sign_proof_def signer_ok_def bindR_eq_Ok split: option.splits)
qed

end

section \<open>References that are never released\<close>

lemma tombstone_chunk_refs:
  assumes "f_origins f org = Some (upload_record org t_rec req (last ids))" and "ids \<noteq> []"
    and "f_blob_refs f b = n + int (count_list ids b)" and "0 \<le> n" and "b \<in> set (butlast ids)"
  shows "1 \<le> f_blob_refs (tombstone_effect now org reason f) b"
proof -
  have "1 \<le> int (count_list (butlast ids) b)" using assms(5) count_list_0_iff [of "butlast ids" b] by linarith
  then show ?thesis
    using assms count_split [OF assms(2), of b]
    by (auto simp: tombstone_effect_def upload_record_def dec_counts_def saturating_dec_def)
qed

context total_node begin

lemma tombstone_leak:
  assumes svc: "service_ok nd J svc" and s: "inv s"
    and al: "allowed H J svc (EvUpload org t_rec u t_edge req) (view s)"
    and r: "upload H J svc org t_rec u t_edge req s = (Ok r, s1)"
    and tomb: "tombstone_origin svc now org reason s1 = (q, s2)"
    and gc: "gc_collect nd later ids s2 = (g, s3)" and b: "b \<in> set (ul_chunk_blobs r)"
  shows "q = Ok () \<and> 1 \<le> f_blob_refs (view s3) b \<and> f_blobs (view s3) b \<noteq> None"
proof -
  obtain fps ct where a: "plain_fingerprints H (sv_chunk_config svc) (ur_bytes req) = Ok fps"
    "cr_encrypt (sv_crypto svc) org (ur_bytes req) = Ok ct" "upload_ok H J svc (f_blobs (view s)) ct"
    "upload_room (upload_plan H J svc ct) org (view s)" "fresh_edge u (view s)" using al by auto
  let ?P = "upload_plan H J svc ct"
  let ?ids = "plan_ids H svc ?P"
  have s1: "inv s1" "view s1 = upload_effect H svc ?P org t_rec u t_edge req fps (view s)" "b \<in> set (butlast ?ids)"
    using upload_law [OF svc s a(2,3,1,4,5), of t_rec t_edge] r b by auto
  have ids: "?ids \<noteq> []" using s1(3) by auto
  have org: "f_origins (view s1) org = Some (upload_record org t_rec req (last ?ids))"
    using s1(2) by (simp add: upload_effect_def Let_def)
  have refs: "f_blob_refs (view s1) b = f_blob_refs (view s) b + int (count_list ?ids b)"
    using s1(2) count_split [OF ids, of b] by (auto simp: upload_effect_def Let_def add_counts_def)
  obtain pl where pl: "pl \<in> set ?P" "b = compute_blob_id H pl (ec_hash_alg (sv_enc_cas svc))"
    using in_set_butlastD [OF s1(3)] by (auto simp: plan_ids_def)
  have "f_blobs (view s1) b = Some pl"
    using s1(2) a(3) pl add_blobs_mem [of H "f_blobs (view s)"] by (simp add: upload_effect_def Let_def upload_ok_def)
  moreover have s2: "inv s2" "view s2 = tombstone_effect now org reason (view s1)" "q = Ok ()"
    using tombstone_law [OF svc s1(1), of now org reason] tomb org by auto
  moreover have "f_blobs (view s2) = f_blobs (view s1)" using s2(2) org by (simp add: tombstone_effect_def)
  moreover have "1 \<le> f_blob_refs (view s2) b"
    using tombstone_chunk_refs [OF org ids refs _ s1(3)] refs_nonneg [OF s] s2(2) by simp
  ultimately show ?thesis using gc_collect_law [OF s2(1) gc] by auto
qed

lemma release_again:
  assumes svc: "service_ok nd J svc" and s: "inv s" and sh: "f_shares (view s) sid = Some sh"
  shows "\<exists>t. forM [0..<k] (\<lambda>_. release_share svc sid) s = (Ok (), t) \<and> inv t
    \<and> view t = org_refs (sr_origin_id sh) (max 0 (f_origin_refs (view s) (sr_origin_id sh) - int k)) (view s)
    \<and> is_gc_candidate svc (sr_origin_id sh) t = (Ok (f_origin_refs (view s) (sr_origin_id sh) \<le> int k), t)"
proof -
  let ?org = "sr_origin_id sh"
  have "\<exists>t. forM xs (\<lambda>_. release_share svc sid) s = (Ok (), t) \<and> inv t
    \<and> view t = org_refs ?org (max 0 (f_origin_refs (view s) ?org - int (length xs))) (view s)" for xs :: "nat list"
    using s sh
  proof (induction xs arbitrary: s)
    case Nil
    then show ?case using refs_nonneg [OF Nil(1), of ?org] by (simp add: org_refs_def)
  next
    case (Cons x xs)
    obtain s1 where s1: "release_share svc sid s = (Ok (), s1)" "inv s1" "view s1 = deref_effect ?org (view s)"
      using release_law [OF svc Cons.prems(1), of sid] Cons.prems(2) by (auto simp: release_effect_def)
    have "f_shares (view s1) sid = Some sh" using s1(3) Cons.prems(2) by (simp add: deref_effect_def org_refs_def)
    then obtain t where "forM xs (\<lambda>_. release_share svc sid) s1 = (Ok (), t)" "inv t"
      "view t = org_refs ?org (max 0 (f_origin_refs (view s1) ?org - int (length xs))) (view s1)"
      using Cons.IH [OF s1(2)] by blast
    moreover have "max 0 (saturating_dec n - m) = max 0 (n - (1 + m))" if "0 \<le> m" for n m
      using that by (simp add: saturating_dec_def max_def)
    ultimately show ?case using s1 by (auto simp: act_simps deref_effect_def org_refs_def)
  qed
  from this [of "[0..<k]"] obtain t where t: "forM [0..<k] (\<lambda>_. release_share svc sid) s = (Ok (), t)" "inv t"
    "view t = org_refs ?org (max 0 (f_origin_refs (view s) ?org - int k)) (view s)"
    by auto
  then show ?thesis
    using svc get_origin_refs [OF t(2), of ?org]
    by (auto simp: is_gc_candidate_def service_ok_def act_simps org_refs_def max_def)
qed

end

section \<open>Payloads that are manifests\<close>

context total_node begin

lemma manifest_misread:
  assumes svc: "service_ok nd J svc" and s: "inv s" and ct: "cr_encrypt (sv_crypto svc) org (ur_bytes req) = Ok ct"
    and plan: "upload_plan H J svc ct = [ct]" and m: "try_parse_manifest J ct = Some m"
    and ok: "upload_ok H J svc (f_blobs (view s)) ct"
    and fps: "plain_fingerprints H (sv_chunk_config svc) (ur_bytes req) = Ok fps"
    and room: "upload_room [ct] org (view s)" and edge: "fresh_edge u (view s)"
  shows "\<exists>t r. upload H J svc org t_rec u t_edge req s = (Ok r, t)
    \<and> f_blobs (view t) = (f_blobs (view s))(compute_blob_id H ct (ec_hash_alg (sv_enc_cas svc)) \<mapsto> ct)
    \<and> get_payload H J svc org t
        = (bindR (reassemble_pure H m (f_blobs (view t))) (\<lambda>c. cr_decrypt (sv_crypto svc) org c), t)"
proof -
  let ?id = "compute_blob_id H ct (ec_hash_alg (sv_enc_cas svc))"
  obtain t r where t: "upload H J svc org t_rec u t_edge req s = (Ok r, t)" "inv t"
    "view t = upload_effect H svc [ct] org t_rec u t_edge req fps (view s)"
    using upload_law [OF svc s ct ok fps _ edge, of t_rec t_edge] room plan by auto
  have blobs: "f_blobs (view t) = (f_blobs (view s))(?id \<mapsto> ct)" "f_origins (view t) org = Some (upload_record org t_rec req ?id)"
    using t(3) by (simp_all add: upload_effect_def Let_def plan_ids_def)
  from this have "payload_of H J (sv_crypto svc) (view t) org
      = bindR (reassemble_pure H m (f_blobs (view t))) (\<lambda>c. cr_decrypt (sv_crypto svc) org c)"
    using m by (simp add: payload_of_def root_payload_def)
  then show ?thesis using t(1) blobs(1) get_payload_eq [OF svc t(2)] by metis
qed

end

text \<open>What reassembling answers when it answers bytes, and when the first chunk is missing.\<close>

lemma reassembled_parts:
  assumes "reassemble_pure H m blobs = Ok c"
  obtains parts where "map (\<lambda>e. blobs (ce_blob_id e)) (cm_chunks m) = map Some parts" and "c = concat parts"
proof -
  obtain parts where parts: "mapR (fetch_pure H blobs) (cm_chunks m) = Ok parts" "c = concat parts"
    using assms by (auto simp: reassemble_pure_def bindR_eq_Ok split: if_splits)
  have "map (\<lambda>e. blobs (ce_blob_id e)) es = map Some ps" if "mapR (fetch_pure H blobs) es = Ok ps" for es ps
    using that
  proof (induction es arbitrary: ps)
    case (Cons e es)
    then show ?case
      by (cases "blobs (ce_blob_id e)") (auto simp: bindR_eq_Ok fetch_pure_def split: if_splits)
  qed simp
  then show ?thesis using parts that by blast
qed

lemma reassemble_missing:
  assumes "cm_chunks m = e # es" and "blobs (ce_blob_id e) = None" and "unat (cm_total_size m) < 2 ^ 63"
  shows "reassemble_pure H m blobs = Err NotFound"
  using assms by (simp add: reassemble_pure_def fetch_pure_def)

end
