(* ===== verification/Sodl_Demo.thy ===== *)
theory Sodl_Demo
  imports Sodl_Lifecycle
begin

text \<open>
  A concrete node for examples: the in-memory node with the identity cipher, chunks of two
  bytes, and lemmas that evaluate short histories on it.
\<close>

section \<open>An example history\<close>

lemma new_ledger: "ledger H J svc [] [] (mem_view mem_world_new)"
  by (simp add: ledger_def demo_view_new cas_ok_def)

lemma new_shares: "shares_proved H svc [] (mem_view mem_world_new)" "edge_ids_distinct (mem_view mem_world_new)"
  by (simp_all add: shares_proved_def edge_ids_distinct_def mem_view_def mem_world_new_def mem_index_new_def hget_def)

abbreviation demo_on :: "'w node \<Rightarrow> 'w service" where
  "demo_on nd \<equiv> demo_service nd null_crypto (Some demo_chunks)"

abbreviation demo_node :: "mem_world service" where
  "demo_node \<equiv> demo_on mem_node"

lemma demo_node_ok: "service_ok nd demo_manifest_codec (demo_on nd)"
  by (rule demo_service_ok) (simp_all add: null_provider.provider_ok)

definition demo_small :: "int \<Rightarrow> facts \<Rightarrow> bool" where
  "demo_small n f \<longleftrightarrow> cas_ok demo_hashes (f_blobs f) \<and> (\<forall>b. f_blob_refs f b \<le> n)"

lemma demo_new_small: "demo_small 0 (mem_view mem_world_new)"
  by (simp add: demo_small_def demo_view_new cas_ok_def)

lemma demo_empty:
  "f_shares (mem_view mem_world_new) = (\<lambda>_. None)" "f_pins (mem_view mem_world_new) = (\<lambda>_. None)"
  "f_edges (mem_view mem_world_new) = {#}"
  by (simp_all add: mem_view_def mem_world_new_def mem_index_new_def hget_def fun_eq_iff)

lemma demo_upload_allowed:
  assumes "demo_small n f" and "n \<le> 1000" and "fresh_edge u f" and "f_origins f org = None" and "f_origin_refs f org = 0"
  shows "allowed demo_hashes demo_manifest_codec (demo_on nd) (EvUpload org t u t' (demo_request [a, b, c])) f"
proof -
  obtain mb where plan: "upload_plan demo_hashes demo_manifest_codec (demo_on nd) [a, b, c] = [[a, b], [c], mb]"
    by (rule demo_plan_3)
  have "\<exists>fps. plain_fingerprints demo_hashes (sv_chunk_config (demo_on nd)) [a, b, c] = Ok fps"
    using demo_threshold
    by (simp add: plain_fingerprints_def demo_service_def compute_chunk_blob_ids_def demo_chunks_3)
  moreover have "f_blob_refs f x + 3 \<le> I64_MAX" for x
  proof -
    have "f_blob_refs f x \<le> n" using assms(1) by (simp add: demo_small_def)
    then have "f_blob_refs f x \<le> 1000" using assms(2) by simp
    then show ?thesis by (simp add: I64_MAX_def)
  qed
  ultimately show ?thesis
    using assms plan demo_no_collision
    by (auto simp: demo_request_def demo_service_def null_crypto_def upload_ok_def upload_room_def not_manifest_def
        demo_small_def I64_MAX_def)
qed

lemma demo_live_upload:
  "live demo_hashes demo_manifest_codec (demo_on nd) (EvUpload org t u t' (demo_request d) # h) =
     (org, d, plan_ids demo_hashes (demo_on nd) (upload_plan demo_hashes demo_manifest_codec (demo_on nd) d))
       # live demo_hashes demo_manifest_codec (demo_on nd) h"
  by (simp add: demo_service_def null_crypto_def demo_request_def)


lemma demo_upload_effect:
  assumes s: "mem_inv s" "demo_small n (mem_view s)" "n \<le> 1000" and fr: "fresh_edge u (mem_view s)"
    and "f_origins (mem_view s) org = None" and "f_origin_refs (mem_view s) org = 0"
    and t: "t = snd (perform demo_hashes demo_manifest_codec demo_node (EvUpload org ta u tb (demo_request [a, b, c])) s)"
  shows "mem_inv t \<and> demo_small (n + 3) (mem_view t)
    \<and> (\<exists>rec. f_origins (mem_view t) = (f_origins (mem_view s))(org \<mapsto> rec))
    \<and> f_origin_refs (mem_view t) = (f_origin_refs (mem_view s))(org := 1)
    \<and> (\<exists>bid. f_edges (mem_view t) = add_mset (upload_edge org u tb bid) (f_edges (mem_view s)))
    \<and> f_shares (mem_view t) = f_shares (mem_view s) \<and> f_pins (mem_view t) = f_pins (mem_view s)"
proof -
  let ?req = "demo_request [a, b, c]" and ?f = "mem_view s"
  have al: "allowed demo_hashes demo_manifest_codec demo_node (EvUpload org ta u tb ?req) ?f"
    using demo_upload_allowed assms(2-6) by blast
  have ref: "mem_inv t" "event_effect demo_hashes demo_manifest_codec demo_node (EvUpload org ta u tb ?req) ?f (mem_view t)"
    using mem_total.perform_refines [OF demo_node_ok s(1) al] t by blast+
  obtain mb where plan: "upload_plan demo_hashes demo_manifest_codec demo_node [a, b, c] = [[a, b], [c], mb]"
    by (rule demo_plan_3)
  let ?ids = "plan_ids demo_hashes demo_node [[a, b], [c], mb]"
  obtain fps where view: "mem_view t = upload_effect demo_hashes demo_node [[a, b], [c], mb] org ta u tb ?req fps ?f"
    using ref(2) plan by (elim effect_elims) (auto simp: demo_request_def demo_service_def null_crypto_def)
  have "count_list ?ids x \<le> 3" for x
    by (rule order_trans [OF count_le_length]) (simp add: plan_ids_def)
  moreover have "f_blob_refs (mem_view t) x = f_blob_refs ?f x + int (count_list ?ids x)" for x
    using view count_split [of ?ids x] by (auto simp: upload_effect_def Let_def add_counts_def plan_ids_def)
  ultimately have "f_blob_refs (mem_view t) x \<le> n + 3" for x
    using s(2) by (metis add_mono demo_small_def of_nat_le_iff of_nat_numeral)
  moreover have "cas_ok demo_hashes (f_blobs (mem_view t))"
    using view s(2) cas_ok_add [of demo_hashes "f_blobs ?f"]
    by (simp add: upload_effect_def Let_def demo_small_def del: add_blobs_simps)
  ultimately have "demo_small (n + 3) (mem_view t)" by (simp add: demo_small_def)
  then show ?thesis using ref(1) view assms(6) by (auto simp: upload_effect_def Let_def)
qed


lemma demo_uuids: "distinct [edge_id_of 3, edge_id_of 2, edge_id_of 1]"
  by code_simp

lemma demo_share_effect:
  assumes "event_effect demo_hashes demo_manifest_codec demo_node (EvShare us anchor ta u tb src dst org caps) f g"
  obtains sh where "g = ref_effect org u tb (RefShare (share_id_of us) src dst) (f\<lparr>f_shares := (f_shares f)(share_id_of us \<mapsto> sh)\<rparr>)"
    "sr_origin_id sh = org" "sr_share_id sh = share_id_of us"
  using assms
proof (elim effect_elims(2), goal_cases)
  case (1 es p sig)
  show ?case by (rule 1(1) [OF 1(2)]) (simp_all add: new_share_def)
next
  case (2 es p)
  have "\<not> is_blank (lp_digest p)"
    using 2(4) by (auto simp: generate_proof_unsigned_def demo_hashes_def demo_hex_def is_blank_def blank_not_blank_cons)
  then show ?case using 2(5) by (simp add: sign_proof_def demo_service_def)
qed

lemma demo_upload_chunks:
  obtains r s1 where "upload demo_hashes demo_manifest_codec demo_node 5 1 1 1 (demo_request [a, b, c]) mem_world_new = (Ok r, s1)"
    "length (ul_chunk_blobs r) = 2"
proof -
  let ?req = "demo_request [a, b, c]"
  have al: "allowed demo_hashes demo_manifest_codec demo_node (EvUpload 5 1 1 1 ?req) (mem_view mem_world_new)"
    by (rule demo_upload_allowed [OF demo_new_small]) (simp_all add: demo_view_new demo_edge_fresh)
  obtain mb where plan: "upload_plan demo_hashes demo_manifest_codec demo_node [a, b, c] = [[a, b], [c], mb]"
    by (rule demo_plan_3)
  obtain fps ct where x: "plain_fingerprints demo_hashes (sv_chunk_config demo_node) (ur_bytes ?req) = Ok fps"
    "cr_encrypt (sv_crypto demo_node) 5 (ur_bytes ?req) = Ok ct"
    "upload_ok demo_hashes demo_manifest_codec demo_node (f_blobs (mem_view mem_world_new)) ct"
    "upload_room (upload_plan demo_hashes demo_manifest_codec demo_node ct) 5 (mem_view mem_world_new)"
    "fresh_edge 1 (mem_view mem_world_new)"
    using al by auto
  have ct: "ct = [a, b, c]" using x(2) by (simp add: demo_service_def null_crypto_def demo_request_def)
  show ?thesis
    using mem_total.upload_law [OF demo_node_ok mem_world_new_inv x(2,3,1,4,5), of 1 1] plan ct that
    by (auto simp: plan_ids_def)
qed

text \<open>The text of a manifest that lists a chunk nobody has.\<close>

definition stray_manifest :: chunk_manifest where
  "stray_manifest = build_manifest Blake3 0 [\<lparr>ce_blob_id = [], ce_offset = 0, ce_length = 0\<rparr>]"

lemma demo_stray: obtains d where "to_vec demo_manifest_codec stray_manifest = Ok d" "length d < 2 ^ 63"
proof -
  define d where "d = (case to_vec demo_manifest_codec stray_manifest of Ok d \<Rightarrow> d | _ \<Rightarrow> [])"
  have "to_vec demo_manifest_codec stray_manifest = Ok d"
    unfolding d_def by (simp add: demo_manifest_codec_def codec_of_def)
  moreover have "length d < 2 ^ 63"
    unfolding d_def
    by (simp add: demo_manifest_codec_def codec_of_def stray_manifest_def build_manifest_def map_enc_def pair_enc_def
        word_enc_def text_enc_def list_enc_def nat_enc_def entry_enc_def)
  ultimately show ?thesis by (rule that)
qed


text \<open>The node after an upload and a share of it.\<close>

abbreviation demo_ev1 where "demo_ev1 \<equiv> EvUpload 5 10 1 10 (demo_request [1, 2, 3])"
abbreviation demo_ev2 where "demo_ev2 \<equiv> EvShare 9 20 20 2 20 ''alice'' ''bob'' 5 [Read]"

lemma demo_shared:
  obtains w sh bid where "node_run demo_hashes demo_manifest_codec demo_node mem_view mem_world_new [demo_ev2, demo_ev1] w"
    "mem_inv w" "f_shares (mem_view w) (share_id_of 9) = Some sh" "sr_origin_id sh = 5"
    "f_origin_refs (mem_view w) 5 = 2" "f_origins (mem_view w) 5 \<noteq> None" "f_pins (mem_view w) = (\<lambda>_. None)"
    "f_edges (mem_view w) = {#plain_edge 5 2 20 (RefShare (share_id_of 9) ''alice'' ''bob''), upload_edge 5 1 10 bid#}"
proof -
  let ?p = "perform demo_hashes demo_manifest_codec demo_node"
  let ?al = "allowed demo_hashes demo_manifest_codec demo_node"
  define s1 where "s1 = snd (?p demo_ev1 mem_world_new)"
  define s2 where "s2 = snd (?p demo_ev2 s1)"
  have a1: "?al demo_ev1 (mem_view mem_world_new)"
    by (rule demo_upload_allowed [OF demo_new_small]) (simp_all add: demo_view_new demo_edge_fresh)
  obtain bid where f1: "mem_inv s1" "f_origin_refs (mem_view s1) 5 = 1" "f_pins (mem_view s1) = (\<lambda>_. None)"
    "f_shares (mem_view s1) = (\<lambda>_. None)" "f_edges (mem_view s1) = {#upload_edge 5 1 10 bid#}" "f_origins (mem_view s1) 5 \<noteq> None"
    using demo_upload_effect [OF mem_world_new_inv demo_new_small _ demo_edge_fresh _ _ s1_def]
    by (auto simp: demo_view_new demo_empty)
  have a2: "?al demo_ev2 (mem_view s1)"
    using f1 demo_uuids by (simp add: I64_MAX_def fresh_edge_def upload_edge_def)
  have e2: "mem_inv s2" "event_effect demo_hashes demo_manifest_codec demo_node demo_ev2 (mem_view s1) (mem_view s2)"
    using mem_total.perform_refines [OF demo_node_ok f1(1) a2] by (simp_all add: s2_def)
  obtain sh where v2: "mem_view s2 = ref_effect 5 2 20 (RefShare (share_id_of 9) ''alice'' ''bob'')
      ((mem_view s1)\<lparr>f_shares := (f_shares (mem_view s1))(share_id_of 9 \<mapsto> sh)\<rparr>)" "sr_origin_id sh = 5"
    using demo_share_effect [OF e2(2)] by blast
  have "node_run demo_hashes demo_manifest_codec demo_node mem_view mem_world_new [demo_ev2, demo_ev1] s2"
    unfolding s2_def s1_def by (intro run_step run_start a1 a2 [unfolded s1_def])
  then show ?thesis
    by (rule that [of s2 sh bid]) (use e2(1) v2 f1 in \<open>simp_all add: ref_effect_def org_refs_def\<close>)
qed

end
