(* ===== verification/Sodl_Replica.thy ===== *)
theory Sodl_Replica
  imports Sodl_Gc
begin

text \<open>
  Replication, \<open>crates/sodl-replica\<close>: the mesh of per-node blob stores and the executor that
  carries out a repair plan. The locale \<open>mesh_laws\<close> is the contract of a mesh with a replica
  table; the in-memory mesh satisfies it. The last section composes the executor with the auditor.
\<close>

section \<open>The mesh and the executor\<close>

record 'w store_mesh =
  sm_node_ids :: "('w, string list) op"
  sm_store :: "string \<Rightarrow> ('w, 'w blob_store) op"

fun find_source :: "'w store_mesh \<Rightarrow> blob_id \<Rightarrow> string list \<Rightarrow> ('w, string option) op" where
  "find_source mesh b [] = returnM None"
| "find_source mesh b (nid # nids) =
     bindM (sm_store mesh nid) (\<lambda>st. bindM (bs_has st b) (\<lambda>found.
       if found then returnM (Some nid) else find_source mesh b nids))"

text \<open>The copying loop. \<open>clock k\<close> is the time of the k-th record it writes.\<close>

fun replicate_to ::
  "'w store_mesh \<Rightarrow> 'w replica_store \<Rightarrow> blob_id \<Rightarrow> bytes \<Rightarrow> (nat \<Rightarrow> time) \<Rightarrow> nat \<Rightarrow> string list \<Rightarrow> string set \<Rightarrow> int
     \<Rightarrow> ('w, unit) op" where
  "replicate_to mesh rs b d clock k [] healthy remaining = returnM ()"
| "replicate_to mesh rs b d clock k (nid # nids) healthy remaining =
     (if remaining \<le> 0 then returnM ()
      else if nid \<in> healthy then replicate_to mesh rs b d clock k nids healthy remaining
      else bindM (sm_store mesh nid) (\<lambda>st. bindM (bs_has st b) (\<lambda>found.
        seqM (if found then returnM () else bs_put st b d)
        (seqM (rs_upsert rs \<lparr>rr_blob_id = b, rr_node_id = nid, rr_state = Healthy, rr_last_seen = clock k\<rparr>)
          (replicate_to mesh rs b d clock (Suc k) nids (insert nid healthy) (remaining - 1))))))"

definition repair_blob ::
  "'w store_mesh \<Rightarrow> 'w replica_store \<Rightarrow> (nat \<Rightarrow> time) \<Rightarrow> repair_item \<Rightarrow> ('w, unit) op" where
  "repair_blob mesh rs clock item =
     (if ri_missing item \<le> 0 then returnM ()
      else bindM (rs_list rs (ri_blob_id item)) (\<lambda>current.
      let healthy = set (map rr_node_id (filter (\<lambda>r. rr_state r = Healthy) current)) in
      bindM (sm_node_ids mesh) (\<lambda>ids1.
      bindM (find_source mesh (ri_blob_id item) ids1) (\<lambda>found.
      bindM (pureM (of_option NotFound found)) (\<lambda>source.
      bindM (sm_store mesh source) (\<lambda>src.
      bindM (bs_get src (ri_blob_id item)) (\<lambda>bytes.
      bindM (sm_node_ids mesh) (\<lambda>ids2.
        replicate_to mesh rs (ri_blob_id item) bytes clock 0 ids2 healthy (ri_missing item)))))))))"

definition repair_execute ::
  "'w store_mesh \<Rightarrow> 'w replica_store \<Rightarrow> (nat \<Rightarrow> time) \<Rightarrow> repair_item list \<Rightarrow> ('w, unit) op" where
  "repair_execute mesh rs clock items = forM items (repair_blob mesh rs clock)"


section \<open>The contract of a mesh\<close>

locale mesh_laws =
  fixes mesh :: "'w store_mesh"
    and rs :: "'w replica_store"
    and handle :: "string \<Rightarrow> 'w blob_store"
    and nodes :: "'w \<Rightarrow> string list"
    and holds :: "'w \<Rightarrow> string \<Rightarrow> blob_id \<Rightarrow> bytes option"
    and recs :: "'w \<Rightarrow> blob_id \<Rightarrow> string \<Rightarrow> replica_record option"
    and inv :: "'w \<Rightarrow> bool"
  assumes ids_law: "inv s \<Longrightarrow> sm_node_ids mesh s = (Ok (nodes s), s) \<and> distinct (nodes s)"
    and handle_law: "inv s \<Longrightarrow> n \<in> set (nodes s) \<Longrightarrow> sm_store mesh n s = (Ok (handle n), s)"
    and has_law: "inv s \<Longrightarrow> n \<in> set (nodes s) \<Longrightarrow> bs_has (handle n) b s = (Ok (holds s n b \<noteq> None), s)"
    and get_law: "inv s \<Longrightarrow> n \<in> set (nodes s) \<Longrightarrow> bs_get (handle n) b s = (of_option NotFound (holds s n b), s)"
    and put_law: "inv s \<Longrightarrow> n \<in> set (nodes s) \<Longrightarrow> holds s n b = None \<Longrightarrow>
      \<exists>t. bs_put (handle n) b d s = (Ok (), t) \<and> inv t \<and> nodes t = nodes s \<and> recs t = recs s
        \<and> holds t = (holds s)(n := (holds s n)(b \<mapsto> d))"
    and upsert_law: "inv s \<Longrightarrow>
      \<exists>t. rs_upsert rs r s = (Ok (), t) \<and> inv t \<and> nodes t = nodes s \<and> holds t = holds s
        \<and> recs t = (recs s)(rr_blob_id r := (recs s (rr_blob_id r))(rr_node_id r \<mapsto> r))"
    and list_law: "inv s \<Longrightarrow> \<exists>l. rs_list rs b s = (Ok l, s) \<and> set l = {r. \<exists>n. recs s b n = Some r}"
    and keyed_law: "inv s \<Longrightarrow> recs s b n = Some r \<Longrightarrow> rr_node_id r = n \<and> rr_blob_id r = b"
begin

definition healthy_on :: "'w \<Rightarrow> blob_id \<Rightarrow> string set" where
  "healthy_on s b = {n. \<exists>r. recs s b n = Some r \<and> rr_state r = Healthy}"

lemma find_source_law:
  assumes "inv s" and "set ns \<subseteq> set (nodes s)"
  shows "find_source mesh b ns s = (Ok (List.find (\<lambda>n. holds s n b \<noteq> None) ns), s)"
  using assms(2) handle_law [OF assms(1)] has_law [OF assms(1)]
  by (induction ns) (auto simp: act_simps)

lemma replicate_law:
  assumes "inv s" and "distinct ns" and "set ns \<subseteq> set (nodes s)" and "0 \<le> m"
  shows "\<exists>t. replicate_to mesh rs b d clock k ns H m s = (Ok (), t) \<and> inv t \<and> nodes t = nodes s
    \<and> (let new = set (take (nat m) (filter (\<lambda>n. n \<notin> H) ns)) in
         (\<forall>n \<in> new. \<exists>j. recs t b n = Some \<lparr>rr_blob_id = b, rr_node_id = n, rr_state = Healthy, rr_last_seen = clock j\<rparr>)
       \<and> (\<forall>n c. n \<notin> new \<or> c \<noteq> b \<longrightarrow> recs t c n = recs s c n)
       \<and> (\<forall>n c. holds t n c = (if n \<in> new \<and> c = b \<and> holds s n b = None then Some d else holds s n c)))"
  using assms
proof (induction ns arbitrary: s H m k)
  case Nil
  then show ?case by simp
next
  case (Cons n ns)
  consider "m = 0" | "0 < m" "n \<in> H" | "0 < m" "n \<notin> H" using Cons.prems(4) by linarith
  then show ?case
  proof cases
    case 1
    then show ?thesis using Cons.prems by simp
  next
    case 2
    then show ?thesis using Cons.IH [OF Cons.prems(1), of m k H] Cons.prems by simp
  next
    case 3
    have n: "n \<in> set (nodes s)" using Cons.prems(3) by simp
    define r where "r = \<lparr>rr_blob_id = b, rr_node_id = n, rr_state = Healthy, rr_last_seen = clock k\<rparr>"
    obtain s1 where s1: "(if holds s n b \<noteq> None then returnM () else bs_put (handle n) b d) s = (Ok (), s1)"
      "inv s1" "nodes s1 = nodes s" "recs s1 = recs s"
      "holds s1 = (if holds s n b \<noteq> None then holds s else (holds s)(n := (holds s n)(b \<mapsto> d)))"
    proof (cases "holds s n b")
      case None
      then show ?thesis using put_law [OF Cons.prems(1) n None, of d] that by auto
    next
      case (Some x)
      then show ?thesis using that [of s] Cons.prems(1) by simp
    qed
    obtain s2 where s2: "rs_upsert rs r s1 = (Ok (), s2)" "inv s2" "nodes s2 = nodes s" "holds s2 = holds s1"
      "recs s2 = (recs s)(b := (recs s b)(n \<mapsto> r))"
      using upsert_law [OF s1(2), of r] s1(3,4) by (auto simp: r_def)
    have step: "replicate_to mesh rs b d clock k (n # ns) H m s
      = replicate_to mesh rs b d clock (Suc k) ns (insert n H) (m - 1) s2"
      using 3 s1(1) s2(1) handle_law [OF Cons.prems(1) n] has_law [OF Cons.prems(1) n, of b]
      by (simp add: act_simps r_def)
    have ns: "n \<notin> set ns" "distinct ns" "set ns \<subseteq> set (nodes s2)" using Cons.prems s2(3) by auto
    let ?new = "set (take (nat (m - 1)) (filter (\<lambda>x. x \<notin> insert n H) ns))"
    have "filter (\<lambda>x. x \<notin> insert n H) ns = filter (\<lambda>x. x \<notin> H) ns"
      by (rule filter_cong) (use ns in auto)
    then have new: "set (take (nat m) (filter (\<lambda>x. x \<notin> H) (n # ns))) = insert n ?new"
      using 3 by (simp add: take_Cons' nat_diff_distrib)
    have nn: "n \<notin> ?new" using ns(1) by (auto dest: in_set_takeD)
    obtain t where t: "replicate_to mesh rs b d clock (Suc k) ns (insert n H) (m - 1) s2 = (Ok (), t)" "inv t" "nodes t = nodes s2"
      "\<forall>x \<in> ?new. \<exists>j. recs t b x = Some \<lparr>rr_blob_id = b, rr_node_id = x, rr_state = Healthy, rr_last_seen = clock j\<rparr>"
      "\<forall>x c. x \<notin> ?new \<or> c \<noteq> b \<longrightarrow> recs t c x = recs s2 c x"
      "\<forall>x c. holds t x c = (if x \<in> ?new \<and> c = b \<and> holds s2 x b = None then Some d else holds s2 x c)"
      using Cons.IH [OF s2(2) ns(2,3), of "m - 1" "Suc k" "insert n H"] 3 unfolding Let_def by auto
    have "recs t b n = Some r" using t(5) nn s2(5) by simp
    then have A: "\<forall>x \<in> insert n ?new. \<exists>j. recs t b x = Some \<lparr>rr_blob_id = b, rr_node_id = x, rr_state = Healthy, rr_last_seen = clock j\<rparr>"
      using t(4) by (auto simp: r_def)
    have B: "\<forall>x c. x \<notin> insert n ?new \<or> c \<noteq> b \<longrightarrow> recs t c x = recs s c x"
      using t(5) s2(5) by auto
    have C: "\<forall>x c. holds t x c = (if x \<in> insert n ?new \<and> c = b \<and> holds s x b = None then Some d else holds s x c)"
      using t(6) nn unfolding s2(4) s1(5) by auto
    show ?thesis
      unfolding step new Let_def using t(1-3) s2(3) A B C by (intro exI [of _ t] conjI) simp_all
  qed
qed

lemma repair_law:
  assumes s: "inv s" and src: "n \<in> set (nodes s)" "holds s n (ri_blob_id item) \<noteq> None"
  shows "\<exists>t d. repair_blob mesh rs clock item s = (Ok (), t) \<and> inv t \<and> nodes t = nodes s
    \<and> (\<exists>n \<in> set (nodes s). holds s n (ri_blob_id item) = Some d)
    \<and> (let b = ri_blob_id item;
           new = set (take (nat (ri_missing item)) (filter (\<lambda>n. n \<notin> healthy_on s b) (nodes s))) in
         (\<forall>n \<in> new. \<exists>j. recs t b n = Some \<lparr>rr_blob_id = b, rr_node_id = n, rr_state = Healthy, rr_last_seen = clock j\<rparr>)
       \<and> (\<forall>n c. n \<notin> new \<or> c \<noteq> b \<longrightarrow> recs t c n = recs s c n)
       \<and> (\<forall>n c. holds t n c = (if n \<in> new \<and> c = b \<and> holds s n b = None then Some d else holds s n c)))"
proof (cases "ri_missing item \<le> 0")
  case True
  then show ?thesis using s src by (fastforce simp: repair_blob_def)
next
  case False
  let ?b = "ri_blob_id item"
  obtain l where l: "rs_list rs ?b s = (Ok l, s)" "set l = {r. \<exists>n. recs s ?b n = Some r}"
    using list_law [OF s] by blast
  have H: "set (map rr_node_id (filter (\<lambda>r. rr_state r = Healthy) l)) = healthy_on s ?b"
    using l(2) keyed_law [OF s] by (auto simp: healthy_on_def image_iff) blast
  obtain m where m: "List.find (\<lambda>n. holds s n ?b \<noteq> None) (nodes s) = Some m"
    using src by (cases "List.find (\<lambda>n. holds s n ?b \<noteq> None) (nodes s)") (auto simp: find_None_iff)
  then have m2: "m \<in> set (nodes s)" "holds s m ?b \<noteq> None" by (auto simp: find_Some_iff)
  then obtain d where d: "holds s m ?b = Some d" by blast
  have run: "repair_blob mesh rs clock item s = replicate_to mesh rs ?b d clock 0 (nodes s) (healthy_on s ?b) (ri_missing item) s"
    using False l(1) H ids_law [OF s] find_source_law [OF s, of "nodes s" ?b] m handle_law [OF s m2(1)] get_law [OF s m2(1), of ?b] d
    by (simp add: repair_blob_def act_simps Let_def del: set_map set_filter)
  obtain t where "replicate_to mesh rs ?b d clock 0 (nodes s) (healthy_on s ?b) (ri_missing item) s = (Ok (), t)" "inv t" "nodes t = nodes s"
    "let new = set (take (nat (ri_missing item)) (filter (\<lambda>n. n \<notin> healthy_on s ?b) (nodes s))) in
         (\<forall>n \<in> new. \<exists>j. recs t ?b n = Some \<lparr>rr_blob_id = ?b, rr_node_id = n, rr_state = Healthy, rr_last_seen = clock j\<rparr>)
       \<and> (\<forall>n c. n \<notin> new \<or> c \<noteq> ?b \<longrightarrow> recs t c n = recs s c n)
       \<and> (\<forall>n c. holds t n c = (if n \<in> new \<and> c = ?b \<and> holds s n ?b = None then Some d else holds s n c))"
    using replicate_law [OF s _ _, of "nodes s" "ri_missing item" ?b d clock 0 "healthy_on s ?b"] ids_law [OF s] False by auto
  then show ?thesis
    unfolding run Let_def using d m2(1) by (intro exI [of _ t] exI [of _ d]) blast
qed

end

section \<open>The in-memory mesh\<close>

record mesh_world =
  mh_nodes :: "(string, mem_blobs) hmap"
  mh_replicas :: mem_replicas

definition add_node :: "string \<Rightarrow> mem_blobs \<Rightarrow> (mesh_world, unit) op" where
  "add_node nid store = modifyM (\<lambda>w. w\<lparr>mh_nodes := hput nid store (mh_nodes w)\<rparr>)"

text \<open>A call through the handle of a node.\<close>

definition on_node :: "string \<Rightarrow> (mem_blobs, 'a) op \<Rightarrow> (mesh_world, 'a) op" where
  "on_node nid m w = (case hget (mh_nodes w) nid of
     None \<Rightarrow> (Err NotFound, w)
   | Some bl \<Rightarrow> (case m bl of (r, bl') \<Rightarrow> (r, w\<lparr>mh_nodes := hput nid bl' (mh_nodes w)\<rparr>)))"

definition node_handle :: "string \<Rightarrow> mesh_world blob_store" where
  "node_handle nid = \<lparr>bs_has = (\<lambda>b. on_node nid (mem_blob_has b)), bs_put = (\<lambda>b d. on_node nid (mem_blob_put b d)),
     bs_get = (\<lambda>b. on_node nid (mem_blob_get b)), bs_delete = (\<lambda>b. on_node nid (mem_blob_delete b))\<rparr>"

definition mem_mesh :: "mesh_world store_mesh" where
  "mem_mesh = \<lparr>sm_node_ids = readM (\<lambda>w. Ok (hkeys (mh_nodes w))),
     sm_store = (\<lambda>nid. readM (\<lambda>w. if hhas (mh_nodes w) nid then Ok (node_handle nid) else Err NotFound))\<rparr>"

definition mesh_replicas :: "mesh_world replica_store" where
  "mesh_replicas = 
     \<lparr>rs_upsert = (\<lambda>r. liftM mh_replicas (\<lambda>x w. w\<lparr>mh_replicas := x\<rparr>) (mem_upsert_replica r)),
      rs_list = (\<lambda>b. liftM mh_replicas (\<lambda>x w. w\<lparr>mh_replicas := x\<rparr>) (mem_list_replicas b)),
      rs_healthy = (\<lambda>b. liftM mh_replicas (\<lambda>x w. w\<lparr>mh_replicas := x\<rparr>) (mem_healthy_count b)),
      rs_healthy_stale = (\<lambda>b st now. liftM mh_replicas (\<lambda>x w. w\<lparr>mh_replicas := x\<rparr>) (mem_healthy_count_with_stale b st now))\<rparr>"

definition mesh_holds :: "mesh_world \<Rightarrow> string \<Rightarrow> blob_id \<Rightarrow> bytes option" where
  "mesh_holds w n b = (case hget (mh_nodes w) n of None \<Rightarrow> None | Some bl \<Rightarrow> hget bl b)"

definition mesh_inv :: "mesh_world \<Rightarrow> bool" where
  "mesh_inv w \<longleftrightarrow> hwf (mh_nodes w) \<and> replicas_keyed (mh_replicas w)"

lemma hput_same: "hget m k = Some v \<Longrightarrow> hput k v m = m"
  unfolding hput_def hget_def by (induction m) (auto split: if_splits)

lemma hkeys_hput: "hget m k = Some v \<Longrightarrow> hkeys (hput k x m) = hkeys m"
  unfolding hput_def hget_def hkeys_def by (induction m) (auto split: if_splits)

lemma add_node_inv: "mesh_inv w \<Longrightarrow> mesh_inv (snd (add_node n bl w))"
  by (simp add: add_node_def mesh_inv_def)

interpretation mem_mesh: mesh_laws mem_mesh mesh_replicas node_handle "\<lambda>w. hkeys (mh_nodes w)" mesh_holds
  "\<lambda>w b n. hget (mh_replicas w) (b, n)" mesh_inv
proof (unfold_locales, goal_cases)
  case (1 s)
  then show ?case by (simp add: mem_mesh_def mesh_inv_def hwf_def hkeys_def)
next
  case (2 s n)
  then show ?case by (auto simp: mem_mesh_def set_hkeys)
next
  case (3 s n b)
  then show ?case
    by (auto simp: node_handle_def on_node_def mem_blob_has_def mesh_holds_def set_hkeys hput_same)
next
  case (4 s n b)
  then show ?case
    by (auto simp: node_handle_def on_node_def mem_blob_get_def mesh_holds_def set_hkeys hput_same)
next
  case (5 s n b d)
  then show ?case
    by (auto simp: node_handle_def on_node_def mem_blob_put_def mesh_holds_def set_hkeys mesh_inv_def hkeys_hput fun_eq_iff)
next
  case (6 s r)
  then show ?case
    using upsert_keyed [of "mh_replicas s" r]
    by (simp add: mesh_replicas_def liftM_def mesh_inv_def mem_upsert_replica_def fun_eq_iff mesh_holds_def)
next
  case (7 s b)
  then show ?case
    using hvals_iff [of "mh_replicas s"]
    by (auto simp: mesh_replicas_def liftM_def mem_list_replicas_def mesh_inv_def replicas_keyed_def)
next
  case (8 s b n r)
  then show ?case by (auto simp: mesh_inv_def replicas_keyed_def)
qed


section \<open>Audit and repair\<close>

definition fresh_healthy :: "mesh_world \<Rightarrow> int \<Rightarrow> time \<Rightarrow> blob_id \<Rightarrow> string set" where
  "fresh_healthy w stale now b =
     {n. \<exists>r. hget (mh_replicas w) (b, n) = Some r \<and> rr_state r = Healthy \<and> fresh stale now r}"

lemma mesh_count:
  "mesh_inv w \<Longrightarrow> rs_healthy_stale mesh_replicas b stale now w = (Ok (int (card (fresh_healthy w stale now b))), w)"
  using healthy_card [of "mh_replicas w" b "\<lambda>r. rr_state r = Healthy \<and> fresh stale now r"]
  by (simp add: mesh_replicas_def liftM_def mem_healthy_count_with_stale_eq mesh_inv_def fresh_healthy_def)

lemma finite_healthy: "finite (fresh_healthy w stale now b)"
proof -
  have "fresh_healthy w stale now b \<subseteq> snd ` set (hkeys (mh_replicas w))"
    by (force simp: fresh_healthy_def set_hkeys)
  then show ?thesis by (rule finite_subset) simp
qed

text \<open>The nodes a repair can use: those without a healthy record of the blob, in the order of the mesh. A stale
  record is a healthy one.\<close>

definition repairable :: "mesh_world \<Rightarrow> blob_id \<Rightarrow> string list" where
  "repairable w b = filter (\<lambda>n. case hget (mh_replicas w) (b, n) of Some r \<Rightarrow> rr_state r \<noteq> Healthy | None \<Rightarrow> True) (hkeys (mh_nodes w))"

lemma repairable_eq: "repairable w b = filter (\<lambda>n. n \<notin> mem_mesh.healthy_on w b) (hkeys (mh_nodes w))"
  by (auto simp: repairable_def mem_mesh.healthy_on_def intro!: filter_cong split: option.splits)

text \<open>C10: What a repair of an audited deficit achieves, if some node of the mesh holds the blob and all that do hold the
  same bytes, as content addressing has it. The executor succeeds. The first nodes without a healthy record, as
  many as are missing, get a fresh record and hold exactly these bytes. If there are that many such nodes, the audit then
  counts what the policy requires; otherwise it counts the nodes that were healthy before and all of these,
  so a node whose healthy record is stale is not repaired. Every other blob and record of the mesh is unchanged.\<close>

theorem repair_restores_durability:
  assumes w: "mesh_inv w" and src: "n \<in> set (hkeys (mh_nodes w))" "mesh_holds w n b = Some d"
    and same: "\<forall>m d'. mesh_holds w m b = Some d' \<longrightarrow> d' = d"
    and item: "ri_blob_id item = b" "ri_healthy item = int (card (fresh_healthy w stale now b))"
      "ri_missing item = ri_required item - ri_healthy item" "0 < ri_missing item"
    and clock: "\<forall>k. whole_seconds (now - clock k) \<le> stale"
  shows "\<exists>t. repair_blob mem_mesh mesh_replicas clock item w = (Ok (), t) \<and> mesh_inv t
    \<and> (let new = take (nat (ri_missing item)) (repairable w b) in
         (\<forall>m \<in> set new. m \<in> fresh_healthy t stale now b \<and> mesh_holds t m b = Some d)
       \<and> (\<forall>m c. m \<notin> set new \<or> c \<noteq> b \<longrightarrow>
            mesh_holds t m c = mesh_holds w m c \<and> hget (mh_replicas t) (c, m) = hget (mh_replicas w) (c, m)))
    \<and> rs_healthy_stale mesh_replicas b stale now t =
        (Ok (if ri_missing item \<le> int (length (repairable w b)) then ri_required item
             else ri_healthy item + int (length (repairable w b))), t)"
proof -
  let ?new = "set (take (nat (ri_missing item)) (repairable w b))"
  have held: "mesh_holds w n b \<noteq> None" using src(2) by simp
  obtain t d0 where t: "repair_blob mem_mesh mesh_replicas clock item w = (Ok (), t)" "mesh_inv t"
    "\<exists>m \<in> set (hkeys (mh_nodes w)). mesh_holds w m b = Some d0"
    "\<forall>m \<in> ?new. \<exists>j. hget (mh_replicas t) (b, m) = Some \<lparr>rr_blob_id = b, rr_node_id = m, rr_state = Healthy, rr_last_seen = clock j\<rparr>"
    "\<forall>m c. m \<notin> ?new \<or> c \<noteq> b \<longrightarrow> hget (mh_replicas t) (c, m) = hget (mh_replicas w) (c, m)"
    "\<forall>m c. mesh_holds t m c = (if m \<in> ?new \<and> c = b \<and> mesh_holds w m b = None then Some d0 else mesh_holds w m c)"
    using mem_mesh.repair_law [OF w src(1), of item clock, unfolded item(1) Let_def repairable_eq [symmetric], OF held]
    by (elim exE conjE) (rule that)
  have "d0 = d" using t(3) same by blast
  have holds: "mesh_holds t m b = Some d" if "m \<in> ?new" for m
  proof (cases "mesh_holds w m b")
    case None
    then show ?thesis using t(6) that \<open>d0 = d\<close> by simp
  next
    case (Some d')
    then show ?thesis using t(6) same by simp
  qed
  have fresh_new: "m \<in> fresh_healthy t stale now b" if new: "m \<in> ?new" for m
  proof -
    obtain j where "hget (mh_replicas t) (b, m) = Some \<lparr>rr_blob_id = b, rr_node_id = m, rr_state = Healthy, rr_last_seen = clock j\<rparr>"
      using t(4) new by blast
    then show ?thesis using clock by (simp add: fresh_healthy_def fresh_def)
  qed
  have "m \<in> fresh_healthy t stale now b \<longleftrightarrow> m \<in> fresh_healthy w stale now b \<union> ?new" for m
    using fresh_new [of m] t(5) by (cases "m \<in> ?new") (simp_all add: fresh_healthy_def)
  then have sets: "fresh_healthy t stale now b = fresh_healthy w stale now b \<union> ?new" by blast
  have "distinct (repairable w b)" using w by (simp add: repairable_def mesh_inv_def hwf_def hkeys_def)
  then have "int (card ?new) = min (ri_missing item) (int (length (repairable w b)))"
    using item(4) by (simp add: distinct_card)
  moreover have "fresh_healthy w stale now b \<inter> ?new = {}"
    by (auto simp: repairable_def fresh_healthy_def dest: in_set_takeD)
  ultimately have count: "int (card (fresh_healthy t stale now b)) = (if ri_missing item \<le> int (length (repairable w b)) then ri_required item
      else ri_healthy item + int (length (repairable w b)))"
    unfolding sets using item(2,3) by (simp add: card_Un_disjoint finite_healthy)
  have rest: "mesh_holds t m c = mesh_holds w m c \<and> hget (mh_replicas t) (c, m) = hget (mh_replicas w) (c, m)"
    if "m \<notin> ?new \<or> c \<noteq> b" for m c
    using that t(5,6) by auto
  show ?thesis
    unfolding Let_def using t(1,2) mesh_count [OF t(2), of b stale now] count fresh_new holds rest
    by (intro exI [of _ t]) simp
qed

definition demo_mesh :: "time \<Rightarrow> mem_replicas \<Rightarrow> mesh_world" where
  "demo_mesh t rest = \<lparr>mh_nodes = [(''n1'', [(''b'', [1])]), (''n2'', [])],
     mh_replicas = ((''b'', ''n1''), \<lparr>rr_blob_id = ''b'', rr_node_id = ''n1'', rr_state = Healthy, rr_last_seen = t\<rparr>) # rest\<rparr>"

definition stale_record :: mem_replicas where
  "stale_record = [((''b'', ''n2''), \<lparr>rr_blob_id = ''b'', rr_node_id = ''n2'', rr_state = Healthy, rr_last_seen = 0\<rparr>)]"

definition demo_item :: repair_item where
  "demo_item = \<lparr>ri_blob_id = ''b'', ri_required = 2, ri_healthy = 1, ri_missing = 1\<rparr>"

lemma demo_mesh_facts:
  "mesh_inv (demo_mesh t [])" "mesh_inv (demo_mesh t stale_record)"
  "hkeys (mh_nodes (demo_mesh t rest)) = [''n1'', ''n2'']" "mesh_holds (demo_mesh t rest) ''n1'' ''b'' = Some [1]"
  by (auto simp: mesh_inv_def demo_mesh_def hwf_def replicas_keyed_def stale_record_def hget_def hkeys_def mesh_holds_def
      split: if_splits)

theorem repair_restores_durability_witness:
  "\<exists>t. repair_blob mem_mesh mesh_replicas (\<lambda>_. 5) demo_item (demo_mesh 0 []) = (Ok (), t)
     \<and> rs_healthy_stale mesh_replicas ''b'' 60 5 t = (Ok 2, t) \<and> mesh_holds t ''n2'' ''b'' = Some [1]"
proof -
  let ?w = "demo_mesh 0 []"
  have one: "fresh_healthy ?w 60 5 ''b'' = {''n1''}"
    by (auto simp: fresh_healthy_def demo_mesh_def hget_def fresh_def whole_seconds_def split: if_splits)
  have free: "repairable ?w ''b'' = [''n2'']"
    by (simp add: repairable_def demo_mesh_facts(3)) (simp add: demo_mesh_def hget_def)
  have same: "\<forall>m d'. mesh_holds ?w m ''b'' = Some d' \<longrightarrow> d' = [1]"
    by (auto simp: mesh_holds_def demo_mesh_def hget_def split: option.splits if_splits)
  show ?thesis
    using repair_restores_durability [OF demo_mesh_facts(1) _ demo_mesh_facts(4) same, of demo_item 60 5 "\<lambda>_. 5"] one free
    by (auto simp: demo_mesh_facts demo_item_def whole_seconds_def)
qed

text \<open>Stale replicas are never repaired. The auditor does not count a healthy record that is too old,
  but the executor takes every healthy record, however old, as a good replica: if every node of the
  mesh has one, the repair succeeds, writes nothing, and the deficit stays as it was.\<close>

theorem stale_replicas_not_repaired:
  assumes "mesh_inv w" and "n \<in> set (hkeys (mh_nodes w))" and "mesh_holds w n (ri_blob_id item) \<noteq> None"
    and "\<forall>m \<in> set (hkeys (mh_nodes w)). \<exists>r. hget (mh_replicas w) (ri_blob_id item, m) = Some r \<and> rr_state r = Healthy"
  shows "\<exists>t. repair_blob mem_mesh mesh_replicas clock item w = (Ok (), t)
    \<and> rs_healthy_stale mesh_replicas (ri_blob_id item) stale now t
        = (fst (rs_healthy_stale mesh_replicas (ri_blob_id item) stale now w), t)"
proof -
  have none: "filter (\<lambda>n. n \<notin> mem_mesh.healthy_on w (ri_blob_id item)) (hkeys (mh_nodes w)) = []"
    using assms(4) by (auto simp: mem_mesh.healthy_on_def filter_empty_conv)
  obtain t where t: "repair_blob mem_mesh mesh_replicas clock item w = (Ok (), t)" "mesh_inv t"
    "\<forall>n c. hget (mh_replicas t) (c, n) = hget (mh_replicas w) (c, n)"
    using mem_mesh.repair_law [OF assms(1,2), of item clock, unfolded none Let_def, OF assms(3)] by auto
  then have "fresh_healthy t stale now (ri_blob_id item) = fresh_healthy w stale now (ri_blob_id item)"
    by (simp add: fresh_healthy_def)
  then show ?thesis using t(1) mesh_count [OF t(2)] mesh_count [OF assms(1)] by simp
qed

theorem stale_replicas_not_repaired_witness:
  "\<exists>t. repair_blob mem_mesh mesh_replicas (\<lambda>_. 100000000000) demo_item (demo_mesh 100000000000 stale_record) = (Ok (), t)
     \<and> rs_healthy_stale mesh_replicas ''b'' 60 100000000000 t = (Ok 1, t)"
proof -
  let ?w = "demo_mesh 100000000000 stale_record"
  have one: "fresh_healthy ?w 60 100000000000 ''b'' = {''n1''}"
    by (auto simp: fresh_healthy_def demo_mesh_def stale_record_def hget_def fresh_def whole_seconds_def split: if_splits)
  have "\<exists>t. repair_blob mem_mesh mesh_replicas (\<lambda>_. 100000000000) demo_item ?w = (Ok (), t)
    \<and> rs_healthy_stale mesh_replicas (ri_blob_id demo_item) 60 100000000000 t
        = (fst (rs_healthy_stale mesh_replicas (ri_blob_id demo_item) 60 100000000000 ?w), t)"
    by (rule stale_replicas_not_repaired [of ?w "''n1''"])
      (simp_all add: demo_mesh_facts demo_item_def, simp add: demo_mesh_def stale_record_def hget_def)
  then show ?thesis using mesh_count [of ?w "''b''" 60 100000000000] one by (simp add: demo_item_def demo_mesh_facts)
qed

end
