(* ===== verification/Sodl_Fetch.thy ===== *)
theory Sodl_Fetch
  imports Sodl_Pipeline Sodl_Meta
begin

text \<open>
  Retrieval: the fetch pipeline of \<open>crates/sodl-fetch\<close> (cache, then an ordered list of
  sources) and the peer and edge sources of \<open>crates/sodl-dist\<close>. HTTP is an argument: a request
  to a URL answers with a status and a body or fails with a message.
\<close>

section \<open>The pipeline\<close>

record 'w fetch_source =
  fetch :: "blob_id \<Rightarrow> ('w, bytes option) op"

definition store_source :: "'w blob_store \<Rightarrow> 'w fetch_source" where
  "store_source st = \<lparr>fetch = (\<lambda>b. bindM (bs_has st b) (\<lambda>found.
     if found then bindM (bs_get st b) (\<lambda>d. returnM (Some d)) else returnM None))\<rparr>"

type_synonym 'w authorizer = "origin_id \<Rightarrow> principal_id \<Rightarrow> capability \<Rightarrow> ('w, unit) op"

record 'w fetch_pipeline =
  fp_cache :: "'w blob_store"
  fp_sources :: "'w fetch_source list"
  fp_authorizer :: "'w authorizer option"

fun fetch_from :: "hashes \<Rightarrow> 'w blob_store \<Rightarrow> blob_id \<Rightarrow> 'w fetch_source list \<Rightarrow> ('w, bytes) op" where
  "fetch_from H cache b [] = pureM (Err NotFound)"
| "fetch_from H cache b (src # srcs) = bindM (fetch src b) (\<lambda>found.
     case found of
       Some d \<Rightarrow> seqM (pureM (verify_integrity H b d)) (seqM (bs_put cache b d) (returnM d))
     | None \<Rightarrow> fetch_from H cache b srcs)"

definition fetch_get ::
  "hashes \<Rightarrow> 'w fetch_pipeline \<Rightarrow> principal_id option \<Rightarrow> origin_id option \<Rightarrow> blob_id \<Rightarrow> ('w, bytes) op" where
  "fetch_get H fp who org b =
     seqM (case (fp_authorizer fp, who, org) of
             (Some authz, Some p, Some oid) \<Rightarrow> authz oid p Read
           | _ \<Rightarrow> returnM ())
      (bindM (bs_has (fp_cache fp) b) (\<lambda>found.
       if found then bindM (bs_get (fp_cache fp) b) (\<lambda>d.
         seqM (pureM (verify_integrity H b d)) (returnM d))
       else fetch_from H (fp_cache fp) b (fp_sources fp)))"


section \<open>Peers and edges\<close>

type_synonym peer = string

record static_discovery =
  sd_fallback :: "peer list"
  sd_providers :: "(string, peer list) hmap"

definition discovery_new :: "peer list \<Rightarrow> static_discovery" where
  "discovery_new peers = \<lparr>sd_fallback = peers, sd_providers = []\<rparr>"

definition register_provider :: "blob_id \<Rightarrow> peer \<Rightarrow> (static_discovery, unit) op" where
  "register_provider b p = modifyM (\<lambda>s. s\<lparr>sd_providers := hentry b [] (\<lambda>l. l @ [p]) (sd_providers s)\<rparr>)"

definition find_providers :: "blob_id \<Rightarrow> (static_discovery, peer list) op" where
  "find_providers b = readM (\<lambda>s. Ok (case hget (sd_providers s) b of Some l \<Rightarrow> l | None \<Rightarrow> sd_fallback s))"

definition trim_slashes :: "string \<Rightarrow> string" where
  "trim_slashes s = rev (dropWhile (\<lambda>c. c = CHR ''/'') (rev s))"

definition blob_url :: "string \<Rightarrow> blob_id \<Rightarrow> string" where
  "blob_url base b = trim_slashes base @ ''/v1/blobs/'' @ b"

record http_response =
  hr_status :: nat
  hr_body :: "(string, bytes) outcome"

text \<open>\<open>error_for_status\<close> fails on client and server errors; \<open>why\<close> is its message.\<close>

type_synonym 'w http = "string \<Rightarrow> ('w, string, http_response) act"

definition map_err :: "('w, string, 'a) act \<Rightarrow> ('w, 'a) op" where
  "map_err m s = (case m s of (Ok a, t) \<Rightarrow> (Ok a, t) | (Err e, t) \<Rightarrow> (Err (Io e), t) | (Panic, t) \<Rightarrow> (Panic, t))"

definition error_for_status :: "string \<Rightarrow> http_response \<Rightarrow> (string, http_response) outcome" where
  "error_for_status why r = (if 400 \<le> hr_status r \<and> hr_status r < 600 then Err why else Ok r)"

text \<open>The value \<open>None\<close> of the answer is the status \<open>404\<close>.\<close>

definition http_blob :: "'w http \<Rightarrow> string \<Rightarrow> string \<Rightarrow> blob_id \<Rightarrow> ('w, bytes option) op" where
  "http_blob http why base b =
     bindM (map_err (http (blob_url base b))) (\<lambda>response.
     if hr_status response = 404 then returnM None
     else bindM (map_err (pureM (error_for_status why response))) (\<lambda>response.
       bindM (map_err (pureM (hr_body response))) (\<lambda>body. returnM (Some body))))"

definition peer_get_blob :: "'w http \<Rightarrow> string \<Rightarrow> peer \<Rightarrow> blob_id \<Rightarrow> ('w, bytes option) op" where
  "peer_get_blob http why p b = http_blob http why p b"

definition announce_blob :: "blob_id \<Rightarrow> ('w, unit) op" where
  "announce_blob b = returnM ()"

text \<open>A source that remembers who served the last blob: that memory is the second component.\<close>

type_synonym 'w remembering = "'w \<times> peer option"

abbreviation on_world :: "('w, 'a) op \<Rightarrow> ('w remembering, 'a) op" where
  "on_world \<equiv> liftM fst (\<lambda>x w. (x, snd w))"

definition clear_last_provider :: "('w remembering, unit) op" where
  "clear_last_provider = modifyM (\<lambda>(w, l). (w, None))"

definition last_provider :: "('w remembering, peer option) op" where
  "last_provider = readM (\<lambda>(w, l). Ok l)"

definition set_last_provider :: "peer \<Rightarrow> ('w remembering, unit) op" where
  "set_last_provider p = modifyM (\<lambda>(w, l). (w, Some p))"

fun try_peers :: "(peer \<Rightarrow> blob_id \<Rightarrow> ('w, bytes option) op) \<Rightarrow> blob_id \<Rightarrow> peer list \<Rightarrow> ('w remembering, bytes option) op" where
  "try_peers client b [] = returnM None"
| "try_peers client b (p # ps) = bindM (on_world (client p b)) (\<lambda>found.
     case found of Some d \<Rightarrow> seqM (set_last_provider p) (returnM (Some d)) | None \<Rightarrow> try_peers client b ps)"

definition discovered_peer_source ::
  "(blob_id \<Rightarrow> ('w, peer list) op) \<Rightarrow> (peer \<Rightarrow> blob_id \<Rightarrow> ('w, bytes option) op) \<Rightarrow> 'w remembering fetch_source" where
  "discovered_peer_source discovery client = \<lparr>fetch = (\<lambda>b.
     seqM clear_last_provider (bindM (on_world (discovery b)) (\<lambda>ps. try_peers client b ps)))\<rparr>"

definition edge_get_blob :: "'w http \<Rightarrow> string \<Rightarrow> string list \<Rightarrow> blob_id \<Rightarrow> ('w remembering, bytes option) op" where
  "edge_get_blob http why urls b = seqM clear_last_provider (try_peers (http_blob http why) b urls)"

definition edge_source :: "'w http \<Rightarrow> string \<Rightarrow> string list \<Rightarrow> 'w remembering fetch_source" where
  "edge_source http why urls = \<lparr>fetch = edge_get_blob http why urls\<rparr>"


section \<open>What the pipeline returns\<close>

lemma fetch_from_verified:
  "fetch_from H cache b srcs s = (Ok d, t) \<Longrightarrow> verify_integrity H b d = Ok ()"
  by (induction srcs arbitrary: s) (auto simp: act_Ok_iffs split: option.splits)

lemma fetch_from_stored:
  assumes "fetch_from H cache b srcs s = (Ok d, t)"
  obtains u where "bs_put cache b d u = (Ok (), t)"
  using assms
  by (induction srcs arbitrary: s) (auto simp: act_Ok_iffs split: option.splits)

text \<open>C29: Whatever the cache, the peers, the edges and the authorizer do, the bytes a fetch returns have
  the requested digest; and if the authorizer refuses the principal, nothing is returned and neither
  the cache nor a source is asked.\<close>

theorem fetch_authentic:
  "(fetch_get H fp who org b s = (Ok d, t) \<longrightarrow> verify_integrity H b d = Ok ())
   \<and> (fp_authorizer fp = Some authz \<longrightarrow> authz oid p Read s = (Err e, t)
        \<longrightarrow> fetch_get H fp (Some p) (Some oid) b s = (Err e, t))"
  by (auto simp: fetch_get_def act_Ok_iffs seqM_Err fetch_from_verified split: if_splits)

definition lying_pipeline :: "mem_blobs fetch_pipeline" where
  "lying_pipeline = \<lparr>fp_cache = mem_blob_store,
     fp_sources = [\<lparr>fetch = (\<lambda>_. returnM None)\<rparr>, \<lparr>fetch = (\<lambda>_. returnM (Some [1]))\<rparr>],
     fp_authorizer = Some (\<lambda>_ p _. pureM (if p = ''alice'' then Ok () else Err Unauthorized))\<rparr>"

theorem fetch_authentic_witness:
  "fst (fetch_get demo_hashes lying_pipeline (Some ''alice'') (Some 1) (compute_blob_id demo_hashes [1] Blake3) []) = Ok [1]
   \<and> verify_integrity demo_hashes (compute_blob_id demo_hashes [1] Blake3) [1] = Ok ()
   \<and> fetch_get demo_hashes lying_pipeline (Some ''bob'') (Some 1) ''blake3:aa'' [] = (Err Unauthorized, [])"
proof -
  let ?id = "compute_blob_id demo_hashes [1] Blake3"
  obtain t where run: "fetch_get demo_hashes lying_pipeline (Some ''alice'') (Some 1) ?id [] = (Ok [1], t)"
    by (simp add: fetch_get_def lying_pipeline_def mem_blob_store_def mem_blob_has_def mem_blob_put_def seqM_def bindM_def
        del: compute_blob_id.simps)
  have "fetch_get demo_hashes lying_pipeline (Some ''bob'') (Some 1) ''blake3:aa'' [] = (Err Unauthorized, [])"
    using fetch_authentic [of demo_hashes lying_pipeline None None "''blake3:aa''" "[]" "[]" "[]"
        "\<lambda>_ p _. pureM (if p = ''alice'' then Ok () else Err Unauthorized)" 1 "''bob''" Unauthorized]
    by (simp add: lying_pipeline_def)
  then show ?thesis using run fetch_authentic [of demo_hashes lying_pipeline "Some ''alice''" "Some 1" ?id "[]" "[1]" t] by auto
qed

context blob_store_laws begin

text \<open>Whatever its outcome, a fetch changes the cache only by what it returns.\<close>

lemma fetch_effect:
  assumes cache: "fp_cache fp = bs" and b: "valid b" and noauth: "fp_authorizer fp = None"
    and run: "fetch_get H fp who org b s = (r, t)" and s: "inv s" "blobs s b = None"
    and srcs: "\<And>src u r v. src \<in> set (fp_sources fp) \<Longrightarrow> inv u \<Longrightarrow> fetch src b u = (r, v) \<Longrightarrow> inv v \<and> blobs v = blobs u"
  shows "inv t \<and> blobs t = (case r of Ok d \<Rightarrow> (blobs s)(b \<mapsto> d) | _ \<Rightarrow> blobs s)"
proof -
  have go: "fetch_from H bs b xs u = (r, t) \<Longrightarrow> set xs \<subseteq> set (fp_sources fp) \<Longrightarrow> inv u \<Longrightarrow> blobs u = blobs s
      \<Longrightarrow> inv t \<and> blobs t = (case r of Ok d \<Rightarrow> (blobs s)(b \<mapsto> d) | _ \<Rightarrow> blobs s)" for xs u
  proof (induction xs arbitrary: u)
    case Nil
    then show ?case by auto
  next
    case (Cons src xs)
    obtain q v where f: "fetch src b u = (q, v)" by force
    then have v: "inv v" "blobs v = blobs s" using srcs [of src u q v] Cons.prems by auto
    show ?case
    proof (cases q)
      case (Ok found)
      show ?thesis
      proof (cases found)
        case None
        then show ?thesis using Cons f Ok v by (simp add: bindM_def)
      next
        case (Some d)
        show ?thesis
          using Cons.prems f Ok Some v put_law [OF v(1) b, of d] s(2)
          by (cases "verify_integrity H b d") (auto simp: act_simps seqM_def)
      qed
    qed (use Cons.prems f v in \<open>auto simp: act_simps\<close>)
  qed
  have "fetch_from H bs b (fp_sources fp) s = (r, t)"
    using run cache noauth s has_law [OF s(1) b] by (simp add: fetch_get_def act_simps)
  then show ?thesis using go [of "fp_sources fp" s] s by auto
qed

text \<open>A fetch fills the cache: the next one is answered from it.\<close>

lemma fetch_fills_cache:
  assumes cache: "fp_cache fp = bs" and b: "valid b" and noauth: "fp_authorizer fp = None"
    and run: "fetch_get H fp who org b s = (Ok d, t)" and s: "inv s" "blobs s b = None"
    and srcs: "\<And>src u r v. src \<in> set (fp_sources fp) \<Longrightarrow> inv u \<Longrightarrow> fetch src b u = (r, v) \<Longrightarrow> inv v \<and> blobs v = blobs u"
  shows "inv t \<and> blobs t = (blobs s)(b \<mapsto> d) \<and> fetch_get H fp who org b t = (Ok d, t)"
proof -
  have t: "inv t" "blobs t = (blobs s)(b \<mapsto> d)"
    using fetch_effect [OF cache b noauth run s srcs] by simp_all
  have "fetch_from H bs b (fp_sources fp) s = (Ok d, t)"
    using run cache noauth s has_law [OF s(1) b] by (simp add: fetch_get_def act_simps)
  then have "verify_integrity H b d = Ok ()" by (rule fetch_from_verified)
  then show ?thesis
    using cache noauth t has_law [OF t(1) b] get_law [OF t(1) b] by (simp add: fetch_get_def act_simps)
qed

end

text \<open>One bad source hides the good ones. The sources are tried in order, but an answer that fails
  verification ends the fetch with an integrity error, and so does an error of a source: later
  sources that hold the blob are not asked.\<close>

theorem bad_source_hides_others:
  assumes "bs_has (fp_cache fp) b s = (Ok False, s)" and "fp_authorizer fp = None" and "fp_sources fp = src # others"
    and "fetch src b s = (r, u)" and "r = Err e \<or> (\<exists>d. r = Ok (Some d) \<and> verify_integrity H b d = Err e)"
  shows "fetch_get H fp who org b s = (Err e, u)"
  using assms by (auto simp: fetch_get_def act_simps)

theorem bad_source_hides_others_witness:
  "fetch_get demo_hashes \<lparr>fp_cache = mem_blob_store,
      fp_sources = [\<lparr>fetch = (\<lambda>_. pureM (Err (Io ''connection refused'')))\<rparr>, \<lparr>fetch = (\<lambda>_. returnM (Some [1]))\<rparr>],
      fp_authorizer = None\<rparr> None None (compute_blob_id demo_hashes [1] Blake3) [] = (Err (Io ''connection refused''), [])"
  by (rule bad_source_hides_others [where src = "\<lparr>fetch = (\<lambda>_. pureM (Err (Io ''connection refused'')))\<rparr>"
        and r = "Err (Io ''connection refused'')"])
    (simp_all add: mem_blob_store_def mem_blob_has_def del: compute_blob_id.simps)

text \<open>A discovered peer source returns the first answer among the providers of the blob, in
  registration order, and remembers exactly who gave it; it returns nothing, and remembers nobody,
  only if every provider answers that it does not have the blob.\<close>

theorem peer_source_first:
  assumes "discovery b s = (Ok ps, s)" and "\<And>p. p \<in> set ps \<Longrightarrow> client p b s = (Ok (answer p), s)"
  shows "fetch (discovered_peer_source discovery client) b (s, l) =
     (case List.find (\<lambda>p. answer p \<noteq> None) ps of
        Some p \<Rightarrow> (Ok (answer p), (s, Some p))
      | None \<Rightarrow> (Ok None, (s, None)))"
proof -
  have go: "try_peers client b qs (s, None) = (case List.find (\<lambda>p. answer p \<noteq> None) qs of
        Some p \<Rightarrow> (Ok (answer p), (s, Some p)) | None \<Rightarrow> (Ok None, (s, None)))" if "set qs \<subseteq> set ps" for qs
    using that assms(2)
    by (induction qs) (auto simp: act_simps set_last_provider_def split: option.splits)
  show ?thesis
    using go [of ps] assms(1) by (simp add: discovered_peer_source_def clear_last_provider_def act_simps)
qed

theorem peer_source_first_witness:
  "fetch (discovered_peer_source find_providers (\<lambda>p b. pureM (Ok (if p = ''p2'' then Some [7] else None)))) ''b''
     (\<lparr>sd_fallback = [''p1'', ''p2'', ''p3''], sd_providers = []\<rparr>, Some ''old'')
   = (Ok (Some [7]), (\<lparr>sd_fallback = [''p1'', ''p2'', ''p3''], sd_providers = []\<rparr>, Some ''p2''))"
  using peer_source_first [of find_providers "''b''" "\<lparr>sd_fallback = [''p1'', ''p2'', ''p3''], sd_providers = []\<rparr>"
      "[''p1'', ''p2'', ''p3'']" "\<lambda>p b. pureM (Ok (if p = ''p2'' then Some [7] else None))"
      "\<lambda>p. if p = ''p2'' then Some [7] else None" "Some ''old''"]
  by (simp add: find_providers_def)

end
