(* ===== verification/Sodl_Sql.thy ===== *)
theory Sodl_Sql
  imports Sodl_Node Sodl_Codec Sodl_Crypto
begin

text \<open>
  The SQLite metadata store, \<open>crates/sodl-persist\<close>. A table is the list of its rows with the
  primary key first; the statements have their documented meaning on it. JSON columns hold the
  text a codec writes; the codecs and the UUID parser are arguments, \<open>sql_env\<close>. The schema
  declares the counter columns as integers: an increment past the 64-bit range turns the value
  into a floating-point number, which reads back as an error and so as zero.
\<close>

section \<open>Rows, statements and errors\<close>

record sql_env =
  jc_origin :: "origin_record codec"
  jc_policy :: "origin_policy codec"
  jc_pin :: "pin_record codec"
  jc_edge :: "lineage_edge codec"
  jc_derivation :: "derivation_manifest codec"
  jc_share :: "share_record codec"
  parse_uuid :: "string \<Rightarrow> (string, uuid) outcome"

definition sql_env_ok :: "sql_env \<Rightarrow> bool" where
  "sql_env_ok E \<longleftrightarrow> codec_ok (jc_origin E) \<and> codec_ok (jc_policy E) \<and> codec_ok (jc_pin E) \<and> codec_ok (jc_edge E)
     \<and> codec_ok (jc_derivation E) \<and> codec_ok (jc_share E) \<and> (\<forall>u. parse_uuid E (uuid_show u) = Ok u)"

datatype sql_error = NoRows | Constraint string | SqlOther string

fun map_sql :: "sql_error \<Rightarrow> sodl_error" where
  "map_sql NoRows = NotFound"
| "map_sql (Constraint msg) = Io (''sqlite: '' @ msg)"
| "map_sql (SqlOther msg) = Io (''sqlite: '' @ msg)"

fun create_error :: "sql_error \<Rightarrow> sodl_error" where
  "create_error (Constraint msg) = Conflict"
| "create_error e = map_sql e"

definition map_error :: "('e \<Rightarrow> 'f) \<Rightarrow> ('e, 'a) outcome \<Rightarrow> ('f, 'a) outcome" where
  "map_error g r = (case r of Ok a \<Rightarrow> Ok a | Err e \<Rightarrow> Err (g e) | Panic \<Rightarrow> Panic)"

lemma map_error_simps [simp]:
  "map_error g (Ok a) = Ok a" "map_error g (Err e) = Err (g e)" "map_error g Panic = Panic"
  by (simp_all add: map_error_def)

definition json_err :: "(string, 'a) outcome \<Rightarrow> 'a res" where
  "json_err = map_error (\<lambda>e. Io (''json: '' @ e))"

definition to_json :: "'a codec \<Rightarrow> 'a \<Rightarrow> bytes res" where
  "to_json J x = json_err (to_vec J x)"

definition of_json :: "'a codec \<Rightarrow> bytes \<Rightarrow> 'a res" where
  "of_json J b = json_err (from_slice J b)"

text \<open>\<open>INSERT\<close>, \<open>INSERT OR REPLACE\<close>, \<open>INSERT OR IGNORE\<close> and a query for one row.\<close>

definition sql_insert :: "string \<Rightarrow> 'k \<Rightarrow> 'v \<Rightarrow> (('k, 'v) hmap, sql_error, unit) act" where
  "sql_insert column k v m =
     (if hhas m k then (Err (Constraint (''UNIQUE constraint failed: '' @ column)), m) else (Ok (), m @ [(k, v)]))"

definition sql_replace :: "'k \<Rightarrow> 'v \<Rightarrow> (('k, 'v) hmap, sql_error, unit) act" where
  "sql_replace k v = modifyM (\<lambda>m. hdel k m @ [(k, v)])"

definition sql_row :: "'k \<Rightarrow> (('k, 'v) hmap, sql_error, 'v) act" where
  "sql_row k = readM (\<lambda>m. of_option NoRows (hget m k))"

definition sql_call :: "('e \<Rightarrow> sodl_error) \<Rightarrow> ('s, 'e, 'a) act \<Rightarrow> ('s, 'a) op" where
  "sql_call g m s = (case m s of (r, t) \<Rightarrow> (map_error g r, t))"

definition sql_inc :: "'k \<Rightarrow> ('k, int) hmap \<Rightarrow> ('k, int) hmap" where
  "sql_inc k m = (case hget m k of None \<Rightarrow> m @ [(k, 1)]
     | Some n \<Rightarrow> hput k (if I64_MAX \<le> n then I64_MAX + 1 else n + 1) m)"

definition sql_dec :: "'k \<Rightarrow> ('k, int) hmap \<Rightarrow> ('k, int) hmap" where
  "sql_dec k m = (case hget m k of None \<Rightarrow> m
     | Some n \<Rightarrow> hput k (if I64_MAX < n then n else max (n - 1) 0) m)"

definition sql_count :: "('k, int) hmap \<Rightarrow> 'k \<Rightarrow> int" where
  "sql_count m k = (case hget m k of None \<Rightarrow> 0 | Some n \<Rightarrow> if I64_MAX < n then 0 else n)"


section \<open>The store\<close>

record sql_db =
  sq_version :: int
  sq_tables :: "string list"
  sq_origins :: "(string, bytes) hmap"
  sq_policies :: "(string, bytes) hmap"
  sq_pins :: "(string, string \<times> bytes) hmap"
  sq_origin_refs :: "(string, int) hmap"
  sq_blob_refs :: "(string, int) hmap"
  sq_edges :: "(string, string \<times> bytes) hmap"
  sq_derivations :: "(string \<times> string, bytes) hmap"
  sq_shares :: "(string, string \<times> bytes) hmap"
  sq_payload_fps :: "(string \<times> string) list"
  sq_chunk_fps :: "(string \<times> string) list"

definition create_tables :: "string list \<Rightarrow> sql_db \<Rightarrow> sql_db" where
  "create_tables names db = db\<lparr>sq_tables := fold push_unique names (sq_tables db)\<rparr>"

definition migrate_v1 :: "sql_db \<Rightarrow> sql_db" where
  "migrate_v1 = create_tables [''origins'', ''policies'', ''pins'', ''origin_refcounts'', ''blob_refcounts'',
     ''lineage_edges'', ''derivations'', ''shares'']"

definition migrate_v2 :: "sql_db \<Rightarrow> sql_db" where
  "migrate_v2 = create_tables [''payload_fingerprints'', ''chunk_fingerprints'']"

definition CURRENT_VERSION :: int where
  "CURRENT_VERSION = 2"

definition apply_migrations :: "sql_db \<Rightarrow> sql_db" where
  "apply_migrations db =
     (let db1 = (if sq_version db < 1 then migrate_v1 db else db);
          db2 = (if sq_version db < 2 then migrate_v2 db1 else db1)
      in db2\<lparr>sq_version := CURRENT_VERSION\<rparr>)"

definition open_memory :: sql_db where
  "open_memory = apply_migrations
     \<lparr>sq_version = 0, sq_tables = [], sq_origins = [], sq_policies = [], sq_pins = [], sq_origin_refs = [],
      sq_blob_refs = [], sq_edges = [], sq_derivations = [], sq_shares = [], sq_payload_fps = [], sq_chunk_fps = []\<rparr>"

definition sql_create_origin :: "sql_env \<Rightarrow> origin_record \<Rightarrow> (sql_db, unit) op" where
  "sql_create_origin E rec = bindM (pureM (to_json (jc_origin E) rec)) (\<lambda>json.
     liftM sq_origins (\<lambda>x d. d\<lparr>sq_origins := x\<rparr>)
       (sql_call create_error (sql_insert ''origins.origin_id'' (uuid_show (or_origin_id rec)) json)))"

definition sql_get_origin :: "sql_env \<Rightarrow> origin_id \<Rightarrow> (sql_db, origin_record) op" where
  "sql_get_origin E org = bindM (liftM sq_origins (\<lambda>x d. d\<lparr>sq_origins := x\<rparr>)
     (sql_call map_sql (sql_row (uuid_show org)))) (\<lambda>json. pureM (of_json (jc_origin E) json))"

definition sql_update_origin :: "sql_env \<Rightarrow> origin_record \<Rightarrow> (sql_db, unit) op" where
  "sql_update_origin E rec = bindM (pureM (to_json (jc_origin E) rec)) (\<lambda>json.
     liftM sq_origins (\<lambda>x d. d\<lparr>sq_origins := x\<rparr>)
       (sql_call map_sql (sql_replace (uuid_show (or_origin_id rec)) json)))"

definition sql_delete_origin :: "origin_id \<Rightarrow> (sql_db, unit) op" where
  "sql_delete_origin org = modifyM (\<lambda>d. d\<lparr>sq_origins := hdel (uuid_show org) (sq_origins d)\<rparr>)"

definition sql_get_policy :: "sql_env \<Rightarrow> origin_id \<Rightarrow> (sql_db, origin_policy) op" where
  "sql_get_policy E org = bindM (liftM sq_policies (\<lambda>x d. d\<lparr>sq_policies := x\<rparr>)
     (sql_call map_sql (sql_row (uuid_show org)))) (\<lambda>json. pureM (of_json (jc_policy E) json))"

definition sql_put_policy :: "sql_env \<Rightarrow> origin_policy \<Rightarrow> (sql_db, unit) op" where
  "sql_put_policy E p = bindM (pureM (to_json (jc_policy E) p)) (\<lambda>json.
     liftM sq_policies (\<lambda>x d. d\<lparr>sq_policies := x\<rparr>)
       (sql_call map_sql (sql_replace (uuid_show (op_origin_id p)) json)))"

fun target_origin :: "pin_target \<Rightarrow> origin_id" where
  "target_origin (PinOrigin org) = org"
| "target_origin (PinRepresentation org name) = org"

definition sql_create_pin :: "sql_env \<Rightarrow> pin_record \<Rightarrow> (sql_db, unit) op" where
  "sql_create_pin E p = bindM (pureM (to_json (jc_pin E) p)) (\<lambda>json.
     liftM sq_pins (\<lambda>x d. d\<lparr>sq_pins := x\<rparr>)
       (sql_call map_sql (sql_insert ''pins.pin_id'' (pr_pin_id p) (uuid_show (target_origin (pr_target p)), json))))"

definition sql_get_pin :: "sql_env \<Rightarrow> string \<Rightarrow> (sql_db, pin_record) op" where
  "sql_get_pin E pid = bindM (liftM sq_pins (\<lambda>x d. d\<lparr>sq_pins := x\<rparr>) (sql_call map_sql (sql_row pid)))
     (\<lambda>(oid, json). pureM (of_json (jc_pin E) json))"

definition sql_list_pins :: "sql_env \<Rightarrow> origin_id \<Rightarrow> (sql_db, pin_record list) op" where
  "sql_list_pins E org = readM (\<lambda>d. mapR (\<lambda>(pid, oid, json). of_json (jc_pin E) json)
     (filter (\<lambda>(pid, oid, json). oid = uuid_show org) (sq_pins d)))"

definition sql_update_pin :: "sql_env \<Rightarrow> pin_record \<Rightarrow> (sql_db, unit) op" where
  "sql_update_pin E p = bindM (pureM (to_json (jc_pin E) p)) (\<lambda>json. modifyM (\<lambda>d.
     d\<lparr>sq_pins := (case hget (sq_pins d) (pr_pin_id p) of None \<Rightarrow> sq_pins d
        | Some (oid, old) \<Rightarrow> hput (pr_pin_id p) (oid, json) (sq_pins d))\<rparr>))"

definition sql_release_pin :: "sql_env \<Rightarrow> string \<Rightarrow> (sql_db, unit) op" where
  "sql_release_pin E pid = bindM (sql_get_pin E pid) (\<lambda>p. sql_update_pin E (p\<lparr>pr_state := Released\<rparr>))"

definition sql_inc_origin :: "origin_id \<Rightarrow> ref_kind \<Rightarrow> (sql_db, unit) op" where
  "sql_inc_origin org reason = modifyM (\<lambda>d. d\<lparr>sq_origin_refs := sql_inc (uuid_show org) (sq_origin_refs d)\<rparr>)"

definition sql_dec_origin :: "origin_id \<Rightarrow> ref_kind \<Rightarrow> (sql_db, unit) op" where
  "sql_dec_origin org reason = modifyM (\<lambda>d. d\<lparr>sq_origin_refs := sql_dec (uuid_show org) (sq_origin_refs d)\<rparr>)"

definition sql_get_origin_refs :: "origin_id \<Rightarrow> (sql_db, int) op" where
  "sql_get_origin_refs org = readM (\<lambda>d. Ok (sql_count (sq_origin_refs d) (uuid_show org)))"

definition sql_inc_blob :: "blob_id \<Rightarrow> ref_kind \<Rightarrow> (sql_db, unit) op" where
  "sql_inc_blob b reason = modifyM (\<lambda>d. d\<lparr>sq_blob_refs := sql_inc b (sq_blob_refs d)\<rparr>)"

definition sql_dec_blob :: "blob_id \<Rightarrow> ref_kind \<Rightarrow> (sql_db, unit) op" where
  "sql_dec_blob b reason = modifyM (\<lambda>d. d\<lparr>sq_blob_refs := sql_dec b (sq_blob_refs d)\<rparr>)"

definition sql_get_blob_refs :: "blob_id \<Rightarrow> (sql_db, int) op" where
  "sql_get_blob_refs b = readM (\<lambda>d. Ok (sql_count (sq_blob_refs d) b))"

definition uuid_of_text :: "sql_env \<Rightarrow> string \<Rightarrow> uuid res" where
  "uuid_of_text E s = map_error (\<lambda>e. Io (''uuid: '' @ e)) (parse_uuid E s)"

definition sql_list_origins :: "sql_env \<Rightarrow> (sql_db, origin_id list) op" where
  "sql_list_origins E = readM (\<lambda>d. mapR (\<lambda>(s, n). uuid_of_text E s) (filter (\<lambda>(s, n). 0 < n) (sq_origin_refs d)))"

definition sql_list_blobs :: "(sql_db, blob_id list) op" where
  "sql_list_blobs = readM (\<lambda>d. Ok (map fst (filter (\<lambda>(b, n). 0 < n) (sq_blob_refs d))))"

definition sql_add_edge :: "sql_env \<Rightarrow> lineage_edge \<Rightarrow> (sql_db, unit) op" where
  "sql_add_edge E e = bindM (pureM (to_json (jc_edge E) e)) (\<lambda>json.
     liftM sq_edges (\<lambda>x d. d\<lparr>sq_edges := x\<rparr>)
       (sql_call map_sql (sql_insert ''lineage_edges.edge_id'' (le_edge_id e) (uuid_show (le_origin_id e), json))))"

definition sql_list_edges :: "sql_env \<Rightarrow> origin_id \<Rightarrow> (sql_db, lineage_edge list) op" where
  "sql_list_edges E org = readM (\<lambda>d. mapR (\<lambda>(eid, oid, json). of_json (jc_edge E) json)
     (filter (\<lambda>(eid, oid, json). oid = uuid_show org) (sq_edges d)))"

definition sql_put_payload_fp :: "origin_id \<Rightarrow> string \<Rightarrow> (sql_db, unit) op" where
  "sql_put_payload_fp org fp = modifyM (\<lambda>d. d\<lparr>sq_payload_fps := push_unique (fp, uuid_show org) (sq_payload_fps d)\<rparr>)"

fun first_occurrences :: "'a list \<Rightarrow> 'a list \<Rightarrow> 'a list" where
  "first_occurrences seen [] = []"
| "first_occurrences seen (x # xs) =
     (if x \<in> set seen then first_occurrences seen xs else x # first_occurrences (x # seen) xs)"

definition sql_put_chunk_fps :: "origin_id \<Rightarrow> string list \<Rightarrow> (sql_db, unit) op" where
  "sql_put_chunk_fps org fps = modifyM (\<lambda>d. d\<lparr>sq_chunk_fps :=
     fold (\<lambda>fp. push_unique (fp, uuid_show org)) (first_occurrences [] fps) (sq_chunk_fps d)\<rparr>)"

definition fp_rows :: "sql_env \<Rightarrow> (string \<times> string) list \<Rightarrow> string \<Rightarrow> origin_id list res" where
  "fp_rows E table fp = mapR (uuid_of_text E) (map snd (filter (\<lambda>(f, s). f = fp) table))"

definition sql_find_payload_fp :: "sql_env \<Rightarrow> string \<Rightarrow> (sql_db, origin_id list) op" where
  "sql_find_payload_fp E fp = readM (\<lambda>d. fp_rows E (sq_payload_fps d) fp)"

definition sql_find_chunk_fps :: "sql_env \<Rightarrow> string list \<Rightarrow> (sql_db, (origin_id \<times> nat) list) op" where
  "sql_find_chunk_fps E fps = readM (\<lambda>d.
     bindR (mapR (fp_rows E (sq_chunk_fps d)) (first_occurrences [] fps)) (\<lambda>found.
       Ok (rev (sort_key snd (rev (fold (\<lambda>org. hentry org 0 Suc) (concat found) []))))))"

definition sql_put_derivation :: "sql_env \<Rightarrow> derivation_manifest \<Rightarrow> (sql_db, unit) op" where
  "sql_put_derivation E m = bindM (pureM (to_json (jc_derivation E) m)) (\<lambda>json.
     liftM sq_derivations (\<lambda>x d. d\<lparr>sq_derivations := x\<rparr>)
       (sql_call map_sql (sql_replace (uuid_show (dm_origin_id m), dm_derivation_id m) json)))"

definition sql_get_derivation :: "sql_env \<Rightarrow> origin_id \<Rightarrow> derivation_id \<Rightarrow> (sql_db, derivation_manifest) op" where
  "sql_get_derivation E org did = bindM (liftM sq_derivations (\<lambda>x d. d\<lparr>sq_derivations := x\<rparr>)
     (sql_call map_sql (sql_row (uuid_show org, did)))) (\<lambda>json. pureM (of_json (jc_derivation E) json))"

definition sql_list_derivations :: "sql_env \<Rightarrow> origin_id \<Rightarrow> (sql_db, derivation_manifest list) op" where
  "sql_list_derivations E org = readM (\<lambda>d. mapR (\<lambda>((oid, did), json). of_json (jc_derivation E) json)
     (filter (\<lambda>((oid, did), json). oid = uuid_show org) (sq_derivations d)))"

definition sql_put_share :: "sql_env \<Rightarrow> share_record \<Rightarrow> (sql_db, unit) op" where
  "sql_put_share E s = bindM (pureM (to_json (jc_share E) s)) (\<lambda>json.
     liftM sq_shares (\<lambda>x d. d\<lparr>sq_shares := x\<rparr>)
       (sql_call map_sql (sql_replace (sr_share_id s) (uuid_show (sr_origin_id s), json))))"

definition sql_get_share :: "sql_env \<Rightarrow> share_id \<Rightarrow> (sql_db, share_record) op" where
  "sql_get_share E sid = bindM (liftM sq_shares (\<lambda>x d. d\<lparr>sq_shares := x\<rparr>) (sql_call map_sql (sql_row sid)))
     (\<lambda>(oid, json). pureM (of_json (jc_share E) json))"

definition sql_list_shares :: "sql_env \<Rightarrow> origin_id \<Rightarrow> (sql_db, share_record list) op" where
  "sql_list_shares E org = readM (\<lambda>d. mapR (\<lambda>(sid, oid, json). of_json (jc_share E) json)
     (filter (\<lambda>(sid, oid, json). oid = uuid_show org) (sq_shares d)))"


section \<open>Migrations\<close>

lemma push_unique_fold_mem: "set names \<subseteq> set ts \<Longrightarrow> fold push_unique names ts = ts"
  by (induction names) (simp_all add: push_unique_def)

lemma push_unique_fold_set: "set (fold push_unique names ts) = set ts \<union> set names"
  by (induction names arbitrary: ts) (auto simp: push_unique_def)

lemma migrations_idempotent: "apply_migrations (apply_migrations db) = apply_migrations db"
  by (simp add: apply_migrations_def CURRENT_VERSION_def Let_def)

lemma migrations_keep_rows:
  "sq_origins (apply_migrations db) = sq_origins db" "sq_blob_refs (apply_migrations db) = sq_blob_refs db"
  "set (sq_tables db) \<subseteq> set (sq_tables (apply_migrations db))"
  by (auto simp: apply_migrations_def migrate_v1_def migrate_v2_def create_tables_def Let_def push_unique_fold_set)

end
