(* ===== verification/Sodl_Persist.thy ===== *)
theory Sodl_Persist
  imports Sodl_Sql Sodl_Lifecycle
begin

text \<open>
  A node on the SQLite metadata store. The state is the database beside the in-memory tombstones,
  replicas and blobs; \<open>sql_inv\<close> says that each row holds the text of a record under the key of
  that record, and \<open>sql_view\<close> reads the rows back. Under the documented behaviour of the codecs
  (\<open>sql_env_ok\<close>) this node satisfies the same contract as the in-memory one, so the lifecycle
  theorems hold of it too.
\<close>

section \<open>Rows that hold records\<close>

definition rows_ok :: "'a codec \<Rightarrow> ('a \<Rightarrow> bytes \<Rightarrow> 'v) \<Rightarrow> ('a \<Rightarrow> 'k) \<Rightarrow> ('k, 'v) hmap \<Rightarrow> bool" where
  "rows_ok J mk key m \<longleftrightarrow> hwf m \<and> (\<forall>(k, v) \<in> set m. \<exists>x b. to_vec J x = Ok b \<and> v = mk x b \<and> k = key x)"

definition row_get :: "'a codec \<Rightarrow> ('v \<Rightarrow> bytes) \<Rightarrow> ('k, 'v) hmap \<Rightarrow> 'k \<Rightarrow> 'a option" where
  "row_get J dt m k = (case hget m k of None \<Rightarrow> None | Some v \<Rightarrow> try_parse J (dt v))"

definition row_all :: "'a codec \<Rightarrow> ('v \<Rightarrow> bytes) \<Rightarrow> ('k, 'v) hmap \<Rightarrow> 'a list" where
  "row_all J dt m = map (\<lambda>(k, v). the (try_parse J (dt v))) m"

lemma to_json_Ok [simp]: "to_vec J x = Ok b \<Longrightarrow> to_json J x = Ok b"
  by (simp add: to_json_def json_err_def)

lemma of_json_Ok: "codec_ok J \<Longrightarrow> to_vec J x = Ok b \<Longrightarrow> of_json J b = Ok x"
  by (erule codec_okE [of J x]) (simp add: of_json_def json_err_def)

lemma rows_okD:
  assumes "rows_ok J mk key m" and "codec_ok J" and "\<And>x b. dt (mk x b) = b" and "(k, v) \<in> set m"
  obtains x b where "to_vec J x = Ok b" "v = mk x b" "k = key x" "try_parse J (dt v) = Some x" "of_json J (dt v) = Ok x"
  using assms codec_ok_parse of_json_Ok unfolding rows_ok_def by fastforce

lemma row_getD:
  assumes "rows_ok J mk key m" and "codec_ok J" and "\<And>x b. dt (mk x b) = b" and "row_get J dt m k = Some x"
  obtains b where "hget m k = Some (mk x b)" "to_vec J x = Ok b" "k = key x" "of_json J b = Ok x"
proof -
  obtain v where v: "hget m k = Some v" "try_parse J (dt v) = Some x"
    using assms(4) by (auto simp: row_get_def split: option.splits)
  obtain y b where "to_vec J y = Ok b" "v = mk y b" "k = key y" "try_parse J (dt v) = Some y" "of_json J (dt v) = Ok y"
    by (rule rows_okD [OF assms(1-3) hget_mem [OF v(1)]])
  then show thesis using that v assms(3) by simp
qed

lemma row_get_None:
  assumes "rows_ok J mk key m" and "codec_ok J" and "\<And>x b. dt (mk x b) = b"
  shows "row_get J dt m k = None \<longleftrightarrow> hget m k = None"
proof (cases "hget m k")
  case (Some v)
  show ?thesis
    by (rule rows_okD [OF assms hget_mem [OF Some]]) (use Some in \<open>simp add: row_get_def\<close>)
qed (simp add: row_get_def)

text \<open>A query for one row, and its answer in terms of the records.\<close>

lemma row_query:
  assumes "rows_ok J mk key (g d)" and "codec_ok J" and "\<And>x b. dt (mk x b) = b" and "u (g d) d = d"
  shows "bindM (liftM g u (sql_call map_sql (sql_row k))) (\<lambda>v. pureM (of_json J (dt v))) d
    = (of_option NotFound (row_get J dt (g d) k), d)"
proof (cases "row_get J dt (g d) k")
  case None
  then have "hget (g d) k = None" using row_get_None [OF assms(1-3)] by simp
  then show ?thesis using None assms(4) by (simp add: sql_call_def sql_row_def act_simps)
next
  case (Some x)
  then obtain b where "hget (g d) k = Some (mk x b)" "of_json J b = Ok x" by (rule row_getD [OF assms(1-3)])
  then show ?thesis using Some assms(3,4) by (simp add: sql_call_def sql_row_def act_simps)
qed

text \<open>The three statements that write a row.\<close>

lemma stmt_insert:
  assumes "to_vec J x = Ok b" and "hget (g d) (key x) = None"
  shows "bindM (pureM (to_json J x)) (\<lambda>json. liftM g u (sql_call e (sql_insert c (key x) (mk x json)))) d
    = (Ok (), u (g d @ [(key x, mk x b)]) d)"
  using assms by (simp add: sql_call_def sql_insert_def act_simps)

lemma stmt_replace:
  assumes "to_vec J x = Ok b"
  shows "bindM (pureM (to_json J x)) (\<lambda>json. liftM g u (sql_call e (sql_replace (key x) (mk x json)))) d
    = (Ok (), u (hdel (key x) (g d) @ [(key x, mk x b)]) d)"
  using assms by (simp add: sql_call_def sql_replace_def act_simps)

lemma row_select:
  assumes "rows_ok J mk key m" and "codec_ok J" and "\<And>x b. dt (mk x b) = b" and "set rows \<subseteq> set m"
  shows "mapR (\<lambda>(k, v). of_json J (dt v)) rows = Ok (row_all J dt rows)"
  unfolding row_all_def
proof (rule mapR_Ok)
  fix kv assume "kv \<in> set rows"
  then have "kv \<in> set m" using assms(4) by blast
  then obtain k v where kv: "kv = (k, v)" "(k, v) \<in> set m" by (metis surj_pair)
  show "(case kv of (k, v) \<Rightarrow> of_json J (dt v)) = Ok (case kv of (k, v) \<Rightarrow> the (try_parse J (dt v)))"
    by (rule rows_okD [OF assms(1-3) kv(2)]) (simp add: kv(1))
qed

lemma rows_ok_Nil [simp]: "rows_ok J mk key []"
  by (simp add: rows_ok_def)

lemma hwf_append: "hwf m \<Longrightarrow> hget m k = None \<Longrightarrow> hwf (m @ [(k, v)])"
  by (simp add: hwf_def hget_def map_of_eq_None_iff)

lemma hget_append: "hget (m @ [(k, v)]) j = (case hget m j of None \<Rightarrow> if j = k then Some v else None | Some w \<Rightarrow> Some w)"
  by (auto simp: hget_def map_add_def split: option.splits)

lemma set_hdel: "set (hdel k m) \<subseteq> set m"
  unfolding hdel_def by (induction m) (auto simp: AList.delete_eq)

lemma set_hput: "set (hput k v m) \<subseteq> insert (k, v) (set m)"
  unfolding hput_def by (induction m) auto

lemma rows_insert:
  assumes "rows_ok J mk key m" and "to_vec J x = Ok b" and "hget m (key x) = None"
  shows "rows_ok J mk key (m @ [(key x, mk x b)])"
  using assms hwf_append [of m "key x"] by (fastforce simp: rows_ok_def)

lemma rows_delete: "rows_ok J mk key m \<Longrightarrow> rows_ok J mk key (hdel k m)"
  using set_hdel [of k m] by (auto simp: rows_ok_def)

lemma rows_replace:
  assumes "rows_ok J mk key m" and "to_vec J x = Ok b"
  shows "rows_ok J mk key (hdel (key x) m @ [(key x, mk x b)])"
  by (rule rows_insert [OF rows_delete [OF assms(1)] assms(2)]) simp

lemma rows_update:
  assumes "rows_ok J mk key m" and "to_vec J x = Ok b"
  shows "rows_ok J mk key (hput (key x) (mk x b) m)"
  using assms set_hput [of "key x" "mk x b" m] by (fastforce simp: rows_ok_def)

lemma row_get_insert:
  assumes "codec_ok J" and "to_vec J x = Ok b" and "\<And>x b. dt (mk x b) = b" and "hget m (key x) = None"
  shows "row_get J dt (m @ [(key x, mk x b)]) = (row_get J dt m)(key x \<mapsto> x)"
  using assms codec_ok_parse [OF assms(1,2)]
  by (auto simp: row_get_def hget_append fun_eq_iff split: option.splits)

lemma row_get_replace:
  assumes "codec_ok J" and "to_vec J x = Ok b" and "\<And>x b. dt (mk x b) = b"
  shows "row_get J dt (hdel (key x) m @ [(key x, mk x b)]) = (row_get J dt m)(key x \<mapsto> x)"
  using assms codec_ok_parse [OF assms(1,2)] by (auto simp: row_get_def hget_append fun_eq_iff split: option.splits)

lemma row_get_update:
  assumes "codec_ok J" and "to_vec J x = Ok b" and "\<And>x b. dt (mk x b) = b"
  shows "row_get J dt (hput (key x) (mk x b) m) = (row_get J dt m)(key x \<mapsto> x)"
  using assms codec_ok_parse [OF assms(1,2)] by (auto simp: row_get_def fun_eq_iff)

lemma row_all_insert:
  assumes "codec_ok J" and "to_vec J x = Ok b" and "\<And>x b. dt (mk x b) = b"
  shows "row_all J dt (m @ [(k, mk x b)]) = row_all J dt m @ [x]"
  using assms codec_ok_parse [OF assms(1,2)] by (simp add: row_all_def)


text \<open>A written record, packaged.\<close>

lemma table_insert:
  assumes "rows_ok J mk key m" and "codec_ok J" and "\<And>x b. dt (mk x b) = b" and "row_get J dt m (key x) = None"
  obtains b where "to_vec J x = Ok b" "hget m (key x) = None" "rows_ok J mk key (m @ [(key x, mk x b)])"
    "row_get J dt (m @ [(key x, mk x b)]) = (row_get J dt m)(key x \<mapsto> x)"
proof -
  obtain b where b: "to_vec J x = Ok b" using assms(2) by (rule codec_okE)
  have none: "hget m (key x) = None" using assms row_get_None [OF assms(1-3)] by simp
  show thesis
    by (rule that [OF b none rows_insert [where key = key, OF assms(1) b none]
        row_get_insert [where key = key and mk = mk, OF assms(2) b assms(3) none]])
qed

lemma table_replace:
  assumes "rows_ok J mk key m" and "codec_ok J" and "\<And>x b. dt (mk x b) = b"
  obtains b where "to_vec J x = Ok b" "rows_ok J mk key (hdel (key x) m @ [(key x, mk x b)])"
    "row_get J dt (hdel (key x) m @ [(key x, mk x b)]) = (row_get J dt m)(key x \<mapsto> x)"
proof -
  obtain b where b: "to_vec J x = Ok b" using assms(2) by (rule codec_okE)
  show thesis
    by (rule that [OF b rows_replace [where key = key, OF assms(1) b]
        row_get_replace [where key = key and mk = mk, OF assms(2) b assms(3)]])
qed

section \<open>The tables\<close>

abbreviation with_col :: "('a \<Rightarrow> origin_id) \<Rightarrow> 'a \<Rightarrow> bytes \<Rightarrow> string \<times> bytes" where
  "with_col owner \<equiv> \<lambda>x b. (uuid_show (owner x), b)"

abbreviation plain_col :: "'a \<Rightarrow> bytes \<Rightarrow> bytes" where
  "plain_col \<equiv> \<lambda>x b. b"

definition counts_ok :: "('k, int) hmap \<Rightarrow> bool" where
  "counts_ok m \<longleftrightarrow> hwf m \<and> (\<forall>(k, n) \<in> set m. 0 \<le> n \<and> n \<le> I64_MAX)"

definition shown :: "string set" where
  "shown = range uuid_show"

definition tables_ok :: "sql_env \<Rightarrow> sql_db \<Rightarrow> bool" where
  "tables_ok E d \<longleftrightarrow>
     rows_ok (jc_origin E) plain_col (\<lambda>r. uuid_show (or_origin_id r)) (sq_origins d)
     \<and> rows_ok (jc_policy E) plain_col (\<lambda>p. uuid_show (op_origin_id p)) (sq_policies d)
     \<and> rows_ok (jc_pin E) (with_col (\<lambda>p. target_origin (pr_target p))) pr_pin_id (sq_pins d)
     \<and> rows_ok (jc_edge E) (with_col le_origin_id) le_edge_id (sq_edges d)
     \<and> rows_ok (jc_derivation E) plain_col (\<lambda>m. (uuid_show (dm_origin_id m), dm_derivation_id m)) (sq_derivations d)
     \<and> rows_ok (jc_share E) (with_col sr_origin_id) sr_share_id (sq_shares d)
     \<and> counts_ok (sq_origin_refs d) \<and> fst ` set (sq_origin_refs d) \<subseteq> shown \<and> counts_ok (sq_blob_refs d)
     \<and> distinct (sq_payload_fps d) \<and> snd ` set (sq_payload_fps d) \<subseteq> shown
     \<and> distinct (sq_chunk_fps d) \<and> snd ` set (sq_chunk_fps d) \<subseteq> shown"

lemmas tables_okD = tables_ok_def [THEN iffD1, rule_format]

lemma env_parse: "sql_env_ok E \<Longrightarrow> parse_uuid E (uuid_show u) = Ok u"
  by (simp add: sql_env_ok_def)

lemma env_show_inj: "sql_env_ok E \<Longrightarrow> uuid_show u = uuid_show v \<longleftrightarrow> u = v"
  by (metis env_parse outcome.inject(1))

lemma env_of_text: "sql_env_ok E \<Longrightarrow> uuid_of_text E (uuid_show u) = Ok u"
  by (simp add: uuid_of_text_def env_parse)

lemma shown_texts:
  assumes "sql_env_ok E" and "set ts \<subseteq> shown"
  obtains us where "mapR (uuid_of_text E) ts = Ok us" "ts = map uuid_show us"
proof -
  have "\<forall>s \<in> set ts. \<exists>u. s = uuid_show u" using assms(2) by (auto simp: shown_def)
  then obtain f where f: "\<forall>s \<in> set ts. s = uuid_show (f s)" by metis
  have "mapR (uuid_of_text E) ts = Ok (map f ts)"
    by (rule mapR_Ok) (metis assms(1) env_of_text f)
  moreover have "ts = map uuid_show (map f ts)" using f by (simp add: map_idI)
  ultimately show thesis by (rule that)
qed


section \<open>Counters\<close>

lemma counts_row: "counts_ok m \<Longrightarrow> hget m k = Some n \<Longrightarrow> 0 \<le> n \<and> n \<le> I64_MAX"
  using hget_mem [of m k n] by (auto simp: counts_ok_def)

lemma counts_bound: "counts_ok m \<Longrightarrow> 0 \<le> sql_count m k \<and> sql_count m k \<le> I64_MAX"
  using counts_row [of m k] by (simp add: sql_count_def split: option.split)

lemma sql_inc_ok:
  assumes "counts_ok m" and "sql_count m k < I64_MAX"
  shows "counts_ok (sql_inc k m)" and "sql_count (sql_inc k m) = (sql_count m)(k := sql_count m k + 1)"
    and "fst ` set (sql_inc k m) = insert k (fst ` set m)"
proof -
  show "counts_ok (sql_inc k m)"
  proof (cases "hget m k")
    case None
    then show ?thesis using assms hwf_append [of m k] by (auto simp: counts_ok_def sql_inc_def I64_MAX_def)
  next
    case (Some n)
    then show ?thesis
      using assms set_hput [of k "n + 1" m] counts_row [OF assms(1) Some]
      by (fastforce simp: counts_ok_def sql_inc_def sql_count_def)
  qed
  show "sql_count (sql_inc k m) = (sql_count m)(k := sql_count m k + 1)"
    using assms counts_row [OF assms(1), of k]
    by (auto simp: sql_count_def sql_inc_def hget_append fun_eq_iff I64_MAX_def split: option.splits)
  show "fst ` set (sql_inc k m) = insert k (fst ` set m)"
    by (auto simp: sql_inc_def hput_def dom_update [of k _ m, unfolded dom_map_of_conv_image_fst]
        dest: hget_mem split: option.splits)
qed

lemma sql_dec_ok:
  assumes "counts_ok m"
  shows "counts_ok (sql_dec k m)" and "sql_count (sql_dec k m) = (sql_count m)(k := saturating_dec (sql_count m k))"
    and "fst ` set (sql_dec k m) \<subseteq> fst ` set m"
proof -
  show "counts_ok (sql_dec k m)"
  proof (cases "hget m k")
    case None
    then show ?thesis using assms by (simp add: sql_dec_def)
  next
    case (Some n)
    then show ?thesis
      using assms set_hput [of k "max (n - 1) 0" m] counts_row [OF assms Some]
      by (fastforce simp: counts_ok_def sql_dec_def)
  qed
  show "sql_count (sql_dec k m) = (sql_count m)(k := saturating_dec (sql_count m k))"
    using counts_row [OF assms, of k]
    by (auto simp: sql_count_def sql_dec_def saturating_dec_def max_def fun_eq_iff split: option.splits)
  show "fst ` set (sql_dec k m) \<subseteq> fst ` set m"
    using hget_mem [of m k] by (force simp: sql_dec_def dest: set_hput [THEN subsetD] split: option.splits)
qed


section \<open>The node\<close>

record sql_world =
  sw_db :: sql_db
  sw_tombstones :: mem_tombstones
  sw_replicas :: mem_replicas
  sw_blobs :: mem_blobs

abbreviation on_db where "on_db \<equiv> liftM sw_db (\<lambda>x w. w\<lparr>sw_db := x\<rparr>)"
abbreviation on_sw_tombstones where "on_sw_tombstones \<equiv> liftM sw_tombstones (\<lambda>x w. w\<lparr>sw_tombstones := x\<rparr>)"
abbreviation on_sw_replicas where "on_sw_replicas \<equiv> liftM sw_replicas (\<lambda>x w. w\<lparr>sw_replicas := x\<rparr>)"
abbreviation on_sw_blobs where "on_sw_blobs \<equiv> liftM sw_blobs (\<lambda>x w. w\<lparr>sw_blobs := x\<rparr>)"

definition sql_node :: "sql_env \<Rightarrow> sql_world node" where
  "sql_node E =
     \<lparr>nd_index = \<lparr>rc_inc_origin = (\<lambda>og r. on_db (sql_inc_origin og r)),
          rc_dec_origin = (\<lambda>og r. on_db (sql_dec_origin og r)),
          rc_get_origin = (\<lambda>og. on_db (sql_get_origin_refs og)),
          rc_inc_blob = (\<lambda>b r. on_db (sql_inc_blob b r)),
          rc_dec_blob = (\<lambda>b r. on_db (sql_dec_blob b r)),
          rc_get_blob = (\<lambda>b. on_db (sql_get_blob_refs b))\<rparr>,
      nd_scan = \<lparr>si_list_origins = on_db (sql_list_origins E), si_list_blobs = on_db sql_list_blobs\<rparr>,
      nd_lineage = \<lparr>ls_add_edge = (\<lambda>e. on_db (sql_add_edge E e)),
          ls_list_edges = (\<lambda>og. on_db (sql_list_edges E og))\<rparr>,
      nd_provenance = \<lparr>pv_put_payload = (\<lambda>og f. on_db (sql_put_payload_fp og f)),
          pv_put_chunks = (\<lambda>og fs. on_db (sql_put_chunk_fps og fs)),
          pv_find_payload = (\<lambda>f. on_db (sql_find_payload_fp E f)),
          pv_find_chunks = (\<lambda>fs. on_db (sql_find_chunk_fps E fs))\<rparr>,
      nd_origins = \<lparr>og_create = (\<lambda>r. on_db (sql_create_origin E r)),
          og_get = (\<lambda>og. on_db (sql_get_origin E og)),
          og_update = (\<lambda>r. on_db (sql_update_origin E r)),
          og_delete = (\<lambda>og. on_db (sql_delete_origin og))\<rparr>,
      nd_policies = \<lparr>po_get = (\<lambda>og. on_db (sql_get_policy E og)),
          po_put = (\<lambda>p. on_db (sql_put_policy E p))\<rparr>,
      nd_pins = \<lparr>pn_create = (\<lambda>p. on_db (sql_create_pin E p)), pn_get = (\<lambda>i. on_db (sql_get_pin E i)),
          pn_list = (\<lambda>og. on_db (sql_list_pins E og)), pn_update = (\<lambda>p. on_db (sql_update_pin E p)),
          pn_release = (\<lambda>i. on_db (sql_release_pin E i))\<rparr>,
      nd_derivations = \<lparr>dv_put = (\<lambda>d. on_db (sql_put_derivation E d)),
          dv_get = (\<lambda>og d. on_db (sql_get_derivation E og d)),
          dv_list = (\<lambda>og. on_db (sql_list_derivations E og))\<rparr>,
      nd_shares = \<lparr>sh_put = (\<lambda>s. on_db (sql_put_share E s)), sh_get = (\<lambda>i. on_db (sql_get_share E i)),
          sh_list = (\<lambda>og. on_db (sql_list_shares E og))\<rparr>,
      nd_tombstones = \<lparr>ts_put = (\<lambda>t. on_sw_tombstones (mem_put_tombstone t)),
          ts_get = (\<lambda>i. on_sw_tombstones (mem_get_tombstone i)),
          ts_list = (\<lambda>og. on_sw_tombstones (mem_list_tombstones og))\<rparr>,
      nd_replicas = \<lparr>rs_upsert = (\<lambda>r. on_sw_replicas (mem_upsert_replica r)),
          rs_list = (\<lambda>b. on_sw_replicas (mem_list_replicas b)),
          rs_healthy = (\<lambda>b. on_sw_replicas (mem_healthy_count b)),
          rs_healthy_stale = (\<lambda>b st now. on_sw_replicas (mem_healthy_count_with_stale b st now))\<rparr>,
      nd_store = \<lparr>bs_has = (\<lambda>b. on_sw_blobs (mem_blob_has b)), bs_put = (\<lambda>b d. on_sw_blobs (mem_blob_put b d)),
          bs_get = (\<lambda>b. on_sw_blobs (mem_blob_get b)), bs_delete = (\<lambda>b. on_sw_blobs (mem_blob_delete b))\<rparr>\<rparr>"

definition sql_view :: "sql_env \<Rightarrow> sql_world \<Rightarrow> facts" where
  "sql_view E w =
     \<lparr>f_origin_refs = (\<lambda>org. sql_count (sq_origin_refs (sw_db w)) (uuid_show org)),
      f_blob_refs = sql_count (sq_blob_refs (sw_db w)),
      f_edges = mset (row_all (jc_edge E) snd (sq_edges (sw_db w))),
      f_payload_fps = (\<lambda>f. {org. (f, uuid_show org) \<in> set (sq_payload_fps (sw_db w))}),
      f_chunk_fps = (\<lambda>f. {org. (f, uuid_show org) \<in> set (sq_chunk_fps (sw_db w))}),
      f_origins = (\<lambda>org. row_get (jc_origin E) (\<lambda>b. b) (sq_origins (sw_db w)) (uuid_show org)),
      f_policies = (\<lambda>org. row_get (jc_policy E) (\<lambda>b. b) (sq_policies (sw_db w)) (uuid_show org)),
      f_pins = row_get (jc_pin E) snd (sq_pins (sw_db w)),
      f_derivations = (\<lambda>og d. row_get (jc_derivation E) (\<lambda>b. b) (sq_derivations (sw_db w)) (uuid_show og, d)),
      f_shares = row_get (jc_share E) snd (sq_shares (sw_db w)),
      f_tombstones = mset (sw_tombstones w),
      f_replicas = (\<lambda>b n. hget (sw_replicas w) (b, n)),
      f_blobs = hget (sw_blobs w)\<rparr>"

definition sql_inv :: "sql_env \<Rightarrow> sql_world \<Rightarrow> bool" where
  "sql_inv E w \<longleftrightarrow> sql_env_ok E \<and> tables_ok E (sw_db w) \<and> replicas_keyed (sw_replicas w)"

definition sql_world_new :: sql_world where
  "sql_world_new = \<lparr>sw_db = open_memory, sw_tombstones = [], sw_replicas = [], sw_blobs = []\<rparr>"

text \<open>The queries, and the effect of the statements, in terms of the view.\<close>

lemmas sql_eval = sql_node_def sql_view_def liftM_def

lemma env_codecs:
  "sql_env_ok E \<Longrightarrow> codec_ok (jc_origin E)" "sql_env_ok E \<Longrightarrow> codec_ok (jc_policy E)" "sql_env_ok E \<Longrightarrow> codec_ok (jc_pin E)"
  "sql_env_ok E \<Longrightarrow> codec_ok (jc_edge E)" "sql_env_ok E \<Longrightarrow> codec_ok (jc_derivation E)" "sql_env_ok E \<Longrightarrow> codec_ok (jc_share E)"
  by (simp_all add: sql_env_ok_def)


lemma sql_create_origin_law:
  assumes inv: "sql_inv E s" and fresh: "f_origins (sql_view E s) (or_origin_id rec) = None"
  shows "\<exists>t. og_create (nd_origins (sql_node E)) rec s = (Ok (), t) \<and> sql_inv E t
    \<and> sql_view E t = (sql_view E s)\<lparr>f_origins := (f_origins (sql_view E s))(or_origin_id rec \<mapsto> rec)\<rparr>"
proof -
  let ?key = "\<lambda>r. uuid_show (or_origin_id r)" and ?m = "sq_origins (sw_db s)"
  have env: "sql_env_ok E" and rows: "tables_ok E (sw_db s)" using inv by (simp_all add: sql_inv_def)
  have m: "rows_ok (jc_origin E) plain_col ?key ?m" using rows by (simp add: tables_ok_def)
  have new: "row_get (jc_origin E) (\<lambda>b. b) ?m (?key rec) = None" using fresh by (simp add: sql_view_def)
  obtain b where b: "to_vec (jc_origin E) rec = Ok b" "hget ?m (?key rec) = None"
    "rows_ok (jc_origin E) plain_col ?key (?m @ [(?key rec, b)])"
    "row_get (jc_origin E) (\<lambda>b. b) (?m @ [(?key rec, b)]) = (row_get (jc_origin E) (\<lambda>b. b) ?m)(?key rec \<mapsto> rec)"
    by (rule table_insert [where key = ?key, OF m env_codecs(1) [OF env] refl new])
  show ?thesis
    using inv rows b
    by (simp add: sql_eval sql_create_origin_def sql_call_def sql_insert_def act_simps sql_inv_def tables_ok_def
        fun_eq_iff env_show_inj [OF env])
qed


lemma sql_update_origin_law:
  assumes inv: "sql_inv E s"
  shows "\<exists>t. og_update (nd_origins (sql_node E)) rec s = (Ok (), t) \<and> sql_inv E t
    \<and> sql_view E t = (sql_view E s)\<lparr>f_origins := (f_origins (sql_view E s))(or_origin_id rec \<mapsto> rec)\<rparr>"
proof -
  let ?key = "\<lambda>r. uuid_show (or_origin_id r)" and ?m = "sq_origins (sw_db s)"
  have env: "sql_env_ok E" and rows: "tables_ok E (sw_db s)" using inv by (simp_all add: sql_inv_def)
  have m: "rows_ok (jc_origin E) plain_col ?key ?m" using rows by (simp add: tables_ok_def)
  obtain b where b: "to_vec (jc_origin E) rec = Ok b"
    "rows_ok (jc_origin E) plain_col ?key (hdel (?key rec) ?m @ [(?key rec, b)])"
    "row_get (jc_origin E) (\<lambda>b. b) (hdel (?key rec) ?m @ [(?key rec, b)])
       = (row_get (jc_origin E) (\<lambda>b. b) ?m)(?key rec \<mapsto> rec)"
    by (rule table_replace [where key = ?key, OF m env_codecs(1) [OF env] refl])
  show ?thesis
    using inv rows b
    by (simp add: sql_eval sql_update_origin_def sql_call_def sql_replace_def act_simps sql_inv_def tables_ok_def
        fun_eq_iff env_show_inj [OF env])
qed

lemma sql_put_policy_law:
  assumes inv: "sql_inv E s"
  shows "\<exists>t. po_put (nd_policies (sql_node E)) p s = (Ok (), t) \<and> sql_inv E t
    \<and> sql_view E t = (sql_view E s)\<lparr>f_policies := (f_policies (sql_view E s))(op_origin_id p \<mapsto> p)\<rparr>"
proof -
  let ?key = "\<lambda>p. uuid_show (op_origin_id p)" and ?m = "sq_policies (sw_db s)"
  have env: "sql_env_ok E" and rows: "tables_ok E (sw_db s)" using inv by (simp_all add: sql_inv_def)
  have m: "rows_ok (jc_policy E) plain_col ?key ?m" using rows by (simp add: tables_ok_def)
  obtain b where b: "to_vec (jc_policy E) p = Ok b"
    "rows_ok (jc_policy E) plain_col ?key (hdel (?key p) ?m @ [(?key p, b)])"
    "row_get (jc_policy E) (\<lambda>b. b) (hdel (?key p) ?m @ [(?key p, b)]) = (row_get (jc_policy E) (\<lambda>b. b) ?m)(?key p \<mapsto> p)"
    by (rule table_replace [where key = ?key, OF m env_codecs(2) [OF env] refl])
  show ?thesis
    using inv rows b
    by (simp add: sql_eval sql_put_policy_def sql_call_def sql_replace_def act_simps sql_inv_def tables_ok_def
        fun_eq_iff env_show_inj [OF env])
qed

lemma sql_create_pin_law:
  assumes inv: "sql_inv E s" and fresh: "f_pins (sql_view E s) (pr_pin_id p) = None"
  shows "\<exists>t. pn_create (nd_pins (sql_node E)) p s = (Ok (), t) \<and> sql_inv E t
    \<and> sql_view E t = (sql_view E s)\<lparr>f_pins := (f_pins (sql_view E s))(pr_pin_id p \<mapsto> p)\<rparr>"
proof -
  let ?mk = "with_col (\<lambda>p. target_origin (pr_target p))" and ?m = "sq_pins (sw_db s)"
  have env: "sql_env_ok E" and rows: "tables_ok E (sw_db s)" using inv by (simp_all add: sql_inv_def)
  have m: "rows_ok (jc_pin E) ?mk pr_pin_id ?m" using rows by (simp add: tables_ok_def)
  have new: "row_get (jc_pin E) snd ?m (pr_pin_id p) = None" using fresh by (simp add: sql_view_def)
  obtain b where b: "to_vec (jc_pin E) p = Ok b" "hget ?m (pr_pin_id p) = None"
    "rows_ok (jc_pin E) ?mk pr_pin_id (?m @ [(pr_pin_id p, ?mk p b)])"
    "row_get (jc_pin E) snd (?m @ [(pr_pin_id p, ?mk p b)]) = (row_get (jc_pin E) snd ?m)(pr_pin_id p \<mapsto> p)"
    by (rule table_insert [where dt = snd, OF m env_codecs(3) [OF env] snd_conv new])
  show ?thesis
    using inv rows b
    by (simp add: sql_eval sql_create_pin_def sql_call_def sql_insert_def act_simps sql_inv_def tables_ok_def)
qed

lemma sql_add_edge_law:
  assumes inv: "sql_inv E s" and fresh: "le_edge_id e \<notin> le_edge_id ` set_mset (f_edges (sql_view E s))"
  shows "\<exists>t. ls_add_edge (nd_lineage (sql_node E)) e s = (Ok (), t) \<and> sql_inv E t
    \<and> sql_view E t = (sql_view E s)\<lparr>f_edges := add_mset e (f_edges (sql_view E s))\<rparr>"
proof -
  let ?mk = "with_col le_origin_id" and ?m = "sq_edges (sw_db s)"
  have env: "sql_env_ok E" and rows: "tables_ok E (sw_db s)" using inv by (simp_all add: sql_inv_def)
  have m: "rows_ok (jc_edge E) ?mk le_edge_id ?m" using rows by (simp add: tables_ok_def)
  have new: "row_get (jc_edge E) snd ?m (le_edge_id e) = None"
  proof (rule ccontr)
    assume "row_get (jc_edge E) snd ?m (le_edge_id e) \<noteq> None"
    then obtain x where x: "row_get (jc_edge E) snd ?m (le_edge_id e) = Some x" by blast
    then obtain b where b: "hget ?m (le_edge_id e) = Some (?mk x b)" "le_edge_id e = le_edge_id x"
      by (rule row_getD [OF m env_codecs(4) [OF env] snd_conv])
    then have "x \<in> set (row_all (jc_edge E) snd ?m)"
      using x hget_mem [OF b(1)] by (force simp: row_all_def row_get_def)
    then show False using fresh b(2) by (auto simp: sql_view_def)
  qed
  obtain b where b: "to_vec (jc_edge E) e = Ok b" "hget ?m (le_edge_id e) = None"
    "rows_ok (jc_edge E) ?mk le_edge_id (?m @ [(le_edge_id e, ?mk e b)])"
    by (rule table_insert [where dt = snd, OF m env_codecs(4) [OF env] snd_conv new])
  have "row_all (jc_edge E) snd (?m @ [(le_edge_id e, ?mk e b)]) = row_all (jc_edge E) snd ?m @ [e]"
    by (rule row_all_insert [where mk = ?mk, OF env_codecs(4) [OF env] b(1) snd_conv])
  then show ?thesis
    using inv rows b
    by (simp add: sql_eval sql_add_edge_def sql_call_def sql_insert_def act_simps sql_inv_def tables_ok_def)
qed

lemma sql_put_derivation_law:
  assumes inv: "sql_inv E s"
  shows "\<exists>t. dv_put (nd_derivations (sql_node E)) d s = (Ok (), t) \<and> sql_inv E t
    \<and> sql_view E t = (sql_view E s)\<lparr>f_derivations := (f_derivations (sql_view E s))(dm_origin_id d :=
        (f_derivations (sql_view E s) (dm_origin_id d))(dm_derivation_id d \<mapsto> d))\<rparr>"
proof -
  let ?key = "\<lambda>m. (uuid_show (dm_origin_id m), dm_derivation_id m)" and ?m = "sq_derivations (sw_db s)"
  have env: "sql_env_ok E" and rows: "tables_ok E (sw_db s)" using inv by (simp_all add: sql_inv_def)
  have m: "rows_ok (jc_derivation E) plain_col ?key ?m" using rows by (simp add: tables_ok_def)
  obtain b where b: "to_vec (jc_derivation E) d = Ok b"
    "rows_ok (jc_derivation E) plain_col ?key (hdel (?key d) ?m @ [(?key d, b)])"
    "row_get (jc_derivation E) (\<lambda>b. b) (hdel (?key d) ?m @ [(?key d, b)])
       = (row_get (jc_derivation E) (\<lambda>b. b) ?m)(?key d \<mapsto> d)"
    by (rule table_replace [where key = ?key, OF m env_codecs(5) [OF env] refl])
  show ?thesis
    using inv rows b
    by (simp add: sql_eval sql_put_derivation_def sql_call_def sql_replace_def act_simps sql_inv_def tables_ok_def
        fun_eq_iff env_show_inj [OF env])
qed

lemma sql_put_share_law:
  assumes inv: "sql_inv E s"
  shows "\<exists>t. sh_put (nd_shares (sql_node E)) sh s = (Ok (), t) \<and> sql_inv E t
    \<and> sql_view E t = (sql_view E s)\<lparr>f_shares := (f_shares (sql_view E s))(sr_share_id sh \<mapsto> sh)\<rparr>"
proof -
  let ?mk = "with_col sr_origin_id" and ?m = "sq_shares (sw_db s)"
  have env: "sql_env_ok E" and rows: "tables_ok E (sw_db s)" using inv by (simp_all add: sql_inv_def)
  have m: "rows_ok (jc_share E) ?mk sr_share_id ?m" using rows by (simp add: tables_ok_def)
  obtain b where b: "to_vec (jc_share E) sh = Ok b"
    "rows_ok (jc_share E) ?mk sr_share_id (hdel (sr_share_id sh) ?m @ [(sr_share_id sh, ?mk sh b)])"
    "row_get (jc_share E) snd (hdel (sr_share_id sh) ?m @ [(sr_share_id sh, ?mk sh b)])
       = (row_get (jc_share E) snd ?m)(sr_share_id sh \<mapsto> sh)"
    by (rule table_replace [where dt = snd, OF m env_codecs(6) [OF env] snd_conv])
  show ?thesis
    using inv rows b
    by (simp add: sql_eval sql_put_share_def sql_call_def sql_replace_def act_simps sql_inv_def tables_ok_def)
qed


lemma sql_get_laws:
  assumes inv: "sql_inv E s"
  shows "og_get (nd_origins (sql_node E)) org s = (of_option NotFound (f_origins (sql_view E s) org), s)"
    and "po_get (nd_policies (sql_node E)) org s = (of_option NotFound (f_policies (sql_view E s) org), s)"
    and "pn_get (nd_pins (sql_node E)) pid s = (of_option NotFound (f_pins (sql_view E s) pid), s)"
    and "sh_get (nd_shares (sql_node E)) sid s = (of_option NotFound (f_shares (sql_view E s) sid), s)"
proof -
  have env: "sql_env_ok E" and rows: "tables_ok E (sw_db s)" using inv by (simp_all add: sql_inv_def)
  let ?d = "sw_db s"
  have m: "rows_ok (jc_origin E) plain_col (\<lambda>r. uuid_show (or_origin_id r)) (sq_origins ?d)"
    "rows_ok (jc_policy E) plain_col (\<lambda>p. uuid_show (op_origin_id p)) (sq_policies ?d)"
    "rows_ok (jc_pin E) (with_col (\<lambda>p. target_origin (pr_target p))) pr_pin_id (sq_pins ?d)"
    "rows_ok (jc_share E) (with_col sr_origin_id) sr_share_id (sq_shares ?d)"
    using rows by (simp_all add: tables_ok_def)
  show "og_get (nd_origins (sql_node E)) org s = (of_option NotFound (f_origins (sql_view E s) org), s)"
    using row_query [where g = sq_origins and u = "\<lambda>x d. d\<lparr>sq_origins := x\<rparr>" and dt = "\<lambda>b. b", OF m(1) env_codecs(1) [OF env] refl]
    by (simp add: sql_node_def sql_view_def sql_get_origin_def liftM_apply)
  show "po_get (nd_policies (sql_node E)) org s = (of_option NotFound (f_policies (sql_view E s) org), s)"
    using row_query [where g = sq_policies and u = "\<lambda>x d. d\<lparr>sq_policies := x\<rparr>" and dt = "\<lambda>b. b", OF m(2) env_codecs(2) [OF env] refl]
    by (simp add: sql_node_def sql_view_def sql_get_policy_def liftM_apply)
  show "pn_get (nd_pins (sql_node E)) pid s = (of_option NotFound (f_pins (sql_view E s) pid), s)"
    using row_query [where g = sq_pins and u = "\<lambda>x d. d\<lparr>sq_pins := x\<rparr>" and dt = snd, OF m(3) env_codecs(3) [OF env] snd_conv]
    by (simp add: sql_node_def sql_view_def sql_get_pin_def liftM_apply split_def)
  show "sh_get (nd_shares (sql_node E)) sid s = (of_option NotFound (f_shares (sql_view E s) sid), s)"
    using row_query [where g = sq_shares and u = "\<lambda>x d. d\<lparr>sq_shares := x\<rparr>" and dt = snd, OF m(4) env_codecs(6) [OF env] snd_conv]
    by (simp add: sql_node_def sql_view_def sql_get_share_def liftM_apply split_def)
qed

lemma sql_origin_key:
  assumes inv: "sql_inv E s" and "f_origins (sql_view E s) org = Some rec"
  shows "or_origin_id rec = org"
proof -
  have env: "sql_env_ok E" and rows: "tables_ok E (sw_db s)" using inv by (simp_all add: sql_inv_def)
  have m: "rows_ok (jc_origin E) plain_col (\<lambda>r. uuid_show (or_origin_id r)) (sq_origins (sw_db s))"
    using rows by (simp add: tables_ok_def)
  have "row_get (jc_origin E) (\<lambda>b. b) (sq_origins (sw_db s)) (uuid_show org) = Some rec"
    using assms(2) by (simp add: sql_view_def)
  then have "uuid_show org = uuid_show (or_origin_id rec)"
    by (rule row_getD [OF m env_codecs(1) [OF env] refl])
  then show ?thesis by (simp add: env_show_inj [OF env])
qed

lemma row_all_mem:
  assumes "rows_ok J mk key m" and "codec_ok J" and "\<And>x b. dt (mk x b) = b"
  shows "x \<in> set (row_all J dt (filter P m)) \<longleftrightarrow> (\<exists>b. to_vec J x = Ok b \<and> hget m (key x) = Some (mk x b) \<and> P (key x, mk x b))"
proof
  assume "x \<in> set (row_all J dt (filter P m))"
  then obtain k v where kv: "(k, v) \<in> set m" "P (k, v)" "x = the (try_parse J (dt v))" by (auto simp: row_all_def)
  obtain y b where "to_vec J y = Ok b" "v = mk y b" "k = key y" "try_parse J (dt v) = Some y"
    by (rule rows_okD [OF assms kv(1)])
  then show "\<exists>b. to_vec J x = Ok b \<and> hget m (key x) = Some (mk x b) \<and> P (key x, mk x b)"
    using kv mem_hget [of m k v] assms(1) by (auto simp: rows_ok_def)
next
  assume "\<exists>b. to_vec J x = Ok b \<and> hget m (key x) = Some (mk x b) \<and> P (key x, mk x b)"
  then obtain b where b: "to_vec J x = Ok b" "hget m (key x) = Some (mk x b)" "P (key x, mk x b)" by blast
  then have "the (try_parse J (dt (mk x b))) = x" using codec_ok_parse [OF assms(2) b(1)] assms(3) by simp
  then show "x \<in> set (row_all J dt (filter P m))"
    using hget_mem [OF b(2)] b(3) by (force simp: row_all_def)
qed

lemma row_get_iff:
  assumes "rows_ok J mk key m" and "codec_ok J" and "\<And>x b. dt (mk x b) = b"
  shows "(\<exists>k. row_get J dt m k = Some x) \<longleftrightarrow> (\<exists>b. to_vec J x = Ok b \<and> hget m (key x) = Some (mk x b))"
proof
  assume "\<exists>k. row_get J dt m k = Some x"
  then show "\<exists>b. to_vec J x = Ok b \<and> hget m (key x) = Some (mk x b)"
    by (auto elim!: row_getD [OF assms])
next
  assume "\<exists>b. to_vec J x = Ok b \<and> hget m (key x) = Some (mk x b)"
  then obtain b where "to_vec J x = Ok b" "hget m (key x) = Some (mk x b)" by blast
  then have "row_get J dt m (key x) = Some x" using codec_ok_parse [OF assms(2)] assms(3) by (simp add: row_get_def)
  then show "\<exists>k. row_get J dt m k = Some x" ..
qed

lemma sql_list_pins_law:
  assumes inv: "sql_inv E s"
  shows "\<exists>l. pn_list (nd_pins (sql_node E)) org s = (Ok l, s) \<and> {p \<in> set l. pr_target p = PinOrigin org}
    = {p. (\<exists>pid. f_pins (sql_view E s) pid = Some p) \<and> pr_target p = PinOrigin org}"
proof -
  let ?m = "sq_pins (sw_db s)" and ?P = "\<lambda>(pid :: string, oid, json :: bytes). oid = uuid_show org"
  have env: "sql_env_ok E" and rows: "tables_ok E (sw_db s)" using inv by (simp_all add: sql_inv_def)
  have m: "rows_ok (jc_pin E) (with_col (\<lambda>p. target_origin (pr_target p))) pr_pin_id ?m"
    using rows by (simp add: tables_ok_def)
  have "mapR (\<lambda>(pid, v). of_json (jc_pin E) (snd v)) (filter ?P ?m) = Ok (row_all (jc_pin E) snd (filter ?P ?m))"
    by (rule row_select [OF m env_codecs(3) [OF env] snd_conv]) auto
  moreover have "(\<lambda>(pid :: string, oid :: string, json). of_json (jc_pin E) json) = (\<lambda>(pid, v). of_json (jc_pin E) (snd v))"
    by (simp add: split_def)
  ultimately show ?thesis
    using row_all_mem [OF m env_codecs(3) [OF env] snd_conv, of _ ?P] row_get_iff [OF m env_codecs(3) [OF env] snd_conv]
    by (auto simp: sql_eval sql_list_pins_def)
qed

lemma sql_list_edges_law:
  assumes inv: "sql_inv E s"
  shows "\<exists>es. ls_list_edges (nd_lineage (sql_node E)) org s = (Ok es, s)
    \<and> mset es = filter_mset (\<lambda>e. le_origin_id e = org) (f_edges (sql_view E s))"
proof -
  let ?m = "sq_edges (sw_db s)" and ?P = "\<lambda>(eid :: string, oid, json :: bytes). oid = uuid_show org"
  have env: "sql_env_ok E" and rows: "tables_ok E (sw_db s)" using inv by (simp_all add: sql_inv_def)
  have m: "rows_ok (jc_edge E) (with_col le_origin_id) le_edge_id ?m" using rows by (simp add: tables_ok_def)
  have "mapR (\<lambda>(eid, v). of_json (jc_edge E) (snd v)) (filter ?P ?m) = Ok (row_all (jc_edge E) snd (filter ?P ?m))"
    by (rule row_select [OF m env_codecs(4) [OF env] snd_conv]) auto
  moreover have "(\<lambda>(eid :: string, oid :: string, json). of_json (jc_edge E) json) = (\<lambda>(eid, v). of_json (jc_edge E) (snd v))"
    by (simp add: split_def)
  moreover have "row_all (jc_edge E) snd (filter ?P ?m) = filter (\<lambda>e. le_origin_id e = org) (row_all (jc_edge E) snd ?m)"
  proof -
    have "?P kv \<longleftrightarrow> le_origin_id (the (try_parse (jc_edge E) (snd (snd kv)))) = org" if "kv \<in> set ?m" for kv
    proof -
      obtain k v where kv: "kv = (k, v)" by (rule prod.exhaust)
      have "(k, v) \<in> set ?m" using that kv by simp
      then show ?thesis
        by (rule rows_okD [OF m env_codecs(4) [OF env] snd_conv]) (auto simp: kv env_show_inj [OF env])
    qed
    then have "filter ?P ?m = filter ((\<lambda>e. le_origin_id e = org) \<circ> (\<lambda>(k, v). the (try_parse (jc_edge E) (snd v)))) ?m"
      by (intro filter_cong) (auto simp: split_def)
    then show ?thesis by (simp add: row_all_def filter_map)
  qed
  ultimately show ?thesis by (simp add: sql_eval sql_list_edges_def)
qed


lemma sql_release_pin_law:
  assumes inv: "sql_inv E s" and "f_pins (sql_view E s) pid = Some p"
  shows "\<exists>t. pn_release (nd_pins (sql_node E)) pid s = (Ok (), t) \<and> sql_inv E t
    \<and> sql_view E t = (sql_view E s)\<lparr>f_pins := (f_pins (sql_view E s))(pid \<mapsto> p\<lparr>pr_state := Released\<rparr>)\<rparr>"
proof -
  let ?mk = "with_col (\<lambda>p. target_origin (pr_target p))" and ?m = "sq_pins (sw_db s)" and ?q = "p\<lparr>pr_state := Released\<rparr>"
  have env: "sql_env_ok E" and rows: "tables_ok E (sw_db s)" using inv by (simp_all add: sql_inv_def)
  have m: "rows_ok (jc_pin E) ?mk pr_pin_id ?m" using rows by (simp add: tables_ok_def)
  have got: "row_get (jc_pin E) snd ?m pid = Some p" using assms(2) by (simp add: sql_view_def)
  then obtain b where old: "hget ?m pid = Some (?mk p b)" "pid = pr_pin_id p"
    by (rule row_getD [OF m env_codecs(3) [OF env] snd_conv])
  have "pn_get (nd_pins (sql_node E)) pid s = (Ok p, s)"
    using sql_get_laws(3) [OF inv, of pid] assms(2) by simp
  then have get: "sql_get_pin E pid (sw_db s) = (Ok p, sw_db s)"
    using got row_query [where g = sq_pins and u = "\<lambda>x d. d\<lparr>sq_pins := x\<rparr>" and dt = snd, OF m env_codecs(3) [OF env] snd_conv]
    by (simp add: sql_get_pin_def split_def)
  obtain c where c: "to_vec (jc_pin E) ?q = Ok c" using env_codecs(3) [OF env] by (rule codec_okE)
  have "rows_ok (jc_pin E) ?mk pr_pin_id (hput (pr_pin_id ?q) (?mk ?q c) ?m)"
    by (rule rows_update [where key = pr_pin_id, OF m c])
  moreover have "row_get (jc_pin E) snd (hput (pr_pin_id ?q) (?mk ?q c) ?m) = (row_get (jc_pin E) snd ?m)(pr_pin_id ?q \<mapsto> ?q)"
    by (rule row_get_update [where key = pr_pin_id and mk = ?mk, OF env_codecs(3) [OF env] c snd_conv])
  ultimately show ?thesis
    using inv rows old c
    by (simp add: sql_eval sql_release_pin_def sql_update_pin_def get [unfolded old(2)] act_simps sql_inv_def tables_ok_def)
qed

lemma sql_count_laws:
  assumes inv: "sql_inv E s"
  shows "f_origin_refs (sql_view E s) org < I64_MAX \<Longrightarrow>
      \<exists>t. rc_inc_origin (nd_index (sql_node E)) org r s = (Ok (), t) \<and> sql_inv E t
        \<and> sql_view E t = org_refs org (f_origin_refs (sql_view E s) org + 1) (sql_view E s)"
    and "\<exists>t. rc_dec_origin (nd_index (sql_node E)) org r s = (Ok (), t) \<and> sql_inv E t
        \<and> sql_view E t = org_refs org (saturating_dec (f_origin_refs (sql_view E s) org)) (sql_view E s)"
    and "f_blob_refs (sql_view E s) b < I64_MAX \<Longrightarrow>
      \<exists>t. rc_inc_blob (nd_index (sql_node E)) b r s = (Ok (), t) \<and> sql_inv E t
        \<and> sql_view E t = blob_refs b (f_blob_refs (sql_view E s) b + 1) (sql_view E s)"
    and "\<exists>t. rc_dec_blob (nd_index (sql_node E)) b r s = (Ok (), t) \<and> sql_inv E t
        \<and> sql_view E t = blob_refs b (saturating_dec (f_blob_refs (sql_view E s) b)) (sql_view E s)"
    and "0 \<le> f_origin_refs (sql_view E s) org \<and> 0 \<le> f_blob_refs (sql_view E s) b"
proof -
  have env: "sql_env_ok E" and rows: "tables_ok E (sw_db s)" using inv by (simp_all add: sql_inv_def)
  then have o: "counts_ok (sq_origin_refs (sw_db s))" "fst ` set (sq_origin_refs (sw_db s)) \<subseteq> shown"
    and bl: "counts_ok (sq_blob_refs (sw_db s))"
    by (simp_all add: tables_ok_def)
  note inj = env_show_inj [OF env]
  have sh: "uuid_show org \<in> shown" by (simp add: shown_def)
  show "0 \<le> f_origin_refs (sql_view E s) org \<and> 0 \<le> f_blob_refs (sql_view E s) b"
    using counts_bound [OF o(1)] counts_bound [OF bl] by (simp add: sql_view_def)
  show "\<exists>t. rc_inc_origin (nd_index (sql_node E)) org r s = (Ok (), t) \<and> sql_inv E t
      \<and> sql_view E t = org_refs org (f_origin_refs (sql_view E s) org + 1) (sql_view E s)"
    if "f_origin_refs (sql_view E s) org < I64_MAX"
    using that inv rows o sh sql_inc_ok [OF o(1), of "uuid_show org"]
    by (simp add: sql_eval sql_inc_origin_def sql_inv_def tables_ok_def org_refs_def fun_eq_iff inj)
  show "\<exists>t. rc_dec_origin (nd_index (sql_node E)) org r s = (Ok (), t) \<and> sql_inv E t
      \<and> sql_view E t = org_refs org (saturating_dec (f_origin_refs (sql_view E s) org)) (sql_view E s)"
    using inv rows o sql_dec_ok [OF o(1), of "uuid_show org"]
    by (simp add: sql_eval sql_dec_origin_def sql_inv_def tables_ok_def org_refs_def fun_eq_iff inj subset_trans)
  show "\<exists>t. rc_inc_blob (nd_index (sql_node E)) b r s = (Ok (), t) \<and> sql_inv E t
      \<and> sql_view E t = blob_refs b (f_blob_refs (sql_view E s) b + 1) (sql_view E s)"
    if "f_blob_refs (sql_view E s) b < I64_MAX"
    using that inv rows sql_inc_ok [OF bl, of b]
    by (simp add: sql_eval sql_inc_blob_def sql_inv_def tables_ok_def blob_refs_def)
  show "\<exists>t. rc_dec_blob (nd_index (sql_node E)) b r s = (Ok (), t) \<and> sql_inv E t
      \<and> sql_view E t = blob_refs b (saturating_dec (f_blob_refs (sql_view E s) b)) (sql_view E s)"
    using inv rows sql_dec_ok [OF bl, of b]
    by (simp add: sql_eval sql_dec_blob_def sql_inv_def tables_ok_def blob_refs_def)
qed

text \<open>The fingerprint tables.\<close>

lemma first_occurrences_set: "set (first_occurrences seen xs) = set xs - set seen"
  by (induction xs arbitrary: seen) auto

lemma sql_put_fps_law:
  assumes inv: "sql_inv E s"
  shows "\<exists>t. pv_put_payload (nd_provenance (sql_node E)) org fp s = (Ok (), t) \<and> sql_inv E t
        \<and> sql_view E t = (sql_view E s)\<lparr>f_payload_fps :=
              (f_payload_fps (sql_view E s))(fp := insert org (f_payload_fps (sql_view E s) fp))\<rparr>"
    and "\<exists>t. pv_put_chunks (nd_provenance (sql_node E)) org fps s = (Ok (), t) \<and> sql_inv E t
        \<and> sql_view E t = (sql_view E s)\<lparr>f_chunk_fps := (\<lambda>fp. if fp \<in> set fps
            then insert org (f_chunk_fps (sql_view E s) fp) else f_chunk_fps (sql_view E s) fp)\<rparr>"
proof -
  have env: "sql_env_ok E" and rows: "tables_ok E (sw_db s)" using inv by (simp_all add: sql_inv_def)
  have sh: "uuid_show org \<in> shown" by (simp add: shown_def)
  show "\<exists>t. pv_put_payload (nd_provenance (sql_node E)) org fp s = (Ok (), t) \<and> sql_inv E t
      \<and> sql_view E t = (sql_view E s)\<lparr>f_payload_fps :=
            (f_payload_fps (sql_view E s))(fp := insert org (f_payload_fps (sql_view E s) fp))\<rparr>"
    using inv rows sh
    by (auto simp: sql_eval sql_put_payload_fp_def sql_inv_def tables_ok_def fun_eq_iff env_show_inj [OF env])
  define add where "add = (\<lambda>l. fold (\<lambda>fp. push_unique (fp, uuid_show org)) l (sq_chunk_fps (sw_db s)))"
  have set_add: "set (add l) = set (sq_chunk_fps (sw_db s)) \<union> (\<lambda>fp. (fp, uuid_show org)) ` set l" for l
    unfolding add_def by (induction l rule: rev_induct) auto
  have dist: "distinct (sq_chunk_fps (sw_db s)) \<Longrightarrow> distinct (add l)" for l
    unfolding add_def by (induction l rule: rev_induct) auto
  let ?l = "first_occurrences [] fps"
  have l: "set ?l = set fps" by (simp add: first_occurrences_set)
  have "pv_put_chunks (nd_provenance (sql_node E)) org fps s
      = (Ok (), s\<lparr>sw_db := (sw_db s)\<lparr>sq_chunk_fps := add ?l\<rparr>\<rparr>)"
    by (simp add: sql_eval sql_put_chunk_fps_def add_def)
  moreover have "sql_inv E (s\<lparr>sw_db := (sw_db s)\<lparr>sq_chunk_fps := add ?l\<rparr>\<rparr>)"
    using inv rows sh dist [of ?l] by (auto simp: sql_inv_def tables_ok_def set_add)
  moreover have "{org'. (f, uuid_show org') \<in> set (add ?l)} = (if f \<in> set fps
      then insert org {org'. (f, uuid_show org') \<in> set (sq_chunk_fps (sw_db s))}
      else {org'. (f, uuid_show org') \<in> set (sq_chunk_fps (sw_db s))})" for f
    by (auto simp: set_add l env_show_inj [OF env])
  ultimately show "\<exists>t. pv_put_chunks (nd_provenance (sql_node E)) org fps s = (Ok (), t) \<and> sql_inv E t
      \<and> sql_view E t = (sql_view E s)\<lparr>f_chunk_fps := (\<lambda>fp. if fp \<in> set fps
          then insert org (f_chunk_fps (sql_view E s) fp) else f_chunk_fps (sql_view E s) fp)\<rparr>"
    by (simp add: sql_view_def fun_eq_iff)
qed

lemma fp_rows_Ok:
  assumes env: "sql_env_ok E" and "distinct table" and "snd ` set table \<subseteq> shown"
  obtains os where "fp_rows E table fp = Ok os" "distinct os" "set os = {org. (fp, uuid_show org) \<in> set table}"
proof -
  let ?ts = "map snd (filter (\<lambda>(f, s). f = fp) table)"
  have "set ?ts \<subseteq> shown" using assms(3) by auto
  then obtain us where us: "mapR (uuid_of_text E) ?ts = Ok us" "?ts = map uuid_show us"
    by (rule shown_texts [OF env])
  have "distinct ?ts"
    using assms(2) by (auto simp: distinct_map inj_on_def)
  then have "distinct us" by (simp only: us(2) distinct_map)
  moreover have "set us = {org. (fp, uuid_show org) \<in> set table}"
  proof -
    have "org \<in> set us \<longleftrightarrow> uuid_show org \<in> set (map uuid_show us)" for org by (auto simp: env_show_inj [OF env])
    then have "org \<in> set us \<longleftrightarrow> uuid_show org \<in> set ?ts" for org by (simp only: us(2))
    then show ?thesis by force
  qed
  ultimately show thesis using that [of us] us(1) by (simp add: fp_rows_def)
qed


lemma first_occurrences_distinct: "distinct (first_occurrences seen xs)"
  by (induction xs arbitrary: seen) (auto simp: first_occurrences_set)

text \<open>A query for chunk fingerprints ranks the concatenation of the rows of each distinct fingerprint.\<close>

lemma sql_chunk_rows:
  assumes inv: "sql_inv E s"
  obtains out found where "pv_find_chunks (nd_provenance (sql_node E)) fps s = (Ok out, s)"
    "out = rev (sort_key snd (rev (fold (\<lambda>org. hentry org 0 Suc) (concat (map found (first_occurrences [] fps))) [])))"
    "\<forall>f. distinct (found f) \<and> set (found f) = f_chunk_fps (sql_view E s) f"
proof -
  have env: "sql_env_ok E" and rows: "tables_ok E (sw_db s)" using inv by (simp_all add: sql_inv_def)
  have c: "distinct (sq_chunk_fps (sw_db s))" "snd ` set (sq_chunk_fps (sw_db s)) \<subseteq> shown"
    using rows by (simp_all add: tables_ok_def)
  have "\<forall>f. \<exists>os. fp_rows E (sq_chunk_fps (sw_db s)) f = Ok os \<and> distinct os
      \<and> set os = {org. (f, uuid_show org) \<in> set (sq_chunk_fps (sw_db s))}"
    by (metis (no_types, lifting) fp_rows_Ok [OF env c])
  then obtain found where found: "\<And>f. fp_rows E (sq_chunk_fps (sw_db s)) f = Ok (found f) \<and> distinct (found f)
      \<and> set (found f) = {org. (f, uuid_show org) \<in> set (sq_chunk_fps (sw_db s))}"
    by metis
  let ?fs = "first_occurrences [] fps"
  have "mapR (fp_rows E (sq_chunk_fps (sw_db s))) ?fs = Ok (map found ?fs)"
    by (rule mapR_Ok) (simp add: found)
  then have "pv_find_chunks (nd_provenance (sql_node E)) fps s
      = (Ok (rev (sort_key snd (rev (fold (\<lambda>org. hentry org 0 Suc) (concat (map found ?fs)) [])))), s)"
    by (simp add: sql_eval sql_find_chunk_fps_def)
  then show thesis using that [OF _ refl, of found] found by (simp add: sql_view_def)
qed

lemma sql_find_law:
  assumes inv: "sql_inv E s"
  shows "\<exists>os. pv_find_payload (nd_provenance (sql_node E)) fp s = (Ok os, s) \<and> distinct os
        \<and> set os = f_payload_fps (sql_view E s) fp"
    and "\<exists>l. pv_find_chunks (nd_provenance (sql_node E)) fps s = (Ok l, s) \<and> distinct (map fst l)
        \<and> set (map fst l) = (\<Union>fp \<in> set fps. f_chunk_fps (sql_view E s) fp) \<and> (\<forall>x \<in> set l. 0 < snd x)"
proof -
  have env: "sql_env_ok E" and rows: "tables_ok E (sw_db s)" using inv by (simp_all add: sql_inv_def)
  have p: "distinct (sq_payload_fps (sw_db s))" "snd ` set (sq_payload_fps (sw_db s)) \<subseteq> shown"
    using rows by (simp_all add: tables_ok_def)
  show "\<exists>os. pv_find_payload (nd_provenance (sql_node E)) fp s = (Ok os, s) \<and> distinct os
      \<and> set os = f_payload_fps (sql_view E s) fp"
    by (rule fp_rows_Ok [OF env p, of fp]) (simp add: sql_eval sql_find_payload_fp_def)
  obtain out found where out: "pv_find_chunks (nd_provenance (sql_node E)) fps s = (Ok out, s)"
    "out = rev (sort_key snd (rev (fold (\<lambda>org. hentry org 0 Suc) (concat (map found (first_occurrences [] fps))) [])))"
    "\<forall>f. distinct (found f) \<and> set (found f) = f_chunk_fps (sql_view E s) f"
    by (rule sql_chunk_rows [where fps = fps, OF inv])
  have "set (concat (map found (first_occurrences [] fps))) = (\<Union>fp \<in> set fps. f_chunk_fps (sql_view E s) fp)"
    by (simp add: first_occurrences_set out(3))
  then show "\<exists>l. pv_find_chunks (nd_provenance (sql_node E)) fps s = (Ok l, s) \<and> distinct (map fst l)
      \<and> set (map fst l) = (\<Union>fp \<in> set fps. f_chunk_fps (sql_view E s) fp) \<and> (\<forall>x \<in> set l. 0 < snd x)"
    using out(1) ranked_counts(1) [OF out(2)] ranked_keys [OF out(2)] by auto
qed

lemma sql_scan_law:
  assumes inv: "sql_inv E s"
  shows "\<exists>os. si_list_origins (nd_scan (sql_node E)) s = (Ok os, s)"
    and "\<exists>bs. si_list_blobs (nd_scan (sql_node E)) s = (Ok bs, s)"
proof -
  have env: "sql_env_ok E" and rows: "tables_ok E (sw_db s)" using inv by (simp_all add: sql_inv_def)
  let ?m = "filter (\<lambda>(t, n). 0 < n) (sq_origin_refs (sw_db s))"
  have "set (map fst ?m) \<subseteq> shown" using rows by (auto simp: tables_ok_def)
  then obtain us where "mapR (uuid_of_text E) (map fst ?m) = Ok us" by (rule shown_texts [OF env])
  moreover have "mapR (\<lambda>(t, n). uuid_of_text E t) l = mapR (uuid_of_text E) (map fst l)" for l :: "(string \<times> int) list"
    by (induction l) auto
  ultimately show "\<exists>os. si_list_origins (nd_scan (sql_node E)) s = (Ok os, s)"
    by (simp add: sql_eval sql_list_origins_def)
  show "\<exists>bs. si_list_blobs (nd_scan (sql_node E)) s = (Ok bs, s)"
    by (simp add: sql_eval sql_list_blobs_def)
qed

lemmas sql_rules = sql_count_laws sql_get_laws sql_origin_key sql_create_origin_law sql_update_origin_law
  sql_put_policy_law sql_create_pin_law sql_release_pin_law sql_list_pins_law sql_add_edge_law sql_list_edges_law
  sql_put_derivation_law sql_put_share_law sql_put_fps_law sql_find_law sql_scan_law

interpretation sql_laws: node_laws "sql_node E" "sql_view E" "sql_inv E" "\<lambda>_. True" for E
proof (unfold_locales, goal_cases)
  case (29 s b stale now)
  then show ?case
    using healthy_card [of "sw_replicas s" b "\<lambda>r. rr_state r = Healthy \<and> fresh stale now r"]
    by (simp add: sql_eval sql_inv_def mem_healthy_count_with_stale_eq)
next
  case (28 s rr)
  then show ?case
    using upsert_keyed [of "sw_replicas s" rr] by (simp add: sql_eval mem_ops sql_inv_def fun_eq_iff)
qed ((rule sql_rules; assumption) | (auto simp: sql_eval mem_ops sql_inv_def sql_get_origin_refs_def sql_get_blob_refs_def) [1])+

interpretation sql_total: total_node "sql_node E" "sql_view E" "sql_inv E" "\<lambda>_. True" for E
  by unfold_locales simp

end
