(* ===== verification/Sodl_SqlNode.thy ===== *)
theory Sodl_SqlNode
  imports Sodl_Persist Sodl_Demo
begin

text \<open>
  Properties of a node on the SQLite store, with a concrete environment (codecs for all six kinds
  of records and a parser of UUIDs) on which their hypotheses are shown to hold.
\<close>

section \<open>A concrete environment\<close>

text \<open>A value of an enumeration is written as its position.\<close>

definition pick_enc :: "'a list \<Rightarrow> 'a enc" where
  "pick_enc vals = map_enc (\<lambda>x. length (takeWhile (\<lambda>y. y \<noteq> x) vals)) nat_enc"

definition pick_dec :: "'a list \<Rightarrow> 'a dec" where
  "pick_dec vals = map_dec (\<lambda>n. vals ! n) nat_dec"

lemma pick_code:
  assumes "\<And>x. x \<in> set vals"
  shows "rev_code (pick_enc vals) (pick_dec vals)"
  unfolding pick_enc_def pick_dec_def
proof (rule map_code [OF nat_code])
  fix x
  have "length (takeWhile (\<lambda>y. y \<noteq> x) vals) < length vals"
    using assms [of x] by (induction vals) auto
  then show "vals ! length (takeWhile (\<lambda>y. y \<noteq> x) vals) = x" using nth_length_takeWhile by fastforce
qed

abbreviation "durabilities \<equiv> [Ephemeral, BestEffort, Durable]"
abbreviation "media_kinds \<equiv> [Binary, Image, Audio, Video, Document, AiModel]"
abbreviation "capabilities \<equiv> [Read, Reshare, Derive, PinCap, Admin]"
abbreviation "pin_states \<equiv> [Pending, Active, Released]"

lemma enum_codes:
  "rev_code (pick_enc durabilities) (pick_dec durabilities)" "rev_code (pick_enc media_kinds) (pick_dec media_kinds)"
  "rev_code (pick_enc capabilities) (pick_dec capabilities)" "rev_code (pick_enc pin_states) (pick_dec pin_states)"
proof -
  have "x \<in> set durabilities" for x by (cases x) simp_all
  then show "rev_code (pick_enc durabilities) (pick_dec durabilities)" by (rule pick_code)
  have "x \<in> set media_kinds" for x by (cases x) simp_all
  then show "rev_code (pick_enc media_kinds) (pick_dec media_kinds)" by (rule pick_code)
  have "x \<in> set capabilities" for x by (cases x) simp_all
  then show "rev_code (pick_enc capabilities) (pick_dec capabilities)" by (rule pick_code)
  have "x \<in> set pin_states" for x by (cases x) simp_all
  then show "rev_code (pick_enc pin_states) (pick_dec pin_states)" by (rule pick_code)
qed

lemmas base_codes = plain_codes enum_codes

definition rep_tuple where
  "rep_tuple r = (rep_name r, rep_media_kind r, rep_mime r, rep_size_bytes r, rep_root_blobs r)"

definition rep_enc :: "representation enc" where
  "rep_enc = map_enc rep_tuple (pair_enc text_enc (pair_enc (pick_enc media_kinds)
     (pair_enc (opt_enc text_enc) (pair_enc (opt_enc word_enc) texts_enc))))"

definition rep_dec :: "representation dec" where
  "rep_dec = map_dec (\<lambda>(a, b, c, d, e). \<lparr>rep_name = a, rep_media_kind = b, rep_mime = c, rep_size_bytes = d, rep_root_blobs = e\<rparr>)
     (pair_dec text_dec (pair_dec (pick_dec media_kinds) (pair_dec (opt_dec text_dec) (pair_dec (opt_dec word_dec) texts_dec))))"

lemma rep_code: "rev_code rep_enc rep_dec"
  unfolding rep_enc_def rep_dec_def by (rule map_code, intro base_codes) (simp add: rep_tuple_def)

definition demo_origin_codec :: "origin_record codec" where
  "demo_origin_codec = codec_of
     (map_enc (\<lambda>r. (or_origin_id r, or_media_kind r, or_durability r, or_created_at r, or_tombstoned_at r,
         or_tombstone_reason r, or_representations r, or_fingerprint_ids r, or_key_ref r, or_owner r))
       (pair_enc word_enc (pair_enc (pick_enc media_kinds) (pair_enc (pick_enc durabilities) (pair_enc int_enc
         (pair_enc (opt_enc int_enc) (pair_enc (opt_enc text_enc) (pair_enc (list_enc rep_enc) (pair_enc texts_enc
         (pair_enc (opt_enc text_enc) (opt_enc text_enc)))))))))))
     (map_dec (\<lambda>(a, b, c, d, e, f, g, h, i, j). \<lparr>or_origin_id = a, or_media_kind = b, or_durability = c, or_created_at = d,
         or_tombstoned_at = e, or_tombstone_reason = f, or_representations = g, or_fingerprint_ids = h, or_key_ref = i, or_owner = j\<rparr>)
       (pair_dec word_dec (pair_dec (pick_dec media_kinds) (pair_dec (pick_dec durabilities) (pair_dec int_dec
         (pair_dec (opt_dec int_dec) (pair_dec (opt_dec text_dec) (pair_dec (list_dec rep_dec) (pair_dec texts_dec
         (pair_dec (opt_dec text_dec) (opt_dec text_dec)))))))))))"

definition demo_policy_codec :: "origin_policy codec" where
  "demo_policy_codec = codec_of
     (map_enc (\<lambda>p. (op_origin_id p, rp_durability (op_retention p), rp_ttl_seconds (op_retention p), rp_min_replicas (op_retention p),
         ap_default_caps (op_access p), ap_allow_reshare (op_access p), ap_allow_derivation (op_access p)))
       (pair_enc word_enc (pair_enc (pick_enc durabilities) (pair_enc (opt_enc word_enc) (pair_enc (opt_enc word_enc)
         (pair_enc (list_enc (pick_enc capabilities)) (pair_enc bool_enc bool_enc)))))))
     (map_dec (\<lambda>(a, b, c, d, e, f, g). \<lparr>op_origin_id = a, op_retention = \<lparr>rp_durability = b, rp_ttl_seconds = c, rp_min_replicas = d\<rparr>,
         op_access = \<lparr>ap_default_caps = e, ap_allow_reshare = f, ap_allow_derivation = g\<rparr>\<rparr>)
       (pair_dec word_dec (pair_dec (pick_dec durabilities) (pair_dec (opt_dec word_dec) (pair_dec (opt_dec word_dec)
         (pair_dec (list_dec (pick_dec capabilities)) (pair_dec bool_dec bool_dec)))))))"

definition demo_pin_codec :: "pin_record codec" where
  "demo_pin_codec = codec_of
     (map_enc (\<lambda>p. (pr_pin_id p, (case pr_target p of PinOrigin og \<Rightarrow> (og, None) | PinRepresentation og n \<Rightarrow> (og, Some n)),
         pr_requested_by p, pr_created_at p, pr_state p, pr_min_replicas p, pr_required_zones p))
       (pair_enc text_enc (pair_enc (pair_enc word_enc (opt_enc text_enc)) (pair_enc text_enc (pair_enc int_enc
         (pair_enc (pick_enc pin_states) (pair_enc (opt_enc word_enc) texts_enc)))))))
     (map_dec (\<lambda>(a, (og, rep), c, d, e, f, g). \<lparr>pr_pin_id = a,
         pr_target = (case rep of None \<Rightarrow> PinOrigin og | Some n \<Rightarrow> PinRepresentation og n),
         pr_requested_by = c, pr_created_at = d, pr_state = e, pr_min_replicas = f, pr_required_zones = g\<rparr>)
       (pair_dec text_dec (pair_dec (pair_dec word_dec (opt_dec text_dec)) (pair_dec text_dec (pair_dec int_dec
         (pair_dec (pick_dec pin_states) (pair_dec (opt_dec word_dec) texts_dec)))))))"

fun kind_texts :: "ref_kind \<Rightarrow> string list" where
  "kind_texts (RefRepresentation s) = [''r'', s]"
| "kind_texts (RefShare s a b) = [''s'', s, a, b]"
| "kind_texts (RefDerivation s) = [''d'', s]"
| "kind_texts (RefPin s) = [''p'', s]"

fun texts_kind :: "string list \<Rightarrow> ref_kind" where
  "texts_kind (t # s # l) = (if t = ''r'' then RefRepresentation s else if t = ''d'' then RefDerivation s
     else if t = ''p'' then RefPin s else RefShare s (hd l) (hd (tl l)))"
| "texts_kind l = RefPin []"

lemma kind_texts_inverse [simp]: "texts_kind (kind_texts k) = k"
  by (cases k) simp_all

definition demo_edge_codec :: "lineage_edge codec" where
  "demo_edge_codec = codec_of
     (map_enc (\<lambda>e. (le_edge_id e, le_origin_id e, le_blob_id e, kind_texts (le_kind e), le_created_at e))
       (pair_enc text_enc (pair_enc word_enc (pair_enc (opt_enc text_enc) (pair_enc texts_enc int_enc)))))
     (map_dec (\<lambda>(a, b, c, d, e). \<lparr>le_edge_id = a, le_origin_id = b, le_blob_id = c, le_kind = texts_kind d, le_created_at = e\<rparr>)
       (pair_dec text_dec (pair_dec word_dec (pair_dec (opt_dec text_dec) (pair_dec texts_dec int_dec)))))"

fun deriv_nums :: "derivation_kind \<Rightarrow> nat list \<times> string" where
  "deriv_nums (Trim r) = ([unat (start_ms r), unat (end_ms r)], [])"
| "deriv_nums (Crop a b c d) = ([unat a, unat b, unat c, unat d], [])"
| "deriv_nums (Transform s) = ([], s)"

definition nums_deriv :: "nat list \<times> string \<Rightarrow> derivation_kind" where
  "nums_deriv = (\<lambda>(l, s). if length l = 2 then Trim \<lparr>start_ms = of_nat (l ! 0), end_ms = of_nat (l ! 1)\<rparr>
     else if length l = 4 then Crop (of_nat (l ! 0)) (of_nat (l ! 1)) (of_nat (l ! 2)) (of_nat (l ! 3)) else Transform s)"

lemma deriv_nums_inverse [simp]: "nums_deriv (deriv_nums k) = k"
  by (cases k) (simp_all add: nums_deriv_def)

definition demo_derivation_codec :: "derivation_manifest codec" where
  "demo_derivation_codec = codec_of
     (map_enc (\<lambda>m. (dm_schema m, dm_origin_id m, dm_derivation_id m, dm_parent m, dm_created_at m, dm_media_kind m,
         deriv_nums (dm_kind m), dm_output_blobs m, dm_fingerprint_ids m))
       (pair_enc text_enc (pair_enc word_enc (pair_enc text_enc (pair_enc (opt_enc text_enc) (pair_enc int_enc
         (pair_enc (pick_enc media_kinds) (pair_enc (pair_enc (list_enc nat_enc) text_enc) (pair_enc texts_enc texts_enc)))))))))
     (map_dec (\<lambda>(a, b, c, d, e, f, g, h, i). \<lparr>dm_schema = a, dm_origin_id = b, dm_derivation_id = c, dm_parent = d,
         dm_created_at = e, dm_media_kind = f, dm_kind = nums_deriv g, dm_output_blobs = h, dm_fingerprint_ids = i\<rparr>)
       (pair_dec text_dec (pair_dec word_dec (pair_dec text_dec (pair_dec (opt_dec text_dec) (pair_dec int_dec
         (pair_dec (pick_dec media_kinds) (pair_dec (pair_dec (list_dec nat_dec) text_dec) (pair_dec texts_dec texts_dec)))))))))"

definition demo_share_codec :: "share_record codec" where
  "demo_share_codec = codec_of
     (map_enc (\<lambda>s. (sr_schema s, sr_share_id s, sr_origin_id s, sr_derivation_id s, sr_from_principal s, sr_to_principal s,
         sr_created_at s, sr_capabilities s, sr_proof_digest s, sr_proof_created_at s, sr_proof_key_id s, sr_proof_sig_b64 s))
       (pair_enc text_enc (pair_enc text_enc (pair_enc word_enc (pair_enc (opt_enc text_enc) (pair_enc text_enc (pair_enc text_enc
         (pair_enc int_enc (pair_enc (list_enc (pick_enc capabilities)) (pair_enc text_enc (pair_enc int_enc
         (pair_enc (opt_enc text_enc) (opt_enc text_enc)))))))))))))
     (map_dec (\<lambda>(a, b, c, d, e, f, g, h, i, j, k, l). \<lparr>sr_schema = a, sr_share_id = b, sr_origin_id = c, sr_derivation_id = d,
         sr_from_principal = e, sr_to_principal = f, sr_created_at = g, sr_capabilities = h, sr_proof_digest = i,
         sr_proof_created_at = j, sr_proof_key_id = k, sr_proof_sig_b64 = l\<rparr>)
       (pair_dec text_dec (pair_dec text_dec (pair_dec word_dec (pair_dec (opt_dec text_dec) (pair_dec text_dec (pair_dec text_dec
         (pair_dec int_dec (pair_dec (list_dec (pick_dec capabilities)) (pair_dec text_dec (pair_dec int_dec
         (pair_dec (opt_dec text_dec) (opt_dec text_dec)))))))))))))"

lemma demo_codecs_ok:
  "codec_ok demo_origin_codec" "codec_ok demo_policy_codec" "codec_ok demo_pin_codec"
  "codec_ok demo_edge_codec" "codec_ok demo_derivation_codec" "codec_ok demo_share_codec"
  unfolding demo_origin_codec_def demo_policy_codec_def demo_pin_codec_def demo_edge_codec_def demo_derivation_codec_def
    demo_share_codec_def
  by (rule codec_of_ok, rule map_code, intro base_codes rep_code, simp split: pin_target.split)+


text \<open>A parser of UUIDs: the hyphens are dropped and the sixteen bytes read most significant first.\<close>

definition demo_parse_uuid :: "string \<Rightarrow> (string, uuid) outcome" where
  "demo_parse_uuid s = (case hex_to_bytes (filter (\<lambda>c. c \<noteq> CHR ''-'') s) of
      Ok b \<Rightarrow> Ok (of_nat (foldl (\<lambda>n x. 256 * n + unat x) 0 b)) | _ \<Rightarrow> Err ''invalid length'')"

lemma bytes_of_nat: "foldl (\<lambda>n x. 256 * n + x) 0 (map (\<lambda>i. (n div 256 ^ (k - Suc i)) mod 256) [0..<k]) = n mod (256 :: nat) ^ k"
proof (induction k arbitrary: n)
  case (Suc k)
  have "map (\<lambda>i. (n div 256 ^ (Suc k - Suc i)) mod 256) [0..<k] = map (\<lambda>i. ((n div 256) div 256 ^ (k - Suc i)) mod 256) [0..<k]"
    by (rule map_cong [OF refl]) (simp add: Suc_diff_Suc div_mult2_eq [symmetric] flip: power_Suc)
  then have "foldl (\<lambda>n x. 256 * n + x) 0 (map (\<lambda>i. (n div 256 ^ (Suc k - Suc i)) mod 256) [0..<k])
      = (n div 256) mod 256 ^ k"
    by (simp only: Suc.IH)
  then have "foldl (\<lambda>n x. 256 * n + x) 0 (map (\<lambda>i. (n div 256 ^ (Suc k - Suc i)) mod 256) [0..<Suc k])
      = 256 * ((n div 256) mod 256 ^ k) + n mod 256"
    by simp
  also have "\<dots> = n mod 256 ^ Suc k" by (simp add: mod_mult2_eq)
  finally show ?case .
qed simp

lemma uuid_bytes_value: "foldl (\<lambda>n x. 256 * n + unat x) 0 (uuid_bytes u) = unat u"
proof -
  have b: "unat (ucast (drop_bit (8 * (15 - i)) u) :: u8) = (unat u div 256 ^ (16 - Suc i)) mod 256" if "i < 16" for i
  proof -
    have "(2 :: nat) ^ (8 * (15 - i)) = 256 ^ (15 - i)" by (simp add: power_mult)
    moreover have "unat (ucast (drop_bit (8 * (15 - i)) u) :: u8) = drop_bit (8 * (15 - i)) (unat u) mod 256"
      by (simp only: unsigned_ucast_eq unat_drop_bit_eq take_bit_eq_mod) simp
    ultimately show ?thesis by (simp add: drop_bit_eq_div)
  qed
  have fold: "foldl (\<lambda>n x. 256 * n + unat x) z l = foldl (\<lambda>n x. 256 * n + x) z (map unat (l :: bytes))" for z l
    by (induction l arbitrary: z) simp_all
  have "map unat (uuid_bytes u) = map (\<lambda>i. (unat u div 256 ^ (16 - Suc i)) mod 256) [0..<16]"
    unfolding uuid_bytes_def map_map by (rule map_cong [OF refl]) (use b in simp)
  then have "foldl (\<lambda>n x. 256 * n + unat x) 0 (uuid_bytes u) = unat u mod 256 ^ 16"
    by (simp only: fold bytes_of_nat)
  moreover have "unat u < 256 ^ 16" using unsigned_less [of u] by simp
  ultimately show ?thesis by simp
qed

lemma hex_no_hyphen: "CHR ''-'' \<notin> set (bytes_to_hex b)"
proof
  assume "CHR ''-'' \<in> set (bytes_to_hex b)"
  then have "hex_value CHR ''-'' \<noteq> None"
    using hex_char_props byte_bounds by (fastforce simp: bytes_to_hex_def hex2_def)
  then show False by (simp add: hex_value_def)
qed

lemma demo_parse_show: "demo_parse_uuid (uuid_show u) = Ok u"
proof -
  let ?h = "bytes_to_hex (uuid_bytes u)"
  have keep: "filter (\<lambda>c. c \<noteq> CHR ''-'') l = l" if "set l \<subseteq> set ?h" for l
    using that hex_no_hyphen by (auto simp: filter_id_conv)
  have sub: "set (take n (drop k ?h)) \<subseteq> set ?h" "set (drop k ?h) \<subseteq> set ?h" for n k
    by (meson order_trans set_take_subset set_drop_subset)+
  have "filter (\<lambda>c. c \<noteq> CHR ''-'') (uuid_show u)
    = take 8 ?h @ take 4 (drop 8 ?h) @ take 4 (drop 12 ?h) @ take 4 (drop 16 ?h) @ drop 20 ?h"
    using keep [OF sub(1) [of 8 0]] by (simp add: uuid_show_def Let_def keep sub)
  also have "\<dots> = ?h"
    using append_take_drop_id [of 8 ?h] append_take_drop_id [of 4 "drop 8 ?h"]
      append_take_drop_id [of 4 "drop 12 ?h"] append_take_drop_id [of 4 "drop 16 ?h"]
    by simp
  finally show ?thesis by (simp add: demo_parse_uuid_def hex_bytes_hex uuid_bytes_value)
qed

definition demo_env :: sql_env where
  "demo_env = \<lparr>jc_origin = demo_origin_codec, jc_policy = demo_policy_codec, jc_pin = demo_pin_codec,
     jc_edge = demo_edge_codec, jc_derivation = demo_derivation_codec, jc_share = demo_share_codec,
     parse_uuid = demo_parse_uuid\<rparr>"

lemma demo_env_ok: "sql_env_ok demo_env"
  by (simp add: sql_env_ok_def demo_env_def demo_codecs_ok demo_parse_show)

lemma sql_new_inv: "sql_env_ok E \<Longrightarrow> sql_inv E sql_world_new"
  by (simp add: sql_inv_def sql_world_new_def open_memory_def apply_migrations_def migrate_v1_def migrate_v2_def
      create_tables_def Let_def tables_ok_def counts_ok_def replicas_keyed_def)

lemma sql_new_view: "sql_view E sql_world_new = mem_view mem_world_new"
  by (simp add: sql_view_def sql_world_new_def open_memory_def apply_migrations_def migrate_v1_def migrate_v2_def
      create_tables_def Let_def sql_count_def row_all_def row_get_def mem_view_def mem_world_new_def mem_index_new_def
      fp_of_def fun_eq_iff)


section \<open>Payloads on the SQLite node\<close>

text \<open>C4: No live payload is lost on the SQLite metadata store either. From an empty database, after
  any history of uploads, shares, derivations, pins, releases, tombstones and collections, every
  origin that was uploaded and not tombstoned since reads back as exactly the uploaded bytes, with
  every record and counter stored as rows and every record serialised and parsed on the way. The
  hypothesis on the environment is that serialised records and printed UUIDs read back.\<close>

theorem sqlite_payload_survives:
  assumes "sql_env_ok E" and "node_run H J svc (sql_view E) sql_world_new h w" and "service_ok (sql_node E) J svc"
    and "(org, d, ids) \<in> set (live H J svc h)"
  shows "get_payload H J svc org w = (Ok d, w)"
  by (rule sql_total.run_keeps_payload [OF assms(2,3) sql_new_inv [OF assms(1)] _ assms(4)])
    (unfold sql_new_view, rule new_ledger)

theorem sqlite_payload_survives_witness:
  "\<exists>w. node_run demo_hashes demo_manifest_codec (demo_on (sql_node demo_env)) (sql_view demo_env) sql_world_new
       [EvCollect 9 of_nat, EvUpload 5 1 1 1 (demo_request [1, 2, 3])] w
     \<and> get_payload demo_hashes demo_manifest_codec (demo_on (sql_node demo_env)) 5 w = (Ok [1, 2, 3], w)"
proof -
  let ?svc = "demo_on (sql_node demo_env)" and ?req = "demo_request [1, 2, 3]"
  have al: "allowed demo_hashes demo_manifest_codec ?svc (EvUpload 5 1 1 1 ?req) (sql_view demo_env sql_world_new)"
    unfolding sql_new_view
    by (rule demo_upload_allowed [OF demo_new_small]) (simp_all add: demo_view_new demo_edge_fresh)
  define s where "s = snd (perform demo_hashes demo_manifest_codec ?svc (EvUpload 5 1 1 1 ?req) sql_world_new)"
  have "node_run demo_hashes demo_manifest_codec ?svc (sql_view demo_env) sql_world_new [EvUpload 5 1 1 1 ?req] s"
    unfolding s_def by (intro run_step run_start al)
  then have "node_run demo_hashes demo_manifest_codec ?svc (sql_view demo_env) sql_world_new
      [EvCollect 9 of_nat, EvUpload 5 1 1 1 ?req] (snd (perform demo_hashes demo_manifest_codec ?svc (EvCollect 9 of_nat) s))"
    by (intro run_step) simp_all
  then obtain w where w: "node_run demo_hashes demo_manifest_codec ?svc (sql_view demo_env) sql_world_new
      [EvCollect 9 of_nat, EvUpload 5 1 1 1 ?req] w" ..
  moreover have "get_payload demo_hashes demo_manifest_codec ?svc 5 w = (Ok [1, 2, 3], w)"
    by (rule sqlite_payload_survives [OF demo_env_ok w demo_node_ok]) (simp add: demo_live_upload del: live.simps(2))
  ultimately show ?thesis by blast
qed

text \<open>C35: The collector never collects on the SQLite store. It looks for origins and blobs whose counter
  is zero, but this store lists only those whose counter is positive, so from every consistent
  database the plan is empty and a collection changes nothing: tombstoned origins and unreferenced
  blobs stay for ever.\<close>

theorem sqlite_gc_never_collects:
  assumes "sql_inv E w"
  shows "gc_plan (sql_node E) now w = (Ok \<lparr>gp_blob_delete = [], gp_origin_tombstone = []\<rparr>, w)
    \<and> gc_collect (sql_node E) now ids w = (Ok (), w)"
proof -
  have env: "sql_env_ok E" and rows: "tables_ok E (sw_db w)" using assms by (simp_all add: sql_inv_def)
  let ?os = "filter (\<lambda>(t, n). 0 < n) (sq_origin_refs (sw_db w))"
  have o: "counts_ok (sq_origin_refs (sw_db w))" and bl: "counts_ok (sq_blob_refs (sw_db w))"
    and "set (map fst ?os) \<subseteq> shown" using rows by (auto simp: tables_ok_def)
  then obtain us where us: "mapR (uuid_of_text E) (map fst ?os) = Ok us" "map fst ?os = map uuid_show us"
    by (blast elim: shown_texts [OF env])
  moreover have "mapR (\<lambda>(t, n). uuid_of_text E t) l = mapR (uuid_of_text E) (map fst l)" for l :: "(string \<times> int) list"
    by (induction l) auto
  ultimately have orgs: "si_list_origins (nd_scan (sql_node E)) w = (Ok us, w)"
    by (simp add: sql_eval sql_list_origins_def)
  let ?bs = "map fst (filter (\<lambda>(b, n). 0 < n) (sq_blob_refs (sw_db w)))"
  have bids: "si_list_blobs (nd_scan (sql_node E)) w = (Ok ?bs, w)" by (simp add: sql_eval sql_list_blobs_def)
  have pos: "0 < sql_count m k" if "counts_ok m" "k \<in> set (map fst (filter (\<lambda>(k, n). 0 < n) m))" for m :: "('k, int) hmap" and k
    using that counts_row [OF that(1), of k] mem_hget [of m k]
    by (auto simp: sql_count_def counts_ok_def)
  have "plan_origin (sql_node E) now org w = (Ok [], w)" if "org \<in> set us" for org
  proof -
    have "uuid_show org \<in> set (map fst ?os)" using that by (simp only: us(2)) simp
    then have "sql_count (sq_origin_refs (sw_db w)) (uuid_show org) \<noteq> 0" using pos [OF o] by force
    then show ?thesis
      using sql_laws.get_origin_refs [OF assms, of org] by (simp add: plan_origin_def act_simps sql_view_def)
  qed
  then have tombs: "mapM (plan_origin (sql_node E) now) us w = (Ok (map (\<lambda>_. []) us), w)"
    by (rule mapM_read)
  have "plan_blob (sql_node E) b w = (Ok [], w)" if "b \<in> set ?bs" for b
  proof -
    have "sql_count (sq_blob_refs (sw_db w)) b \<noteq> 0" using pos [OF bl that] by simp
    then show ?thesis using sql_laws.plan_blob_eq [OF assms, of b] by (simp add: sql_view_def)
  qed
  then have dels: "mapM (plan_blob (sql_node E)) ?bs w = (Ok (map (\<lambda>_. []) ?bs), w)"
    by (rule mapM_read)
  have "gc_plan (sql_node E) now w = (Ok \<lparr>gp_blob_delete = [], gp_origin_tombstone = []\<rparr>, w)"
    by (simp add: gc_plan_def act_simps orgs tombs bids dels del: list.map filter.simps)
  then show ?thesis by (simp add: gc_collect_def act_simps gc_execute_def)
qed


theorem sqlite_gc_never_collects_witness:
  "gc_collect (sql_node demo_env) 9 of_nat (sql_world_new\<lparr>sw_db := open_memory\<lparr>sq_blob_refs := [(''b'', 0)]\<rparr>, sw_blobs := [(''b'', [1])]\<rparr>)
     = (Ok (), sql_world_new\<lparr>sw_db := open_memory\<lparr>sq_blob_refs := [(''b'', 0)]\<rparr>, sw_blobs := [(''b'', [1])]\<rparr>)"
proof -
  have "sql_inv demo_env (sql_world_new\<lparr>sw_db := open_memory\<lparr>sq_blob_refs := [(''b'', 0)]\<rparr>, sw_blobs := [(''b'', [1])]\<rparr>)"
    using sql_new_inv [OF demo_env_ok]
    by (simp add: sql_inv_def tables_ok_def sql_world_new_def counts_ok_def hwf_def)
  then show ?thesis using sqlite_gc_never_collects by blast
qed

text \<open>A provenance query on the SQLite store ranks every origin that shares a chunk fingerprint
  with the query, once, by the number of distinct query fingerprints it shares; a fingerprint that
  occurs twice in the query counts once, where the in-memory index counts it twice.\<close>

theorem sqlite_chunk_query_spec:
  assumes "sql_inv E w"
  shows "\<exists>out. pv_find_chunks (nd_provenance (sql_node E)) fps w = (Ok out, w) \<and> distinct (map fst out)
    \<and> sorted (rev (map snd out))
    \<and> (\<forall>org n. (org, n) \<in> set out \<longleftrightarrow> n = card {fp \<in> set fps. (fp, uuid_show org) \<in> set (sq_chunk_fps (sw_db w))} \<and> 0 < n)"
proof -
  let ?fs = "first_occurrences [] fps"
  obtain out found where out: "pv_find_chunks (nd_provenance (sql_node E)) fps w = (Ok out, w)"
    "out = rev (sort_key snd (rev (fold (\<lambda>org. hentry org 0 Suc) (concat (map found ?fs)) [])))"
    "\<forall>f. distinct (found f) \<and> set (found f) = f_chunk_fps (sql_view E w) f"
    by (rule sql_chunk_rows [where fps = fps, OF assms])
  have once: "count_list l x = (if x \<in> set l then 1 else 0)" if "distinct l" for l and x :: origin_id
    using that by (induction l) auto
  have "count_list (concat (map found l)) org = card {fp \<in> set l. (fp, uuid_show org) \<in> set (sq_chunk_fps (sw_db w))}"
    if "distinct l" for l org
    using that
  proof (induction l)
    case (Cons f l)
    have "count_list (found f) org = (if (f, uuid_show org) \<in> set (sq_chunk_fps (sw_db w)) then 1 else 0)"
      using out(3) [rule_format, of f] once [of "found f" org] by (simp add: sql_view_def)
    moreover have "{fp \<in> set (f # l). (fp, uuid_show org) \<in> set (sq_chunk_fps (sw_db w))}
      = (if (f, uuid_show org) \<in> set (sq_chunk_fps (sw_db w)) then {f} else {})
        \<union> {fp \<in> set l. (fp, uuid_show org) \<in> set (sq_chunk_fps (sw_db w))}" by auto
    ultimately show ?case using Cons by simp
  qed simp
  then have "count_list (concat (map found ?fs)) org = card {fp \<in> set fps. (fp, uuid_show org) \<in> set (sq_chunk_fps (sw_db w))}" for org
    using first_occurrences_distinct [of "[]" fps] first_occurrences_set [of "[]" fps] by simp
  then show ?thesis using out(1) ranked_counts [OF out(2)] by simp
qed

theorem sqlite_chunk_query_spec_witness:
  "\<exists>out. pv_find_chunks (nd_provenance (sql_node demo_env)) [''f'', ''f''] (sql_world_new\<lparr>sw_db := open_memory\<lparr>sq_chunk_fps := [(''f'', uuid_show 5)]\<rparr>\<rparr>)
     = (Ok out, sql_world_new\<lparr>sw_db := open_memory\<lparr>sq_chunk_fps := [(''f'', uuid_show 5)]\<rparr>\<rparr>) \<and> (5, 1) \<in> set out"
proof -
  let ?w = "sql_world_new\<lparr>sw_db := open_memory\<lparr>sq_chunk_fps := [(''f'', uuid_show 5)]\<rparr>\<rparr>"
  have inv: "sql_inv demo_env ?w"
    using sql_new_inv [OF demo_env_ok] by (simp add: sql_inv_def tables_ok_def sql_world_new_def shown_def)
  have "{fp \<in> set [''f'', ''f'']. (fp, uuid_show 5) \<in> set (sq_chunk_fps (sw_db ?w))} = {''f''}" by auto
  then show ?thesis using sqlite_chunk_query_spec [OF inv, of "[''f'', ''f'']"] by auto
qed

end
