(* ===== verification/Sodl_Weights.thy ===== *)
theory Sodl_Weights
  imports Sodl_Store Sodl_FsCas
begin

text \<open>
  Weight clusters, \<open>crates/sodl-store/src/weight_store.rs\<close>: \<open>WeightBlobStore\<close> serialises,
  compresses, encrypts and stores a cluster under the digest of the result; a model is a manifest
  of layers, each a list of clusters. A 32-bit float is its bit pattern. The serialiser and
  Zstandard are arguments (\<open>weight_env\<close>); the code relies on what was compressed or serialised
  being readable again, for clusters without infinities and NaNs, which JSON cannot express.
  Numbers of clusters and bytes in memory stay below the range of \<open>usize\<close> and are naturals.
\<close>

section \<open>Clusters and manifests\<close>

type_synonym f32 = u32

record weight_cluster =
  wc_cluster_id :: "cluster_id option"
  wc_centroid :: "f32 list"
  wc_member_token_ids :: "u32 list"
  wc_offsets :: "f32 list list"
  wc_dim :: u64

definition f32_finite :: "f32 \<Rightarrow> bool" where
  "f32_finite w \<longleftrightarrow> drop_bit 23 w AND 255 \<noteq> 255"

definition finite_cluster :: "weight_cluster \<Rightarrow> bool" where
  "finite_cluster c \<longleftrightarrow> list_all f32_finite (wc_centroid c) \<and> list_all (list_all f32_finite) (wc_offsets c)"

record store_stats =
  st_blob_id :: blob_id
  st_raw_bytes :: nat
  st_compressed_bytes :: nat
  st_stored_bytes :: nat
  st_was_deduped :: bool

record layer_shard =
  ly_layer_name :: string
  ly_cluster_ids :: "cluster_id list"
  ly_total_clusters :: nat
  ly_total_raw_bytes :: nat
  ly_total_stored_bytes :: nat

record layers_manifest =
  lm_origin_id :: origin_id
  lm_layers :: "layer_shard list"
  lm_created_at :: time

record layers_stats =
  ls_manifest :: layers_manifest
  ls_manifest_blob_id :: blob_id
  ls_total_clusters :: nat
  ls_total_raw_bytes :: nat
  ls_total_stored_bytes :: nat

record weight_env =
  we_hashes :: hashes
  we_cluster :: "weight_cluster codec"
  we_layers :: "layers_manifest codec"
  we_compress :: "int \<Rightarrow> bytes \<Rightarrow> (string, bytes) outcome"
  we_decompress :: "bytes \<Rightarrow> (string, bytes) outcome"

text \<open>What is relied on. That a finite 32-bit float reads back bit by bit from its JSON text is an
  idealisation: the crate uses \<open>serde_json\<close> without its feature \<open>float_roundtrip\<close>.\<close>

definition weight_env_ok :: "weight_env \<Rightarrow> bool" where
  "weight_env_ok E \<longleftrightarrow>
     (\<forall>c. finite_cluster c \<longrightarrow> (\<exists>b. to_vec (we_cluster E) c = Ok b \<and> from_slice (we_cluster E) b = Ok c))
     \<and> codec_ok (we_layers E)
     \<and> (\<forall>level b. \<exists>z. we_compress E level b = Ok z \<and> we_decompress E z = Ok b)"


section \<open>WeightBlobStore\<close>

record 'w weight_store =
  ws_store :: "'w blob_store"
  ws_crypto :: "crypto option"
  ws_hash_alg :: hash_alg
  ws_level :: int

definition DEFAULT_ZSTD_LEVEL :: int where
  "DEFAULT_ZSTD_LEVEL = 3"

definition weight_store_new :: "'w blob_store \<Rightarrow> crypto option \<Rightarrow> hash_alg \<Rightarrow> 'w weight_store" where
  "weight_store_new st cr alg = \<lparr>ws_store = st, ws_crypto = cr, ws_hash_alg = alg, ws_level = DEFAULT_ZSTD_LEVEL\<rparr>"

definition with_compression_level :: "int \<Rightarrow> 'w weight_store \<Rightarrow> 'w weight_store" where
  "with_compression_level level W = W\<lparr>ws_level := level\<rparr>"

fun serial :: "(string, 'a) outcome \<Rightarrow> 'a res" where
  "serial (Ok a) = Ok a"
| "serial (Err e) = Err (Serialization e)"
| "serial Panic = Panic"

fun squeeze :: "(string, 'a) outcome \<Rightarrow> 'a res" where
  "squeeze (Ok a) = Ok a"
| "squeeze (Err e) = Err (Compression e)"
| "squeeze Panic = Panic"

definition encrypt_opt :: "'w weight_store \<Rightarrow> origin_id \<Rightarrow> bytes \<Rightarrow> bytes res" where
  "encrypt_opt W org d = (case ws_crypto W of Some c \<Rightarrow> cr_encrypt c org d | None \<Rightarrow> Ok d)"

definition decrypt_opt :: "'w weight_store \<Rightarrow> origin_id \<Rightarrow> bytes \<Rightarrow> bytes res" where
  "decrypt_opt W org d = (case ws_crypto W of Some c \<Rightarrow> cr_decrypt c org d | None \<Rightarrow> Ok d)"

text \<open>The identifier of the stored bytes, and whether they were there already.\<close>

definition store_bytes :: "weight_env \<Rightarrow> 'w weight_store \<Rightarrow> bytes \<Rightarrow> ('w, blob_id \<times> bool) op" where
  "store_bytes E W d =
     (let bid = compute_blob_id (we_hashes E) d (ws_hash_alg W) in
      bindM (bs_has (ws_store W) bid) (\<lambda>was.
      seqM (if was then returnM () else bs_put (ws_store W) bid d) (returnM (bid, was))))"

definition cluster_put :: "weight_env \<Rightarrow> 'w weight_store \<Rightarrow> origin_id \<Rightarrow> weight_cluster \<Rightarrow> ('w, store_stats) op" where
  "cluster_put E W org c =
     bindM (pureM (serial (to_vec (we_cluster E) c))) (\<lambda>raw.
     bindM (pureM (squeeze (we_compress E (ws_level W) raw))) (\<lambda>compressed.
     bindM (pureM (encrypt_opt W org compressed)) (\<lambda>stored.
     bindM (store_bytes E W stored) (\<lambda>(bid, was).
     returnM \<lparr>st_blob_id = bid, st_raw_bytes = length raw, st_compressed_bytes = length compressed,
       st_stored_bytes = length stored, st_was_deduped = was\<rparr>))))"

definition unpack :: "weight_env \<Rightarrow> 'w weight_store \<Rightarrow> origin_id \<Rightarrow> blob_id \<Rightarrow> ('w, bytes) op" where
  "unpack E W org bid =
     bindM (bs_get (ws_store W) bid) (\<lambda>stored.
     seqM (pureM (verify_integrity (we_hashes E) bid stored))
     (bindM (pureM (decrypt_opt W org stored)) (\<lambda>compressed.
      pureM (squeeze (we_decompress E compressed)))))"

definition cluster_get :: "weight_env \<Rightarrow> 'w weight_store \<Rightarrow> origin_id \<Rightarrow> blob_id \<Rightarrow> ('w, weight_cluster) op" where
  "cluster_get E W org bid = bindM (unpack E W org bid) (\<lambda>raw. pureM (serial (from_slice (we_cluster E) raw)))"

definition weight_has :: "'w weight_store \<Rightarrow> blob_id \<Rightarrow> ('w, bool) op" where
  "weight_has W bid = bs_has (ws_store W) bid"

definition weight_delete :: "'w weight_store \<Rightarrow> blob_id \<Rightarrow> ('w, unit) op" where
  "weight_delete W bid = bs_delete (ws_store W) bid"

definition put_layer_shard ::
  "weight_env \<Rightarrow> 'w weight_store \<Rightarrow> origin_id \<Rightarrow> string \<Rightarrow> weight_cluster list \<Rightarrow> ('w, layer_shard) op" where
  "put_layer_shard E W org name clusters =
     bindM (mapM (cluster_put E W org) clusters) (\<lambda>stats.
     returnM \<lparr>ly_layer_name = name, ly_cluster_ids = map st_blob_id stats, ly_total_clusters = length clusters,
       ly_total_raw_bytes = sum_list (map st_raw_bytes stats), ly_total_stored_bytes = sum_list (map st_stored_bytes stats)\<rparr>)"

definition get_layer_shard ::
  "weight_env \<Rightarrow> 'w weight_store \<Rightarrow> origin_id \<Rightarrow> layer_shard \<Rightarrow> ('w, weight_cluster list) op" where
  "get_layer_shard E W org ly = mapM (cluster_get E W org) (ly_cluster_ids ly)"

definition store_layers_manifest ::
  "weight_env \<Rightarrow> 'w weight_store \<Rightarrow> origin_id \<Rightarrow> layers_manifest \<Rightarrow> ('w, blob_id) op" where
  "store_layers_manifest E W org m =
     bindM (pureM (serial (to_vec (we_layers E) m))) (\<lambda>raw.
     bindM (pureM (squeeze (we_compress E (ws_level W) raw))) (\<lambda>compressed.
     bindM (pureM (encrypt_opt W org compressed)) (\<lambda>stored.
     bindM (store_bytes E W stored) (\<lambda>(bid, was). returnM bid))))"

definition load_layers_manifest ::
  "weight_env \<Rightarrow> 'w weight_store \<Rightarrow> origin_id \<Rightarrow> blob_id \<Rightarrow> ('w, layers_manifest) op" where
  "load_layers_manifest E W org bid = bindM (unpack E W org bid) (\<lambda>raw. pureM (serial (from_slice (we_layers E) raw)))"

text \<open>The layers come in the order of their names; \<open>now\<close> is the reading of the clock.\<close>

definition put_layers ::
  "weight_env \<Rightarrow> 'w weight_store \<Rightarrow> origin_id \<Rightarrow> time \<Rightarrow> (string \<times> weight_cluster list) list \<Rightarrow> ('w, layers_stats) op" where
  "put_layers E W org now layers =
     bindM (mapM (\<lambda>(name, clusters). put_layer_shard E W org name clusters) layers) (\<lambda>shards.
     let m = \<lparr>lm_origin_id = org, lm_layers = shards, lm_created_at = now\<rparr> in
     bindM (store_layers_manifest E W org m) (\<lambda>bid.
     returnM \<lparr>ls_manifest = m, ls_manifest_blob_id = bid, ls_total_clusters = sum_list (map ly_total_clusters shards),
       ls_total_raw_bytes = sum_list (map ly_total_raw_bytes shards),
       ls_total_stored_bytes = sum_list (map ly_total_stored_bytes shards)\<rparr>))"


section \<open>What was stored can be loaded\<close>

text \<open>The bytes stored for a text, and for a cluster.\<close>

definition sealed :: "weight_env \<Rightarrow> 'w weight_store \<Rightarrow> origin_id \<Rightarrow> bytes \<Rightarrow> bytes res" where
  "sealed E W org raw = bindR (squeeze (we_compress E (ws_level W) raw)) (encrypt_opt W org)"

text \<open>The length of the serialised cluster and the bytes that are stored; the shard of a layer; the
  manifest of a model and everything that storing it puts into the store.\<close>

definition planned_cluster :: "weight_env \<Rightarrow> 'w weight_store \<Rightarrow> origin_id \<Rightarrow> weight_cluster \<Rightarrow> (nat \<times> bytes) res" where
  "planned_cluster E W org c =
     bindR (serial (to_vec (we_cluster E) c)) (\<lambda>raw. bindR (sealed E W org raw) (\<lambda>d. Ok (length raw, d)))"

definition planned_id :: "weight_env \<Rightarrow> 'w weight_store \<Rightarrow> bytes \<Rightarrow> blob_id" where
  "planned_id E W d = compute_blob_id (we_hashes E) d (ws_hash_alg W)"

definition planned_shard ::
  "weight_env \<Rightarrow> 'w weight_store \<Rightarrow> origin_id \<Rightarrow> string \<times> weight_cluster list \<Rightarrow> (layer_shard \<times> bytes list) res" where
  "planned_shard E W org = (\<lambda>(name, clusters). bindR (mapR (planned_cluster E W org) clusters) (\<lambda>l.
     Ok (\<lparr>ly_layer_name = name, ly_cluster_ids = map (planned_id E W) (map snd l), ly_total_clusters = length clusters,
       ly_total_raw_bytes = sum_list (map fst l), ly_total_stored_bytes = sum_list (map (length \<circ> snd) l)\<rparr>, map snd l)))"

definition planned_layers ::
  "weight_env \<Rightarrow> 'w weight_store \<Rightarrow> origin_id \<Rightarrow> time \<Rightarrow> (string \<times> weight_cluster list) list
     \<Rightarrow> (layers_manifest \<times> bytes list) res" where
  "planned_layers E W org now layers = bindR (mapR (planned_shard E W org) layers) (\<lambda>l.
     let m = \<lparr>lm_origin_id = org, lm_layers = map fst l, lm_created_at = now\<rparr> in
     bindR (serial (to_vec (we_layers E) m)) (\<lambda>raw. bindR (sealed E W org raw) (\<lambda>d. Ok (m, concat (map snd l) @ [d]))))"

definition weight_crypto_ok :: "'w weight_store \<Rightarrow> bool" where
  "weight_crypto_ok W \<longleftrightarrow> (\<forall>c. ws_crypto W = Some c \<longrightarrow> crypto_ok c)"

lemma squeeze_Ok [simp]: "squeeze r = Ok a \<longleftrightarrow> r = Ok a"
  by (cases r) simp_all

lemma serial_Ok [simp]: "serial r = Ok a \<longleftrightarrow> r = Ok a"
  by (cases r) simp_all

lemma sealed_opens:
  assumes "weight_env_ok E" and "weight_crypto_ok W" and "sealed E W org raw = Ok d"
  obtains z where "decrypt_opt W org d = Ok z" "we_decompress E z = Ok raw"
proof -
  obtain z where z: "we_compress E (ws_level W) raw = Ok z" "we_decompress E z = Ok raw"
    using assms(1) unfolding weight_env_ok_def by metis
  have "encrypt_opt W org z = Ok d" using assms(3) z by (simp add: sealed_def)
  then have "decrypt_opt W org d = Ok z"
    using assms(2) by (auto simp: encrypt_opt_def decrypt_opt_def weight_crypto_ok_def crypto_ok_def split: option.splits)
  then show thesis using z(2) by (rule that)
qed

context blob_store_laws begin

lemma store_bytes_law:
  assumes W: "ws_store W = bs" "ws_hash_alg W = alg" and H: "we_hashes E = H"
    and "inv s" and "cas_ok H (blobs s)" and "\<And>b. valid (compute_blob_id H b alg)" and "no_collision H alg (blobs s) [d]"
  shows "\<exists>t. store_bytes E W d s = (Ok (compute_blob_id H d alg, blobs s (compute_blob_id H d alg) \<noteq> None), t) \<and> inv t
    \<and> blobs t = add_blobs H alg [d] (blobs s)"
proof -
  let ?id = "compute_blob_id H d alg"
  have vac: "blobs s ?id = None \<or> blobs s ?id = Some d" using vacant_or_same [OF assms(5,7)] by simp
  have has: "bs_has bs ?id s = (Ok (blobs s ?id \<noteq> None), s)" using has_law assms by simp
  show ?thesis
  proof (cases "blobs s ?id")
    case None
    obtain t where t: "bs_put bs ?id d s = (Ok (), t)" "inv t" "blobs t = (blobs s)(?id \<mapsto> d)"
      using put_law [OF assms(4,6) vac] by blast
    then show ?thesis using has None W H by (simp add: store_bytes_def Let_def act_simps)
  next
    case (Some e)
    then have "blobs s = add_blobs H alg [d] (blobs s)" using vac by (simp add: fun_upd_idem)
    then show ?thesis using has Some W H assms(4) by (simp add: store_bytes_def Let_def act_simps)
  qed
qed

lemma unpack_law:
  assumes W: "ws_store W = bs" and H: "we_hashes E = H" and ok: "weight_env_ok E" "weight_crypto_ok W"
    and "inv s" and "valid (compute_blob_id H d alg)" and "blobs s (compute_blob_id H d alg) = Some d"
    and "sealed E W org raw = Ok d"
  shows "unpack E W org (compute_blob_id H d alg) s = (Ok raw, s)"
proof -
  obtain z where "decrypt_opt W org d = Ok z" "we_decompress E z = Ok raw" by (rule sealed_opens [OF ok assms(8)])
  moreover have "bs_get bs (compute_blob_id H d alg) s = (Ok d, s)" using get_law [OF assms(5,6)] assms(7) by simp
  ultimately show ?thesis using W H by (simp add: unpack_def act_simps)
qed

lemma put_list:
  assumes step: "\<And>x p s. P x = Ok p \<Longrightarrow> inv s \<Longrightarrow> cas_ok H (blobs s) \<Longrightarrow> no_collision H alg (blobs s) (w p)
      \<Longrightarrow> \<exists>t y. f x s = (Ok y, t) \<and> inv t \<and> blobs t = add_blobs H alg (w p) (blobs s) \<and> R p y"
    and "mapR P xs = Ok l" and "inv s" and "cas_ok H (blobs s)" and "no_collision H alg (blobs s) (concat (map w l))"
  shows "\<exists>t ys. mapM f xs s = (Ok ys, t) \<and> inv t \<and> blobs t = add_blobs H alg (concat (map w l)) (blobs s) \<and> list_all2 R l ys"
  using assms(2-5)
proof (induction xs arbitrary: s l)
  case Nil
  then show ?case by simp
next
  case (Cons x xs)
  obtain p l' where l: "P x = Ok p" "mapR P xs = Ok l'" "l = p # l'"
    using Cons.prems(1) by (auto simp: bindR_eq_Ok)
  have "no_collision H alg (blobs s) (w p)" using no_collision_subset [OF Cons.prems(4), of "w p"] l(3) by simp
  then obtain u y where u: "f x s = (Ok y, u)" "inv u" "blobs u = add_blobs H alg (w p) (blobs s)" "R p y"
    using step [OF l(1) Cons.prems(2,3)] by blast
  have "no_collision H alg (blobs u) (concat (map w l'))"
    using no_collision_subset [OF no_collision_add, of H alg "blobs s" "w p" "concat (map w l')" "concat (map w l')"]
      Cons.prems(4) l(3) u(3) by simp
  then obtain t ys where "mapM f xs u = (Ok ys, t)" "inv t" "blobs t = add_blobs H alg (concat (map w l')) (blobs u)"
    "list_all2 R l' ys"
    using Cons.IH [OF l(2) u(2)] cas_ok_add [OF Cons.prems(3)] u(3) by metis
  then show ?case using u l(3) by (simp add: act_simps add_blobs_append)
qed

lemma cluster_put_law:
  assumes W: "ws_store W = bs" "ws_hash_alg W = alg" and H: "we_hashes E = H" and V: "\<And>b. valid (compute_blob_id H b alg)"
    and plan: "planned_cluster E W org c = Ok (n, d)"
    and s: "inv s" "cas_ok H (blobs s)" "no_collision H alg (blobs s) [d]"
  shows "\<exists>t st. cluster_put E W org c s = (Ok st, t) \<and> inv t \<and> blobs t = add_blobs H alg [d] (blobs s)
    \<and> st_blob_id st = planned_id E W d \<and> st_raw_bytes st = n \<and> st_stored_bytes st = length d
    \<and> (st_was_deduped st \<longleftrightarrow> blobs s (planned_id E W d) \<noteq> None)"
proof -
  obtain u where "store_bytes E W d s = (Ok (compute_blob_id H d alg, blobs s (compute_blob_id H d alg) \<noteq> None), u)"
    "inv u" "blobs u = add_blobs H alg [d] (blobs s)"
    using store_bytes_law [OF W H s(1,2) V s(3)] by blast
  then show ?thesis
    using plan W H by (auto simp: cluster_put_def planned_cluster_def sealed_def planned_id_def bindR_eq_Ok act_simps)
qed

lemma shard_law:
  assumes W: "ws_store W = bs" "ws_hash_alg W = alg" and H: "we_hashes E = H" and V: "\<And>b. valid (compute_blob_id H b alg)"
    and plan: "planned_shard E W org (name, clusters) = Ok (ly, ds)"
    and s: "inv s" "cas_ok H (blobs s)" "no_collision H alg (blobs s) ds"
  shows "\<exists>t. put_layer_shard E W org name clusters s = (Ok ly, t) \<and> inv t \<and> blobs t = add_blobs H alg ds (blobs s)"
proof -
  let ?R = "\<lambda>(n, d) st. st_blob_id st = planned_id E W d \<and> st_raw_bytes st = n \<and> st_stored_bytes st = length d"
  obtain l where l: "mapR (planned_cluster E W org) clusters = Ok l" "ds = map snd l"
    and ly: "ly = \<lparr>ly_layer_name = name, ly_cluster_ids = map (planned_id E W) (map snd l), ly_total_clusters = length clusters,
       ly_total_raw_bytes = sum_list (map fst l), ly_total_stored_bytes = sum_list (map (length \<circ> snd) l)\<rparr>"
    using plan by (auto simp: planned_shard_def bindR_eq_Ok)
  have ds: "concat (map (\<lambda>p. [snd p]) l) = ds" by (simp add: l(2))
  have "\<exists>t stats. mapM (cluster_put E W org) clusters s = (Ok stats, t) \<and> inv t
      \<and> blobs t = add_blobs H alg (concat (map (\<lambda>p. [snd p]) l)) (blobs s) \<and> list_all2 ?R l stats"
  proof (rule put_list [OF _ l(1) s(1,2)])
    fix x p s'
    assume "planned_cluster E W org x = Ok p" "inv s'" "cas_ok H (blobs s')" "no_collision H alg (blobs s') [snd p]"
    then have "\<exists>t st. cluster_put E W org x s' = (Ok st, t) \<and> inv t \<and> blobs t = add_blobs H alg [snd p] (blobs s')
      \<and> st_blob_id st = planned_id E W (snd p) \<and> st_raw_bytes st = fst p \<and> st_stored_bytes st = length (snd p)
      \<and> (st_was_deduped st \<longleftrightarrow> blobs s' (planned_id E W (snd p)) \<noteq> None)"
      by (intro cluster_put_law [OF W H V]) simp_all
    then show "\<exists>t y. cluster_put E W org x s' = (Ok y, t) \<and> inv t \<and> blobs t = add_blobs H alg [snd p] (blobs s') \<and> ?R p y"
      by (simp add: split_def) blast
  qed (use s(3) ds in simp)
  then obtain t stats where t: "mapM (cluster_put E W org) clusters s = (Ok stats, t)" "inv t"
    "blobs t = add_blobs H alg ds (blobs s)" "list_all2 ?R l stats"
    unfolding ds by blast
  have "map st_blob_id stats = map (planned_id E W) (map snd l)" "map st_raw_bytes stats = map fst l"
    "map st_stored_bytes stats = map (length \<circ> snd) l"
    using t(4) by (induction rule: list_all2_induct) auto
  then show ?thesis using t ly by (simp add: put_layer_shard_def act_simps)
qed

lemma layers_law:
  assumes W: "ws_store W = bs" "ws_hash_alg W = alg" and H: "we_hashes E = H" and V: "\<And>b. valid (compute_blob_id H b alg)"
    and plan: "planned_layers E W org now layers = Ok (m, ds)"
    and s: "inv s" "cas_ok H (blobs s)" "no_collision H alg (blobs s) ds"
  shows "\<exists>t st. put_layers E W org now layers s = (Ok st, t) \<and> inv t \<and> blobs t = add_blobs H alg ds (blobs s)
    \<and> ls_manifest st = m \<and> ls_manifest_blob_id st = planned_id E W (last ds)"
proof -
  obtain l raw d where l: "mapR (planned_shard E W org) layers = Ok l" "ds = concat (map snd l) @ [d]"
    and m: "m = \<lparr>lm_origin_id = org, lm_layers = map fst l, lm_created_at = now\<rparr>"
    and d: "to_vec (we_layers E) m = Ok raw" "sealed E W org raw = Ok d"
    using plan by (auto simp: planned_layers_def bindR_eq_Ok Let_def)
  have nc: "no_collision H alg (blobs s) (concat (map snd l))"
    by (rule no_collision_subset [OF s(3)]) (simp add: l(2) subset_insertI)
  have "\<exists>t shards. mapM (\<lambda>(name, clusters). put_layer_shard E W org name clusters) layers s = (Ok shards, t) \<and> inv t
      \<and> blobs t = add_blobs H alg (concat (map snd l)) (blobs s) \<and> list_all2 (\<lambda>p ly. ly = fst p) l shards"
  proof (rule put_list [OF _ l(1) s(1,2) nc])
    fix x p s'
    assume "planned_shard E W org x = Ok p" "inv s'" "cas_ok H (blobs s')" "no_collision H alg (blobs s') (snd p)"
    then show "\<exists>t y. (case x of (name, clusters) \<Rightarrow> put_layer_shard E W org name clusters) s' = (Ok y, t) \<and> inv t
        \<and> blobs t = add_blobs H alg (snd p) (blobs s') \<and> y = fst p"
      using shard_law [OF W H V, of org "fst x" "snd x" "fst p" "snd p" s'] by (simp add: split_def)
  qed
  then obtain t shards where t: "mapM (\<lambda>(name, clusters). put_layer_shard E W org name clusters) layers s = (Ok shards, t)"
    "inv t" "blobs t = add_blobs H alg (concat (map snd l)) (blobs s)" "list_all2 (\<lambda>p ly. ly = fst p) l shards" by blast
  have shards: "shards = map fst l" using t(4) by (induction rule: list_all2_induct) auto
  have "no_collision H alg (blobs t) [d]"
    using no_collision_subset [OF no_collision_add, of H alg "blobs s" "concat (map snd l)" "[d]" "[d]"] s(3) l(2) t(3) by simp
  moreover have "cas_ok H (blobs t)" using cas_ok_add [OF s(2)] t(3) by simp
  ultimately obtain u where u: "store_bytes E W d t = (Ok (compute_blob_id H d alg, blobs t (compute_blob_id H d alg) \<noteq> None), u)"
    "inv u" "blobs u = add_blobs H alg [d] (blobs t)"
    using store_bytes_law [OF W H t(2) _ V] by blast
  have "store_layers_manifest E W org m t = (Ok (planned_id E W d), u)"
    using u(1) d W H by (auto simp: store_layers_manifest_def sealed_def planned_id_def bindR_eq_Ok act_simps)
  then show ?thesis
    using t u l(2) m shards by (simp add: put_layers_def Let_def act_simps add_blobs_append)
qed

text \<open>Loading a model: every layer comes back, and every cluster in it.\<close>

lemma loads_law:
  assumes ok: "weight_env_ok E" "weight_crypto_ok W" and W: "ws_store W = bs" "ws_hash_alg W = alg" and H: "we_hashes E = H"
    and V: "\<And>b. valid (compute_blob_id H b alg)" and fin: "list_all finite_cluster clusters"
    and plan: "planned_shard E W org (name, clusters) = Ok (ly, ds)"
    and s: "inv s" "\<And>d. d \<in> set ds \<Longrightarrow> blobs s (compute_blob_id H d alg) = Some d"
  shows "get_layer_shard E W org ly s = (Ok clusters, s) \<and> ly_layer_name ly = name"
proof -
  obtain l where l: "mapR (planned_cluster E W org) clusters = Ok l" "ds = map snd l"
    "ly_cluster_ids ly = map (planned_id E W) (map snd l)" "ly_layer_name ly = name"
    using plan by (auto simp: planned_shard_def bindR_eq_Ok)
  have "mapM (cluster_get E W org) (map (planned_id E W) (map snd l)) s = (Ok clusters, s)"
    if "mapR (planned_cluster E W org) clusters = Ok l" "list_all finite_cluster clusters"
      "\<And>d. d \<in> snd ` set l \<Longrightarrow> blobs s (compute_blob_id H d alg) = Some d" for clusters l
    using that
  proof (induction clusters arbitrary: l)
    case (Cons c cs)
    obtain n d l' where l': "planned_cluster E W org c = Ok (n, d)" "mapR (planned_cluster E W org) cs = Ok l'" "l = (n, d) # l'"
      using Cons.prems(1) by (auto simp: bindR_eq_Ok)
    obtain raw where raw: "to_vec (we_cluster E) c = Ok raw" "sealed E W org raw = Ok d"
      using l'(1) by (auto simp: planned_cluster_def bindR_eq_Ok)
    have "from_slice (we_cluster E) raw = Ok c"
      using ok(1) Cons.prems(2) raw(1) unfolding weight_env_ok_def by force
    moreover have "unpack E W org (compute_blob_id H d alg) s = (Ok raw, s)"
      by (rule unpack_law [OF W(1) H ok s(1) V _ raw(2)]) (use Cons.prems(3) l'(3) in simp)
    ultimately have "cluster_get E W org (planned_id E W d) s = (Ok c, s)"
      using W H by (simp add: cluster_get_def planned_id_def act_simps)
    then show ?case using Cons.IH [OF l'(2)] Cons.prems(2,3) l'(3) by (simp add: act_simps)
  qed simp
  then show ?thesis using l fin s(2) by (simp add: get_layer_shard_def)
qed

lemma layers_round_trip:
  assumes ok: "weight_env_ok E" "weight_crypto_ok W" and W: "ws_store W = bs" "ws_hash_alg W = alg" and H: "we_hashes E = H"
    and V: "\<And>b. valid (compute_blob_id H b alg)" and fin: "list_all (\<lambda>(name, cs). list_all finite_cluster cs) layers"
    and plan: "planned_layers E W org now layers = Ok (m, ds)"
    and s: "inv s" "cas_ok H (blobs s)" "no_collision H alg (blobs s) ds"
  shows "\<exists>t st. put_layers E W org now layers s = (Ok st, t) \<and> inv t \<and> cas_ok H (blobs t)
    \<and> load_layers_manifest E W org (ls_manifest_blob_id st) t = (Ok (ls_manifest st), t)
    \<and> map ly_layer_name (lm_layers (ls_manifest st)) = map fst layers
    \<and> mapM (get_layer_shard E W org) (lm_layers (ls_manifest st)) t = (Ok (map snd layers), t)"
proof -
  obtain t st where t: "put_layers E W org now layers s = (Ok st, t)" "inv t" "blobs t = add_blobs H alg ds (blobs s)"
    "ls_manifest st = m" "ls_manifest_blob_id st = planned_id E W (last ds)"
    using layers_law [OF W H V plan s] by blast
  have have_all: "blobs t (compute_blob_id H d alg) = Some d" if "d \<in> set ds" for d
    using add_blobs_mem [OF s(2,3) that] t(3) by simp
  obtain l raw d where l: "mapR (planned_shard E W org) layers = Ok l" "ds = concat (map snd l) @ [d]"
    and m: "m = \<lparr>lm_origin_id = org, lm_layers = map fst l, lm_created_at = now\<rparr>"
    and d: "to_vec (we_layers E) m = Ok raw" "sealed E W org raw = Ok d"
    using plan by (auto simp: planned_layers_def bindR_eq_Ok Let_def)
  have "from_slice (we_layers E) raw = Ok m"
    using ok(1) d(1) by (auto simp: weight_env_ok_def elim: codec_okE [of _ m])
  moreover have "unpack E W org (compute_blob_id H d alg) t = (Ok raw, t)"
    by (rule unpack_law [OF W(1) H ok t(2) V _ d(2)]) (use have_all l(2) in simp)
  ultimately have load: "load_layers_manifest E W org (planned_id E W d) t = (Ok m, t)"
    using W H by (simp add: load_layers_manifest_def planned_id_def act_simps)
  have all: "map ly_layer_name (map fst l) = map fst layers \<and> mapM (get_layer_shard E W org) (map fst l) t = (Ok (map snd layers), t)"
    if "mapR (planned_shard E W org) layers = Ok l" "list_all (\<lambda>(name, cs). list_all finite_cluster cs) layers"
      "set (concat (map snd l)) \<subseteq> set ds" for layers l
    using that
  proof (induction layers arbitrary: l)
    case (Cons x layers)
    obtain ly ds' l' where l': "planned_shard E W org (fst x, snd x) = Ok (ly, ds')" "mapR (planned_shard E W org) layers = Ok l'"
      "l = (ly, ds') # l'"
      using Cons.prems(1) by (auto simp: bindR_eq_Ok)
    have "get_layer_shard E W org ly t = (Ok (snd x), t) \<and> ly_layer_name ly = fst x"
      by (rule loads_law [OF ok W H V _ l'(1) t(2)]) (use Cons.prems(2,3) l'(3) have_all in auto)
    then show ?case using Cons.IH [OF l'(2)] Cons.prems(2,3) l'(3) by (simp add: act_simps)
  qed simp
  have "set (concat (map snd l)) \<subseteq> set ds" by (auto simp: l(2))
  then show ?thesis
    using all [OF l(1) fin] t load l(2) m cas_ok_add [OF s(2)] by simp
qed

end


section \<open>An environment for examples\<close>

text \<open>Compression by the identity, and the reversible codecs of the library.\<close>

definition demo_cluster_codec :: "weight_cluster codec" where
  "demo_cluster_codec = codec_of
     (map_enc (\<lambda>c. (case wc_cluster_id c of None \<Rightarrow> [] | Some b \<Rightarrow> [b], wc_centroid c, wc_member_token_ids c, wc_offsets c, wc_dim c))
       (pair_enc (list_enc text_enc) (pair_enc (list_enc word_enc) (pair_enc (list_enc word_enc)
         (pair_enc (list_enc (list_enc word_enc)) word_enc)))))
     (map_dec (\<lambda>(b, xs, ts, os, n). \<lparr>wc_cluster_id = (case b of [] \<Rightarrow> None | a # _ \<Rightarrow> Some a), wc_centroid = xs,
         wc_member_token_ids = ts, wc_offsets = os, wc_dim = n\<rparr>)
       (pair_dec (list_dec text_dec) (pair_dec (list_dec word_dec) (pair_dec (list_dec word_dec)
         (pair_dec (list_dec (list_dec word_dec)) word_dec)))))"

definition demo_layers_codec :: "layers_manifest codec" where
  "demo_layers_codec = codec_of
     (map_enc (\<lambda>m. (lm_origin_id m, map (\<lambda>l. (ly_layer_name l, ly_cluster_ids l, ly_total_clusters l, ly_total_raw_bytes l,
           ly_total_stored_bytes l)) (lm_layers m), lm_created_at m < 0, nat (abs (lm_created_at m))))
       (pair_enc word_enc (pair_enc (list_enc (pair_enc text_enc (pair_enc (list_enc text_enc) (pair_enc nat_enc
         (pair_enc nat_enc nat_enc))))) (pair_enc (map_enc of_bool nat_enc) nat_enc))))
     (map_dec (\<lambda>(og, ls, neg, n). \<lparr>lm_origin_id = og, lm_layers = map (\<lambda>(a, b, c, d, e). \<lparr>ly_layer_name = a, ly_cluster_ids = b,
           ly_total_clusters = c, ly_total_raw_bytes = d, ly_total_stored_bytes = e\<rparr>) ls,
         lm_created_at = (if neg then - int n else int n)\<rparr>)
       (pair_dec word_dec (pair_dec (list_dec (pair_dec text_dec (pair_dec (list_dec text_dec) (pair_dec nat_dec
         (pair_dec nat_dec nat_dec))))) (pair_dec (map_dec (\<lambda>n. n = 1) nat_dec) nat_dec))))"

definition demo_weights :: weight_env where
  "demo_weights = \<lparr>we_hashes = demo_hashes, we_cluster = demo_cluster_codec, we_layers = demo_layers_codec,
     we_compress = (\<lambda>_. Ok), we_decompress = Ok\<rparr>"

lemma demo_weights_ok: "weight_env_ok demo_weights"
proof -
  have b: "rev_code (map_enc of_bool nat_enc) (map_dec (\<lambda>n. n = 1) nat_dec)" by (rule map_code [OF nat_code]) simp
  have "codec_ok demo_cluster_codec"
    unfolding demo_cluster_codec_def
    by (rule codec_of_ok, rule map_code, intro pair_code list_code word_code text_code) (simp split: option.split)
  moreover have "codec_ok demo_layers_codec"
    unfolding demo_layers_codec_def
    by (rule codec_of_ok, rule map_code, intro pair_code list_code word_code text_code nat_code b) (simp add: comp_def map_idI)
  ultimately show ?thesis by (simp add: weight_env_ok_def demo_weights_def codec_ok_def)
qed

text \<open>C24: A model export can be loaded again. On the file-system store, storing a model layer by layer
  and loading its manifest gives the manifest back, and loading the shards it lists gives, layer by
  layer and in order, exactly the clusters that were stored, whether or not some of them were
  present already, compressed and encrypted on the way. The clusters hold finite floats.\<close>

theorem model_layers_round_trip:
  assumes "weight_env_ok E" and "weight_crypto_ok W" and "ws_store W = fs_blob_store root" and "hash_ok (we_hashes E)"
    and "list_all (\<lambda>(name, cs). list_all finite_cluster cs) layers"
    and "planned_layers E W org now layers = Ok (m, ds)"
    and "fs_store_inv root s" and "cas_ok (we_hashes E) (fs_blobs root s)"
    and "no_collision (we_hashes E) (ws_hash_alg W) (fs_blobs root s) ds"
  shows "\<exists>t st. put_layers E W org now layers s = (Ok st, t)
    \<and> load_layers_manifest E W org (ls_manifest_blob_id st) t = (Ok (ls_manifest st), t)
    \<and> map ly_layer_name (lm_layers (ls_manifest st)) = map fst layers
    \<and> mapM (get_layer_shard E W org) (lm_layers (ls_manifest st)) t = (Ok (map snd layers), t)"
  using fs_cas.layers_round_trip [OF assms(1-3) refl refl _ assms(5-9)] hash_ok_good [OF assms(4)] by blast

theorem model_layers_round_trip_witness:
  "\<exists>t st. put_layers demo_weights (weight_store_new (fs_blob_store [''blobs'']) (Some (xor_crypto 7)) Blake3) 5 1
       [(''layer.0'', [\<lparr>wc_cluster_id = None, wc_centroid = [0], wc_member_token_ids = [7], wc_offsets = [[0]], wc_dim = 1\<rparr>])] demo_fs = (Ok st, t)
    \<and> load_layers_manifest demo_weights (weight_store_new (fs_blob_store [''blobs'']) (Some (xor_crypto 7)) Blake3) 5
        (ls_manifest_blob_id st) t = (Ok (ls_manifest st), t)"
proof -
  let ?W = "weight_store_new (fs_blob_store [''blobs'']) (Some (xor_crypto 7)) Blake3"
  let ?layers = "[(''layer.0'', [\<lparr>wc_cluster_id = None, wc_centroid = [0], wc_member_token_ids = [7], wc_offsets = [[0]], wc_dim = 1\<rparr>])]"
  have "\<exists>m ds. planned_layers demo_weights ?W 5 1 ?layers = Ok (m, ds)"
    by (simp add: planned_layers_def planned_shard_def planned_cluster_def sealed_def demo_weights_def demo_cluster_codec_def
        demo_layers_codec_def codec_of_def weight_store_new_def encrypt_opt_def xor_crypto_def xor_encrypt_def Let_def)
  then obtain m ds where plan: "planned_layers demo_weights ?W 5 1 ?layers = Ok (m, ds)" by blast
  have "weight_crypto_ok ?W" using xor_provider.provider_ok by (simp add: weight_crypto_ok_def weight_store_new_def)
  moreover have "list_all (\<lambda>(name, cs). list_all finite_cluster cs) ?layers" by (simp add: finite_cluster_def f32_finite_def)
  ultimately show ?thesis
    using model_layers_round_trip [OF demo_weights_ok _ _ _ _ plan demo_fs_inv] demo_hash_ok demo_no_collision
    by (fastforce simp: weight_store_new_def demo_weights_def cas_ok_def demo_vacant)
qed

end
