(* ===== verification/Sodl_WeightCache.thy ===== *)
theory Sodl_WeightCache
  imports Sodl_Weights "HOL-Library.Product_Lexorder"
begin

text \<open>
  The rest of \<open>crates/sodl-store/src/weight_store.rs\<close>: the counter of gradients that finds prune
  candidates, and the registry of pinned clusters, a cache with eviction by use count and then by
  time. Readings of the monotonic clock are arguments. Counters stay below the range of their
  machine integers and are naturals.
\<close>

section \<open>GradientRefCounter\<close>

record gradient_counter =
  gr_zero_streaks :: "(string, nat) hmap"
  gr_update_counts :: "(string, nat) hmap"
  gr_prune_after :: nat

definition gradient_new :: "nat \<Rightarrow> gradient_counter" where
  "gradient_new n = \<lparr>gr_zero_streaks = [], gr_update_counts = [], gr_prune_after = max n 1\<rparr>"

definition zero_streak :: "cluster_id \<Rightarrow> gradient_counter \<Rightarrow> nat" where
  "zero_streak c g = (case hget (gr_zero_streaks g) c of None \<Rightarrow> 0 | Some n \<Rightarrow> n)"

definition update_count :: "cluster_id \<Rightarrow> gradient_counter \<Rightarrow> nat" where
  "update_count c g = (case hget (gr_update_counts g) c of None \<Rightarrow> 0 | Some n \<Rightarrow> n)"

fun observe_clusters :: "cluster_id set \<Rightarrow> cluster_id list \<Rightarrow> gradient_counter \<Rightarrow> cluster_id list \<times> gradient_counter" where
  "observe_clusters active [] g = ([], g)"
| "observe_clusters active (c # cs) g =
     (if c \<in> active then observe_clusters active cs
        (g\<lparr>gr_zero_streaks := hput c 0 (gr_zero_streaks g), gr_update_counts := hentry c 0 Suc (gr_update_counts g)\<rparr>)
      else let g' = g\<lparr>gr_zero_streaks := hentry c 0 Suc (gr_zero_streaks g)\<rparr>;
               (prune, h) = observe_clusters active cs g'
           in ((if gr_prune_after g \<le> zero_streak c g' then c # prune else prune), h))"

definition observe_batch :: "cluster_id list \<Rightarrow> cluster_id list \<Rightarrow> (gradient_counter, cluster_id list) op" where
  "observe_batch tracked active g =
     (case observe_clusters (set active) tracked g of (prune, g') \<Rightarrow> (Ok prune, g'))"


section \<open>WeightPinRegistry\<close>

record pinned_entry =
  pe_cluster :: weight_cluster
  pe_reason :: weight_pin_reason
  pe_last_accessed :: int

record pin_registry =
  wr_entries :: "(string, pinned_entry) hmap"
  wr_access_counts :: "(string, nat) hmap"
  wr_max_entries :: nat

definition registry_new :: "nat \<Rightarrow> pin_registry" where
  "registry_new n = \<lparr>wr_entries = [], wr_access_counts = [], wr_max_entries = n\<rparr>"

fun evictable :: "weight_pin_reason \<Rightarrow> bool" where
  "evictable Identity = False"
| "evictable Logic = False"
| "evictable FrequentUse = True"
| "evictable Prefetch = True"

definition wr_refcount :: "cluster_id \<Rightarrow> pin_registry \<Rightarrow> nat" where
  "wr_refcount c r = (case hget (wr_access_counts r) c of None \<Rightarrow> 0 | Some n \<Rightarrow> n)"

definition evict_candidates :: "pin_registry \<Rightarrow> string list" where
  "evict_candidates r = map fst (sort_key (\<lambda>(k, e). (wr_refcount k r, pe_last_accessed e))
     (filter (\<lambda>(k, e). evictable (pe_reason e)) (wr_entries r)))"

definition maybe_evict :: "(pin_registry, unit) op" where
  "maybe_evict = modifyM (\<lambda>r.
     let len = length (wr_entries r) in
     if len < wr_max_entries r then r
     else r\<lparr>wr_entries := fold hdel (take (len - wr_max_entries r + 1) (evict_candidates r)) (wr_entries r)\<rparr>)"

definition wr_pin :: "int \<Rightarrow> cluster_id \<Rightarrow> weight_cluster \<Rightarrow> weight_pin_reason \<Rightarrow> (pin_registry, unit) op" where
  "wr_pin now cid c reason = seqM maybe_evict (modifyM (\<lambda>r.
     r\<lparr>wr_entries := hput cid \<lparr>pe_cluster = c, pe_reason = reason, pe_last_accessed = now\<rparr> (wr_entries r),
       wr_access_counts := hentry cid 0 Suc (wr_access_counts r)\<rparr>))"

definition wr_get :: "int \<Rightarrow> cluster_id \<Rightarrow> (pin_registry, weight_cluster option) op" where
  "wr_get now cid r =
     (let r' = r\<lparr>wr_access_counts := hentry cid 0 Suc (wr_access_counts r)\<rparr> in
      case hget (wr_entries r') cid of
        None \<Rightarrow> (Ok None, r')
      | Some e \<Rightarrow> (Ok (Some (pe_cluster e)),
          r'\<lparr>wr_entries := hput cid (e\<lparr>pe_last_accessed := now\<rparr>) (wr_entries r')\<rparr>))"

definition wr_is_pinned :: "cluster_id \<Rightarrow> (pin_registry, bool) op" where
  "wr_is_pinned cid = readM (\<lambda>r. Ok (hhas (wr_entries r) cid))"

definition wr_len :: "(pin_registry, nat) op" where
  "wr_len = readM (\<lambda>r. Ok (length (wr_entries r)))"

definition wr_is_empty :: "(pin_registry, bool) op" where
  "wr_is_empty = readM (\<lambda>r. Ok (wr_entries r = []))"

definition wr_unpin :: "cluster_id \<Rightarrow> (pin_registry, bool) op" where
  "wr_unpin cid r =
     (case hget (wr_entries r) cid of
        Some e \<Rightarrow> if evictable (pe_reason e) then (Ok True, r\<lparr>wr_entries := hdel cid (wr_entries r)\<rparr>)
          else (Err (WeightStoreErr ''cannot unpin identity- or logic-pinned cluster''), r)
      | None \<Rightarrow> (Ok False, r))"


section \<open>Pruning\<close>

text \<open>The number of the latest batches, of those that track the cluster, in which it was inactive;
  a history lists the newest batch first.\<close>

fun streak_of :: "(cluster_id list \<times> cluster_id list) list \<Rightarrow> cluster_id \<Rightarrow> nat" where
  "streak_of [] c = 0"
| "streak_of ((tracked, active) # h) c =
     (if c \<notin> set tracked then streak_of h c else if c \<in> set active then 0 else Suc (streak_of h c))"

fun observed :: "nat \<Rightarrow> (cluster_id list \<times> cluster_id list) list \<Rightarrow> gradient_counter" where
  "observed n [] = gradient_new n"
| "observed n ((tracked, active) # h) = snd (observe_batch tracked active (observed n h))"

lemma zero_streak_steps:
  "zero_streak c (g\<lparr>gr_zero_streaks := hput k 0 (gr_zero_streaks g), gr_update_counts := u\<rparr>) = (if c = k then 0 else zero_streak c g)"
  "zero_streak c (g\<lparr>gr_zero_streaks := hentry k 0 Suc (gr_zero_streaks g)\<rparr>)
     = (if c = k then Suc (zero_streak c g) else zero_streak c g)"
  by (auto simp: zero_streak_def split: option.splits)

lemma observe_active:
  "c \<in> A \<Longrightarrow> observe_clusters A (c # cs) g = observe_clusters A cs
     (g\<lparr>gr_zero_streaks := hput c 0 (gr_zero_streaks g), gr_update_counts := hentry c 0 Suc (gr_update_counts g)\<rparr>)"
  by simp

lemma observe_inactive:
  "c \<notin> A \<Longrightarrow> observe_clusters A (c # cs) g =
     (let h = observe_clusters A cs (g\<lparr>gr_zero_streaks := hentry c 0 Suc (gr_zero_streaks g)\<rparr>) in
      ((if gr_prune_after g \<le> Suc (zero_streak c g) then [c] else []) @ fst h, snd h))"
  by (simp add: Let_def split_def zero_streak_steps)

lemma observe_clusters_spec:
  "distinct cs \<Longrightarrow> zero_streak c (snd (observe_clusters A cs g)) =
      (if c \<notin> set cs then zero_streak c g else if c \<in> A then 0 else Suc (zero_streak c g))"
  "gr_prune_after (snd (observe_clusters A cs g)) = gr_prune_after g"
  "distinct cs \<Longrightarrow> fst (observe_clusters A cs g) = filter (\<lambda>x. x \<notin> A \<and> gr_prune_after g \<le> Suc (zero_streak x g)) cs"
proof (induction cs arbitrary: g)
  case (Cons x cs)
  {
    case 1
    then show ?case using Cons.IH(1) by (cases "x \<in> A") (auto simp: observe_active observe_inactive Let_def zero_streak_steps simp del: observe_clusters.simps(2))
  next
    case 2
    then show ?case using Cons.IH(2) by (cases "x \<in> A") (simp_all add: observe_active observe_inactive Let_def del: observe_clusters.simps(2))
  next
    case 3
    then show ?case using Cons.IH(3)
      by (cases "x \<in> A") (auto simp: observe_active observe_inactive Let_def zero_streak_steps simp del: observe_clusters.simps(2) intro!: filter_cong)
  }
qed simp_all

text \<open>C34: Pruning is exact. After any history of training batches a cluster of the newest batch is
  a prune candidate exactly if it was inactive in it and in all of the latest batches that tracked
  it, at least the configured number of them (at least one); an active batch starts over, and a
  batch that does not track the cluster does not count.\<close>

theorem gradient_prunes_exactly:
  assumes "\<forall>b \<in> set ((tracked, active) # h). distinct (fst b)"
  shows "fst (observe_batch tracked active (observed n h))
      = Ok (filter (\<lambda>c. c \<notin> set active \<and> max n 1 \<le> streak_of ((tracked, active) # h) c) tracked)
    \<and> zero_streak c (observed n ((tracked, active) # h)) = streak_of ((tracked, active) # h) c"
proof -
  have inv: "gr_prune_after (observed n h) = max n 1 \<and> (\<forall>c. zero_streak c (observed n h) = streak_of h c)"
    if "\<forall>b \<in> set h. distinct (fst b)" for h
    using that
  proof (induction h)
    case Nil
    then show ?case by (simp add: gradient_new_def zero_streak_def)
  next
    case (Cons b h)
    obtain tr ac where b: "b = (tr, ac)" by force
    then show ?case
      using Cons observe_clusters_spec [where cs = tr and A = "set ac" and g = "observed n h"]
      by (auto simp: observe_batch_def split: prod.splits)
  qed
  have "distinct tracked" "\<forall>b \<in> set h. distinct (fst b)" using assms by auto
  then show ?thesis
    using inv [of h] observe_clusters_spec [where cs = tracked and A = "set active" and g = "observed n h"]
    by (auto simp: observe_batch_def split: prod.splits intro!: filter_cong)
qed

theorem gradient_prunes_exactly_witness:
  "fst (observe_batch [''a'', ''b''] [''b''] (observed 2 [([''a'', ''b''], [''b''])])) = Ok [''a'']"
  using gradient_prunes_exactly [of "[''a'', ''b'']" "[''b'']" "[([''a'', ''b''], [''b''])]" 2] by simp


section \<open>The pin registry\<close>

definition protected_entries :: "pin_registry \<Rightarrow> (string \<times> pinned_entry) list" where
  "protected_entries r = filter (\<lambda>(k, e). \<not> evictable (pe_reason e)) (wr_entries r)"

definition registry_ok :: "pin_registry \<Rightarrow> bool" where
  "registry_ok r \<longleftrightarrow> hwf (wr_entries r)
     \<and> length (wr_entries r) \<le> max (wr_max_entries r) (length (protected_entries r) + 1)"

lemma fold_hdel_filter: "hwf m \<Longrightarrow> fold hdel ks m = filter (\<lambda>(k, v). k \<notin> set ks) m"
proof (induction ks arbitrary: m)
  case (Cons k ks)
  have "hdel k m = filter (\<lambda>(j, v). j \<noteq> k) m" by (auto simp: hdel_def AList.delete_eq intro: filter_cong)
  moreover have "hwf (hdel k m)" using Cons.prems by simp
  ultimately show ?case using Cons.IH [of "hdel k m"] by (auto intro: filter_cong)
qed (simp add: filter_id_conv split_def)

lemma evict_candidates_mem:
  "set (evict_candidates r) = fst ` {(k, e) \<in> set (wr_entries r). evictable (pe_reason e)}"
  by (auto simp: evict_candidates_def image_iff)

lemma evict_candidates_length: "length (evict_candidates r) = length (wr_entries r) - length (protected_entries r)"
proof -
  have "length (filter (\<lambda>(k, e). evictable (pe_reason e)) l) + length (filter (\<lambda>(k, e). \<not> evictable (pe_reason e)) l) = length l"
    for l :: "(string \<times> pinned_entry) list" by (induction l) auto
  from this [of "wr_entries r"] show ?thesis by (simp add: evict_candidates_def protected_entries_def)
qed

lemma evict_effect:
  assumes "hwf (wr_entries r)"
  shows "hwf (wr_entries (snd (maybe_evict r)))" "wr_max_entries (snd (maybe_evict r)) = wr_max_entries r"
    "protected_entries (snd (maybe_evict r)) = protected_entries r"
    "length (wr_entries (snd (maybe_evict r))) < max (wr_max_entries r) (length (protected_entries r) + 1)"
    "\<exists>P. wr_entries (snd (maybe_evict r)) = filter P (wr_entries r)"
proof -
  let ?len = "length (wr_entries r)" and ?cs = "evict_candidates r"
  define V where "V = (if ?len < wr_max_entries r then [] else take (?len - wr_max_entries r + 1) ?cs)"
  let ?P = "\<lambda>(k, e :: pinned_entry). k \<notin> set V"
  have e: "wr_entries (snd (maybe_evict r)) = filter ?P (wr_entries r)"
    unfolding fold_hdel_filter [OF assms, symmetric] by (simp add: maybe_evict_def Let_def V_def)
  then show "\<exists>P. wr_entries (snd (maybe_evict r)) = filter P (wr_entries r)" by blast
  show "hwf (wr_entries (snd (maybe_evict r)))" using assms unfolding e by (simp add: hwf_def distinct_map_filter)
  show m: "wr_max_entries (snd (maybe_evict r)) = wr_max_entries r" by (simp add: maybe_evict_def Let_def)
  have sub: "set V \<subseteq> set ?cs" using set_take_subset [of "?len - wr_max_entries r + 1" ?cs] by (simp add: V_def)
  have prot: "k \<notin> set ?cs" if "(k, x) \<in> set (wr_entries r)" "\<not> evictable (pe_reason x)" for k x
  proof
    assume "k \<in> set ?cs"
    then obtain e where "(k, e) \<in> set (wr_entries r)" "evictable (pe_reason e)" by (auto simp: evict_candidates_mem)
    then show False using that mem_hget [OF assms, of k e] mem_hget [OF assms, of k x] by simp
  qed
  then show pe: "protected_entries (snd (maybe_evict r)) = protected_entries r"
    unfolding protected_entries_def e filter_filter using sub by (intro filter_cong) auto
  have dist: "distinct ?cs"
    using assms by (simp add: evict_candidates_def hwf_def distinct_map inj_on_def split_def)
  have gone: "length (filter (\<lambda>x. \<not> ?P x) (wr_entries r)) = length V"
  proof -
    have d: "distinct (map fst (filter (\<lambda>x. \<not> ?P x) (wr_entries r)))" using assms by (simp add: hwf_def distinct_map_filter)
    have "set (map fst (filter (\<lambda>x. \<not> ?P x) (wr_entries r))) = set V"
      using sub by (force simp: evict_candidates_mem)
    moreover have "distinct V" using dist by (simp add: V_def)
    ultimately show ?thesis by (metis d distinct_card length_map)
  qed
  have "length (filter ?P (wr_entries r)) + length (filter (\<lambda>x. \<not> ?P x) (wr_entries r)) = ?len"
    by (rule sum_length_filter_compl)
  then have len: "length (filter ?P (wr_entries r)) = ?len - length V" using gone by simp
  have "length (protected_entries r) \<le> ?len" by (simp add: protected_entries_def)
  then show "length (wr_entries (snd (maybe_evict r))) < max (wr_max_entries r) (length (protected_entries r) + 1)"
    unfolding e len using evict_candidates_length [of r] by (auto simp: V_def max_def min_def)
qed

lemma hput_absent: "hget m k = None \<Longrightarrow> hput k v m = m @ [(k, v)]"
  unfolding hget_def hput_def by (induction m) (auto split: if_splits)

lemma hput_filter_length:
  "hget m k = Some u \<Longrightarrow>
    length (filter Q (hput k v m)) + (if Q (k, u) then 1 else 0) = length (filter Q m) + (if Q (k, v) then 1 else 0)"
  unfolding hget_def hput_def by (induction m) (auto split: if_splits)

lemma hput_length: "hget m k = Some u \<Longrightarrow> length (hput k v m) = length m"
  using hput_filter_length [of m k u "\<lambda>_. True" v] by simp

lemma registry_put:
  assumes "hwf m" and "length m < max n (length (filter Q m) + 1)"
  shows "length (hput k v m) \<le> max n (length (filter Q (hput k v m)) + 1)"
proof (cases "hget m k")
  case None
  then show ?thesis using assms(2) by (auto simp: hput_absent)
next
  case (Some u)
  then show ?thesis using assms(2) hput_filter_length [OF Some, of Q v] hput_length [OF Some, of v] by (auto split: if_splits)
qed

lemma registry_ok_pin:
  assumes "registry_ok r"
  shows "registry_ok (snd (wr_pin now cid c reason r))" "wr_max_entries (snd (wr_pin now cid c reason r)) = wr_max_entries r"
proof -
  have wf: "hwf (wr_entries r)" using assms by (simp add: registry_ok_def)
  obtain r' where r': "maybe_evict r = (Ok (), r')" by (simp add: maybe_evict_def)
  then have run: "wr_pin now cid c reason r = (Ok (), r'\<lparr>wr_entries := hput cid \<lparr>pe_cluster = c, pe_reason = reason,
       pe_last_accessed = now\<rparr> (wr_entries r'), wr_access_counts := hentry cid 0 Suc (wr_access_counts r')\<rparr>)"
    by (simp add: wr_pin_def act_simps)
  note ev = evict_effect [OF wf, unfolded r' snd_conv]
  show "wr_max_entries (snd (wr_pin now cid c reason r)) = wr_max_entries r" using run ev(2) by simp
  have "length (wr_entries r') < max (wr_max_entries r) (length (filter (\<lambda>(k, e). \<not> evictable (pe_reason e)) (wr_entries r')) + 1)"
    using ev(3,4) by (simp add: protected_entries_def)
  from registry_put [OF ev(1) this] show "registry_ok (snd (wr_pin now cid c reason r))"
    using run ev(1,2) by (simp add: registry_ok_def protected_entries_def)
qed

lemma registry_ok_get:
  assumes "registry_ok r"
  shows "registry_ok (snd (wr_get now cid r))" "wr_max_entries (snd (wr_get now cid r)) = wr_max_entries r"
proof -
  have "registry_ok (snd (wr_get now cid r)) \<and> wr_max_entries (snd (wr_get now cid r)) = wr_max_entries r"
  proof (cases "hget (wr_entries r) cid")
    case None
    then show ?thesis using assms by (simp add: wr_get_def Let_def registry_ok_def protected_entries_def)
  next
    case (Some e)
    then show ?thesis
      using assms hput_length [OF Some, of "e\<lparr>pe_last_accessed := now\<rparr>"]
        hput_filter_length [OF Some, of "\<lambda>(k, e). \<not> evictable (pe_reason e)" "e\<lparr>pe_last_accessed := now\<rparr>"]
      by (auto simp: wr_get_def Let_def registry_ok_def protected_entries_def split: if_splits)
  qed
  then show "registry_ok (snd (wr_get now cid r))" "wr_max_entries (snd (wr_get now cid r)) = wr_max_entries r" by simp_all
qed

lemma registry_ok_unpin:
  assumes "registry_ok r"
  shows "registry_ok (snd (wr_unpin cid r))" "wr_max_entries (snd (wr_unpin cid r)) = wr_max_entries r"
proof -
  have wf: "hwf (wr_entries r)" using assms by (simp add: registry_ok_def)
  have "protected_entries (r\<lparr>wr_entries := hdel cid (wr_entries r)\<rparr>) = protected_entries r"
    if "hget (wr_entries r) cid = Some e" "evictable (pe_reason e)" for e
    using that fold_hdel_filter [OF wf, of "[cid]"] mem_hget [OF wf]
    by (fastforce simp: protected_entries_def intro!: filter_cong)
  moreover have "length (hdel cid (wr_entries r)) \<le> length (wr_entries r)"
    using fold_hdel_filter [OF wf, of "[cid]"] by simp
  ultimately show "registry_ok (snd (wr_unpin cid r))" "wr_max_entries (snd (wr_unpin cid r)) = wr_max_entries r"
    using assms by (auto simp: wr_unpin_def registry_ok_def split: option.split)
qed

inductive registry_reachable :: "nat \<Rightarrow> pin_registry \<Rightarrow> bool" for n where
  reach_new: "registry_reachable n (registry_new n)"
| reach_pin: "registry_reachable n r \<Longrightarrow> registry_reachable n (snd (wr_pin now cid c reason r))"
| reach_get: "registry_reachable n r \<Longrightarrow> registry_reachable n (snd (wr_get now cid r))"
| reach_unpin: "registry_reachable n r \<Longrightarrow> registry_reachable n (snd (wr_unpin cid r))"

lemma reachable_ok: "registry_reachable n r \<Longrightarrow> registry_ok r \<and> wr_max_entries r = n"
proof (induction rule: registry_reachable.induct)
  case reach_new
  then show ?case by (simp add: registry_ok_def registry_new_def)
next
  case (reach_pin r now cid c reason)
  then show ?case using registry_ok_pin by simp
next
  case (reach_get r now cid)
  then show ?case using registry_ok_get by simp
next
  case (reach_unpin r cid)
  then show ?case using registry_ok_unpin by simp
qed

definition evict_rank :: "pin_registry \<Rightarrow> string \<Rightarrow> pinned_entry \<Rightarrow> nat \<times> int" where
  "evict_rank r k e = (wr_refcount k r, pe_last_accessed e)"

lemma sorted_take_drop: "sorted (map f xs) \<Longrightarrow> x \<in> set (take n xs) \<Longrightarrow> y \<in> set (drop n xs) \<Longrightarrow> f x \<le> f y"
  using sorted_append [of "map f (take n xs)" "map f (drop n xs)"] by (auto simp flip: map_append)

lemma evict_order:
  assumes wf: "hwf (wr_entries r)" and gone: "hget (wr_entries r) k = Some e" "hget (wr_entries (snd (maybe_evict r))) k = None"
    and kept: "hget (wr_entries r) k' = Some e'" "hget (wr_entries (snd (maybe_evict r))) k' \<noteq> None"
  shows "evictable (pe_reason e) \<and> (evictable (pe_reason e') \<longrightarrow> evict_rank r k e \<le> evict_rank r k' e')"
proof -
  define n where "n = length (wr_entries r) - wr_max_entries r + 1"
  define S where "S = sort_key (\<lambda>(k, e). evict_rank r k e) (filter (\<lambda>(k, e). evictable (pe_reason e)) (wr_entries r))"
  have cands: "evict_candidates r = map fst S" by (simp add: evict_candidates_def S_def evict_rank_def)
  have full: "\<not> length (wr_entries r) < wr_max_entries r" using gone by (auto simp: maybe_evict_def Let_def)
  then have ent: "wr_entries (snd (maybe_evict r)) = filter (\<lambda>(j, v). j \<notin> set (take n (map fst S))) (wr_entries r)"
    using fold_hdel_filter [OF wf] by (simp add: maybe_evict_def Let_def cands n_def)
  have wf': "hwf (wr_entries (snd (maybe_evict r)))" by (rule evict_effect(1) [OF wf])
  have in_victims: "hget (wr_entries (snd (maybe_evict r))) j = None \<longleftrightarrow> j \<in> set (take n (map fst S))"
    if "hget (wr_entries r) j = Some v" for j v
  proof
    assume none: "hget (wr_entries (snd (maybe_evict r))) j = None"
    show "j \<in> set (take n (map fst S))"
    proof (rule ccontr)
      assume "j \<notin> set (take n (map fst S))"
      then have "(j, v) \<in> set (wr_entries (snd (maybe_evict r)))" using hget_mem [OF that] ent by simp
      then show False using mem_hget [OF wf'] none by force
    qed
  next
    assume "j \<in> set (take n (map fst S))"
    then have "(j, w) \<notin> set (wr_entries (snd (maybe_evict r)))" for w using ent by simp
    then show "hget (wr_entries (snd (maybe_evict r))) j = None" using hget_mem by (metis not_Some_eq)
  qed
  have S: "(j, v) \<in> set S \<longleftrightarrow> hget (wr_entries r) j = Some v \<and> evictable (pe_reason v)" for j v
    using hget_mem [of "wr_entries r" j v] mem_hget [OF wf, of j v] by (auto simp: S_def)
  have "k \<in> set (take n (map fst S))" using in_victims [OF gone(1)] gone(2) by simp
  then obtain e1 where e1: "(k, e1) \<in> set (take n S)" by (auto simp: take_map)
  then have "(k, e1) \<in> set S" by (rule in_set_takeD)
  then have e: "e1 = e" "evictable (pe_reason e)" using S gone(1) by auto
  have "evict_rank r k e \<le> evict_rank r k' e'" if ev: "evictable (pe_reason e')"
  proof -
    have "(k', e') \<in> set S" using S kept(1) ev by simp
    moreover have "(k', e') \<notin> set (take n S)" using in_victims [OF kept(1)] kept(2) by (force simp: take_map)
    ultimately have "(k', e') \<in> set (drop n S)" by (metis Un_iff append_take_drop_id set_append)
    from sorted_take_drop [OF _ e1 this, of "\<lambda>(k, e). evict_rank r k e"] show ?thesis by (simp add: S_def e(1))
  qed
  then show ?thesis using e(2) by blast
qed

text \<open>The cache of pinned clusters is bounded and evicts fairly. In every state reached by pins,
  reads and unpins it holds at most its capacity, or one more than the clusters pinned as identity
  or logic if those exceed it; a pin evicts no identity or logic cluster, and evicts none that was
  used more often, or as often but later, than an evictable cluster it keeps.\<close>

theorem pin_cache_bounded:
  assumes "registry_reachable n r" and r'_def: "r' = snd (wr_pin now cid c reason r)"
  shows "length (wr_entries r) \<le> max n (length (protected_entries r) + 1)
    \<and> (hget (wr_entries r) k = Some e \<and> hget (wr_entries r') k = None
        \<and> hget (wr_entries r) k' = Some e' \<and> k' \<noteq> cid \<and> hget (wr_entries r') k' \<noteq> None
      \<longrightarrow> evictable (pe_reason e) \<and> (evictable (pe_reason e') \<longrightarrow> evict_rank r k e \<le> evict_rank r k' e'))"
proof
  have ok: "registry_ok r" "wr_max_entries r = n" using reachable_ok [OF assms(1)] by simp_all
  then show "length (wr_entries r) \<le> max n (length (protected_entries r) + 1)" by (simp add: registry_ok_def)
  have ent: "wr_entries r' = hput cid \<lparr>pe_cluster = c, pe_reason = reason, pe_last_accessed = now\<rparr> (wr_entries (snd (maybe_evict r)))"
    by (simp add: r'_def wr_pin_def maybe_evict_def act_simps)
  have wf: "hwf (wr_entries r)" using ok(1) by (simp add: registry_ok_def)
  show "hget (wr_entries r) k = Some e \<and> hget (wr_entries r') k = None
      \<and> hget (wr_entries r) k' = Some e' \<and> k' \<noteq> cid \<and> hget (wr_entries r') k' \<noteq> None
    \<longrightarrow> evictable (pe_reason e) \<and> (evictable (pe_reason e') \<longrightarrow> evict_rank r k e \<le> evict_rank r k' e')"
    using evict_order [OF wf, of k e k' e'] by (auto simp: ent split: if_splits)
qed

definition demo_cluster :: "f32 \<Rightarrow> weight_cluster" where
  "demo_cluster x = \<lparr>wc_cluster_id = None, wc_centroid = [x], wc_member_token_ids = [7], wc_offsets = [[0]], wc_dim = 1\<rparr>"

definition demo_registry :: pin_registry where
  "demo_registry = snd (wr_pin 2 ''b'' (demo_cluster 1) Prefetch (snd (wr_pin 1 ''a'' (demo_cluster 0) Identity (registry_new 2))))"

theorem pin_cache_bounded_witness:
  "length (wr_entries demo_registry) \<le> max 2 (length (protected_entries demo_registry) + 1)
   \<and> hget (wr_entries (snd (wr_pin 3 ''c'' (demo_cluster 2) Prefetch demo_registry))) ''b'' = None
   \<and> evictable Prefetch"
proof -
  have r: "registry_reachable 2 demo_registry"
    unfolding demo_registry_def by (intro reach_pin reach_new)
  have "hget (wr_entries (snd (wr_pin 3 ''c'' (demo_cluster 2) Prefetch demo_registry))) ''b'' = None
      \<and> hget (wr_entries (snd (wr_pin 3 ''c'' (demo_cluster 2) Prefetch demo_registry))) ''a'' \<noteq> None
      \<and> hget (wr_entries demo_registry) ''b'' = Some \<lparr>pe_cluster = demo_cluster 1, pe_reason = Prefetch, pe_last_accessed = 2\<rparr>
      \<and> hget (wr_entries demo_registry) ''a'' = Some \<lparr>pe_cluster = demo_cluster 0, pe_reason = Identity, pe_last_accessed = 1\<rparr>"
    by code_simp
  then show ?thesis
    using pin_cache_bounded [OF r refl, of "''b''" _ 3 "''c''" "demo_cluster 2" Prefetch "''a''"] by auto
qed

end
