(* ===== verification/Sodl_WeightService.thy ===== *)
theory Sodl_WeightService
  imports Sodl_WeightCache
begin

text \<open>
  \<open>WeightStoreService\<close>, \<open>crates/sodl-service/src/weight_service.rs\<close>: the weight store, the cache
  of pinned clusters and the registry of models behind one facade. UUIDs and clock readings are
  arguments.
\<close>

section \<open>The registry of models\<close>

record weight_origin =
  wo_origin_id :: origin_id
  wo_model_name :: string
  wo_num_clusters :: nat
  wo_quantization :: string
  wo_created_at :: time

record model_origin =
  mo_origin_id :: origin_id
  mo_model_name :: string

record origin_index =
  oi_origins :: "(origin_id, weight_origin) hmap"
  oi_names :: "(string, origin_id) hmap"

definition insert_model :: "weight_origin \<Rightarrow> origin_index \<Rightarrow> origin_index" where
  "insert_model m x = x\<lparr>oi_origins := hput (wo_origin_id m) m (oi_origins x),
     oi_names := hput (wo_model_name m) (wo_origin_id m) (oi_names x)\<rparr>"

definition create_model :: "uuid \<Rightarrow> time \<Rightarrow> string \<Rightarrow> string \<Rightarrow> (origin_index, model_origin) op" where
  "create_model u now name q = seqM (modifyM (insert_model
       \<lparr>wo_origin_id = u, wo_model_name = name, wo_num_clusters = 0, wo_quantization = q, wo_created_at = now\<rparr>))
     (returnM \<lparr>mo_origin_id = u, mo_model_name = name\<rparr>)"

definition register_model :: "time \<Rightarrow> origin_id \<Rightarrow> string \<Rightarrow> string \<Rightarrow> nat \<Rightarrow> (origin_index, model_origin) op" where
  "register_model now org name q n x =
     (case hget (oi_origins x) org of
        Some ex \<Rightarrow> (Ok \<lparr>mo_origin_id = wo_origin_id ex, mo_model_name = wo_model_name ex\<rparr>,
          x\<lparr>oi_names := hput name (wo_origin_id ex) (hput (wo_model_name ex) (wo_origin_id ex) (oi_names x))\<rparr>)
      | None \<Rightarrow> (Ok \<lparr>mo_origin_id = org, mo_model_name = name\<rparr>,
          insert_model \<lparr>wo_origin_id = org, wo_model_name = name, wo_num_clusters = n, wo_quantization = q,
            wo_created_at = now\<rparr> x))"

definition get_model_by_name :: "string \<Rightarrow> (origin_index, weight_origin) op" where
  "get_model_by_name name = readM (\<lambda>x. bindR (of_option NotFound (hget (oi_names x) name))
     (\<lambda>org. of_option NotFound (hget (oi_origins x) org)))"

definition get_model :: "origin_id \<Rightarrow> (origin_index, weight_origin) op" where
  "get_model org = readM (\<lambda>x. of_option NotFound (hget (oi_origins x) org))"

definition ensure_model ::
  "uuid \<Rightarrow> time \<Rightarrow> string \<Rightarrow> string \<Rightarrow> origin_id option \<Rightarrow> nat \<Rightarrow> (origin_index, model_origin) op" where
  "ensure_model u now name q org n x =
     (case org of
        Some oid \<Rightarrow> register_model now oid name q n x
      | None \<Rightarrow> (case get_model_by_name name x of
          (Ok ex, x') \<Rightarrow> (Ok \<lparr>mo_origin_id = wo_origin_id ex, mo_model_name = wo_model_name ex\<rparr>, x')
        | (_, x') \<Rightarrow> create_model u now name q x'))"

definition increment_clusters :: "origin_id \<Rightarrow> nat \<Rightarrow> (origin_index, unit) op" where
  "increment_clusters org n x =
     (case hget (oi_origins x) org of
        None \<Rightarrow> (Err NotFound, x)
      | Some m \<Rightarrow> (Ok (), x\<lparr>oi_origins := hput org (m\<lparr>wo_num_clusters := wo_num_clusters m + n\<rparr>) (oi_origins x)\<rparr>))"


section \<open>The facade\<close>

record 'w weights_world =
  ww_store :: 'w
  ww_pins :: pin_registry
  ww_models :: origin_index

abbreviation on_ww_store where "on_ww_store \<equiv> liftM ww_store (\<lambda>x w. w\<lparr>ww_store := x\<rparr>)"
abbreviation on_ww_pins where "on_ww_pins \<equiv> liftM ww_pins (\<lambda>x w. w\<lparr>ww_pins := x\<rparr>)"
abbreviation on_ww_models where "on_ww_models \<equiv> liftM ww_models (\<lambda>x w. w\<lparr>ww_models := x\<rparr>)"

definition ws_store_cluster ::
  "weight_env \<Rightarrow> 'w weight_store \<Rightarrow> origin_id \<Rightarrow> weight_cluster \<Rightarrow> ('w weights_world, store_stats) op" where
  "ws_store_cluster E W org c =
     bindM (on_ww_store (cluster_put E W org c)) (\<lambda>stats.
     seqM (if st_was_deduped stats then returnM () else ignoreM (on_ww_models (increment_clusters org 1)))
     (returnM stats))"

record import_summary =
  im_origin_id :: origin_id
  im_total_clusters :: nat
  im_total_blobs_stored :: nat
  im_deduped_blobs :: nat
  im_total_raw_bytes :: nat
  im_total_stored_bytes :: nat
  im_cluster_ids :: "cluster_id list"

definition ws_import_clusters ::
  "weight_env \<Rightarrow> 'w weight_store \<Rightarrow> origin_id \<Rightarrow> weight_cluster list \<Rightarrow> ('w weights_world, import_summary) op" where
  "ws_import_clusters E W org clusters =
     bindM (on_ww_store (mapM (cluster_put E W org) clusters)) (\<lambda>stats.
     let stored = length (filter (\<lambda>st. \<not> st_was_deduped st) stats) in
     seqM (if 0 < stored then ignoreM (on_ww_models (increment_clusters org stored)) else returnM ())
     (returnM \<lparr>im_origin_id = org, im_total_clusters = length clusters, im_total_blobs_stored = stored,
       im_deduped_blobs = length (filter st_was_deduped stats), im_total_raw_bytes = sum_list (map st_raw_bytes stats),
       im_total_stored_bytes = sum_list (map st_stored_bytes stats), im_cluster_ids = map st_blob_id stats\<rparr>))"

definition ws_store_layer ::
  "weight_env \<Rightarrow> 'w weight_store \<Rightarrow> origin_id \<Rightarrow> string \<Rightarrow> weight_cluster list \<Rightarrow> ('w weights_world, layer_shard) op" where
  "ws_store_layer E W org name clusters =
     bindM (on_ww_store (put_layer_shard E W org name clusters)) (\<lambda>ly.
     seqM (ignoreM (on_ww_models (increment_clusters org (ly_total_clusters ly)))) (returnM ly))"

definition ws_store_layers ::
  "weight_env \<Rightarrow> 'w weight_store \<Rightarrow> origin_id \<Rightarrow> time \<Rightarrow> (string \<times> weight_cluster list) list
     \<Rightarrow> ('w weights_world, layers_stats) op" where
  "ws_store_layers E W org now layers =
     bindM (on_ww_store (put_layers E W org now layers)) (\<lambda>st.
     seqM (ignoreM (on_ww_models (increment_clusters org (ls_total_clusters st)))) (returnM st))"

definition ws_load_layer ::
  "weight_env \<Rightarrow> 'w weight_store \<Rightarrow> origin_id \<Rightarrow> layer_shard \<Rightarrow> ('w weights_world, weight_cluster list) op" where
  "ws_load_layer E W org ly = on_ww_store (get_layer_shard E W org ly)"

definition ws_load_manifest ::
  "weight_env \<Rightarrow> 'w weight_store \<Rightarrow> origin_id \<Rightarrow> blob_id \<Rightarrow> ('w weights_world, layers_manifest) op" where
  "ws_load_manifest E W org bid = on_ww_store (load_layers_manifest E W org bid)"

definition ws_load_cluster ::
  "weight_env \<Rightarrow> 'w weight_store \<Rightarrow> int \<Rightarrow> int \<Rightarrow> origin_id \<Rightarrow> blob_id \<Rightarrow> ('w weights_world, weight_cluster) op" where
  "ws_load_cluster E W t1 t2 org bid =
     bindM (on_ww_pins (wr_get t1 bid)) (\<lambda>hit.
     case hit of
       Some c \<Rightarrow> returnM c
     | None \<Rightarrow> bindM (on_ww_store (cluster_get E W org bid)) (\<lambda>c.
         seqM (ignoreM (on_ww_pins (wr_pin t2 bid c FrequentUse))) (returnM c)))"

definition ws_pin_as ::
  "weight_pin_reason \<Rightarrow> weight_env \<Rightarrow> 'w weight_store \<Rightarrow> int \<Rightarrow> int \<Rightarrow> origin_id \<Rightarrow> blob_id \<Rightarrow> ('w weights_world, unit) op" where
  "ws_pin_as reason E W t1 t2 org bid =
     bindM (on_ww_pins (wr_get t1 bid)) (\<lambda>hit.
     bindM (case hit of Some c \<Rightarrow> returnM c | None \<Rightarrow> on_ww_store (cluster_get E W org bid)) (\<lambda>c.
     on_ww_pins (wr_pin t2 bid c reason)))"

definition ws_pin_identity ::
  "weight_env \<Rightarrow> 'w weight_store \<Rightarrow> int \<Rightarrow> int \<Rightarrow> origin_id \<Rightarrow> blob_id \<Rightarrow> ('w weights_world, unit) op" where
  "ws_pin_identity = ws_pin_as Identity"

definition ws_pin_logic ::
  "weight_env \<Rightarrow> 'w weight_store \<Rightarrow> int \<Rightarrow> int \<Rightarrow> origin_id \<Rightarrow> blob_id \<Rightarrow> ('w weights_world, unit) op" where
  "ws_pin_logic = ws_pin_as Logic"

definition ws_prefetch ::
  "weight_env \<Rightarrow> 'w weight_store \<Rightarrow> int \<Rightarrow> origin_id \<Rightarrow> blob_id \<Rightarrow> ('w weights_world, unit) op" where
  "ws_prefetch E W t org bid =
     bindM (on_ww_pins (wr_is_pinned bid)) (\<lambda>cached.
     if cached then returnM ()
     else bindM (on_ww_store (cluster_get E W org bid)) (\<lambda>c. on_ww_pins (wr_pin t bid c Prefetch)))"

definition ws_evict :: "blob_id \<Rightarrow> ('w weights_world, bool) op" where
  "ws_evict bid = on_ww_pins (wr_unpin bid)"

definition ws_is_cached :: "blob_id \<Rightarrow> ('w weights_world, bool) op" where
  "ws_is_cached bid = on_ww_pins (wr_is_pinned bid)"

definition ws_refcount :: "blob_id \<Rightarrow> ('w weights_world, nat) op" where
  "ws_refcount bid = on_ww_pins (readM (\<lambda>r. Ok (wr_refcount bid r)))"

definition ws_cache_size :: "('w weights_world, nat) op" where
  "ws_cache_size = on_ww_pins wr_len"

definition ws_blob_exists :: "'w weight_store \<Rightarrow> blob_id \<Rightarrow> ('w weights_world, bool) op" where
  "ws_blob_exists W bid = on_ww_store (weight_has W bid)"

definition ws_delete :: "'w weight_store \<Rightarrow> blob_id \<Rightarrow> ('w weights_world, unit) op" where
  "ws_delete W bid =
     bindM (on_ww_pins (wr_is_pinned bid)) (\<lambda>cached.
     seqM (if cached then bindM (on_ww_pins (wr_unpin bid)) (\<lambda>_. returnM ()) else returnM ())
     (on_ww_store (weight_delete W bid)))"


section \<open>Pinned clusters stay\<close>

text \<open>The operations of the facade that change its state, as events.\<close>

datatype weight_event =
    WStore origin_id weight_cluster
  | WImport origin_id "weight_cluster list"
  | WStoreLayer origin_id string "weight_cluster list"
  | WStoreLayers origin_id time "(string \<times> weight_cluster list) list"
  | WLoad int int origin_id blob_id
  | WPinIdentity int int origin_id blob_id
  | WPinLogic int int origin_id blob_id
  | WPrefetch int origin_id blob_id
  | WEvict blob_id
  | WDelete blob_id
  | WEnsureModel uuid time string string "origin_id option" nat

fun weight_perform :: "weight_env \<Rightarrow> 'w weight_store \<Rightarrow> weight_event \<Rightarrow> 'w weights_world \<Rightarrow> 'w weights_world" where
  "weight_perform E W (WStore org c) w = snd (ws_store_cluster E W org c w)"
| "weight_perform E W (WImport org cs) w = snd (ws_import_clusters E W org cs w)"
| "weight_perform E W (WStoreLayer org name cs) w = snd (ws_store_layer E W org name cs w)"
| "weight_perform E W (WStoreLayers org now ls) w = snd (ws_store_layers E W org now ls w)"
| "weight_perform E W (WLoad t1 t2 org bid) w = snd (ws_load_cluster E W t1 t2 org bid w)"
| "weight_perform E W (WPinIdentity t1 t2 org bid) w = snd (ws_pin_identity E W t1 t2 org bid w)"
| "weight_perform E W (WPinLogic t1 t2 org bid) w = snd (ws_pin_logic E W t1 t2 org bid w)"
| "weight_perform E W (WPrefetch t org bid) w = snd (ws_prefetch E W t org bid w)"
| "weight_perform E W (WEvict bid) w = snd (ws_evict bid w)"
| "weight_perform E W (WDelete bid) w = snd (ws_delete W bid w)"
| "weight_perform E W (WEnsureModel u now name q org n) w = snd (on_ww_models (ensure_model u now name q org n) w)"

definition kept_cluster :: "blob_id \<Rightarrow> weight_cluster \<Rightarrow> pin_registry \<Rightarrow> bool" where
  "kept_cluster bid c r \<longleftrightarrow> hwf (wr_entries r)
     \<and> (\<exists>e. hget (wr_entries r) bid = Some e \<and> pe_cluster e = c \<and> \<not> evictable (pe_reason e))"

lemma kept_get: "kept_cluster bid c r \<Longrightarrow> kept_cluster bid c (snd (wr_get t k r))"
  by (auto simp: kept_cluster_def wr_get_def Let_def split: option.splits)

lemma kept_evict:
  assumes "kept_cluster bid c r"
  shows "kept_cluster bid c (snd (maybe_evict r))"
proof -
  obtain e where e: "hwf (wr_entries r)" "hget (wr_entries r) bid = Some e" "pe_cluster e = c" "\<not> evictable (pe_reason e)"
    using assms by (auto simp: kept_cluster_def)
  have "(bid, e) \<in> set (protected_entries r)" using hget_mem [OF e(2)] e(4) by (simp add: protected_entries_def)
  then have "(bid, e) \<in> set (wr_entries (snd (maybe_evict r)))"
    unfolding evict_effect(3) [OF e(1), symmetric] by (simp add: protected_entries_def)
  then have "hget (wr_entries (snd (maybe_evict r))) bid = Some e" by (rule mem_hget [OF evict_effect(1) [OF e(1)]])
  then show ?thesis using e evict_effect(1) [OF e(1)] by (simp add: kept_cluster_def)
qed

lemma kept_pin:
  assumes "kept_cluster bid c r" and "k = bid \<Longrightarrow> d = c \<and> \<not> evictable reason"
  shows "kept_cluster bid c (snd (wr_pin t k d reason r))"
  using kept_evict [OF assms(1)] assms(2)
  by (auto simp: kept_cluster_def wr_pin_def maybe_evict_def act_simps)

lemma kept_unpin: "kept_cluster bid c r \<Longrightarrow> kept_cluster bid c (snd (wr_unpin k r))"
  by (auto simp: kept_cluster_def wr_unpin_def split: option.splits)

lemma kept_hit:
  assumes "kept_cluster bid c r"
  shows "fst (wr_get t bid r) = Ok (Some c)" "wr_is_pinned bid r = (Ok True, r)" "\<exists>msg. wr_unpin bid r = (Err msg, r)"
  using assms by (auto simp: kept_cluster_def wr_get_def wr_is_pinned_def wr_unpin_def Let_def)

abbreviation keeps :: "blob_id \<Rightarrow> weight_cluster \<Rightarrow> 'w weights_world \<Rightarrow> bool" where
  "keeps bid c w \<equiv> kept_cluster bid c (ww_pins w)"

lemma keeps_others [simp]:
  "ww_pins (snd (on_ww_store m w)) = ww_pins w" "ww_pins (snd (on_ww_models m' w)) = ww_pins w"
  "ww_pins (snd (ignoreM (on_ww_models m') w)) = ww_pins w"
  by (auto simp: liftM_def ignoreM_def split: prod.splits outcome.splits)

lemma ww_pins_lift [simp]: "ww_pins (snd (on_ww_pins m w)) = snd (m (ww_pins w))"
  by (simp add: liftM_def split: prod.splits)

lemma snd_ignore [simp]: "snd (ignoreM m w) = snd (m w)"
  by (auto simp: ignoreM_def split: prod.splits outcome.splits)

lemma lifted_hit: "on_ww_pins m w = (Ok a, u) \<Longrightarrow> fst (m (ww_pins w)) = Ok a"
  by (auto simp: liftM_def split: prod.splits)

lemma keeps_pin_as:
  assumes "keeps bid c w" and "\<not> evictable reason"
  shows "keeps bid c (snd (ws_pin_as reason E W t1 t2 org k w))"
  unfolding ws_pin_as_def
proof (rule bindM_inv [where P = "keeps bid c"])
  show "keeps bid c (snd (on_ww_pins (wr_get t1 k) w))" using kept_get [OF assms(1)] by simp
next
  fix hit u assume u: "on_ww_pins (wr_get t1 k) w = (Ok hit, u)" "keeps bid c u"
  show "keeps bid c (snd (bindM (case hit of Some c \<Rightarrow> returnM c | None \<Rightarrow> on_ww_store (cluster_get E W org k))
      (\<lambda>c. on_ww_pins (wr_pin t2 k c reason)) u))"
  proof (rule bindM_inv [where P = "keeps bid c"])
    show "keeps bid c (snd ((case hit of Some c \<Rightarrow> returnM c | None \<Rightarrow> on_ww_store (cluster_get E W org k)) u))"
      using u(2) by (auto split: option.split)
  next
    fix d v assume v: "(case hit of Some c \<Rightarrow> returnM c | None \<Rightarrow> on_ww_store (cluster_get E W org k)) u = (Ok d, v)" "keeps bid c v"
    have "d = c" if "k = bid"
      using lifted_hit [OF u(1)] kept_hit(1) [OF assms(1)] that v(1) by auto
    then show "keeps bid c (snd (on_ww_pins (wr_pin t2 k d reason) v))" using kept_pin [OF v(2)] assms(2) by simp
  qed
qed

lemma keeps_load:
  assumes "keeps bid c w"
  shows "keeps bid c (snd (ws_load_cluster E W t1 t2 org k w))"
  unfolding ws_load_cluster_def
proof (rule bindM_inv [where P = "keeps bid c"])
  show "keeps bid c (snd (on_ww_pins (wr_get t1 k) w))" using kept_get [OF assms] by simp
next
  fix hit u assume u: "on_ww_pins (wr_get t1 k) w = (Ok hit, u)" "keeps bid c u"
  have new: "k \<noteq> bid" if "hit = None" using lifted_hit [OF u(1)] kept_hit(1) [OF assms] that by auto
  show "keeps bid c (snd ((case hit of Some c \<Rightarrow> returnM c | None \<Rightarrow> bindM (on_ww_store (cluster_get E W org k)) (\<lambda>c.
      seqM (ignoreM (on_ww_pins (wr_pin t2 k c FrequentUse))) (returnM c))) u))"
  proof (cases hit)
    case None
    then show ?thesis
      using u(2) new kept_pin by (auto intro!: bindM_inv [where P = "keeps bid c"] seqM_inv [where P = "keeps bid c"])
  qed (use u(2) in simp)
qed

lemma keeps_prefetch:
  assumes "keeps bid c w"
  shows "keeps bid c (snd (ws_prefetch E W t org k w))"
  unfolding ws_prefetch_def
proof (rule bindM_inv [where P = "keeps bid c"])
  show "keeps bid c (snd (on_ww_pins (wr_is_pinned k) w))" using assms by (simp add: wr_is_pinned_def)
next
  fix cached u assume u: "on_ww_pins (wr_is_pinned k) w = (Ok cached, u)" "keeps bid c u"
  have new: "k \<noteq> bid" if "\<not> cached" using lifted_hit [OF u(1)] kept_hit(2) [OF assms] that by auto
  then show "keeps bid c (snd ((if cached then returnM () else bindM (on_ww_store (cluster_get E W org k)) (\<lambda>c.
      on_ww_pins (wr_pin t k c Prefetch))) u))"
    using u(2) kept_pin by (auto intro!: bindM_inv [where P = "keeps bid c"])
qed

lemma keeps_step: "keeps bid c w \<Longrightarrow> keeps bid c (weight_perform E W ev w)"
proof (cases ev)
  case (WDelete k)
  assume "keeps bid c w"
  then show ?thesis unfolding WDelete weight_perform.simps ws_delete_def
    by (intro bindM_inv [where P = "keeps bid c"] seqM_inv [where P = "keeps bid c"])
      (auto simp: wr_is_pinned_def kept_unpin intro!: bindM_inv [where P = "keeps bid c"])
qed (auto simp: ws_store_cluster_def ws_import_clusters_def ws_store_layer_def ws_store_layers_def Let_def ws_pin_identity_def
    ws_pin_logic_def ws_evict_def kept_unpin keeps_load keeps_pin_as keeps_prefetch
    intro!: bindM_inv [where P = "keeps bid c"] seqM_inv [where P = "keeps bid c"])

text \<open>C5: A cluster pinned as identity or logic stays resident. Once cached under such a pin, it is
  answered by every later load, from the cache and unchanged, for any origin and after any sequence
  of stores, loads, pins, prefetches, evictions, deletions and model registrations of the facade,
  and neither evicting nor deleting it succeeds.\<close>

theorem pinned_cluster_stays:
  assumes "hwf (wr_entries (ww_pins w))" and "hget (wr_entries (ww_pins w)) bid = Some e" and "\<not> evictable (pe_reason e)"
    and w': "w' = fold (weight_perform E W) evs w"
  shows "fst (ws_load_cluster E W t1 t2 org bid w') = Ok (pe_cluster e)
    \<and> (\<exists>msg. ws_evict bid w' = (Err (WeightStoreErr msg), w') \<and> ws_delete W bid w' = (Err (WeightStoreErr msg), w'))"
proof -
  have "keeps bid (pe_cluster e) (fold (weight_perform E W) evs v)" if "keeps bid (pe_cluster e) v" for v
    using that by (induction evs arbitrary: v) (auto intro: keeps_step)
  then have k: "keeps bid (pe_cluster e) w'" using assms by (auto simp: kept_cluster_def)
  obtain f where f: "hget (wr_entries (ww_pins w')) bid = Some f" "pe_cluster f = pe_cluster e" "\<not> evictable (pe_reason f)"
    using k by (auto simp: kept_cluster_def)
  have "\<exists>r. wr_get t1 bid (ww_pins w') = (Ok (Some (pe_cluster e)), r)" using f by (simp add: wr_get_def Let_def)
  then show ?thesis
    using f by (auto simp: ws_load_cluster_def ws_evict_def ws_delete_def act_simps wr_unpin_def wr_is_pinned_def)
qed

abbreviation demo_ww :: "mem_blobs weight_store" where
  "demo_ww \<equiv> weight_store_new mem_blob_store (Some (xor_crypto 7)) Blake3"

definition demo_weights_world :: "mem_blobs weights_world" where
  "demo_weights_world = \<lparr>ww_store = [], ww_pins = demo_registry, ww_models = \<lparr>oi_origins = [], oi_names = []\<rparr>\<rparr>"

theorem pinned_cluster_stays_witness:
  "fst (ws_load_cluster demo_weights demo_ww 8 9 5 ''a''
      (fold (weight_perform demo_weights demo_ww) [WEvict ''b'', WDelete ''a'', WPinLogic 3 4 6 ''a''] demo_weights_world))
    = Ok (demo_cluster 0)"
proof -
  have "hwf (wr_entries (ww_pins demo_weights_world)) \<and> hget (wr_entries (ww_pins demo_weights_world)) ''a''
      = Some \<lparr>pe_cluster = demo_cluster 0, pe_reason = Identity, pe_last_accessed = 1\<rparr>"
    unfolding demo_weights_world_def by code_simp
  then show ?thesis
    using pinned_cluster_stays [of demo_weights_world "''a''" _ _ demo_weights demo_ww
        "[WEvict ''b'', WDelete ''a'', WPinLogic 3 4 6 ''a'']" 8 9 5] by simp
qed

text \<open>The cache does not know origins. A cluster that was loaded for one origin is answered from
  the cache to a load for any other, although the store itself would refuse to decrypt it with the
  key of that origin.\<close>

theorem cached_cluster_crosses_origins:
  assumes "ws_load_cluster E W t1 t2 org bid w = (Ok c, w')"
  shows "fst (ws_load_cluster E W t3 t4 other bid w') = Ok c"
proof -
  have cached: "fst (ws_load_cluster E W t3 t4 other bid v) = Ok d"
    if "hget (wr_entries (ww_pins v)) bid = Some e" "pe_cluster e = d" for v e d
    using that by (simp add: ws_load_cluster_def wr_get_def Let_def act_simps)
  show ?thesis
  proof (cases "hget (wr_entries (ww_pins w)) bid")
    case (Some e)
    then have "c = pe_cluster e \<and> hget (wr_entries (ww_pins w')) bid = Some (e\<lparr>pe_last_accessed := t1\<rparr>)"
      using assms by (auto simp: ws_load_cluster_def wr_get_def Let_def act_simps)
    then show ?thesis using cached [of w' "e\<lparr>pe_last_accessed := t1\<rparr>"] by simp
  next
    case None
    then have "hget (wr_entries (ww_pins w')) bid = Some \<lparr>pe_cluster = c, pe_reason = FrequentUse, pe_last_accessed = t2\<rparr>"
      using assms
      by (auto simp: ws_load_cluster_def wr_get_def wr_pin_def maybe_evict_def Let_def act_simps act_Ok_iffs ignoreM_def
          liftM_def split: prod.splits outcome.splits)
    then show ?thesis by (rule cached) simp
  qed
qed

definition demo_blob :: bytes where
  "demo_blob = (case sealed demo_weights demo_ww 1 (case to_vec demo_cluster_codec (demo_cluster 0) of Ok b \<Rightarrow> b | _ \<Rightarrow> []) of
     Ok b \<Rightarrow> b | _ \<Rightarrow> [])"

definition demo_blob_id :: blob_id where
  "demo_blob_id = compute_blob_id demo_hashes demo_blob Blake3"

theorem cached_cluster_crosses_origins_witness:
  "\<exists>w'. fst (ws_load_cluster demo_weights demo_ww 3 4 2 demo_blob_id w') = Ok (demo_cluster 0)
     \<and> ws_load_cluster demo_weights demo_ww 1 2 1 demo_blob_id
         \<lparr>ww_store = [(demo_blob_id, demo_blob)], ww_pins = registry_new 2, ww_models = \<lparr>oi_origins = [], oi_names = []\<rparr>\<rparr> = (Ok (demo_cluster 0), w')
     \<and> fst (cluster_get demo_weights demo_ww 2 demo_blob_id [(demo_blob_id, demo_blob)]) = Err (Serialization ''trailing characters'')"
proof -
  let ?w = "\<lparr>ww_store = [(demo_blob_id, demo_blob)], ww_pins = registry_new 2, ww_models = \<lparr>oi_origins = [], oi_names = []\<rparr>\<rparr>"
  have "fst (ws_load_cluster demo_weights demo_ww 1 2 1 demo_blob_id ?w) = Ok (demo_cluster 0)" by code_simp
  then obtain w' where run: "ws_load_cluster demo_weights demo_ww 1 2 1 demo_blob_id ?w = (Ok (demo_cluster 0), w')"
    by (metis prod.collapse)
  moreover have "fst (cluster_get demo_weights demo_ww 2 demo_blob_id [(demo_blob_id, demo_blob)]) = Err (Serialization ''trailing characters'')"
    by code_simp
  ultimately show ?thesis using cached_cluster_crosses_origins [OF run, of 3 4 2] by blast
qed

end
