(* ===== verification/Sodl_Registry.thy ===== *)
theory Sodl_Registry
  imports Sodl_FsCas Sodl_Codec "HOL-Library.Sublist"
begin

text \<open>
  Registries of JSON documents next to a blob store. The checkpoint store, the store of optimizer
  state and the store of weight manifests of \<open>crates/sodl-service\<close> keep their records the same
  way: one document per origin in a directory, replaced by writing a temporary file and renaming
  it, and a scan of the directory that tells which blobs are still referenced. The messages of the
  errors differ in one noun and the file names in one suffix, which are arguments here.
\<close>

section \<open>Documents\<close>

type_synonym f64 = u64

text \<open>\<open>serde_json::Value\<close>; an object lists its entries in the order of the keys.\<close>

datatype json =
    JNull
  | JBool bool
  | JInt int
  | JFloat f64
  | JStr string
  | JArr "json list"
  | JObj "(string \<times> json) list"

definition f64_finite :: "f64 \<Rightarrow> bool" where
  "f64_finite w \<longleftrightarrow> drop_bit 52 w AND 2047 \<noteq> 2047"

definition default_json_object :: json where
  "default_json_object = JObj []"

text \<open>\<open>origin.replace(':', "_").replace('/', "_")\<close> and the file of an origin.\<close>

definition safe_name :: "string \<Rightarrow> string" where
  "safe_name org = map (\<lambda>c. if c = CHR ''/'' then CHR ''_'' else c)
     (map (\<lambda>c. if c = CHR '':'' then CHR ''_'' else c) org)"

definition doc_name :: "string \<Rightarrow> string \<Rightarrow> string" where
  "doc_name sfx org = safe_name org @ sfx"

definition doc_path :: "path \<Rightarrow> string \<Rightarrow> string \<Rightarrow> path" where
  "doc_path dir sfx org = path_join dir (doc_name sfx org)"

definition ends_with :: "string \<Rightarrow> string \<Rightarrow> bool" where
  "ends_with n sfx \<longleftrightarrow> length sfx \<le> length n \<and> drop (length n - length sfx) n = sfx"

definition read_doc :: "string \<Rightarrow> path \<Rightarrow> (fs, bytes) op" where
  "read_doc noun p = map_io (''read '' @ noun) p (fs_read p)"

definition parse_doc :: "string \<Rightarrow> path \<Rightarrow> 'd codec \<Rightarrow> bytes \<Rightarrow> 'd res" where
  "parse_doc noun p J b = (case from_slice J b of
     Ok d \<Rightarrow> Ok d
   | Err e \<Rightarrow> Err (Serialization (''parse '' @ noun @ '' '' @ path_show p @ '': '' @ e))
   | Panic \<Rightarrow> Panic)"

definition print_doc :: "string \<Rightarrow> 'd codec \<Rightarrow> 'd \<Rightarrow> bytes res" where
  "print_doc noun J d = (case to_vec J d of
     Ok b \<Rightarrow> Ok b
   | Err e \<Rightarrow> Err (Serialization (''serialize '' @ noun @ '': '' @ e))
   | Panic \<Rightarrow> Panic)"

text \<open>The new document is written to a temporary file, which then replaces the old one.\<close>

definition replace_doc :: "string \<Rightarrow> path \<Rightarrow> bytes \<Rightarrow> (fs, unit) op" where
  "replace_doc noun p b =
     (let tmp = path_with_extension p ''json.tmp'' in
      seqM (map_io (''write '' @ noun @ '' temp'') tmp (fs_write tmp b))
        (map_io (''replace '' @ noun) p (fs_rename tmp p)))"

text \<open>The blobs that the documents of a directory refer to.\<close>

definition scan_docs ::
  "string \<Rightarrow> string \<Rightarrow> path \<Rightarrow> string \<Rightarrow> 'd codec \<Rightarrow> ('d \<Rightarrow> blob_id list) \<Rightarrow> (fs, blob_id list) op" where
  "scan_docs dnoun noun dir sfx J refs =
     bindM (map_io (''read '' @ dnoun) dir (fs_read_dir dir)) (\<lambda>names.
     bindM (mapM (\<lambda>n.
         bindM (read_doc noun (dir @ [n])) (\<lambda>b. pureM (parse_doc noun (dir @ [n]) J b)))
       (filter (\<lambda>n. ends_with n sfx) names)) (\<lambda>ds.
     returnM (remdups (concat (map refs ds)))))"

text \<open>Deletes the blobs of a list that are stored and not referenced; how many there were.\<close>

fun delete_blobs :: "path \<Rightarrow> blob_id list \<Rightarrow> blob_id list \<Rightarrow> nat \<Rightarrow> (fs, nat) op" where
  "delete_blobs root keep [] n = returnM n"
| "delete_blobs root keep (b # bs) n =
     (if b \<in> set keep then delete_blobs root keep bs n
      else bindM (fs_blob_has root b) (\<lambda>found.
        if found then seqM (fs_blob_delete root b) (delete_blobs root keep bs (n + 1))
        else delete_blobs root keep bs n))"

definition gc_docs :: "path \<Rightarrow> (fs, blob_id list) op \<Rightarrow> blob_id list \<Rightarrow> (fs, nat) op" where
  "gc_docs root scan candidates =
     (if candidates = [] then returnM 0
      else bindM scan (\<lambda>keep. delete_blobs root keep candidates 0))"


section \<open>File names\<close>

lemma safe_name_chars: "CHR '':'' \<notin> set (safe_name org) \<and> CHR ''/'' \<notin> set (safe_name org)"
  by (auto simp: safe_name_def)

lemma ends_with_append [simp]: "ends_with (a @ sfx) sfx"
  by (simp add: ends_with_def)

lemma ends_with_iff: "ends_with n sfx \<longleftrightarrow> (\<exists>a. n = a @ sfx)"
  by (auto simp: ends_with_def) (metis append_take_drop_id)

lemma split_once_append_None:
  "c \<notin> set a \<Longrightarrow> split_once c (a @ b) = map_option (\<lambda>(x, y). (a @ x, y)) (split_once c b)"
  by (induction a) (auto simp: option.map_comp comp_def split_def option.map_ident)

text \<open>The suffixes end in \<open>.json\<close>.\<close>

definition json_suffix :: "string \<Rightarrow> bool" where
  "json_suffix sfx \<longleftrightarrow> ends_with sfx ''.json'' \<and> CHR ''/'' \<notin> set sfx"

definition tmp_of :: "string \<Rightarrow> string" where
  "tmp_of n = name_with_extension n ''json.tmp''"

lemma tmp_of_json:
  "tmp_of (a @ ''.json'') = (if a = [] then ''.json.json.tmp'' else a @ ''.json.tmp'')"
proof -
  have "rev (a @ ''.json'') = ''nosj'' @ CHR ''.'' # rev a" by simp
  then have "split_once (CHR ''.'') (rev (a @ ''.json'')) = Some (''nosj'', rev a)"
    using split_once_append [of "CHR ''.''" "''nosj''" "rev a"] by simp
  then show ?thesis by (simp add: tmp_of_def name_with_extension_def)
qed

lemma json_name:
  assumes "json_suffix sfx" and "ends_with n sfx"
  obtains a where "n = a @ ''.json''"
  using assms by (auto simp: json_suffix_def ends_with_iff)

lemma last_json: "ends_with n ''.json'' \<Longrightarrow> last n = CHR ''n''"
  and last_tmp: "ends_with n ''.json'' \<Longrightarrow> last (tmp_of n) = CHR ''p''"
  by (auto simp: ends_with_iff tmp_of_json)

lemma tmp_of_not_json: "ends_with n ''.json'' \<Longrightarrow> ends_with m ''.json'' \<Longrightarrow> tmp_of n \<noteq> m"
  using last_json [of m] last_tmp [of n] by auto

lemma json_name_not_up:
  assumes "ends_with n ''.json''"
  shows "n \<noteq> ''..''" and "tmp_of n \<noteq> ''..''"
  using last_json [OF assms] last_tmp [OF assms] by auto

lemma doc_path_child:
  assumes "json_suffix sfx"
  shows "doc_path dir sfx org = dir @ [doc_name sfx org]"
proof -
  obtain b where b: "sfx = b @ ''.json''" using assms by (auto simp: json_suffix_def ends_with_iff)
  have "CHR ''/'' \<notin> set (doc_name sfx org)"
    using safe_name_chars [of org] assms by (simp add: doc_name_def json_suffix_def)
  then show ?thesis
    unfolding doc_path_def by (intro path_join_single) (auto simp: doc_name_def b append_eq_Cons_conv)
qed

lemma doc_name_ends: "ends_with (doc_name sfx org) sfx"
  by (simp add: doc_name_def)


lemma json_suffix_ends: "json_suffix sfx \<Longrightarrow> ends_with n sfx \<Longrightarrow> ends_with n ''.json''"
  by (auto simp: json_suffix_def ends_with_iff)


section \<open>The state of a registry\<close>

text \<open>
  \<open>doc_at\<close> is the document a file holds. In a well-formed registry the names of documents and of
  their temporary files are not those of directories, do not lie where the blobs are, and every
  document can be read.
\<close>

definition doc_at :: "'d codec \<Rightarrow> path \<Rightarrow> fs \<Rightarrow> string \<Rightarrow> 'd option" where
  "doc_at J dir s n = (case hget (fs_files s) (dir @ [n]) of Some b \<Rightarrow> try_parse J b | None \<Rightarrow> None)"

definition registry_inv :: "'d codec \<Rightarrow> path \<Rightarrow> path \<Rightarrow> string \<Rightarrow> fs \<Rightarrow> bool" where
  "registry_inv J root dir sfx s \<longleftrightarrow> fs_store_inv root s \<and> dir \<in> set (fs_dirs s)
     \<and> (\<forall>n. ends_with n sfx \<longrightarrow> dir @ [n] \<notin> set (fs_dirs s) \<and> dir @ [tmp_of n] \<notin> set (fs_dirs s)
         \<and> \<not> blob_area root (dir @ [n]) \<and> \<not> blob_area root (dir @ [tmp_of n]))
     \<and> \<not> blob_area root dir
     \<and> (\<forall>n b. ends_with n sfx \<and> hget (fs_files s) (dir @ [n]) = Some b \<longrightarrow> (\<exists>d. from_slice J b = Ok d))"

definition doc_refs :: "'d codec \<Rightarrow> path \<Rightarrow> string \<Rightarrow> ('d \<Rightarrow> blob_id list) \<Rightarrow> fs \<Rightarrow> blob_id set" where
  "doc_refs J dir sfx refs s = {b. \<exists>n d. ends_with n sfx \<and> doc_at J dir s n = Some d \<and> b \<in> set (refs d)}"

lemma registry_store: "registry_inv J root dir sfx s \<Longrightarrow> fs_store_inv root s"
  by (simp add: registry_inv_def)

lemma registry_wf: "registry_inv J root dir sfx s \<Longrightarrow> fs_wf s"
  by (simp add: registry_inv_def fs_store_inv_def)

lemma registry_names:
  assumes "registry_inv J root dir sfx s" and "ends_with n sfx"
  shows "dir \<in> set (fs_dirs s)" and "dir @ [n] \<notin> set (fs_dirs s)" and "dir @ [tmp_of n] \<notin> set (fs_dirs s)"
    and "\<not> blob_area root (dir @ [n])" and "\<not> blob_area root (dir @ [tmp_of n])"
  using assms by (simp_all add: registry_inv_def)

lemma doc_at_None_iff:
  assumes "registry_inv J root dir sfx s" and "ends_with n sfx"
  shows "doc_at J dir s n = None \<longleftrightarrow> hget (fs_files s) (dir @ [n]) = None"
  using assms by (fastforce simp: doc_at_def registry_inv_def try_parse_def split: option.splits)

lemma registry_exists:
  assumes "registry_inv J root dir sfx s" and "json_suffix sfx" and "ends_with n sfx"
  shows "fs_exists s (dir @ [n]) \<longleftrightarrow> doc_at J dir s n \<noteq> None"
  using fs_exists_child [OF registry_wf [OF assms(1)] registry_names(1) [OF assms(1,3)], of n]
    registry_names(2) [OF assms(1,3)] json_name_not_up [OF json_suffix_ends [OF assms(2,3)]]
    doc_at_None_iff [OF assms(1,3)] by simp

lemma registry_read:
  assumes "registry_inv J root dir sfx s" and "json_suffix sfx" and "ends_with n sfx"
    and "doc_at J dir s n = Some d"
  obtains b where "read_doc noun (dir @ [n]) s = (Ok b, s)" and "from_slice J b = Ok d"
proof -
  obtain b where b: "hget (fs_files s) (dir @ [n]) = Some b" "from_slice J b = Ok d"
    using assms(1,3,4) by (fastforce simp: doc_at_def registry_inv_def try_parse_def split: option.splits)
  have "fs_read (dir @ [n]) s = (Ok b, s)"
    using fs_read_child [OF registry_wf [OF assms(1)] registry_names(1) [OF assms(1,3)] _ registry_names(2) [OF assms(1,3)]]
      json_name_not_up [OF json_suffix_ends [OF assms(2,3)]] b(1) by simp
  then have "read_doc noun (dir @ [n]) s = (Ok b, s)" by (simp add: read_doc_def map_io_def)
  then show ?thesis using b(2) by (rule that)
qed

lemma parse_doc_Ok: "from_slice J b = Ok d \<Longrightarrow> parse_doc noun p J b = Ok d"
  by (simp add: parse_doc_def)

text \<open>A scan finds exactly the referenced blobs.\<close>

lemma scan_docs_Ok:
  assumes "registry_inv J root dir sfx s" and "json_suffix sfx"
  obtains bs where "scan_docs dnoun noun dir sfx J refs s = (Ok bs, s)"
    and "set bs = doc_refs J dir sfx refs s"
proof -
  obtain names where rd: "fs_read_dir dir s = (Ok names, s)"
    and names: "\<And>n. n \<in> set names \<longleftrightarrow> dir @ [n] \<in> set (fs_dirs s) \<or> hget (fs_files s) (dir @ [n]) \<noteq> None"
    using fs_read_dir_Ok [OF registry_wf [OF assms(1)]] assms(1) unfolding registry_inv_def by metis
  let ?ns = "filter (\<lambda>n. ends_with n sfx) names"
  have here: "n \<in> set ?ns \<longleftrightarrow> ends_with n sfx \<and> doc_at J dir s n \<noteq> None" for n
    using names [of n] registry_names(2) [OF assms(1), of n] doc_at_None_iff [OF assms(1), of n] by auto
  have each: "bindM (read_doc noun (dir @ [n])) (\<lambda>b. pureM (parse_doc noun (dir @ [n]) J b)) s
      = (Ok (the (doc_at J dir s n)), s)" if n: "n \<in> set ?ns" for n
  proof -
    obtain d where d: "doc_at J dir s n = Some d" and e: "ends_with n sfx" using n here by auto
    obtain b where "read_doc noun (dir @ [n]) s = (Ok b, s)" "from_slice J b = Ok d"
      by (rule registry_read [OF assms e d])
    then show ?thesis using d by (simp add: act_simps parse_doc_Ok)
  qed
  let ?bs = "remdups (concat (map refs (map (\<lambda>n. the (doc_at J dir s n)) ?ns)))"
  have "map_io (''read '' @ dnoun) dir (fs_read_dir dir) s = (Ok names, s)"
    using rd by (simp add: map_io_def)
  moreover have "mapM (\<lambda>n. bindM (read_doc noun (dir @ [n])) (\<lambda>b. pureM (parse_doc noun (dir @ [n]) J b))) ?ns s
      = (Ok (map (\<lambda>n. the (doc_at J dir s n)) ?ns), s)"
    by (rule mapM_read) (rule each)
  ultimately have "scan_docs dnoun noun dir sfx J refs s = (Ok ?bs, s)"
    by (simp add: scan_docs_def bindM_Ok)
  moreover have "set ?bs = doc_refs J dir sfx refs s"
  proof -
    have "b \<in> set ?bs \<longleftrightarrow> b \<in> doc_refs J dir sfx refs s" for b
      using here by (fastforce simp: doc_refs_def)
    then show ?thesis by blast
  qed
  ultimately show ?thesis by (rule that)
qed


text \<open>Replacing a document changes that document only.\<close>

lemma replace_doc_run:
  assumes inv: "registry_inv J root dir sfx s" and sfx: "json_suffix sfx" and n: "ends_with n sfx"
  obtains t where "replace_doc noun (dir @ [n]) b s = (Ok (), t)"
    and "fs_store_inv root t" and "fs_dirs t = fs_dirs s"
    and "fs_blobs root t = fs_blobs root s"
    and "\<And>p. hget (fs_files t) p = (if p = dir @ [n] then Some b else if p = dir @ [tmp_of n] then None
      else hget (fs_files s) p)"
proof -
  note names = registry_names [OF inv n]
  have json: "ends_with n ''.json''" using sfx n by (rule json_suffix_ends)
  note up = json_name_not_up [OF json]
  have tmp: "path_with_extension (dir @ [n]) ''json.tmp'' = dir @ [tmp_of n]"
    using up(1) by (simp add: path_with_extension_def tmp_of_def)
  define u where "u = s\<lparr>fs_files := hput (dir @ [tmp_of n]) b (fs_files s)\<rparr>"
  define t where "t = u\<lparr>fs_files := hput (dir @ [n]) b (hdel (dir @ [tmp_of n]) (fs_files u))\<rparr>"
  have wf: "fs_wf s" by (rule registry_wf [OF inv])
  have wfu: "fs_wf u" unfolding u_def by (rule fs_wf_put_child [OF wf names(1,3)])
  have w: "fs_write (dir @ [tmp_of n]) b s = (Ok (), u)"
    using fs_write_child [OF wf names(1) up(2) names(3)] by (simp add: u_def)
  have mv: "fs_rename (dir @ [tmp_of n]) (dir @ [n]) u = (Ok (), t)"
    using fs_rename_child [OF wfu _ up(2,1), of dir b] names(1,2) by (simp add: u_def t_def)
  have run: "replace_doc noun (dir @ [n]) b s = (Ok (), t)"
    using w mv by (simp add: replace_doc_def tmp Let_def map_io_def act_simps)
  have files: "hget (fs_files t) p = (if p = dir @ [n] then Some b else if p = dir @ [tmp_of n] then None
      else hget (fs_files s) p)" for p by (simp add: t_def u_def)
  have dirs: "fs_dirs t = fs_dirs s" by (simp add: t_def u_def)
  have wft: "fs_wf t"
    using fs_wf_put_child [OF fs_wf_del [OF wfu, of "dir @ [tmp_of n]"], where d = dir and c = n and b = b] names(1,2)
    by (simp add: t_def u_def)
  have area: "hget (fs_files t) p = hget (fs_files s) p" if "blob_area root p" for p
    using that names(4,5) files [of p] by auto
  have "hget (fs_files t) (root @ a # e) = hget (fs_files s) (root @ a # e)" if "alg_dir a" for a e
    by (rule area) (simp add: that)
  then have store: "fs_store_inv root t"
    using wft dirs registry_store [OF inv] unfolding fs_store_inv_def hhas_def by (simp, metis)
  have "fs_blobs root t = fs_blobs root s"
    using area same_outside_blob_file(1) by (simp add: fs_blobs_def fun_eq_iff)
  then show ?thesis using that [OF run store dirs] files by simp
qed

lemma replace_doc_Ok:
  assumes inv: "registry_inv J root dir sfx s" and sfx: "json_suffix sfx" and n: "ends_with n sfx"
    and b: "from_slice J b = Ok d"
  obtains t where "replace_doc noun (dir @ [n]) b s = (Ok (), t)"
    and "registry_inv J root dir sfx t"
    and "fs_blobs root t = fs_blobs root s"
    and "\<And>m. ends_with m sfx \<Longrightarrow> doc_at J dir t m = (if m = n then Some d else doc_at J dir s m)"
proof -
  obtain t where t: "replace_doc noun (dir @ [n]) b s = (Ok (), t)" "fs_store_inv root t"
    "fs_dirs t = fs_dirs s" "fs_blobs root t = fs_blobs root s"
    "\<And>p. hget (fs_files t) p = (if p = dir @ [n] then Some b else if p = dir @ [tmp_of n] then None
      else hget (fs_files s) p)"
    by (rule replace_doc_run [OF inv sfx n]) blast
  have json: "ends_with n ''.json''" using sfx n by (rule json_suffix_ends)
  have other: "m \<noteq> tmp_of n" if "ends_with m sfx" for m
    using tmp_of_not_json [OF json json_suffix_ends [OF sfx that]] by simp
  have "doc_at J dir t m = (if m = n then Some d else doc_at J dir s m)" if "ends_with m sfx" for m
    using other [OF that] b by (simp add: doc_at_def t(5) try_parse_def)
  moreover have "registry_inv J root dir sfx t"
    using inv t(2,3) b other by (auto simp: registry_inv_def t(5) split: if_splits)
  ultimately show ?thesis using that t(1,4) by simp
qed

text \<open>The collection deletes the unreferenced candidates and nothing else.\<close>

lemma delete_blobs_Ok:
  assumes "fs_store_inv root s" and "\<And>b. b \<in> set bs \<Longrightarrow> good_blob_id b"
  shows "\<exists>k t. delete_blobs root keep bs n s = (Ok k, t) \<and> fs_store_inv root t \<and> same_outside root s t
    \<and> fs_blobs root t = (\<lambda>b. if b \<in> set bs \<and> b \<notin> set keep then None else fs_blobs root s b)"
  using assms
proof (induction bs arbitrary: s n)
  case Nil
  then show ?case by simp
next
  case (Cons b bs)
  have good: "good_blob_id b" using Cons.prems(2) by simp
  show ?case
  proof (cases "b \<in> set keep \<or> fs_blobs root s b = None")
    case True
    then have "delete_blobs root keep (b # bs) n s = delete_blobs root keep bs n s"
      using fs_has_law [OF Cons.prems(1) good] by (auto simp: bindM_bool)
    then show ?thesis
      using Cons.IH [OF Cons.prems(1), of n] Cons.prems(2) True by (auto simp: fun_eq_iff)
  next
    case False
    obtain u where u: "fs_blob_delete root b s = (Ok (), u)" "fs_store_inv root u"
      "fs_blobs root u = (fs_blobs root s)(b := None)" "same_outside root s u"
      using fs_delete_law [OF Cons.prems(1) good] by blast
    have "delete_blobs root keep (b # bs) n s = delete_blobs root keep bs (n + 1) u"
      using fs_has_law [OF Cons.prems(1) good] False u(1) by (simp add: bindM_bool seqM_Ok)
    moreover obtain k t where t: "delete_blobs root keep bs (n + 1) u = (Ok k, t)" "fs_store_inv root t"
      "same_outside root u t"
      "fs_blobs root t = (\<lambda>b. if b \<in> set bs \<and> b \<notin> set keep then None else fs_blobs root u b)"
      using Cons.IH [OF u(2), of "n + 1"] Cons.prems(2) by auto
    moreover have "fs_blobs root t = (\<lambda>x. if x \<in> set (b # bs) \<and> x \<notin> set keep then None else fs_blobs root s x)"
      using t(4) u(3) False by (auto simp: fun_eq_iff)
    ultimately show ?thesis using same_outside_trans [OF u(4) t(3)] by auto
  qed
qed

lemma same_outside_docs:
  assumes inv: "registry_inv J root dir sfx s" and same: "same_outside root s t" and store: "fs_store_inv root t"
  shows "registry_inv J root dir sfx t"
    and "ends_with n sfx \<Longrightarrow> doc_at J dir t n = doc_at J dir s n"
proof -
  have eq: "hget (fs_files t) (dir @ [n]) = hget (fs_files s) (dir @ [n])"
    "dir @ [n] \<in> set (fs_dirs t) \<longleftrightarrow> dir @ [n] \<in> set (fs_dirs s)"
    "dir @ [tmp_of n] \<in> set (fs_dirs t) \<longleftrightarrow> dir @ [tmp_of n] \<in> set (fs_dirs s)" if "ends_with n sfx" for n
    using same registry_names(4,5) [OF inv that] by (simp_all add: same_outside_def)
  have "dir \<in> set (fs_dirs t)" using inv same by (simp add: registry_inv_def same_outside_def)
  then show "registry_inv J root dir sfx t" using inv store eq by (auto simp: registry_inv_def)
  show "doc_at J dir t n = doc_at J dir s n" if "ends_with n sfx"
    using eq(1) [OF that] by (simp add: doc_at_def)
qed

lemma gc_docs_Ok:
  assumes inv: "registry_inv J root dir sfx s" and sfx: "json_suffix sfx"
    and good: "\<And>b. b \<in> set bs \<Longrightarrow> good_blob_id b"
  shows "\<exists>k t. gc_docs root (scan_docs dnoun noun dir sfx J refs) bs s = (Ok k, t)
    \<and> registry_inv J root dir sfx t \<and> same_outside root s t
    \<and> (\<forall>n. ends_with n sfx \<longrightarrow> doc_at J dir t n = doc_at J dir s n)
    \<and> fs_blobs root t = (\<lambda>b. if b \<in> set bs \<and> b \<notin> doc_refs J dir sfx refs s then None else fs_blobs root s b)"
proof -
  have "\<exists>k t. gc_docs root (scan_docs dnoun noun dir sfx J refs) bs s = (Ok k, t) \<and> fs_store_inv root t
    \<and> same_outside root s t
    \<and> fs_blobs root t = (\<lambda>b. if b \<in> set bs \<and> b \<notin> doc_refs J dir sfx refs s then None else fs_blobs root s b)"
  proof (cases "bs = []")
    case True
    then show ?thesis using registry_store [OF inv] by (simp add: gc_docs_def)
  next
    case False
    obtain keep where keep: "scan_docs dnoun noun dir sfx J refs s = (Ok keep, s)"
      "set keep = doc_refs J dir sfx refs s"
      by (rule scan_docs_Ok [OF inv sfx])
    then show ?thesis
      using delete_blobs_Ok [OF registry_store [OF inv] good, of bs keep 0] False
      by (simp add: gc_docs_def bindM_Ok)
  qed
  then obtain k t where t: "gc_docs root (scan_docs dnoun noun dir sfx J refs) bs s = (Ok k, t)"
    "fs_store_inv root t" "same_outside root s t"
    "fs_blobs root t = (\<lambda>b. if b \<in> set bs \<and> b \<notin> doc_refs J dir sfx refs s then None else fs_blobs root s b)"
    by blast
  show ?thesis using t same_outside_docs [OF inv t(3,2)] by blast
qed



section \<open>Content-addressed payloads\<close>

text \<open>Every stored blob is one of \<open>Z\<close>, on which the digest is injective, under its own digest.\<close>

definition content_addressed :: "hashes \<Rightarrow> bytes set \<Rightarrow> path \<Rightarrow> fs \<Rightarrow> bool" where
  "content_addressed H Z root s \<longleftrightarrow>
     (\<forall>b z. fs_blobs root s b = Some z \<longrightarrow> z \<in> Z \<and> b = compute_blob_id H z Blake3)
     \<and> inj_on (blake3_hex H) Z"

lemma content_same:
  assumes "content_addressed H Z root s" and "z \<in> Z" and "fs_blobs root s (compute_blob_id H z Blake3) = Some z'"
  shows "z' = z"
  using assms by (fastforce simp: content_addressed_def inj_on_def)

lemma content_collected:
  assumes "content_addressed H Z root s" and "\<And>b z. fs_blobs root t b = Some z \<Longrightarrow> fs_blobs root s b = Some z"
  shows "content_addressed H Z root t"
  using assms unfolding content_addressed_def by blast

text \<open>\<open>if !has \{ put \}\<close> keeps a payload and nothing else changes.\<close>

lemma keep_blob_run:
  assumes store: "fs_store_inv root s" and good: "good_blob_id b"
  shows "\<exists>t. bindM (fs_blob_has root b) (\<lambda>found.
      if found then returnM () else fs_blob_put root b z) s = (Ok (), t)
    \<and> fs_store_inv root t \<and> same_outside root s t
    \<and> fs_blobs root t = (if fs_blobs root s b = None then (fs_blobs root s)(b \<mapsto> z) else fs_blobs root s)"
proof (cases "fs_blobs root s b")
  case None
  then show ?thesis
    using fs_put_law [OF store good, of z] fs_has_law [OF store good] by (auto simp: bindM_bool)
next
  case (Some z')
  then show ?thesis using fs_has_law [OF store good] store by (simp add: bindM_bool)
qed

lemma content_put:
  assumes inv: "registry_inv J root dir sfx s" and H: "hash_ok H" and ca: "content_addressed H Z root s"
    and z: "z \<in> Z" and b: "b = compute_blob_id H z Blake3"
  obtains t where "bindM (fs_blob_has root b) (\<lambda>found.
      if found then returnM () else fs_blob_put root b z) s = (Ok (), t)"
    and "registry_inv J root dir sfx t" and "content_addressed H Z root t"
    and "fs_blobs root t = (fs_blobs root s)(b \<mapsto> z)"
    and "\<And>n. ends_with n sfx \<Longrightarrow> doc_at J dir t n = doc_at J dir s n"
    and "\<And>x d. fs_blobs root s x = Some d \<Longrightarrow> fs_blobs root t x = Some d"
proof -
  have good: "good_blob_id b" using H b by (simp only: hash_ok_good)
  have same: "z' = z" if "fs_blobs root s b = Some z'" for z'
    using content_same [OF ca z] that b by simp
  obtain t where t: "bindM (fs_blob_has root b) (\<lambda>found.
      if found then returnM () else fs_blob_put root b z) s = (Ok (), t)"
    "fs_store_inv root t" "same_outside root s t"
    "fs_blobs root t = (if fs_blobs root s b = None then (fs_blobs root s)(b \<mapsto> z) else fs_blobs root s)"
    using keep_blob_run [OF registry_store [OF inv] good] by blast
  have blobs: "fs_blobs root t = (fs_blobs root s)(b \<mapsto> z)" using same by (auto simp: t(4) fun_eq_iff)
  have "content_addressed H Z root t"
    using ca z b unfolding content_addressed_def blobs by (auto split: if_splits)
  moreover have "fs_blobs root t x = Some d" if "fs_blobs root s x = Some d" for x d
    using that same unfolding blobs by auto
  ultimately show ?thesis using that [OF t(1)] blobs same_outside_docs [OF inv t(3,2)] by blast
qed


section \<open>Opening a store on an empty disk\<close>

definition empty_disk :: fs where
  "empty_disk = \<lparr>fs_files = [], fs_dirs = [[]]\<rparr>"

text \<open>The registry may lie inside the root of the blobs, but not in the directories of the digests,
  and no directory on the way has the name of a document.\<close>

definition doc_layout :: "path \<Rightarrow> path \<Rightarrow> bool" where
  "doc_layout root dir \<longleftrightarrow> ''..'' \<notin> set root \<and> ''..'' \<notin> set dir \<and> \<not> blob_area root dir
     \<and> list_all (\<lambda>c. \<not> ends_with c ''.json'' \<and> \<not> ends_with c ''.json.tmp'') root"

lemma mkdirs_plain:
  assumes "fs_files s = []" and "''..'' \<notin> set cs"
  shows "\<exists>t. fs_mkdirs cur cs s = (Ok (), t) \<and> fs_files t = []
    \<and> set (fs_dirs t) = set (fs_dirs s) \<union> {cur @ q | q. prefix q cs \<and> q \<noteq> []}"
  using assms
proof (induction cs arbitrary: cur s)
  case Nil
  then show ?case by simp
next
  case (Cons c cs)
  let ?s = "if cur @ [c] \<in> set (fs_dirs s) then s else s\<lparr>fs_dirs := (cur @ [c]) # fs_dirs s\<rparr>"
  have "fs_files ?s = []" using Cons.prems by simp
  then obtain t where t: "fs_mkdirs (cur @ [c]) cs ?s = (Ok (), t)" "fs_files t = []"
    "set (fs_dirs t) = set (fs_dirs ?s) \<union> {(cur @ [c]) @ q | q. prefix q cs \<and> q \<noteq> []}"
    using Cons.IH [of ?s "cur @ [c]"] Cons.prems(2) by auto
  have "fs_mkdirs cur (c # cs) s = (Ok (), t)"
    using t(1) Cons.prems by (auto simp: Let_def)
  moreover have "{cur @ q | q. prefix q (c # cs) \<and> q \<noteq> []}
      = insert (cur @ [c]) {(cur @ [c]) @ q | q. prefix q cs \<and> q \<noteq> []}"
    by (auto simp: prefix_Cons)
  ultimately show ?case using t(2,3) by auto
qed

lemma mkdirs_disk:
  assumes "fs_files s = []" and "''..'' \<notin> set p" and "[] \<in> set (fs_dirs s)"
  shows "\<exists>t. fs_create_dir_all p s = (Ok (), t) \<and> fs_files t = []
    \<and> set (fs_dirs t) = set (fs_dirs s) \<union> {q. prefix q p}"
proof -
  obtain t where t: "fs_mkdirs [] p s = (Ok (), t)" "fs_files t = []"
    "set (fs_dirs t) = set (fs_dirs s) \<union> {q. prefix q p \<and> q \<noteq> []}"
    using mkdirs_plain [OF assms(1,2), of "[]"] by auto
  then show ?thesis using assms(3) by (auto simp: fs_create_dir_all_def)
qed

lemma registry_opened:
  assumes lay: "doc_layout root dir" and sfx: "json_suffix sfx"
    and files: "fs_files s = []" and dirs: "set (fs_dirs s) = {q. prefix q root \<or> prefix q dir}"
  shows "registry_inv J root dir sfx s"
proof -
  have wf: "fs_wf s"
    using lay files dirs
    by (auto simp: fs_wf_def doc_layout_def dest: set_mono_prefix intro: prefix_order.trans [OF prefixeq_butlast])
  have area: "\<not> blob_area root q" if "q \<in> set (fs_dirs s)" for q
    using that lay unfolding dirs doc_layout_def blob_area_iff by (fastforce simp: prefix_def)
  have "root @ a # e \<notin> set (fs_dirs s)" if "alg_dir a" for a e
    using area [of "root @ a # e"] that by auto
  then have store: "fs_store_inv root s" using wf files dirs by (auto simp: fs_store_inv_def)
  have names: "dir @ [n] \<notin> set (fs_dirs s) \<and> \<not> blob_area root (dir @ [n])"
    if n: "ends_with n ''.json'' \<or> ends_with n ''.json.tmp''" for n
  proof
    show "dir @ [n] \<notin> set (fs_dirs s)"
      using n lay unfolding dirs doc_layout_def list_all_iff
      by (auto dest: set_mono_prefix prefix_length_le)
    show "\<not> blob_area root (dir @ [n])"
    proof
      assume "blob_area root (dir @ [n])"
      then obtain a e where ae: "alg_dir a" "dir @ [n] = root @ a # e" by (auto simp: blob_area_iff)
      show False
      proof (cases e rule: rev_cases)
        case Nil
        then show False using ae n by (auto simp: alg_dir_def ends_with_def)
      next
        case (snoc e' x)
        then have "dir = root @ a # e'" using ae(2) by (metis append_Cons append_assoc butlast_snoc)
        then show False using ae(1) lay by (simp add: doc_layout_def)
      qed
    qed
  qed
  have "ends_with n ''.json'' \<and> ends_with (tmp_of n) ''.json.tmp''" if "ends_with n sfx" for n
    using json_suffix_ends [OF sfx that] by (auto simp: ends_with_iff tmp_of_json)
  then show ?thesis
    using store names files dirs lay by (simp add: registry_inv_def doc_layout_def)
qed

text \<open>Both calls of \<open>open\<close>: the root of the blobs and the directory of the registry.\<close>

lemma open_disk:
  assumes lay: "doc_layout root dir" and sfx: "json_suffix sfx"
  obtains s t where "fs_create_dir_all root empty_disk = (Ok (), s)"
    and "fs_create_dir_all dir s = (Ok (), t)" and "fs_files t = []" and "registry_inv J root dir sfx t"
proof -
  obtain s where s: "fs_create_dir_all root empty_disk = (Ok (), s)" "fs_files s = []"
    "set (fs_dirs s) = {[]} \<union> {q. prefix q root}"
    using mkdirs_disk [of empty_disk root] lay by (auto simp: empty_disk_def doc_layout_def)
  obtain t where t: "fs_create_dir_all dir s = (Ok (), t)" "fs_files t = []"
    "set (fs_dirs t) = set (fs_dirs s) \<union> {q. prefix q dir}"
    using mkdirs_disk [of s dir] s(2,3) lay by (auto simp: doc_layout_def)
  have "set (fs_dirs t) = {q. prefix q root \<or> prefix q dir}" using s(3) t(3) by auto
  then show ?thesis using that [OF s(1) t(1,2)] registry_opened [OF lay sfx t(2)] by blast
qed

end
