(* ===== verification/Sodl_Checkpoint.thy ===== *)
theory Sodl_Checkpoint
  imports Sodl_Registry Sodl_Crypto
begin

text \<open>
  Checkpoints, \<open>crates/sodl-service/src/checkpoint_store.rs\<close>: the payload of a checkpoint is
  compressed and stored under its digest in an \<open>FsBlobStore\<close>, and a registry document per origin
  lists the records, oldest first. Saving beyond \<open>max_checkpoints\<close> drops the oldest records and
  collects their blobs. The serialiser, Zstandard and the subtraction of floats are arguments
  (\<open>ckpt_env\<close>); random identifiers and the time are arguments of the calls that draw them.
\<close>

section \<open>Records\<close>

record ckpt =
  ck_id :: string
  ck_blob_id :: blob_id
  ck_origin_id :: string
  ck_step :: u64
  ck_epoch :: "u64 option"
  ck_loss :: "f64 option"
  ck_metrics :: "(string \<times> f64) list"
  ck_parent :: "string option"
  ck_stage :: string
  ck_metadata :: json
  ck_externalized :: bool
  ck_opt_origin :: "string option"
  ck_layout :: "string option"
  ck_block_count :: nat
  ck_datasets :: "string list"
  ck_logs :: "string list"
  ck_size_raw :: nat
  ck_size_stored :: nat
  ck_created_at :: time
  ck_notes :: string

record ckpt_request =
  cq_step :: u64
  cq_epoch :: "u64 option"
  cq_loss :: "f64 option"
  cq_metrics :: "(string \<times> f64) list"
  cq_parent :: "string option"
  cq_stage :: string
  cq_metadata :: json
  cq_externalized :: bool
  cq_opt_origin :: "string option"
  cq_layout :: "string option"
  cq_block_count :: nat
  cq_datasets :: "string list"
  cq_logs :: "string list"
  cq_notes :: string

record ckpt_registry =
  cg_origin_id :: string
  cg_checkpoints :: "ckpt list"

record ckpt_env =
  kp_hashes :: hashes
  kp_registry :: "ckpt_registry codec"
  kp_compress :: "int \<Rightarrow> bytes \<Rightarrow> (string, bytes) outcome"
  kp_decompress :: "bytes \<Rightarrow> (string, bytes) outcome"
  kp_sub :: "f64 \<Rightarrow> f64 \<Rightarrow> f64"

record ckpt_store =
  cs_root :: path
  cs_dir :: path
  cs_level :: int
  cs_max :: nat

definition ckpt_open :: "path \<Rightarrow> path \<Rightarrow> int \<Rightarrow> nat \<Rightarrow> (fs, ckpt_store) op" where
  "ckpt_open root dir level limit =
     bindM (fs_blob_open root) (\<lambda>root'.
     seqM (\<lambda>s. case fs_create_dir_all dir s of
         (Ok u, t) \<Rightarrow> (Ok (), t)
       | (Err k, t) \<Rightarrow> (Err (Io (''create checkpoint registry dir: '' @ io_show k)), t)
       | (Panic, t) \<Rightarrow> (Panic, t))
     (returnM \<lparr>cs_root = root', cs_dir = dir, cs_level = level, cs_max = limit\<rparr>))"


section \<open>The registry\<close>

definition ckpt_path :: "ckpt_store \<Rightarrow> string \<Rightarrow> path" where
  "ckpt_path C org = doc_path (cs_dir C) ''.json'' org"

definition load_registry :: "ckpt_env \<Rightarrow> ckpt_store \<Rightarrow> string \<Rightarrow> (fs, ckpt list) op" where
  "load_registry E C org =
     bindM (readM (\<lambda>s. Ok (fs_exists s (ckpt_path C org)))) (\<lambda>found.
       if \<not> found then returnM []
       else
         bindM (read_doc ''checkpoint registry'' (ckpt_path C org)) (\<lambda>b.
         bindM (pureM (parse_doc ''checkpoint registry'' (ckpt_path C org) (kp_registry E) b)) (\<lambda>g.
         returnM (cg_checkpoints g))))"

definition save_registry :: "ckpt_env \<Rightarrow> ckpt_store \<Rightarrow> string \<Rightarrow> ckpt list \<Rightarrow> (fs, unit) op" where
  "save_registry E C org records =
     bindM (pureM (print_doc ''checkpoint registry'' (kp_registry E)
       \<lparr>cg_origin_id = org, cg_checkpoints = records\<rparr>))
     (replace_doc ''checkpoint registry'' (ckpt_path C org))"

definition registry_refs :: "ckpt_registry \<Rightarrow> blob_id list" where
  "registry_refs g = map ck_blob_id (cg_checkpoints g)"

definition ckpt_referenced :: "ckpt_env \<Rightarrow> ckpt_store \<Rightarrow> (fs, blob_id list) op" where
  "ckpt_referenced E C =
     scan_docs ''checkpoint registry dir'' ''checkpoint registry'' (cs_dir C) ''.json'' (kp_registry E) registry_refs"

definition ckpt_gc :: "ckpt_env \<Rightarrow> ckpt_store \<Rightarrow> blob_id list \<Rightarrow> (fs, nat) op" where
  "ckpt_gc E C candidates = gc_docs (cs_root C) (ckpt_referenced E C) candidates"

definition zstd_at :: "string \<Rightarrow> (string, 'a) outcome \<Rightarrow> 'a res" where
  "zstd_at what r = (case r of
     Ok a \<Rightarrow> Ok a
   | Err e \<Rightarrow> Err (Compression (what @ '': '' @ e))
   | Panic \<Rightarrow> Panic)"

definition ckpt_compress :: "ckpt_env \<Rightarrow> ckpt_store \<Rightarrow> bytes \<Rightarrow> bytes res" where
  "ckpt_compress E C d = zstd_at ''compress checkpoint payload'' (kp_compress E (cs_level C) d)"

definition ckpt_decompress :: "ckpt_env \<Rightarrow> bytes \<Rightarrow> bytes res" where
  "ckpt_decompress E d = zstd_at ''decompress checkpoint payload'' (kp_decompress E d)"

definition find_record :: "ckpt list \<Rightarrow> string option \<Rightarrow> ckpt res" where
  "find_record records cid =
     (if records = [] then Err NotFound
      else case cid of
        Some i \<Rightarrow> of_option NotFound (find (\<lambda>r. ck_id r = i) records)
      | None \<Rightarrow> Ok (last records))"


section \<open>Operations\<close>

definition ckpt_record ::
  "string \<Rightarrow> bytes \<Rightarrow> bytes \<Rightarrow> blob_id \<Rightarrow> ckpt_request \<Rightarrow> uuid \<Rightarrow> time \<Rightarrow> ckpt" where
  "ckpt_record org payload compressed bid q u now =
     \<lparr>ck_id = ''ckpt:'' @ uuid_show u, ck_blob_id = bid, ck_origin_id = org,
      ck_step = cq_step q, ck_epoch = cq_epoch q, ck_loss = cq_loss q, ck_metrics = cq_metrics q,
      ck_parent = cq_parent q, ck_stage = cq_stage q, ck_metadata = cq_metadata q,
      ck_externalized = cq_externalized q, ck_opt_origin = cq_opt_origin q, ck_layout = cq_layout q,
      ck_block_count = cq_block_count q, ck_datasets = cq_datasets q, ck_logs = cq_logs q,
      ck_size_raw = length payload, ck_size_stored = length compressed, ck_created_at = now,
      ck_notes = cq_notes q\<rparr>"

text \<open>\<open>records.drain(..records.len() - max)\<close>: what is evicted and what stays.\<close>

definition surplus :: "nat \<Rightarrow> 'a list \<Rightarrow> nat" where
  "surplus limit records =
     (if 0 < limit \<and> limit < length records then length records - limit else 0)"

definition save_checkpoint ::
  "ckpt_env \<Rightarrow> ckpt_store \<Rightarrow> string \<Rightarrow> bytes \<Rightarrow> ckpt_request \<Rightarrow> uuid \<Rightarrow> time \<Rightarrow> (fs, ckpt) op" where
  "save_checkpoint E C org payload q u now =
     bindM (pureM (ckpt_compress E C payload)) (\<lambda>compressed.
     let bid = compute_blob_id (kp_hashes E) compressed Blake3;
         r = ckpt_record org payload compressed bid q u now in
     bindM (fs_blob_has (cs_root C) bid) (\<lambda>found.
     seqM (if found then returnM () else fs_blob_put (cs_root C) bid compressed)
     (bindM (load_registry E C org) (\<lambda>old.
      let records = old @ [r]; n = surplus (cs_max C) records in
      seqM (save_registry E C org (drop n records))
      (bindM (ckpt_gc E C (remdups (map ck_blob_id (take n records)))) (\<lambda>_.
       returnM r))))))"

definition load_checkpoint :: "ckpt_env \<Rightarrow> ckpt_store \<Rightarrow> string \<Rightarrow> string option \<Rightarrow> (fs, bytes) op" where
  "load_checkpoint E C org cid =
     bindM (load_registry E C org) (\<lambda>records.
     bindM (pureM (find_record records cid)) (\<lambda>r.
     bindM (fs_blob_get (cs_root C) (ck_blob_id r)) (\<lambda>compressed.
     pureM (ckpt_decompress E compressed))))"

definition list_checkpoints :: "ckpt_env \<Rightarrow> ckpt_store \<Rightarrow> string \<Rightarrow> (fs, ckpt list) op" where
  "list_checkpoints E C org = load_registry E C org"

definition get_checkpoint :: "ckpt_env \<Rightarrow> ckpt_store \<Rightarrow> string \<Rightarrow> string option \<Rightarrow> (fs, ckpt) op" where
  "get_checkpoint E C org cid =
     bindM (load_registry E C org) (\<lambda>records. pureM (find_record records cid))"

definition delete_checkpoint :: "ckpt_env \<Rightarrow> ckpt_store \<Rightarrow> string \<Rightarrow> string \<Rightarrow> (fs, bool) op" where
  "delete_checkpoint E C org cid =
     bindM (load_registry E C org) (\<lambda>records.
     let removed = filter (\<lambda>r. ck_id r = cid) records;
         retained = filter (\<lambda>r. ck_id r \<noteq> cid) records in
     if removed = [] then returnM False
     else
       seqM (save_registry E C org retained)
       (bindM (ckpt_gc E C (remdups (map ck_blob_id removed))) (\<lambda>_. returnM True)))"

text \<open>
  The loop of \<open>get_lineage\<close> follows the parents until one is missing. Nothing bounds it: on a cycle
  of parents it does not return, so it is a partial function whose \<open>None\<close> is divergence.
\<close>

definition records_by_id :: "ckpt list \<Rightarrow> (string, ckpt) hmap" where
  "records_by_id records = fold (\<lambda>r m. hput (ck_id r) r m) records []"

partial_function (option) lineage_loop :: "(string, ckpt) hmap \<Rightarrow> ckpt \<Rightarrow> ckpt list \<Rightarrow> ckpt list option" where
  "lineage_loop m current lineage =
     (case ck_parent current of
        None \<Rightarrow> Some (lineage @ [current])
      | Some pid \<Rightarrow>
          (case hget m pid of
             None \<Rightarrow> Some (lineage @ [current])
           | Some parent \<Rightarrow> lineage_loop m parent (lineage @ [current])))"

definition get_lineage :: "ckpt_env \<Rightarrow> ckpt_store \<Rightarrow> string \<Rightarrow> string option \<Rightarrow> fs \<Rightarrow> (ckpt list res \<times> fs) option" where
  "get_lineage E C org cid s =
     (case load_registry E C org s of
        (Err e, t) \<Rightarrow> Some (Err e, t)
      | (Panic, t) \<Rightarrow> Some (Panic, t)
      | (Ok records, t) \<Rightarrow>
          if records = [] then Some (Ok [], t)
          else (case find_record records cid of
              Err e \<Rightarrow> Some (Err e, t)
            | Panic \<Rightarrow> Some (Panic, t)
            | Ok r \<Rightarrow> map_option (\<lambda>l. (Ok (rev l), t)) (lineage_loop (records_by_id records) r [])))"

text \<open>\<open>i64::try_from(step).unwrap_or(i64::MAX)\<close>; a JSON number cannot hold infinities and NaNs.\<close>

definition step_i64 :: "u64 \<Rightarrow> int" where
  "step_i64 w = min (uint w) (2 ^ 63 - 1)"

definition json_f64 :: "f64 \<Rightarrow> json" where
  "json_f64 w = (if f64_finite w then JFloat w else JNull)"

definition metric_deltas :: "ckpt_env \<Rightarrow> (string \<times> f64) list \<Rightarrow> (string \<times> f64) list \<Rightarrow> (string \<times> json) list" where
  "metric_deltas E old new =
     concat (map (\<lambda>(k, x). case map_of new k of
         Some y \<Rightarrow> [(k, json_f64 (kp_sub E y x))] | None \<Rightarrow> []) old)"

definition diff_checkpoints :: "ckpt_env \<Rightarrow> ckpt_store \<Rightarrow> string \<Rightarrow> string \<Rightarrow> string \<Rightarrow> (fs, json) op" where
  "diff_checkpoints E C org old_id new_id =
     bindM (load_registry E C org) (\<lambda>records.
     bindM (pureM (find_record records (Some old_id))) (\<lambda>old.
     bindM (pureM (find_record records (Some new_id))) (\<lambda>new.
     returnM (JObj
       [(''loss_delta'', case (ck_loss old, ck_loss new) of
           (Some x, Some y) \<Rightarrow> json_f64 (kp_sub E y x) | _ \<Rightarrow> JNull),
        (''metric_deltas'', JObj (metric_deltas E (ck_metrics old) (ck_metrics new))),
        (''step_delta'', JInt (step_i64 (ck_step new) - step_i64 (ck_step old)))]))))"



section \<open>What the code relies on\<close>

text \<open>
  A registry with finite metrics reads back with every field but the values of the floats, which a
  decimal form need not keep to the last bit; what is read never holds an infinity or a NaN; a
  registry with one is written with \<open>null\<close> in its place, which is not read as a number.
\<close>

definition finite_ckpt :: "ckpt \<Rightarrow> bool" where
  "finite_ckpt r \<longleftrightarrow> list_all (\<lambda>(k, w). f64_finite w) (ck_metrics r)"

definition same_ckpt :: "ckpt \<Rightarrow> ckpt" where
  "same_ckpt r = r\<lparr>ck_loss := None, ck_metrics := map (\<lambda>(k, w). (k, 0)) (ck_metrics r), ck_metadata := JNull\<rparr>"

text \<open>What is relied on. That every document reads back, however deep its metadata are nested, is an
  idealisation: \<open>serde_json\<close> stops at 128 levels.\<close>

definition ckpt_env_ok :: "ckpt_env \<Rightarrow> bool" where
  "ckpt_env_ok E \<longleftrightarrow>
     (\<forall>g. list_all finite_ckpt (cg_checkpoints g) \<longrightarrow>
        (\<exists>b g'. to_vec (kp_registry E) g = Ok b \<and> from_slice (kp_registry E) b = Ok g'
          \<and> map same_ckpt (cg_checkpoints g') = map same_ckpt (cg_checkpoints g)))
     \<and> (\<forall>b g. from_slice (kp_registry E) b = Ok g \<longrightarrow> list_all finite_ckpt (cg_checkpoints g))
     \<and> (\<forall>g. \<exists>b. to_vec (kp_registry E) g = Ok b
          \<and> (\<not> list_all finite_ckpt (cg_checkpoints g) \<longrightarrow> (\<exists>e. from_slice (kp_registry E) b = Err e)))
     \<and> (\<forall>level b. \<exists>z. kp_compress E level b = Ok z \<and> kp_decompress E z = Ok b)
     \<and> hash_ok (kp_hashes E)"

lemma same_ckpt_fields:
  assumes "same_ckpt r = same_ckpt r'"
  shows "ck_id r = ck_id r'" and "ck_blob_id r = ck_blob_id r'" and "ck_parent r = ck_parent r'"
proof -
  have "ck_id (same_ckpt r) = ck_id (same_ckpt r')" "ck_blob_id (same_ckpt r) = ck_blob_id (same_ckpt r')"
    "ck_parent (same_ckpt r) = ck_parent (same_ckpt r')" using assms by simp_all
  then show "ck_id r = ck_id r'" and "ck_blob_id r = ck_blob_id r'" and "ck_parent r = ck_parent r'"
    by (simp_all add: same_ckpt_def)
qed

lemma same_map:
  assumes "map same_ckpt rs = map same_ckpt rs'" and "\<And>r r'. same_ckpt r = same_ckpt r' \<Longrightarrow> f r = f r'"
  shows "map f rs = map f rs'"
  using assms(1)
proof (induction rs arbitrary: rs')
  case Nil
  then show ?case by simp
next
  case (Cons r rs)
  obtain r' rs2 where "rs' = r' # rs2" "same_ckpt r = same_ckpt r'" "map same_ckpt rs = map same_ckpt rs2"
    using Cons.prems by (cases rs') auto
  then show ?case using Cons.IH [of rs2] assms(2) [of r r'] by simp
qed


section \<open>The abstract store\<close>

text \<open>
  Abstractly the store is a list of records with their payloads for every file name.
  \<open>ckpt_rel\<close> relates it to the file system: the documents list those records, the blob of every
  record is stored and holds its payload, and every stored blob is one of a set \<open>Z\<close> of compressed
  payloads without collisions.
\<close>

type_synonym ckpt_view = "string \<Rightarrow> (ckpt \<times> bytes) list"

definition ckpt_name :: "string \<Rightarrow> string" where
  "ckpt_name org = doc_name ''.json'' org"

definition records_at :: "ckpt_env \<Rightarrow> ckpt_store \<Rightarrow> fs \<Rightarrow> string \<Rightarrow> ckpt list" where
  "records_at E C s n = (case doc_at (kp_registry E) (cs_dir C) s n of
     Some g \<Rightarrow> cg_checkpoints g | None \<Rightarrow> [])"

definition holds_payload :: "ckpt_env \<Rightarrow> ckpt_store \<Rightarrow> fs \<Rightarrow> ckpt \<Rightarrow> bytes \<Rightarrow> bool" where
  "holds_payload E C s r p \<longleftrightarrow>
     (\<exists>z. fs_blobs (cs_root C) s (ck_blob_id r) = Some z \<and> kp_decompress E z = Ok p)"

definition view_refs :: "ckpt_view \<Rightarrow> blob_id set" where
  "view_refs A = {ck_blob_id r | n r p. ends_with n ''.json'' \<and> (r, p) \<in> set (A n)}"

definition ckpt_rel :: "ckpt_env \<Rightarrow> ckpt_store \<Rightarrow> bytes set \<Rightarrow> fs \<Rightarrow> ckpt_view \<Rightarrow> bool" where
  "ckpt_rel E C Z s A \<longleftrightarrow>
     registry_inv (kp_registry E) (cs_root C) (cs_dir C) ''.json'' s
     \<and> (\<forall>n. ends_with n ''.json'' \<longrightarrow>
          map same_ckpt (records_at E C s n) = map (same_ckpt \<circ> fst) (A n)
          \<and> (\<forall>(r, p) \<in> set (A n). good_blob_id (ck_blob_id r) \<and> holds_payload E C s r p))
     \<and> content_addressed (kp_hashes E) Z (cs_root C) s"

lemma json_suffix_json [simp]: "json_suffix ''.json''"
  by (simp add: json_suffix_def ends_with_def)

lemma ckpt_name_json [simp]: "ends_with (ckpt_name org) ''.json''"
  by (simp add: ckpt_name_def doc_name_ends)

lemma ckpt_path_name: "ckpt_path C org = cs_dir C @ [ckpt_name org]"
  by (simp add: ckpt_path_def ckpt_name_def doc_path_child)

lemma rel_registry: "ckpt_rel E C Z s A \<Longrightarrow> registry_inv (kp_registry E) (cs_root C) (cs_dir C) ''.json'' s"
  by (simp add: ckpt_rel_def)

lemma rel_records:
  "ckpt_rel E C Z s A \<Longrightarrow> ends_with n ''.json'' \<Longrightarrow> map same_ckpt (records_at E C s n) = map (same_ckpt \<circ> fst) (A n)"
  by (simp add: ckpt_rel_def)

lemma rel_payload:
  assumes "ckpt_rel E C Z s A" and "ends_with n ''.json''" and "(r, p) \<in> set (A n)"
  shows "good_blob_id (ck_blob_id r)" and "holds_payload E C s r p"
  using assms unfolding ckpt_rel_def by blast+

lemma load_registry_Ok:
  assumes "registry_inv (kp_registry E) (cs_root C) (cs_dir C) ''.json'' s"
  shows "load_registry E C org s = (Ok (records_at E C s (ckpt_name org)), s)"
proof (cases "doc_at (kp_registry E) (cs_dir C) s (ckpt_name org)")
  case None
  then have "\<not> fs_exists s (ckpt_path C org)"
    using registry_exists [OF assms, of "ckpt_name org"] by (simp add: ckpt_path_name)
  then show ?thesis using None by (simp add: load_registry_def records_at_def bindM_bool)
next
  case (Some g)
  then have "fs_exists s (ckpt_path C org)"
    using registry_exists [OF assms, of "ckpt_name org"] by (simp add: ckpt_path_name)
  moreover obtain b where "read_doc ''checkpoint registry'' (ckpt_path C org) s = (Ok b, s)"
    "from_slice (kp_registry E) b = Ok g"
    using registry_read [OF assms json_suffix_json ckpt_name_json Some] unfolding ckpt_path_name by blast
  ultimately show ?thesis
    using Some by (simp add: load_registry_def records_at_def bindM_Ok parse_doc_Ok)
qed

lemma records_finite:
  assumes "ckpt_env_ok E"
  shows "list_all finite_ckpt (records_at E C s n)"
  using assms by (auto simp: records_at_def doc_at_def try_parse_def ckpt_env_ok_def split: option.splits outcome.splits)

lemma save_registry_Ok:
  assumes env: "ckpt_env_ok E" and inv: "registry_inv (kp_registry E) (cs_root C) (cs_dir C) ''.json'' s"
    and fin: "list_all finite_ckpt rs"
  obtains t where "save_registry E C org rs s = (Ok (), t)"
    and "registry_inv (kp_registry E) (cs_root C) (cs_dir C) ''.json'' t"
    and "fs_blobs (cs_root C) t = fs_blobs (cs_root C) s"
    and "map same_ckpt (records_at E C t (ckpt_name org)) = map same_ckpt rs"
    and "\<And>n. ends_with n ''.json'' \<Longrightarrow> n \<noteq> ckpt_name org \<Longrightarrow> records_at E C t n = records_at E C s n"
proof -
  obtain b g where b: "to_vec (kp_registry E) \<lparr>cg_origin_id = org, cg_checkpoints = rs\<rparr> = Ok b"
    "from_slice (kp_registry E) b = Ok g" "map same_ckpt (cg_checkpoints g) = map same_ckpt rs"
    using env fin unfolding ckpt_env_ok_def by (metis ckpt_registry.select_convs(2))
  obtain t where t: "replace_doc ''checkpoint registry'' (cs_dir C @ [ckpt_name org]) b s = (Ok (), t)"
    "registry_inv (kp_registry E) (cs_root C) (cs_dir C) ''.json'' t"
    "fs_blobs (cs_root C) t = fs_blobs (cs_root C) s"
    "\<And>m. ends_with m ''.json'' \<Longrightarrow> doc_at (kp_registry E) (cs_dir C) t m
       = (if m = ckpt_name org then Some g else doc_at (kp_registry E) (cs_dir C) s m)"
    by (rule replace_doc_Ok [OF inv json_suffix_json ckpt_name_json b(2)]) blast
  have "save_registry E C org rs s = (Ok (), t)"
    using t(1) b(1) by (simp add: save_registry_def print_doc_def ckpt_path_name)
  then show ?thesis
    by (rule that) (use t b(3) in \<open>simp_all add: records_at_def\<close>)
qed



section \<open>Steps\<close>

lemma doc_refs_view:
  assumes "\<And>n. ends_with n ''.json'' \<Longrightarrow> map same_ckpt (records_at E C s n) = map (same_ckpt \<circ> fst) (A n)"
  shows "doc_refs (kp_registry E) (cs_dir C) ''.json'' registry_refs s = view_refs A"
proof -
  have ids: "ck_blob_id ` set (records_at E C s n) = ck_blob_id ` fst ` set (A n)" if "ends_with n ''.json''" for n
  proof -
    have "map same_ckpt (records_at E C s n) = map same_ckpt (map fst (A n))" using assms [OF that] by simp
    then have "map ck_blob_id (records_at E C s n) = map ck_blob_id (map fst (A n))"
      by (rule same_map) (rule same_ckpt_fields)
    then have "set (map ck_blob_id (records_at E C s n)) = set (map ck_blob_id (map fst (A n)))"
      by (rule arg_cong [where f = set])
    then show ?thesis by (simp add: image_image)
  qed
  have "doc_refs (kp_registry E) (cs_dir C) ''.json'' registry_refs s
      = {b. \<exists>n. ends_with n ''.json'' \<and> b \<in> ck_blob_id ` set (records_at E C s n)}"
    by (force simp: doc_refs_def records_at_def registry_refs_def split: option.splits)
  also have "\<dots> = {b. \<exists>n. ends_with n ''.json'' \<and> b \<in> ck_blob_id ` fst ` set (A n)}"
    by (rule Collect_cong, rule ex_cong1, rule conj_cong) (simp_all only: ids)
  also have "\<dots> = view_refs A" by (force simp: view_refs_def)
  finally show ?thesis .
qed

text \<open>Writing a new list of records and collecting what it no longer needs.\<close>

lemma commit_step:
  assumes env: "ckpt_env_ok E" and rel: "ckpt_rel E C Z s A"
    and rs: "list_all finite_ckpt rs" "map same_ckpt rs = map (same_ckpt \<circ> fst) new"
    and new: "\<And>r p. (r, p) \<in> set new \<Longrightarrow> good_blob_id (ck_blob_id r) \<and> holds_payload E C s r p"
    and bs: "\<And>b. b \<in> set bs \<Longrightarrow> good_blob_id b"
  shows "\<exists>k t. bindM (save_registry E C org rs) (\<lambda>_. ckpt_gc E C bs) s = (Ok k, t)
    \<and> ckpt_rel E C Z t (A(ckpt_name org := new))
    \<and> fs_blobs (cs_root C) t = (\<lambda>b. if b \<in> set bs \<and> b \<notin> view_refs (A(ckpt_name org := new)) then None
      else fs_blobs (cs_root C) s b)"
proof -
  let ?A = "A(ckpt_name org := new)"
  obtain u where u: "save_registry E C org rs s = (Ok (), u)"
    "registry_inv (kp_registry E) (cs_root C) (cs_dir C) ''.json'' u"
    "fs_blobs (cs_root C) u = fs_blobs (cs_root C) s"
    "map same_ckpt (records_at E C u (ckpt_name org)) = map same_ckpt rs"
    "\<And>n. ends_with n ''.json'' \<Longrightarrow> n \<noteq> ckpt_name org \<Longrightarrow> records_at E C u n = records_at E C s n"
    using save_registry_Ok [OF env rel_registry [OF rel] rs(1)] by metis
  have recs: "map same_ckpt (records_at E C u n) = map (same_ckpt \<circ> fst) (?A n)" if "ends_with n ''.json''" for n
    using u(4) u(5) [OF that] rs(2) rel_records [OF rel that] by (cases "n = ckpt_name org") simp_all
  have refs: "doc_refs (kp_registry E) (cs_dir C) ''.json'' registry_refs u = view_refs ?A"
    by (rule doc_refs_view) (rule recs)
  obtain k t where t: "gc_docs (cs_root C) (scan_docs ''checkpoint registry dir'' ''checkpoint registry'' (cs_dir C) ''.json''
      (kp_registry E) registry_refs) bs u = (Ok k, t)"
    "registry_inv (kp_registry E) (cs_root C) (cs_dir C) ''.json'' t"
    "\<And>n. ends_with n ''.json'' \<Longrightarrow> doc_at (kp_registry E) (cs_dir C) t n = doc_at (kp_registry E) (cs_dir C) u n"
    "fs_blobs (cs_root C) t = (\<lambda>b. if b \<in> set bs \<and> b \<notin> view_refs ?A then None else fs_blobs (cs_root C) u b)"
    using gc_docs_Ok [OF u(2) json_suffix_json bs, where refs = registry_refs
        and dnoun = "''checkpoint registry dir''" and noun = "''checkpoint registry''"]
    unfolding refs by blast
  have recs_t: "records_at E C t n = records_at E C u n" if "ends_with n ''.json''" for n
    using t(3) [OF that] by (simp add: records_at_def)
  have pay: "good_blob_id (ck_blob_id r) \<and> holds_payload E C t r p"
    if n: "ends_with n ''.json''" and rp: "(r, p) \<in> set (?A n)" for n r p
  proof -
    have "good_blob_id (ck_blob_id r) \<and> holds_payload E C s r p"
      using new rel_payload [OF rel n] rp by (cases "n = ckpt_name org") auto
    moreover have "ck_blob_id r \<in> view_refs ?A" using n rp unfolding view_refs_def by blast
    ultimately show ?thesis by (simp add: holds_payload_def t(4) u(3))
  qed
  have "ckpt_rel E C Z t ?A"
    unfolding ckpt_rel_def
  proof (intro conjI allI impI ballI)
    show "registry_inv (kp_registry E) (cs_root C) (cs_dir C) ''.json'' t" by (rule t(2))
    show "content_addressed (kp_hashes E) Z (cs_root C) t"
      by (rule content_collected [of _ _ _ s]) (use rel in \<open>auto simp: ckpt_rel_def t(4) u(3) split: if_splits\<close>)
    show "map same_ckpt (records_at E C t n) = map (same_ckpt \<circ> fst) (?A n)" if "ends_with n ''.json''" for n
      using recs [OF that] recs_t [OF that] by simp
  qed (use pay in auto)
  moreover have "bindM (save_registry E C org rs) (\<lambda>_. ckpt_gc E C bs) s = (Ok k, t)"
    using u(1) t(1) by (simp add: bindM_Ok ckpt_gc_def ckpt_referenced_def)
  ultimately show ?thesis using t(4) unfolding u(3) by blast
qed

lemma keep_blob:
  assumes env: "ckpt_env_ok E" and rel: "ckpt_rel E C Z s A" and z: "z \<in> Z"
    and b: "b = compute_blob_id (kp_hashes E) z Blake3"
  obtains t where "bindM (fs_blob_has (cs_root C) b) (\<lambda>found.
      if found then returnM () else fs_blob_put (cs_root C) b z) s = (Ok (), t)"
    and "ckpt_rel E C Z t A"
    and "fs_blobs (cs_root C) t = (fs_blobs (cs_root C) s)(b \<mapsto> z)"
proof -
  have H: "hash_ok (kp_hashes E)" using env by (simp add: ckpt_env_ok_def)
  have ca: "content_addressed (kp_hashes E) Z (cs_root C) s" using rel by (simp add: ckpt_rel_def)
  obtain t where t: "bindM (fs_blob_has (cs_root C) b) (\<lambda>found.
      if found then returnM () else fs_blob_put (cs_root C) b z) s = (Ok (), t)"
    "registry_inv (kp_registry E) (cs_root C) (cs_dir C) ''.json'' t"
    "content_addressed (kp_hashes E) Z (cs_root C) t"
    "fs_blobs (cs_root C) t = (fs_blobs (cs_root C) s)(b \<mapsto> z)"
    "\<And>n. ends_with n ''.json'' \<Longrightarrow> doc_at (kp_registry E) (cs_dir C) t n = doc_at (kp_registry E) (cs_dir C) s n"
    "\<And>x d. fs_blobs (cs_root C) s x = Some d \<Longrightarrow> fs_blobs (cs_root C) t x = Some d"
    by (rule content_put [OF rel_registry [OF rel] H ca z b]) blast
  have recs: "records_at E C t n = records_at E C s n" if "ends_with n ''.json''" for n
    using t(5) [OF that] by (simp add: records_at_def)
  have pay: "holds_payload E C t r p" if "holds_payload E C s r p" for r p
    using that t(6) unfolding holds_payload_def by blast
  have "ckpt_rel E C Z t A"
    unfolding ckpt_rel_def
  proof (intro conjI allI impI ballI)
    show "map same_ckpt (records_at E C t n) = map (same_ckpt \<circ> fst) (A n)" if "ends_with n ''.json''" for n
      using rel_records [OF rel that] recs [OF that] by simp
  qed (use rel_payload [OF rel] pay t(2,3) in auto)
  then show ?thesis using that t(1,4) by blast
qed

lemma bind_seq: "bindM m (\<lambda>x. seqM (f x) k) s = seqM (bindM m f) k s"
  by (simp add: seqM_def bindM_def split: prod.split outcome.split)

lemma seq_bind: "seqM m (bindM k f) s = bindM (bindM m (\<lambda>_. k)) f s"
  by (simp add: seqM_def bindM_def split: prod.split outcome.split)

lemma save_checkpoint_run:
  assumes z: "kp_compress E (cs_level C) p = Ok z"
    and b: "b = compute_blob_id (kp_hashes E) z Blake3" and r: "r = ckpt_record org p z b q u now"
    and keep: "bindM (fs_blob_has (cs_root C) b) (\<lambda>found.
      if found then returnM () else fs_blob_put (cs_root C) b z) s = (Ok (), v)"
  shows "save_checkpoint E C org p q u now s
    = bindM (load_registry E C org) (\<lambda>old.
        let records = old @ [r]; n = surplus (cs_max C) records in
        seqM (save_registry E C org (drop n records))
        (bindM (ckpt_gc E C (remdups (map ck_blob_id (take n records)))) (\<lambda>_. returnM r))) v"
proof -
  have "ckpt_compress E C p = Ok z" by (simp add: ckpt_compress_def zstd_at_def z)
  then show ?thesis
    unfolding save_checkpoint_def
    by (simp only: bindM_pure Let_def b [symmetric] r [symmetric] bind_seq) (rule seqM_Ok, rule keep)
qed

lemma save_step:
  assumes env: "ckpt_env_ok E" and rel: "ckpt_rel E C Z s A"
    and fin: "list_all (\<lambda>(k, w). f64_finite w) (cq_metrics q)"
    and z: "kp_compress E (cs_level C) p = Ok z" "z \<in> Z"
    and r: "r = ckpt_record org p z (compute_blob_id (kp_hashes E) z Blake3) q v now"
    and new: "new = A (ckpt_name org) @ [(r, p)]"
    and n: "n = surplus (cs_max C) new"
  obtains t where "save_checkpoint E C org p q v now s = (Ok r, t)"
    and "ckpt_rel E C Z t (A(ckpt_name org := drop n new))"
    and "fs_blobs (cs_root C) t = (\<lambda>b. if b \<in> ck_blob_id ` fst ` set (take n new)
        \<and> b \<notin> view_refs (A(ckpt_name org := drop n new)) then None
      else ((fs_blobs (cs_root C) s)(ck_blob_id r \<mapsto> z)) b)"
proof -
  let ?b = "compute_blob_id (kp_hashes E) z Blake3" and ?n = "ckpt_name org"
  have good: "good_blob_id ?b" using env unfolding ckpt_env_ok_def by (simp only: hash_ok_good)
  have rb: "ck_blob_id r = ?b" by (simp add: r ckpt_record_def)
  obtain u where u: "bindM (fs_blob_has (cs_root C) ?b) (\<lambda>found.
      if found then returnM () else fs_blob_put (cs_root C) ?b z) s = (Ok (), u)"
    "ckpt_rel E C Z u A" "fs_blobs (cs_root C) u = (fs_blobs (cs_root C) s)(?b \<mapsto> z)"
    by (rule keep_blob [OF env rel z(2) refl])
  let ?rs = "records_at E C u ?n @ [r]"
  have same: "map same_ckpt ?rs = map (same_ckpt \<circ> fst) new"
    using rel_records [OF u(2), of ?n] by (simp add: new)
  have len: "length ?rs = length new" using arg_cong [OF same, of length] by simp
  then have nn: "n = surplus (cs_max C) ?rs" by (simp add: n surplus_def)
  have fin_rs: "list_all finite_ckpt (drop n ?rs)"
    using records_finite [OF env, of C u ?n] fin
    by (auto simp: list_all_iff finite_ckpt_def r ckpt_record_def dest!: in_set_dropD)
  have same_drop: "map same_ckpt (drop n ?rs) = map (same_ckpt \<circ> fst) (drop n new)"
    using arg_cong [OF same, of "drop n"] by (simp only: drop_map)
  have "kp_decompress E z = Ok p"
    using env z(1) unfolding ckpt_env_ok_def by (metis outcome.inject(1))
  then have "holds_payload E C u r p" by (simp add: holds_payload_def rb u(3))
  then have hold: "good_blob_id (ck_blob_id r') \<and> holds_payload E C u r' p'" if "(r', p') \<in> set new" for r' p'
    using that rel_payload [OF u(2), of ?n r' p'] good rb by (auto simp: new simp del: compute_blob_id.simps)
  have hold_drop: "good_blob_id (ck_blob_id r') \<and> holds_payload E C u r' p'" if "(r', p') \<in> set (drop n new)" for r' p'
    using hold in_set_dropD [OF that] .
  have "map same_ckpt (take n ?rs) = map same_ckpt (map fst (take n new))"
    using arg_cong [OF same, of "take n"] by (simp only: take_map map_map)
  then have "map ck_blob_id (take n ?rs) = map ck_blob_id (map fst (take n new))"
    by (rule same_map) (rule same_ckpt_fields)
  then have evicted: "set (map ck_blob_id (take n ?rs)) = ck_blob_id ` fst ` set (take n new)"
    by (simp add: image_image)
  have good_evicted: "good_blob_id b" if "b \<in> set (remdups (map ck_blob_id (take n ?rs)))" for b
  proof -
    have "b \<in> ck_blob_id ` fst ` set (take n new)" using that unfolding set_remdups evicted .
    then show ?thesis using hold by (auto dest: in_set_takeD)
  qed
  obtain k t where t: "bindM (save_registry E C org (drop n ?rs))
      (\<lambda>_. ckpt_gc E C (remdups (map ck_blob_id (take n ?rs)))) u = (Ok k, t)"
    "ckpt_rel E C Z t (A(?n := drop n new))"
    "fs_blobs (cs_root C) t = (\<lambda>b. if b \<in> set (remdups (map ck_blob_id (take n ?rs)))
        \<and> b \<notin> view_refs (A(?n := drop n new)) then None else fs_blobs (cs_root C) u b)"
    using commit_step [OF env u(2) fin_rs same_drop hold_drop good_evicted] by blast
  have "save_checkpoint E C org p q v now s = (Ok r, t)"
    unfolding save_checkpoint_run [OF z(1) refl r u(1)]
    using t(1) load_registry_Ok [OF rel_registry [OF u(2)], of org]
    by (simp add: Let_def bindM_Ok seq_bind nn [symmetric])
  then show ?thesis using that t(2,3) unfolding set_remdups evicted u(3) rb by blast
qed


lemma same_filter:
  assumes "map same_ckpt rs = map (same_ckpt \<circ> fst) new"
  shows "map same_ckpt (filter (\<lambda>r. Q (ck_id r)) rs) = map (same_ckpt \<circ> fst) (filter (\<lambda>(r, p). Q (ck_id r)) new)"
  using assms
proof (induction rs arbitrary: new)
  case Nil
  then show ?case by simp
next
  case (Cons r rs)
  obtain r' p new' where n: "new = (r', p) # new'" "same_ckpt r = same_ckpt r'"
    "map same_ckpt rs = map (same_ckpt \<circ> fst) new'"
    using Cons.prems by (cases new) auto
  show ?case using Cons.IH [OF n(3)] same_ckpt_fields(1) [OF n(2)] n(1,2) by (simp add: split_def)
qed

lemma same_find:
  assumes "map same_ckpt rs = map (same_ckpt \<circ> fst) new"
  shows "map_option same_ckpt (find (\<lambda>r. ck_id r = i) rs)
    = map_option (same_ckpt \<circ> fst) (find (\<lambda>(r, p). ck_id r = i) new)"
  using assms
proof (induction rs arbitrary: new)
  case Nil
  then show ?case by simp
next
  case (Cons r rs)
  obtain r' p new' where n: "new = (r', p) # new'" "same_ckpt r = same_ckpt r'"
    "map same_ckpt rs = map (same_ckpt \<circ> fst) new'"
    using Cons.prems by (cases new) auto
  show ?case using Cons.IH [OF n(3)] same_ckpt_fields(1) [OF n(2)] n(1,2) by simp
qed

lemma delete_step:
  assumes env: "ckpt_env_ok E" and rel: "ckpt_rel E C Z s A"
    and kept: "kept = filter (\<lambda>(r, p). ck_id r \<noteq> cid) (A (ckpt_name org))"
    and gone: "gone = filter (\<lambda>(r, p). ck_id r = cid) (A (ckpt_name org))"
  obtains t where "delete_checkpoint E C org cid s = (Ok (gone \<noteq> []), t)"
    and "ckpt_rel E C Z t (A(ckpt_name org := kept))"
    and "fs_blobs (cs_root C) t = (\<lambda>b. if b \<in> ck_blob_id ` fst ` set gone
        \<and> b \<notin> view_refs (A(ckpt_name org := kept)) then None else fs_blobs (cs_root C) s b)"
proof -
  let ?n = "ckpt_name org" and ?rs = "records_at E C s (ckpt_name org)"
  let ?removed = "filter (\<lambda>r. ck_id r = cid) ?rs" and ?retained = "filter (\<lambda>r. ck_id r \<noteq> cid) ?rs"
  have same: "map same_ckpt ?removed = map (same_ckpt \<circ> fst) gone"
    "map same_ckpt ?retained = map (same_ckpt \<circ> fst) kept"
    using same_filter [OF rel_records [OF rel, of ?n], of "\<lambda>i. i = cid"]
      same_filter [OF rel_records [OF rel, of ?n], of "\<lambda>i. i \<noteq> cid"] by (simp_all add: gone kept)
  have load: "load_registry E C org s = (Ok ?rs, s)" by (rule load_registry_Ok [OF rel_registry [OF rel]])
  have empty: "?removed = [] \<longleftrightarrow> gone = []" using arg_cong [OF same(1), of length] by auto
  show ?thesis
  proof (cases "gone = []")
    case True
    then have "kept = A ?n" by (auto simp: gone kept filter_empty_conv intro!: filter_True)
    then show ?thesis
      using that [of s] True empty load rel by (simp add: delete_checkpoint_def bindM_Ok)
  next
    case False
    have fin: "list_all finite_ckpt ?retained" using records_finite [OF env, of C s ?n] by (auto simp: list_all_iff)
    have "map same_ckpt ?removed = map same_ckpt (map fst gone)" using same(1) by simp
    then have "map ck_blob_id ?removed = map ck_blob_id (map fst gone)"
      by (rule same_map) (rule same_ckpt_fields)
    then have removed: "set (map ck_blob_id ?removed) = ck_blob_id ` fst ` set gone"
      by (simp only: set_map)
    have good: "good_blob_id b" if "b \<in> set (remdups (map ck_blob_id ?removed))" for b
      using that rel_payload(1) [OF rel, of ?n] unfolding set_remdups removed by (auto simp: gone)
    have hold: "good_blob_id (ck_blob_id r) \<and> holds_payload E C s r p" if "(r, p) \<in> set kept" for r p
      using that rel_payload [OF rel, of ?n r p] by (simp add: kept)
    obtain k t where t: "bindM (save_registry E C org ?retained)
        (\<lambda>_. ckpt_gc E C (remdups (map ck_blob_id ?removed))) s = (Ok k, t)"
      "ckpt_rel E C Z t (A(?n := kept))"
      "fs_blobs (cs_root C) t = (\<lambda>b. if b \<in> set (remdups (map ck_blob_id ?removed))
        \<and> b \<notin> view_refs (A(?n := kept)) then None else fs_blobs (cs_root C) s b)"
      using commit_step [OF env rel fin same(2) hold good] by blast
    have "delete_checkpoint E C org cid s = (Ok (gone \<noteq> []), t)"
      using t(1) load False empty by (simp add: delete_checkpoint_def bindM_Ok Let_def seq_bind)
    then show ?thesis using that t(2,3) unfolding set_remdups removed by blast
  qed
qed

text \<open>Reading is reading the abstract list.\<close>

definition view_load :: "(ckpt \<times> bytes) list \<Rightarrow> string option \<Rightarrow> bytes res" where
  "view_load l cid =
     (if l = [] then Err NotFound
      else case cid of
        Some i \<Rightarrow> (case find (\<lambda>(r, p). ck_id r = i) l of Some (r, p) \<Rightarrow> Ok p | None \<Rightarrow> Err NotFound)
      | None \<Rightarrow> Ok (snd (last l)))"

lemma load_step:
  assumes env: "ckpt_env_ok E" and rel: "ckpt_rel E C Z s A"
  shows "load_checkpoint E C org cid s = (view_load (A (ckpt_name org)) cid, s)"
proof -
  let ?n = "ckpt_name org" and ?rs = "records_at E C s (ckpt_name org)"
  note same = rel_records [OF rel, of ?n, simplified]
  have load: "load_registry E C org s = (Ok ?rs, s)" by (rule load_registry_Ok [OF rel_registry [OF rel]])
  have empty: "?rs = [] \<longleftrightarrow> A ?n = []" using arg_cong [OF same, of length] by auto
  have get: "bindM (fs_blob_get (cs_root C) (ck_blob_id r)) (\<lambda>z. pureM (ckpt_decompress E z)) s = (Ok p, s)"
    if r: "same_ckpt r = same_ckpt r'" and p: "(r', p) \<in> set (A ?n)" for r r' p
  proof -
    obtain z where "fs_blobs (cs_root C) s (ck_blob_id r) = Some z" "kp_decompress E z = Ok p"
      using rel_payload(2) [OF rel _ p] same_ckpt_fields(2) [OF r] by (auto simp: holds_payload_def)
    moreover have "good_blob_id (ck_blob_id r)"
      using rel_payload(1) [OF rel _ p] same_ckpt_fields(2) [OF r] by simp
    ultimately show ?thesis
      using fs_get_law [OF registry_store [OF rel_registry [OF rel]]]
      by (simp add: bindM_Ok ckpt_decompress_def zstd_at_def)
  qed
  show ?thesis
  proof (cases "A ?n = []")
    case True
    then show ?thesis using load empty
      by (simp add: load_checkpoint_def find_record_def view_load_def bindM_Ok bindM_Err)
  next
    case ne: False
    show ?thesis
    proof (cases cid)
      case None
      have "last (map same_ckpt ?rs) = last (map (same_ckpt \<circ> fst) (A ?n))" using same by simp
      then have "same_ckpt (last ?rs) = same_ckpt (fst (last (A ?n)))" using ne empty by (simp add: last_map)
      moreover have "(fst (last (A ?n)), snd (last (A ?n))) \<in> set (A ?n)" using ne by simp
      ultimately show ?thesis using None load ne empty get
        by (simp add: load_checkpoint_def find_record_def view_load_def bindM_Ok)
    next
      case (Some i)
      note fnd = same_find [OF same, of i]
      show ?thesis
      proof (cases "find (\<lambda>(r, p). ck_id r = i) (A ?n)")
        case None
        then show ?thesis using fnd Some load ne empty
          by (simp add: load_checkpoint_def find_record_def view_load_def bindM_Ok bindM_Err)
      next
        case (Some rp)
        then obtain r' p where rp: "find (\<lambda>(r, p). ck_id r = i) (A ?n) = Some (r', p)" by (cases rp) simp
        then obtain r where r: "find (\<lambda>r. ck_id r = i) ?rs = Some r" "same_ckpt r = same_ckpt r'" using fnd by auto
        have "(r', p) \<in> set (A ?n)" using rp nth_mem by (fastforce simp: find_Some_iff)
        then show ?thesis using \<open>cid = Some i\<close> load ne empty get [OF r(2)] r(1) rp
          by (simp add: load_checkpoint_def find_record_def view_load_def bindM_Ok)
      qed
    qed
  qed
qed



section \<open>Histories\<close>

datatype ckpt_event =
    SaveCkpt string bytes ckpt_request uuid time
  | DropCkpt string string

fun ckpt_perform :: "ckpt_env \<Rightarrow> ckpt_store \<Rightarrow> ckpt_event \<Rightarrow> (fs, unit) op" where
  "ckpt_perform E C (SaveCkpt org p q u now) = bindM (save_checkpoint E C org p q u now) (\<lambda>_. returnM ())"
| "ckpt_perform E C (DropCkpt org cid) = bindM (delete_checkpoint E C org cid) (\<lambda>_. returnM ())"

text \<open>
  What an event does to the abstract store: a save appends the record with its payload and keeps the
  newest \<open>max_checkpoints\<close> (all of them if that is zero), a deletion drops the identifier. The lists
  are indexed by the name of the file, which two origins may share.
\<close>

definition saved_record :: "ckpt_env \<Rightarrow> ckpt_store \<Rightarrow> string \<Rightarrow> bytes \<Rightarrow> ckpt_request \<Rightarrow> uuid \<Rightarrow> time \<Rightarrow> ckpt" where
  "saved_record E C org p q u now =
     (case kp_compress E (cs_level C) p of
        Ok z \<Rightarrow> ckpt_record org p z (compute_blob_id (kp_hashes E) z Blake3) q u now
      | _ \<Rightarrow> ckpt_record org p [] [] q u now)"

fun ckpt_effect :: "ckpt_env \<Rightarrow> ckpt_store \<Rightarrow> ckpt_event \<Rightarrow> ckpt_view \<Rightarrow> ckpt_view" where
  "ckpt_effect E C (SaveCkpt org p q u now) A =
     (let new = A (ckpt_name org) @ [(saved_record E C org p q u now, p)] in
      A(ckpt_name org := drop (surplus (cs_max C) new) new))"
| "ckpt_effect E C (DropCkpt org cid) A =
     A(ckpt_name org := filter (\<lambda>(r, p). ck_id r \<noteq> cid) (A (ckpt_name org)))"

text \<open>The events a client can count on: finite metrics, and payloads of \<open>Z\<close> when compressed.\<close>

fun ckpt_allowed :: "ckpt_env \<Rightarrow> ckpt_store \<Rightarrow> bytes set \<Rightarrow> ckpt_event \<Rightarrow> bool" where
  "ckpt_allowed E C Z (SaveCkpt org p q u now) \<longleftrightarrow>
     list_all (\<lambda>(k, w). f64_finite w) (cq_metrics q) \<and> (\<exists>z \<in> Z. kp_compress E (cs_level C) p = Ok z)"
| "ckpt_allowed E C Z (DropCkpt org cid) \<longleftrightarrow> True"

definition ckpt_exact :: "ckpt_store \<Rightarrow> fs \<Rightarrow> ckpt_view \<Rightarrow> bool" where
  "ckpt_exact C s A \<longleftrightarrow> (\<forall>b. fs_blobs (cs_root C) s b \<noteq> None \<longleftrightarrow> b \<in> view_refs A)"

definition entry_ids :: "(ckpt \<times> bytes) list \<Rightarrow> blob_id set" where
  "entry_ids l = ck_blob_id ` fst ` set l"

lemma entry_ids_append: "entry_ids (xs @ ys) = entry_ids xs \<union> entry_ids ys"
  by (simp add: entry_ids_def image_Un)

lemma view_refs_upd:
  assumes "ends_with n ''.json''"
  shows "view_refs (A(n := l)) = entry_ids l \<union> view_refs (A(n := []))"
proof -
  have union: "view_refs B = (\<Union>m \<in> {m. ends_with m ''.json''}. entry_ids (B m))" for B
    by (force simp: view_refs_def entry_ids_def)
  have split: "view_refs (A(n := l))
      = entry_ids l \<union> (\<Union>m \<in> {m. ends_with m ''.json''} - {n}. entry_ids (A m))" for l
    unfolding union using assms by (auto split: if_splits)
  show ?thesis using split [of l] split [of "[]"] by (simp add: entry_ids_def)
qed

text \<open>The stored blobs stay exactly the referenced ones when what is dropped is collected.\<close>

lemma exact_step:
  assumes exact: "ckpt_exact C s A" and n: "ends_with n ''.json''"
    and all: "entry_ids gone \<union> entry_ids kept = X \<union> entry_ids (A n)"
    and blobs: "\<And>b. fs_blobs (cs_root C) t b \<noteq> None \<longleftrightarrow>
      \<not> (b \<in> entry_ids gone \<and> b \<notin> view_refs (A(n := kept))) \<and> (b \<in> X \<or> fs_blobs (cs_root C) s b \<noteq> None)"
  shows "ckpt_exact C t (A(n := kept))"
proof -
  have old: "b \<in> view_refs A \<longleftrightarrow> b \<in> entry_ids (A n) \<or> b \<in> view_refs (A(n := []))" for b
    using view_refs_upd [OF n, of A "A n"] by simp
  have new: "b \<in> view_refs (A(n := kept)) \<longleftrightarrow> b \<in> entry_ids kept \<or> b \<in> view_refs (A(n := []))" for b
    using view_refs_upd [OF n, of A kept] by simp
  have al: "b \<in> entry_ids gone \<or> b \<in> entry_ids kept \<longleftrightarrow> b \<in> X \<or> b \<in> entry_ids (A n)" for b
    using all by (simp add: set_eq_iff)
  have ex: "fs_blobs (cs_root C) s b \<noteq> None \<longleftrightarrow> b \<in> view_refs A" for b
    using exact unfolding ckpt_exact_def by (rule spec)
  show ?thesis
    unfolding ckpt_exact_def
  proof
    fix b
    show "fs_blobs (cs_root C) t b \<noteq> None \<longleftrightarrow> b \<in> view_refs (A(n := kept))"
      using blobs [of b] old [of b] new [of b] al [of b] ex [of b] by argo
  qed
qed

lemma ckpt_event_step:
  assumes env: "ckpt_env_ok E" and rel: "ckpt_rel E C Z s A" and exact: "ckpt_exact C s A"
    and ok: "ckpt_allowed E C Z ev"
  shows "\<exists>t. ckpt_perform E C ev s = (Ok (), t) \<and> ckpt_rel E C Z t (ckpt_effect E C ev A)
    \<and> ckpt_exact C t (ckpt_effect E C ev A)"
proof (cases ev)
  case (SaveCkpt org p q u now)
  obtain z where z: "kp_compress E (cs_level C) p = Ok z" "z \<in> Z" using ok SaveCkpt by auto
  define r where "r = ckpt_record org p z (compute_blob_id (kp_hashes E) z Blake3) q u now"
  define new where "new = A (ckpt_name org) @ [(r, p)]"
  define k where "k = surplus (cs_max C) new"
  have fin: "list_all (\<lambda>(k, w). f64_finite w) (cq_metrics q)" using ok SaveCkpt by simp
  obtain t where t: "save_checkpoint E C org p q u now s = (Ok r, t)"
    "ckpt_rel E C Z t (A(ckpt_name org := drop k new))"
    "fs_blobs (cs_root C) t = (\<lambda>b. if b \<in> ck_blob_id ` fst ` set (take k new)
        \<and> b \<notin> view_refs (A(ckpt_name org := drop k new)) then None
      else ((fs_blobs (cs_root C) s)(ck_blob_id r \<mapsto> z)) b)"
    by (rule save_step [OF env rel fin z r_def new_def k_def])
  have eff: "ckpt_effect E C ev A = A(ckpt_name org := drop k new)"
    by (simp add: SaveCkpt saved_record_def z(1) Let_def r_def new_def k_def)
  have "entry_ids (take k new) \<union> entry_ids (drop k new) = {ck_blob_id r} \<union> entry_ids (A (ckpt_name org))"
    unfolding entry_ids_append [symmetric] append_take_drop_id new_def by (auto simp: entry_ids_def)
  then have "ckpt_exact C t (A(ckpt_name org := drop k new))"
    by (rule exact_step [OF exact ckpt_name_json]) (auto simp: t(3) entry_ids_def)
  then show ?thesis unfolding eff using t(1,2) SaveCkpt by (simp add: bindM_Ok)
next
  case (DropCkpt org cid)
  define kept where "kept = filter (\<lambda>(r, p). ck_id r \<noteq> cid) (A (ckpt_name org))"
  define gone where "gone = filter (\<lambda>(r, p). ck_id r = cid) (A (ckpt_name org))"
  obtain t where t: "delete_checkpoint E C org cid s = (Ok (gone \<noteq> []), t)"
    "ckpt_rel E C Z t (A(ckpt_name org := kept))"
    "fs_blobs (cs_root C) t = (\<lambda>b. if b \<in> ck_blob_id ` fst ` set gone
        \<and> b \<notin> view_refs (A(ckpt_name org := kept)) then None else fs_blobs (cs_root C) s b)"
    by (rule delete_step [OF env rel kept_def gone_def])
  have eff: "ckpt_effect E C ev A = A(ckpt_name org := kept)" by (simp add: DropCkpt kept_def)
  have "entry_ids gone \<union> entry_ids kept = {} \<union> entry_ids (A (ckpt_name org))"
    by (force simp: entry_ids_def gone_def kept_def)
  then have "ckpt_exact C t (A(ckpt_name org := kept))"
    by (rule exact_step [OF exact ckpt_name_json]) (auto simp: t(3) entry_ids_def)
  then show ?thesis unfolding eff using t(1,2) DropCkpt by (simp add: bindM_Ok)
qed

definition ckpt_history :: "ckpt_env \<Rightarrow> ckpt_store \<Rightarrow> ckpt_event list \<Rightarrow> ckpt_view" where
  "ckpt_history E C evs = fold (ckpt_effect E C) evs (\<lambda>_. [])"

lemma ckpt_run:
  assumes env: "ckpt_env_ok E" and rel: "ckpt_rel E C Z s A" and exact: "ckpt_exact C s A"
    and ok: "\<And>ev. ev \<in> set evs \<Longrightarrow> ckpt_allowed E C Z ev"
  shows "\<exists>t. forM evs (ckpt_perform E C) s = (Ok (), t) \<and> ckpt_rel E C Z t (fold (ckpt_effect E C) evs A)
    \<and> ckpt_exact C t (fold (ckpt_effect E C) evs A)"
  using rel exact ok
proof (induction evs arbitrary: s A)
  case Nil
  then show ?case by simp
next
  case (Cons ev evs)
  obtain u where u: "ckpt_perform E C ev s = (Ok (), u)" "ckpt_rel E C Z u (ckpt_effect E C ev A)"
    "ckpt_exact C u (ckpt_effect E C ev A)"
    using ckpt_event_step [OF env Cons.prems(1,2), of ev] Cons.prems(3) by auto
  show ?case using Cons.IH [OF u(2,3)] Cons.prems(3) u(1) by (simp add: seqM_Ok)
qed

lemma ckpt_opened:
  assumes env: "ckpt_env_ok E" and lay: "doc_layout root dir" and inj: "inj_on (blake3_hex (kp_hashes E)) Z"
  obtains s where "ckpt_open root dir level limit empty_disk
      = (Ok \<lparr>cs_root = root, cs_dir = dir, cs_level = level, cs_max = limit\<rparr>, s)"
    and "ckpt_rel E \<lparr>cs_root = root, cs_dir = dir, cs_level = level, cs_max = limit\<rparr> Z s (\<lambda>_. [])"
    and "ckpt_exact \<lparr>cs_root = root, cs_dir = dir, cs_level = level, cs_max = limit\<rparr> s (\<lambda>_. [])"
proof -
  obtain u s where us: "fs_create_dir_all root empty_disk = (Ok (), u)"
    "fs_create_dir_all dir u = (Ok (), s)" "fs_files s = []"
    "registry_inv (kp_registry E) root dir ''.json'' s"
    by (rule open_disk [OF lay json_suffix_json])
  show ?thesis
    by (rule that [of s])
      (use us inj in \<open>simp_all add: ckpt_open_def fs_blob_open_def map_io_def bindM_def seqM_def ckpt_rel_def
        ckpt_exact_def records_at_def doc_at_def fs_blobs_def view_refs_def content_addressed_def\<close>)
qed

text \<open>C7: The checkpoint store implements its abstract specification on the file system. After any
  history of saves and deletions from an empty disk (finite metrics, no collisions of digests)
  every call has succeeded; a load by identifier or of the latest checkpoint returns what the
  abstract list says, that is the payload saved under it while it is among the newest
  \<open>max_checkpoints\<close> of its file and not deleted; the stored blobs are exactly those of the listed
  checkpoints, so nothing listed is lost and nothing else is kept, also when payloads are shared.\<close>

theorem checkpoint_store_refines:
  assumes env: "ckpt_env_ok E" and lay: "doc_layout root dir"
    and C_def: "C = \<lparr>cs_root = root, cs_dir = dir, cs_level = level, cs_max = limit\<rparr>"
    and inj: "inj_on (blake3_hex (kp_hashes E)) Z"
    and ok: "\<forall>ev \<in> set evs. ckpt_allowed E C Z ev"
    and A_def: "A = ckpt_history E C evs"
  shows "\<exists>s t. ckpt_open root dir level limit empty_disk = (Ok C, s) \<and> forM evs (ckpt_perform E C) s = (Ok (), t)
    \<and> (\<forall>org cid. load_checkpoint E C org cid t = (view_load (A (ckpt_name org)) cid, t))
    \<and> (\<forall>org. \<exists>rs. list_checkpoints E C org t = (Ok rs, t) \<and> map same_ckpt rs = map (same_ckpt \<circ> fst) (A (ckpt_name org)))
    \<and> (\<forall>b. fs_blobs root t b \<noteq> None \<longleftrightarrow> b \<in> view_refs A)"
proof -
  obtain s where s: "ckpt_open root dir level limit empty_disk = (Ok C, s)"
    "ckpt_rel E C Z s (\<lambda>_. [])" "ckpt_exact C s (\<lambda>_. [])"
    unfolding C_def by (rule ckpt_opened [OF env lay inj])
  obtain t where t: "forM evs (ckpt_perform E C) s = (Ok (), t)" "ckpt_rel E C Z t A" "ckpt_exact C t A"
    using ckpt_run [OF env s(2,3)] ok unfolding A_def ckpt_history_def by blast
  have "list_checkpoints E C org t = (Ok (records_at E C t (ckpt_name org)), t)
    \<and> map same_ckpt (records_at E C t (ckpt_name org)) = map (same_ckpt \<circ> fst) (A (ckpt_name org))" for org
    using load_registry_Ok [OF rel_registry [OF t(2)]] rel_records [OF t(2), of "ckpt_name org"]
    by (simp add: list_checkpoints_def)
  then show ?thesis
    using s(1) t(1,3) load_step [OF env t(2)] by (auto simp: ckpt_exact_def C_def)
qed



section \<open>Lineage\<close>

text \<open>No record names itself or a later record as its parent.\<close>

fun parents_before :: "ckpt list \<Rightarrow> bool" where
  "parents_before [] = True"
| "parents_before (r # rs) \<longleftrightarrow>
     list_all (\<lambda>x. ck_parent r \<noteq> Some (ck_id x)) (r # rs) \<and> parents_before rs"

lemma parents_before_append:
  "parents_before (xs @ ys) \<longleftrightarrow> parents_before xs \<and> parents_before ys
     \<and> (\<forall>x \<in> set xs. \<forall>y \<in> set ys. ck_parent x \<noteq> Some (ck_id y))"
  by (induction xs) (auto simp: list_all_iff)

lemma parents_before_drop: "parents_before rs \<Longrightarrow> parents_before (drop n rs)"
  using parents_before_append [of "take n rs" "drop n rs"] by simp

lemma parents_before_filter: "parents_before rs \<Longrightarrow> parents_before (filter Q rs)"
  by (induction rs) (auto simp: list_all_iff)

lemma records_by_id_mem:
  assumes "hget (records_by_id rs) i = Some r"
  shows "r \<in> set rs \<and> ck_id r = i"
proof -
  have "hget (fold (\<lambda>r m. hput (ck_id r) r m) rs m) i = Some r \<Longrightarrow>
      (r \<in> set rs \<and> ck_id r = i) \<or> hget m i = Some r" for m
    by (induction rs arbitrary: m) (fastforce split: if_splits)+
  from this [of "[]"] show ?thesis using assms by (simp add: records_by_id_def)
qed

text \<open>What the loop returns: the records from the requested one back to one without a listed parent.\<close>

fun lineage_chain :: "(string, ckpt) hmap \<Rightarrow> ckpt list \<Rightarrow> bool" where
  "lineage_chain m [] = False"
| "lineage_chain m [r] = (case ck_parent r of None \<Rightarrow> True | Some i \<Rightarrow> hget m i = None)"
| "lineage_chain m (r # x # l) \<longleftrightarrow>
     (case ck_parent r of None \<Rightarrow> False | Some i \<Rightarrow> hget m i = Some x) \<and> lineage_chain m (x # l)"

lemma lineage_loop_returns:
  assumes "parents_before (xs @ r # ys)"
  shows "\<exists>l. lineage_loop (records_by_id (xs @ r # ys)) r acc = Some (acc @ r # l)
    \<and> lineage_chain (records_by_id (xs @ r # ys)) (r # l)"
  using assms
proof (induction xs arbitrary: r ys acc rule: length_induct)
  case (1 xs)
  let ?m = "records_by_id (xs @ r # ys)"
  show ?case
  proof (cases "\<exists>p i. ck_parent r = Some i \<and> hget ?m i = Some p")
    case False
    then have "lineage_loop ?m r acc = Some (acc @ [r]) \<and> lineage_chain ?m [r]"
      by (subst lineage_loop.simps) (auto split: option.splits)
    then show ?thesis by (intro exI [of _ "[]"]) simp
  next
    case True
    then obtain p i where p: "ck_parent r = Some i" "hget ?m i = Some p" by blast
    then have mem: "p \<in> set (xs @ r # ys)" "ck_id p = i" using records_by_id_mem by blast+
    have "p \<notin> set (r # ys)"
      using "1.prems" p(1) mem(2) by (auto simp: parents_before_append list_all_iff)
    then have "p \<in> set xs" using mem(1) by auto
    then obtain us vs where uv: "xs = us @ p # vs" by (meson split_list)
    then have eq: "xs @ r # ys = us @ p # (vs @ r # ys)" by simp
    have "length us < length xs" using uv by simp
    then obtain l where l: "lineage_loop (records_by_id (us @ p # (vs @ r # ys))) p (acc @ [r]) = Some ((acc @ [r]) @ p # l)"
      "lineage_chain (records_by_id (us @ p # (vs @ r # ys))) (p # l)"
      using "1.IH" "1.prems" unfolding eq by blast
    have "lineage_loop ?m r acc = lineage_loop ?m p (acc @ [r])"
      by (subst lineage_loop.simps) (simp add: p)
    then show ?thesis using l p unfolding eq [symmetric] by (intro exI [of _ "p # l"]) simp
  qed
qed

text \<open>On a record that is its own parent the loop never returns.\<close>

lemma lineage_loop_diverges:
  assumes "ck_parent r = Some i" and "hget m i = Some r"
  shows "lineage_loop m r acc = None"
proof -
  have "\<not> (m = m \<and> r = r)" if l: "lineage_loop m r acc = Some l" for l
    by (rule lineage_loop.raw_induct [where P = "\<lambda>m' c acc' l. \<not> (m' = m \<and> c = r)", OF _ l])
      (use assms in \<open>fastforce split: option.splits\<close>)
  then show ?thesis by (cases "lineage_loop m r acc") auto
qed

text \<open>The identifiers are random: no request names one that is drawn by it or later.\<close>

fun fresh_ids :: "string option list \<Rightarrow> ckpt_event list \<Rightarrow> bool" where
  "fresh_ids seen [] = True"
| "fresh_ids seen (SaveCkpt org p q u now # evs) \<longleftrightarrow>
     Some (''ckpt:'' @ uuid_show u) \<notin> set (cq_parent q # seen) \<and> fresh_ids (cq_parent q # seen) evs"
| "fresh_ids seen (DropCkpt org cid # evs) = fresh_ids seen evs"


lemma history_ordered:
  assumes "fresh_ids seen evs"
    and "\<And>n. parents_before (map fst (A n))"
    and "\<And>n x. x \<in> set (map fst (A n)) \<Longrightarrow> ck_parent x \<in> set seen"
  shows "parents_before (map fst (fold (ckpt_effect E C) evs A n))"
  using assms
proof (induction evs arbitrary: seen A)
  case Nil
  then show ?case by simp
next
  case (Cons ev evs)
  show ?case
  proof (cases ev)
    case (SaveCkpt org p q u now)
    let ?r = "saved_record E C org p q u now" and ?n = "ckpt_name org"
    let ?new = "A ?n @ [(?r, p)]"
    have r: "ck_id ?r = ''ckpt:'' @ uuid_show u" "ck_parent ?r = cq_parent q"
      by (simp_all add: saved_record_def ckpt_record_def split: outcome.split)
    have fresh: "ck_parent x \<noteq> Some (ck_id ?r)" if "x \<in> set (map fst ?new)" for x
    proof -
      have "x = ?r \<or> x \<in> set (map fst (A ?n))" using that by simp
      then have "ck_parent x \<in> set (cq_parent q # seen)" using Cons.prems(3) r(2) by auto
      moreover have "Some (ck_id ?r) \<notin> set (cq_parent q # seen)"
        using Cons.prems(1) unfolding r(1) SaveCkpt fresh_ids.simps by blast
      ultimately show ?thesis by metis
    qed
    then have ord: "parents_before (map fst ?new)"
      using Cons.prems(2) [of ?n] by (simp add: parents_before_append)
    have eff: "ckpt_effect E C ev A = A(?n := drop (surplus (cs_max C) ?new) ?new)"
      by (simp add: SaveCkpt Let_def)
    have "parents_before (map fst (ckpt_effect E C ev A m))" for m
      unfolding eff using Cons.prems(2) parents_before_drop [OF ord]
      by (auto simp only: fun_upd_apply drop_map split: if_splits)
    moreover have "ck_parent x \<in> set (cq_parent q # seen)" if "x \<in> set (map fst (ckpt_effect E C ev A m))" for x m
      using that Cons.prems(3) r(2) set_drop_subset unfolding eff by (fastforce split: if_splits)
    ultimately have "parents_before (map fst (fold (ckpt_effect E C) evs (ckpt_effect E C ev A) n))"
      using Cons.IH [of "cq_parent q # seen" "ckpt_effect E C ev A"] Cons.prems(1)
      unfolding SaveCkpt fresh_ids.simps by blast
    then show ?thesis by (simp only: fold_simps)
  next
    case (DropCkpt org cid)
    have eff: "ckpt_effect E C ev A = A(ckpt_name org := filter (\<lambda>(r, p). ck_id r \<noteq> cid) (A (ckpt_name org)))"
      by (simp add: DropCkpt)
    have "parents_before (map fst (filter (\<lambda>(r, p). ck_id r \<noteq> cid) l))" if "parents_before (map fst l)"
      for l :: "(ckpt \<times> bytes) list"
    proof -
      have "map fst (filter (\<lambda>(r, p). ck_id r \<noteq> cid) l) = filter (\<lambda>r. ck_id r \<noteq> cid) (map fst l)"
        by (induction l) auto
      then show ?thesis using parents_before_filter [OF that] by simp
    qed
    then have "parents_before (map fst (ckpt_effect E C ev A m))" for m
      unfolding eff using Cons.prems(2) by simp
    moreover have "ck_parent x \<in> set seen" if "x \<in> set (map fst (ckpt_effect E C ev A m))" for x m
      using that Cons.prems(3) unfolding eff by (fastforce split: if_splits)
    ultimately have "parents_before (map fst (fold (ckpt_effect E C) evs (ckpt_effect E C ev A) n))"
      using Cons.IH [of seen "ckpt_effect E C ev A"] Cons.prems(1) unfolding DropCkpt fresh_ids.simps by blast
    then show ?thesis by (simp only: fold_simps)
  qed
qed

lemma same_parents: "map same_ckpt rs = map same_ckpt rs' \<Longrightarrow> parents_before rs = parents_before rs'"
proof -
  assume same: "map same_ckpt rs = map same_ckpt rs'"
  have "parents_before rs \<longleftrightarrow> parents_before (map same_ckpt rs)" for rs
    by (induction rs) (auto simp: list_all_iff same_ckpt_def)
  then show ?thesis using same by metis
qed

lemma find_record_Ok: "find_record rs cid = Ok r \<Longrightarrow> r \<in> set rs"
  by (auto simp: find_record_def of_option_def find_Some_iff split: if_splits option.splits outcome.splits)

text \<open>C22: The loop of \<open>get_lineage\<close> terminates after every history in which no request names an
  identifier before it is drawn, although nothing in the code bounds it: for every origin and
  every request it returns, and a result is the chain of listed parents of the requested record,
  root first.\<close>

theorem lineage_terminates:
  assumes env: "ckpt_env_ok E" and lay: "doc_layout root dir"
    and C_def: "C = \<lparr>cs_root = root, cs_dir = dir, cs_level = level, cs_max = limit\<rparr>"
    and inj: "inj_on (blake3_hex (kp_hashes E)) Z"
    and ok: "\<forall>ev \<in> set evs. ckpt_allowed E C Z ev" and fresh: "fresh_ids [] evs"
  shows "\<exists>s t. ckpt_open root dir level limit empty_disk = (Ok C, s) \<and> forM evs (ckpt_perform E C) s = (Ok (), t)
    \<and> (\<forall>org cid. \<exists>res. get_lineage E C org cid t = Some (res, t)
        \<and> (\<forall>r. get_checkpoint E C org cid t = (Ok r, t) \<longrightarrow>
             (\<exists>l rs. res = Ok (rev (r # l)) \<and> list_checkpoints E C org t = (Ok rs, t)
                \<and> lineage_chain (records_by_id rs) (r # l))))"
proof -
  obtain s where s: "ckpt_open root dir level limit empty_disk = (Ok C, s)"
    "ckpt_rel E C Z s (\<lambda>_. [])" "ckpt_exact C s (\<lambda>_. [])"
    unfolding C_def by (rule ckpt_opened [OF env lay inj])
  obtain t where t: "forM evs (ckpt_perform E C) s = (Ok (), t)" "ckpt_rel E C Z t (ckpt_history E C evs)"
    using ckpt_run [OF env s(2,3)] ok unfolding ckpt_history_def by blast
  have each: "\<exists>res. get_lineage E C org cid t = Some (res, t)
        \<and> (\<forall>r. get_checkpoint E C org cid t = (Ok r, t) \<longrightarrow>
             (\<exists>l rs. res = Ok (rev (r # l)) \<and> list_checkpoints E C org t = (Ok rs, t)
                \<and> lineage_chain (records_by_id rs) (r # l)))" for org cid
  proof -
    let ?rs = "records_at E C t (ckpt_name org)"
    have load: "load_registry E C org t = (Ok ?rs, t)" by (rule load_registry_Ok [OF rel_registry [OF t(2)]])
    have "parents_before (map fst (ckpt_history E C evs (ckpt_name org)))"
      unfolding ckpt_history_def by (rule history_ordered [OF fresh]) simp_all
    then have ord: "parents_before ?rs"
      using same_parents rel_records [OF t(2), of "ckpt_name org"] by (metis ckpt_name_json map_map)
    show ?thesis
    proof (cases "find_record ?rs cid")
      case (Ok r)
      then obtain us vs where uv: "?rs = us @ r # vs" using find_record_Ok split_list by metis
      then obtain l where "lineage_loop (records_by_id ?rs) r [] = Some (r # l)"
        "lineage_chain (records_by_id ?rs) (r # l)"
        using lineage_loop_returns [of us r vs "[]"] ord by auto
      then show ?thesis using load Ok uv
        by (auto simp: get_lineage_def get_checkpoint_def list_checkpoints_def bindM_Ok)
    next
      case (Err e)
      then show ?thesis using load by (simp add: get_lineage_def get_checkpoint_def bindM_Ok)
    next
      case Panic
      then show ?thesis using load by (simp add: get_lineage_def get_checkpoint_def bindM_Ok)
    qed
  qed
  then show ?thesis using s(1) t(1) by blast
qed



section \<open>A metric that is not a number\<close>

definition unreadable :: "ckpt_env \<Rightarrow> ckpt_store \<Rightarrow> string \<Rightarrow> fs \<Rightarrow> bool" where
  "unreadable E C n s \<longleftrightarrow> fs_store_inv (cs_root C) s \<and> cs_dir C \<in> set (fs_dirs s)
     \<and> cs_dir C @ [n] \<notin> set (fs_dirs s)
     \<and> (case hget (fs_files s) (cs_dir C @ [n]) of
          Some b \<Rightarrow> (case from_slice (kp_registry E) b of Err e \<Rightarrow> True | _ \<Rightarrow> False) | None \<Rightarrow> False)"

lemma load_unreadable:
  assumes "unreadable E C (ckpt_name org) s"
  shows "\<exists>e. load_registry E C org s = (Err (Serialization e), s)"
proof -
  obtain b e where b: "hget (fs_files s) (cs_dir C @ [ckpt_name org]) = Some b" "from_slice (kp_registry E) b = Err e"
    using assms by (auto simp: unreadable_def split: option.splits outcome.splits)
  have wf: "fs_wf s" and dir: "cs_dir C \<in> set (fs_dirs s)" "cs_dir C @ [ckpt_name org] \<notin> set (fs_dirs s)"
    using assms by (simp_all add: unreadable_def fs_store_inv_def)
  have up: "ckpt_name org \<noteq> ''..''" by (rule json_name_not_up [OF ckpt_name_json])
  have "fs_exists s (ckpt_path C org)"
    using fs_exists_child [OF wf dir(1) up] b(1) by (simp add: ckpt_path_name)
  moreover have "read_doc ''checkpoint registry'' (ckpt_path C org) s = (Ok b, s)"
    using fs_read_child [OF wf dir(1) up dir(2)] b(1) by (simp add: ckpt_path_name read_doc_def map_io_def)
  ultimately show ?thesis
    using b(2) by (simp add: load_registry_def bindM_Ok parse_doc_def bindM_Err)
qed




section \<open>A concrete environment\<close>

text \<open>
  Hypotheses about the environment can hold: hashes without collisions, the identity as compressor,
  and a codec that writes everything but the values of floats and the free metadata, after a byte
  that tells whether every metric is finite.
\<close>

type_synonym ckpt_tuple = "string \<times> blob_id \<times> string \<times> u64 \<times> u64 option \<times> string list \<times> string option
  \<times> string \<times> bool \<times> string option \<times> string option \<times> nat \<times> string list \<times> string list \<times> nat \<times> nat \<times> int \<times> string"

definition ckpt_tuple :: "ckpt \<Rightarrow> ckpt_tuple" where
  "ckpt_tuple r = (ck_id r, ck_blob_id r, ck_origin_id r, ck_step r, ck_epoch r, map fst (ck_metrics r), ck_parent r,
     ck_stage r, ck_externalized r, ck_opt_origin r, ck_layout r, ck_block_count r, ck_datasets r, ck_logs r,
     ck_size_raw r, ck_size_stored r, ck_created_at r, ck_notes r)"

fun tuple_ckpt :: "ckpt_tuple \<Rightarrow> ckpt" where
  "tuple_ckpt (i, b, og, st, ep, ms, pa, sg, ex, oo, la, bc, ds, lg, sr, ss, at, no) =
     \<lparr>ck_id = i, ck_blob_id = b, ck_origin_id = og, ck_step = st, ck_epoch = ep, ck_loss = None,
      ck_metrics = map (\<lambda>k. (k, 0)) ms, ck_parent = pa, ck_stage = sg, ck_metadata = JNull,
      ck_externalized = ex, ck_opt_origin = oo, ck_layout = la, ck_block_count = bc, ck_datasets = ds,
      ck_logs = lg, ck_size_raw = sr, ck_size_stored = ss, ck_created_at = at, ck_notes = no\<rparr>"

lemma tuple_same: "tuple_ckpt (ckpt_tuple r) = same_ckpt r"
  by (simp add: ckpt_tuple_def same_ckpt_def split_def)

definition tuple_enc :: "ckpt_tuple enc" where
  "tuple_enc = pair_enc text_enc (pair_enc text_enc (pair_enc text_enc (pair_enc word_enc (pair_enc (opt_enc word_enc)
     (pair_enc texts_enc (pair_enc (opt_enc text_enc) (pair_enc text_enc (pair_enc bool_enc (pair_enc (opt_enc text_enc)
     (pair_enc (opt_enc text_enc) (pair_enc nat_enc (pair_enc texts_enc (pair_enc texts_enc (pair_enc nat_enc
     (pair_enc nat_enc (pair_enc int_enc text_enc))))))))))))))))"

definition tuple_dec :: "ckpt_tuple dec" where
  "tuple_dec = pair_dec text_dec (pair_dec text_dec (pair_dec text_dec (pair_dec word_dec (pair_dec (opt_dec word_dec)
     (pair_dec texts_dec (pair_dec (opt_dec text_dec) (pair_dec text_dec (pair_dec bool_dec (pair_dec (opt_dec text_dec)
     (pair_dec (opt_dec text_dec) (pair_dec nat_dec (pair_dec texts_dec (pair_dec texts_dec (pair_dec nat_dec
     (pair_dec nat_dec (pair_dec int_dec text_dec))))))))))))))))"

lemma tuple_code: "rev_code tuple_enc tuple_dec"
  unfolding tuple_enc_def tuple_dec_def by (intro plain_codes)

definition demo_ckpt_codec :: "ckpt_registry codec" where
  "demo_ckpt_codec = \<lparr>
     to_vec = (\<lambda>g. Ok ((if list_all finite_ckpt (cg_checkpoints g) then 1 else 0)
       # pair_enc text_enc (list_enc tuple_enc) (cg_origin_id g, map ckpt_tuple (cg_checkpoints g)))),
     from_slice = (\<lambda>b. case b of
         [] \<Rightarrow> Err ''EOF while parsing''
       | w # d \<Rightarrow> if w = 0 then Err ''invalid type: null, expected f64''
           else (case pair_dec text_dec (list_dec tuple_dec) d of
               Some ((org, ts), []) \<Rightarrow> Ok \<lparr>cg_origin_id = org, cg_checkpoints = map tuple_ckpt ts\<rparr>
             | _ \<Rightarrow> Err ''trailing characters''))\<rparr>"

definition demo_ckpt_env :: ckpt_env where
  "demo_ckpt_env = \<lparr>kp_hashes = demo_hashes, kp_registry = demo_ckpt_codec,
     kp_compress = (\<lambda>_ b. Ok b), kp_decompress = (\<lambda>b. Ok b), kp_sub = (\<lambda>x y. x)\<rparr>"

lemma demo_ckpt_env_ok: "ckpt_env_ok demo_ckpt_env"
proof -
  have code: "pair_dec text_dec (list_dec tuple_dec) (pair_enc text_enc (list_enc tuple_enc) x) = Some (x, [])" for x
    by (rule rev_code_whole [OF pair_code [OF text_code list_code [OF tuple_code]]])
  have fin: "finite_ckpt (tuple_ckpt x)" for x
    by (induction x rule: tuple_ckpt.induct) (simp add: finite_ckpt_def list_all_iff f64_finite_def)
  have "same_ckpt (same_ckpt r) = same_ckpt r" for r by (simp add: same_ckpt_def split_def)
  then show ?thesis
    using code fin demo_hash_ok
    by (auto simp: ckpt_env_ok_def demo_ckpt_env_def demo_ckpt_codec_def tuple_same comp_def list_all_iff
        split: list.splits if_splits option.splits)
qed

lemma demo_ckpt_inj: "inj_on (blake3_hex (kp_hashes demo_ckpt_env)) Z"
  by (intro inj_onI injD [OF demo_hash_inj [of Blake3]]) (simp add: demo_ckpt_env_def)

definition demo_ckpt_request :: "string option \<Rightarrow> (string \<times> f64) list \<Rightarrow> ckpt_request" where
  "demo_ckpt_request parent metrics = \<lparr>cq_step = 1, cq_epoch = None, cq_loss = None, cq_metrics = metrics, cq_parent = parent,
     cq_stage = ''pretrain'', cq_metadata = JObj [], cq_externalized = False, cq_opt_origin = None, cq_layout = None,
     cq_block_count = 0, cq_datasets = [], cq_logs = [], cq_notes = []\<rparr>"

definition demo_ckpt_store :: "nat \<Rightarrow> ckpt_store" where
  "demo_ckpt_store limit = \<lparr>cs_root = [''srv''], cs_dir = [''srv'', ''checkpoints''], cs_level = 3, cs_max = limit\<rparr>"

lemma demo_ckpt_layout: "doc_layout [''srv''] [''srv'', ''checkpoints'']"
  by code_simp

text \<open>Two origins whose names differ in a colon and a slash share a file: with room for one
  checkpoint, a save for the second evicts the one of the first, which then reads the other's.\<close>

theorem checkpoint_store_refines_witness:
  "\<exists>s t. ckpt_open [''srv''] [''srv'', ''checkpoints''] 3 1 empty_disk = (Ok (demo_ckpt_store 1), s)
    \<and> forM [SaveCkpt ''run:1'' [1, 2] (demo_ckpt_request None []) 5 100, SaveCkpt ''run/1'' [3] (demo_ckpt_request None []) 6 200]
        (ckpt_perform demo_ckpt_env (demo_ckpt_store 1)) s = (Ok (), t)
    \<and> load_checkpoint demo_ckpt_env (demo_ckpt_store 1) ''run:1'' None t = (Ok [3], t)"
proof -
  let ?evs = "[SaveCkpt ''run:1'' [1, 2] (demo_ckpt_request None []) 5 100, SaveCkpt ''run/1'' [3] (demo_ckpt_request None []) 6 200]"
  let ?A = "ckpt_history demo_ckpt_env (demo_ckpt_store 1) ?evs"
  have ok: "\<forall>ev \<in> set ?evs. ckpt_allowed demo_ckpt_env (demo_ckpt_store 1) UNIV ev"
    by (simp add: demo_ckpt_env_def demo_ckpt_request_def)
  obtain s t where st: "ckpt_open [''srv''] [''srv'', ''checkpoints''] 3 1 empty_disk = (Ok (demo_ckpt_store 1), s)"
    "forM ?evs (ckpt_perform demo_ckpt_env (demo_ckpt_store 1)) s = (Ok (), t)"
    "\<forall>org cid. load_checkpoint demo_ckpt_env (demo_ckpt_store 1) org cid t = (view_load (?A (ckpt_name org)) cid, t)"
    using checkpoint_store_refines [OF demo_ckpt_env_ok demo_ckpt_layout demo_ckpt_store_def demo_ckpt_inj ok refl] by blast
  have "ckpt_name ''run:1'' = ''run_1.json''" "ckpt_name ''run/1'' = ''run_1.json''" by code_simp+
  then have "view_load (?A (ckpt_name ''run:1'')) None = Ok [3]"
    by (simp add: ckpt_history_def surplus_def demo_ckpt_store_def view_load_def Let_def)
  then show ?thesis using st by metis
qed

theorem lineage_terminates_witness:
  "\<exists>s t r l rs. ckpt_open [''srv''] [''srv'', ''checkpoints''] 3 0 empty_disk = (Ok (demo_ckpt_store 0), s)
    \<and> forM [SaveCkpt ''run'' [1] (demo_ckpt_request None []) 5 100,
        SaveCkpt ''run'' [2] (demo_ckpt_request (Some (''ckpt:'' @ uuid_show 5)) []) 6 200]
        (ckpt_perform demo_ckpt_env (demo_ckpt_store 0)) s = (Ok (), t)
    \<and> get_checkpoint demo_ckpt_env (demo_ckpt_store 0) ''run'' None t = (Ok r, t)
    \<and> get_lineage demo_ckpt_env (demo_ckpt_store 0) ''run'' None t = Some (Ok (rev (r # l)), t)
    \<and> list_checkpoints demo_ckpt_env (demo_ckpt_store 0) ''run'' t = (Ok rs, t)
    \<and> lineage_chain (records_by_id rs) (r # l)"
proof -
  let ?E = demo_ckpt_env and ?C = "demo_ckpt_store 0"
  let ?evs = "[SaveCkpt ''run'' [1] (demo_ckpt_request None []) 5 100,
      SaveCkpt ''run'' [2] (demo_ckpt_request (Some (''ckpt:'' @ uuid_show 5)) []) 6 200]"
  have ok: "\<forall>ev \<in> set ?evs. ckpt_allowed ?E ?C UNIV ev"
    by (simp add: demo_ckpt_env_def demo_ckpt_request_def)
  have "uuid_show 5 \<noteq> uuid_show 6" by code_simp
  then have fresh: "fresh_ids [] ?evs" by (simp add: demo_ckpt_request_def)
  obtain s t where st: "ckpt_open [''srv''] [''srv'', ''checkpoints''] 3 0 empty_disk = (Ok ?C, s)"
    "forM ?evs (ckpt_perform ?E ?C) s = (Ok (), t)"
    "\<forall>org cid. \<exists>res. get_lineage ?E ?C org cid t = Some (res, t)
        \<and> (\<forall>r. get_checkpoint ?E ?C org cid t = (Ok r, t) \<longrightarrow>
             (\<exists>l rs. res = Ok (rev (r # l)) \<and> list_checkpoints ?E ?C org t = (Ok rs, t)
                \<and> lineage_chain (records_by_id rs) (r # l)))"
    using lineage_terminates [OF demo_ckpt_env_ok demo_ckpt_layout demo_ckpt_store_def demo_ckpt_inj ok fresh] by blast
  obtain s' where s': "ckpt_open [''srv''] [''srv'', ''checkpoints''] 3 0 empty_disk = (Ok ?C, s')"
    "ckpt_rel ?E ?C UNIV s' (\<lambda>_. [])" "ckpt_exact ?C s' (\<lambda>_. [])"
    unfolding demo_ckpt_store_def by (rule ckpt_opened [OF demo_ckpt_env_ok demo_ckpt_layout demo_ckpt_inj])
  then have "s' = s" using st(1) by simp
  then obtain rel: "ckpt_rel ?E ?C UNIV t (ckpt_history ?E ?C ?evs)"
    using ckpt_run [OF demo_ckpt_env_ok s'(2,3), of ?evs] ok st(2) unfolding ckpt_history_def by auto
  have "length (ckpt_history ?E ?C ?evs (ckpt_name ''run'')) = 2"
    by (simp add: ckpt_history_def Let_def surplus_def demo_ckpt_store_def)
  then have "length (records_at ?E ?C t (ckpt_name ''run'')) = 2"
    using arg_cong [OF rel_records [OF rel, of "ckpt_name ''run''"], of length] by simp
  then have "\<exists>r. get_checkpoint ?E ?C ''run'' None t = (Ok r, t)"
    using load_registry_Ok [OF rel_registry [OF rel], of "''run''"]
    by (auto simp: get_checkpoint_def bindM_Ok find_record_def)
  then show ?thesis using st by metis
qed


end
