(* ===== verification/Sodl_Optimizer.thy ===== *)
theory Sodl_Optimizer
  imports Sodl_Registry
begin

text \<open>
  Optimizer state, \<open>crates/sodl-service/src/optimizer_state.rs\<close>: blocks of bytes per origin behind a
  write-back cache. A store stages a block in the cache as dirty; when enough blocks of an origin
  are dirty they are flushed: compressed, put under their digest, and recorded in the manifest of
  the origin, whose replaced blobs are collected. Clean, unpinned blocks are evicted, the least
  recently touched first. The serialiser and Zstandard are arguments (\<open>opt_env\<close>); the readings of
  the clock within one call are one argument of it. The world is the file system, the cache and
  the set of pinned keys; both locks are held for a whole access, so calls are sequential.
\<close>

section \<open>Records\<close>

record opt_block =
  ob_block_id :: string
  ob_blob_id :: blob_id
  ob_step :: u64
  ob_shard_key :: "string option"
  ob_size_raw :: nat
  ob_size_stored :: nat
  ob_stored_at :: time
  ob_metadata :: json

record opt_manifest =
  om_schema :: string
  om_origin_id :: string
  om_blocks :: "(string, opt_block) hmap"
  om_updated_at :: time

definition manifest_new :: "string \<Rightarrow> time \<Rightarrow> opt_manifest" where
  "manifest_new org now =
     \<lparr>om_schema = SODL_SCHEMA_VERSION, om_origin_id = org, om_blocks = [], om_updated_at = now\<rparr>"

record opt_result =
  os_origin_id :: string
  os_block_id :: string
  os_blob_id :: "blob_id option"
  os_step :: u64
  os_staged :: bool
  os_flushed :: bool
  os_size_raw :: nat
  os_size_stored :: nat
  os_dirty_blocks :: nat
  os_metadata :: json

record opt_input =
  oi_block_id :: string
  oi_payload :: bytes
  oi_step :: u64
  oi_shard_key :: "string option"
  oi_metadata :: json

record opt_stats =
  oc_cache_entries :: nat
  oc_dirty_entries :: nat
  oc_pinned_entries :: nat
  oc_cache_capacity :: nat
  oc_writeback_threshold :: nat

record cached_block =
  cb_bytes :: bytes
  cb_step :: u64
  cb_shard_key :: "string option"
  cb_metadata :: json
  cb_dirty :: bool
  cb_pinned :: bool
  cb_last_touch :: time
  cb_latest_record :: "opt_block option"

definition cached_new :: "bytes \<Rightarrow> u64 \<Rightarrow> string option \<Rightarrow> json \<Rightarrow> time \<Rightarrow> cached_block" where
  "cached_new d step shard meta now =
     \<lparr>cb_bytes = d, cb_step = step, cb_shard_key = shard, cb_metadata = meta, cb_dirty = True,
      cb_pinned = False, cb_last_touch = now, cb_latest_record = None\<rparr>"

definition touch :: "time \<Rightarrow> cached_block \<Rightarrow> cached_block" where
  "touch now b = b\<lparr>cb_last_touch := now\<rparr>"

record opt_env =
  op_hashes :: hashes
  op_manifest :: "opt_manifest codec"
  op_compress :: "int \<Rightarrow> bytes \<Rightarrow> (string, bytes) outcome"
  op_decompress :: "bytes \<Rightarrow> (string, bytes) outcome"

record opt_store =
  ot_root :: path
  ot_dir :: path
  ot_level :: int
  ot_capacity :: nat
  ot_threshold :: nat

type_synonym opt_cache = "(string, cached_block) hmap"

record opt_world =
  ow_fs :: fs
  ow_cache :: opt_cache
  ow_pinned :: "string list"

definition on_fs :: "(fs, 'a) op \<Rightarrow> (opt_world, 'a) op" where
  "on_fs = liftM ow_fs (\<lambda>s w. w\<lparr>ow_fs := s\<rparr>)"

definition on_cache :: "(opt_cache \<Rightarrow> opt_cache) \<Rightarrow> (opt_world, unit) op" where
  "on_cache f = modifyM (\<lambda>w. w\<lparr>ow_cache := f (ow_cache w)\<rparr>)"

definition opt_open :: "path \<Rightarrow> path \<Rightarrow> int \<Rightarrow> nat \<Rightarrow> nat \<Rightarrow> (fs, opt_store \<times> opt_world) op" where
  "opt_open root dir level capacity threshold =
     bindM (fs_blob_open root) (\<lambda>root'.
     seqM (\<lambda>s. case fs_create_dir_all dir s of
         (Ok u, t) \<Rightarrow> (Ok (), t)
       | (Err k, t) \<Rightarrow> (Err (Io (''create optimizer registry dir: '' @ io_show k)), t)
       | (Panic, t) \<Rightarrow> (Panic, t))
     (\<lambda>s. (Ok (\<lparr>ot_root = root', ot_dir = dir, ot_level = level, ot_capacity = max capacity 1,
         ot_threshold = max threshold 1\<rparr>, \<lparr>ow_fs = s, ow_cache = [], ow_pinned = []\<rparr>), s)))"


section \<open>The manifest\<close>

definition cache_key :: "string \<Rightarrow> string \<Rightarrow> string" where
  "cache_key org bid = org @ ''::'' @ bid"

definition opt_suffix :: string where
  "opt_suffix = ''.optimizer.json''"

definition manifest_path :: "opt_store \<Rightarrow> string \<Rightarrow> path" where
  "manifest_path C org = doc_path (ot_dir C) opt_suffix org"

definition load_opt_manifest :: "opt_env \<Rightarrow> opt_store \<Rightarrow> string \<Rightarrow> time \<Rightarrow> (fs, opt_manifest) op" where
  "load_opt_manifest E C org now =
     bindM (readM (\<lambda>s. Ok (fs_exists s (manifest_path C org)))) (\<lambda>found.
       if \<not> found then returnM (manifest_new org now)
       else
         bindM (read_doc ''optimizer manifest'' (manifest_path C org)) (\<lambda>b.
         pureM (case from_slice (op_manifest E) b of
             Ok m \<Rightarrow> Ok m
           | Err e \<Rightarrow> Err (Serialization (''parse optimizer manifest: '' @ e))
           | Panic \<Rightarrow> Panic)))"

definition save_opt_manifest :: "opt_env \<Rightarrow> opt_store \<Rightarrow> opt_manifest \<Rightarrow> (fs, unit) op" where
  "save_opt_manifest E C m =
     bindM (pureM (print_doc ''optimizer manifest'' (op_manifest E) m))
     (replace_doc ''optimizer manifest'' (manifest_path C (om_origin_id m)))"

definition manifest_refs :: "opt_manifest \<Rightarrow> blob_id list" where
  "manifest_refs m = map ob_blob_id (hvals (om_blocks m))"

definition opt_referenced :: "opt_env \<Rightarrow> opt_store \<Rightarrow> (fs, blob_id list) op" where
  "opt_referenced E C =
     scan_docs ''optimizer registry dir'' ''optimizer manifest'' (ot_dir C) opt_suffix (op_manifest E) manifest_refs"

definition opt_gc :: "opt_env \<Rightarrow> opt_store \<Rightarrow> blob_id list \<Rightarrow> (fs, nat) op" where
  "opt_gc E C candidates = gc_docs (ot_root C) (opt_referenced E C) candidates"

definition opt_compress :: "opt_env \<Rightarrow> opt_store \<Rightarrow> bytes \<Rightarrow> bytes res" where
  "opt_compress E C d = (case op_compress E (ot_level C) d of
     Ok z \<Rightarrow> Ok z
   | Err e \<Rightarrow> Err (Compression (''compress optimizer block: '' @ e))
   | Panic \<Rightarrow> Panic)"

definition opt_decompress :: "opt_env \<Rightarrow> bytes \<Rightarrow> bytes res" where
  "opt_decompress E d = (case op_decompress E d of
     Ok z \<Rightarrow> Ok z
   | Err e \<Rightarrow> Err (Compression (''decompress optimizer block: '' @ e))
   | Panic \<Rightarrow> Panic)"


section \<open>The cache\<close>

definition starts_with :: "string \<Rightarrow> string \<Rightarrow> bool" where
  "starts_with s p \<longleftrightarrow> take (length p) s = p"

text \<open>\<open>str::split_once("::")\<close>.\<close>

fun split_colons :: "string \<Rightarrow> (string \<times> string) option" where
  "split_colons (x # y # r) =
     (if x = CHR '':'' \<and> y = CHR '':'' then Some ([], r)
      else map_option (\<lambda>(a, b). (x # a, b)) (split_colons (y # r)))"
| "split_colons s = None"

definition opt_evictable :: "string list \<Rightarrow> string \<times> cached_block \<Rightarrow> bool" where
  "opt_evictable pinned e \<longleftrightarrow>
     \<not> cb_dirty (snd e) \<and> \<not> cb_pinned (snd e) \<and> fst e \<notin> set pinned"

fun evict_oldest :: "nat \<Rightarrow> (string \<times> time) list \<Rightarrow> opt_cache \<Rightarrow> opt_cache" where
  "evict_oldest capacity [] cache = cache"
| "evict_oldest capacity ((k, at) # cs) cache =
     (if length cache \<le> capacity then cache else evict_oldest capacity cs (hdel k cache))"

definition enforce_cache_capacity :: "opt_store \<Rightarrow> (opt_world, unit) op" where
  "enforce_cache_capacity C = modifyM (\<lambda>w.
     if length (ow_cache w) \<le> ot_capacity C then w
     else w\<lparr>ow_cache := evict_oldest (ot_capacity C)
       (sort_key snd (map (\<lambda>(k, b). (k, cb_last_touch b)) (filter (opt_evictable (ow_pinned w)) (ow_cache w))))
       (ow_cache w)\<rparr>)"

definition dirty_in :: "string option \<Rightarrow> opt_cache \<Rightarrow> nat" where
  "dirty_in org cache = length (filter (\<lambda>(k, b). cb_dirty b
     \<and> (case org of Some i \<Rightarrow> starts_with k (i @ ''::'') | None \<Rightarrow> True)) cache)"

definition dirty_block_count :: "string option \<Rightarrow> (opt_world, nat) op" where
  "dirty_block_count org = readM (\<lambda>w. Ok (dirty_in org (ow_cache w)))"

definition stage_block ::
  "string list \<Rightarrow> string \<Rightarrow> bytes \<Rightarrow> u64 \<Rightarrow> string option \<Rightarrow> json \<Rightarrow> time \<Rightarrow> opt_cache \<Rightarrow> opt_cache" where
  "stage_block pinned key d step shard meta now cache =
     hentry key (cached_new d step shard meta now)
       (\<lambda>e. touch now (e\<lparr>cb_bytes := d, cb_step := step, cb_shard_key := shard, cb_metadata := meta,
          cb_dirty := True, cb_pinned := key \<in> set pinned\<rparr>)) cache"


section \<open>Flushing\<close>

definition opt_record :: "string \<Rightarrow> blob_id \<Rightarrow> cached_block \<Rightarrow> bytes \<Rightarrow> time \<Rightarrow> opt_block" where
  "opt_record bid blob b compressed now =
     \<lparr>ob_block_id = bid, ob_blob_id = blob, ob_step = cb_step b, ob_shard_key = cb_shard_key b,
      ob_size_raw = length (cb_bytes b), ob_size_stored = length compressed, ob_stored_at = now,
      ob_metadata = cb_metadata b\<rparr>"

definition replaced_by :: "opt_manifest \<Rightarrow> string \<Rightarrow> opt_block \<Rightarrow> blob_id list" where
  "replaced_by m bid r = (case hget (om_blocks m) bid of
     Some old \<Rightarrow> if ob_blob_id old \<noteq> ob_blob_id r then [ob_blob_id old] else []
   | None \<Rightarrow> [])"

text \<open>One dirty block in the loop of \<open>flush_keys\<close>: what it makes of the manifest and the replaced blobs.\<close>

definition flush_dirty ::
  "opt_env \<Rightarrow> opt_store \<Rightarrow> time \<Rightarrow> string \<Rightarrow> cached_block \<Rightarrow> opt_manifest \<times> blob_id list
    \<Rightarrow> (opt_world, opt_manifest \<times> blob_id list) op" where
  "flush_dirty E C now key b acc =
     bindM (pureM (opt_compress E C (cb_bytes b))) (\<lambda>compressed.
     let blob = compute_blob_id (op_hashes E) compressed Blake3 in
     bindM (on_fs (bindM (fs_blob_has (ot_root C) blob) (\<lambda>found.
       if found then returnM () else fs_blob_put (ot_root C) blob compressed))) (\<lambda>_.
     bindM (pureM (of_option (Invalid (''invalid optimizer cache key: '' @ key))
       (map_option snd (split_colons key)))) (\<lambda>bid.
     let r = opt_record bid blob b compressed now; m = fst acc in
     seqM (on_cache (hput key (touch now (b\<lparr>cb_dirty := False, cb_latest_record := Some r\<rparr>))))
     (returnM (m\<lparr>om_blocks := hput bid r (om_blocks m), om_updated_at := now\<rparr>,
        snd acc @ replaced_by m bid r)))))"

definition flush_key ::
  "opt_env \<Rightarrow> opt_store \<Rightarrow> time \<Rightarrow> string \<Rightarrow> opt_manifest \<times> blob_id list \<Rightarrow> (opt_world, opt_manifest \<times> blob_id list) op" where
  "flush_key E C now key acc w =
     (case hget (ow_cache w) key of
        None \<Rightarrow> (Ok acc, w)
      | Some b \<Rightarrow> if \<not> cb_dirty b then (Ok acc, w) else flush_dirty E C now key b acc w)"

fun flush_loop ::
  "opt_env \<Rightarrow> opt_store \<Rightarrow> time \<Rightarrow> string list \<Rightarrow> opt_manifest \<times> blob_id list \<Rightarrow> (opt_world, opt_manifest \<times> blob_id list) op" where
  "flush_loop E C now [] acc = returnM acc"
| "flush_loop E C now (k # ks) acc = bindM (flush_key E C now k acc) (flush_loop E C now ks)"

definition flush_keys :: "opt_env \<Rightarrow> opt_store \<Rightarrow> time \<Rightarrow> string \<Rightarrow> string list \<Rightarrow> (opt_world, opt_manifest) op" where
  "flush_keys E C now org keys =
     bindM (on_fs (load_opt_manifest E C org now)) (\<lambda>m.
     if keys = [] then returnM m
     else
       bindM (flush_loop E C now keys (m, [])) (\<lambda>(m', replaced).
       seqM (on_fs (save_opt_manifest E C m'))
       (bindM (on_fs (opt_gc E C (remdups replaced))) (\<lambda>_.
        seqM (enforce_cache_capacity C) (returnM m')))))"

definition flush_origin :: "opt_env \<Rightarrow> opt_store \<Rightarrow> time \<Rightarrow> string \<Rightarrow> (opt_world, opt_manifest) op" where
  "flush_origin E C now org =
     bindM (readM (\<lambda>w. Ok (filter (\<lambda>k. starts_with k (org @ ''::'')) (hkeys (ow_cache w)))))
       (flush_keys E C now org)"

definition flush_blocks :: "opt_env \<Rightarrow> opt_store \<Rightarrow> time \<Rightarrow> string \<Rightarrow> string list \<Rightarrow> (opt_world, opt_manifest) op" where
  "flush_blocks E C now org bids = flush_keys E C now org (map (cache_key org) bids)"


section \<open>Storing\<close>

definition store_block ::
  "opt_env \<Rightarrow> opt_store \<Rightarrow> time \<Rightarrow> string \<Rightarrow> string \<Rightarrow> bytes \<Rightarrow> u64 \<Rightarrow> string option \<Rightarrow> json \<Rightarrow> (opt_world, opt_result) op" where
  "store_block E C now org bid d step shard meta =
     bindM (readM (\<lambda>w. Ok (ow_pinned w))) (\<lambda>pinned.
     seqM (on_cache (stage_block pinned (cache_key org bid) d step shard meta now))
     (bindM (dirty_block_count (Some org)) (\<lambda>dirty.
      let result = \<lparr>os_origin_id = org, os_block_id = bid, os_blob_id = None, os_step = step, os_staged = True,
            os_flushed = False, os_size_raw = length d, os_size_stored = 0, os_dirty_blocks = dirty,
            os_metadata = meta\<rparr> in
      if dirty < ot_threshold C then returnM result
      else
        bindM (flush_origin E C now org) (\<lambda>m.
        let result' = (case hget (om_blocks m) bid of
              Some r \<Rightarrow> result\<lparr>os_blob_id := Some (ob_blob_id r), os_staged := False, os_flushed := True,
                os_size_stored := ob_size_stored r\<rparr>
            | None \<Rightarrow> result) in
        bindM (dirty_block_count (Some org)) (\<lambda>n. returnM (result'\<lparr>os_dirty_blocks := n\<rparr>))))))"

definition store_blocks :: "opt_env \<Rightarrow> opt_store \<Rightarrow> time \<Rightarrow> string \<Rightarrow> opt_input list \<Rightarrow> (opt_world, opt_result list) op" where
  "store_blocks E C now org inputs =
     (if inputs = [] then returnM []
      else
        bindM (readM (\<lambda>w. Ok (ow_pinned w))) (\<lambda>pinned.
        seqM (on_cache (fold (\<lambda>i. stage_block pinned (cache_key org (oi_block_id i)) (oi_payload i) (oi_step i)
          (oi_shard_key i) (oi_metadata i) now) inputs))
        (bindM (dirty_block_count (Some org)) (\<lambda>dirty.
         bindM (if dirty < ot_threshold C then returnM None
           else bindM (flush_origin E C now org) (\<lambda>m. returnM (Some m))) (\<lambda>manifest.
         bindM (if manifest = None then returnM dirty else dirty_block_count (Some org)) (\<lambda>after.
         returnM (map (\<lambda>i.
           let r = (case manifest of None \<Rightarrow> None | Some m \<Rightarrow> hget (om_blocks m) (oi_block_id i)) in
           \<lparr>os_origin_id = org, os_block_id = oi_block_id i, os_blob_id = map_option ob_blob_id r, os_step = oi_step i,
            os_staged = (r = None), os_flushed = (r \<noteq> None), os_size_raw = length (oi_payload i),
            os_size_stored = (case r of Some x \<Rightarrow> ob_size_stored x | None \<Rightarrow> 0), os_dirty_blocks = after,
            os_metadata = oi_metadata i\<rparr>) inputs)))))))"


section \<open>Loading\<close>

definition hydrated :: "opt_block \<Rightarrow> bytes \<Rightarrow> bool \<Rightarrow> time \<Rightarrow> cached_block" where
  "hydrated r d pinned now =
     \<lparr>cb_bytes = d, cb_step = ob_step r, cb_shard_key = ob_shard_key r, cb_metadata = ob_metadata r, cb_dirty = False,
      cb_pinned = pinned, cb_last_touch = now, cb_latest_record = Some r\<rparr>"

definition fetch_payload :: "opt_env \<Rightarrow> opt_store \<Rightarrow> opt_block \<Rightarrow> (opt_world, bytes) op" where
  "fetch_payload E C r =
     bindM (on_fs (fs_blob_get (ot_root C) (ob_blob_id r))) (\<lambda>compressed.
     pureM (opt_decompress E compressed))"

definition load_block :: "opt_env \<Rightarrow> opt_store \<Rightarrow> time \<Rightarrow> string \<Rightarrow> string \<Rightarrow> (opt_world, bytes) op" where
  "load_block E C now org bid w =
     (case hget (ow_cache w) (cache_key org bid) of
        Some b \<Rightarrow> (Ok (cb_bytes b), w\<lparr>ow_cache := hput (cache_key org bid) (touch now b) (ow_cache w)\<rparr>)
      | None \<Rightarrow>
          bindM (on_fs (load_opt_manifest E C org now)) (\<lambda>m.
          bindM (pureM (of_option NotFound (hget (om_blocks m) bid))) (\<lambda>r.
          bindM (fetch_payload E C r) (\<lambda>d.
          bindM (readM (\<lambda>w. Ok (ow_pinned w))) (\<lambda>pinned.
          seqM (on_cache (hput (cache_key org bid) (hydrated r d (cache_key org bid \<in> set pinned) now)))
          (seqM (enforce_cache_capacity C) (returnM d)))))) w)"

text \<open>\<open>load_blocks\<close>: first the blocks in the cache, then those of the manifest; the others are left out.\<close>

fun cached_blocks :: "time \<Rightarrow> string \<Rightarrow> string list \<Rightarrow> opt_cache \<Rightarrow> (string, bytes) hmap \<Rightarrow> string list
    \<Rightarrow> opt_cache \<times> (string, bytes) hmap \<times> string list" where
  "cached_blocks now org [] cache payloads missing = (cache, payloads, missing)"
| "cached_blocks now org (bid # bids) cache payloads missing =
     (case hget cache (cache_key org bid) of
        Some b \<Rightarrow> cached_blocks now org bids (hput (cache_key org bid) (touch now b) cache)
          (hput bid (cb_bytes b) payloads) missing
      | None \<Rightarrow> cached_blocks now org bids cache payloads (missing @ [bid]))"

fun hydrate_blocks :: "opt_env \<Rightarrow> opt_store \<Rightarrow> opt_manifest \<Rightarrow> string list
    \<Rightarrow> (string \<times> opt_block \<times> bytes) list \<Rightarrow> (opt_world, (string \<times> opt_block \<times> bytes) list) op" where
  "hydrate_blocks E C m [] acc = returnM acc"
| "hydrate_blocks E C m (bid # bids) acc =
     (case hget (om_blocks m) bid of
        None \<Rightarrow> hydrate_blocks E C m bids acc
      | Some r \<Rightarrow> bindM (fetch_payload E C r) (\<lambda>d. hydrate_blocks E C m bids (acc @ [(bid, r, d)])))"

definition load_blocks :: "opt_env \<Rightarrow> opt_store \<Rightarrow> time \<Rightarrow> string \<Rightarrow> string list \<Rightarrow> (opt_world, (string, bytes) hmap) op" where
  "load_blocks E C now org bids w =
     (let (cache, payloads, missing) = cached_blocks now org bids (ow_cache w) [] [] in
      if missing = [] then (Ok payloads, w\<lparr>ow_cache := cache\<rparr>)
      else
        bindM (on_fs (load_opt_manifest E C org now)) (\<lambda>m.
        bindM (readM (\<lambda>w. Ok (ow_pinned w))) (\<lambda>pinned.
        bindM (hydrate_blocks E C m missing []) (\<lambda>found.
        let payloads' = fold (\<lambda>(bid, r, d). hput bid d) found payloads in
        if found = [] then returnM payloads'
        else
          seqM (on_cache (fold (\<lambda>(bid, r, d). hput (cache_key org bid)
            (hydrated r d (cache_key org bid \<in> set pinned) now)) found))
          (seqM (enforce_cache_capacity C) (returnM payloads'))))) (w\<lparr>ow_cache := cache\<rparr>))"

fun prefetch_blocks :: "opt_env \<Rightarrow> opt_store \<Rightarrow> time \<Rightarrow> string \<Rightarrow> string list \<Rightarrow> nat \<Rightarrow> (opt_world, nat) op" where
  "prefetch_blocks E C now org [] n w = (Ok n, w)"
| "prefetch_blocks E C now org (bid # bids) n w =
     (case load_block E C now org bid w of
        (Ok d, w') \<Rightarrow> prefetch_blocks E C now org bids (n + 1) w'
      | (Err e, w') \<Rightarrow> prefetch_blocks E C now org bids n w'
      | (Panic, w') \<Rightarrow> (Panic, w'))"


section \<open>Pinning and evicting\<close>

definition mark_pinned :: "bool \<Rightarrow> string \<Rightarrow> opt_cache \<Rightarrow> opt_cache" where
  "mark_pinned v key cache = (case hget cache key of
     Some b \<Rightarrow> hput key (b\<lparr>cb_pinned := v\<rparr>) cache | None \<Rightarrow> cache)"

definition pin_blocks :: "string \<Rightarrow> string list \<Rightarrow> (opt_world, unit) op" where
  "pin_blocks org bids = modifyM (fold (\<lambda>bid w.
     w\<lparr>ow_pinned := List.insert (cache_key org bid) (ow_pinned w),
       ow_cache := mark_pinned True (cache_key org bid) (ow_cache w)\<rparr>) bids)"

definition unpin_blocks :: "opt_store \<Rightarrow> string \<Rightarrow> string list \<Rightarrow> (opt_world, unit) op" where
  "unpin_blocks C org bids =
     seqM (modifyM (fold (\<lambda>bid w.
       w\<lparr>ow_pinned := removeAll (cache_key org bid) (ow_pinned w),
         ow_cache := mark_pinned False (cache_key org bid) (ow_cache w)\<rparr>) bids))
     (enforce_cache_capacity C)"

fun evict_keys :: "string list \<Rightarrow> string list \<Rightarrow> opt_cache \<Rightarrow> nat \<Rightarrow> opt_cache \<times> nat" where
  "evict_keys pinned [] cache n = (cache, n)"
| "evict_keys pinned (k # ks) cache n =
     (case hget cache k of
        None \<Rightarrow> evict_keys pinned ks cache n
      | Some b \<Rightarrow>
          if cb_dirty b \<or> cb_pinned b \<or> k \<in> set pinned then evict_keys pinned ks cache n
          else evict_keys pinned ks (hdel k cache) (n + 1))"

definition evict_blocks :: "string \<Rightarrow> string list \<Rightarrow> (opt_world, nat) op" where
  "evict_blocks org bids w =
     (case evict_keys (ow_pinned w) (map (cache_key org) bids) (ow_cache w) 0 of
        (cache, n) \<Rightarrow> (Ok n, w\<lparr>ow_cache := cache\<rparr>))"


section \<open>Queries\<close>

definition opt_manifest_of :: "opt_env \<Rightarrow> opt_store \<Rightarrow> time \<Rightarrow> string \<Rightarrow> (opt_world, opt_manifest) op" where
  "opt_manifest_of E C now org = on_fs (load_opt_manifest E C org now)"

definition latest_blob_id :: "opt_env \<Rightarrow> opt_store \<Rightarrow> time \<Rightarrow> string \<Rightarrow> string \<Rightarrow> (opt_world, blob_id option) op" where
  "latest_blob_id E C now org bid =
     bindM (on_fs (load_opt_manifest E C org now)) (\<lambda>m.
     returnM (map_option ob_blob_id (hget (om_blocks m) bid)))"

definition set_cache_capacity :: "nat \<Rightarrow> opt_store \<Rightarrow> opt_store" where
  "set_cache_capacity n C = C\<lparr>ot_capacity := max n 1\<rparr>"

definition cache_stats :: "opt_store \<Rightarrow> (opt_world, opt_stats) op" where
  "cache_stats C = readM (\<lambda>w. Ok
     \<lparr>oc_cache_entries = length (ow_cache w),
      oc_dirty_entries = length (filter (\<lambda>(k, b). cb_dirty b) (ow_cache w)),
      oc_pinned_entries = length (ow_pinned w), oc_cache_capacity = ot_capacity C,
      oc_writeback_threshold = ot_threshold C\<rparr>)"



section \<open>Keys\<close>

text \<open>The key of a block determines origin and block if the origin has no \<open>::\<close> and no colon at its end.\<close>

definition clean_origin :: "string \<Rightarrow> bool" where
  "clean_origin org \<longleftrightarrow> split_colons (org @ '':'') = None"

lemma split_colons_key: "clean_origin org \<Longrightarrow> split_colons (cache_key org bid) = Some (org, bid)"
proof -
  have "split_colons (org @ '':'') = None \<Longrightarrow> split_colons (org @ ''::'' @ bid) = Some (org, bid)"
  proof (induction org)
    case Nil
    then show ?case by simp
  next
    case (Cons x xs)
    show ?case
    proof (cases xs)
      case Nil
      then show ?thesis using Cons.prems by (auto split: if_splits)
    next
      case (Cons y ys)
      then have "\<not> (x = CHR '':'' \<and> y = CHR '':'')" "split_colons (xs @ '':'') = None"
        using \<open>split_colons ((x # xs) @ '':'') = None\<close> by (auto split: if_splits)
      then show ?thesis using Cons.IH Cons by simp
    qed
  qed
  then show "clean_origin org \<Longrightarrow> split_colons (cache_key org bid) = Some (org, bid)"
    by (simp add: clean_origin_def cache_key_def)
qed

lemma cache_key_inj:
  assumes "clean_origin org" and "clean_origin org'"
  shows "cache_key org bid = cache_key org' bid' \<longleftrightarrow> org = org' \<and> bid = bid'"
proof
  assume "cache_key org bid = cache_key org' bid'"
  then have "Some (org, bid) = Some (org', bid')"
    unfolding split_colons_key [OF assms(1), symmetric] split_colons_key [OF assms(2), symmetric] by (rule arg_cong)
  then show "org = org' \<and> bid = bid'" by simp
qed simp

lemma starts_with_iff: "starts_with s p \<longleftrightarrow> (\<exists>r. s = p @ r)"
  by (auto simp: starts_with_def) (metis append_take_drop_id)

lemma key_of_origin:
  assumes "clean_origin org" and "clean_origin org'"
  shows "starts_with (cache_key org' bid) (org @ ''::'') \<longleftrightarrow> org = org'"
proof
  assume "starts_with (cache_key org' bid) (org @ ''::'')"
  then obtain r where "cache_key org' bid = cache_key org r" by (auto simp: starts_with_iff cache_key_def)
  then show "org = org'" using cache_key_inj [OF assms(2,1)] by simp
qed (auto simp: starts_with_iff cache_key_def)


section \<open>What the code relies on\<close>

text \<open>A manifest reads back with every field but the values of floats in the metadata.\<close>

definition same_opt_block :: "opt_block \<Rightarrow> opt_block" where
  "same_opt_block r = r\<lparr>ob_metadata := JNull\<rparr>"

definition opt_env_ok :: "opt_env \<Rightarrow> bool" where
  "opt_env_ok E \<longleftrightarrow>
     (\<forall>m. \<exists>b m'. to_vec (op_manifest E) m = Ok b \<and> from_slice (op_manifest E) b = Ok m'
        \<and> om_origin_id m' = om_origin_id m
        \<and> (\<forall>k. map_option same_opt_block (hget (om_blocks m') k) = map_option same_opt_block (hget (om_blocks m) k)))
     \<and> (\<forall>level b. \<exists>z. op_compress E level b = Ok z \<and> op_decompress E z = Ok b)
     \<and> hash_ok (op_hashes E)"

lemma opt_compress_Ok:
  assumes "opt_env_ok E"
  obtains z where "op_compress E (ot_level C) d = Ok z" and "opt_compress E C d = Ok z" and "op_decompress E z = Ok d"
proof -
  obtain z where "op_compress E (ot_level C) d = Ok z" "op_decompress E z = Ok d"
    using assms unfolding opt_env_ok_def by blast
  then show ?thesis using that by (simp add: opt_compress_def)
qed


section \<open>The abstract store\<close>

text \<open>
  Abstractly the store maps an origin and a block to the bytes stored last. \<open>opt_core\<close> relates it to a
  file system, a cache and the manifests \<open>V\<close> of the origins (those on the disk, but for the one that a
  flush is building): a cached block holds the bytes, and a block that is not dirty in the cache
  is held by its manifest, whose blob decompresses to the bytes.
\<close>

type_synonym opt_view = "string \<Rightarrow> string \<Rightarrow> bytes option"

definition opt_origins :: "string set \<Rightarrow> bool" where
  "opt_origins os \<longleftrightarrow> (\<forall>org \<in> os. clean_origin org) \<and> inj_on safe_name os"

definition block_held :: "opt_env \<Rightarrow> opt_store \<Rightarrow> fs \<Rightarrow> opt_manifest \<Rightarrow> string \<Rightarrow> bytes \<Rightarrow> bool" where
  "block_held E C s m bid p \<longleftrightarrow>
     (\<exists>r z. hget (om_blocks m) bid = Some r \<and> fs_blobs (ot_root C) s (ob_blob_id r) = Some z \<and> op_decompress E z = Ok p)"

definition opt_core ::
  "opt_env \<Rightarrow> opt_store \<Rightarrow> bytes set \<Rightarrow> string set \<Rightarrow> fs \<Rightarrow> opt_cache \<Rightarrow> (string \<Rightarrow> opt_manifest) \<Rightarrow> opt_view \<Rightarrow> bool" where
  "opt_core E C Z os s cache V M \<longleftrightarrow>
     registry_inv (op_manifest E) (ot_root C) (ot_dir C) opt_suffix s
     \<and> content_addressed (op_hashes E) Z (ot_root C) s
     \<and> hwf cache
     \<and> (\<forall>k b. hget cache k = Some b \<longrightarrow> (\<exists>org \<in> os. \<exists>bid. k = cache_key org bid \<and> M org bid = Some (cb_bytes b)))
     \<and> (\<forall>org \<in> os. om_origin_id (V org) = org)
     \<and> (\<forall>org \<in> os. \<forall>bid r. hget (om_blocks (V org)) bid = Some r \<longrightarrow> good_blob_id (ob_blob_id r) \<and> M org bid \<noteq> None)
     \<and> (\<forall>org \<in> os. \<forall>bid p. M org bid = Some p \<longrightarrow>
          (\<exists>z \<in> Z. op_compress E (ot_level C) p = Ok z)
          \<and> ((\<exists>b. hget cache (cache_key org bid) = Some b \<and> cb_dirty b) \<or> block_held E C s (V org) bid p))"

definition opt_name :: "string \<Rightarrow> string" where
  "opt_name org = doc_name opt_suffix org"

definition disk_manifest :: "opt_env \<Rightarrow> opt_store \<Rightarrow> fs \<Rightarrow> string \<Rightarrow> opt_manifest" where
  "disk_manifest E C s org = (case doc_at (op_manifest E) (ot_dir C) s (opt_name org) of
     Some m \<Rightarrow> m | None \<Rightarrow> manifest_new org 0)"

definition opt_rel :: "opt_env \<Rightarrow> opt_store \<Rightarrow> bytes set \<Rightarrow> string set \<Rightarrow> opt_world \<Rightarrow> opt_view \<Rightarrow> bool" where
  "opt_rel E C Z os w M \<longleftrightarrow> opt_core E C Z os (ow_fs w) (ow_cache w) (disk_manifest E C (ow_fs w)) M"

lemma opt_suffix_json [simp]: "json_suffix opt_suffix"
  by (simp add: json_suffix_def opt_suffix_def ends_with_def)

lemma opt_name_ends [simp]: "ends_with (opt_name org) opt_suffix"
  by (simp add: opt_name_def doc_name_ends)

lemma opt_name_inj: "opt_origins os \<Longrightarrow> org \<in> os \<Longrightarrow> org' \<in> os \<Longrightarrow> opt_name org = opt_name org' \<longleftrightarrow> org = org'"
  by (auto simp: opt_origins_def opt_name_def doc_name_def inj_on_def)

lemma manifest_path_name: "manifest_path C org = ot_dir C @ [opt_name org]"
  by (simp add: manifest_path_def opt_name_def doc_path_child)

lemma core_registry: "opt_core E C Z os s cache V M \<Longrightarrow> registry_inv (op_manifest E) (ot_root C) (ot_dir C) opt_suffix s"
  by (simp add: opt_core_def)

lemma load_missing:
  assumes "registry_inv (op_manifest E) (ot_root C) (ot_dir C) opt_suffix s"
    and "doc_at (op_manifest E) (ot_dir C) s (opt_name org) = None"
  shows "load_opt_manifest E C org now s = (Ok (manifest_new org now), s)"
proof -
  have "\<not> fs_exists s (manifest_path C org)"
    using registry_exists [OF assms(1), of "opt_name org"] assms(2) by (simp add: manifest_path_name)
  then show ?thesis by (simp add: load_opt_manifest_def bindM_bool)
qed

lemma load_opt_manifest_Ok:
  assumes "registry_inv (op_manifest E) (ot_root C) (ot_dir C) opt_suffix s"
  obtains m where "load_opt_manifest E C org now s = (Ok m, s)"
    and "om_blocks m = om_blocks (disk_manifest E C s org)" and "om_origin_id m = om_origin_id (disk_manifest E C s org)"
proof (cases "doc_at (op_manifest E) (ot_dir C) s (opt_name org)")
  case None
  then show ?thesis
    using that [OF load_missing [OF assms None]] by (simp add: disk_manifest_def manifest_new_def)
next
  case (Some m)
  then have "fs_exists s (manifest_path C org)"
    using registry_exists [OF assms, of "opt_name org"] by (simp add: manifest_path_name)
  moreover obtain b where "read_doc ''optimizer manifest'' (manifest_path C org) s = (Ok b, s)"
    "from_slice (op_manifest E) b = Ok m"
    using registry_read [OF assms opt_suffix_json opt_name_ends Some] unfolding manifest_path_name by blast
  ultimately show ?thesis
    using Some that [of m] by (simp add: load_opt_manifest_def disk_manifest_def bindM_Ok)
qed



section \<open>Steps that keep the view\<close>

text \<open>A cache that lost only clean blocks and changed no bytes and no dirty mark.\<close>

definition cache_le :: "opt_cache \<Rightarrow> opt_cache \<Rightarrow> bool" where
  "cache_le c c' \<longleftrightarrow> (hwf c \<longrightarrow> hwf c')
     \<and> (\<forall>k b'. hget c' k = Some b' \<longrightarrow> (\<exists>b. hget c k = Some b \<and> cb_bytes b' = cb_bytes b \<and> cb_dirty b' = cb_dirty b))
     \<and> (\<forall>k b. hget c' k = None \<and> hget c k = Some b \<longrightarrow> \<not> cb_dirty b)"

lemma cache_le_someD:
  "cache_le c c' \<Longrightarrow> hget c' k = Some b' \<Longrightarrow> \<exists>b. hget c k = Some b \<and> cb_bytes b' = cb_bytes b \<and> cb_dirty b' = cb_dirty b"
  unfolding cache_le_def by blast

lemma cache_le_noneD: "cache_le c c' \<Longrightarrow> hget c' k = None \<Longrightarrow> hget c k = Some b \<Longrightarrow> \<not> cb_dirty b"
  unfolding cache_le_def by blast

lemma cache_le_refl [simp]: "cache_le c c"
  by (auto simp: cache_le_def)

lemma cache_le_dirty:
  assumes "cache_le c c'" and "hget c k = Some b" and "cb_dirty b"
  shows "\<exists>b'. hget c' k = Some b' \<and> cb_dirty b'"
proof (cases "hget c' k")
  case None
  then show ?thesis using cache_le_noneD [OF assms(1) None assms(2)] assms(3) by simp
next
  case (Some b')
  then show ?thesis using cache_le_someD [OF assms(1) Some] assms(2,3) by auto
qed

lemma cache_le_trans:
  assumes ab: "cache_le a b" and bc: "cache_le b c"
  shows "cache_le a c"
  unfolding cache_le_def
proof (intro conjI allI impI)
  show "hwf a \<Longrightarrow> hwf c" using ab bc by (simp add: cache_le_def)
next
  fix k z assume "hget c k = Some z"
  then show "\<exists>x. hget a k = Some x \<and> cb_bytes z = cb_bytes x \<and> cb_dirty z = cb_dirty x"
    using cache_le_someD [OF bc] cache_le_someD [OF ab] by fastforce
next
  fix k x assume k: "hget c k = None \<and> hget a k = Some x"
  show "\<not> cb_dirty x"
  proof
    assume "cb_dirty x"
    then obtain y where "hget b k = Some y" "cb_dirty y" using cache_le_dirty [OF ab] k by blast
    then show False using cache_le_noneD [OF bc] k by blast
  qed
qed

lemma cache_le_put:
  assumes "hget c k = Some b" and "cb_bytes b' = cb_bytes b" and "cb_dirty b' = cb_dirty b"
  shows "cache_le c (hput k b' c)"
  using assms by (auto simp: cache_le_def)

lemma cache_le_del: "\<forall>b. hget c k = Some b \<longrightarrow> \<not> cb_dirty b \<Longrightarrow> cache_le c (hdel k c)"
  by (auto simp: cache_le_def split: if_splits)

lemma core_key:
  "opt_core E C Z os s c V M \<Longrightarrow> hget c k = Some b \<Longrightarrow>
   \<exists>org \<in> os. \<exists>bid. k = cache_key org bid \<and> M org bid = Some (cb_bytes b)"
  unfolding opt_core_def by blast

lemma core_held:
  assumes "opt_core E C Z os s c V M" and "org \<in> os" and "M org bid = Some p"
  shows "\<exists>z \<in> Z. op_compress E (ot_level C) p = Ok z"
    and "(\<exists>b. hget c (cache_key org bid) = Some b \<and> cb_dirty b) \<or> block_held E C s (V org) bid p"
  using assms unfolding opt_core_def by blast+

lemma core_recorded:
  assumes "opt_core E C Z os s c V M" and "org \<in> os" and "hget (om_blocks (V org)) bid = Some r"
  shows "good_blob_id (ob_blob_id r)" and "M org bid \<noteq> None"
  using assms unfolding opt_core_def by blast+

lemma coreI:
  assumes "registry_inv (op_manifest E) (ot_root C) (ot_dir C) opt_suffix s"
    and "content_addressed (op_hashes E) Z (ot_root C) s" and "hwf c"
    and "\<And>k b. hget c k = Some b \<Longrightarrow> \<exists>org \<in> os. \<exists>bid. k = cache_key org bid \<and> M org bid = Some (cb_bytes b)"
    and "\<And>org. org \<in> os \<Longrightarrow> om_origin_id (V org) = org"
    and "\<And>org bid r. org \<in> os \<Longrightarrow> hget (om_blocks (V org)) bid = Some r \<Longrightarrow>
      good_blob_id (ob_blob_id r) \<and> M org bid \<noteq> None"
    and "\<And>org bid p. org \<in> os \<Longrightarrow> M org bid = Some p \<Longrightarrow> (\<exists>z \<in> Z. op_compress E (ot_level C) p = Ok z)
      \<and> ((\<exists>b. hget c (cache_key org bid) = Some b \<and> cb_dirty b) \<or> block_held E C s (V org) bid p)"
  shows "opt_core E C Z os s c V M"
  unfolding opt_core_def using assms by blast

lemma core_basics:
  assumes "opt_core E C Z os s c V M"
  shows "registry_inv (op_manifest E) (ot_root C) (ot_dir C) opt_suffix s"
    and "content_addressed (op_hashes E) Z (ot_root C) s" and "hwf c"
    and "\<And>org. org \<in> os \<Longrightarrow> om_origin_id (V org) = org"
  using assms unfolding opt_core_def by blast+

lemma core_cached:
  assumes "opt_core E C Z os s cache V M" and "opt_origins os" and "org \<in> os" and "hget cache (cache_key org bid) = Some b"
  shows "M org bid = Some (cb_bytes b)"
proof -
  obtain org' bid' where "org' \<in> os" "cache_key org bid = cache_key org' bid'" "M org' bid' = Some (cb_bytes b)"
    using assms(1,4) unfolding opt_core_def by blast
  then show ?thesis using cache_key_inj assms(2,3) by (metis opt_origins_def)
qed

lemma core_cache_le:
  assumes core: "opt_core E C Z os s c V M" and le: "cache_le c c'"
  shows "opt_core E C Z os s c' V M"
proof (rule coreI)
  show "registry_inv (op_manifest E) (ot_root C) (ot_dir C) opt_suffix s"
    "content_addressed (op_hashes E) Z (ot_root C) s" by (rule core_basics [OF core])+
  show "hwf c'" using core_basics(3) [OF core] le by (simp add: cache_le_def)
  show "om_origin_id (V org) = org" if "org \<in> os" for org by (rule core_basics(4) [OF core that])
  show "\<exists>org \<in> os. \<exists>bid. k = cache_key org bid \<and> M org bid = Some (cb_bytes b)" if b: "hget c' k = Some b" for k b
  proof -
    obtain b' where "hget c k = Some b'" "cb_bytes b = cb_bytes b'" using cache_le_someD [OF le b] by blast
    then show ?thesis using core_key [OF core] by simp
  qed
  show "good_blob_id (ob_blob_id r) \<and> M org bid \<noteq> None"
    if "org \<in> os" "hget (om_blocks (V org)) bid = Some r" for org bid r
    using core_recorded [OF core that] by simp
  show "(\<exists>z \<in> Z. op_compress E (ot_level C) p = Ok z)
      \<and> ((\<exists>b. hget c' (cache_key org bid) = Some b \<and> cb_dirty b) \<or> block_held E C s (V org) bid p)"
    if "org \<in> os" "M org bid = Some p" for org bid p
    using core_held [OF core that] cache_le_dirty [OF le] by blast
qed

lemma rel_cache_le:
  assumes "opt_rel E C Z os w M" and "cache_le (ow_cache w) c'"
  shows "opt_rel E C Z os (w\<lparr>ow_cache := c'\<rparr>) M"
  using core_cache_le [OF _ assms(2)] assms(1) by (simp add: opt_rel_def)

lemma evict_oldest_le:
  assumes "\<And>k t. (k, t) \<in> set cs \<Longrightarrow> \<forall>b. hget c k = Some b \<longrightarrow> \<not> cb_dirty b"
  shows "cache_le c (evict_oldest n cs c)"
  using assms
proof (induction n cs c rule: evict_oldest.induct)
  case (1 n c)
  then show ?case by simp
next
  case (2 n k t cs c)
  have le: "cache_le c (hdel k c)" using "2.prems" [of k t] by (intro cache_le_del) simp
  have "cache_le (hdel k c) (evict_oldest n cs (hdel k c))" if "\<not> length c \<le> n"
    by (rule "2.IH" [OF that]) (use "2.prems" in \<open>auto split: if_splits\<close>)
  then show ?case using cache_le_trans [OF le] by simp
qed

lemma enforce_step:
  assumes rel: "opt_rel E C Z os w M"
  obtains w' where "enforce_cache_capacity C w = (Ok (), w')" and "opt_rel E C Z os w' M"
    and "ow_fs w' = ow_fs w" and "ow_pinned w' = ow_pinned w" and "cache_le (ow_cache w) (ow_cache w')"
proof -
  have wf: "hwf (ow_cache w)" using rel by (simp add: opt_rel_def opt_core_def)
  let ?cs = "sort_key snd (map (\<lambda>(k, b). (k, cb_last_touch b)) (filter (opt_evictable (ow_pinned w)) (ow_cache w)))"
  have le: "cache_le (ow_cache w) (evict_oldest (ot_capacity C) ?cs (ow_cache w))"
  proof (rule evict_oldest_le)
    fix k t assume "(k, t) \<in> set ?cs"
    then obtain b where "(k, b) \<in> set (ow_cache w)" "\<not> cb_dirty b" by (auto simp: opt_evictable_def)
    then show "\<forall>b. hget (ow_cache w) k = Some b \<longrightarrow> \<not> cb_dirty b" using mem_hget [OF wf, of k b] by simp
  qed
  show ?thesis
  proof (cases "length (ow_cache w) \<le> ot_capacity C")
    case True
    then show ?thesis using that [of w] rel by (simp add: enforce_cache_capacity_def)
  next
    case False
    then show ?thesis
      using that [of "w\<lparr>ow_cache := evict_oldest (ot_capacity C) ?cs (ow_cache w)\<rparr>"] rel_cache_le [OF rel le] le
      by (simp add: enforce_cache_capacity_def)
  qed
qed

lemma evict_keys_le: "cache_le c (fst (evict_keys pinned ks c n))"
proof (induction pinned ks c n rule: evict_keys.induct)
  case (1 pinned c n)
  then show ?case by simp
next
  case (2 pinned k ks c n)
  show ?case
  proof (cases "hget c k")
    case None
    then show ?thesis using "2.IH"(1) by simp
  next
    case (Some b)
    then show ?thesis
      using "2.IH"(2,3) [OF Some] cache_le_trans [OF cache_le_del [of c k]] by auto
  qed
qed

lemma mark_pinned_le: "cache_le c (mark_pinned v k c)"
  by (auto simp: mark_pinned_def split: option.split intro: cache_le_put)

lemma pin_fold_le:
  "cache_le (ow_cache w) (ow_cache (fold (\<lambda>bid w. w\<lparr>ow_pinned := P bid (ow_pinned w),
      ow_cache := mark_pinned v (cache_key org bid) (ow_cache w)\<rparr>) bids w))
   \<and> ow_fs (fold (\<lambda>bid w. w\<lparr>ow_pinned := P bid (ow_pinned w),
      ow_cache := mark_pinned v (cache_key org bid) (ow_cache w)\<rparr>) bids w) = ow_fs w"
proof (induction bids arbitrary: w)
  case Nil
  then show ?case by simp
next
  case (Cons bid bids)
  let ?w = "w\<lparr>ow_pinned := P bid (ow_pinned w), ow_cache := mark_pinned v (cache_key org bid) (ow_cache w)\<rparr>"
  show ?case
    using Cons.IH [of ?w] cache_le_trans [OF mark_pinned_le [of "ow_cache w" v "cache_key org bid"]] by simp
qed

lemma rel_world_le:
  assumes "opt_rel E C Z os w M" and "cache_le (ow_cache w) (ow_cache w')" and "ow_fs w' = ow_fs w"
  shows "opt_rel E C Z os w' M"
  using core_cache_le [OF _ assms(2)] assms(1,3) by (simp add: opt_rel_def)


section \<open>Staging\<close>

lemma stage_core:
  assumes core: "opt_core E C Z os s c V M" and os: "opt_origins os" and org: "org \<in> os"
    and z: "z \<in> Z" "op_compress E (ot_level C) d = Ok z"
  shows "opt_core E C Z os s (stage_block pinned (cache_key org bid) d step shard meta now c) V (M(org := (M org)(bid \<mapsto> d)))"
proof -
  let ?k = "cache_key org bid" and ?M = "M(org := (M org)(bid \<mapsto> d))"
  let ?c = "stage_block pinned ?k d step shard meta now c"
  have get: "hget ?c k = (if k = ?k then hget ?c ?k else hget c k)" for k
    by (simp add: stage_block_def)
  obtain b where b: "hget ?c ?k = Some b" "cb_bytes b = d" "cb_dirty b"
    by (auto simp: stage_block_def touch_def)
  have keys: "cache_key o' b' = ?k \<longleftrightarrow> o' = org \<and> b' = bid" if "o' \<in> os" for o' b'
    using cache_key_inj os org that by (metis opt_origins_def)
  have cached: "\<exists>o' \<in> os. \<exists>b'. k = cache_key o' b' \<and> ?M o' b' = Some (cb_bytes x)" if x: "hget ?c k = Some x" for k x
  proof (cases "k = ?k")
    case True
    then show ?thesis using x b org by (intro bexI [of _ org] exI [of _ bid]) auto
  next
    case False
    then obtain o' b' where "o' \<in> os" "k = cache_key o' b'" "M o' b' = Some (cb_bytes x)"
      using core_key [OF core, of k x] x get [of k] by auto
    then show ?thesis using False keys [of o' b'] by (intro bexI [of _ o'] exI [of _ b']) auto
  qed
  have held: "(\<exists>z \<in> Z. op_compress E (ot_level C) p = Ok z)
      \<and> ((\<exists>x. hget ?c (cache_key o' b') = Some x \<and> cb_dirty x) \<or> block_held E C s (V o') b' p)"
    if o': "o' \<in> os" and p: "?M o' b' = Some p" for o' b' p
  proof (cases "o' = org \<and> b' = bid")
    case True
    then show ?thesis using p z b by auto
  next
    case False
    then have "M o' b' = Some p" "hget ?c (cache_key o' b') = hget c (cache_key o' b')"
      using p keys [OF o', of b'] get [of "cache_key o' b'"] by (auto split: if_splits)
    then show ?thesis using core_held [OF core o'] by simp
  qed
  show ?thesis
  proof (rule coreI)
    show "registry_inv (op_manifest E) (ot_root C) (ot_dir C) opt_suffix s"
      "content_addressed (op_hashes E) Z (ot_root C) s" by (rule core_basics [OF core])+
    show "hwf ?c" using core_basics(3) [OF core] by (simp add: stage_block_def)
  qed (use core_basics(4) [OF core] core_recorded [OF core] cached held in auto)
qed

definition store_input :: "string \<Rightarrow> opt_input \<Rightarrow> opt_view \<Rightarrow> opt_view" where
  "store_input org i M = M(org := (M org)(oi_block_id i \<mapsto> oi_payload i))"

lemma stage_many:
  assumes "opt_core E C Z os s c V M" and "opt_origins os" and "org \<in> os"
    and "\<And>i. i \<in> set inputs \<Longrightarrow> \<exists>z \<in> Z. op_compress E (ot_level C) (oi_payload i) = Ok z"
  shows "opt_core E C Z os s (fold (\<lambda>i. stage_block pinned (cache_key org (oi_block_id i)) (oi_payload i) (oi_step i)
      (oi_shard_key i) (oi_metadata i) now) inputs c) V (fold (store_input org) inputs M)"
  using assms(1,4)
proof (induction inputs arbitrary: c M)
  case Nil
  then show ?case by simp
next
  case (Cons i inputs)
  obtain z where "z \<in> Z" "op_compress E (ot_level C) (oi_payload i) = Ok z" using Cons.prems(2) by auto
  then have "opt_core E C Z os s (stage_block pinned (cache_key org (oi_block_id i)) (oi_payload i) (oi_step i)
      (oi_shard_key i) (oi_metadata i) now c) V (store_input org i M)"
    unfolding store_input_def by (rule stage_core [OF Cons.prems(1) assms(2,3)])
  then show ?case using Cons.IH Cons.prems(2) by simp
qed



section \<open>Flushing keeps the view\<close>

lemma block_held_mono:
  "block_held E C s m bid p \<Longrightarrow> (\<And>b z. fs_blobs (ot_root C) s b = Some z \<Longrightarrow> fs_blobs (ot_root C) t b = Some z) \<Longrightarrow>
   block_held E C t m bid p"
  unfolding block_held_def by blast

definition dirty_keys :: "opt_cache \<Rightarrow> string set" where
  "dirty_keys c = {k. \<exists>b. hget c k = Some b \<and> cb_dirty b}"

lemma flush_dirty_run:
  assumes "opt_compress E C (cb_bytes b) = Ok z" and "blob = compute_blob_id (op_hashes E) z Blake3"
    and "bindM (fs_blob_has (ot_root C) blob) (\<lambda>found.
      if found then returnM () else fs_blob_put (ot_root C) blob z) (ow_fs w) = (Ok (), t)"
    and "split_colons key = Some (o', bid)" and "r = opt_record bid blob b z now"
  shows "flush_dirty E C now key b (m, rep) w =
    (Ok (m\<lparr>om_blocks := hput bid r (om_blocks m), om_updated_at := now\<rparr>, rep @ replaced_by m bid r),
     w\<lparr>ow_fs := t, ow_cache := hput key (touch now (b\<lparr>cb_dirty := False, cb_latest_record := Some r\<rparr>)) (ow_cache w)\<rparr>)"
proof -
  have "on_fs (bindM (fs_blob_has (ot_root C) blob) (\<lambda>found.
      if found then returnM () else fs_blob_put (ot_root C) blob z)) w = (Ok (), w\<lparr>ow_fs := t\<rparr>)"
    using assms(3) by (simp add: on_fs_def liftM_def)
  then show ?thesis
    unfolding flush_dirty_def assms(1) bindM_pure Let_def assms(2) [symmetric] using assms(4)
    by (simp add: bindM_Ok on_cache_def assms(5) [symmetric])
qed

text \<open>One block: its blob is kept, the manifest under construction names it, and it is clean.\<close>

lemma flush_key_step:
  assumes env: "opt_env_ok E" and core: "opt_core E C Z os (ow_fs w) (ow_cache w) V M" and os: "opt_origins os"
    and org: "org \<in> os" and key: "key = cache_key org bid" and m: "m = V org"
    and good: "\<And>b. b \<in> set rep \<Longrightarrow> good_blob_id b"
  obtains m' rep' w' where "flush_key E C now key (m, rep) w = (Ok (m', rep'), w')"
    and "opt_core E C Z os (ow_fs w') (ow_cache w') (V(org := m')) M"
    and "\<And>b. b \<in> set rep' \<Longrightarrow> good_blob_id b" and "ow_pinned w' = ow_pinned w"
    and "dirty_keys (ow_cache w') = dirty_keys (ow_cache w) - {key}"
    and "\<And>n. ends_with n opt_suffix \<Longrightarrow>
      doc_at (op_manifest E) (ot_dir C) (ow_fs w') n = doc_at (op_manifest E) (ot_dir C) (ow_fs w) n"
proof (cases "\<exists>b. hget (ow_cache w) key = Some b \<and> cb_dirty b")
  case False
  then have "flush_key E C now key (m, rep) w = (Ok (m, rep), w)"
    by (auto simp: flush_key_def split: option.split)
  moreover have "dirty_keys (ow_cache w) = dirty_keys (ow_cache w) - {key}" using False by (auto simp: dirty_keys_def)
  ultimately show ?thesis using that [of m rep w] core good m by simp
next
  case True
  then obtain b where b: "hget (ow_cache w) key = Some b" "cb_dirty b" by blast
  have M: "M org bid = Some (cb_bytes b)" using core_cached [OF core os org] b(1) key by blast
  obtain z where z: "op_compress E (ot_level C) (cb_bytes b) = Ok z" "z \<in> Z"
    using core_held(1) [OF core org M] by blast
  have zc: "opt_compress E C (cb_bytes b) = Ok z" by (simp add: opt_compress_def z(1))
  have zd: "op_decompress E z = Ok (cb_bytes b)" using env z(1) unfolding opt_env_ok_def by (metis outcome.inject(1))
  have H: "hash_ok (op_hashes E)" using env by (simp add: opt_env_ok_def)
  define blob where "blob = compute_blob_id (op_hashes E) z Blake3"
  define r where "r = opt_record bid blob b z now"
  define m' where "m' = m\<lparr>om_blocks := hput bid r (om_blocks m), om_updated_at := now\<rparr>"
  have gb: "good_blob_id blob" unfolding blob_def by (rule hash_ok_good [OF H])
  obtain t where t: "bindM (fs_blob_has (ot_root C) blob) (\<lambda>found.
      if found then returnM () else fs_blob_put (ot_root C) blob z) (ow_fs w) = (Ok (), t)"
    "registry_inv (op_manifest E) (ot_root C) (ot_dir C) opt_suffix t" "content_addressed (op_hashes E) Z (ot_root C) t"
    "fs_blobs (ot_root C) t = (fs_blobs (ot_root C) (ow_fs w))(blob \<mapsto> z)"
    "\<And>n. ends_with n opt_suffix \<Longrightarrow> doc_at (op_manifest E) (ot_dir C) t n = doc_at (op_manifest E) (ot_dir C) (ow_fs w) n"
    "\<And>x d. fs_blobs (ot_root C) (ow_fs w) x = Some d \<Longrightarrow> fs_blobs (ot_root C) t x = Some d"
    by (rule content_put [OF core_basics(1) [OF core] H core_basics(2) [OF core] z(2) blob_def]) blast
  define w' where "w' = w\<lparr>ow_fs := t, ow_cache := hput key (touch now (b\<lparr>cb_dirty := False, cb_latest_record := Some r\<rparr>)) (ow_cache w)\<rparr>"
  have clean: "clean_origin org" using os org by (simp add: opt_origins_def)
  have "flush_dirty E C now key b (m, rep) w = (Ok (m', rep @ replaced_by m bid r), w')"
    unfolding m'_def w'_def
    by (rule flush_dirty_run [OF zc blob_def t(1) split_colons_key [OF clean, of bid, folded key] r_def])
  then have "flush_key E C now key (m, rep) w = (Ok (m', rep @ replaced_by m bid r), w')"
    using b by (simp add: flush_key_def)
  moreover have "opt_core E C Z os (ow_fs w') (ow_cache w') (V(org := m')) M"
  proof (rule coreI)
    show "registry_inv (op_manifest E) (ot_root C) (ot_dir C) opt_suffix (ow_fs w')"
      "content_addressed (op_hashes E) Z (ot_root C) (ow_fs w')" using t(2,3) by (simp_all add: w'_def)
    show "hwf (ow_cache w')" using core_basics(3) [OF core] by (simp add: w'_def)
    show "\<exists>o' \<in> os. \<exists>b'. k = cache_key o' b' \<and> M o' b' = Some (cb_bytes x)" if x: "hget (ow_cache w') k = Some x" for k x
    proof (cases "k = key")
      case True
      then have "cb_bytes x = cb_bytes b" using x by (auto simp: w'_def touch_def)
      then show ?thesis using True org key M by metis
    next
      case False
      then show ?thesis using x core_key [OF core, of k x] by (simp add: w'_def)
    qed
    show "om_origin_id ((V(org := m')) o') = o'" if "o' \<in> os" for o'
      using core_basics(4) [OF core that] m by (auto simp: m'_def)
    show "good_blob_id (ob_blob_id x) \<and> M o' b' \<noteq> None"
      if "o' \<in> os" "hget (om_blocks ((V(org := m')) o')) b' = Some x" for o' b' x
      using that core_recorded [OF core that(1), of b' x] m M gb
      by (auto simp: m'_def r_def opt_record_def split: if_splits)
    show "(\<exists>z \<in> Z. op_compress E (ot_level C) p = Ok z)
      \<and> ((\<exists>x. hget (ow_cache w') (cache_key o' b') = Some x \<and> cb_dirty x) \<or> block_held E C (ow_fs w') ((V(org := m')) o') b' p)"
      if o': "o' \<in> os" and p: "M o' b' = Some p" for o' b' p
    proof (cases "o' = org \<and> b' = bid")
      case True
      have "block_held E C (ow_fs w') m' bid (cb_bytes b)"
        by (simp add: block_held_def m'_def r_def opt_record_def w'_def t(4) zd)
      then show ?thesis using True M p z by auto
    next
      case False
      then have k: "cache_key o' b' \<noteq> key" using cache_key_inj clean os o' key by (metis opt_origins_def)
      have "block_held E C (ow_fs w') ((V(org := m')) o') b' p" if "block_held E C (ow_fs w) (V o') b' p"
        using block_held_mono [OF that t(6)] False m by (auto simp: w'_def m'_def block_held_def)
      then show ?thesis using core_held [OF core o' p] k by (auto simp: w'_def)
    qed
  qed
  moreover have "good_blob_id x" if "x \<in> set (rep @ replaced_by m bid r)" for x
    using that good core_recorded(1) [OF core org] m by (auto simp: replaced_by_def split: option.splits if_splits)
  moreover have "ow_pinned w' = ow_pinned w" by (simp add: w'_def)
  moreover have "dirty_keys (ow_cache w') = dirty_keys (ow_cache w) - {key}"
    by (auto simp: dirty_keys_def w'_def touch_def split: if_splits)
  ultimately show ?thesis using that t(5) by (simp add: w'_def)
qed

lemma flush_loop_step:
  assumes env: "opt_env_ok E" and core: "opt_core E C Z os (ow_fs w) (ow_cache w) V M" and os: "opt_origins os"
    and org: "org \<in> os" and m: "m = V org"
    and keys: "\<And>k. k \<in> set keys \<Longrightarrow> \<exists>bid. k = cache_key org bid" and good: "\<And>b. b \<in> set rep \<Longrightarrow> good_blob_id b"
  shows "\<exists>m' rep' w'. flush_loop E C now keys (m, rep) w = (Ok (m', rep'), w')
    \<and> opt_core E C Z os (ow_fs w') (ow_cache w') (V(org := m')) M
    \<and> (\<forall>b \<in> set rep'. good_blob_id b) \<and> ow_pinned w' = ow_pinned w
    \<and> dirty_keys (ow_cache w') = dirty_keys (ow_cache w) - set keys
    \<and> (\<forall>n. ends_with n opt_suffix \<longrightarrow>
      doc_at (op_manifest E) (ot_dir C) (ow_fs w') n = doc_at (op_manifest E) (ot_dir C) (ow_fs w) n)"
  using core m keys good
proof (induction keys arbitrary: V m rep w)
  case Nil
  then show ?case by (intro exI [of _ m] exI [of _ rep] exI [of _ w]) (simp add: fun_upd_idem)
next
  case (Cons k keys)
  obtain bid where k: "k = cache_key org bid" using Cons.prems(3) by auto
  obtain m1 rep1 w1 where one: "flush_key E C now k (m, rep) w = (Ok (m1, rep1), w1)"
    "opt_core E C Z os (ow_fs w1) (ow_cache w1) (V(org := m1)) M"
    "\<And>b. b \<in> set rep1 \<Longrightarrow> good_blob_id b" "ow_pinned w1 = ow_pinned w"
    "dirty_keys (ow_cache w1) = dirty_keys (ow_cache w) - {k}"
    "\<And>n. ends_with n opt_suffix \<Longrightarrow>
      doc_at (op_manifest E) (ot_dir C) (ow_fs w1) n = doc_at (op_manifest E) (ot_dir C) (ow_fs w) n"
    by (rule flush_key_step [OF env Cons.prems(1) os org k Cons.prems(2,4), of rep now]) blast+
  have "\<exists>m' rep' w'. flush_loop E C now keys (m1, rep1) w1 = (Ok (m', rep'), w')
    \<and> opt_core E C Z os (ow_fs w') (ow_cache w') ((V(org := m1))(org := m')) M
    \<and> (\<forall>b \<in> set rep'. good_blob_id b) \<and> ow_pinned w' = ow_pinned w1
    \<and> dirty_keys (ow_cache w') = dirty_keys (ow_cache w1) - set keys
    \<and> (\<forall>n. ends_with n opt_suffix \<longrightarrow>
      doc_at (op_manifest E) (ot_dir C) (ow_fs w') n = doc_at (op_manifest E) (ot_dir C) (ow_fs w1) n)"
    by (rule Cons.IH [OF one(2) _ _ one(3)]) (use Cons.prems(3) in auto)
  then obtain m' rep' w' where two: "flush_loop E C now keys (m1, rep1) w1 = (Ok (m', rep'), w')"
    "opt_core E C Z os (ow_fs w') (ow_cache w') (V(org := m')) M"
    "\<forall>b \<in> set rep'. good_blob_id b" "ow_pinned w' = ow_pinned w1"
    "dirty_keys (ow_cache w') = dirty_keys (ow_cache w1) - set keys"
    "\<forall>n. ends_with n opt_suffix \<longrightarrow>
      doc_at (op_manifest E) (ot_dir C) (ow_fs w') n = doc_at (op_manifest E) (ot_dir C) (ow_fs w1) n"
    unfolding fun_upd_upd by blast
  have "flush_loop E C now (k # keys) (m, rep) w = (Ok (m', rep'), w')"
    using one(1) two(1) by (simp add: bindM_Ok)
  moreover have "dirty_keys (ow_cache w') = dirty_keys (ow_cache w) - set (k # keys)" using one(5) two(5) by auto
  ultimately show ?case using one(4,6) two(2-4,6)
    by (intro exI [of _ m'] exI [of _ rep'] exI [of _ w']) (simp del: fun_upd_apply)
qed

text \<open>A whole flush.\<close>

lemma same_opt_block_blob: "same_opt_block r = same_opt_block r' \<Longrightarrow> ob_blob_id r = ob_blob_id r'"
  by (drule arg_cong [where f = ob_blob_id]) (simp add: same_opt_block_def)

lemma core_same_blocks:
  assumes core: "opt_core E C Z os s c V M"
    and reg: "registry_inv (op_manifest E) (ot_root C) (ot_dir C) opt_suffix t"
    and ca: "content_addressed (op_hashes E) Z (ot_root C) t"
    and origin: "\<And>org. org \<in> os \<Longrightarrow> om_origin_id (W org) = om_origin_id (V org)"
    and blocks: "\<And>org bid. org \<in> os \<Longrightarrow>
      map_option same_opt_block (hget (om_blocks (W org)) bid) = map_option same_opt_block (hget (om_blocks (V org)) bid)"
    and blobs: "\<And>org bid r. org \<in> os \<Longrightarrow> hget (om_blocks (V org)) bid = Some r \<Longrightarrow>
      fs_blobs (ot_root C) t (ob_blob_id r) = fs_blobs (ot_root C) s (ob_blob_id r)"
  shows "opt_core E C Z os t c W M"
proof -
  have fwd: "\<exists>r'. hget (om_blocks (W org)) bid = Some r' \<and> ob_blob_id r' = ob_blob_id r"
    if "org \<in> os" "hget (om_blocks (V org)) bid = Some r" for org bid r
    using blocks [OF that(1), of bid] that(2) by (auto dest: same_opt_block_blob)
  have bwd: "\<exists>r'. hget (om_blocks (V org)) bid = Some r' \<and> ob_blob_id r' = ob_blob_id r"
    if "org \<in> os" "hget (om_blocks (W org)) bid = Some r" for org bid r
    using blocks [OF that(1), of bid] that(2)
    by (cases "hget (om_blocks (V org)) bid") (auto dest: same_opt_block_blob)
  show ?thesis
  proof (rule coreI)
    show "registry_inv (op_manifest E) (ot_root C) (ot_dir C) opt_suffix t"
      "content_addressed (op_hashes E) Z (ot_root C) t" by (rule reg, rule ca)
    show "hwf c" by (rule core_basics(3) [OF core])
    show "om_origin_id (W org) = org" if "org \<in> os" for org
      using origin [OF that] core_basics(4) [OF core that] by simp
    show "good_blob_id (ob_blob_id r) \<and> M org bid \<noteq> None"
      if "org \<in> os" "hget (om_blocks (W org)) bid = Some r" for org bid r
      using bwd [OF that] core_recorded [OF core that(1)] by metis
    show "(\<exists>z \<in> Z. op_compress E (ot_level C) p = Ok z)
      \<and> ((\<exists>b. hget c (cache_key org bid) = Some b \<and> cb_dirty b) \<or> block_held E C t (W org) bid p)"
      if org: "org \<in> os" and p: "M org bid = Some p" for org bid p
    proof -
      have "block_held E C t (W org) bid p" if held: "block_held E C s (V org) bid p"
      proof -
        obtain r z where r: "hget (om_blocks (V org)) bid = Some r"
          "fs_blobs (ot_root C) s (ob_blob_id r) = Some z" "op_decompress E z = Ok p"
          using held by (auto simp: block_held_def)
        then show ?thesis using fwd [OF org r(1)] blobs [OF org r(1)] unfolding block_held_def by metis
      qed
      then show ?thesis using core_held [OF core org p] by blast
    qed
  qed (rule core_key [OF core])
qed

lemma core_doc_refs:
  assumes os: "org \<in> os" and r: "hget (om_blocks (disk_manifest E C s org)) bid = Some r"
  shows "ob_blob_id r \<in> doc_refs (op_manifest E) (ot_dir C) opt_suffix manifest_refs s"
proof -
  obtain m where m: "doc_at (op_manifest E) (ot_dir C) s (opt_name org) = Some m" "hget (om_blocks m) bid = Some r"
    using r by (auto simp: disk_manifest_def manifest_new_def split: option.splits)
  then have "ob_blob_id r \<in> set (manifest_refs m)"
    by (auto simp: manifest_refs_def hvals_def dest!: hget_mem intro: rev_image_eqI)
  then show ?thesis using m(1) opt_name_ends [of org] unfolding doc_refs_def by blast
qed


lemma disk_manifest_same:
  "(\<And>n. ends_with n opt_suffix \<Longrightarrow> doc_at (op_manifest E) (ot_dir C) t n = doc_at (op_manifest E) (ot_dir C) s n) \<Longrightarrow>
   disk_manifest E C t = disk_manifest E C s"
  by (auto simp: disk_manifest_def fun_eq_iff)

text \<open>Writing a manifest back.\<close>

lemma save_opt_manifest_run:
  assumes env: "opt_env_ok E" and reg: "registry_inv (op_manifest E) (ot_root C) (ot_dir C) opt_suffix s"
  shows "\<exists>t m2. save_opt_manifest E C m s = (Ok (), t)
    \<and> registry_inv (op_manifest E) (ot_root C) (ot_dir C) opt_suffix t
    \<and> fs_blobs (ot_root C) t = fs_blobs (ot_root C) s
    \<and> (\<forall>n. ends_with n opt_suffix \<longrightarrow> doc_at (op_manifest E) (ot_dir C) t n =
        (if n = opt_name (om_origin_id m) then Some m2 else doc_at (op_manifest E) (ot_dir C) s n))
    \<and> om_origin_id m2 = om_origin_id m
    \<and> (\<forall>k. map_option same_opt_block (hget (om_blocks m2) k) = map_option same_opt_block (hget (om_blocks m) k))"
proof -
  obtain b m2 where b: "to_vec (op_manifest E) m = Ok b" "from_slice (op_manifest E) b = Ok m2"
    "om_origin_id m2 = om_origin_id m"
    "\<And>k. map_option same_opt_block (hget (om_blocks m2) k) = map_option same_opt_block (hget (om_blocks m) k)"
    using env unfolding opt_env_ok_def by meson
  let ?n = "opt_name (om_origin_id m)"
  obtain t where t: "replace_doc ''optimizer manifest'' (ot_dir C @ [?n]) b s = (Ok (), t)"
    "registry_inv (op_manifest E) (ot_root C) (ot_dir C) opt_suffix t"
    "fs_blobs (ot_root C) t = fs_blobs (ot_root C) s"
    "\<And>n. ends_with n opt_suffix \<Longrightarrow>
      doc_at (op_manifest E) (ot_dir C) t n = (if n = ?n then Some m2 else doc_at (op_manifest E) (ot_dir C) s n)"
    by (rule replace_doc_Ok [OF reg opt_suffix_json opt_name_ends b(2)]) blast
  have "save_opt_manifest E C m s = (Ok (), t)"
    using b(1) t(1) by (simp add: save_opt_manifest_def print_doc_def manifest_path_name bindM_pure)
  then show ?thesis using t(2-4) b(3,4) by (intro exI [of _ t] exI [of _ m2]) simp
qed

lemma save_opt_manifest_core:
  assumes env: "opt_env_ok E" and core: "opt_core E C Z os s c ((disk_manifest E C s)(org := m)) M"
    and os: "opt_origins os" and org: "org \<in> os"
  obtains t where "save_opt_manifest E C m s = (Ok (), t)" and "opt_core E C Z os t c (disk_manifest E C t) M"
proof -
  have origin: "om_origin_id m = org" using core_basics(4) [OF core org] by simp
  obtain t m2 where t: "save_opt_manifest E C m s = (Ok (), t)"
    "registry_inv (op_manifest E) (ot_root C) (ot_dir C) opt_suffix t"
    "fs_blobs (ot_root C) t = fs_blobs (ot_root C) s"
    "\<And>n. ends_with n opt_suffix \<Longrightarrow>
      doc_at (op_manifest E) (ot_dir C) t n = (if n = opt_name org then Some m2 else doc_at (op_manifest E) (ot_dir C) s n)"
    "om_origin_id m2 = om_origin_id m"
    "\<And>k. map_option same_opt_block (hget (om_blocks m2) k) = map_option same_opt_block (hget (om_blocks m) k)"
    using save_opt_manifest_run [OF env core_basics(1) [OF core], of m] unfolding origin by blast
  have disk: "disk_manifest E C t o' = (if o' = org then m2 else disk_manifest E C s o')" if "o' \<in> os" for o'
    using t(4) [of "opt_name o'"] opt_name_inj [OF os that org] by (simp add: disk_manifest_def)
  have "opt_core E C Z os t c (disk_manifest E C t) M"
  proof (rule core_same_blocks [OF core t(2)])
    show "content_addressed (op_hashes E) Z (ot_root C) t"
      using core_basics(2) [OF core] by (simp add: content_addressed_def t(3))
  qed (use disk t(3,5,6) in auto)
  then show ?thesis using t(1) that by blast
qed

text \<open>Collecting replaced blobs.\<close>

lemma opt_gc_core:
  assumes core: "opt_core E C Z os s c (disk_manifest E C s) M" and good: "\<And>b. b \<in> set bs \<Longrightarrow> good_blob_id b"
  obtains n t where "opt_gc E C bs s = (Ok n, t)" and "opt_core E C Z os t c (disk_manifest E C t) M"
proof -
  let ?refs = "doc_refs (op_manifest E) (ot_dir C) opt_suffix manifest_refs s"
  obtain n t where t: "opt_gc E C bs s = (Ok n, t)"
    "registry_inv (op_manifest E) (ot_root C) (ot_dir C) opt_suffix t"
    "\<And>m. ends_with m opt_suffix \<Longrightarrow> doc_at (op_manifest E) (ot_dir C) t m = doc_at (op_manifest E) (ot_dir C) s m"
    "fs_blobs (ot_root C) t = (\<lambda>b. if b \<in> set bs \<and> b \<notin> ?refs then None else fs_blobs (ot_root C) s b)"
    using gc_docs_Ok [OF core_basics(1) [OF core] opt_suffix_json good, where refs = manifest_refs]
    unfolding opt_gc_def opt_referenced_def by blast
  have disk: "disk_manifest E C t = disk_manifest E C s" by (rule disk_manifest_same) (rule t(3))
  have "opt_core E C Z os t c (disk_manifest E C t) M"
  proof (rule core_same_blocks [OF core t(2)])
    show "content_addressed (op_hashes E) Z (ot_root C) t"
      by (rule content_collected [OF core_basics(2) [OF core]]) (simp add: t(4) split: if_splits)
  qed (use core_doc_refs in \<open>auto simp: disk t(4)\<close>)
  then show ?thesis using t(1) that by blast
qed

lemma flush_keys_step:
  assumes env: "opt_env_ok E" and rel: "opt_rel E C Z os w M" and os: "opt_origins os" and org: "org \<in> os"
    and keys: "\<And>k. k \<in> set keys \<Longrightarrow> \<exists>bid. k = cache_key org bid"
  obtains m w' where "flush_keys E C now org keys w = (Ok m, w')" and "opt_rel E C Z os w' M"
    and "dirty_keys (ow_cache w') \<subseteq> dirty_keys (ow_cache w) - set keys" and "ow_pinned w' = ow_pinned w"
proof -
  have core: "opt_core E C Z os (ow_fs w) (ow_cache w) (disk_manifest E C (ow_fs w)) M"
    using rel by (simp add: opt_rel_def)
  obtain m where m: "load_opt_manifest E C org now (ow_fs w) = (Ok m, ow_fs w)"
    "om_blocks m = om_blocks (disk_manifest E C (ow_fs w) org)"
    "om_origin_id m = om_origin_id (disk_manifest E C (ow_fs w) org)"
    by (rule load_opt_manifest_Ok [OF core_basics(1) [OF core]])
  have loaded: "on_fs (load_opt_manifest E C org now) w = (Ok m, w)"
    using m(1) by (simp add: on_fs_def liftM_def)
  show ?thesis
  proof (cases "keys = []")
    case True
    then show ?thesis using that [of m w] loaded rel by (simp add: flush_keys_def bindM_Ok)
  next
    case False
    let ?V = "(disk_manifest E C (ow_fs w))(org := m)"
    have "opt_core E C Z os (ow_fs w) (ow_cache w) ?V M"
      by (rule core_same_blocks [OF core core_basics(1,2) [OF core]]) (auto simp: m(2,3))
    then have "\<exists>m' rep' w1. flush_loop E C now keys (m, []) w = (Ok (m', rep'), w1)
      \<and> opt_core E C Z os (ow_fs w1) (ow_cache w1) (?V(org := m')) M
      \<and> (\<forall>b \<in> set rep'. good_blob_id b) \<and> ow_pinned w1 = ow_pinned w
      \<and> dirty_keys (ow_cache w1) = dirty_keys (ow_cache w) - set keys
      \<and> (\<forall>n. ends_with n opt_suffix \<longrightarrow>
        doc_at (op_manifest E) (ot_dir C) (ow_fs w1) n = doc_at (op_manifest E) (ot_dir C) (ow_fs w) n)"
      by (rule flush_loop_step [OF env _ os org _ keys]) simp_all
    then obtain m' rep' w1 where loop: "flush_loop E C now keys (m, []) w = (Ok (m', rep'), w1)"
      "opt_core E C Z os (ow_fs w1) (ow_cache w1) ((disk_manifest E C (ow_fs w))(org := m')) M"
      "\<And>b. b \<in> set rep' \<Longrightarrow> good_blob_id b" "ow_pinned w1 = ow_pinned w"
      "dirty_keys (ow_cache w1) = dirty_keys (ow_cache w) - set keys"
      "\<And>n. ends_with n opt_suffix \<Longrightarrow>
        doc_at (op_manifest E) (ot_dir C) (ow_fs w1) n = doc_at (op_manifest E) (ot_dir C) (ow_fs w) n"
      unfolding fun_upd_upd by blast
    have disk: "disk_manifest E C (ow_fs w1) = disk_manifest E C (ow_fs w)"
      by (rule disk_manifest_same) (rule loop(6))
    obtain s where s: "save_opt_manifest E C m' (ow_fs w1) = (Ok (), s)"
      "opt_core E C Z os s (ow_cache w1) (disk_manifest E C s) M"
      by (rule save_opt_manifest_core [OF env loop(2) [folded disk] os org])
    obtain n t where t: "opt_gc E C (remdups rep') s = (Ok n, t)"
      "opt_core E C Z os t (ow_cache w1) (disk_manifest E C t) M"
      by (rule opt_gc_core [OF s(2), of "remdups rep'"]) (use loop(3) in auto)
    have rel2: "opt_rel E C Z os (w1\<lparr>ow_fs := t\<rparr>) M" using t(2) by (simp add: opt_rel_def)
    obtain w' where w': "enforce_cache_capacity C (w1\<lparr>ow_fs := t\<rparr>) = (Ok (), w')" "opt_rel E C Z os w' M"
      "ow_pinned w' = ow_pinned (w1\<lparr>ow_fs := t\<rparr>)" "cache_le (ow_cache (w1\<lparr>ow_fs := t\<rparr>)) (ow_cache w')"
      by (rule enforce_step [OF rel2])
    have "flush_keys E C now org keys w = (Ok m', w')"
      using loaded loop(1) s(1) t(1) w'(1) False by (simp add: flush_keys_def bindM_Ok seqM_Ok on_fs_def liftM_def)
    moreover have "dirty_keys (ow_cache w') \<subseteq> dirty_keys (ow_cache w) - set keys"
      using cache_le_someD [OF w'(4)] loop(5) by (fastforce simp: dirty_keys_def)
    ultimately show ?thesis using that w'(2,3) loop(4) by simp
  qed
qed


lemma core_key_of:
  assumes core: "opt_core E C Z os s c V M" and os: "opt_origins os" and org: "org \<in> os"
    and k: "k \<in> set (hkeys c)" "starts_with k (org @ ''::'')"
  shows "\<exists>bid. k = cache_key org bid"
proof -
  obtain b where "hget c k = Some b" using k(1) by (auto simp: set_hkeys)
  then obtain o' bid where o': "o' \<in> os" "k = cache_key o' bid" using core_key [OF core] by blast
  then have "org = o'" using key_of_origin [of org o' bid] os org k(2) by (simp add: opt_origins_def)
  then show ?thesis using o'(2) by blast
qed

definition origin_clean :: "string \<Rightarrow> opt_cache \<Rightarrow> bool" where
  "origin_clean org c \<longleftrightarrow> (\<forall>bid. cache_key org bid \<notin> dirty_keys c)"

lemma flush_origin_step:
  assumes env: "opt_env_ok E" and rel: "opt_rel E C Z os w M" and os: "opt_origins os" and org: "org \<in> os"
  obtains m w' where "flush_origin E C now org w = (Ok m, w')" and "opt_rel E C Z os w' M"
    and "origin_clean org (ow_cache w')"
proof -
  have core: "opt_core E C Z os (ow_fs w) (ow_cache w) (disk_manifest E C (ow_fs w)) M"
    using rel by (simp add: opt_rel_def)
  let ?keys = "filter (\<lambda>k. starts_with k (org @ ''::'')) (hkeys (ow_cache w))"
  have keys: "\<exists>bid. k = cache_key org bid" if "k \<in> set ?keys" for k
    using core_key_of [OF core os org] that by simp
  obtain m w' where f: "flush_keys E C now org ?keys w = (Ok m, w')" "opt_rel E C Z os w' M"
    "dirty_keys (ow_cache w') \<subseteq> dirty_keys (ow_cache w) - set ?keys"
    by (rule flush_keys_step [OF env rel os org keys])
  have "cache_key org bid \<in> set ?keys" if "cache_key org bid \<in> dirty_keys (ow_cache w)" for bid
    using that by (auto simp: dirty_keys_def set_hkeys starts_with_iff cache_key_def)
  then have "origin_clean org (ow_cache w')" using f(3) by (auto simp: origin_clean_def)
  then show ?thesis using that f(1,2) by (simp add: flush_origin_def bindM_Ok)
qed

lemma flush_blocks_step:
  assumes env: "opt_env_ok E" and rel: "opt_rel E C Z os w M" and os: "opt_origins os" and org: "org \<in> os"
  obtains m w' where "flush_blocks E C now org bids w = (Ok m, w')" and "opt_rel E C Z os w' M"
proof -
  have "\<exists>bid. k = cache_key org bid" if "k \<in> set (map (cache_key org) bids)" for k using that by auto
  then show ?thesis
    using flush_keys_step [OF env rel os org] that unfolding flush_blocks_def by metis
qed


section \<open>Storing and loading\<close>

lemma stage_rel:
  assumes rel: "opt_rel E C Z os w M" and os: "opt_origins os" and org: "org \<in> os"
    and z: "\<And>i. i \<in> set inputs \<Longrightarrow> \<exists>z \<in> Z. op_compress E (ot_level C) (oi_payload i) = Ok z"
  shows "opt_rel E C Z os (w\<lparr>ow_cache := fold (\<lambda>i. stage_block pinned (cache_key org (oi_block_id i)) (oi_payload i)
      (oi_step i) (oi_shard_key i) (oi_metadata i) now) inputs (ow_cache w)\<rparr>) (fold (store_input org) inputs M)"
  using stage_many [OF _ os org z] rel by (simp add: opt_rel_def)

lemma store_block_step:
  assumes env: "opt_env_ok E" and rel: "opt_rel E C Z os w M" and os: "opt_origins os" and org: "org \<in> os"
    and z: "\<exists>z \<in> Z. op_compress E (ot_level C) d = Ok z"
  obtains r w' where "store_block E C now org bid d step shard meta w = (Ok r, w')"
    and "opt_rel E C Z os w' (M(org := (M org)(bid \<mapsto> d)))"
proof -
  define w1 where "w1 = w\<lparr>ow_cache := stage_block (ow_pinned w) (cache_key org bid) d step shard meta now (ow_cache w)\<rparr>"
  let ?i = "\<lparr>oi_block_id = bid, oi_payload = d, oi_step = step, oi_shard_key = shard, oi_metadata = meta\<rparr>"
  have rel1: "opt_rel E C Z os w1 (M(org := (M org)(bid \<mapsto> d)))"
    using stage_rel [OF rel os org, of "[?i]" "ow_pinned w" now] z by (simp add: w1_def store_input_def)
  have staged: "store_block E C now org bid d step shard meta w =
      (bindM (dirty_block_count (Some org)) (\<lambda>dirty.
       let result = \<lparr>os_origin_id = org, os_block_id = bid, os_blob_id = None, os_step = step, os_staged = True,
            os_flushed = False, os_size_raw = length d, os_size_stored = 0, os_dirty_blocks = dirty,
            os_metadata = meta\<rparr> in
      if dirty < ot_threshold C then returnM result
      else
        bindM (flush_origin E C now org) (\<lambda>m.
        let result' = (case hget (om_blocks m) bid of
              Some r \<Rightarrow> result\<lparr>os_blob_id := Some (ob_blob_id r), os_staged := False, os_flushed := True,
                os_size_stored := ob_size_stored r\<rparr>
            | None \<Rightarrow> result) in
        bindM (dirty_block_count (Some org)) (\<lambda>n. returnM (result'\<lparr>os_dirty_blocks := n\<rparr>))))) w1"
    by (simp add: store_block_def bindM_Ok seqM_Ok on_cache_def w1_def)
  show ?thesis
  proof (cases "dirty_in (Some org) (ow_cache w1) < ot_threshold C")
    case True
    then show ?thesis using that rel1 unfolding staged by (simp add: dirty_block_count_def bindM_Ok Let_def)
  next
    case False
    obtain m w2 where "flush_origin E C now org w1 = (Ok m, w2)" "opt_rel E C Z os w2 (M(org := (M org)(bid \<mapsto> d)))"
      by (rule flush_origin_step [OF env rel1 os org])
    then show ?thesis
      using that False unfolding staged by (simp add: dirty_block_count_def bindM_Ok Let_def)
  qed
qed

lemma store_blocks_step:
  assumes env: "opt_env_ok E" and rel: "opt_rel E C Z os w M" and os: "opt_origins os" and org: "org \<in> os"
    and z: "\<And>i. i \<in> set inputs \<Longrightarrow> \<exists>z \<in> Z. op_compress E (ot_level C) (oi_payload i) = Ok z"
  obtains rs w' where "store_blocks E C now org inputs w = (Ok rs, w')" and "length rs = length inputs"
    and "opt_rel E C Z os w' (fold (store_input org) inputs M)"
proof (cases "inputs = []")
  case True
  then show ?thesis using that [of "[]" w] rel by (simp add: store_blocks_def)
next
  case False
  define w1 where "w1 = w\<lparr>ow_cache := fold (\<lambda>i. stage_block (ow_pinned w) (cache_key org (oi_block_id i)) (oi_payload i)
      (oi_step i) (oi_shard_key i) (oi_metadata i) now) inputs (ow_cache w)\<rparr>"
  have rel1: "opt_rel E C Z os w1 (fold (store_input org) inputs M)"
    unfolding w1_def by (rule stage_rel [OF rel os org z])
  let ?flush = "if dirty_in (Some org) (ow_cache w1) < ot_threshold C then returnM None
      else bindM (flush_origin E C now org) (\<lambda>m. returnM (Some m))"
  obtain x w2 where x: "?flush w1 = (Ok x, w2)" "opt_rel E C Z os w2 (fold (store_input org) inputs M)"
  proof (cases "dirty_in (Some org) (ow_cache w1) < ot_threshold C")
    case True
    then show ?thesis using that rel1 by simp
  next
    case below: False
    show ?thesis by (rule flush_origin_step [OF env rel1 os org, of now]) (use below that in \<open>auto simp: bindM_Ok\<close>)
  qed
  have "\<exists>rs. store_blocks E C now org inputs w = (Ok rs, w2) \<and> length rs = length inputs"
    using x(1) False unfolding store_blocks_def
    by (cases "x = None") (simp_all add: bindM_Ok seqM_Ok on_cache_def dirty_block_count_def w1_def [symmetric])
  then show ?thesis using that x(2) by blast
qed


lemma insert_clean:
  assumes core: "opt_core E C Z os s c V M" and os: "opt_origins os" and org: "org \<in> os"
    and held: "block_held E C s (V org) bid (cb_bytes b)" and M: "M org bid = Some (cb_bytes b)"
  shows "opt_core E C Z os s (hput (cache_key org bid) b c) V M"
proof (rule coreI)
  show "registry_inv (op_manifest E) (ot_root C) (ot_dir C) opt_suffix s"
    "content_addressed (op_hashes E) Z (ot_root C) s" by (rule core_basics [OF core])+
  show "hwf (hput (cache_key org bid) b c)" using core_basics(3) [OF core] by simp
  show "\<exists>o' \<in> os. \<exists>b'. k = cache_key o' b' \<and> M o' b' = Some (cb_bytes x)"
    if x: "hget (hput (cache_key org bid) b c) k = Some x" for k x
  proof (cases "k = cache_key org bid")
    case True
    then show ?thesis using x org M by (metis fun_upd_same hget_hput option.sel)
  next
    case False
    then show ?thesis using x core_key [OF core, of k x] by simp
  qed
  show "(\<exists>z \<in> Z. op_compress E (ot_level C) p = Ok z)
      \<and> ((\<exists>x. hget (hput (cache_key org bid) b c) (cache_key o' b') = Some x \<and> cb_dirty x) \<or> block_held E C s (V o') b' p)"
    if o': "o' \<in> os" and p: "M o' b' = Some p" for o' b' p
  proof (cases "o' = org \<and> b' = bid")
    case True
    then show ?thesis using core_held(1) [OF core o' p] p M held by simp
  next
    case False
    then have "cache_key o' b' \<noteq> cache_key org bid" using cache_key_inj os org o' by (metis opt_origins_def)
    then show ?thesis using core_held [OF core o' p] by simp
  qed
qed (use core_basics(4) [OF core] core_recorded [OF core] in auto)

lemma insert_hydrated:
  assumes core: "opt_core E C Z os s c V M" and os: "opt_origins os" and org: "org \<in> os"
    and found: "\<And>bid r d. (bid, r, d) \<in> set found \<Longrightarrow> M org bid = Some d \<and> block_held E C s (V org) bid d"
  shows "opt_core E C Z os s (fold (\<lambda>(bid, r, d). hput (cache_key org bid) (hydrated r d (P bid) now)) found c) V M"
  using core found
proof (induction found arbitrary: c)
  case Nil
  then show ?case by simp
next
  case (Cons x found)
  obtain bid r d where x: "x = (bid, r, d)" by (cases x)
  have "opt_core E C Z os s (hput (cache_key org bid) (hydrated r d (P bid) now) c) V M"
    using Cons.prems(2) [of bid r d] x
    by (intro insert_clean [OF Cons.prems(1) os org]) (simp_all add: hydrated_def)
  then have "opt_core E C Z os s (fold (\<lambda>(bid, r, d). hput (cache_key org bid) (hydrated r d (P bid) now)) found
      (hput (cache_key org bid) (hydrated r d (P bid) now) c)) V M"
    by (rule Cons.IH) (metis Cons.prems(2) list.set_intros(2))
  then show ?case by (simp add: x)
qed

lemma fetch_payload_Ok:
  assumes "opt_core E C Z os (ow_fs w) c V M" and "org \<in> os"
    and "hget (om_blocks (V org)) bid = Some r" and "block_held E C (ow_fs w) (V org) bid p"
  shows "fetch_payload E C r w = (Ok p, w)"
proof -
  obtain z where z: "fs_blobs (ot_root C) (ow_fs w) (ob_blob_id r) = Some z" "op_decompress E z = Ok p"
    using assms(3,4) by (auto simp: block_held_def)
  have "fs_blob_get (ot_root C) (ob_blob_id r) (ow_fs w) = (Ok z, ow_fs w)"
    using fs_get_law [OF registry_store [OF core_basics(1) [OF assms(1)]] core_recorded(1) [OF assms(1-3)]] z(1)
    by (simp add: of_option_def)
  then show ?thesis using z(2)
    by (simp add: fetch_payload_def on_fs_def liftM_def bindM_Ok opt_decompress_def)
qed

lemma core_absent:
  assumes core: "opt_core E C Z os s c V M" and org: "org \<in> os" and out: "hget c (cache_key org bid) = None"
  shows "M org bid = None \<longleftrightarrow> hget (om_blocks (V org)) bid = None"
    and "M org bid = Some p \<Longrightarrow> block_held E C s (V org) bid p"
proof -
  show held: "M org bid = Some p \<Longrightarrow> block_held E C s (V org) bid p" for p
    using core_held(2) [OF core org] out by fastforce
  show "M org bid = None \<longleftrightarrow> hget (om_blocks (V org)) bid = None"
  proof
    assume "M org bid = None"
    then show "hget (om_blocks (V org)) bid = None"
      using core_recorded(2) [OF core org] by (cases "hget (om_blocks (V org)) bid") auto
  next
    assume none: "hget (om_blocks (V org)) bid = None"
    then show "M org bid = None"
      using held by (cases "M org bid") (auto simp: block_held_def)
  qed
qed

lemma load_absent:
  assumes "hget (ow_cache w) (cache_key org bid) = None"
    and "on_fs (load_opt_manifest E C org now) w = (Ok m, w)" and "hget (om_blocks m) bid = None"
  shows "load_block E C now org bid w = (Err NotFound, w)"
  using assms by (simp add: load_block_def bindM_Ok act_simps)

lemma load_block_step:
  assumes rel: "opt_rel E C Z os w M" and os: "opt_origins os" and org: "org \<in> os"
  shows "\<exists>w'. load_block E C now org bid w = (of_option NotFound (M org bid), w') \<and> opt_rel E C Z os w' M"
proof -
  let ?V = "disk_manifest E C (ow_fs w)"
  have core: "opt_core E C Z os (ow_fs w) (ow_cache w) ?V M" using rel by (simp add: opt_rel_def)
  show ?thesis
  proof (cases "hget (ow_cache w) (cache_key org bid)")
    case (Some b)
    have "cache_le (ow_cache w) (hput (cache_key org bid) (touch now b) (ow_cache w))"
      by (rule cache_le_put [OF Some]) (simp_all add: touch_def)
    from rel_cache_le [OF rel this] show ?thesis
      using Some core_cached [OF core os org Some] by (simp add: load_block_def of_option_def)
  next
    case None
    obtain m where m: "load_opt_manifest E C org now (ow_fs w) = (Ok m, ow_fs w)" "om_blocks m = om_blocks (?V org)"
      by (rule load_opt_manifest_Ok [OF core_basics(1) [OF core]])
    have loaded: "on_fs (load_opt_manifest E C org now) w = (Ok m, w)"
      using m(1) by (simp add: on_fs_def liftM_def)
    show ?thesis
    proof (cases "M org bid")
      case absent: None
      then have "hget (om_blocks m) bid = None" using core_absent(1) [OF core org None] m(2) by simp
      then show ?thesis
        using load_absent [OF None loaded] absent rel by simp
    next
      case (Some p)
      have held: "block_held E C (ow_fs w) (?V org) bid p" by (rule core_absent(2) [OF core org None Some])
      obtain r where r: "hget (om_blocks (?V org)) bid = Some r" using held by (auto simp: block_held_def)
      note fetch = fetch_payload_Ok [OF core org r held]
      define w1 where "w1 = w\<lparr>ow_cache := hput (cache_key org bid)
          (hydrated r p (cache_key org bid \<in> set (ow_pinned w)) now) (ow_cache w)\<rparr>"
      have rel1: "opt_rel E C Z os w1 M"
        using insert_clean [OF core os org, of bid "hydrated r p (cache_key org bid \<in> set (ow_pinned w)) now"] held Some
        by (simp add: w1_def opt_rel_def hydrated_def)
      obtain w2 where w2: "enforce_cache_capacity C w1 = (Ok (), w2)" "opt_rel E C Z os w2 M"
        by (rule enforce_step [OF rel1])
      have "load_block E C now org bid w = (Ok p, w2)"
        using None loaded r m(2) fetch w2(1)
        by (simp add: load_block_def bindM_Ok of_option_def seqM_Ok on_cache_def w1_def)
      then show ?thesis using Some w2(2) by (simp add: of_option_def)
    qed
  qed
qed

lemma prefetch_blocks_step:
  assumes os: "opt_origins os" and org: "org \<in> os" and rel: "opt_rel E C Z os w M"
  shows "\<exists>w'. prefetch_blocks E C now org bids n w = (Ok (n + length (filter (\<lambda>bid. M org bid \<noteq> None) bids)), w')
    \<and> opt_rel E C Z os w' M"
  using rel
proof (induction bids arbitrary: n w)
  case Nil
  then show ?case by simp
next
  case (Cons bid bids)
  obtain w1 where w1: "load_block E C now org bid w = (of_option NotFound (M org bid), w1)" "opt_rel E C Z os w1 M"
    using load_block_step [OF Cons.prems os org] by blast
  show ?case
    using Cons.IH [OF w1(2), of "if M org bid = None then n else n + 1"] w1(1)
    by (cases "M org bid") (simp_all add: of_option_def)
qed


text \<open>Loading several blocks.\<close>

lemma cached_blocks_run:
  assumes "cached_blocks now org bids c P miss = (c', P', miss')"
    and "\<And>k. map_option cb_bytes (hget c k) = D k"
  shows "cache_le c c' \<and> (\<forall>k. map_option cb_bytes (hget c' k) = D k)
    \<and> (\<forall>bid. hget P' bid = (if bid \<in> set bids \<and> D (cache_key org bid) \<noteq> None then D (cache_key org bid) else hget P bid))
    \<and> set miss' = set miss \<union> {bid \<in> set bids. D (cache_key org bid) = None}"
  using assms
proof (induction now org bids c P miss rule: cached_blocks.induct)
  case (1 now org c P miss)
  then show ?case by auto
next
  case (2 now org bid bids c P miss)
  note D = "2.prems"(2) [of "cache_key org bid"]
  show ?case
  proof (cases "hget c (cache_key org bid)")
    case None
    then show ?thesis using "2.IH"(1) [OF None] "2.prems" D by auto
  next
    case (Some b)
    let ?c = "hput (cache_key org bid) (touch now b) c"
    have le: "cache_le c ?c" by (rule cache_le_put [OF Some]) (simp_all add: touch_def)
    have "map_option cb_bytes (hget ?c k) = D k" for k
      using "2.prems"(2) [of k] D Some by (simp add: touch_def)
    then show ?thesis
      using "2.IH"(2) [OF Some] "2.prems"(1) Some D cache_le_trans [OF le] by auto
  qed
qed

lemma hydrate_blocks_run:
  assumes "\<And>bid r. bid \<in> set bids \<Longrightarrow> hget (om_blocks m) bid = Some r \<Longrightarrow> fetch_payload E C r w = (Ok (p bid), w)"
  shows "hydrate_blocks E C m bids acc w =
    (Ok (acc @ map (\<lambda>bid. (bid, the (hget (om_blocks m) bid), p bid)) (filter (\<lambda>bid. hget (om_blocks m) bid \<noteq> None) bids)), w)"
  using assms
proof (induction bids arbitrary: acc)
  case Nil
  then show ?case by simp
next
  case (Cons bid bids)
  have IH: "hydrate_blocks E C m bids acc w =
    (Ok (acc @ map (\<lambda>bid. (bid, the (hget (om_blocks m) bid), p bid)) (filter (\<lambda>bid. hget (om_blocks m) bid \<noteq> None) bids)), w)"
    for acc by (rule Cons.IH) (rule Cons.prems, auto)
  show ?case
  proof (cases "hget (om_blocks m) bid")
    case None
    then show ?thesis using IH by simp
  next
    case (Some r)
    then show ?thesis using IH Cons.prems [of bid r] by (simp add: bindM_Ok)
  qed
qed

lemma hget_found:
  "hget (fold (\<lambda>(bid, r, d). hput bid d) (map (\<lambda>bid. (bid, g bid, p bid)) bids) P) bid =
    (if bid \<in> set bids then Some (p bid) else hget P bid)"
  by (induction bids arbitrary: P) auto

lemma load_blocks_step:
  assumes rel: "opt_rel E C Z os w M" and os: "opt_origins os" and org: "org \<in> os"
  shows "\<exists>P w'. load_blocks E C now org bids w = (Ok P, w') \<and> opt_rel E C Z os w' M
    \<and> (\<forall>bid. hget P bid = (if bid \<in> set bids then M org bid else None))"
proof -
  let ?V = "disk_manifest E C (ow_fs w)"
  define D where "D = (\<lambda>k. map_option cb_bytes (hget (ow_cache w) k))"
  obtain c P miss where cached: "cached_blocks now org bids (ow_cache w) [] [] = (c, P, miss)"
    by (metis prod_cases3)
  have run: "cache_le (ow_cache w) c" "\<And>k. map_option cb_bytes (hget c k) = D k"
    "\<And>bid. hget P bid = (if bid \<in> set bids \<and> D (cache_key org bid) \<noteq> None then D (cache_key org bid) else None)"
    "set miss = {bid \<in> set bids. D (cache_key org bid) = None}"
    using cached_blocks_run [OF cached, of D] by (simp_all add: D_def)
  define w1 where "w1 = w\<lparr>ow_cache := c\<rparr>"
  have rel1: "opt_rel E C Z os w1 M" unfolding w1_def by (rule rel_cache_le [OF rel run(1)])
  have core: "opt_core E C Z os (ow_fs w1) (ow_cache w1) ?V M" using rel1 by (simp add: opt_rel_def w1_def)
  have D: "D (cache_key org bid) = M org bid" if "D (cache_key org bid) \<noteq> None" for bid
    using core_cached [OF core os org, of bid] run(2) [of "cache_key org bid"] that by (auto simp: w1_def)
  have out: "hget (ow_cache w1) (cache_key org bid) = None" if "D (cache_key org bid) = None" for bid
    using run(2) [of "cache_key org bid"] that by (simp add: w1_def)
  show ?thesis
  proof (cases "miss = []")
    case True
    have "hget P bid = (if bid \<in> set bids then M org bid else None)" for bid
      using D [of bid] run(4) True by (auto simp: run(3))
    then show ?thesis using True cached rel1 by (simp add: load_blocks_def w1_def)
  next
    case False
    have fs: "ow_fs w1 = ow_fs w" by (simp add: w1_def)
    obtain m where m: "load_opt_manifest E C org now (ow_fs w1) = (Ok m, ow_fs w1)" "om_blocks m = om_blocks (?V org)"
      unfolding fs by (rule load_opt_manifest_Ok [OF core_basics(1) [OF core, unfolded fs]])
    have loaded: "on_fs (load_opt_manifest E C org now) w1 = (Ok m, w1)"
      using m(1) by (simp add: on_fs_def liftM_def)
    let ?here = "filter (\<lambda>bid. hget (om_blocks m) bid \<noteq> None) miss"
    define found where "found = map (\<lambda>bid. (bid, the (hget (om_blocks m) bid), the (M org bid))) ?here"
    have held: "M org bid = Some (the (M org bid)) \<and> block_held E C (ow_fs w1) (?V org) bid (the (M org bid))"
      if bid: "bid \<in> set ?here" for bid
    proof -
      have none: "hget (ow_cache w1) (cache_key org bid) = None" using bid run(4) out by auto
      then have "M org bid \<noteq> None" using bid core_absent(1) [OF core org] m(2) by auto
      then obtain d where "M org bid = Some d" by blast
      then show ?thesis using core_absent(2) [OF core org none, of d] by simp
    qed
    have fetch: "fetch_payload E C r w1 = (Ok (the (M org bid)), w1)"
      if "bid \<in> set miss" "hget (om_blocks m) bid = Some r" for bid r
      using held [of bid] that m(2) by (intro fetch_payload_Ok [OF core org]) auto
    have hyd: "hydrate_blocks E C m miss [] w1 = (Ok found, w1)"
      using hydrate_blocks_run [of miss m E C w1 "\<lambda>bid. the (M org bid)" "[]", OF fetch] by (simp add: found_def)
    define Q where "Q = fold (\<lambda>(bid, r, d). hput bid d) found P"
    have Q: "hget Q bid = (if bid \<in> set bids then M org bid else None)" for bid
    proof (cases "bid \<in> set bids \<and> D (cache_key org bid) = None")
      case True
      then show ?thesis
        using held [of bid] core_absent(1) [OF core org out, of bid] run(3,4) m(2)
        unfolding Q_def found_def hget_found by auto
    next
      case False
      then show ?thesis using D [of bid] run(3,4) unfolding Q_def found_def hget_found by auto
    qed
    show ?thesis
    proof (cases "found = []")
      case True
      then show ?thesis
        using cached False loaded hyd rel1 Q
        by (simp add: load_blocks_def bindM_Ok w1_def [symmetric] Q_def)
    next
      case some: False
      define w2 where "w2 = w1\<lparr>ow_cache := fold (\<lambda>(bid, r, d). hput (cache_key org bid)
          (hydrated r d (cache_key org bid \<in> set (ow_pinned w1)) now)) found (ow_cache w1)\<rparr>"
      have each: "M org bid = Some d \<and> block_held E C (ow_fs w1) (?V org) bid d" if "(bid, r, d) \<in> set found" for bid r d
      proof -
        have "bid \<in> set ?here" "d = the (M org bid)" using that by (auto simp: found_def)
        then show ?thesis using held [of bid] by simp
      qed
      have "opt_core E C Z os (ow_fs w1) (ow_cache w2) ?V M"
        using insert_hydrated [OF core os org each] by (simp add: w2_def)
      then have rel2: "opt_rel E C Z os w2 M" by (simp add: opt_rel_def w2_def w1_def)
      obtain w3 where w3: "enforce_cache_capacity C w2 = (Ok (), w3)" "opt_rel E C Z os w3 M"
        by (rule enforce_step [OF rel2])
      have "load_blocks E C now org bids w = (Ok Q, w3)"
        using cached False loaded hyd some w3(1)
        by (simp add: load_blocks_def bindM_Ok w1_def [symmetric] Q_def seqM_Ok on_cache_def w2_def)
      then show ?thesis using w3(2) Q by blast
    qed
  qed
qed



section \<open>Histories\<close>

text \<open>The calls of the store and what they do to the abstract one. Only the two stores change it.\<close>

datatype opt_event =
    StoreBlock time string string bytes u64 "string option" json
  | StoreBlocks time string "opt_input list"
  | FlushOrigin time string
  | FlushBlocks time string "string list"
  | LoadBlock time string string
  | LoadBlocks time string "string list"
  | PrefetchBlocks time string "string list"
  | PinBlocks string "string list"
  | UnpinBlocks string "string list"
  | EvictBlocks string "string list"

fun opt_perform :: "opt_env \<Rightarrow> opt_store \<Rightarrow> opt_event \<Rightarrow> (opt_world, unit) op" where
  "opt_perform E C (StoreBlock now org bid d step shard meta) = voidM (store_block E C now org bid d step shard meta)"
| "opt_perform E C (StoreBlocks now org inputs) = voidM (store_blocks E C now org inputs)"
| "opt_perform E C (FlushOrigin now org) = voidM (flush_origin E C now org)"
| "opt_perform E C (FlushBlocks now org bids) = voidM (flush_blocks E C now org bids)"
| "opt_perform E C (LoadBlock now org bid) = ignoreM (load_block E C now org bid)"
| "opt_perform E C (LoadBlocks now org bids) = voidM (load_blocks E C now org bids)"
| "opt_perform E C (PrefetchBlocks now org bids) = voidM (prefetch_blocks E C now org bids 0)"
| "opt_perform E C (PinBlocks org bids) = pin_blocks org bids"
| "opt_perform E C (UnpinBlocks org bids) = unpin_blocks C org bids"
| "opt_perform E C (EvictBlocks org bids) = voidM (evict_blocks org bids)"

fun opt_effect :: "opt_event \<Rightarrow> opt_view \<Rightarrow> opt_view" where
  "opt_effect (StoreBlock now org bid d step shard meta) M = M(org := (M org)(bid \<mapsto> d))"
| "opt_effect (StoreBlocks now org inputs) M = fold (store_input org) inputs M"
| "opt_effect ev M = M"

definition opt_history :: "opt_event list \<Rightarrow> opt_view" where
  "opt_history evs = fold opt_effect evs (\<lambda>_ _. None)"

fun opt_allowed :: "opt_env \<Rightarrow> opt_store \<Rightarrow> bytes set \<Rightarrow> string set \<Rightarrow> opt_event \<Rightarrow> bool" where
  "opt_allowed E C Z os (StoreBlock now org bid d step shard meta) \<longleftrightarrow>
     org \<in> os \<and> (\<exists>z \<in> Z. op_compress E (ot_level C) d = Ok z)"
| "opt_allowed E C Z os (StoreBlocks now org inputs) \<longleftrightarrow>
     org \<in> os \<and> (\<forall>i \<in> set inputs. \<exists>z \<in> Z. op_compress E (ot_level C) (oi_payload i) = Ok z)"
| "opt_allowed E C Z os (FlushOrigin now org) \<longleftrightarrow> org \<in> os"
| "opt_allowed E C Z os (FlushBlocks now org bids) \<longleftrightarrow> org \<in> os"
| "opt_allowed E C Z os (LoadBlock now org bid) \<longleftrightarrow> org \<in> os"
| "opt_allowed E C Z os (LoadBlocks now org bids) \<longleftrightarrow> org \<in> os"
| "opt_allowed E C Z os (PrefetchBlocks now org bids) \<longleftrightarrow> org \<in> os"
| "opt_allowed E C Z os (PinBlocks org bids) \<longleftrightarrow> org \<in> os"
| "opt_allowed E C Z os (UnpinBlocks org bids) \<longleftrightarrow> org \<in> os"
| "opt_allowed E C Z os (EvictBlocks org bids) \<longleftrightarrow> org \<in> os"

lemma pin_blocks_step:
  assumes "opt_rel E C Z os w M"
  shows "\<exists>w'. pin_blocks org bids w = (Ok (), w') \<and> opt_rel E C Z os w' M"
  using rel_world_le [OF assms] pin_fold_le [of w True org "\<lambda>bid. List.insert (cache_key org bid)" bids]
  by (simp add: pin_blocks_def)

lemma unpin_blocks_step:
  assumes rel: "opt_rel E C Z os w M"
  shows "\<exists>w'. unpin_blocks C org bids w = (Ok (), w') \<and> opt_rel E C Z os w' M"
proof -
  define w1 where "w1 = fold (\<lambda>bid w. w\<lparr>ow_pinned := removeAll (cache_key org bid) (ow_pinned w),
      ow_cache := mark_pinned False (cache_key org bid) (ow_cache w)\<rparr>) bids w"
  have "opt_rel E C Z os w1 M"
    unfolding w1_def
    using rel_world_le [OF rel] pin_fold_le [of w False org "\<lambda>bid. removeAll (cache_key org bid)" bids] by simp
  then obtain w2 where "enforce_cache_capacity C w1 = (Ok (), w2)" "opt_rel E C Z os w2 M"
    by (rule enforce_step)
  then show ?thesis by (simp add: unpin_blocks_def w1_def)
qed

lemma evict_blocks_step:
  assumes "opt_rel E C Z os w M"
  shows "\<exists>n w'. evict_blocks org bids w = (Ok n, w') \<and> opt_rel E C Z os w' M"
  using rel_cache_le [OF assms evict_keys_le] by (simp add: evict_blocks_def split_def)

lemma opt_perform_step:
  assumes env: "opt_env_ok E" and rel: "opt_rel E C Z os w M" and os: "opt_origins os"
    and ok: "opt_allowed E C Z os ev"
  shows "\<exists>w'. opt_perform E C ev w = (Ok (), w') \<and> opt_rel E C Z os w' (opt_effect ev M)"
proof (cases ev)
  case (StoreBlock now org bid d step shard meta)
  then have org: "org \<in> os" and z: "\<exists>z \<in> Z. op_compress E (ot_level C) d = Ok z" using ok by simp_all
  show ?thesis
    by (rule store_block_step [OF env rel os org z, of now bid step shard meta]) (use StoreBlock voidM_Ok in fastforce)
next
  case (StoreBlocks now org inputs)
  then have org: "org \<in> os" and z: "\<And>i. i \<in> set inputs \<Longrightarrow> \<exists>z \<in> Z. op_compress E (ot_level C) (oi_payload i) = Ok z"
    using ok by simp_all
  show ?thesis
    by (rule store_blocks_step [OF env rel os org z, of inputs now]) (use StoreBlocks voidM_Ok in fastforce)+
next
  case (FlushOrigin now org)
  then have org: "org \<in> os" using ok by simp
  show ?thesis
    by (rule flush_origin_step [OF env rel os org, of now]) (use FlushOrigin voidM_Ok in fastforce)
next
  case (FlushBlocks now org bids)
  then have org: "org \<in> os" using ok by simp
  show ?thesis
    by (rule flush_blocks_step [OF env rel os org, of now bids]) (use FlushBlocks voidM_Ok in fastforce)
next
  case (LoadBlock now org bid)
  then obtain w' where "load_block E C now org bid w = (of_option NotFound (M org bid), w')" "opt_rel E C Z os w' M"
    using load_block_step [OF rel os] ok by fastforce
  then show ?thesis using LoadBlock by (cases "M org bid") (simp_all add: ignoreM_def)
next
  case (LoadBlocks now org bids)
  then show ?thesis using load_blocks_step [OF rel os] ok voidM_Ok by fastforce
next
  case (PrefetchBlocks now org bids)
  then show ?thesis using prefetch_blocks_step [OF os _ rel] ok voidM_Ok by fastforce
next
  case (PinBlocks org bids)
  then show ?thesis using pin_blocks_step [OF rel] by simp
next
  case (UnpinBlocks org bids)
  then show ?thesis using unpin_blocks_step [OF rel] by simp
next
  case (EvictBlocks org bids)
  then show ?thesis using evict_blocks_step [OF rel] voidM_Ok by fastforce
qed

lemma opt_run:
  assumes env: "opt_env_ok E" and os: "opt_origins os"
    and rel: "opt_rel E C Z os w M" and ok: "\<forall>ev \<in> set evs. opt_allowed E C Z os ev"
  shows "\<exists>w'. forM evs (opt_perform E C) w = (Ok (), w') \<and> opt_rel E C Z os w' (fold opt_effect evs M)"
  using rel ok
proof (induction evs arbitrary: w M)
  case Nil
  then show ?case by simp
next
  case (Cons ev evs)
  obtain w1 where w1: "opt_perform E C ev w = (Ok (), w1)" "opt_rel E C Z os w1 (opt_effect ev M)"
    using opt_perform_step [OF env Cons.prems(1) os] Cons.prems(2) by auto
  obtain w2 where "forM evs (opt_perform E C) w1 = (Ok (), w2)" "opt_rel E C Z os w2 (fold opt_effect evs (opt_effect ev M))"
    using Cons.IH [OF w1(2)] Cons.prems(2) by auto
  then show ?case using w1(1) by (simp add: seqM_Ok)
qed


section \<open>Opening\<close>

definition opt_config :: "path \<Rightarrow> path \<Rightarrow> int \<Rightarrow> nat \<Rightarrow> nat \<Rightarrow> opt_store" where
  "opt_config root dir level capacity threshold = \<lparr>ot_root = root, ot_dir = dir, ot_level = level,
     ot_capacity = max capacity 1, ot_threshold = max threshold 1\<rparr>"

definition fresh_world :: "fs \<Rightarrow> opt_world" where
  "fresh_world s = \<lparr>ow_fs = s, ow_cache = [], ow_pinned = []\<rparr>"

lemma opt_open_run:
  assumes "fs_create_dir_all root r = (Ok (), s)" and "fs_create_dir_all dir s = (Ok (), t)"
  shows "opt_open root dir level capacity threshold r = (Ok (opt_config root dir level capacity threshold, fresh_world t), t)"
  using assms
  by (simp add: opt_open_def fs_blob_open_def map_io_def bindM_def seqM_def opt_config_def fresh_world_def)

lemma create_existing: "fs_wf s \<Longrightarrow> p \<in> set (fs_dirs s) \<Longrightarrow> fs_create_dir_all p s = (Ok (), s)"
  using mkdirs_existing [of s "[]" p "[]"] by (simp add: fs_create_dir_all_def)

lemma opt_opened:
  assumes lay: "doc_layout root dir" and inj: "inj_on (blake3_hex (op_hashes E)) Z"
  obtains s where "opt_open root dir level capacity threshold empty_disk
      = (Ok (opt_config root dir level capacity threshold, fresh_world s), s)" and "fs_files s = []"
    and "opt_rel E (opt_config root dir level capacity threshold) Z os (fresh_world s) (\<lambda>_ _. None)"
proof -
  obtain u s where us: "fs_create_dir_all root empty_disk = (Ok (), u)" "fs_create_dir_all dir u = (Ok (), s)"
    "fs_files s = []" "registry_inv (op_manifest E) root dir opt_suffix s"
    by (rule open_disk [OF lay opt_suffix_json])
  have "opt_rel E (opt_config root dir level capacity threshold) Z os (fresh_world s) (\<lambda>_ _. None)"
    using us(3,4) inj
    by (simp add: opt_rel_def opt_core_def opt_config_def fresh_world_def disk_manifest_def doc_at_def manifest_new_def
        content_addressed_def fs_blobs_def hwf_def hkeys_def)
  then show ?thesis using opt_open_run [OF us(1,2)] us(3) that by blast
qed

text \<open>Opening again on the disk of a running store starts with an empty cache. An origin without
  dirty blocks is then as before.\<close>

lemma opt_reopened:
  assumes rel: "opt_rel E C Z os w M" and C: "C = opt_config root dir level capacity threshold"
    and org: "org \<in> os" and clean: "origin_clean org (ow_cache w)"
  shows "opt_open root dir level capacity threshold (ow_fs w) = (Ok (C, fresh_world (ow_fs w)), ow_fs w)"
    and "opt_rel E C Z {org} (fresh_world (ow_fs w)) M"
proof -
  have core: "opt_core E C Z os (ow_fs w) (ow_cache w) (disk_manifest E C (ow_fs w)) M"
    using rel by (simp add: opt_rel_def)
  have reg: "registry_inv (op_manifest E) root dir opt_suffix (ow_fs w)"
    using core_basics(1) [OF core] by (simp add: C opt_config_def)
  have "fs_create_dir_all root (ow_fs w) = (Ok (), ow_fs w)" "fs_create_dir_all dir (ow_fs w) = (Ok (), ow_fs w)"
    using reg by (auto intro: create_existing simp: registry_inv_def fs_store_inv_def)
  from opt_open_run [OF this]
  show "opt_open root dir level capacity threshold (ow_fs w) = (Ok (C, fresh_world (ow_fs w)), ow_fs w)" by (simp add: C)
  have held: "block_held E C (ow_fs w) (disk_manifest E C (ow_fs w) org) bid p" if "M org bid = Some p" for bid p
    using core_held(2) [OF core org that] clean by (auto simp: origin_clean_def dirty_keys_def)
  have "opt_core E C Z {org} (ow_fs w) [] (disk_manifest E C (ow_fs w)) M"
    by (rule coreI)
      (use core_basics [OF core] core_held(1) [OF core org] core_recorded [OF core org] org held in
        \<open>simp_all add: hwf_def hkeys_def\<close>)
  then show "opt_rel E C Z {org} (fresh_world (ow_fs w)) M" by (simp add: opt_rel_def fresh_world_def)
qed

text \<open>C6: The store of optimizer state is a map from origins and blocks to the bytes stored last, whatever the
  cache does. After any history of stores, flushes, loads, prefetches, pins and evictions from an
  empty disk (origins without \<open>::\<close> and with different file names, no collisions of digests) every
  call has succeeded, also those that evict, write back and collect replaced blobs; a load returns
  the bytes stored last, or \<open>NotFound\<close> for a block that was never stored, and a load of several
  blocks returns those of them that were stored.\<close>

theorem optimizer_store_refines:
  assumes env: "opt_env_ok E" and lay: "doc_layout root dir"
    and C_def: "C = opt_config root dir level capacity threshold"
    and inj: "inj_on (blake3_hex (op_hashes E)) Z" and os: "opt_origins os"
    and ok: "\<forall>ev \<in> set evs. opt_allowed E C Z os ev"
  shows "\<exists>s w. opt_open root dir level capacity threshold empty_disk = (Ok (C, fresh_world s), s)
    \<and> forM evs (opt_perform E C) (fresh_world s) = (Ok (), w)
    \<and> (\<forall>org \<in> os. \<forall>bid now. fst (load_block E C now org bid w) = of_option NotFound (opt_history evs org bid))
    \<and> (\<forall>org \<in> os. \<forall>bids now. \<exists>P. fst (load_blocks E C now org bids w) = Ok P
        \<and> (\<forall>bid. hget P bid = (if bid \<in> set bids then opt_history evs org bid else None)))"
proof -
  obtain s where s: "opt_open root dir level capacity threshold empty_disk = (Ok (C, fresh_world s), s)"
    "opt_rel E C Z os (fresh_world s) (\<lambda>_ _. None)"
    unfolding C_def by (rule opt_opened [OF lay inj])
  obtain w where w: "forM evs (opt_perform E C) (fresh_world s) = (Ok (), w)" "opt_rel E C Z os w (opt_history evs)"
    using opt_run [OF env os s(2) ok] unfolding opt_history_def by blast
  have "fst (load_block E C now org bid w) = of_option NotFound (opt_history evs org bid)" if "org \<in> os" for org bid now
    using load_block_step [OF w(2) os that, of now bid] by force
  moreover have "\<exists>P. fst (load_blocks E C now org bids w) = Ok P
      \<and> (\<forall>bid. hget P bid = (if bid \<in> set bids then opt_history evs org bid else None))" if "org \<in> os" for org bids now
    using load_blocks_step [OF w(2) os that, of now bids] by force
  ultimately show ?thesis using s(1) w(1) by blast
qed

text \<open>C21: What was flushed survives a restart. After any such history and a flush of an origin, a store
  opened anew on the same disk, with nothing in its cache, returns for every block of the origin
  what the running store would have: no write-back is left out and no blob of a current block is
  collected.\<close>

theorem flushed_origin_survives_restart:
  assumes env: "opt_env_ok E" and lay: "doc_layout root dir"
    and C_def: "C = opt_config root dir level capacity threshold"
    and inj: "inj_on (blake3_hex (op_hashes E)) Z" and os: "opt_origins os"
    and ok: "\<forall>ev \<in> set evs. opt_allowed E C Z os ev" and org: "org \<in> os"
  shows "\<exists>s w m t. opt_open root dir level capacity threshold empty_disk = (Ok (C, fresh_world s), s)
    \<and> forM evs (opt_perform E C) (fresh_world s) = (Ok (), w)
    \<and> flush_origin E C now org w = (Ok m, t)
    \<and> opt_open root dir level capacity threshold (ow_fs t) = (Ok (C, fresh_world (ow_fs t)), ow_fs t)
    \<and> (\<forall>bid now. fst (load_block E C now org bid (fresh_world (ow_fs t))) = of_option NotFound (opt_history evs org bid))"
proof -
  obtain s where s: "opt_open root dir level capacity threshold empty_disk = (Ok (C, fresh_world s), s)"
    "opt_rel E C Z os (fresh_world s) (\<lambda>_ _. None)"
    unfolding C_def by (rule opt_opened [OF lay inj])
  obtain w where w: "forM evs (opt_perform E C) (fresh_world s) = (Ok (), w)" "opt_rel E C Z os w (opt_history evs)"
    using opt_run [OF env os s(2) ok] unfolding opt_history_def by blast
  obtain m t where t: "flush_origin E C now org w = (Ok m, t)" "opt_rel E C Z os t (opt_history evs)"
    "origin_clean org (ow_cache t)"
    by (rule flush_origin_step [OF env w(2) os org])
  note re = opt_reopened [OF t(2) C_def org t(3)]
  have one: "opt_origins {org}" using os org by (simp add: opt_origins_def)
  have "fst (load_block E C now org bid (fresh_world (ow_fs t))) = of_option NotFound (opt_history evs org bid)" for bid now
    using load_block_step [OF re(2) one, of org now bid] by force
  then show ?thesis using s(1) w(1) t(1) re(1) by blast
qed



section \<open>Where a block is lost\<close>

lemma fs_walk_no_dir:
  "''..'' \<notin> set cs \<Longrightarrow> cur @ cs \<notin> set (fs_dirs s) \<Longrightarrow> \<exists>e. fs_walk s cur (cs @ [n]) = Err e"
proof (induction cs arbitrary: cur)
  case Nil
  then show ?case by simp
next
  case (Cons c cs)
  then have "c \<noteq> ''..''" by auto
  then show ?case using Cons.IH [of "cur @ [c]"] Cons.prems by simp
qed

text \<open>Without its registry directory the store reads empty manifests and cannot write any.\<close>

definition registry_gone :: "opt_store \<Rightarrow> fs \<Rightarrow> bool" where
  "registry_gone C s \<longleftrightarrow> fs_store_inv (ot_root C) s \<and> ot_dir C \<notin> set (fs_dirs s) \<and> ''..'' \<notin> set (ot_dir C)
     \<and> \<not> blob_area (ot_root C) (ot_dir C)"

lemma gone_load:
  assumes "registry_gone C s"
  shows "load_opt_manifest E C org now s = (Ok (manifest_new org now), s)"
proof -
  have "\<exists>e. fs_walk s [] (manifest_path C org) = Err e"
    using fs_walk_no_dir [of "ot_dir C" "[]"] assms by (simp add: manifest_path_name registry_gone_def)
  then have "\<not> fs_exists s (manifest_path C org)" by (auto simp: fs_exists_def)
  then show ?thesis by (simp add: load_opt_manifest_def bindM_bool)
qed

lemma gone_save:
  assumes env: "opt_env_ok E" and gone: "registry_gone C s"
  obtains e where "save_opt_manifest E C m s = (Err e, s)"
proof -
  let ?n = "opt_name (om_origin_id m)"
  obtain b where b: "to_vec (op_manifest E) m = Ok b" using env unfolding opt_env_ok_def by blast
  have up: "?n \<noteq> ''..''" using json_name_not_up [OF json_suffix_ends [OF opt_suffix_json opt_name_ends]] by simp
  have tmp: "path_with_extension (ot_dir C @ [?n]) ''json.tmp'' = ot_dir C @ [tmp_of ?n]"
    using up by (simp add: path_with_extension_def tmp_of_def)
  obtain k where "fs_walk s [] (ot_dir C @ [tmp_of ?n]) = Err k"
    using fs_walk_no_dir [of "ot_dir C" "[]"] gone by (auto simp: registry_gone_def)
  then have "\<exists>e. map_io (''write '' @ ''optimizer manifest'' @ '' temp'') (ot_dir C @ [tmp_of ?n])
      (fs_write (ot_dir C @ [tmp_of ?n]) b) s = (Err e, s)"
    by (simp add: fs_write_def map_io_def)
  then show ?thesis
    using that b by (auto simp: save_opt_manifest_def print_doc_def manifest_path_name replace_doc_def tmp Let_def
        bindM_pure seqM_Err)
qed

text \<open>A store with one block in its cache.\<close>

definition one_block :: "fs \<Rightarrow> string \<Rightarrow> cached_block \<Rightarrow> opt_world" where
  "one_block s key b = \<lparr>ow_fs = s, ow_cache = [(key, b)], ow_pinned = []\<rparr>"

lemma one_block_simps [simp]:
  "ow_fs (one_block s key b) = s" "ow_cache (one_block s key b) = [(key, b)]" "ow_pinned (one_block s key b) = []"
  by (simp_all add: one_block_def)

lemma on_fs_one_block [simp]:
  "on_fs f (one_block s key b) = (case f s of (r, t) \<Rightarrow> (r, one_block t key b))"
  "on_fs f (fresh_world s) = (case f s of (r, t) \<Rightarrow> (r, fresh_world t))"
  by (simp_all add: on_fs_def liftM_def one_block_def fresh_world_def)

definition staged_block :: "bytes \<Rightarrow> u64 \<Rightarrow> string option \<Rightarrow> json \<Rightarrow> time \<Rightarrow> cached_block" where
  "staged_block d step shard meta now = touch now (cached_new d step shard meta now)"

lemma staged_block_simps [simp]:
  "cb_bytes (staged_block d step shard meta now) = d" "cb_dirty (staged_block d step shard meta now)"
  "\<not> cb_pinned (staged_block d step shard meta now)"
  by (simp_all add: staged_block_def touch_def cached_new_def)

definition written_block :: "opt_block \<Rightarrow> time \<Rightarrow> cached_block \<Rightarrow> cached_block" where
  "written_block r now b = touch now (b\<lparr>cb_dirty := False, cb_latest_record := Some r\<rparr>)"

lemma written_block_simps [simp]:
  "\<not> cb_dirty (written_block r now b)" "cb_pinned (written_block r now b) = cb_pinned b"
  by (simp_all add: written_block_def touch_def)

lemma store_staged:
  assumes "1 < ot_threshold C"
  shows "\<exists>r. store_block E C now org bid d step shard meta (fresh_world s) =
    (Ok r, one_block s (cache_key org bid) (staged_block d step shard meta now))"
proof -
  let ?c = "[(cache_key org bid, staged_block d step shard meta now)]"
  have "stage_block [] (cache_key org bid) d step shard meta now [] = ?c"
    by (simp add: stage_block_def hentry_def cached_new_def touch_def hput_def staged_block_def)
  moreover have "dirty_in (Some org) ?c \<le> 1" by (simp add: dirty_in_def)
  ultimately show ?thesis
    using assms by (simp add: store_block_def bindM_Ok seqM_Ok on_cache_def dirty_block_count_def Let_def fresh_world_def
        one_block_def)
qed

lemma load_one_block: "fst (load_block E C now org bid (one_block s (cache_key org bid) b)) = Ok (cb_bytes b)"
  by (simp add: load_block_def hget_Cons)

lemma clean_one_block:
  assumes "\<not> cb_dirty b"
  shows "dirty_block_count (Some org) (one_block s key b) = (Ok 0, one_block s key b)"
    and "key = cache_key org bid \<Longrightarrow> \<not> cb_pinned b \<Longrightarrow> evict_blocks org [bid] (one_block s key b) = (Ok 1, fresh_world s)"
  using assms
  by (simp_all add: dirty_block_count_def dirty_in_def evict_blocks_def hget_Cons hdel_def one_block_def fresh_world_def)

lemma flush_loop_one_block:
  assumes "opt_compress E C (cb_bytes b) = Ok z" and "blob = compute_blob_id (op_hashes E) z Blake3"
    and "bindM (fs_blob_has (ot_root C) blob) (\<lambda>found.
      if found then returnM () else fs_blob_put (ot_root C) blob z) s = (Ok (), t)"
    and "split_colons key = Some (o', bid)" and "r = opt_record bid blob b z now" and "cb_dirty b"
  shows "flush_loop E C now [key] (manifest_new org now, []) (one_block s key b)
    = (Ok ((manifest_new org now)\<lparr>om_blocks := [(bid, r)]\<rparr>, []), one_block t key (written_block r now b))"
proof -
  have "flush_dirty E C now key b (manifest_new org now, []) (one_block s key b)
      = (Ok ((manifest_new org now)\<lparr>om_blocks := hput bid r (om_blocks (manifest_new org now)), om_updated_at := now\<rparr>,
          [] @ replaced_by (manifest_new org now) bid r),
         (one_block s key b)\<lparr>ow_fs := t, ow_cache := hput key (written_block r now b) (ow_cache (one_block s key b))\<rparr>)"
    unfolding written_block_def
    by (rule flush_dirty_run [OF assms(1,2) _ assms(4,5)]) (simp add: assms(3))
  then show ?thesis
    using assms(6)
    by (simp add: bindM_Ok flush_key_def hget_Cons replaced_by_def manifest_new_def hput_def one_block_def)
qed

text \<open>C37: A flush that fails loses the block. When the manifest cannot be written (here the directory of the
  registry has been removed), \<open>flush_blocks\<close> returns the error, but it has marked the block clean
  before it: the block counts as written, is evicted on request or for room, and is gone. The code
  clears \<open>dirty\<close> in the loop, before \<open>save_manifest\<close>.\<close>

theorem failed_flush_loses_block:
  assumes env: "opt_env_ok E" and gone: "registry_gone C s" and two: "1 < ot_threshold C" and org: "clean_origin org"
  shows "\<exists>r w1 e w2 w3. store_block E C now org bid d step shard meta (fresh_world s) = (Ok r, w1)
    \<and> fst (load_block E C now org bid w1) = Ok d
    \<and> flush_blocks E C now org [bid] w1 = (Err e, w2) \<and> dirty_block_count (Some org) w2 = (Ok 0, w2)
    \<and> evict_blocks org [bid] w2 = (Ok 1, w3) \<and> fst (load_block E C now org bid w3) = Err NotFound"
proof -
  let ?key = "cache_key org bid"
  define b where "b = staged_block d step shard meta now"
  obtain r where r: "store_block E C now org bid d step shard meta (fresh_world s) = (Ok r, one_block s ?key b)"
    unfolding b_def using store_staged [OF two] by blast
  obtain z where z: "opt_compress E C (cb_bytes b) = Ok z" by (rule opt_compress_Ok [OF env])
  have H: "hash_ok (op_hashes E)" using env by (simp add: opt_env_ok_def)
  define blob where "blob = compute_blob_id (op_hashes E) z Blake3"
  obtain t where t: "bindM (fs_blob_has (ot_root C) blob) (\<lambda>found.
      if found then returnM () else fs_blob_put (ot_root C) blob z) s = (Ok (), t)"
    "fs_store_inv (ot_root C) t" "same_outside (ot_root C) s t"
    using keep_blob_run [of "ot_root C" s blob z] gone hash_ok_good [OF H] unfolding registry_gone_def blob_def by blast
  have gone': "registry_gone C t" using gone t(2,3) by (simp add: registry_gone_def same_outside_def)
  define rec where "rec = opt_record bid blob b z now"
  define w2 where "w2 = one_block t ?key (written_block rec now b)"
  obtain m where loop: "flush_loop E C now [?key] (manifest_new org now, []) (one_block s ?key b) = (Ok (m, []), w2)"
    unfolding w2_def using flush_loop_one_block [OF z blob_def t(1) split_colons_key [OF org] rec_def] by (simp add: b_def)
  obtain e where e: "save_opt_manifest E C m t = (Err e, t)" by (rule gone_save [OF env gone'])
  have "flush_blocks E C now org [bid] (one_block s ?key b) = (Err e, w2)"
    using loop gone_load [OF gone] e
    by (simp add: flush_blocks_def flush_keys_def bindM_Ok seqM_Err w2_def del: flush_loop.simps)
  moreover have "load_block E C now org bid (fresh_world t) = (Err NotFound, fresh_world t)"
    using gone_load [OF gone'] by (intro load_absent [of _ _ _ _ _ _ "manifest_new org now"]) (simp_all add: manifest_new_def fresh_world_def on_fs_def liftM_def)
  moreover have "dirty_block_count (Some org) w2 = (Ok 0, w2)" "evict_blocks org [bid] w2 = (Ok 1, fresh_world t)"
    unfolding w2_def by (rule clean_one_block; simp add: b_def)+
  moreover have "fst (load_block E C now org bid (one_block s ?key b)) = Ok d" by (simp add: load_one_block b_def)
  ultimately show ?thesis using r by (metis fst_conv)
qed

text \<open>A block of an origin whose identifier contains \<open>::\<close> is lost by a flush. \<open>flush_keys\<close> reads the block
  identifier back from the cache key, at its first \<open>::\<close>, and records the block under another name:
  the flush succeeds and the block counts as clean, but once it has left the cache a load does not
  find it. Identifiers of the form \<open>ckpt:<uuid>\<close> have a single colon and are not affected.\<close>

theorem colon_origin_loses_block:
  assumes env: "opt_env_ok E" and lay: "doc_layout root dir"
    and C_def: "C = opt_config root dir level capacity threshold" and two: "1 < threshold"
    and split: "split_colons (cache_key org bid) = Some (o', bid')" and other: "bid' \<noteq> bid"
  shows "\<exists>s r w1 m w2 w3. opt_open root dir level capacity threshold empty_disk = (Ok (C, fresh_world s), s)
    \<and> store_block E C now org bid d step shard meta (fresh_world s) = (Ok r, w1)
    \<and> fst (load_block E C now org bid w1) = Ok d
    \<and> flush_origin E C now org w1 = (Ok m, w2) \<and> dirty_block_count (Some org) w2 = (Ok 0, w2)
    \<and> evict_blocks org [bid] w2 = (Ok 1, w3) \<and> fst (load_block E C now org bid w3) = Err NotFound"
proof -
  let ?key = "cache_key org bid"
  define b where "b = staged_block d step shard meta now"
  obtain z where z: "opt_compress E C (cb_bytes b) = Ok z" by (rule opt_compress_Ok [OF env])
  have H: "hash_ok (op_hashes E)" using env by (simp add: opt_env_ok_def)
  obtain s where s: "opt_open root dir level capacity threshold empty_disk = (Ok (C, fresh_world s), s)"
    "fs_files s = []" "opt_rel E C {z} {} (fresh_world s) (\<lambda>_ _. None)"
    unfolding C_def by (rule opt_opened [OF lay, of E "{z}"]) simp_all
  have reg: "registry_inv (op_manifest E) (ot_root C) (ot_dir C) opt_suffix s"
    and ca: "content_addressed (op_hashes E) {z} (ot_root C) s"
    using s(3) by (simp_all add: opt_rel_def opt_core_def fresh_world_def)
  have th: "1 < ot_threshold C" "1 \<le> ot_capacity C" using two by (simp_all add: C_def opt_config_def)
  obtain r where r: "store_block E C now org bid d step shard meta (fresh_world s) = (Ok r, one_block s ?key b)"
    unfolding b_def using store_staged [OF th(1)] by blast
  define blob where "blob = compute_blob_id (op_hashes E) z Blake3"
  obtain t where t: "bindM (fs_blob_has (ot_root C) blob) (\<lambda>found.
      if found then returnM () else fs_blob_put (ot_root C) blob z) s = (Ok (), t)"
    "registry_inv (op_manifest E) (ot_root C) (ot_dir C) opt_suffix t"
    by (rule content_put [OF reg H ca singletonI blob_def])
  define rec where "rec = opt_record bid' blob b z now"
  define m where "m = (manifest_new org now)\<lparr>om_blocks := [(bid', rec)]\<rparr>"
  have loop: "flush_loop E C now [?key] (manifest_new org now, []) (one_block s ?key b)
      = (Ok (m, []), one_block t ?key (written_block rec now b))"
    unfolding m_def by (rule flush_loop_one_block [OF z blob_def t(1) split rec_def]) (simp add: b_def)
  obtain u m2 where u: "save_opt_manifest E C m t = (Ok (), u)"
    "registry_inv (op_manifest E) (ot_root C) (ot_dir C) opt_suffix u"
    "doc_at (op_manifest E) (ot_dir C) u (opt_name org) = Some m2"
    "map_option same_opt_block (hget (om_blocks m2) bid) = map_option same_opt_block (hget (om_blocks m) bid)"
    using save_opt_manifest_run [OF env t(2), of m] by (auto simp: m_def manifest_new_def)
  define w2 where "w2 = one_block u ?key (written_block rec now b)"
  have "load_opt_manifest E C org now s = (Ok (manifest_new org now), s)"
    by (rule load_missing [OF reg]) (simp add: doc_at_def s(2))
  then have "flush_keys E C now org [?key] (one_block s ?key b) = (Ok m, w2)"
    using loop u(1) th(2)
    by (simp add: flush_keys_def bindM_Ok seqM_Ok opt_gc_def gc_docs_def enforce_cache_capacity_def w2_def
        del: flush_loop.simps)
  then have "flush_origin E C now org (one_block s ?key b) = (Ok m, w2)"
    by (simp add: flush_origin_def bindM_Ok hkeys_def starts_with_iff cache_key_def)
  moreover have "fst (load_block E C now org bid (fresh_world u)) = Err NotFound"
  proof -
    obtain m3 where m3: "load_opt_manifest E C org now u = (Ok m3, u)"
      "om_blocks m3 = om_blocks (disk_manifest E C u org)"
      by (rule load_opt_manifest_Ok [OF u(2)])
    have "hget (om_blocks m3) bid = None" using m3(2) u(3,4) other by (simp add: disk_manifest_def m_def hget_Cons)
    then have "load_block E C now org bid (fresh_world u) = (Err NotFound, fresh_world u)"
      using m3(1) by (intro load_absent [of _ _ _ _ _ _ m3]) (simp_all add: fresh_world_def on_fs_def liftM_def)
    then show ?thesis by simp
  qed
  moreover have "dirty_block_count (Some org) w2 = (Ok 0, w2)" "evict_blocks org [bid] w2 = (Ok 1, fresh_world u)"
    unfolding w2_def by (rule clean_one_block; simp add: b_def)+
  moreover have "fst (load_block E C now org bid (one_block s ?key b)) = Ok d" by (simp add: load_one_block b_def)
  ultimately show ?thesis using s(1) r by blast
qed



section \<open>A concrete environment\<close>

text \<open>Hashes without collisions, the identity as compressor, and a codec that writes everything but the
  free metadata. The disk of the bindings: the registry lies in the root of the blobs.\<close>

type_synonym opt_tuple = "string \<times> blob_id \<times> u64 \<times> string option \<times> nat \<times> nat \<times> int"

definition opt_tuple :: "opt_block \<Rightarrow> opt_tuple" where
  "opt_tuple r = (ob_block_id r, ob_blob_id r, ob_step r, ob_shard_key r, ob_size_raw r, ob_size_stored r, ob_stored_at r)"

fun tuple_block :: "opt_tuple \<Rightarrow> opt_block" where
  "tuple_block (i, b, st, sh, sr, ss, at) =
     \<lparr>ob_block_id = i, ob_blob_id = b, ob_step = st, ob_shard_key = sh, ob_size_raw = sr, ob_size_stored = ss,
      ob_stored_at = at, ob_metadata = JNull\<rparr>"

lemma tuple_block_same: "tuple_block (opt_tuple r) = same_opt_block r"
  by (simp add: opt_tuple_def same_opt_block_def)

definition manifest_enc :: "(string \<times> string \<times> (string \<times> opt_tuple) list \<times> int) enc" where
  "manifest_enc = pair_enc text_enc (pair_enc text_enc (pair_enc (list_enc (pair_enc text_enc
     (pair_enc text_enc (pair_enc text_enc (pair_enc word_enc (pair_enc (opt_enc text_enc) (pair_enc nat_enc
     (pair_enc nat_enc int_enc)))))))) int_enc))"

definition manifest_dec :: "(string \<times> string \<times> (string \<times> opt_tuple) list \<times> int) dec" where
  "manifest_dec = pair_dec text_dec (pair_dec text_dec (pair_dec (list_dec (pair_dec text_dec
     (pair_dec text_dec (pair_dec text_dec (pair_dec word_dec (pair_dec (opt_dec text_dec) (pair_dec nat_dec
     (pair_dec nat_dec int_dec)))))))) int_dec))"

lemma manifest_code: "rev_code manifest_enc manifest_dec"
  unfolding manifest_enc_def manifest_dec_def by (intro plain_codes)

definition demo_opt_codec :: "opt_manifest codec" where
  "demo_opt_codec = \<lparr>
     to_vec = (\<lambda>m. Ok (manifest_enc (om_schema m, om_origin_id m, map (\<lambda>(k, r). (k, opt_tuple r)) (om_blocks m), om_updated_at m))),
     from_slice = (\<lambda>b. case manifest_dec b of
         Some ((schema, org, ts, at), []) \<Rightarrow> Ok \<lparr>om_schema = schema, om_origin_id = org,
           om_blocks = map (\<lambda>(k, t). (k, tuple_block t)) ts, om_updated_at = at\<rparr>
       | _ \<Rightarrow> Err ''trailing characters'')\<rparr>"

definition demo_opt_env :: opt_env where
  "demo_opt_env = \<lparr>op_hashes = demo_hashes, op_manifest = demo_opt_codec,
     op_compress = (\<lambda>_ b. Ok b), op_decompress = (\<lambda>b. Ok b)\<rparr>"

lemma demo_opt_env_ok: "opt_env_ok demo_opt_env"
proof -
  have code: "manifest_dec (manifest_enc x) = Some (x, [])" for x
    by (rule rev_code_whole [OF manifest_code])
  have get: "hget (map (\<lambda>(k, t). (k, tuple_block t)) (map (\<lambda>(k, r). (k, opt_tuple r)) bs)) k = map_option same_opt_block (hget bs k)"
    for bs :: "(string \<times> opt_block) list" and k
    by (induction bs) (auto simp: hget_Cons tuple_block_same)
  have "same_opt_block (same_opt_block r) = same_opt_block r" for r by (simp add: same_opt_block_def)
  then show ?thesis
    using demo_hash_ok
    by (simp add: opt_env_ok_def demo_opt_env_def demo_opt_codec_def code get option.map_comp comp_def del: map_map)
qed

lemma demo_opt_inj: "inj_on (blake3_hex (op_hashes demo_opt_env)) Z"
  by (intro inj_onI injD [OF demo_hash_inj [of Blake3]]) (simp add: demo_opt_env_def)

lemma demo_opt_layout: "doc_layout [''srv''] [''srv'', ''optimizer_registry'']"
  by code_simp

definition demo_opt_store :: "nat \<Rightarrow> opt_store" where
  "demo_opt_store threshold = opt_config [''srv''] [''srv'', ''optimizer_registry''] 3 32 threshold"

lemma demo_opt_origins: "opt_origins {''run''}"
proof -
  have "clean_origin ''run''" by code_simp
  then show ?thesis by (simp add: opt_origins_def)
qed

text \<open>A block is stored twice; the second write-back collects the blob of the first.\<close>

theorem optimizer_store_refines_witness:
  "\<exists>s w. opt_open [''srv''] [''srv'', ''optimizer_registry''] 3 32 1 empty_disk = (Ok (demo_opt_store 1, fresh_world s), s)
    \<and> forM [StoreBlock 1 ''run'' ''w'' [1] 1 None JNull, StoreBlock 2 ''run'' ''w'' [2] 2 None JNull, EvictBlocks ''run'' [''w'']]
        (opt_perform demo_opt_env (demo_opt_store 1)) (fresh_world s) = (Ok (), w)
    \<and> fst (load_block demo_opt_env (demo_opt_store 1) 3 ''run'' ''w'' w) = Ok [2]
    \<and> fst (load_block demo_opt_env (demo_opt_store 1) 3 ''run'' ''v'' w) = Err NotFound"
proof -
  let ?evs = "[StoreBlock 1 ''run'' ''w'' [1] 1 None JNull, StoreBlock 2 ''run'' ''w'' [2] 2 None JNull, EvictBlocks ''run'' [''w'']]"
  have ok: "\<forall>ev \<in> set ?evs. opt_allowed demo_opt_env (demo_opt_store 1) UNIV {''run''} ev"
    by (simp add: demo_opt_env_def)
  have "opt_history ?evs ''run'' ''w'' = Some [2]" "opt_history ?evs ''run'' ''v'' = None"
    by (simp_all add: opt_history_def)
  then show ?thesis
    using optimizer_store_refines [OF demo_opt_env_ok demo_opt_layout demo_opt_store_def demo_opt_inj demo_opt_origins ok]
    by (metis insertI1 of_option_simps)
qed

theorem flushed_origin_survives_restart_witness:
  "\<exists>s w m t. opt_open [''srv''] [''srv'', ''optimizer_registry''] 3 32 8 empty_disk = (Ok (demo_opt_store 8, fresh_world s), s)
    \<and> forM [StoreBlock 1 ''run'' ''w'' [1] 1 None JNull, StoreBlock 2 ''run'' ''v'' [1] 2 None JNull]
        (opt_perform demo_opt_env (demo_opt_store 8)) (fresh_world s) = (Ok (), w)
    \<and> flush_origin demo_opt_env (demo_opt_store 8) 3 ''run'' w = (Ok m, t)
    \<and> fst (load_block demo_opt_env (demo_opt_store 8) 4 ''run'' ''v'' (fresh_world (ow_fs t))) = Ok [1]"
proof -
  let ?evs = "[StoreBlock 1 ''run'' ''w'' [1] 1 None JNull, StoreBlock 2 ''run'' ''v'' [1] 2 None JNull]"
  have ok: "\<forall>ev \<in> set ?evs. opt_allowed demo_opt_env (demo_opt_store 8) UNIV {''run''} ev"
    by (simp add: demo_opt_env_def)
  have "opt_history ?evs ''run'' ''v'' = Some [1]" by (simp add: opt_history_def)
  then show ?thesis
    using flushed_origin_survives_restart [OF demo_opt_env_ok demo_opt_layout demo_opt_store_def demo_opt_inj
        demo_opt_origins ok insertI1, of 3]
    by (metis of_option_simps(1))
qed

text \<open>A disk whose registry directory has been removed.\<close>

definition stripped_disk :: fs where
  "stripped_disk = \<lparr>fs_files = [], fs_dirs = [[''srv''], []]\<rparr>"

lemma stripped_gone: "registry_gone (demo_opt_store 8) stripped_disk"
  by (auto simp: registry_gone_def fs_store_inv_def fs_wf_def stripped_disk_def demo_opt_store_def opt_config_def
      blob_area_iff alg_dir_def)

theorem failed_flush_loses_block_witness:
  "\<exists>r w1 e w2 w3. store_block demo_opt_env (demo_opt_store 8) 1 ''run'' ''w'' [1] 1 None JNull (fresh_world stripped_disk) = (Ok r, w1)
    \<and> flush_blocks demo_opt_env (demo_opt_store 8) 1 ''run'' [''w''] w1 = (Err e, w2)
    \<and> evict_blocks ''run'' [''w''] w2 = (Ok 1, w3)
    \<and> fst (load_block demo_opt_env (demo_opt_store 8) 1 ''run'' ''w'' w3) = Err NotFound"
proof -
  have "1 < ot_threshold (demo_opt_store 8)" by (simp add: demo_opt_store_def opt_config_def)
  moreover have "clean_origin ''run''" by code_simp
  ultimately show ?thesis
    using failed_flush_loses_block [OF demo_opt_env_ok stripped_gone, of "''run''"] by meson
qed

theorem colon_origin_loses_block_witness:
  "\<exists>s r w1 m w2 w3. opt_open [''srv''] [''srv'', ''optimizer_registry''] 3 32 8 empty_disk = (Ok (demo_opt_store 8, fresh_world s), s)
    \<and> store_block demo_opt_env (demo_opt_store 8) 1 ''team::run'' ''w'' [1] 1 None JNull (fresh_world s) = (Ok r, w1)
    \<and> flush_origin demo_opt_env (demo_opt_store 8) 1 ''team::run'' w1 = (Ok m, w2)
    \<and> evict_blocks ''team::run'' [''w''] w2 = (Ok 1, w3)
    \<and> fst (load_block demo_opt_env (demo_opt_store 8) 1 ''team::run'' ''w'' w3) = Err NotFound"
proof -
  have "split_colons (cache_key ''team::run'' ''w'') = Some (''team'', ''run::w'')" by code_simp
  moreover have "''run::w'' \<noteq> ''w''" by simp
  ultimately show ?thesis
    using colon_origin_loses_block [OF demo_opt_env_ok demo_opt_layout demo_opt_store_def] by (metis one_less_numeral_iff semiring_norm(76))
qed

end
