(* ===== verification/Sodl_Api.thy ===== *)
theory Sodl_Api
  imports Sodl_Lifecycle
begin

text \<open>
  The HTTP interface, \<open>crates/sodl-api\<close>: the request and response bodies (\<open>dto.rs\<close>), the handlers
  (\<open>handlers.rs\<close>), the state they share and its builder (\<open>state.rs\<close>), the routes (\<open>router.rs\<close>) and
  the configuration (\<open>config.rs\<close>). A handler is a call on the state of the node that returns a
  status and a body, or an error response. The values it draws (identifiers, readings of the clock)
  are arguments; what belongs to other crates (parsing of UUIDs and JSON, the text of a time) are
  fields of \<open>api_env\<close>. A multipart body is the list of the parts that axum delivers.
\<close>

section \<open>Bodies\<close>

record upload_meta =
  um_owner :: string
  um_media_kind :: string
  um_mime :: "string option"
  um_durability :: string

definition default_durability :: string where
  "default_durability = ''best_effort''"

record upload_body =
  ub_origin_id :: string
  ub_blob_id :: string
  ub_chunked :: bool
  ub_chunk_blobs :: "string list"

record resolve_meta =
  rm_media_kind :: "string option"
  rm_mime :: "string option"

record 'f candidate_body =
  pc_origin_id :: string
  pc_match_kind :: string
  pc_confidence :: 'f
  pc_matched_chunks :: "nat option"
  pc_total_chunks :: "nat option"
  pc_ratio :: "'f option"

record 'f resolve_body =
  rv_payload_fingerprint :: string
  rv_chunk_count :: nat
  rv_candidates :: "'f candidate_body list"

record rep_request =
  rq_name :: string
  rq_media_kind :: string
  rq_mime :: "string option"
  rq_size_bytes :: "u64 option"
  rq_root_blobs :: "string list"

record origin_request =
  oq_owner :: "string option"
  oq_media_kind :: string
  oq_durability :: string
  oq_representations :: "rep_request list"

record rep_body =
  rb_name :: string
  rb_media_kind :: string
  rb_mime :: "string option"
  rb_size_bytes :: "u64 option"
  rb_root_blobs :: "string list"

record origin_body =
  ob_origin_id :: string
  ob_media_kind :: string
  ob_durability :: string
  ob_created_at :: string
  ob_tombstoned_at :: "string option"
  ob_representations :: "rep_body list"
  ob_owner :: "string option"

record reps_body =
  rl_origin_id :: string
  rl_representations :: "rep_body list"

record blob_body =
  bb_blob_id :: string
  bb_existed :: bool
  bb_size_bytes :: nat

record share_request =
  sq_from :: string
  sq_to :: string
  sq_origin_id :: string
  sq_capabilities :: "string list"

definition default_caps :: "string list" where
  "default_caps = [''read'']"

record share_body =
  sb_share_id :: string
  sb_origin_id :: string

record share_detail =
  sd_share_id :: string
  sd_origin_id :: string
  sd_from :: string
  sd_to :: string
  sd_capabilities :: "string list"
  sd_created_at :: string
  sd_proof_digest :: string

record derive_request =
  dq_origin_id :: string
  dq_kind :: string
  dq_description :: "string option"
  dq_media_kind :: string

definition default_media_kind :: string where
  "default_media_kind = ''binary''"

record derive_body =
  db_derivation_id :: string
  db_origin_id :: string

record pin_request =
  pq_origin_id :: string
  pq_requested_by :: string
  pq_min_replicas :: u8

definition default_replicas :: u8 where
  "default_replicas = 1"

record pin_body =
  pb_pin_id :: string
  pb_origin_id :: string

record proof_body =
  lb_origin_id :: string
  lb_digest :: string
  lb_created_at :: string

record verify_body =
  vb_share_id :: string
  vb_valid :: bool

record health_body =
  hb_status :: string
  hb_version :: string

definition default_reason :: string where
  "default_reason = ''deleted by owner''"


section \<open>Errors and parsing\<close>

datatype http_status = StOk | StCreated | StNoContent | StBadRequest | StForbidden | StNotFound | StConflict | StInternal

type_synonym http_error = "http_status \<times> string"
type_synonym ('w, 'a) handler = "('w, http_error, 'a) act"

fun error_show :: "sodl_error \<Rightarrow> string" where
  "error_show NotFound = ''not found''"
| "error_show Integrity = ''integrity check failed''"
| "error_show Unauthorized = ''unauthorized''"
| "error_show Conflict = ''conflict''"
| "error_show (Invalid m) = ''invalid input: '' @ m"
| "error_show (Io m) = ''io: '' @ m"
| "error_show (Crypto m) = ''crypto: '' @ m"
| "error_show (Unsupported m) = ''unsupported operation: '' @ m"
| "error_show (Compression m) = ''compression: '' @ m"
| "error_show (Serialization m) = ''serialization: '' @ m"
| "error_show (WeightStoreErr m) = ''weight store: '' @ m"

definition err_response :: "sodl_error \<Rightarrow> http_error" where
  "err_response e = (case e of
     NotFound \<Rightarrow> (StNotFound, error_show e)
   | Conflict \<Rightarrow> (StConflict, error_show e)
   | Unauthorized \<Rightarrow> (StForbidden, error_show e)
   | Invalid m \<Rightarrow> (StBadRequest, error_show e)
   | Integrity \<Rightarrow> (StInternal, ''integrity check failed'')
   | _ \<Rightarrow> (StInternal, error_show e))"

text \<open>\<open>.map_err(err_response)?\<close>.\<close>

definition backend :: "('w, 'a) op \<Rightarrow> ('w, 'a) handler" where
  "backend m s = (case m s of (Ok a, t) \<Rightarrow> (Ok a, t) | (Err e, t) \<Rightarrow> (Err (err_response e), t) | (Panic, t) \<Rightarrow> (Panic, t))"

definition bad_request :: "string \<Rightarrow> http_error" where
  "bad_request m = (StBadRequest, m)"

record api_env =
  ae_hashes :: hashes
  ae_codec :: "chunk_manifest codec"
  ae_parse_uuid :: "string \<Rightarrow> uuid option"
  ae_show_time :: "time \<Rightarrow> string"
  ae_parse_meta :: "string \<Rightarrow> (string, upload_meta) outcome"
  ae_parse_resolve :: "string \<Rightarrow> (string, resolve_meta) outcome"

definition parse_origin_id :: "api_env \<Rightarrow> string \<Rightarrow> (http_error, origin_id) outcome" where
  "parse_origin_id E s = of_option (bad_request (''invalid origin_id: '' @ s)) (ae_parse_uuid E s)"

text \<open>\<open>to_lowercase\<close> on ASCII; no other character lowers to one of the words that are matched.\<close>

definition lower_char :: "char \<Rightarrow> char" where
  "lower_char c = (if 65 \<le> (of_char c :: nat) \<and> (of_char c :: nat) \<le> 90 then char_of ((of_char c :: nat) + 32) else c)"

definition lowercase :: "string \<Rightarrow> string" where
  "lowercase = map lower_char"

definition parse_media_kind :: "string \<Rightarrow> media_kind" where
  "parse_media_kind s =
     (let l = lowercase s in
      if l = ''image'' then Image
      else if l = ''audio'' then Audio
      else if l = ''video'' then Video
      else if l = ''document'' then Document
      else if l = ''ai_model'' \<or> l = ''aimodel'' \<or> l = ''model'' then AiModel
      else Binary)"

definition parse_durability :: "string \<Rightarrow> durability" where
  "parse_durability s =
     (let l = lowercase s in
      if l = ''ephemeral'' then Ephemeral else if l = ''durable'' then Durable else BestEffort)"

definition parse_capability :: "string \<Rightarrow> capability" where
  "parse_capability s =
     (let l = lowercase s in
      if l = ''reshare'' then Reshare
      else if l = ''derive'' then Derive
      else if l = ''pin'' then PinCap
      else if l = ''admin'' then Admin
      else Read)"

fun format_media_kind :: "media_kind \<Rightarrow> string" where
  "format_media_kind Binary = ''binary''"
| "format_media_kind Image = ''image''"
| "format_media_kind Audio = ''audio''"
| "format_media_kind Video = ''video''"
| "format_media_kind Document = ''document''"
| "format_media_kind AiModel = ''ai_model''"

fun format_durability :: "durability \<Rightarrow> string" where
  "format_durability Ephemeral = ''ephemeral''"
| "format_durability BestEffort = ''best_effort''"
| "format_durability Durable = ''durable''"

fun format_cap :: "capability \<Rightarrow> string" where
  "format_cap Read = ''read''"
| "format_cap Reshare = ''reshare''"
| "format_cap Derive = ''derive''"
| "format_cap PinCap = ''pin''"
| "format_cap Admin = ''admin''"

definition representation_response :: "representation \<Rightarrow> rep_body" where
  "representation_response rep = \<lparr>rb_name = rep_name rep, rb_media_kind = format_media_kind (rep_media_kind rep),
     rb_mime = rep_mime rep, rb_size_bytes = rep_size_bytes rep, rb_root_blobs = rep_root_blobs rep\<rparr>"

definition origin_response :: "api_env \<Rightarrow> origin_record \<Rightarrow> origin_body" where
  "origin_response E rec = \<lparr>ob_origin_id = uuid_show (or_origin_id rec),
     ob_media_kind = format_media_kind (or_media_kind rec), ob_durability = format_durability (or_durability rec),
     ob_created_at = ae_show_time E (or_created_at rec), ob_tombstoned_at = map_option (ae_show_time E) (or_tombstoned_at rec),
     ob_representations = map representation_response (or_representations rec), ob_owner = or_owner rec\<rparr>"


section \<open>The state\<close>

text \<open>The blob store and the metadata stores are those of a node, of which the service uses all but the
  tombstones and replicas.\<close>

record 'w app_state =
  as_node :: "'w node"
  as_crypto :: crypto
  as_hash_alg :: hash_alg
  as_proof_signer :: "signer option"
  as_chunk_config :: "chunk_config option"

abbreviation as_blobs :: "'w app_state \<Rightarrow> 'w blob_store" where
  "as_blobs st \<equiv> nd_store (as_node st)"

definition app_service :: "'w app_state \<Rightarrow> 'w service" where
  "app_service st = \<lparr>sv_node = as_node st,
     sv_enc_cas = \<lparr>ec_store = as_blobs st, ec_crypto = as_crypto st, ec_hash_alg = as_hash_alg st\<rparr>,
     sv_crypto = as_crypto st, sv_signer = as_proof_signer st, sv_chunk_config = as_chunk_config st\<rparr>"

definition default_policy :: "origin_id \<Rightarrow> durability \<Rightarrow> origin_policy" where
  "default_policy org dur = \<lparr>op_origin_id = org,
     op_retention = \<lparr>rp_durability = dur, rp_ttl_seconds = None,
        rp_min_replicas = (case dur of Durable \<Rightarrow> Some 1 | _ \<Rightarrow> None)\<rparr>,
     op_access = \<lparr>ap_default_caps = [Read], ap_allow_reshare = True, ap_allow_derivation = True\<rparr>\<rparr>"


section \<open>Health and origins\<close>

definition api_health :: health_body where
  "api_health = \<lparr>hb_status = ''ok'', hb_version = SODL_SCHEMA_VERSION\<rparr>"

definition api_list_origins :: "api_env \<Rightarrow> 'w app_state \<Rightarrow> ('w, origin_body list) handler" where
  "api_list_origins E st =
     bindM (backend (si_list_origins (nd_scan (as_node st)))) (\<lambda>orgs.
     mapM (\<lambda>org. bindM (backend (og_get (nd_origins (as_node st)) org)) (\<lambda>rec. returnM (origin_response E rec))) orgs)"

text \<open>One representation of \<open>POST /v1/origins\<close>: its blobs must exist; then the references are counted,
  with one edge per blob. The pair \<open>dr k\<close> is the identifier and the time of the \<open>k\<close>-th edge.\<close>

definition check_blobs :: "'w app_state \<Rightarrow> blob_id list \<Rightarrow> ('w, unit) handler" where
  "check_blobs st bs = forM bs (\<lambda>b.
     bindM (backend (bs_has (as_blobs st) b)) (\<lambda>found.
       if found then returnM () else pureM (Err (StNotFound, ''blob not found: '' @ b))))"

fun register_blobs :: "'w app_state \<Rightarrow> origin_id \<Rightarrow> string \<Rightarrow> (nat \<Rightarrow> uuid \<times> time) \<Rightarrow> nat \<Rightarrow> blob_id list \<Rightarrow> ('w, unit) handler" where
  "register_blobs st org name dr k [] = returnM ()"
| "register_blobs st org name dr k (b # bs) =
     seqM (backend (rc_inc_blob (nd_index (as_node st)) b (RefRepresentation name)))
     (seqM (backend (ls_add_edge (nd_lineage (as_node st))
        \<lparr>le_edge_id = edge_id_of (fst (dr k)), le_origin_id = org, le_blob_id = Some b,
         le_kind = RefRepresentation name, le_created_at = snd (dr k)\<rparr>))
     (register_blobs st org name dr (k + 1) bs))"

definition requested_rep :: "rep_request \<Rightarrow> representation" where
  "requested_rep q = \<lparr>rep_name = rq_name q, rep_media_kind = parse_media_kind (rq_media_kind q), rep_mime = rq_mime q,
     rep_size_bytes = rq_size_bytes q, rep_root_blobs = rq_root_blobs q\<rparr>"

fun register_reps :: "'w app_state \<Rightarrow> origin_id \<Rightarrow> (nat \<Rightarrow> uuid \<times> time) \<Rightarrow> nat \<Rightarrow> rep_request list \<Rightarrow> ('w, unit) handler" where
  "register_reps st org dr k [] = returnM ()"
| "register_reps st org dr k (q # qs) =
     seqM (check_blobs st (rq_root_blobs q))
     (seqM (backend (rc_inc_origin (nd_index (as_node st)) org (RefRepresentation (rq_name q))))
     (seqM (register_blobs st org (rq_name q) dr k (rq_root_blobs q))
     (register_reps st org dr (k + length (rq_root_blobs q)) qs)))"

definition requested_record :: "origin_id \<Rightarrow> time \<Rightarrow> origin_request \<Rightarrow> origin_record" where
  "requested_record org t_rec req =
     (origin_record_new org (parse_media_kind (oq_media_kind req)) (parse_durability (oq_durability req)) t_rec)
       \<lparr>or_owner := oq_owner req, or_representations := map requested_rep (oq_representations req)\<rparr>"

definition api_create_origin ::
  "api_env \<Rightarrow> 'w app_state \<Rightarrow> origin_id \<Rightarrow> time \<Rightarrow> (nat \<Rightarrow> uuid \<times> time) \<Rightarrow> origin_request \<Rightarrow> ('w, http_status \<times> origin_body) handler" where
  "api_create_origin E st org t_rec dr req =
     seqM (backend (po_put (nd_policies (as_node st)) (default_policy org (parse_durability (oq_durability req)))))
     (seqM (register_reps st org dr 0 (oq_representations req))
     (seqM (backend (og_create (nd_origins (as_node st)) (requested_record org t_rec req)))
     (returnM (StCreated, origin_response E (requested_record org t_rec req)))))"


section \<open>Uploads and provenance\<close>

text \<open>A part of a multipart body: the error of the stream, or a name with what \<open>text\<close> and \<open>bytes\<close> give.\<close>

datatype part = PartError string | Part "string option" "(string, string) outcome" "(string, bytes) outcome"

fun part_text :: "(string, string) outcome \<Rightarrow> (http_error, string) outcome" where
  "part_text (Ok t) = Ok t"
| "part_text (Err e) = Err (bad_request (''read meta: '' @ e))"
| "part_text Panic = Panic"

fun part_file :: "(string, bytes) outcome \<Rightarrow> (http_error, bytes) outcome" where
  "part_file (Ok b) = Ok b"
| "part_file (Err e) = Err (bad_request (''read file: '' @ e))"
| "part_file Panic = Panic"

definition part_meta :: "(string \<Rightarrow> (string, 'm) outcome) \<Rightarrow> (string, string) outcome \<Rightarrow> (http_error, 'm) outcome" where
  "part_meta parse text = bindR (part_text text) (\<lambda>t. case parse t of
     Ok m \<Rightarrow> Ok m
   | Err e \<Rightarrow> Err (bad_request (''parse meta: '' @ e))
   | Panic \<Rightarrow> Panic)"

text \<open>The loop over the parts, the same for both handlers; the last part of a name wins.\<close>

fun read_parts :: "(string \<Rightarrow> (string, 'm) outcome) \<Rightarrow> part list \<Rightarrow> 'm option \<Rightarrow> bytes option
    \<Rightarrow> (http_error, 'm option \<times> bytes option) outcome" where
  "read_parts parse [] meta file = Ok (meta, file)"
| "read_parts parse (PartError e # ps) meta file = Err (bad_request (''multipart error: '' @ e))"
| "read_parts parse (Part name text body # ps) meta file =
     (let n = (case name of Some n \<Rightarrow> n | None \<Rightarrow> []) in
      if n = ''meta'' then bindR (part_meta parse text) (\<lambda>m. read_parts parse ps (Some m) file)
      else if n = ''file'' then bindR (part_file body) (\<lambda>b. read_parts parse ps meta (Some b))
      else read_parts parse ps meta file)"

definition upload_request_of :: "upload_meta \<Rightarrow> origin_id \<Rightarrow> bytes \<Rightarrow> upload_request" where
  "upload_request_of m u_pol b = \<lparr>ur_owner = um_owner m, ur_media_kind = parse_media_kind (um_media_kind m),
     ur_mime = um_mime m, ur_policy = default_policy u_pol (parse_durability (um_durability m)), ur_bytes = b\<rparr>"

definition upload_parts :: "api_env \<Rightarrow> part list \<Rightarrow> (http_error, upload_meta \<times> bytes) outcome" where
  "upload_parts E parts =
     bindR (read_parts (ae_parse_meta E) parts None None) (\<lambda>(meta, file).
     bindR (of_option (bad_request ''missing 'meta' field'') meta) (\<lambda>m.
     bindR (of_option (bad_request ''missing 'file' field'') file) (\<lambda>b. Ok (m, b))))"

definition upload_response :: "upload_result \<Rightarrow> upload_body" where
  "upload_response r = \<lparr>ub_origin_id = uuid_show (ul_origin_id r), ub_blob_id = ul_blob_id r, ub_chunked = ul_chunked r,
     ub_chunk_blobs = ul_chunk_blobs r\<rparr>"

definition api_upload ::
  "api_env \<Rightarrow> 'w app_state \<Rightarrow> origin_id \<Rightarrow> origin_id \<Rightarrow> time \<Rightarrow> uuid \<Rightarrow> time \<Rightarrow> part list
    \<Rightarrow> ('w, http_status \<times> upload_body) handler" where
  "api_upload E st u_pol org t_rec u_edge t_edge parts =
     bindM (pureM (upload_parts E parts)) (\<lambda>(m, b).
     bindM (backend (upload (ae_hashes E) (ae_codec E) (app_service st) org t_rec u_edge t_edge (upload_request_of m u_pol b)))
       (\<lambda>r. returnM (StCreated, upload_response r)))"

definition candidate_response :: "'f candidate \<Rightarrow> 'f candidate_body" where
  "candidate_response c = (case cd_kind c of
     ExactPayload \<Rightarrow> \<lparr>pc_origin_id = uuid_show (cd_origin c), pc_match_kind = ''exact_payload'',
       pc_confidence = cd_confidence c, pc_matched_chunks = None, pc_total_chunks = None, pc_ratio = None\<rparr>
   | ChunkOverlap matched chunks ratio \<Rightarrow> \<lparr>pc_origin_id = uuid_show (cd_origin c), pc_match_kind = ''chunk_overlap'',
       pc_confidence = cd_confidence c, pc_matched_chunks = Some matched, pc_total_chunks = Some chunks,
       pc_ratio = Some ratio\<rparr>)"

definition resolve_parts :: "api_env \<Rightarrow> part list \<Rightarrow> (http_error, bytes) outcome" where
  "resolve_parts E parts =
     bindR (read_parts (ae_parse_resolve E) parts None None) (\<lambda>(meta, file).
     of_option (bad_request ''missing 'file' field'') file)"

definition api_resolve_provenance ::
  "api_env \<Rightarrow> ('f :: linorder) ratio_ops \<Rightarrow> 'w app_state \<Rightarrow> part list \<Rightarrow> ('w, 'f resolve_body) handler" where
  "api_resolve_provenance E R st parts =
     bindM (pureM (resolve_parts E parts)) (\<lambda>b.
     bindM (backend (resolve_provenance (ae_hashes E) R (app_service st) b)) (\<lambda>(fp, chunk_fps, cands).
     returnM \<lparr>rv_payload_fingerprint = fp, rv_chunk_count = length chunk_fps, rv_candidates = map candidate_response cands\<rparr>))"


section \<open>Origins by identifier\<close>

definition api_get_origin :: "api_env \<Rightarrow> 'w app_state \<Rightarrow> string \<Rightarrow> ('w, origin_body) handler" where
  "api_get_origin E st key =
     bindM (pureM (parse_origin_id E key)) (\<lambda>org.
     bindM (backend (og_get (nd_origins (as_node st)) org)) (\<lambda>rec. returnM (origin_response E rec)))"

definition api_tombstone_origin :: "api_env \<Rightarrow> 'w app_state \<Rightarrow> time \<Rightarrow> string \<Rightarrow> string option \<Rightarrow> ('w, http_status) handler" where
  "api_tombstone_origin E st now key reason =
     bindM (pureM (parse_origin_id E key)) (\<lambda>org.
     seqM (backend (tombstone_origin (app_service st) now org (case reason of Some r \<Rightarrow> r | None \<Rightarrow> ''deleted by owner'')))
       (returnM StNoContent))"

definition api_list_representations :: "api_env \<Rightarrow> 'w app_state \<Rightarrow> string \<Rightarrow> ('w, reps_body) handler" where
  "api_list_representations E st key =
     bindM (pureM (parse_origin_id E key)) (\<lambda>org.
     bindM (backend (og_get (nd_origins (as_node st)) org)) (\<lambda>rec.
     returnM \<lparr>rl_origin_id = uuid_show (or_origin_id rec),
       rl_representations = map representation_response (or_representations rec)\<rparr>))"

definition api_get_payload :: "api_env \<Rightarrow> 'w app_state \<Rightarrow> string \<Rightarrow> ('w, http_status \<times> bytes) handler" where
  "api_get_payload E st key =
     bindM (pureM (parse_origin_id E key)) (\<lambda>org.
     bindM (backend (get_payload (ae_hashes E) (ae_codec E) (app_service st) org)) (\<lambda>d. returnM (StOk, d)))"

definition api_lineage_proof :: "api_env \<Rightarrow> 'w app_state \<Rightarrow> time \<Rightarrow> string \<Rightarrow> ('w, proof_body) handler" where
  "api_lineage_proof E st now key =
     bindM (pureM (parse_origin_id E key)) (\<lambda>org.
     bindM (backend (lineage_proof_now (ae_hashes E) (app_service st) org now)) (\<lambda>p.
     returnM \<lparr>lb_origin_id = uuid_show (lp_origin_id p), lb_digest = lp_digest p,
       lb_created_at = ae_show_time E (lp_created_at p)\<rparr>))"


section \<open>Blobs\<close>

text \<open>The header \<open>x-blob-id\<close>, if it is there and is text.\<close>

definition check_expected :: "string option \<Rightarrow> blob_id \<Rightarrow> (http_error, unit) outcome" where
  "check_expected hdr computed = (case hdr of
     Some expected \<Rightarrow>
       if expected \<noteq> computed
       then Err (bad_request (''x-blob-id mismatch: expected '' @ expected @ '', computed '' @ computed))
       else Ok ()
   | None \<Rightarrow> Ok ())"

definition api_create_blob :: "api_env \<Rightarrow> 'w app_state \<Rightarrow> string option \<Rightarrow> bytes \<Rightarrow> ('w, http_status \<times> blob_body) handler" where
  "api_create_blob E st hdr body =
     (let b = compute_blob_id (ae_hashes E) body (as_hash_alg st) in
      seqM (pureM (check_expected hdr b))
      (bindM (backend (bs_has (as_blobs st) b)) (\<lambda>existed.
       seqM (if existed then returnM () else backend (bs_put (as_blobs st) b body))
       (returnM (if existed then StOk else StCreated, \<lparr>bb_blob_id = b, bb_existed = existed, bb_size_bytes = length body\<rparr>)))))"

definition api_get_blob :: "'w app_state \<Rightarrow> string \<Rightarrow> ('w, http_status \<times> bytes) handler" where
  "api_get_blob st key = bindM (backend (bs_get (as_blobs st) key)) (\<lambda>d. returnM (StOk, d))"

definition api_delete_blob :: "'w app_state \<Rightarrow> string \<Rightarrow> ('w, http_status) handler" where
  "api_delete_blob st key =
     bindM (backend (bs_has (as_blobs st) key)) (\<lambda>found.
       if \<not> found then pureM (Err (err_response NotFound))
       else
         bindM (backend (rc_get_blob (nd_index (as_node st)) key)) (\<lambda>n.
           if 0 < n then pureM (Err (StConflict, ''blob is still referenced and cannot be deleted: '' @ key))
           else seqM (backend (bs_delete (as_blobs st) key)) (returnM StNoContent)))"


section \<open>Shares, derivations and pins\<close>

definition api_create_share ::
  "api_env \<Rightarrow> 'w app_state \<Rightarrow> uuid \<Rightarrow> time \<Rightarrow> time \<Rightarrow> uuid \<Rightarrow> time \<Rightarrow> share_request \<Rightarrow> ('w, http_status \<times> share_body) handler" where
  "api_create_share E st u_share anchor t_rec u_edge t_edge req =
     bindM (pureM (parse_origin_id E (sq_origin_id req))) (\<lambda>org.
     bindM (backend (share (ae_hashes E) (app_service st) u_share anchor t_rec u_edge t_edge (sq_from req) (sq_to req) org
        (map parse_capability (sq_capabilities req)))) (\<lambda>sid.
     returnM (StCreated, \<lparr>sb_share_id = sid, sb_origin_id = uuid_show org\<rparr>)))"

definition share_response :: "api_env \<Rightarrow> share_record \<Rightarrow> share_detail" where
  "share_response E s = \<lparr>sd_share_id = sr_share_id s, sd_origin_id = uuid_show (sr_origin_id s), sd_from = sr_from_principal s,
     sd_to = sr_to_principal s, sd_capabilities = map format_cap (sr_capabilities s),
     sd_created_at = ae_show_time E (sr_created_at s), sd_proof_digest = sr_proof_digest s\<rparr>"

definition api_get_share :: "api_env \<Rightarrow> 'w app_state \<Rightarrow> string \<Rightarrow> ('w, share_detail) handler" where
  "api_get_share E st key =
     bindM (backend (sh_get (nd_shares (as_node st)) key)) (\<lambda>s. returnM (share_response E s))"

definition api_release_share :: "'w app_state \<Rightarrow> string \<Rightarrow> ('w, http_status) handler" where
  "api_release_share st key = seqM (backend (release_share (app_service st) key)) (returnM StNoContent)"

definition api_verify_share :: "api_env \<Rightarrow> 'w app_state \<Rightarrow> string \<Rightarrow> ('w, verify_body) handler" where
  "api_verify_share E st key =
     bindM (backend (sh_get (nd_shares (as_node st)) key)) (\<lambda>s.
     bindM (backend (verify_share_proof (ae_hashes E) (app_service st) s)) (\<lambda>valid.
     returnM \<lparr>vb_share_id = key, vb_valid = valid\<rparr>))"

definition derivation_kind_of :: "derive_request \<Rightarrow> derivation_kind" where
  "derivation_kind_of req =
     (let l = lowercase (dq_kind req) in
      if l = ''trim'' then Trim \<lparr>start_ms = 0, end_ms = 0\<rparr>
      else if l = ''crop'' then Crop 0 0 0 0
      else Transform (case dq_description req of Some d \<Rightarrow> d | None \<Rightarrow> ''transform''))"

definition api_create_derivation ::
  "api_env \<Rightarrow> 'w app_state \<Rightarrow> uuid \<Rightarrow> time \<Rightarrow> uuid \<Rightarrow> time \<Rightarrow> derive_request \<Rightarrow> ('w, http_status \<times> derive_body) handler" where
  "api_create_derivation E st u_drv t_rec u_edge t_edge req =
     bindM (pureM (parse_origin_id E (dq_origin_id req))) (\<lambda>org.
     bindM (backend (derive (app_service st) u_drv t_rec u_edge t_edge org (derivation_kind_of req)
        (parse_media_kind (dq_media_kind req)))) (\<lambda>did.
     returnM (StCreated, \<lparr>db_derivation_id = did, db_origin_id = uuid_show org\<rparr>)))"

definition api_create_pin ::
  "api_env \<Rightarrow> 'w app_state \<Rightarrow> uuid \<Rightarrow> time \<Rightarrow> uuid \<Rightarrow> time \<Rightarrow> pin_request \<Rightarrow> ('w, http_status \<times> pin_body) handler" where
  "api_create_pin E st u_pin t_rec u_edge t_edge req =
     bindM (pureM (parse_origin_id E (pq_origin_id req))) (\<lambda>org.
     bindM (backend (pin_origin (app_service st) u_pin t_rec u_edge t_edge (pq_requested_by req) org (pq_min_replicas req))) (\<lambda>pid.
     returnM (StCreated, \<lparr>pb_pin_id = pid, pb_origin_id = uuid_show org\<rparr>)))"

definition api_release_pin :: "'w app_state \<Rightarrow> string \<Rightarrow> ('w, http_status) handler" where
  "api_release_pin st key = seqM (backend (unpin (app_service st) key)) (returnM StNoContent)"

end
