(* ===== verification/Sodl_ApiRun.thy ===== *)
theory Sodl_ApiRun
  imports Sodl_Api Sodl_Demo
begin

text \<open>
  The HTTP interface on a node that satisfies the contract of the stores: what registering an origin
  does, success or failure, and histories of requests. A request is a value of \<open>api_call\<close>; the garbage
  collector may run between two requests.
\<close>

section \<open>Calls that leave the state alone\<close>

definition reads :: "('s, 'e, 'a) act \<Rightarrow> 's \<Rightarrow> bool" where
  "reads m s \<longleftrightarrow> snd (m s) = s"

named_theorems reads_intros "calls that leave the state alone"

lemma backend_state [simp]: "snd (backend m s) = snd (m s)"
  by (auto simp: backend_def split: prod.splits outcome.splits)

lemma backend_Ok: "m s = (Ok a, t) \<Longrightarrow> backend m s = (Ok a, t)"
  by (simp add: backend_def)

lemma backend_Err: "m s = (Err e, t) \<Longrightarrow> backend m s = (Err (err_response e), t)"
  by (simp add: backend_def)

lemmas backend_simps = backend_Ok backend_Err

lemma reads_plain [reads_intros]: "reads (pureM r) s" "reads (returnM a) s"
  by (simp_all add: reads_def)

lemma reads_backend [reads_intros]: "reads m s \<Longrightarrow> reads (backend m) s"
  by (simp add: reads_def)

lemma reads_void [reads_intros]: "reads m s \<Longrightarrow> reads (voidM m) s"
  by (simp add: reads_def)

lemma reads_bind [reads_intros]: "reads m s \<Longrightarrow> (\<And>a. m s = (Ok a, s) \<Longrightarrow> reads (f a) s) \<Longrightarrow> reads (bindM m f) s"
  by (cases "m s") (auto simp: reads_def bindM_def split: outcome.splits)

lemma reads_prod [reads_intros]: "(\<And>a b. reads (f a b) s) \<Longrightarrow> reads (case x of (a, b) \<Rightarrow> f a b) s"
  by (cases x) simp

lemma reads_mapM [reads_intros]: "(\<And>x. x \<in> set xs \<Longrightarrow> reads (f x) s) \<Longrightarrow> reads (mapM f xs) s"
  by (induction xs) (auto intro!: reads_plain reads_bind)

lemma reads_result: "m s = (r, s) \<Longrightarrow> reads m s"
  by (simp add: reads_def)

lemma bind_return_state [simp]: "snd (bindM m (\<lambda>a. returnM (g a)) s) = snd (m s)"
  by (auto simp: bindM_def split: prod.splits outcome.splits)

lemma seq_return_state [simp]: "snd (seqM m (returnM a) s) = snd (m s)"
  by (simp add: seqM_def)


section \<open>Registering an origin\<close>

text \<open>The edges of a request, and what the representations whose blobs are all present add.\<close>

fun rep_edges :: "origin_id \<Rightarrow> string \<Rightarrow> (nat \<Rightarrow> uuid \<times> time) \<Rightarrow> nat \<Rightarrow> blob_id list \<Rightarrow> lineage_edge list" where
  "rep_edges org name dr k [] = []"
| "rep_edges org name dr k (b # bs) =
     \<lparr>le_edge_id = edge_id_of (fst (dr k)), le_origin_id = org, le_blob_id = Some b,
      le_kind = RefRepresentation name, le_created_at = snd (dr k)\<rparr> # rep_edges org name dr (k + 1) bs"

fun request_edges :: "origin_id \<Rightarrow> (nat \<Rightarrow> uuid \<times> time) \<Rightarrow> nat \<Rightarrow> rep_request list \<Rightarrow> lineage_edge list" where
  "request_edges org dr k [] = []"
| "request_edges org dr k (q # qs) =
     rep_edges org (rq_name q) dr k (rq_root_blobs q) @ request_edges org dr (k + length (rq_root_blobs q)) qs"

definition request_blobs :: "rep_request list \<Rightarrow> blob_id list" where
  "request_blobs qs = concat (map rq_root_blobs qs)"

definition count_effect :: "origin_id \<Rightarrow> (nat \<Rightarrow> uuid \<times> time) \<Rightarrow> nat \<Rightarrow> rep_request list \<Rightarrow> facts \<Rightarrow> facts" where
  "count_effect org dr k qs f = f\<lparr>f_origin_refs := (f_origin_refs f)(org := f_origin_refs f org + int (length qs)),
     f_blob_refs := add_counts (request_blobs qs) (f_blob_refs f), f_edges := f_edges f + mset (request_edges org dr k qs)\<rparr>"

definition rep_present :: "(blob_id \<Rightarrow> bytes option) \<Rightarrow> rep_request \<Rightarrow> bool" where
  "rep_present m q \<longleftrightarrow> (\<forall>b \<in> set (rq_root_blobs q). m b \<noteq> None)"

text \<open>The representations before the first one with an absent blob, and the answer.\<close>

definition counted :: "(blob_id \<Rightarrow> bytes option) \<Rightarrow> rep_request list \<Rightarrow> rep_request list" where
  "counted m qs = takeWhile (rep_present m) qs"

definition first_absent :: "(blob_id \<Rightarrow> bytes option) \<Rightarrow> rep_request list \<Rightarrow> blob_id option" where
  "first_absent m qs = find (\<lambda>b. m b = None) (request_blobs qs)"

definition origin_effect :: "origin_id \<Rightarrow> time \<Rightarrow> (nat \<Rightarrow> uuid \<times> time) \<Rightarrow> origin_request \<Rightarrow> facts \<Rightarrow> facts" where
  "origin_effect org t_rec dr req f =
     (let g = count_effect org dr 0 (counted (f_blobs f) (oq_representations req))
           (f\<lparr>f_policies := (f_policies f)(org \<mapsto> default_policy org (parse_durability (oq_durability req)))\<rparr>)
      in case first_absent (f_blobs f) (oq_representations req) of
           Some b \<Rightarrow> g
         | None \<Rightarrow> g\<lparr>f_origins := (f_origins g)(org \<mapsto> requested_record org t_rec req)\<rparr>)"

text \<open>Fresh identifiers and room in the counters.\<close>

definition origin_room :: "origin_id \<Rightarrow> (nat \<Rightarrow> uuid \<times> time) \<Rightarrow> rep_request list \<Rightarrow> facts \<Rightarrow> bool" where
  "origin_room org dr qs f \<longleftrightarrow> f_origins f org = None \<and> f_origin_refs f org + int (length qs) \<le> I64_MAX
     \<and> (\<forall>b. f_blob_refs f b + int (length (request_blobs qs)) \<le> I64_MAX)
     \<and> distinct (map le_edge_id (request_edges org dr 0 qs))
     \<and> le_edge_id ` set (request_edges org dr 0 qs) \<inter> le_edge_id ` set_mset (f_edges f) = {}"

lemma find_append: "find P (xs @ ys) = (case find P xs of Some x \<Rightarrow> Some x | None \<Rightarrow> find P ys)"
  by (induction xs) auto

lemma first_absent_simps [simp]:
  "first_absent m [] = None"
  "first_absent m (q # qs) = (case find (\<lambda>b. m b = None) (rq_root_blobs q) of Some b \<Rightarrow> Some b | None \<Rightarrow> first_absent m qs)"
  by (simp_all add: first_absent_def request_blobs_def find_append split: option.split)

lemma counted_simps [simp]:
  "counted m [] = []"
  "counted m (q # qs) = (if find (\<lambda>b. m b = None) (rq_root_blobs q) = None then q # counted m qs else [])"
  by (auto simp: counted_def rep_present_def find_None_iff)

lemma first_absent_None: "first_absent m qs = None \<longleftrightarrow> counted m qs = qs"
  by (induction qs) (auto split: option.splits)

lemma request_blobs_Cons [simp]: "request_blobs (q # qs) = rq_root_blobs q @ request_blobs qs" "request_blobs [] = []"
  by (simp_all add: request_blobs_def)

lemma count_effect_Nil [simp]: "count_effect org dr k [] f = f"
  by (simp add: count_effect_def add_counts_def [abs_def])

lemma count_effect_frame [simp]: "f_blobs (count_effect org dr k qs f) = f_blobs f"
  "f_origins (count_effect org dr k qs f) = f_origins f"
  by (simp_all add: count_effect_def)

context total_node begin

lemma check_blobs_law:
  assumes "as_node st = nd" and "inv s"
  shows "check_blobs st bs s = ((case find (\<lambda>b. f_blobs (view s) b = None) bs of
       Some b \<Rightarrow> Err (StNotFound, ''blob not found: '' @ b) | None \<Rightarrow> Ok ()), s)"
proof (induction bs)
  case (Cons b bs)
  have "backend (bs_has (nd_store nd) b) s = (Ok (f_blobs (view s) b \<noteq> None), s)"
    using store_has [OF assms(2) all_valid] by (simp add: backend_Ok)
  then show ?case
    using Cons assms(1) by (cases "f_blobs (view s) b") (simp_all add: check_blobs_def seqM_def bindM_def)
qed (simp add: check_blobs_def)

lemma register_blobs_law:
  assumes "as_node st = nd" and "inv s" and "\<And>b. f_blob_refs (view s) b + int (length bs) \<le> I64_MAX"
    and "distinct (map le_edge_id (rep_edges org name dr k bs))"
    and "le_edge_id ` set (rep_edges org name dr k bs) \<inter> le_edge_id ` set_mset (f_edges (view s)) = {}"
  shows "\<exists>t. register_blobs st org name dr k bs s = (Ok (), t) \<and> inv t
     \<and> view t = (view s)\<lparr>f_blob_refs := add_counts bs (f_blob_refs (view s)),
         f_edges := f_edges (view s) + mset (rep_edges org name dr k bs)\<rparr>"
  using assms(2-5)
proof (induction bs arbitrary: k s)
  case Nil
  then show ?case by (simp add: add_counts_def)
next
  case (Cons b bs)
  let ?e = "\<lparr>le_edge_id = edge_id_of (fst (dr k)), le_origin_id = org, le_blob_id = Some b,
      le_kind = RefRepresentation name, le_created_at = snd (dr k)\<rparr>"
  have "f_blob_refs (view s) b < I64_MAX" using Cons.prems(2) [of b] by simp
  then obtain s1 where s1: "rc_inc_blob (nd_index nd) b (RefRepresentation name) s = (Ok (), s1)" "inv s1"
    "view s1 = blob_refs b (f_blob_refs (view s) b + 1) (view s)" using inc_blob [OF Cons.prems(1)] by blast
  have "le_edge_id ?e \<notin> le_edge_id ` set_mset (f_edges (view s1))"
    using Cons.prems(4) s1(3) by (simp add: blob_refs_def)
  then obtain s2 where s2: "ls_add_edge (nd_lineage nd) ?e s1 = (Ok (), s2)" "inv s2"
    "view s2 = (view s1)\<lparr>f_edges := add_mset ?e (f_edges (view s1))\<rparr>" using add_edge [OF s1(2)] by blast
  have room: "f_blob_refs (view s2) x + int (length bs) \<le> I64_MAX" for x
    using Cons.prems(2) [of x] s1(3) s2(3) by (auto simp: blob_refs_def algebra_simps)
  have "le_edge_id ` set (rep_edges org name dr (k + 1) bs) \<inter> le_edge_id ` set_mset (f_edges (view s2)) = {}"
    using Cons.prems(3,4) s1(3) s2(3) by (auto simp: blob_refs_def)
  then obtain t where t: "register_blobs st org name dr (k + 1) bs s2 = (Ok (), t)" "inv t"
    "view t = (view s2)\<lparr>f_blob_refs := add_counts bs (f_blob_refs (view s2)),
         f_edges := f_edges (view s2) + mset (rep_edges org name dr (k + 1) bs)\<rparr>"
    using Cons.IH [OF s2(2) room, of "k + 1"] Cons.prems(3) by auto
  show ?case
    using s1 s2 t assms(1)
    by (intro exI [of _ t]) (auto simp: act_simps backend_Ok blob_refs_def add_counts_def fun_eq_iff)
qed

end

context total_node begin

lemma register_reps_law:
  assumes st: "as_node st = nd" and "inv s" and "f_origin_refs (view s) org + int (length qs) \<le> I64_MAX"
    and "\<And>b. f_blob_refs (view s) b + int (length (request_blobs qs)) \<le> I64_MAX"
    and "distinct (map le_edge_id (request_edges org dr k qs))"
    and "le_edge_id ` set (request_edges org dr k qs) \<inter> le_edge_id ` set_mset (f_edges (view s)) = {}"
  shows "\<exists>t. register_reps st org dr k qs s =
       ((case first_absent (f_blobs (view s)) qs of Some b \<Rightarrow> Err (StNotFound, ''blob not found: '' @ b) | None \<Rightarrow> Ok ()), t)
     \<and> inv t \<and> view t = count_effect org dr k (counted (f_blobs (view s)) qs) (view s)"
  using assms(2-6)
proof (induction qs arbitrary: k s)
  case (Cons q qs)
  let ?bs = "rq_root_blobs q" and ?f = "view s" and ?k = "k + length (rq_root_blobs q)"
  have chk: "check_blobs st ?bs s = ((case find (\<lambda>b. f_blobs ?f b = None) ?bs of
       Some b \<Rightarrow> Err (StNotFound, ''blob not found: '' @ b) | None \<Rightarrow> Ok ()), s)"
    by (rule check_blobs_law [OF st Cons.prems(1)])
  show ?case
  proof (cases "find (\<lambda>b. f_blobs ?f b = None) ?bs")
    case (Some b)
    then show ?thesis using chk Cons.prems(1) by (simp add: seqM_def bindM_def)
  next
    case None
    have "f_origin_refs ?f org < I64_MAX" using Cons.prems(2) by simp
    then obtain s1 where s1: "rc_inc_origin (nd_index nd) org (RefRepresentation (rq_name q)) s = (Ok (), s1)" "inv s1"
      "view s1 = org_refs org (f_origin_refs ?f org + 1) ?f" using inc_origin [OF Cons.prems(1)] by blast
    have room1: "f_blob_refs (view s1) b + int (length ?bs) \<le> I64_MAX" for b
      using Cons.prems(3) [of b] s1(3) by (simp add: org_refs_def)
    have "distinct (map le_edge_id (rep_edges org (rq_name q) dr k ?bs))"
      "le_edge_id ` set (rep_edges org (rq_name q) dr k ?bs) \<inter> le_edge_id ` set_mset (f_edges (view s1)) = {}"
      using Cons.prems(4,5) s1(3) by (auto simp: org_refs_def)
    then obtain s2 where s2: "register_blobs st org (rq_name q) dr k ?bs s1 = (Ok (), s2)" "inv s2"
      "view s2 = (view s1)\<lparr>f_blob_refs := add_counts ?bs (f_blob_refs (view s1)),
         f_edges := f_edges (view s1) + mset (rep_edges org (rq_name q) dr k ?bs)\<rparr>"
      using register_blobs_law [OF st s1(2) room1] by blast
    have v2: "view s2 = ?f\<lparr>f_origin_refs := (f_origin_refs ?f)(org := f_origin_refs ?f org + 1),
        f_blob_refs := add_counts ?bs (f_blob_refs ?f), f_edges := f_edges ?f + mset (rep_edges org (rq_name q) dr k ?bs)\<rparr>"
      using s1(3) s2(3) by (simp add: org_refs_def)
    have "f_blob_refs ?f b + int (count_list ?bs b) + int (length (request_blobs qs)) \<le> I64_MAX" for b
      using Cons.prems(3) [of b] count_le_length [of ?bs b] by simp
    then have room2: "f_blob_refs (view s2) b + int (length (request_blobs qs)) \<le> I64_MAX" for b
      using v2 by (simp add: add_counts_def)
    have "f_origin_refs (view s2) org + int (length qs) \<le> I64_MAX" using Cons.prems(2) v2 by simp
    moreover have "distinct (map le_edge_id (request_edges org dr ?k qs))"
      "le_edge_id ` set (request_edges org dr ?k qs) \<inter> le_edge_id ` set_mset (f_edges (view s2)) = {}"
      using Cons.prems(4,5) v2 by auto
    ultimately obtain t where t: "register_reps st org dr ?k qs s2 =
       ((case first_absent (f_blobs (view s2)) qs of Some b \<Rightarrow> Err (StNotFound, ''blob not found: '' @ b) | None \<Rightarrow> Ok ()), t)"
      "inv t" "view t = count_effect org dr ?k (counted (f_blobs (view s2)) qs) (view s2)"
      using Cons.IH [OF s2(2) _ room2, of ?k] by blast
    have "view t = count_effect org dr k (counted (f_blobs ?f) (q # qs)) ?f"
      using t(3) v2 None by (simp add: count_effect_def add_counts_def fun_eq_iff algebra_simps)
    then show ?thesis
      using chk None s1(1) s2(1) t(1,2) v2 st by (intro exI [of _ t]) (simp add: act_simps backend_Ok)
  qed
qed simp

lemma create_origin_law:
  assumes st: "as_node st = nd" and s: "inv s" and room: "origin_room org dr (oq_representations req) (view s)"
  shows "\<exists>t. api_create_origin E st org t_rec dr req s =
       ((case first_absent (f_blobs (view s)) (oq_representations req) of
           Some b \<Rightarrow> Err (StNotFound, ''blob not found: '' @ b)
         | None \<Rightarrow> Ok (StCreated, origin_response E (requested_record org t_rec req))), t)
     \<and> inv t \<and> view t = origin_effect org t_rec dr req (view s)"
proof -
  let ?qs = "oq_representations req" and ?f = "view s"
  let ?pol = "default_policy org (parse_durability (oq_durability req))" and ?rec = "requested_record org t_rec req"
  obtain s1 where s1: "po_put (nd_policies nd) ?pol s = (Ok (), s1)" "inv s1"
    "view s1 = ?f\<lparr>f_policies := (f_policies ?f)(org \<mapsto> ?pol)\<rparr>"
    using put_policy [OF s, of ?pol] by (auto simp: default_policy_def)
  obtain s2 where s2: "register_reps st org dr 0 ?qs s1 =
       ((case first_absent (f_blobs (view s1)) ?qs of Some b \<Rightarrow> Err (StNotFound, ''blob not found: '' @ b) | None \<Rightarrow> Ok ()), s2)"
    "inv s2" "view s2 = count_effect org dr 0 (counted (f_blobs (view s1)) ?qs) (view s1)"
    using register_reps_law [OF st s1(2), of org ?qs dr 0] room s1(3) by (auto simp: origin_room_def)
  show ?thesis
  proof (cases "first_absent (f_blobs ?f) ?qs")
    case (Some b)
    then show ?thesis
      using s1 s2 st by (intro exI [of _ s2]) (simp add: api_create_origin_def act_simps backend_Ok origin_effect_def)
  next
    case None
    have id: "or_origin_id ?rec = org" by (simp add: requested_record_def origin_record_new_def)
    have "f_origins (view s2) (or_origin_id ?rec) = None" using room s1(3) s2(3) id by (simp add: origin_room_def)
    then obtain t where t: "og_create (nd_origins nd) ?rec s2 = (Ok (), t)" "inv t"
      "view t = (view s2)\<lparr>f_origins := (f_origins (view s2))(or_origin_id ?rec \<mapsto> ?rec)\<rparr>"
      using create_origin [OF s2(2)] by blast
    then show ?thesis
      using None s1 s2 st id
      by (intro exI [of _ t]) (simp add: api_create_origin_def act_simps backend_Ok origin_effect_def)
  qed
qed

end


section \<open>Requests\<close>

text \<open>Each call carries the identifiers and times its handler draws. \<open>CallCollect\<close> is a run of the
  collector between two requests.\<close>

datatype api_call =
    CallHealth
  | CallListOrigins
  | CallCreateOrigin origin_id time "nat \<Rightarrow> uuid \<times> time" origin_request
  | CallUpload origin_id origin_id time uuid time "part list"
  | CallResolve "part list"
  | CallGetOrigin string
  | CallTombstone time string "string option"
  | CallRepresentations string
  | CallPayload string
  | CallLineageProof time string
  | CallCreateBlob "string option" bytes
  | CallGetBlob string
  | CallDeleteBlob string
  | CallCreateShare uuid time time uuid time share_request
  | CallGetShare string
  | CallReleaseShare string
  | CallVerifyShare string
  | CallDerive uuid time uuid time derive_request
  | CallPin uuid time uuid time pin_request
  | CallUnpin string
  | CallCollect time "nat \<Rightarrow> uuid"

fun api_perform :: "api_env \<Rightarrow> ('f :: linorder) ratio_ops \<Rightarrow> 'w app_state \<Rightarrow> api_call \<Rightarrow> ('w, unit) handler" where
  "api_perform E R st CallHealth = voidM (returnM api_health)"
| "api_perform E R st CallListOrigins = voidM (api_list_origins E st)"
| "api_perform E R st (CallCreateOrigin org t_rec dr req) = voidM (api_create_origin E st org t_rec dr req)"
| "api_perform E R st (CallUpload u_pol org t_rec u t_edge parts) = voidM (api_upload E st u_pol org t_rec u t_edge parts)"
| "api_perform E R st (CallResolve parts) = voidM (api_resolve_provenance E R st parts)"
| "api_perform E R st (CallGetOrigin key) = voidM (api_get_origin E st key)"
| "api_perform E R st (CallTombstone now key reason) = voidM (api_tombstone_origin E st now key reason)"
| "api_perform E R st (CallRepresentations key) = voidM (api_list_representations E st key)"
| "api_perform E R st (CallPayload key) = voidM (api_get_payload E st key)"
| "api_perform E R st (CallLineageProof now key) = voidM (api_lineage_proof E st now key)"
| "api_perform E R st (CallCreateBlob hdr body) = voidM (api_create_blob E st hdr body)"
| "api_perform E R st (CallGetBlob key) = voidM (api_get_blob st key)"
| "api_perform E R st (CallDeleteBlob key) = voidM (api_delete_blob st key)"
| "api_perform E R st (CallCreateShare us anchor t_rec u t_edge req) = voidM (api_create_share E st us anchor t_rec u t_edge req)"
| "api_perform E R st (CallGetShare key) = voidM (api_get_share E st key)"
| "api_perform E R st (CallReleaseShare key) = voidM (api_release_share st key)"
| "api_perform E R st (CallVerifyShare key) = voidM (api_verify_share E st key)"
| "api_perform E R st (CallDerive ud t_rec u t_edge req) = voidM (api_create_derivation E st ud t_rec u t_edge req)"
| "api_perform E R st (CallPin up t_rec u t_edge req) = voidM (api_create_pin E st up t_rec u t_edge req)"
| "api_perform E R st (CallUnpin key) = voidM (api_release_pin st key)"
| "api_perform E R st (CallCollect now ids) = backend (gc_collect (as_node st) now ids)"

text \<open>The operation of the service that a call amounts to, if its arguments parse.\<close>

fun api_event :: "api_env \<Rightarrow> api_call \<Rightarrow> event option" where
  "api_event E (CallUpload u_pol org t_rec u t_edge parts) =
     (case upload_parts E parts of Ok (m, b) \<Rightarrow> Some (EvUpload org t_rec u t_edge (upload_request_of m u_pol b)) | _ \<Rightarrow> None)"
| "api_event E (CallTombstone now key reason) =
     map_option (\<lambda>org. EvTombstone now org (case reason of Some r \<Rightarrow> r | None \<Rightarrow> ''deleted by owner'')) (ae_parse_uuid E key)"
| "api_event E (CallCreateShare us anchor t_rec u t_edge req) =
     map_option (\<lambda>org. EvShare us anchor t_rec u t_edge (sq_from req) (sq_to req) org (map parse_capability (sq_capabilities req)))
       (ae_parse_uuid E (sq_origin_id req))"
| "api_event E (CallReleaseShare key) = Some (EvReleaseShare key)"
| "api_event E (CallDerive ud t_rec u t_edge req) =
     map_option (\<lambda>org. EvDerive ud t_rec u t_edge org (derivation_kind_of req) (parse_media_kind (dq_media_kind req)))
       (ae_parse_uuid E (dq_origin_id req))"
| "api_event E (CallPin up t_rec u t_edge req) =
     map_option (\<lambda>org. EvPin up t_rec u t_edge (pq_requested_by req) org (pq_min_replicas req)) (ae_parse_uuid E (pq_origin_id req))"
| "api_event E (CallUnpin key) = Some (EvUnpin key)"
| "api_event E (CallCollect now ids) = Some (EvCollect now ids)"
| "api_event E _ = None"

fun api_events :: "api_env \<Rightarrow> api_call list \<Rightarrow> event list" where
  "api_events E [] = []"
| "api_events E (c # cs) = (case api_event E c of Some ev \<Rightarrow> [ev] | None \<Rightarrow> []) @ api_events E cs"

definition api_allowed :: "api_env \<Rightarrow> 'w app_state \<Rightarrow> api_call \<Rightarrow> facts \<Rightarrow> bool" where
  "api_allowed E st c f \<longleftrightarrow>
     (case api_event E c of Some ev \<Rightarrow> allowed (ae_hashes E) (ae_codec E) (app_service st) ev f | None \<Rightarrow> True)
     \<and> (case c of CallCreateOrigin org t_rec dr req \<Rightarrow> origin_room org dr (oq_representations req) f | _ \<Rightarrow> True)"

inductive api_run ::
  "api_env \<Rightarrow> ('f :: linorder) ratio_ops \<Rightarrow> 'w app_state \<Rightarrow> ('w \<Rightarrow> facts) \<Rightarrow> 'w \<Rightarrow> api_call list \<Rightarrow> 'w \<Rightarrow> bool"
  for E R st view s0 where
  api_start: "api_run E R st view s0 [] s0"
| api_step: "api_run E R st view s0 cs s \<Longrightarrow> api_allowed E st c (view s)
    \<Longrightarrow> api_run E R st view s0 (c # cs) (snd (api_perform E R st c s))"

inductive_cases api_run_ConsE: "api_run E R st view s0 (c # cs) s"

text \<open>A call that amounts to an event leaves the state that the event leaves.\<close>

lemma app_service_sel [simp]: "sv_node (app_service st) = as_node st" "sv_crypto (app_service st) = as_crypto st"
  "sv_signer (app_service st) = as_proof_signer st" "sv_chunk_config (app_service st) = as_chunk_config st"
  by (simp_all add: app_service_def)

lemma api_perform_event:
  assumes "api_event E c = Some ev"
  shows "snd (api_perform E R st c s) = snd (perform (ae_hashes E) (ae_codec E) (app_service st) ev s)"
  using assms
  by (cases c)
    (auto simp: api_upload_def api_tombstone_origin_def api_create_share_def api_release_share_def api_create_derivation_def
      api_create_pin_def api_release_pin_def parse_origin_id_def split: outcome.splits)

lemma api_perform_unparsed:
  assumes "api_event E c = None"
    and "case c of CallCreateOrigin _ _ _ _ \<Rightarrow> False | CallCreateBlob _ _ \<Rightarrow> False | CallDeleteBlob _ \<Rightarrow> False | _ \<Rightarrow> True"
    and rd: "reads (si_list_origins (nd_scan (as_node st))) s" "\<And>org. reads (og_get (nd_origins (as_node st)) org) s"
      "\<And>data. reads (resolve_provenance (ae_hashes E) R (app_service st) data) s"
      "\<And>org. reads (get_payload (ae_hashes E) (ae_codec E) (app_service st) org) s"
      "\<And>org now. reads (lineage_proof_now (ae_hashes E) (app_service st) org now) s"
      "\<And>key. reads (bs_get (as_blobs st) key) s" "\<And>key. reads (sh_get (nd_shares (as_node st)) key) s"
      "\<And>sh. reads (verify_share_proof (ae_hashes E) (app_service st) sh) s"
  shows "snd (api_perform E R st c s) = s"
proof -
  note steps = reads_intros rd
  have "reads (api_perform E R st c) s"
    using assms(1,2)
    by (cases c)
      (auto simp: api_upload_def api_list_origins_def api_resolve_provenance_def api_get_origin_def api_tombstone_origin_def
        api_list_representations_def api_get_payload_def api_lineage_proof_def api_get_blob_def api_create_share_def
        api_get_share_def api_verify_share_def api_create_derivation_def api_create_pin_def parse_origin_id_def
        split: outcome.splits intro!: steps)
  then show ?thesis by (simp add: reads_def)
qed


section \<open>Histories of requests\<close>

lemma ledger_grow:
  assumes L: "ledger H J svc h ex f" and "f_blobs g = f_blobs f" and "f_origins g = f_origins f"
    and "\<And>b. f_blob_refs f b \<le> f_blob_refs g b"
  shows "ledger H J svc h ex g"
proof -
  have "kept H J svc g x" if "kept H J svc f x" for x
    using kept_cong [of H J svc f] assms(2,3) that by (cases x) simp
  moreover have "demand (live H J svc h) b + registered ex b \<le> f_blob_refs g b" for b
    using ledgerD(2) [OF L, of b] assms(4) [of b] by linarith
  ultimately show ?thesis using L assms(2,3) by (auto simp: ledger_def)
qed

lemma ledger_put:
  assumes L: "ledger H J svc h ex f" and new: "f_blobs f (compute_blob_id H d alg) = None"
  shows "ledger H J svc h ex (f\<lparr>f_blobs := (f_blobs f)(compute_blob_id H d alg \<mapsto> d)\<rparr>)"
proof -
  let ?g = "f\<lparr>f_blobs := (f_blobs f)(compute_blob_id H d alg \<mapsto> d)\<rparr>"
  have same: "f_blobs ?g b = f_blobs f b" if "f_blobs f b \<noteq> None" for b using new that by auto
  have "kept H J svc ?g x" if "kept H J svc f x" for x
  proof -
    obtain org d' ids where eq: "x = (org, d', ids)" by (cases x)
    show ?thesis unfolding eq by (rule kept_cong [OF that [unfolded eq]]) (simp, rule same)
  qed
  then show ?thesis using L cas_ok_put [of H "f_blobs f"] by (auto simp: ledger_def)
qed

lemma ledger_delete:
  assumes "ledger H J svc h ex f" and "f_blob_refs f b = 0"
  shows "ledger H J svc h ex (f\<lparr>f_blobs := (f_blobs f)(b := None)\<rparr>)"
proof -
  have "collect_effect {b} (f_tombstones f) f = f\<lparr>f_blobs := (f_blobs f)(b := None)\<rparr>"
    by (simp add: collect_effect_def fun_upd_def cong: if_cong)
  then have "ledger H J svc (EvCollect 0 undefined # h) ex (f\<lparr>f_blobs := (f_blobs f)(b := None)\<rparr>)"
    using ledger_collect [OF assms(1), of "{b}" 0 undefined "f_tombstones f"] assms(2) by simp
  then show ?thesis by (simp add: ledger_def)
qed

lemma requested_record_ids: "root_ids (requested_record org t_rec req) = request_blobs (oq_representations req)"
  by (simp add: root_ids_def requested_record_def origin_record_new_def request_blobs_def requested_rep_def comp_def)

lemma ledger_origin:
  assumes L: "ledger H J svc h ex f" and new: "f_origins f org = None"
  shows "\<exists>ex'. ledger H J svc h ex' (origin_effect org t_rec dr req f)"
proof -
  let ?qs = "oq_representations req" and ?g = "origin_effect org t_rec dr req f"
  define f1 where "f1 = count_effect org dr 0 (counted (f_blobs f) ?qs)
    (f\<lparr>f_policies := (f_policies f)(org \<mapsto> default_policy org (parse_durability (oq_durability req)))\<rparr>)"
  have L1: "ledger H J svc h ex f1"
    by (rule ledger_grow [OF L]) (simp_all add: f1_def count_effect_def add_counts_def)
  show ?thesis
  proof (cases "first_absent (f_blobs f) ?qs")
    case (Some b)
    then have "?g = f1" by (simp add: origin_effect_def f1_def)
    then show ?thesis using L1 by auto
  next
    case None
    let ?ex = "(org, request_blobs ?qs) # ex"
    have g: "?g = f1\<lparr>f_origins := (f_origins f1)(org \<mapsto> requested_record org t_rec req)\<rparr>"
      using None by (simp add: origin_effect_def f1_def)
    have refs: "f_blob_refs f1 b = f_blob_refs f b + int (count_list (request_blobs ?qs) b)" for b
      using None by (simp add: f1_def count_effect_def first_absent_None add_counts_def)
    have fr: "f_blobs f1 = f_blobs f" "f_origins f1 = f_origins f" by (simp_all add: f1_def)
    have "kept H J svc ?g x" if x: "x \<in> set (live H J svc h)" for x
    proof -
      obtain o' d ids where eq: "x = (o', d, ids)" by (cases x)
      have k: "kept H J svc f (o', d, ids)" using ledgerD(3) [OF L x] eq by simp
      then have "o' \<noteq> org" using new by (auto simp: kept_def)
      then show ?thesis unfolding eq using g fr by (intro kept_cong [OF k]) simp_all
    qed
    moreover have "demand (live H J svc h) b + registered ?ex b \<le> f_blob_refs ?g b" for b
      using ledgerD(2) [OF L, of b] refs [of b] g by simp
    moreover have "or_representations rec = [] \<or> o' \<in> fst ` set (live H J svc h) \<or> (o', root_ids rec) \<in> set ?ex"
      if "f_origins ?g o' = Some rec" for o' rec
      using that g fr ledgerD(4) [OF L, of o' rec] requested_record_ids by (auto split: if_splits)
    ultimately have "ledger H J svc h ?ex ?g" using ledgerD(1) [OF L] g fr unfolding ledger_def by auto
    then show ?thesis by blast
  qed
qed


lemma create_blob_absent:
  assumes "bs_has (as_blobs st) (compute_blob_id (ae_hashes E) body (as_hash_alg st)) s = (Ok found, s)"
  shows "snd (api_create_blob E st hdr body s) =
    (if check_expected hdr (compute_blob_id (ae_hashes E) body (as_hash_alg st)) = Ok () \<and> \<not> found
     then snd (bs_put (as_blobs st) (compute_blob_id (ae_hashes E) body (as_hash_alg st)) body s) else s)"
  using assms
  by (cases "check_expected hdr (compute_blob_id (ae_hashes E) body (as_hash_alg st))")
    (auto simp: api_create_blob_def Let_def seqM_Err seqM_def backend_Ok bindM_Ok bindM_Err bindM_Panic)

lemma delete_blob_steps:
  assumes "bs_has (as_blobs st) key s = (Ok found, s)" and "rc_get_blob (nd_index (as_node st)) key s = (Ok n, s)"
  shows "snd (api_delete_blob st key s) = (if found \<and> n \<le> 0 then snd (bs_delete (as_blobs st) key s) else s)"
  using assms by (auto simp: api_delete_blob_def backend_Ok bindM_Ok)

context total_node begin

lemma node_reads:
  assumes "service_ok nd J (app_service st)" and "inv s"
  shows "reads (si_list_origins (nd_scan (as_node st))) s" "reads (og_get (nd_origins (as_node st)) org) s"
    "reads (resolve_provenance H R (app_service st) data) s" "reads (get_payload H J (app_service st) org) s"
    "reads (lineage_proof_now H (app_service st) org now) s" "reads (bs_get (as_blobs st) key) s"
    "reads (sh_get (nd_shares (as_node st)) sid) s" "reads (verify_share_proof H (app_service st) sh) s"
proof -
  have nd: "as_node st = nd" using assms(1) by (simp add: service_ok_def)
  have basic: "reads (si_list_origins (nd_scan nd)) s" "\<And>org. reads (og_get (nd_origins nd) org) s"
    "\<And>org. reads (ls_list_edges (nd_lineage nd) org) s" "\<And>fp. reads (pv_find_payload (nd_provenance nd) fp) s"
    "\<And>fps. reads (pv_find_chunks (nd_provenance nd) fps) s" "\<And>key. reads (bs_get (nd_store nd) key) s"
    "\<And>sid. reads (sh_get (nd_shares nd) sid) s"
    using scan_origins [OF assms(2)] get_origin [OF assms(2)] list_edges [OF assms(2)] find_payload [OF assms(2)]
      find_chunks [OF assms(2)] get_blob [OF assms(2)] get_share [OF assms(2)]
    by (auto simp: reads_def) (metis snd_conv)+
  then show "reads (si_list_origins (nd_scan (as_node st))) s" "reads (og_get (nd_origins (as_node st)) org) s"
    "reads (bs_get (as_blobs st) key) s" "reads (sh_get (nd_shares (as_node st)) sid) s"
    using nd by simp_all
  show "reads (get_payload H J (app_service st) org) s"
    using get_payload_eq [OF assms] by (simp add: reads_def)
  show "reads (lineage_proof_now H (app_service st) org now) s"
    using basic(3) nd by (simp add: lineage_proof_now_def reads_intros)
  show "reads (verify_share_proof H (app_service st) sh) s"
    using basic(3) nd unfolding verify_share_proof_def lineage_proof_at_def
    by (auto intro!: reads_intros split: option.split)
  show "reads (resolve_provenance H R (app_service st) data) s"
    using basic(4,5) nd unfolding resolve_provenance_def Let_def by (auto intro!: reads_intros)
qed

lemma api_step_ledger:
  assumes svc: "service_ok nd (ae_codec E) (app_service st)" and s: "inv s"
    and L: "ledger (ae_hashes E) (ae_codec E) (app_service st) (api_events E cs) ex (view s)"
    and ok: "api_allowed E st c (view s)" and t: "t = snd (api_perform E R st c s)"
  shows "inv t \<and> (\<exists>ex'. ledger (ae_hashes E) (ae_codec E) (app_service st) (api_events E (c # cs)) ex' (view t))"
proof (cases "api_event E c")
  case (Some ev)
  let ?H = "ae_hashes E" and ?J = "ae_codec E" and ?svc = "app_service st"
  have t': "t = snd (perform ?H ?J ?svc ev s)" using api_perform_event [OF Some] t by simp
  have al: "allowed ?H ?J ?svc ev (view s)" using ok Some by (simp add: api_allowed_def)
  have "inv t" using perform_refines [OF svc s al] t' by simp
  moreover have "\<exists>ex'. ledger ?H ?J ?svc (ev # api_events E cs) ex' (view t)"
    using ledger_event [OF svc s L al] t' by blast
  ultimately show ?thesis using Some by simp
next
  case None
  have nd: "as_node st = nd" using svc by (simp add: service_ok_def)
  have ev: "api_events E (c # cs) = api_events E cs" using None by simp
  show ?thesis
  proof (cases "case c of CallCreateOrigin _ _ _ _ \<Rightarrow> False | CallCreateBlob _ _ \<Rightarrow> False | CallDeleteBlob _ \<Rightarrow> False | _ \<Rightarrow> True")
    case True
    have "t = s" unfolding t by (rule api_perform_unparsed [OF None True node_reads [OF svc s]])
    then show ?thesis using s L ev by auto
  next
    case False
    then consider org t_rec dr req where "c = CallCreateOrigin org t_rec dr req" | hdr body where "c = CallCreateBlob hdr body"
      | key where "c = CallDeleteBlob key" by (cases c) auto
    then show ?thesis
    proof cases
      case 1
      have room: "origin_room org dr (oq_representations req) (view s)" using ok 1 by (simp add: api_allowed_def)
      have "inv t" "view t = origin_effect org t_rec dr req (view s)"
        using create_origin_law [OF nd s room, of E t_rec] t 1 by auto
      then show ?thesis using ledger_origin [OF L] room ev by (simp add: origin_room_def)
    next
      case 2
      let ?b = "compute_blob_id (ae_hashes E) body (as_hash_alg st)"
      have has: "bs_has (as_blobs st) ?b s = (Ok (f_blobs (view s) ?b \<noteq> None), s)"
        using store_has [OF s all_valid] nd by simp
      show ?thesis
      proof (cases "check_expected hdr ?b = Ok () \<and> f_blobs (view s) ?b = None")
        case True
        obtain u where u: "bs_put (nd_store nd) ?b body s = (Ok (), u)" "inv u"
          "view u = (view s)\<lparr>f_blobs := (f_blobs (view s))(?b \<mapsto> body)\<rparr>"
          using store_put [OF s all_valid, of ?b body] True by auto
        then have "t = u" using create_blob_absent [OF has, of hdr] True t 2 nd by simp
        then show ?thesis using u ledger_put [OF L, of body "as_hash_alg st"] True ev by auto
      next
        case False
        then have "t = s" using create_blob_absent [OF has, of hdr] t 2 by auto
        then show ?thesis using s L ev by auto
      qed
    next
      case 3
      have has: "bs_has (as_blobs st) key s = (Ok (f_blobs (view s) key \<noteq> None), s)"
        using store_has [OF s all_valid] nd by simp
      have cnt: "rc_get_blob (nd_index (as_node st)) key s = (Ok (f_blob_refs (view s) key), s)"
        using get_blob_refs [OF s] nd by simp
      show ?thesis
      proof (cases "f_blobs (view s) key \<noteq> None \<and> f_blob_refs (view s) key \<le> 0")
        case True
        obtain u where u: "bs_delete (nd_store nd) key s = (Ok (), u)" "inv u"
          "view u = (view s)\<lparr>f_blobs := (f_blobs (view s))(key := None)\<rparr>"
          using store_delete [OF s all_valid] by blast
        have "f_blob_refs (view s) key = 0" using True refs_nonneg [OF s, of undefined key] by simp
        moreover have "t = u" using delete_blob_steps [OF has cnt] True u t 3 nd by simp
        ultimately show ?thesis using u ledger_delete [OF L, of key] ev by auto
      next
        case False
        then have "t = s" using delete_blob_steps [OF has cnt] t 3 by auto
        then show ?thesis using s L ev by auto
      qed
    qed
  qed
qed

lemma api_run_ledger:
  assumes "api_run E R st view s0 cs s" and svc: "service_ok nd (ae_codec E) (app_service st)"
    and "inv s0" and "ledger (ae_hashes E) (ae_codec E) (app_service st) [] [] (view s0)"
  shows "inv s \<and> (\<exists>ex. ledger (ae_hashes E) (ae_codec E) (app_service st) (api_events E cs) ex (view s))"
  using assms(1,3,4)
proof induction
  case api_start
  then show ?case by auto
next
  case (api_step cs s c)
  then show ?case using api_step_ledger [OF svc _ _ api_step.hyps(2) refl] by blast
qed

end


section \<open>What clients observe\<close>

definition api_demo_env :: api_env where
  "api_demo_env = \<lparr>ae_hashes = demo_hashes, ae_codec = demo_manifest_codec,
     ae_parse_uuid = (\<lambda>s. if s = ''five'' then Some 5 else None), ae_show_time = (\<lambda>t. ''t''),
     ae_parse_meta = (\<lambda>s. Ok \<lparr>um_owner = ''alice'', um_media_kind = ''image'', um_mime = None, um_durability = s\<rparr>),
     ae_parse_resolve = (\<lambda>s. Err ''no'')\<rparr>"

definition api_demo_state :: "mem_world app_state" where
  "api_demo_state = \<lparr>as_node = mem_node, as_crypto = null_crypto, as_hash_alg = Blake3, as_proof_signer = None,
     as_chunk_config = Some demo_chunks\<rparr>"

definition api_demo_parts :: "part list" where
  "api_demo_parts = [Part (Some ''meta'') (Ok ''durable'') (Ok []), Part (Some ''file'') (Err ''binary'') (Ok [1, 2, 3])]"

lemma api_demo_env_sel [simp]: "ae_hashes api_demo_env = demo_hashes" "ae_codec api_demo_env = demo_manifest_codec"
  "ae_parse_uuid api_demo_env s = (if s = ''five'' then Some 5 else None)"
  by (simp_all add: api_demo_env_def)

lemma api_demo_service: "app_service api_demo_state = demo_node"
  by (simp add: app_service_def api_demo_state_def demo_service_def)

lemma api_demo_upload:
  "api_event api_demo_env (CallUpload 0 5 10 1 10 api_demo_parts) =
     Some (EvUpload 5 10 1 10 (upload_request_of \<lparr>um_owner = ''alice'', um_media_kind = ''image'', um_mime = None,
       um_durability = ''durable''\<rparr> 0 [1, 2, 3]))"
  by (simp add: api_demo_parts_def upload_parts_def part_meta_def api_demo_env_def)

text \<open>C2: No request loses a live upload. After any history of HTTP requests on the in-memory node -
  uploads, registrations of origins, uploads and deletions of blobs, shares, derivations, pins,
  tombstones, reads - with runs of the collector anywhere between them, GET of the payload of every
  origin that was uploaded and not tombstoned answers 200 with the uploaded bytes and changes nothing.\<close>

theorem api_payload_survives:
  assumes "api_run E R st mem_view mem_world_new cs w" and "service_ok mem_node (ae_codec E) (app_service st)"
    and "(org, d, ids) \<in> set (live (ae_hashes E) (ae_codec E) (app_service st) (api_events E cs))"
    and "ae_parse_uuid E key = Some org"
  shows "api_get_payload E st key w = (Ok (StOk, d), w)"
proof -
  obtain ex where L: "mem_inv w"
    "ledger (ae_hashes E) (ae_codec E) (app_service st) (api_events E cs) ex (mem_view w)"
    using mem_total.api_run_ledger [OF assms(1,2) mem_world_new_inv new_ledger] by blast
  have "get_payload (ae_hashes E) (ae_codec E) (app_service st) org w = (Ok d, w)"
    by (rule mem_total.ledger_payload [OF assms(2) L assms(3)])
  then show ?thesis using assms(4) by (simp add: api_get_payload_def parse_origin_id_def backend_Ok bindM_Ok)
qed

theorem api_payload_survives_witness:
  "\<exists>w. api_run api_demo_env (\<lparr>ro_ratio = (\<lambda>a b. a), ro_exact = 1, ro_cap = 1, ro_zero = 0\<rparr> :: nat ratio_ops) api_demo_state
       mem_view mem_world_new [CallDeleteBlob ''b3:00'', CallCreateBlob None [7], CallCollect 99 (\<lambda>_. 0),
         CallUpload 0 5 10 1 10 api_demo_parts] w
     \<and> api_get_payload api_demo_env api_demo_state ''five'' w = (Ok (StOk, [1, 2, 3]), w)"
proof -
  let ?R = "\<lparr>ro_ratio = (\<lambda>a b. a), ro_exact = 1, ro_cap = 1, ro_zero = 0\<rparr> :: nat ratio_ops"
  let ?p = "api_perform api_demo_env ?R api_demo_state"
  define w1 where "w1 = snd (?p (CallUpload 0 5 10 1 10 api_demo_parts) mem_world_new)"
  have "allowed demo_hashes demo_manifest_codec demo_node (EvUpload 5 10 1 10 (demo_request [1, 2, 3])) (mem_view mem_world_new)"
    by (rule demo_upload_allowed [OF demo_new_small]) (simp_all add: demo_view_new demo_edge_fresh)
  then have "api_allowed api_demo_env api_demo_state (CallUpload 0 5 10 1 10 api_demo_parts) (mem_view mem_world_new)"
    by (simp add: api_allowed_def api_demo_upload api_demo_service upload_request_of_def demo_request_def del: api_event.simps)
  then have r1: "api_run api_demo_env ?R api_demo_state mem_view mem_world_new [CallUpload 0 5 10 1 10 api_demo_parts] w1"
    unfolding w1_def by (intro api_step api_start)
  have quiet: "api_allowed api_demo_env api_demo_state c f"
    if "c = CallDeleteBlob ''b3:00'' \<or> c = CallCreateBlob None [7] \<or> c = CallCollect 99 (\<lambda>_. 0)" for c f
    using that by (auto simp: api_allowed_def)
  obtain w where run: "api_run api_demo_env ?R api_demo_state mem_view mem_world_new [CallDeleteBlob ''b3:00'', CallCreateBlob None [7],
      CallCollect 99 (\<lambda>_. 0), CallUpload 0 5 10 1 10 api_demo_parts] w"
    using api_step [OF api_step [OF api_step [OF r1 quiet] quiet] quiet] by blast
  let ?ids = "plan_ids demo_hashes demo_node (upload_plan demo_hashes demo_manifest_codec demo_node [1, 2, 3])"
  have "(5, [1, 2, 3], ?ids) \<in> set (live (ae_hashes api_demo_env) (ae_codec api_demo_env) (app_service api_demo_state)
      (api_events api_demo_env [CallDeleteBlob ''b3:00'', CallCreateBlob None [7], CallCollect 99 (\<lambda>_. 0),
        CallUpload 0 5 10 1 10 api_demo_parts]))"
    using api_demo_upload by (simp add: api_demo_service demo_service_def null_crypto_def upload_request_of_def)
  moreover have "service_ok mem_node (ae_codec api_demo_env) (app_service api_demo_state)"
    using demo_node_ok by (simp add: api_demo_service)
  ultimately have "api_get_payload api_demo_env api_demo_state ''five'' w = (Ok (StOk, [1, 2, 3]), w)"
    using api_payload_survives [OF run, of 5 "[1, 2, 3]" ?ids "''five''"] by (simp del: api_events.simps)
  then show ?thesis using run by blast
qed


text \<open>C17: Registering an origin is not atomic. POST /v1/origins answers 201 exactly if every root blob of
  the request is stored, with one more reference to the origin per representation, one per root blob and
  an edge for each; otherwise it answers 404 with the first absent blob and creates no origin, but the
  policy and the references and edges of the representations before that blob stay behind.\<close>

theorem create_origin_effect:
  assumes "as_node st = mem_node" and "mem_inv s" and "origin_room org dr (oq_representations req) (mem_view s)"
  shows "\<exists>t. api_create_origin E st org t_rec dr req s =
       ((case first_absent (f_blobs (mem_view s)) (oq_representations req) of
           Some b \<Rightarrow> Err (StNotFound, ''blob not found: '' @ b)
         | None \<Rightarrow> Ok (StCreated, origin_response E (requested_record org t_rec req))), t)
     \<and> mem_view t = origin_effect org t_rec dr req (mem_view s)"
  using mem_total.create_origin_law [OF assms] by blast

definition api_demo_request :: origin_request where
  "api_demo_request = \<lparr>oq_owner = None, oq_media_kind = ''Image'', oq_durability = ''durable'',
     oq_representations = [\<lparr>rq_name = ''a'', rq_media_kind = ''image'', rq_mime = None, rq_size_bytes = None, rq_root_blobs = []\<rparr>,
       \<lparr>rq_name = ''b'', rq_media_kind = ''image'', rq_mime = None, rq_size_bytes = None, rq_root_blobs = [''b3:00'']\<rparr>]\<rparr>"

theorem create_origin_effect_witness:
  "\<exists>t. api_create_origin api_demo_env api_demo_state 5 1 (\<lambda>k. (of_nat k, 1)) api_demo_request mem_world_new
       = (Err (StNotFound, ''blob not found: b3:00''), t)
     \<and> f_origins (mem_view t) 5 = None \<and> f_origin_refs (mem_view t) 5 = 1 \<and> f_policies (mem_view t) 5 \<noteq> None"
proof -
  have room: "origin_room 5 (\<lambda>k. (of_nat k, 1)) (oq_representations api_demo_request) (mem_view mem_world_new)"
    by (simp add: origin_room_def demo_view_new demo_empty api_demo_request_def I64_MAX_def)
  have nd: "as_node api_demo_state = mem_node" by (simp add: api_demo_state_def)
  show ?thesis
    using create_origin_effect [OF nd mem_world_new_inv room, of api_demo_env 1]
    by (auto simp: demo_view_new api_demo_request_def origin_effect_def count_effect_def Let_def)
qed


section \<open>Identifiers are not confined\<close>

text \<open>The blob directory \<open>root\<close> of a file system that is a part of the state.\<close>

definition disk_store :: "('w \<Rightarrow> fs) \<Rightarrow> (fs \<Rightarrow> 'w \<Rightarrow> 'w) \<Rightarrow> path \<Rightarrow> 'w blob_store" where
  "disk_store get put root = \<lparr>bs_has = (\<lambda>b. liftM get put (fs_blob_has root b)), bs_put = (\<lambda>b d. liftM get put (fs_blob_put root b d)),
     bs_get = (\<lambda>b. liftM get put (fs_blob_get root b)), bs_delete = (\<lambda>b. liftM get put (fs_blob_delete root b))\<rparr>"

text \<open>C19: The HTTP interface reads and deletes any file of the host. With the file system store, for every
  file and every blob directory there is an identifier of a blob, with no reference to it, for which
  GET /v1/blobs/{id} answers 200 with the content of the file and DELETE /v1/blobs/{id} removes the file.\<close>

theorem http_reaches_any_file:
  assumes "fs_wf (get w)" and "f = CHR ''/'' # g" and "path_comps f = d @ [n]" and "n \<noteq> ''..''"
    and "hget (fs_files (get w)) (d @ [n]) = Some data"
    and "as_blobs st = disk_store get put root" and "put (get w) w = w"
    and "rc_get_blob (nd_index (as_node st)) (''x:ab'' @ f) w = (Ok 0, w)"
  shows "api_get_blob st (''x:ab'' @ f) w = (Ok (StOk, data), w)
    \<and> api_delete_blob st (''x:ab'' @ f) w
      = (Ok StNoContent, put ((get w)\<lparr>fs_files := hdel (d @ [n]) (fs_files (get w))\<rparr>) w)"
proof -
  note e = escaped_blob [OF assms(1-3,5,4), of root]
  have "bs_get (as_blobs st) (''x:ab'' @ f) w = (Ok data, w)" "bs_has (as_blobs st) (''x:ab'' @ f) w = (Ok True, w)"
    "bs_delete (as_blobs st) (''x:ab'' @ f) w = (Ok (), put ((get w)\<lparr>fs_files := hdel (d @ [n]) (fs_files (get w))\<rparr>) w)"
    unfolding assms(6) using e assms(7) by (simp_all add: disk_store_def liftM_apply)
  then show ?thesis
    using assms(8) by (simp add: api_get_blob_def api_delete_blob_def backend_Ok bindM_Ok seqM_Ok)
qed

text \<open>A node on a disk whose other stores hold nothing.\<close>

definition empty_node :: "'w blob_store \<Rightarrow> 'w node" where
  "empty_node bs =
     \<lparr>nd_index = \<lparr>rc_inc_origin = (\<lambda>_ _. returnM ()), rc_dec_origin = (\<lambda>_ _. returnM ()), rc_get_origin = (\<lambda>_. returnM 0),
        rc_inc_blob = (\<lambda>_ _. returnM ()), rc_dec_blob = (\<lambda>_ _. returnM ()), rc_get_blob = (\<lambda>_. returnM 0)\<rparr>,
      nd_scan = \<lparr>si_list_origins = returnM [], si_list_blobs = returnM []\<rparr>,
      nd_lineage = \<lparr>ls_add_edge = (\<lambda>_. returnM ()), ls_list_edges = (\<lambda>_. returnM [])\<rparr>,
      nd_provenance = \<lparr>pv_put_payload = (\<lambda>_ _. returnM ()), pv_put_chunks = (\<lambda>_ _. returnM ()),
        pv_find_payload = (\<lambda>_. returnM []), pv_find_chunks = (\<lambda>_. returnM [])\<rparr>,
      nd_origins = \<lparr>og_create = (\<lambda>_. returnM ()), og_get = (\<lambda>_. pureM (Err NotFound)), og_update = (\<lambda>_. returnM ()),
        og_delete = (\<lambda>_. returnM ())\<rparr>,
      nd_policies = \<lparr>po_get = (\<lambda>_. pureM (Err NotFound)), po_put = (\<lambda>_. returnM ())\<rparr>,
      nd_pins = \<lparr>pn_create = (\<lambda>_. returnM ()), pn_get = (\<lambda>_. pureM (Err NotFound)), pn_list = (\<lambda>_. returnM []),
        pn_update = (\<lambda>_. returnM ()), pn_release = (\<lambda>_. returnM ())\<rparr>,
      nd_derivations = \<lparr>dv_put = (\<lambda>_. returnM ()), dv_get = (\<lambda>_ _. pureM (Err NotFound)), dv_list = (\<lambda>_. returnM [])\<rparr>,
      nd_shares = \<lparr>sh_put = (\<lambda>_. returnM ()), sh_get = (\<lambda>_. pureM (Err NotFound)), sh_list = (\<lambda>_. returnM [])\<rparr>,
      nd_tombstones = \<lparr>ts_put = (\<lambda>_. returnM ()), ts_get = (\<lambda>_. pureM (Err NotFound)), ts_list = (\<lambda>_. returnM [])\<rparr>,
      nd_replicas = \<lparr>rs_upsert = (\<lambda>_. returnM ()), rs_list = (\<lambda>_. returnM []), rs_healthy = (\<lambda>_. returnM 0),
        rs_healthy_stale = (\<lambda>_ _ _. returnM 0)\<rparr>,
      nd_store = bs\<rparr>"

theorem http_reaches_any_file_witness:
  "\<exists>w. api_delete_blob \<lparr>as_node = empty_node (disk_store (\<lambda>w. w) (\<lambda>s _. s) [''srv'', ''blobs'']), as_crypto = null_crypto,
         as_hash_alg = Blake3, as_proof_signer = None, as_chunk_config = None\<rparr> ''x:ab/etc/shadow''
       \<lparr>fs_files = [([''etc'', ''shadow''], [7])], fs_dirs = [[], [''etc''], [''srv''], [''srv'', ''blobs'']]\<rparr>
     = (Ok StNoContent, w) \<and> hget (fs_files w) [''etc'', ''shadow''] = None"
proof -
  let ?s = "\<lparr>fs_files = [([''etc'', ''shadow''], [7 :: byte])], fs_dirs = [[], [''etc''], [''srv''], [''srv'', ''blobs'']]\<rparr>"
  let ?st = "\<lparr>as_node = empty_node (disk_store (\<lambda>w. w) (\<lambda>s _. s) [''srv'', ''blobs'']), as_crypto = null_crypto,
      as_hash_alg = Blake3, as_proof_signer = None, as_chunk_config = None\<rparr>"
  have "fs_wf ?s" by (auto simp: fs_wf_def hget_def)
  moreover have "path_comps ''/etc/shadow'' = [''etc''] @ [''shadow'']" by code_simp
  moreover have "as_blobs ?st = disk_store (\<lambda>w. w) (\<lambda>s _. s) [''srv'', ''blobs'']"
    "rc_get_blob (nd_index (as_node ?st)) k w = (Ok 0, w)" for k w
    by (simp_all add: empty_node_def)
  ultimately show ?thesis
    using http_reaches_any_file [of "\<lambda>w. w" ?s "''/etc/shadow''" "''etc/shadow''" "[''etc'']" "''shadow''" "[7]" ?st
        "\<lambda>s _. s" "[''srv'', ''blobs'']"]
    by (simp add: hget_Cons)
qed

end
