(* ===== verification/Sodl_Server.thy ===== *)
theory Sodl_Server
  imports Sodl_Api
begin

text \<open>
  Configuration and assembly of the HTTP server: \<open>config.rs\<close>, the builder of \<open>state.rs\<close> and the
  route table of \<open>router.rs\<close>. Opening the database and the blob directory, and parsing a socket
  address, belong to other crates; they are arguments.
\<close>

section \<open>Configuration\<close>

datatype encryption_mode = NoEncryption | AeadMode string

record 'addr server_config =
  sc_listen :: 'addr
  sc_blob_dir :: string
  sc_db_path :: string
  sc_max_upload_bytes :: nat
  sc_encryption :: encryption_mode

text \<open>\<open>str::parse\<close> of a \<open>usize\<close>: decimal digits, after at most one plus sign, of a 64-bit value.\<close>

definition digit_value :: "char \<Rightarrow> nat option" where
  "digit_value c = (let n = (of_char c :: nat) in if 48 \<le> n \<and> n \<le> 57 then Some (n - 48) else None)"

fun parse_digits :: "nat \<Rightarrow> string \<Rightarrow> nat option" where
  "parse_digits acc [] = Some acc"
| "parse_digits acc (c # cs) =
     (case digit_value c of
        None \<Rightarrow> None
      | Some d \<Rightarrow> if 10 * acc + d < 18446744073709551616 then parse_digits (10 * acc + d) cs else None)"

definition parse_usize :: "string \<Rightarrow> nat option" where
  "parse_usize s =
     (let digits = (case s of c # cs \<Rightarrow> if c = CHR ''+'' then cs else s | [] \<Rightarrow> [])
      in if digits = [] then None else parse_digits 0 digits)"

definition max_upload_bytes_of :: "string option \<Rightarrow> nat" where
  "max_upload_bytes_of v =
     (case Option.bind v parse_usize of
        Some n \<Rightarrow> if 0 < n then n else 1024 * 1024 * 1024
      | None \<Rightarrow> 1024 * 1024 * 1024)"

definition encryption_of :: "string option \<Rightarrow> encryption_mode" where
  "encryption_of v = (case v of Some hex \<Rightarrow> if hex \<noteq> [] then AeadMode hex else NoEncryption | None \<Rightarrow> NoEncryption)"

text \<open>\<open>env\<close> gives the variables that are set and are text.\<close>

definition config_from_env :: "(string \<Rightarrow> 'addr option) \<Rightarrow> (string \<Rightarrow> string option) \<Rightarrow> ('e, 'addr server_config) outcome" where
  "config_from_env parse_addr env =
     (case parse_addr (case env ''SODL_LISTEN'' of Some s \<Rightarrow> s | None \<Rightarrow> ''127.0.0.1:7700'') of
        None \<Rightarrow> Panic
      | Some addr \<Rightarrow> Ok \<lparr>sc_listen = addr,
          sc_blob_dir = (case env ''SODL_BLOB_DIR'' of Some s \<Rightarrow> s | None \<Rightarrow> ''./sodl_data/blobs''),
          sc_db_path = (case env ''SODL_DB_PATH'' of Some s \<Rightarrow> s | None \<Rightarrow> ''./sodl_data/sodl.db''),
          sc_max_upload_bytes = max_upload_bytes_of (env ''SODL_MAX_UPLOAD_BYTES''),
          sc_encryption = encryption_of (env ''SODL_MASTER_KEY'')\<rparr>)"


section \<open>The builder\<close>

record 'w server_builder =
  bd_blobs :: "'w blob_store option"
  bd_crypto :: "crypto option"
  bd_origin_registry :: "'w origin_registry option"
  bd_policy_store :: "'w policy_store option"
  bd_pin_store :: "'w pin_store option"
  bd_index :: "'w ref_counter option"
  bd_scan :: "'w scan_index option"
  bd_lineage :: "'w lineage_store option"
  bd_provenance :: "'w provenance_index option"
  bd_derivations :: "'w derivation_store option"
  bd_shares :: "'w share_store option"
  bd_proof_signer :: "signer option"
  bd_chunk_config :: "chunk_config option"
  bd_hash_alg :: hash_alg

definition builder_new :: "'w server_builder" where
  "builder_new = \<lparr>bd_blobs = None, bd_crypto = None, bd_origin_registry = None, bd_policy_store = None,
     bd_pin_store = None, bd_index = None, bd_scan = None, bd_lineage = None, bd_provenance = None,
     bd_derivations = None, bd_shares = None, bd_proof_signer = None, bd_chunk_config = None, bd_hash_alg = Blake3\<rparr>"

definition with_blobs :: "'w blob_store \<Rightarrow> 'w server_builder \<Rightarrow> 'w server_builder" where
  "with_blobs x b = b\<lparr>bd_blobs := Some x\<rparr>"

definition with_crypto :: "crypto \<Rightarrow> 'w server_builder \<Rightarrow> 'w server_builder" where
  "with_crypto x b = b\<lparr>bd_crypto := Some x\<rparr>"

definition with_hash_alg :: "hash_alg \<Rightarrow> 'w server_builder \<Rightarrow> 'w server_builder" where
  "with_hash_alg x b = b\<lparr>bd_hash_alg := x\<rparr>"

definition with_origin_registry :: "'w origin_registry \<Rightarrow> 'w server_builder \<Rightarrow> 'w server_builder" where
  "with_origin_registry x b = b\<lparr>bd_origin_registry := Some x\<rparr>"

definition with_policy_store :: "'w policy_store \<Rightarrow> 'w server_builder \<Rightarrow> 'w server_builder" where
  "with_policy_store x b = b\<lparr>bd_policy_store := Some x\<rparr>"

definition with_pin_store :: "'w pin_store \<Rightarrow> 'w server_builder \<Rightarrow> 'w server_builder" where
  "with_pin_store x b = b\<lparr>bd_pin_store := Some x\<rparr>"

definition with_index :: "'w ref_counter \<Rightarrow> 'w server_builder \<Rightarrow> 'w server_builder" where
  "with_index x b = b\<lparr>bd_index := Some x\<rparr>"

definition with_scan :: "'w scan_index \<Rightarrow> 'w server_builder \<Rightarrow> 'w server_builder" where
  "with_scan x b = b\<lparr>bd_scan := Some x\<rparr>"

definition with_lineage :: "'w lineage_store \<Rightarrow> 'w server_builder \<Rightarrow> 'w server_builder" where
  "with_lineage x b = b\<lparr>bd_lineage := Some x\<rparr>"

definition with_provenance :: "'w provenance_index \<Rightarrow> 'w server_builder \<Rightarrow> 'w server_builder" where
  "with_provenance x b = b\<lparr>bd_provenance := Some x\<rparr>"

definition with_derivations :: "'w derivation_store \<Rightarrow> 'w server_builder \<Rightarrow> 'w server_builder" where
  "with_derivations x b = b\<lparr>bd_derivations := Some x\<rparr>"

definition with_shares :: "'w share_store \<Rightarrow> 'w server_builder \<Rightarrow> 'w server_builder" where
  "with_shares x b = b\<lparr>bd_shares := Some x\<rparr>"

definition with_proof_signer :: "signer \<Rightarrow> 'w server_builder \<Rightarrow> 'w server_builder" where
  "with_proof_signer x b = b\<lparr>bd_proof_signer := Some x\<rparr>"

definition enable_chunking :: "chunk_config \<Rightarrow> 'w server_builder \<Rightarrow> 'w server_builder" where
  "enable_chunking x b = b\<lparr>bd_chunk_config := Some x\<rparr>"

definition disable_chunking :: "'w server_builder \<Rightarrow> 'w server_builder" where
  "disable_chunking b = b\<lparr>bd_chunk_config := None\<rparr>"

text \<open>One store that implements all metadata traits: those of the node \<open>db\<close>.\<close>

definition with_metadata :: "'w node \<Rightarrow> 'w server_builder \<Rightarrow> 'w server_builder" where
  "with_metadata db b = b\<lparr>bd_origin_registry := Some (nd_origins db), bd_policy_store := Some (nd_policies db),
     bd_pin_store := Some (nd_pins db), bd_index := Some (nd_index db), bd_scan := Some (nd_scan db),
     bd_lineage := Some (nd_lineage db), bd_provenance := Some (nd_provenance db),
     bd_derivations := Some (nd_derivations db), bd_shares := Some (nd_shares db)\<rparr>"

definition require_backend :: "string \<Rightarrow> 'a option \<Rightarrow> 'a res" where
  "require_backend name x = of_option (Invalid (''missing backend: '' @ name)) x"

text \<open>The state of a server has no tombstones and no replicas; those of the node are \<open>rest\<close>'s.\<close>

definition build_state :: "'w node \<Rightarrow> 'w server_builder \<Rightarrow> 'w app_state res" where
  "build_state rest b =
     bindR (require_backend ''blobs'' (bd_blobs b)) (\<lambda>blobs.
     bindR (require_backend ''crypto'' (bd_crypto b)) (\<lambda>cr.
     bindR (require_backend ''origin_registry'' (bd_origin_registry b)) (\<lambda>origins.
     bindR (require_backend ''policy_store'' (bd_policy_store b)) (\<lambda>policies.
     bindR (require_backend ''pin_store'' (bd_pin_store b)) (\<lambda>pins.
     bindR (require_backend ''index'' (bd_index b)) (\<lambda>index.
     bindR (require_backend ''scan'' (bd_scan b)) (\<lambda>scan.
     bindR (require_backend ''lineage'' (bd_lineage b)) (\<lambda>lineage.
     bindR (require_backend ''provenance'' (bd_provenance b)) (\<lambda>prov.
     bindR (require_backend ''derivations'' (bd_derivations b)) (\<lambda>derivs.
     bindR (require_backend ''shares'' (bd_shares b)) (\<lambda>shares.
     Ok \<lparr>as_node = rest\<lparr>nd_index := index, nd_scan := scan, nd_lineage := lineage, nd_provenance := prov,
           nd_origins := origins, nd_policies := policies, nd_pins := pins, nd_derivations := derivs,
           nd_shares := shares, nd_store := blobs\<rparr>,
         as_crypto = cr, as_hash_alg = bd_hash_alg b, as_proof_signer = bd_proof_signer b,
         as_chunk_config = bd_chunk_config b\<rparr>)))))))))))"

text \<open>The crypto provider that \<open>defaults\<close> chooses.\<close>

definition default_crypto :: "crypto_prims \<Rightarrow> encryption_mode \<Rightarrow> crypto res" where
  "default_crypto P mode = (case mode of
     AeadMode hex \<Rightarrow> bindR (aead_from_hex P hex) (\<lambda>c. Ok (aead_provider c))
   | NoEncryption \<Rightarrow> Ok null_crypto)"

text \<open>\<open>defaults\<close>: the directory of the database, the database, the blob directory, the provider.
  \<open>op_parent\<close> creates the directory that holds the database, if its path names one.\<close>

record 'w openers =
  op_parent :: "string \<Rightarrow> ('w, unit) op"
  op_sqlite :: "string \<Rightarrow> ('w, 'w node) op"
  op_blob_dir :: "string \<Rightarrow> ('w, 'w blob_store) op"

definition builder_defaults :: "crypto_prims \<Rightarrow> 'w openers \<Rightarrow> 'addr server_config \<Rightarrow> ('w, 'w server_builder) op" where
  "builder_defaults P os config =
     seqM (op_parent os (sc_db_path config))
     (bindM (op_sqlite os (sc_db_path config)) (\<lambda>db.
      bindM (op_blob_dir os (sc_blob_dir config)) (\<lambda>blobs.
      bindM (pureM (default_crypto P (sc_encryption config))) (\<lambda>cr.
      returnM (with_metadata db (enable_chunking config_default (with_crypto cr (with_blobs blobs builder_new))))))))"

definition missing_backends :: "'w server_builder \<Rightarrow> string list" where
  "missing_backends b = map fst (filter snd
     [(''blobs'', bd_blobs b = None), (''crypto'', bd_crypto b = None), (''origin_registry'', bd_origin_registry b = None),
      (''policy_store'', bd_policy_store b = None), (''pin_store'', bd_pin_store b = None), (''index'', bd_index b = None),
      (''scan'', bd_scan b = None), (''lineage'', bd_lineage b = None), (''provenance'', bd_provenance b = None),
      (''derivations'', bd_derivations b = None), (''shares'', bd_shares b = None)])"


section \<open>Routes\<close>

datatype http_method = GET | HEAD | POST | DELETE | OtherMethod string

datatype endpoint =
    EpHealth | EpUpload | EpResolve | EpListOrigins | EpCreateOrigin
  | EpGetOrigin string | EpTombstone string | EpRepresentations string | EpPayload string | EpLineageProof string
  | EpCreateBlob | EpGetBlob string | EpDeleteBlob string
  | EpCreateShare | EpGetShare string | EpReleaseShare string | EpVerifyShare string
  | EpCreateDerivation | EpCreatePin | EpReleasePin string

datatype routed = Routed endpoint | WrongMethod | NoRoute

text \<open>The handlers of a path, by method. A path is its list of segments; a parameter is a segment that
  is not empty, and \<open>decode\<close> undoes its percent encoding. A handler for GET also answers HEAD; the
  answers of the CORS layer to OPTIONS are not part of the table.\<close>

fun path_handlers :: "(string \<Rightarrow> string) \<Rightarrow> string list \<Rightarrow> (http_method \<times> endpoint) list" where
  "path_handlers decode [a] = (if a = ''health'' then [(GET, EpHealth)] else [])"
| "path_handlers decode [v, a] =
     (if v \<noteq> ''v1'' then []
      else if a = ''health'' then [(GET, EpHealth)]
      else if a = ''upload'' then [(POST, EpUpload)]
      else if a = ''origins'' then [(GET, EpListOrigins), (POST, EpCreateOrigin)]
      else if a = ''blobs'' then [(POST, EpCreateBlob)]
      else if a = ''shares'' then [(POST, EpCreateShare)]
      else if a = ''derivations'' then [(POST, EpCreateDerivation)]
      else if a = ''pins'' then [(POST, EpCreatePin)]
      else [])"
| "path_handlers decode [v, a, x] =
     (if v \<noteq> ''v1'' then []
      else if a = ''provenance'' then (if x = ''resolve'' then [(POST, EpResolve)] else [])
      else if x = [] then []
      else if a = ''origins'' then [(GET, EpGetOrigin (decode x)), (DELETE, EpTombstone (decode x))]
      else if a = ''blobs'' then [(GET, EpGetBlob (decode x)), (DELETE, EpDeleteBlob (decode x))]
      else if a = ''shares'' then [(GET, EpGetShare (decode x)), (DELETE, EpReleaseShare (decode x))]
      else if a = ''pins'' then [(DELETE, EpReleasePin (decode x))]
      else [])"
| "path_handlers decode [v, a, x, sub] =
     (if v \<noteq> ''v1'' \<or> x = [] then []
      else if a = ''origins'' \<and> sub = ''representations'' then [(GET, EpRepresentations (decode x))]
      else if a = ''origins'' \<and> sub = ''payload'' then [(GET, EpPayload (decode x))]
      else if a = ''origins'' \<and> sub = ''lineage-proof'' then [(GET, EpLineageProof (decode x))]
      else if a = ''shares'' \<and> sub = ''verify'' then [(POST, EpVerifyShare (decode x))]
      else [])"
| "path_handlers decode _ = []"

definition route :: "(string \<Rightarrow> string) \<Rightarrow> http_method \<Rightarrow> string list \<Rightarrow> routed" where
  "route decode m p =
     (case path_handlers decode p of
        [] \<Rightarrow> NoRoute
      | hs \<Rightarrow> (case map_of hs (if m = HEAD then GET else m) of Some ep \<Rightarrow> Routed ep | None \<Rightarrow> WrongMethod))"

text \<open>The path and the method that a client sends for an endpoint.\<close>

fun endpoint_path :: "(string \<Rightarrow> string) \<Rightarrow> endpoint \<Rightarrow> http_method \<times> string list" where
  "endpoint_path encode EpHealth = (GET, [''v1'', ''health''])"
| "endpoint_path encode EpUpload = (POST, [''v1'', ''upload''])"
| "endpoint_path encode EpResolve = (POST, [''v1'', ''provenance'', ''resolve''])"
| "endpoint_path encode EpListOrigins = (GET, [''v1'', ''origins''])"
| "endpoint_path encode EpCreateOrigin = (POST, [''v1'', ''origins''])"
| "endpoint_path encode (EpGetOrigin i) = (GET, [''v1'', ''origins'', encode i])"
| "endpoint_path encode (EpTombstone i) = (DELETE, [''v1'', ''origins'', encode i])"
| "endpoint_path encode (EpRepresentations i) = (GET, [''v1'', ''origins'', encode i, ''representations''])"
| "endpoint_path encode (EpPayload i) = (GET, [''v1'', ''origins'', encode i, ''payload''])"
| "endpoint_path encode (EpLineageProof i) = (GET, [''v1'', ''origins'', encode i, ''lineage-proof''])"
| "endpoint_path encode EpCreateBlob = (POST, [''v1'', ''blobs''])"
| "endpoint_path encode (EpGetBlob i) = (GET, [''v1'', ''blobs'', encode i])"
| "endpoint_path encode (EpDeleteBlob i) = (DELETE, [''v1'', ''blobs'', encode i])"
| "endpoint_path encode EpCreateShare = (POST, [''v1'', ''shares''])"
| "endpoint_path encode (EpGetShare i) = (GET, [''v1'', ''shares'', encode i])"
| "endpoint_path encode (EpReleaseShare i) = (DELETE, [''v1'', ''shares'', encode i])"
| "endpoint_path encode (EpVerifyShare i) = (POST, [''v1'', ''shares'', encode i, ''verify''])"
| "endpoint_path encode EpCreateDerivation = (POST, [''v1'', ''derivations''])"
| "endpoint_path encode EpCreatePin = (POST, [''v1'', ''pins''])"
| "endpoint_path encode (EpReleasePin i) = (DELETE, [''v1'', ''pins'', encode i])"

lemma route_endpoint_path:
  assumes "\<And>i. encode i \<noteq> []" and "\<And>i. decode (encode i) = i"
  shows "(case endpoint_path encode ep of (m, p) \<Rightarrow> route decode m p) = Routed ep"
  using assms by (cases ep) (simp_all add: route_def)


section \<open>The default server\<close>

lemma require_backend_simps [simp]:
  "require_backend n (Some x) = Ok x" "require_backend n None = Err (Invalid (''missing backend: '' @ n))"
  by (simp_all add: require_backend_def)

text \<open>\<open>build\<close> names the first backend that is missing.\<close>

lemma build_state_missing:
  "missing_backends b = n # ns \<Longrightarrow> build_state rest b = Err (Invalid (''missing backend: '' @ n))"
  unfolding missing_backends_def build_state_def
  by (cases "bd_blobs b", clarsimp,
      cases "bd_crypto b", clarsimp,
      cases "bd_origin_registry b", clarsimp,
      cases "bd_policy_store b", clarsimp,
      cases "bd_pin_store b", clarsimp,
      cases "bd_index b", clarsimp,
      cases "bd_scan b", clarsimp,
      cases "bd_lineage b", clarsimp,
      cases "bd_provenance b", clarsimp,
      cases "bd_derivations b", clarsimp,
      cases "bd_shares b", clarsimp, simp)

lemma default_crypto_ok: "prims_ok P \<Longrightarrow> default_crypto P mode = Ok c \<Longrightarrow> crypto_ok c"
  using aead_laws.provider_ok null_provider.provider_ok
  by (cases mode) (auto simp: default_crypto_def aead_from_hex_def bindR_eq_Ok split: if_splits)

lemma default_chunking: "covering (effective_chunker config_default)"
  using cdc_chunks.chunk_covering [OF cdc_default_valid] by (simp add: effective_chunker_def config_default_def)

text \<open>What \<open>defaults\<close> assembles when opening succeeds: the database at the configured path provides the
  metadata, the store at the configured directory the blobs, the provider is the one the mode asks for, and
  chunking has the default parameters. The service of the state it builds is well-formed.\<close>

lemma default_server_assembled:
  assumes "prims_ok P" and "codec_ok J" and "op_parent os (sc_db_path config) s = (Ok (), s1)"
    and "op_sqlite os (sc_db_path config) s1 = (Ok db, s2)" and "op_blob_dir os (sc_blob_dir config) s2 = (Ok bl, t)"
    and "default_crypto P (sc_encryption config) = Ok c"
  shows "\<exists>b st. builder_defaults P os config s = (Ok b, t) \<and> build_state rest b = Ok st
    \<and> as_crypto st = c \<and> as_chunk_config st = Some config_default \<and> nd_store (as_node st) = bl
    \<and> nd_origins (as_node st) = nd_origins db \<and> nd_index (as_node st) = nd_index db
    \<and> service_ok (as_node st) J (app_service st)"
  using assms default_crypto_ok [OF assms(1,6)] default_chunking
  by (simp add: builder_defaults_def act_simps with_metadata_def enable_chunking_def with_crypto_def with_blobs_def builder_new_def
      build_state_def service_ok_def app_service_def)

end
