(* ===== verification/Sodl_Tokenizer.thy ===== *)
theory Sodl_Tokenizer
  imports Sodl_Core
begin

text \<open>
  The byte-pair-encoding trainer, \<open>crates/sodl-tokenizer/src/lib.rs\<close>. The text is cut into words, and
  the merges are counted on the unique words weighted by their frequencies. The order in which the two
  hash maps are iterated is unspecified: \<open>word_order\<close> and \<open>pair_order\<close> give it, the latter for each
  round. Token identifiers are \<open>u32\<close> and frequencies \<open>u64\<close>. Whether an overflow panics or wraps is a matter
  of the build: \<open>chk\<close> is true for a debug build, which checks, and false for the release build that
  \<open>python/sodl_weights/fast_bpe.py\<close> loads. The progress messages and the allocation of memory are left out.
\<close>

section \<open>The trainer\<close>

text \<open>\<open>a + b\<close> on unsigned integers in a build with or without overflow checks.\<close>

definition add_profile :: "bool \<Rightarrow> ('n::len) word \<Rightarrow> 'n word \<Rightarrow> ('e, 'n word) outcome" where
  "add_profile chk a b = (if chk \<and> 2 ^ LENGTH('n) \<le> unat a + unat b then Panic else Ok (a + b))"

lemma add_profile_Ok:
  "unat a + unat b < 2 ^ LENGTH('n) \<Longrightarrow> add_profile chk (a :: 'n::len word) b = Ok (a + b)"
  by (simp add: add_profile_def)

lemma add_profile_wraps [simp]: "add_profile False a b = Ok (a + b)"
  by (simp add: add_profile_def)

record bpe_result =
  bp_merges :: "(u32 \<times> u32 \<times> u32) list"
  bp_vocab :: "(u32, bytes) hmap"
  bp_num_merges :: nat

record word_entry =
  we_tokens :: "u32 list"
  we_frequency :: u64

definition is_boundary :: "byte \<Rightarrow> bool" where
  "is_boundary b \<longleftrightarrow> b = 32 \<or> b = 10 \<or> b = 13 \<or> b = 9 \<or> b = 40 \<or> b = 41 \<or> b = 91 \<or> b = 93 \<or> b = 123 \<or> b = 125
     \<or> b = 44 \<or> b = 59 \<or> b = 58 \<or> b = 33 \<or> b = 63 \<or> b = 34 \<or> b = 39 \<or> b = 96"

text \<open>\<open>*map.entry(k).or_insert(0) += n\<close>.\<close>

definition bump :: "bool \<Rightarrow> 'k \<Rightarrow> u64 \<Rightarrow> ('k, u64) hmap \<Rightarrow> ('k, u64) hmap res" where
  "bump chk k n m = bindR (add_profile chk (case hget m k of Some v \<Rightarrow> v | None \<Rightarrow> 0) n) (\<lambda>v. Ok (hput k v m))"

definition flush_word :: "bool \<Rightarrow> bytes \<Rightarrow> (bytes, u64) hmap \<Rightarrow> (bytes, u64) hmap res" where
  "flush_word chk word m = (if word \<noteq> [] then bump chk word 1 m else Ok m)"

fun pre_tokenize_go :: "bool \<Rightarrow> bytes \<Rightarrow> bytes \<Rightarrow> (bytes, u64) hmap \<Rightarrow> (bytes, u64) hmap res" where
  "pre_tokenize_go chk [] word m = flush_word chk word m"
| "pre_tokenize_go chk (b # bs) word m =
     (if is_boundary b then bindR (flush_word chk word m) (\<lambda>m. bindR (bump chk [b] 1 m) (\<lambda>m. pre_tokenize_go chk bs [] m))
      else pre_tokenize_go chk bs (word @ [b]) m)"

definition pre_tokenize :: "bool \<Rightarrow> bytes \<Rightarrow> (bytes, u64) hmap res" where
  "pre_tokenize chk text = pre_tokenize_go chk text [] []"

text \<open>The loop over \<open>windows(2)\<close> of a word, and over the words.\<close>

fun count_windows :: "bool \<Rightarrow> u64 \<Rightarrow> u32 list \<Rightarrow> (u32 \<times> u32, u64) hmap \<Rightarrow> (u32 \<times> u32, u64) hmap res" where
  "count_windows chk f (a # b # ts) m = bindR (bump chk (a, b) f m) (\<lambda>m. count_windows chk f (b # ts) m)"
| "count_windows chk f _ m = Ok m"

fun count_words :: "bool \<Rightarrow> word_entry list \<Rightarrow> (u32 \<times> u32, u64) hmap \<Rightarrow> (u32 \<times> u32, u64) hmap res" where
  "count_words chk [] m = Ok m"
| "count_words chk (e # es) m =
     (if length (we_tokens e) < 2 then count_words chk es m
      else bindR (count_windows chk (we_frequency e) (we_tokens e) m) (\<lambda>m. count_words chk es m))"

definition count_weighted_pairs :: "bool \<Rightarrow> word_entry list \<Rightarrow> (u32 \<times> u32, u64) hmap res" where
  "count_weighted_pairs chk words = count_words chk words []"

fun merge_word_tokens :: "u32 list \<Rightarrow> u32 \<times> u32 \<Rightarrow> u32 \<Rightarrow> u32 list" where
  "merge_word_tokens (a # b # ts) pair new_id =
     (if a = fst pair \<and> b = snd pair then new_id # merge_word_tokens ts pair new_id
      else a # merge_word_tokens (b # ts) pair new_id)"
| "merge_word_tokens ts pair new_id = ts"

definition merge_entry :: "u32 \<times> u32 \<Rightarrow> u32 \<Rightarrow> word_entry \<Rightarrow> word_entry" where
  "merge_entry pair new_id e =
     (if 2 \<le> length (we_tokens e) then e\<lparr>we_tokens := merge_word_tokens (we_tokens e) pair new_id\<rparr> else e)"

text \<open>\<open>max_by_key\<close>: the last of the maximal entries in the order of iteration.\<close>

definition max_by_key :: "'k \<times> u64 \<Rightarrow> ('k \<times> u64) list \<Rightarrow> 'k \<times> u64" where
  "max_by_key x xs = fold (\<lambda>y best. if snd best \<le> snd y then y else best) xs x"

definition bytes_of_token :: "(u32, bytes) hmap \<Rightarrow> u32 \<Rightarrow> bytes" where
  "bytes_of_token vocab t = (case hget vocab t of Some b \<Rightarrow> b | None \<Rightarrow> [])"

text \<open>The rounds that remain, the words, the vocabulary, the merges so far and the next identifier.\<close>

fun merge_loop ::
  "bool \<Rightarrow> (nat \<Rightarrow> ((u32 \<times> u32) \<times> u64) list \<Rightarrow> ((u32 \<times> u32) \<times> u64) list) \<Rightarrow> nat \<Rightarrow> word_entry list \<Rightarrow> (u32, bytes) hmap
     \<Rightarrow> (u32 \<times> u32 \<times> u32) list \<Rightarrow> u32 \<Rightarrow> ((u32 \<times> u32 \<times> u32) list \<times> (u32, bytes) hmap) res" where
  "merge_loop chk pair_order 0 words vocab merges next_id = Ok (merges, vocab)"
| "merge_loop chk pair_order (Suc n) words vocab merges next_id =
     bindR (count_weighted_pairs chk words) (\<lambda>counts.
       case pair_order (length merges) counts of
         [] \<Rightarrow> Ok (merges, vocab)
       | c # cs \<Rightarrow>
           (let best = max_by_key c cs; pair = fst best in
            if snd best < 2 then Ok (merges, vocab)
            else bindR (add_profile chk next_id 1) (\<lambda>next'.
              merge_loop chk pair_order n (map (merge_entry pair next_id) words)
                (hput next_id (bytes_of_token vocab (fst pair) @ bytes_of_token vocab (snd pair)) vocab)
                (merges @ [(fst pair, snd pair, next_id)]) next')))"

definition word_tokens :: "bool \<Rightarrow> u32 \<Rightarrow> bytes \<Rightarrow> (u32 list) res" where
  "word_tokens chk offset w = mapR (\<lambda>b. add_profile chk (ucast b) offset) w"

definition initial_words :: "bool \<Rightarrow> u32 \<Rightarrow> (bytes \<times> u64) list \<Rightarrow> (word_entry list) res" where
  "initial_words chk offset freqs =
     mapR (\<lambda>(w, f). bindR (word_tokens chk offset w) (\<lambda>ts. Ok \<lparr>we_tokens = ts, we_frequency = f\<rparr>)) freqs"

fun byte_vocab :: "bool \<Rightarrow> u32 \<Rightarrow> byte list \<Rightarrow> (u32, bytes) hmap \<Rightarrow> (u32, bytes) hmap res" where
  "byte_vocab chk offset [] vocab = Ok vocab"
| "byte_vocab chk offset (b # bs) vocab =
     bindR (add_profile chk (ucast b) offset) (\<lambda>t. byte_vocab chk offset bs (hput t [b] vocab))"

definition all_bytes :: "byte list" where
  "all_bytes = map of_nat [0..<256]"

definition train_bpe ::
  "bool \<Rightarrow> ((bytes \<times> u64) list \<Rightarrow> (bytes \<times> u64) list) \<Rightarrow> (nat \<Rightarrow> ((u32 \<times> u32) \<times> u64) list \<Rightarrow> ((u32 \<times> u32) \<times> u64) list)
     \<Rightarrow> bytes \<Rightarrow> nat \<Rightarrow> nat \<Rightarrow> bpe_result res" where
  "train_bpe chk word_order pair_order text vocab_size special =
     (if chk \<and> 2 ^ 64 \<le> 256 + special then Panic
      else
        let num_merges = vocab_size - (256 + special) mod 2 ^ 64; offset = of_nat special :: u32 in
        bindR (pre_tokenize chk text) (\<lambda>freqs.
        bindR (initial_words chk offset (word_order freqs)) (\<lambda>words.
        bindR (byte_vocab chk offset all_bytes []) (\<lambda>vocab.
        bindR (add_profile chk 256 offset) (\<lambda>next_id.
        bindR (merge_loop chk pair_order num_merges words vocab [] next_id) (\<lambda>(merges, vocab).
        Ok \<lparr>bp_merges = merges, bp_vocab = vocab, bp_num_merges = length merges\<rparr>))))))"

text \<open>The C interface: sizes are \<open>u32\<close>, the result is the JSON text, or null if it cannot be
  serialized; a text with a zero byte becomes empty. A panic aborts the process.\<close>

definition sodl_bpe_train ::
  "bool \<Rightarrow> (bpe_result \<Rightarrow> string res) \<Rightarrow> ((bytes \<times> u64) list \<Rightarrow> (bytes \<times> u64) list)
     \<Rightarrow> (nat \<Rightarrow> ((u32 \<times> u32) \<times> u64) list \<Rightarrow> ((u32 \<times> u32) \<times> u64) list)
     \<Rightarrow> bytes \<Rightarrow> u32 \<Rightarrow> u32 \<Rightarrow> (string option) res" where
  "sodl_bpe_train chk to_json word_order pair_order text vocab_size special =
     bindR (train_bpe chk word_order pair_order text (unat vocab_size) (unat special)) (\<lambda>r.
       case to_json r of
         Ok s \<Rightarrow> Ok (Some (if CHR 0x00 \<in> set s then [] else s))
       | Err e \<Rightarrow> Ok None
       | Panic \<Rightarrow> Panic)"


section \<open>Words\<close>

text \<open>The words of a text in order, with repetitions.\<close>

fun words_of :: "bytes \<Rightarrow> bytes \<Rightarrow> bytes list" where
  "words_of word [] = (if word = [] then [] else [word])"
| "words_of word (b # bs) =
     (if is_boundary b then (if word = [] then [] else [word]) @ [b] # words_of [] bs else words_of (word @ [b]) bs)"

lemma words_concat: "concat (words_of word bs) = word @ bs"
  by (induction word bs rule: words_of.induct) auto

lemma words_nonempty: "w \<in> set (words_of word bs) \<Longrightarrow> w \<noteq> []"
  by (induction word bs rule: words_of.induct) (auto split: if_splits)

definition tally_of :: "('k, u64) hmap \<Rightarrow> 'k \<Rightarrow> nat" where
  "tally_of m k = (case hget m k of Some v \<Rightarrow> unat v | None \<Rightarrow> 0)"

lemma bump_Ok:
  assumes "hwf m" and "tally_of m k + unat n < 2 ^ 64"
  shows "\<exists>m'. bump chk k n m = Ok m' \<and> hwf m' \<and> tally_of m' = (tally_of m)(k := tally_of m k + unat n)
    \<and> (\<forall>j. hget m' j \<noteq> None \<longleftrightarrow> j = k \<or> hget m j \<noteq> None)"
proof -
  let ?v = "case hget m k of Some v \<Rightarrow> v | None \<Rightarrow> 0"
  have v: "unat ?v = tally_of m k" by (simp add: tally_of_def split: option.split)
  then have "(add_profile chk ?v n :: u64 res) = Ok (?v + n)" "unat (?v + n) = tally_of m k + unat n"
    using assms(2) add_profile_Ok [of ?v n] unat_add_bounded [of ?v n] by simp_all
  then have "bump chk k n m = Ok (hput k (?v + n) m)" "tally_of (hput k (?v + n) m) = (tally_of m)(k := tally_of m k + unat n)"
    by (simp_all add: bump_def tally_of_def fun_eq_iff)
  then show ?thesis using assms(1) by (intro exI [of _ "hput k (?v + n) m"]) auto
qed


lemma tally_Nil [simp]: "tally_of [] k = 0"
  by (simp add: tally_of_def)

lemma flush_word_Ok:
  assumes "hwf m" and "word \<noteq> [] \<Longrightarrow> tally_of m word + 1 < 2 ^ 64"
  shows "\<exists>m'. flush_word chk word m = Ok m' \<and> hwf m'
    \<and> (\<forall>w. tally_of m' w = tally_of m w + count_list (if word = [] then [] else [word]) w)
    \<and> (\<forall>w. hget m' w \<noteq> None \<longleftrightarrow> hget m w \<noteq> None \<or> word \<noteq> [] \<and> w = word)"
  using bump_Ok [of m word 1 chk] assms by (cases "word = []") (auto simp: flush_word_def)

lemma pre_tokenize_go_Ok:
  assumes "hwf m" and "\<And>w. tally_of m w + count_list (words_of word bs) w < 2 ^ 64"
  shows "\<exists>m'. pre_tokenize_go chk bs word m = Ok m' \<and> hwf m'
    \<and> (\<forall>w. tally_of m' w = tally_of m w + count_list (words_of word bs) w)
    \<and> (\<forall>w. hget m' w \<noteq> None \<longleftrightarrow> hget m w \<noteq> None \<or> w \<in> set (words_of word bs))"
  using assms
proof (induction bs arbitrary: word m)
  case Nil
  have "word \<noteq> [] \<Longrightarrow> tally_of m word + 1 < 2 ^ 64" using Nil.prems(2) [of word] by simp
  then show ?case using flush_word_Ok [OF Nil.prems(1), of word chk] by (auto split: if_splits)
next
  case (Cons b bs)
  show ?case
  proof (cases "is_boundary b")
    case True
    let ?l = "if word = [] then [] else [word]"
    have room: "tally_of m w + (count_list ?l w + count_list ([b] # words_of [] bs) w) < 2 ^ 64" for w
      using Cons.prems(2) [of w] True by (simp del: count_list.simps add: count_list_append)
    have "word \<noteq> [] \<Longrightarrow> tally_of m word + 1 < 2 ^ 64" using room [of word] by simp
    then obtain m1 where m1: "flush_word chk word m = Ok m1" "hwf m1"
      "\<And>w. tally_of m1 w = tally_of m w + count_list ?l w"
      "\<And>w. hget m1 w \<noteq> None \<longleftrightarrow> hget m w \<noteq> None \<or> word \<noteq> [] \<and> w = word"
      using flush_word_Ok [OF Cons.prems(1), of word] by blast
    have "tally_of m1 [b] + unat (1 :: u64) < 2 ^ 64" using room [of "[b]"] m1(3) [of "[b]"] by (simp split: if_splits)
    then obtain m2 where m2: "bump chk [b] 1 m1 = Ok m2" "hwf m2" "tally_of m2 = (tally_of m1)([b] := tally_of m1 [b] + 1)"
      "\<And>w. hget m2 w \<noteq> None \<longleftrightarrow> w = [b] \<or> hget m1 w \<noteq> None"
      using bump_Ok [OF m1(2), of "[b]" 1 chk] by auto
    have "tally_of m2 w + count_list (words_of [] bs) w < 2 ^ 64" for w
      using room [of w] m1(3) [of w] m2(3) by (auto split: if_splits)
    then obtain m' where m': "pre_tokenize_go chk bs [] m2 = Ok m'" "hwf m'"
      "\<And>w. tally_of m' w = tally_of m2 w + count_list (words_of [] bs) w"
      "\<And>w. hget m' w \<noteq> None \<longleftrightarrow> hget m2 w \<noteq> None \<or> w \<in> set (words_of [] bs)"
      using Cons.IH [OF m2(2)] by blast
    show ?thesis
      using True m1 m2 m' by (intro exI [of _ m']) auto
  next
    case False
    then show ?thesis using Cons.IH [OF Cons.prems(1), of "word @ [b]"] Cons.prems(2) by simp
  qed
qed

text \<open>The number of times a pair stands side by side in a word.\<close>

fun adj :: "'a list \<Rightarrow> 'a \<times> 'a \<Rightarrow> nat" where
  "adj (a # b # ts) p = (if p = (a, b) then 1 else 0) + adj (b # ts) p"
| "adj _ p = 0"

lemma adj_short [simp]: "length ts < 2 \<Longrightarrow> adj ts p = 0"
  by (induction ts p rule: adj.induct) auto

lemma adj_less: "adj ts p \<le> length ts - 1"
  by (induction ts p rule: adj.induct) auto

lemma adj_mem: "0 < adj ts (a, b) \<Longrightarrow> a \<in> set ts \<and> b \<in> set ts"
  by (induction ts "(a, b)" rule: adj.induct) (auto split: if_splits)

lemma count_windows_Ok:
  assumes "hwf m" and "\<And>p. tally_of m p + unat f * adj ts p < 2 ^ 64"
  shows "\<exists>m'. count_windows chk f ts m = Ok m' \<and> hwf m' \<and> (\<forall>p. tally_of m' p = tally_of m p + unat f * adj ts p)
    \<and> (\<forall>p. hget m' p \<noteq> None \<longleftrightarrow> hget m p \<noteq> None \<or> 0 < adj ts p)"
  using assms
proof (induction chk f ts m rule: count_windows.induct)
  case (1 chk f a b ts m)
  have "tally_of m (a, b) + unat f < 2 ^ 64" using "1.prems"(2) [of "(a, b)"] by simp
  then obtain m1 where m1: "bump chk (a, b) f m = Ok m1" "hwf m1" "tally_of m1 = (tally_of m)((a, b) := tally_of m (a, b) + unat f)"
    "\<And>w. hget m1 w \<noteq> None \<longleftrightarrow> w = (a, b) \<or> hget m w \<noteq> None"
    using bump_Ok [OF "1.prems"(1), of "(a, b)" f chk] by auto
  have "tally_of m1 p + unat f * adj (b # ts) p < 2 ^ 64" for p
    using "1.prems"(2) [of p] m1(3) by (simp split: if_splits)
  then obtain m' where m': "count_windows chk f (b # ts) m1 = Ok m'" "hwf m'"
    "\<And>p. tally_of m' p = tally_of m1 p + unat f * adj (b # ts) p"
    "\<And>p. hget m' p \<noteq> None \<longleftrightarrow> hget m1 p \<noteq> None \<or> 0 < adj (b # ts) p"
    using "1.IH" [of m1] m1(2) by blast
  show ?case using m1 m' by (intro exI [of _ m']) auto
qed auto

definition weighted :: "word_entry list \<Rightarrow> u32 \<times> u32 \<Rightarrow> nat" where
  "weighted es p = (\<Sum>e \<leftarrow> es. unat (we_frequency e) * adj (we_tokens e) p)"

lemma weighted_simps [simp]:
  "weighted [] p = 0"
  "weighted (e # es) p = unat (we_frequency e) * adj (we_tokens e) p + weighted es p"
  by (simp_all add: weighted_def)

lemma count_words_Ok:
  assumes "hwf m" and "\<And>p. tally_of m p + weighted es p < 2 ^ 64"
  shows "\<exists>m'. count_words chk es m = Ok m' \<and> hwf m' \<and> (\<forall>p. tally_of m' p = tally_of m p + weighted es p)
    \<and> (\<forall>p. hget m' p \<noteq> None \<longleftrightarrow> hget m p \<noteq> None \<or> (\<exists>e \<in> set es. 0 < adj (we_tokens e) p))"
  using assms
proof (induction es arbitrary: m)
  case (Cons e es)
  show ?case
  proof (cases "length (we_tokens e) < 2")
    case True
    then show ?thesis using Cons.IH [OF Cons.prems(1)] Cons.prems(2) by simp
  next
    case False
    have room: "tally_of m p + unat (we_frequency e) * adj (we_tokens e) p < 2 ^ 64" for p
      using Cons.prems(2) [of p] by simp
    obtain m1 where m1: "count_windows chk (we_frequency e) (we_tokens e) m = Ok m1" "hwf m1"
      "\<And>p. tally_of m1 p = tally_of m p + unat (we_frequency e) * adj (we_tokens e) p"
      "\<And>p. hget m1 p \<noteq> None \<longleftrightarrow> hget m p \<noteq> None \<or> 0 < adj (we_tokens e) p"
      using count_windows_Ok [OF Cons.prems(1) room] by blast
    have "tally_of m1 p + weighted es p < 2 ^ 64" for p
      using Cons.prems(2) [of p] m1(3) [of p] by simp
    then obtain m' where "count_words chk es m1 = Ok m'" "hwf m'" "\<And>p. tally_of m' p = tally_of m1 p + weighted es p"
      "\<And>p. hget m' p \<noteq> None \<longleftrightarrow> hget m1 p \<noteq> None \<or> (\<exists>e \<in> set es. 0 < adj (we_tokens e) p)"
      using Cons.IH [OF m1(2)] by blast
    then show ?thesis using False m1 by (intro exI [of _ m']) auto
  qed
qed simp


lemma max_by_key_max: "max_by_key x xs \<in> set (x # xs) \<and> (\<forall>y \<in> set (x # xs). snd y \<le> snd (max_by_key x xs))"
proof (induction xs arbitrary: x)
  case (Cons y ys)
  let ?b = "if snd x \<le> snd y then y else x"
  have step: "max_by_key x (y # ys) = max_by_key ?b ys" by (simp add: max_by_key_def)
  have "snd x \<le> snd ?b" "snd y \<le> snd ?b" by auto
  then show ?case using Cons.IH [of ?b] unfolding step by (auto intro: order_trans split: if_splits)
qed (simp add: max_by_key_def)


section \<open>Tokens and their bytes\<close>

definition decode :: "(u32, bytes) hmap \<Rightarrow> u32 list \<Rightarrow> bytes" where
  "decode vocab ts = concat (map (bytes_of_token vocab) ts)"

lemma decode_simps [simp]:
  "decode vocab [] = []" "decode vocab (t # ts) = bytes_of_token vocab t @ decode vocab ts"
  by (simp_all add: decode_def)

lemma merge_decode:
  assumes "bytes_of_token vocab n = bytes_of_token vocab (fst p) @ bytes_of_token vocab (snd p)"
  shows "decode vocab (merge_word_tokens ts p n) = decode vocab ts"
  using assms by (induction ts p n rule: merge_word_tokens.induct) auto

lemma merge_mem: "set (merge_word_tokens ts p n) \<subseteq> insert n (set ts)"
  by (induction ts p n rule: merge_word_tokens.induct) auto

lemma merge_length: "length (merge_word_tokens ts p n) \<le> length ts"
  by (induction ts p n rule: merge_word_tokens.induct) auto

lemma merge_shorter: "0 < adj ts p \<Longrightarrow> length (merge_word_tokens ts p n) < length ts"
proof (induction ts p n rule: merge_word_tokens.induct)
  case (1 a b ts p n)
  have "length (merge_word_tokens ts p n) \<le> length ts" by (rule merge_length)
  then show ?case using 1 by (cases p) auto
qed auto

lemma merge_short: "length ts < 2 \<Longrightarrow> merge_word_tokens ts p n = ts"
  by (induction ts p n rule: merge_word_tokens.induct) auto

text \<open>The guard on the length of a word makes no difference.\<close>

lemma merge_entry_eq: "merge_entry p n e = e\<lparr>we_tokens := merge_word_tokens (we_tokens e) p n\<rparr>"
  using merge_short [of "we_tokens e" p n] by (cases e) (auto simp: merge_entry_def)

text \<open>A merge without the code's scan: the pair is replaced at the first place where it stands, and
  again in what follows that place.\<close>

definition pair_places :: "u32 list \<Rightarrow> u32 \<times> u32 \<Rightarrow> nat list" where
  "pair_places ts p = filter (\<lambda>i. (ts ! i, ts ! Suc i) = p) [0..<length ts - 1]"

function naive_merge :: "u32 list \<Rightarrow> u32 \<times> u32 \<Rightarrow> u32 \<Rightarrow> u32 list" where
  "naive_merge ts p n =
     (case pair_places ts p of
        [] \<Rightarrow> ts
      | i # _ \<Rightarrow> take i ts @ n # naive_merge (drop (i + 2) ts) p n)"
  by auto
termination
proof (relation "measure (\<lambda>(ts, _, _). length ts)")
  fix ts :: "u32 list" and p :: "u32 \<times> u32" and n :: u32 and i is'
  assume "pair_places ts p = i # is'"
  then have "i \<in> set (pair_places ts p)" by simp
  then show "((drop (i + 2) ts, p, n), ts, p, n) \<in> measure (\<lambda>(ts, _, _). length ts)"
    by (auto simp: pair_places_def)
qed simp

declare naive_merge.simps [simp del]

lemma places_Cons:
  "pair_places (a # b # ts) p = (if (a, b) = p then [0] else []) @ map Suc (pair_places (b # ts) p)"
proof -
  have "[0..<Suc (length ts)] = 0 # map Suc [0..<length ts]" by (simp add: map_Suc_upt upt_conv_Cons del: upt_Suc)
  then show ?thesis by (auto simp: pair_places_def filter_map comp_def)
qed

lemma naive_merge_eq: "naive_merge ts p n = merge_word_tokens ts p n"
proof (induction ts p n rule: merge_word_tokens.induct)
  case (1 a b ts p n)
  show ?case
  proof (cases "(a, b) = p")
    case True
    then have "naive_merge (a # b # ts) p n = n # naive_merge ts p n"
      by (subst naive_merge.simps) (simp add: places_Cons)
    then show ?thesis using True 1(1) by auto
  next
    case False
    then have "naive_merge (a # b # ts) p n = a # naive_merge (b # ts) p n"
      by (subst (1 2) naive_merge.simps) (simp add: places_Cons split: list.split)
    then show ?thesis using False 1(2) by auto
  qed
qed (subst naive_merge.simps, simp add: pair_places_def)+

text \<open>A run of the merges on every word of the text, in the order of the result: each pair is one that
  occurs most often, at least twice, and the run ends with the rounds or when no pair occurs twice.\<close>

definition pair_count :: "u32 list list \<Rightarrow> u32 \<times> u32 \<Rightarrow> nat" where
  "pair_count ws p = (\<Sum>ts \<leftarrow> ws. adj ts p)"

fun naive_run :: "nat \<Rightarrow> u32 \<Rightarrow> u32 list list \<Rightarrow> (u32 \<times> u32 \<times> u32) list \<Rightarrow> bool" where
  "naive_run n next_id ws [] \<longleftrightarrow> n = 0 \<or> (\<forall>p. pair_count ws p < 2)"
| "naive_run n next_id ws ((a, b, c) # ms) \<longleftrightarrow> 0 < n \<and> c = next_id \<and> 2 \<le> pair_count ws (a, b)
     \<and> (\<forall>p. pair_count ws p \<le> pair_count ws (a, b))
     \<and> naive_run (n - 1) (next_id + 1) (map (\<lambda>ts. naive_merge ts (a, b) c) ws) ms"

definition tokens_total :: "u32 list list \<Rightarrow> nat" where
  "tokens_total ws = (\<Sum>ts \<leftarrow> ws. length ts)"

lemma pair_count_le: "pair_count ws p \<le> tokens_total ws"
  unfolding pair_count_def tokens_total_def
  by (rule sum_list_mono) (use adj_less order_trans diff_le_self in blast)

lemma pair_count_pos: "0 < pair_count ws p \<Longrightarrow> \<exists>ts \<in> set ws. 0 < adj ts p"
  by (induction ws) (auto simp: pair_count_def)

lemma tokens_total_merge_le: "tokens_total (map (\<lambda>ts. merge_word_tokens ts p n) ws) \<le> tokens_total ws"
  by (induction ws) (auto simp: tokens_total_def intro: add_mono merge_length)

lemma tokens_total_merge: "0 < pair_count ws p \<Longrightarrow> tokens_total (map (\<lambda>ts. merge_word_tokens ts p n) ws) < tokens_total ws"
proof (induction ws)
  case (Cons ts ws)
  have le: "tokens_total (map (\<lambda>ts. merge_word_tokens ts p n) ws) \<le> tokens_total ws" by (rule tokens_total_merge_le)
  show ?case
  proof (cases "0 < adj ts p")
    case True
    then show ?thesis using merge_shorter [OF True, of n] le by (simp add: tokens_total_def)
  next
    case False
    then have "0 < pair_count ws p" using Cons.prems by (simp add: pair_count_def)
    then show ?thesis using Cons.IH merge_length [of ts p n] by (simp add: tokens_total_def)
  qed
qed (simp add: pair_count_def)


section \<open>Frequencies\<close>

text \<open>The unique words \<open>fs\<close> with their frequencies stand for the list \<open>C\<close> of all words.\<close>

definition stands_for :: "(bytes \<times> u64) list \<Rightarrow> bytes list \<Rightarrow> bool" where
  "stands_for fs C \<longleftrightarrow> fst ` set fs = set C \<and> (\<forall>g :: bytes \<Rightarrow> nat. (\<Sum>(w, f) \<leftarrow> fs. unat f * g w) = (\<Sum>w \<leftarrow> C. g w))"

lemma stands_for_table:
  assumes "hwf m" and "\<And>w. tally_of m w = count_list C w" and "\<And>w. hget m w \<noteq> None \<longleftrightarrow> w \<in> set C"
  shows "stands_for m C"
proof -
  have keys: "fst ` set m = set C" using set_hkeys [of m] assms(3) by (auto simp: hkeys_def)
  have "(\<Sum>(w, f) \<leftarrow> m. unat f * g w) = (\<Sum>w \<leftarrow> C. g w)" for g :: "bytes \<Rightarrow> nat"
  proof -
    have "(\<Sum>(w, f) \<leftarrow> m. unat f * g w) = (\<Sum>w \<leftarrow> map fst m. tally_of m w * g w)"
    proof -
      have "unat f = tally_of m w" if "(w, f) \<in> set m" for w f
        using mem_hget [OF assms(1) that] by (simp add: tally_of_def)
      then have "map (\<lambda>(w, f). unat f * g w) m = map (\<lambda>w. tally_of m w * g w) (map fst m)" by auto
      then show ?thesis by (simp only:)
    qed
    also have "\<dots> = (\<Sum>w \<in> set C. tally_of m w * g w)"
      using assms(1) keys sum_list_distinct_conv_sum_set [of "map fst m" "\<lambda>w. tally_of m w * g w"] by (simp add: hwf_def)
    also have "\<dots> = (\<Sum>w \<leftarrow> C. g w)" by (simp add: sum_list_map_eq_sum_count assms(2))
    finally show ?thesis .
  qed
  then show ?thesis using keys by (simp add: stands_for_def)
qed

lemma stands_for_perm:
  assumes "stands_for fs C" and "mset gs = mset fs"
  shows "stands_for gs C"
proof -
  have "(\<Sum>x \<leftarrow> gs. h x) = (\<Sum>x \<leftarrow> fs. h x)" for h :: "bytes \<times> u64 \<Rightarrow> nat"
    using assms(2) by (metis mset_map sum_mset_sum_list)
  moreover have "set gs = set fs" using assms(2) by (rule mset_eq_setD)
  ultimately show ?thesis using assms(1) by (simp add: stands_for_def)
qed

definition entries :: "(bytes \<times> u64) list \<Rightarrow> (bytes \<Rightarrow> u32 list) \<Rightarrow> word_entry list" where
  "entries fs E = map (\<lambda>(w, f). \<lparr>we_tokens = E w, we_frequency = f\<rparr>) fs"

lemma entries_merge: "map (merge_entry p n) (entries fs E) = entries fs (\<lambda>w. merge_word_tokens (E w) p n)"
  by (auto simp: entries_def merge_entry_eq)

lemma weighted_entries: "stands_for fs C \<Longrightarrow> weighted (entries fs E) p = pair_count (map E C) p"
proof -
  assume "stands_for fs C"
  moreover have "weighted (entries fs E) p = (\<Sum>(w, f) \<leftarrow> fs. unat f * adj (E w) p)"
    by (simp add: weighted_def entries_def comp_def split_def)
  ultimately show ?thesis by (simp add: stands_for_def pair_count_def comp_def)
qed



section \<open>The rounds\<close>

definition id_range :: "(u32, bytes) hmap \<Rightarrow> u32 \<Rightarrow> nat \<Rightarrow> bool" where
  "id_range vocab offset n \<longleftrightarrow> (\<forall>t. hget vocab t \<noteq> None \<longleftrightarrow> unat offset \<le> unat t \<and> unat t < n)"

definition merges_spelled :: "(u32, bytes) hmap \<Rightarrow> (u32 \<times> u32 \<times> u32) list \<Rightarrow> bool" where
  "merges_spelled vocab ms \<longleftrightarrow> (\<forall>(a, b, c) \<in> set ms. hget vocab a \<noteq> None \<and> hget vocab b \<noteq> None
     \<and> hget vocab c = Some (bytes_of_token vocab a @ bytes_of_token vocab b))"

definition extends :: "(u32, bytes) hmap \<Rightarrow> (u32, bytes) hmap \<Rightarrow> bool" where
  "extends vocab vocab' \<longleftrightarrow> (\<forall>t. hget vocab t \<noteq> None \<longrightarrow> hget vocab' t = hget vocab t)"

lemma extends_bytes: "extends v v' \<Longrightarrow> hget v t \<noteq> None \<Longrightarrow> bytes_of_token v' t = bytes_of_token v t"
  by (simp add: extends_def bytes_of_token_def)

lemma extends_trans: "extends v v' \<Longrightarrow> extends v' v'' \<Longrightarrow> extends v v''"
  by (simp add: extends_def)

text \<open>One round: the pair it takes, from any order of iteration.\<close>

lemma round_pair:
  assumes C: "stands_for fs C" and small: "tokens_total (map E C) < 2 ^ 64"
    and perm: "\<And>k xs. mset (pair_order k xs) = mset xs"
  shows "\<exists>counts. count_weighted_pairs chk (entries fs E) = Ok counts
    \<and> (case pair_order k counts of
         [] \<Rightarrow> \<forall>p. pair_count (map E C) p = 0
       | c # cs \<Rightarrow> unat (snd (max_by_key c cs)) = pair_count (map E C) (fst (max_by_key c cs))
           \<and> (\<forall>p. pair_count (map E C) p \<le> pair_count (map E C) (fst (max_by_key c cs))))"
proof -
  have w: "weighted (entries fs E) p = pair_count (map E C) p" for p by (rule weighted_entries [OF C])
  have "tally_of [] p + weighted (entries fs E) p < 2 ^ 64" for p
    using w pair_count_le [of "map E C" p] small by simp
  then obtain m where m: "count_words chk (entries fs E) [] = Ok m" "hwf m"
    "\<And>p. tally_of m p = pair_count (map E C) p"
    "\<And>p. hget m p \<noteq> None \<longleftrightarrow> (\<exists>e \<in> set (entries fs E). 0 < adj (we_tokens e) p)"
    using count_words_Ok [of "[]" "entries fs E" chk] w by auto
  have some: "\<exists>v. (p, v) \<in> set m \<and> unat v = pair_count (map E C) p" if "0 < pair_count (map E C) p" for p
  proof -
    have "0 < tally_of m p" using m(3) that by simp
    then obtain v where "hget m p = Some v" "unat v = tally_of m p" by (auto simp: tally_of_def split: option.splits)
    then show ?thesis using hget_mem [of m p v] m(3) by auto
  qed
  have val: "unat v = pair_count (map E C) p" if "(p, v) \<in> set m" for p v
    using mem_hget [OF m(2) that] m(3) [of p] by (simp add: tally_of_def)
  have set: "set (pair_order k m) = set m" using perm by (rule mset_eq_setD)
  show ?thesis
  proof (cases "pair_order k m")
    case Nil
    then have "m = []" using set by simp
    then have "pair_count (map E C) p = 0" for p using some [of p] by fastforce
    then show ?thesis using m(1) Nil by (simp add: count_weighted_pairs_def)
  next
    case (Cons c cs)
    let ?b = "max_by_key c cs"
    have b: "?b \<in> set m" "\<And>y. y \<in> set m \<Longrightarrow> snd y \<le> snd ?b"
      using max_by_key_max [of c cs] set Cons by auto
    have top: "unat (snd ?b) = pair_count (map E C) (fst ?b)" using val [of "fst ?b" "snd ?b"] b(1) by simp
    have "pair_count (map E C) p \<le> pair_count (map E C) (fst ?b)" for p
    proof (cases "pair_count (map E C) p = 0")
      case False
      then have "0 < pair_count (map E C) p" by simp
      then obtain v where "(p, v) \<in> set m" "unat v = pair_count (map E C) p" using some by blast
      then show ?thesis using b(2) [of "(p, v)"] top by (simp add: word_le_nat_alt)
    qed simp
    then show ?thesis using m(1) Cons top by (simp add: count_weighted_pairs_def)
  qed
qed

lemma merge_loop_runs:
  assumes C: "stands_for fs C" and perm: "\<And>k xs. mset (pair_order k xs) = mset xs"
    and small: "tokens_total (map E C) < 2 ^ 64"
    and room: "unat next_id + min n (tokens_total (map E C)) < 2 ^ 32"
    and range: "id_range vocab offset (unat next_id)" and low: "unat offset \<le> unat next_id"
    and toks: "\<forall>w \<in> set C. \<forall>t \<in> set (E w). hget vocab t \<noteq> None"
  shows "\<exists>ms vocab'. merge_loop chk pair_order n (entries fs E) vocab merges next_id = Ok (merges @ ms, vocab')
    \<and> naive_run n next_id (map E C) ms \<and> extends vocab vocab' \<and> merges_spelled vocab' ms
    \<and> id_range vocab' offset (unat next_id + length ms) \<and> length ms \<le> min n (tokens_total (map E C))"
  using small room range low toks
proof (induction n arbitrary: E vocab merges next_id)
  case 0
  then show ?case by (intro exI [of _ "[]"] exI [of _ vocab]) (simp add: extends_def merges_spelled_def)
next
  case (Suc n)
  let ?W = "map E C"
  have stop: "\<exists>ms vocab'. Ok (merges, vocab) = Ok (merges @ ms, vocab') \<and> naive_run (Suc n) next_id ?W ms
      \<and> extends vocab vocab' \<and> merges_spelled vocab' ms \<and> id_range vocab' offset (unat next_id + length ms)
      \<and> length ms \<le> min (Suc n) (tokens_total ?W)" if "\<And>p. pair_count ?W p < 2"
    using that Suc.prems(3) by (intro exI [of _ "[]"] exI [of _ vocab]) (simp add: extends_def merges_spelled_def)
  obtain counts where counts: "count_weighted_pairs chk (entries fs E) = Ok counts"
    "case pair_order (length merges) counts of
         [] \<Rightarrow> \<forall>p. pair_count ?W p = 0
       | c # cs \<Rightarrow> unat (snd (max_by_key c cs)) = pair_count ?W (fst (max_by_key c cs))
           \<and> (\<forall>p. pair_count ?W p \<le> pair_count ?W (fst (max_by_key c cs)))"
    using round_pair [where k = "length merges" and pair_order = pair_order, OF C Suc.prems(1) perm] by blast
  show ?case
  proof (cases "pair_order (length merges) counts")
    case Nil
    then have "pair_count ?W p < 2" for p using counts(2) by (cases p) simp
    then show ?thesis using counts(1) Nil stop by simp
  next
    case (Cons c cs)
    obtain a b v where best: "max_by_key c cs = ((a, b), v)" by (metis prod.exhaust)
    have v: "unat v = pair_count ?W (a, b)" using counts(2) Cons best by simp
    have top: "pair_count ?W p \<le> pair_count ?W (a, b)" for p using counts(2) Cons best by (cases p) simp
    show ?thesis
    proof (cases "v < 2")
      case True
      then have "unat v < 2" by (simp add: word_less_nat_alt)
      then have "pair_count ?W p < 2" for p using v top [of p] by linarith
      then show ?thesis using counts(1) Cons best True stop by simp
    next
      case False
      then have two: "2 \<le> pair_count ?W (a, b)" using v by (simp add: word_less_nat_alt)
      let ?E = "\<lambda>w. merge_word_tokens (E w) (a, b) next_id" and ?v1 = "hput next_id (bytes_of_token vocab a @ bytes_of_token vocab b) vocab"
      have less: "tokens_total (map ?E C) < tokens_total ?W"
        using tokens_total_merge [of ?W "(a, b)" next_id] two by (simp add: comp_def)
      have r: "unat next_id + 1 < 2 ^ 32" "0 < tokens_total ?W" using Suc.prems(2) less by simp_all
      have add: "add_profile chk next_id 1 = (Ok (next_id + 1) :: u32 res)" "unat (next_id + 1) = unat next_id + 1"
        using r(1) add_profile_Ok [of next_id 1] unat_add_bounded [of next_id 1] by simp_all
      have fresh: "hget vocab next_id = None"
        using Suc.prems(3) by (auto simp: id_range_def)
      have ext: "extends vocab ?v1" using fresh by (auto simp: extends_def)
      have range: "id_range ?v1 offset (unat (next_id + 1))"
        using Suc.prems(3,4) add(2) by (auto simp: id_range_def less_Suc_eq word_unat_eq_iff)
      have toks: "\<forall>w \<in> set C. \<forall>t \<in> set (?E w). hget ?v1 t \<noteq> None"
        using merge_mem [of _ "(a, b)" next_id] Suc.prems(5) by fastforce
      have room: "unat (next_id + 1) + min n (tokens_total (map ?E C)) < 2 ^ 32"
        using Suc.prems(2) less add(2) by linarith
      obtain ms vocab' where ms: "merge_loop chk pair_order n (entries fs ?E) ?v1 (merges @ [(a, b, next_id)]) (next_id + 1)
            = Ok ((merges @ [(a, b, next_id)]) @ ms, vocab')"
        "naive_run n (next_id + 1) (map ?E C) ms" "extends ?v1 vocab'" "merges_spelled vocab' ms"
        "id_range vocab' offset (unat (next_id + 1) + length ms)" "length ms \<le> min n (tokens_total (map ?E C))"
        using Suc.IH [of ?E "next_id + 1" ?v1 "merges @ [(a, b, next_id)]"] Suc.prems(1,4) less room range toks add(2) by auto
      obtain ts where ts: "ts \<in> set ?W" "0 < adj ts (a, b)" using pair_count_pos [of ?W "(a, b)"] two by auto
      then obtain w where "w \<in> set C" "a \<in> set (E w)" "b \<in> set (E w)" using adj_mem [of ts a b] by auto
      then have ab: "hget vocab a \<noteq> None" "hget vocab b \<noteq> None" using Suc.prems(5) by blast+
      have ext': "extends vocab vocab'" using extends_trans [OF ext ms(3)] .
      have "hget vocab' next_id = Some (bytes_of_token vocab a @ bytes_of_token vocab b)"
        using ms(3) by (simp add: extends_def)
      then have spelled: "merges_spelled vocab' ((a, b, next_id) # ms)"
        using ms(4) ext' ab extends_bytes [OF ext'] by (simp add: merges_spelled_def extends_def)
      have "naive_run (Suc n) next_id ?W ((a, b, next_id) # ms)"
        using two top ms(2) by (simp add: comp_def naive_merge_eq)
      moreover have "merge_loop chk pair_order (Suc n) (entries fs E) vocab merges next_id
          = merge_loop chk pair_order n (entries fs ?E) ?v1 (merges @ [(a, b, next_id)]) (next_id + 1)"
        using counts(1) Cons best False add(1) entries_merge [of "(a, b)" next_id fs E] by (simp add: Let_def)
      ultimately show ?thesis
        using ms(1,5,6) less ext' spelled add(2) by (intro exI [of _ "(a, b, next_id) # ms"] exI [of _ vocab']) simp
    qed
  qed
qed



section \<open>Training\<close>

definition base_tokens :: "u32 \<Rightarrow> bytes \<Rightarrow> u32 list" where
  "base_tokens offset w = map (\<lambda>b. ucast b + offset) w"

lemma byte_token:
  assumes "255 + unat offset < 2 ^ 32"
  shows "add_profile chk (ucast (b :: byte)) offset = (Ok (ucast b + offset) :: u32 res)"
    and "unat (ucast b + offset) = unat b + unat offset"
proof -
  have "unat (ucast b :: u32) + unat offset < 2 ^ 32" using byte_bound [of b] byte_widened [of b] assms by linarith
  then show "add_profile chk (ucast b) offset = (Ok (ucast b + offset) :: u32 res)" "unat (ucast b + offset) = unat b + unat offset"
    using unat_add_bounded [of "ucast b :: u32" offset] by (simp_all add: add_profile_def byte_widened)
qed

lemma word_tokens_Ok: "255 + unat offset < 2 ^ 32 \<Longrightarrow> word_tokens chk offset w = Ok (base_tokens offset w)"
  unfolding word_tokens_def base_tokens_def by (rule mapR_Ok) (rule byte_token)

lemma initial_words_Ok:
  "255 + unat offset < 2 ^ 32 \<Longrightarrow> initial_words chk offset fs = Ok (entries fs (base_tokens offset))"
  unfolding initial_words_def entries_def by (rule mapR_Ok) (auto simp: word_tokens_Ok)

lemma byte_vocab_Ok:
  assumes "255 + unat offset < 2 ^ 32" and "distinct bs"
  shows "\<exists>v. byte_vocab chk offset bs vocab = Ok v
    \<and> (\<forall>t. hget v t = (if \<exists>b \<in> set bs. t = ucast b + offset then Some [of_nat (unat t - unat offset)] else hget vocab t))"
  using assms(2)
proof (induction bs arbitrary: vocab)
  case (Cons b bs)
  obtain v where v: "byte_vocab chk offset bs (hput (ucast b + offset) [b] vocab) = Ok v"
    "\<And>t. hget v t = (if \<exists>b \<in> set bs. t = ucast b + offset then Some [of_nat (unat t - unat offset)]
        else hget (hput (ucast b + offset) [b] vocab) t)"
    using Cons.IH [of "hput (ucast b + offset) [b] vocab"] Cons.prems by auto
  have "of_nat (unat (ucast b + offset :: u32) - unat offset) = b" using byte_token(2) [OF assms(1), of b] by simp
  then show ?case using v byte_token(1) [OF assms(1), of chk b] by (intro exI [of _ v]) auto
qed simp

lemma set_all_bytes: "distinct all_bytes" "b \<in> set all_bytes"
proof -
  have "inj_on (of_nat :: nat \<Rightarrow> byte) {0..<256}"
    by (rule inj_on_inverseI [of _ unat]) (simp add: unat_of_nat)
  then show "distinct all_bytes" by (simp add: all_bytes_def distinct_map)
  show "b \<in> set all_bytes" by (auto simp: all_bytes_def byte_bound intro: image_eqI [of _ _ "unat b"])
qed

lemma start_vocab:
  assumes "256 + unat offset < 2 ^ 32"
  shows "\<exists>v. byte_vocab chk offset all_bytes [] = Ok v \<and> id_range v offset (256 + unat offset)
    \<and> (\<forall>b. hget v (ucast b + offset) = Some [b])"
proof -
  have o: "255 + unat offset < 2 ^ 32" using assms by simp
  obtain v where v: "byte_vocab chk offset all_bytes [] = Ok v"
    "\<And>t. hget v t = (if \<exists>b :: byte. t = ucast b + offset then Some [of_nat (unat t - unat offset)] else None)"
    using byte_vocab_Ok [OF o set_all_bytes(1), of chk "[]"] set_all_bytes(2) by auto
  have "(\<exists>b :: byte. t = ucast b + offset) \<longleftrightarrow> unat offset \<le> unat t \<and> unat t < 256 + unat offset" for t
  proof
    assume "\<exists>b :: byte. t = ucast b + offset"
    then show "unat offset \<le> unat t \<and> unat t < 256 + unat offset"
      using byte_token(2) [OF o] byte_bound by auto
  next
    assume t: "unat offset \<le> unat t \<and> unat t < 256 + unat offset"
    let ?b = "of_nat (unat t - unat offset) :: byte"
    have "unat t - unat offset < 256" using t by linarith
    then have "unat ?b = unat t - unat offset" by (simp add: unat_of_nat)
    then have "unat (ucast ?b + offset) = unat t" using byte_token(2) [OF o, of ?b] t by simp
    then have "t = ucast ?b + offset" by (simp add: word_unat_eq_iff)
    then show "\<exists>b :: byte. t = ucast b + offset" ..
  qed
  then have "id_range v offset (256 + unat offset)" using v(2) by (simp add: id_range_def)
  moreover have "hget v (ucast b + offset) = Some [b]" for b
    using v(2) [of "ucast b + offset"] byte_token(2) [OF o, of b] by auto
  ultimately show ?thesis using v(1) by blast
qed

lemma pre_tokenize_Ok:
  assumes "length text < 2 ^ 63"
  shows "\<exists>m. pre_tokenize chk text = Ok m \<and> stands_for m (words_of [] text)"
proof -
  let ?C = "words_of [] text"
  have "\<forall>w \<in> set ws. w \<noteq> [] \<Longrightarrow> length ws \<le> length (concat ws)" for ws :: "bytes list"
    by (induction ws) (auto simp: Suc_le_eq add_strict_increasing)
  then have "length ?C \<le> length (concat ?C)" using words_nonempty by blast
  then have "length ?C < 2 ^ 63" using assms by (simp add: words_concat)
  then have "count_list ?C w < 2 ^ 64" for w using count_le_length [of ?C w] by simp
  then show ?thesis
    using pre_tokenize_go_Ok [of "[]" "[]" "text" chk] stands_for_table [of _ ?C] by (auto simp: pre_tokenize_def)
qed

lemma base_total: "tokens_total (map (base_tokens offset) (words_of [] text)) = length text"
proof -
  have "tokens_total (map (base_tokens offset) ws) = length (concat ws)" for ws
    by (induction ws) (simp_all add: tokens_total_def base_tokens_def)
  then show ?thesis by (simp add: words_concat)
qed


text \<open>The orders of iteration visit every entry once.\<close>

definition iteration_orders ::
  "((bytes \<times> u64) list \<Rightarrow> (bytes \<times> u64) list) \<Rightarrow> (nat \<Rightarrow> ((u32 \<times> u32) \<times> u64) list \<Rightarrow> ((u32 \<times> u32) \<times> u64) list) \<Rightarrow> bool" where
  "iteration_orders word_order pair_order \<longleftrightarrow>
     (\<forall>xs. mset (word_order xs) = mset xs) \<and> (\<forall>k xs. mset (pair_order k xs) = mset xs)"

lemma train_bpe_Ok:
  assumes len: "length text < 2 ^ 63" and orders: "iteration_orders word_order pair_order"
    and room: "256 + special + min (vocab_size - (256 + special)) (length text) < 2 ^ 32"
  shows "\<exists>r. train_bpe chk word_order pair_order text vocab_size special = Ok r
    \<and> naive_run (vocab_size - (256 + special)) (256 + of_nat special) (map (base_tokens (of_nat special)) (words_of [] text)) (bp_merges r)
    \<and> merges_spelled (bp_vocab r) (bp_merges r) \<and> (\<forall>b. hget (bp_vocab r) (ucast b + of_nat special) = Some [b])
    \<and> id_range (bp_vocab r) (of_nat special) (256 + special + length (bp_merges r))
    \<and> bp_num_merges r = length (bp_merges r) \<and> bp_num_merges r \<le> min (vocab_size - (256 + special)) (length text)"
proof -
  let ?off = "of_nat special :: u32" and ?n = "vocab_size - (256 + special)"
  have off: "unat ?off = special" using room unat_of_nat_u32 [of special] by simp
  have o: "256 + unat ?off < 2 ^ 32" using room off by simp
  obtain m where m: "pre_tokenize chk text = Ok m" "stands_for m (words_of [] text)" using pre_tokenize_Ok [OF len] by blast
  have words: "mset (word_order m) = mset m" and pairs: "mset (pair_order k xs) = mset xs" for k xs
    using orders by (simp_all add: iteration_orders_def)
  have C: "stands_for (word_order m) (words_of [] text)" using stands_for_perm [OF m(2) words] .
  obtain v where v: "byte_vocab chk ?off all_bytes [] = Ok v" "id_range v ?off (256 + unat ?off)"
    "\<And>b. hget v (ucast b + ?off) = Some [b]"
    using start_vocab [OF o] by blast
  have next_id: "add_profile chk 256 ?off = (Ok (256 + ?off) :: u32 res)" "unat (256 + ?off) = 256 + special"
    using o off add_profile_Ok [of 256 ?off] unat_add_bounded [of 256 ?off] by simp_all
  have h1: "tokens_total (map (base_tokens ?off) (words_of [] text)) < 2 ^ 64" using len by (simp add: base_total)
  have h2: "unat (256 + ?off) + min ?n (tokens_total (map (base_tokens ?off) (words_of [] text))) < 2 ^ 32"
    using room next_id(2) by (simp add: base_total)
  have h3: "id_range v ?off (unat (256 + ?off))" "unat ?off \<le> unat (256 + ?off)" using v(2) next_id(2) off by simp_all
  have h5: "\<forall>w \<in> set (words_of [] text). \<forall>t \<in> set (base_tokens ?off w). hget v t \<noteq> None"
    using v(3) by (auto simp: base_tokens_def)
  obtain ms v' where run: "merge_loop chk pair_order ?n (entries (word_order m) (base_tokens ?off)) v [] (256 + ?off) = Ok ([] @ ms, v')"
    "naive_run ?n (256 + ?off) (map (base_tokens ?off) (words_of [] text)) ms" "extends v v'" "merges_spelled v' ms"
    "id_range v' ?off (unat (256 + ?off) + length ms)" "length ms \<le> min ?n (length text)"
    using merge_loop_runs [where merges = "[]" and pair_order = pair_order, OF C pairs h1 h2 h3 h5] unfolding base_total by blast
  have "train_bpe chk word_order pair_order text vocab_size special = Ok \<lparr>bp_merges = ms, bp_vocab = v', bp_num_merges = length ms\<rparr>"
    using room m(1) initial_words_Ok [of ?off chk "word_order m"] v(1) next_id(1) run(1) off
    by (simp add: train_bpe_def Let_def)
  then show ?thesis
    using run(2-6) v(3) next_id(2) by (auto simp: extends_def)
qed

definition encode :: "nat \<Rightarrow> bpe_result \<Rightarrow> bytes \<Rightarrow> u32 list" where
  "encode special r w = fold (\<lambda>(a, b, c) ts. merge_word_tokens ts (a, b) c) (bp_merges r) (base_tokens (of_nat special) w)"

lemma encode_decode:
  assumes "merges_spelled v ms"
  shows "decode v (fold (\<lambda>(a, b, c) ts. merge_word_tokens ts (a, b) c) ms ts) = decode v ts"
  using assms
proof (induction ms arbitrary: ts)
  case (Cons m ms)
  obtain a b c where m: "m = (a, b, c)" by (metis prod.exhaust)
  have "bytes_of_token v c = bytes_of_token v (fst (a, b)) @ bytes_of_token v (snd (a, b))"
    using Cons.prems m by (simp add: merges_spelled_def bytes_of_token_def)
  then have "decode v (merge_word_tokens ts (a, b) c) = decode v ts" by (rule merge_decode)
  moreover have "merges_spelled v ms" using Cons.prems by (simp add: merges_spelled_def)
  ultimately show ?case using Cons.IH m by simp
qed simp

section \<open>An example\<close>

abbreviation demo_corpus :: bytes where "demo_corpus \<equiv> [97, 97, 98, 97, 97]"

abbreviation demo_train :: "nat \<Rightarrow> bpe_result res" where
  "demo_train n \<equiv> train_bpe False (\<lambda>xs. xs) (\<lambda>_ xs. xs) demo_corpus n 2"

lemma demo_orders: "iteration_orders (\<lambda>xs. xs) (\<lambda>_ xs. xs)"
  by (simp add: iteration_orders_def)

lemma demo_trained: obtains r where "demo_train 300 = Ok r"
  using train_bpe_Ok [OF _ demo_orders, of demo_corpus 2 300] by auto


section \<open>Properties\<close>

text \<open>C23: A trained tokenizer is lossless, in builds with and without overflow checks, when the identifiers
  have room. Whatever the order in which the hash maps were iterated, for
  every byte string, also one that the text does not contain, applying the merges in order to its bytes
  and spelling the resulting tokens with the vocabulary gives the string back.\<close>

theorem trained_tokenizer_lossless:
  assumes "length text < 2 ^ 63" and "iteration_orders word_order pair_order"
    and "256 + special + min (vocab_size - (256 + special)) (length text) < 2 ^ 32"
    and "train_bpe chk word_order pair_order text vocab_size special = Ok r"
  shows "decode (bp_vocab r) (encode special r w) = w"
proof -
  have r: "merges_spelled (bp_vocab r) (bp_merges r)" "\<And>b. hget (bp_vocab r) (ucast b + of_nat special) = Some [b]"
    using train_bpe_Ok [OF assms(1-3), of chk] assms(4) by auto
  have "decode (bp_vocab r) (base_tokens (of_nat special) w) = w"
    using r(2) by (induction w) (simp_all add: base_tokens_def bytes_of_token_def)
  then show ?thesis using encode_decode [OF r(1)] by (simp add: encode_def)
qed

theorem trained_tokenizer_lossless_witness:
  "\<exists>r. demo_train 300 = Ok r \<and> decode (bp_vocab r) (encode 2 r [97, 97, 98]) = [97, 97, 98]"
proof -
  obtain r where r: "demo_train 300 = Ok r" by (rule demo_trained)
  show ?thesis using trained_tokenizer_lossless [OF _ demo_orders _ r, of "[97, 97, 98]"] r by simp
qed

text \<open>C13: Training on the unique words weighted by their frequencies is training on the whole text. The
  merges of the result are a run of the greedy algorithm on the list of all words of the text: every
  merge takes a pair that occurs most often in the current words, at least twice, under the next
  identifier, and the run ends only after the requested number of merges or when no pair occurs twice.
  A merge replaces the pair wherever it stands, from left to right. This holds in builds with and without
  overflow checks, when the identifiers have room.\<close>

theorem training_is_greedy:
  assumes "length text < 2 ^ 63" and "iteration_orders word_order pair_order"
    and "256 + special + min (vocab_size - (256 + special)) (length text) < 2 ^ 32"
    and "train_bpe chk word_order pair_order text vocab_size special = Ok r"
  shows "naive_run (vocab_size - (256 + special)) (256 + of_nat special)
    (map (base_tokens (of_nat special)) (words_of [] text)) (bp_merges r)"
  using train_bpe_Ok [OF assms(1-3), of chk] assms(4) by auto

theorem training_is_greedy_witness:
  "\<exists>r. demo_train 300 = Ok r \<and> naive_run 42 258 [[99, 99, 100, 99, 99]] (bp_merges r) \<and> bp_merges r \<noteq> []"
proof -
  obtain r where r: "demo_train 300 = Ok r" by (rule demo_trained)
  have run: "naive_run 42 258 [[99, 99, 100, 99, 99]] (bp_merges r)"
    using training_is_greedy [OF _ demo_orders _ r] by (simp add: base_tokens_def is_boundary_def)
  moreover have "pair_count [[99, 99, 100, 99, 99]] (99, 99) = 2" by (simp add: pair_count_def)
  then have "\<not> (\<forall>p. pair_count [[99, 99, 100, 99, 99]] p < 2)" by (metis less_irrefl)
  then have "bp_merges r \<noteq> []" using run by auto
  ultimately show ?thesis using r by blast
qed

lemma overflow_panics:
  assumes "length text < 2 ^ 63" and "2 ^ 32 \<le> 256 + special" and "special < 2 ^ 32"
  shows "train_bpe True word_order pair_order text vocab_size special = Panic"
proof -
  let ?off = "of_nat special :: u32"
  have nerr: "word_tokens True ?off w \<noteq> Err e" for w e
    unfolding word_tokens_def by (induction w) (auto simp: add_profile_def bindR_def split: outcome.splits)
  have "initial_words True ?off fs \<noteq> Err e" for fs e
    unfolding initial_words_def using nerr by (induction fs) (auto simp: bindR_def split: outcome.splits prod.splits)
  moreover have "byte_vocab True ?off bs v \<noteq> Err e" for bs v e
    by (induction bs arbitrary: v) (auto simp: add_profile_def bindR_def)
  moreover have "(add_profile True 256 ?off :: u32 res) = Panic"
    using assms(2,3) unat_of_nat_u32 [of special] by (simp add: add_profile_def)
  moreover obtain m where "pre_tokenize True text = Ok m" using pre_tokenize_Ok [OF assms(1)] by blast
  ultimately show ?thesis
    by (auto simp: train_bpe_def Let_def bindR_def split: outcome.splits)
qed

text \<open>Without checks the byte tokens go around the end of the identifiers.\<close>

lemma wrapped_vocab:
  "\<exists>v. byte_vocab False offset bs vocab = Ok v
    \<and> (\<forall>t. hget v t = (if \<exists>b \<in> set bs. t = ucast b + offset then Some [ucast (t - offset)] else hget vocab t))"
proof (induction bs arbitrary: vocab)
  case (Cons b bs)
  obtain v where "byte_vocab False offset bs (hput (ucast b + offset) [b] vocab) = Ok v"
    "\<And>t. hget v t = (if \<exists>b \<in> set bs. t = ucast b + offset then Some [ucast (t - offset)]
        else hget (hput (ucast b + offset) [b] vocab) t)"
    using Cons.IH [of "hput (ucast b + offset) [b] vocab"] by auto
  moreover have "ucast (ucast b :: u32) = b" by (simp add: word_unat_eq_iff unsigned_ucast_eq take_bit_word_eq_self)
  ultimately show ?case by (intro exI [of _ v]) auto
qed simp

lemma overflow_wraps:
  assumes "length text < 2 ^ 63" and "vocab_size \<le> 256 + special" and "256 + special < 2 ^ 64"
  shows "\<exists>r. train_bpe False word_order pair_order text vocab_size special = Ok r
    \<and> bp_merges r = [] \<and> bp_num_merges r = 0
    \<and> (\<forall>t. hget (bp_vocab r) t = (if \<exists>b :: byte. t = ucast b + of_nat special then Some [ucast (t - of_nat special)] else None))"
proof -
  let ?off = "of_nat special :: u32"
  obtain m where m: "pre_tokenize False text = Ok m" using pre_tokenize_Ok [OF assms(1)] by blast
  have "word_tokens False ?off w = Ok (base_tokens ?off w)" for w
    unfolding word_tokens_def base_tokens_def by (rule mapR_Ok) simp
  then have words: "initial_words False ?off fs = Ok (entries fs (base_tokens ?off))" for fs
    unfolding initial_words_def entries_def by (intro mapR_Ok) auto
  obtain v where v: "byte_vocab False ?off all_bytes [] = Ok v"
    "\<And>t. hget v t = (if \<exists>b :: byte. t = ucast b + ?off then Some [ucast (t - ?off)] else None)"
    using wrapped_vocab [of ?off all_bytes "[]"] set_all_bytes(2) by auto
  have "train_bpe False word_order pair_order text vocab_size special
      = Ok \<lparr>bp_merges = [], bp_vocab = v, bp_num_merges = 0\<rparr>"
    using m words v(1) assms(2,3) by (simp add: train_bpe_def Let_def)
  then show ?thesis using v(2) by simp
qed

text \<open>C31: Training through the C interface always returns. If the 256 byte tokens fit above the reserved
  identifiers, it does not panic, the number of merges is at most what the size of the vocabulary asks
  for and at most the length of the text, and the identifiers of the vocabulary are exactly those from the
  first byte token on, without gaps. If they do not fit, a build with overflow checks panics, and one without
  them, such as the release build that the Python side loads, returns no merges and a vocabulary whose identifiers
  go around the end of \<open>u32\<close> to those reserved.\<close>

theorem training_returns:
  fixes vocab_size special :: u32
  assumes "length text < 2 ^ 63" and "iteration_orders word_order pair_order"
    and "\<And>r. to_json r \<noteq> Panic"
  shows "(sodl_bpe_train chk to_json word_order pair_order text vocab_size special = Panic
      \<longleftrightarrow> chk \<and> 2 ^ 32 \<le> 256 + unat special)
    \<and> (256 + unat special < 2 ^ 32 \<longrightarrow> (\<exists>r. train_bpe chk word_order pair_order text (unat vocab_size) (unat special) = Ok r
        \<and> bp_num_merges r = length (bp_merges r)
        \<and> bp_num_merges r \<le> min (unat vocab_size - (256 + unat special)) (length text)
        \<and> (\<forall>t. hget (bp_vocab r) t \<noteq> None \<longleftrightarrow> unat special \<le> unat t \<and> unat t < 256 + unat special + bp_num_merges r)))
    \<and> (2 ^ 32 \<le> 256 + unat special \<longrightarrow> (\<exists>r. train_bpe False word_order pair_order text (unat vocab_size) (unat special) = Ok r
        \<and> bp_merges r = [] \<and> bp_num_merges r = 0
        \<and> (\<forall>t. hget (bp_vocab r) t = (if \<exists>b :: byte. t = ucast b + special then Some [ucast (t - special)] else None))))"
proof (cases "2 ^ 32 \<le> 256 + unat special")
  case True
  have off: "(of_nat (unat special) :: u32) = special" by simp
  obtain r where r: "train_bpe False word_order pair_order text (unat vocab_size) (unat special) = Ok r"
    "bp_merges r = []" "bp_num_merges r = 0"
    "\<And>t. hget (bp_vocab r) t = (if \<exists>b :: byte. t = ucast b + special then Some [ucast (t - special)] else None)"
    using overflow_wraps [OF assms(1), of "unat vocab_size" "unat special" word_order pair_order, unfolded off]
      True u32_bound [of special] u32_bound [of vocab_size]
    by auto
  have "sodl_bpe_train False to_json word_order pair_order text vocab_size special \<noteq> Panic"
    using r(1) assms(3) [of r] by (simp add: sodl_bpe_train_def split: outcome.splits)
  then show ?thesis
    using overflow_panics [OF assms(1) True, of word_order pair_order] u32_bound [of special] r True
    by (cases chk) (auto simp: sodl_bpe_train_def)
next
  case False
  then have room: "256 + unat special + min (unat vocab_size - (256 + unat special)) (length text) < 2 ^ 32"
    using u32_bound [of vocab_size] min.cobounded1 [of "unat vocab_size - (256 + unat special)" "length text"]
    by (cases "256 + unat special \<le> unat vocab_size") simp_all
  obtain r where r: "train_bpe chk word_order pair_order text (unat vocab_size) (unat special) = Ok r"
    "id_range (bp_vocab r) (of_nat (unat special)) (256 + unat special + length (bp_merges r))"
    "bp_num_merges r = length (bp_merges r)" "bp_num_merges r \<le> min (unat vocab_size - (256 + unat special)) (length text)"
    using train_bpe_Ok [OF assms(1,2) room] by blast
  have "sodl_bpe_train chk to_json word_order pair_order text vocab_size special \<noteq> Panic"
    using r(1) assms(3) [of r] by (simp add: sodl_bpe_train_def split: outcome.splits)
  then show ?thesis using False r by (auto simp: id_range_def)
qed

theorem training_returns_witness:
  "sodl_bpe_train True (\<lambda>r. Ok ''{}'') (\<lambda>xs. xs) (\<lambda>_ xs. xs) demo_corpus 300 2 \<noteq> Panic
   \<and> sodl_bpe_train True (\<lambda>r. Ok ''{}'') (\<lambda>xs. xs) (\<lambda>_ xs. xs) demo_corpus 300 4294967040 = Panic
   \<and> (\<exists>r. train_bpe False (\<lambda>xs. xs) (\<lambda>_ xs. xs) demo_corpus 300 4294967295 = Ok r \<and> hget (bp_vocab r) 0 = Some [1])"
proof -
  have "\<exists>b :: byte. (0 :: u32) = ucast b + 4294967295" by (intro exI [of _ 1]) simp
  then show ?thesis
    using training_returns [OF _ demo_orders, of demo_corpus "\<lambda>r. Ok ''{}''" True 300 2]
      training_returns [OF _ demo_orders, of demo_corpus "\<lambda>r. Ok ''{}''" True 300 4294967040]
      training_returns [OF _ demo_orders, of demo_corpus "\<lambda>r. Ok ''{}''" False 300 4294967295] by auto
qed

end
