(* ===== verification/Sodl_Semantic.thy ===== *)
theory Sodl_Semantic
  imports Sodl_Core
begin

text \<open>
  The semantic artifacts: packed colours (\<open>crates/sodl-semantic-color\<close>), the lattice of the semantic
  cube (\<open>crates/sodl-semantic-cube\<close>), the router (\<open>crates/sodl-semantic-router\<close>) and the records of
  dataset pipelines (\<open>crates/sodl-ai-artifacts\<close>). The hue of a colour, which is computed in
  floating point, is in \<open>Sodl_Hue\<close>; BLAKE3 is an argument.
\<close>

section \<open>Colours\<close>

record semantic_color32 =
  co_hierarchy :: u8
  co_r :: u8
  co_g :: u8
  co_b :: u8

definition color_new :: "u8 \<Rightarrow> u8 \<Rightarrow> u8 \<Rightarrow> u8 \<Rightarrow> semantic_color32" where
  "color_new h r g b = \<lparr>co_hierarchy = h, co_r = r, co_g = g, co_b = b\<rparr>"

definition color_pack :: "semantic_color32 \<Rightarrow> u32" where
  "color_pack c = push_bit 24 (ucast (co_hierarchy c)) OR push_bit 16 (ucast (co_r c)) OR push_bit 8 (ucast (co_g c)) OR ucast (co_b c)"

definition color_unpack :: "u32 \<Rightarrow> semantic_color32" where
  "color_unpack bits = \<lparr>co_hierarchy = ucast (drop_bit 24 bits AND 0xFF), co_r = ucast (drop_bit 16 bits AND 0xFF),
     co_g = ucast (drop_bit 8 bits AND 0xFF), co_b = ucast (bits AND 0xFF)\<rparr>"

text \<open>\<open>(a as i32 - b as i32).unsigned_abs()\<close>, for values of at most 16 bits.\<close>

definition abs_diff :: "int \<Rightarrow> int \<Rightarrow> u32" where
  "abs_diff a b = of_int \<bar>a - b\<bar>"

definition semantic_distance :: "semantic_color32 \<Rightarrow> semantic_color32 \<Rightarrow> u32" where
  "semantic_distance c d =
     (let hr = (if co_hierarchy c = co_hierarchy d then 0 else 1024);
          dr = abs_diff (uint (co_r c)) (uint (co_r d));
          dg = abs_diff (uint (co_g c)) (uint (co_g d));
          db = abs_diff (uint (co_b c)) (uint (co_b d))
      in hr + dr * dr + dg * dg + db * db)"

record color_artifact =
  ca_schema :: string
  ca_origin_id :: origin_id
  ca_artifact_id :: string
  ca_created_at :: time
  ca_hierarchy_label :: string
  ca_codes :: "u32 list"

definition color_validate :: "color_artifact \<Rightarrow> unit res" where
  "color_validate a =
     (if is_blank (ca_artifact_id a) then Err (Invalid ''artifact_id is empty'')
      else if is_blank (ca_hierarchy_label a) then Err (Invalid ''hierarchy_label is empty'')
      else Ok ())"


section \<open>The lattice\<close>

type_synonym i16 = "16 word"

record lattice_point3 =
  lp3_x :: i16
  lp3_y :: i16
  lp3_z :: i16
  lp3_layer :: u8

definition manhattan_distance :: "lattice_point3 \<Rightarrow> lattice_point3 \<Rightarrow> u32" where
  "manhattan_distance p q =
     (let base = abs_diff (sint (lp3_x p)) (sint (lp3_x q)) + abs_diff (sint (lp3_y p)) (sint (lp3_y q))
          + abs_diff (sint (lp3_z p)) (sint (lp3_z q))
      in if lp3_layer p = lp3_layer q then base else base + 256)"

record cube_axes =
  cx_x :: string
  cx_y :: string
  cx_z :: string

record cube_entry =
  cy_label :: string
  cy_point :: lattice_point3

record cube_artifact =
  cu3_schema :: string
  cu3_origin_id :: origin_id
  cu3_artifact_id :: string
  cu3_created_at :: time
  cu3_axes :: cube_axes
  cu3_entries :: "cube_entry list"

definition cube_validate :: "cube_artifact \<Rightarrow> unit res" where
  "cube_validate a =
     (if is_blank (cu3_artifact_id a) then Err (Invalid ''artifact_id is empty'')
      else if is_blank (cx_x (cu3_axes a)) \<or> is_blank (cx_y (cu3_axes a)) \<or> is_blank (cx_z (cu3_axes a))
      then Err (Invalid ''cube axes must not be empty'')
      else Ok ())"

text \<open>\<open>sort_by_key\<close> is stable.\<close>

definition nearest_labels :: "cube_artifact \<Rightarrow> lattice_point3 \<Rightarrow> nat \<Rightarrow> string list" where
  "nearest_labels a query k =
     (let pairs = map (\<lambda>e. (manhattan_distance (cy_point e) query, cy_label e)) (cu3_entries a)
      in map snd (take k (sort_key fst pairs)))"


section \<open>The router and the pipelines\<close>

record capability_query =
  cq_principal :: string
  cq_query_text :: string
  cq_requested_caps :: "string list"
  cq_max_results :: nat

record route_candidate =
  rt_label :: string
  rt_score :: u32
  rt_basis :: string

record route_decision =
  rd_allow :: bool
  rd_candidates :: "route_candidate list"

definition simple_route :: "string list \<Rightarrow> capability_query \<Rightarrow> route_decision" where
  "simple_route labels query =
     (let candidates = map (\<lambda>l. \<lparr>rt_label = l, rt_score = 1, rt_basis = ''semantic''\<rparr>) labels
      in \<lparr>rd_allow = (cq_requested_caps query \<noteq> []), rd_candidates = take (cq_max_results query) candidates\<rparr>)"

definition pipeline_hash :: "(string \<Rightarrow> string) \<Rightarrow> string \<Rightarrow> string \<Rightarrow> string \<Rightarrow> string" where
  "pipeline_hash blake3 origin pipeline config = blake3 (origin @ pipeline @ config)"

record dataset_chunk =
  dc_ordinal :: u32
  dc_blob_id :: string
  dc_byte_size :: u64

record dataset_chunk_manifest =
  dcm_origin_id :: string
  dcm_manifest_id :: string
  dcm_pipeline_hash :: string
  dcm_total_bytes :: u64
  dcm_chunks :: "dataset_chunk list"


section \<open>Packing\<close>

lemma byte_high: "bit (x :: byte) n \<Longrightarrow> n < 8"
  using bit_imp_le_length [of x n] by auto

lemma byte_bit: "bit (ucast (x :: byte) :: u32) n \<longleftrightarrow> n < 8 \<and> bit x n"
  using byte_high [of x n] by (auto simp: bit_ucast_iff)

lemma byte_shift_bit: "bit (push_bit k (ucast (x :: byte)) :: u32) n \<longleftrightarrow> k \<le> n \<and> n < k + 8 \<and> n < 32 \<and> bit x (n - k)"
  using byte_high [of x "n - k"] by (auto simp: bit_push_bit_iff byte_bit)

lemma low_byte: "(0xFF :: u32) = mask 8"
  by (simp add: mask_eq_exp_minus_1)

lemma field_bit: "bit (ucast (drop_bit k (w :: u32) AND 0xFF) :: byte) n \<longleftrightarrow> n < 8 \<and> bit w (k + n)"
  by (auto simp: low_byte bit_ucast_iff bit_and_iff bit_drop_bit_eq bit_mask_iff)

lemma color_pack_bit:
  "bit (color_pack c) n \<longleftrightarrow> (24 \<le> n \<and> n < 32 \<and> bit (co_hierarchy c) (n - 24)) \<or> (16 \<le> n \<and> n < 24 \<and> bit (co_r c) (n - 16))
     \<or> (8 \<le> n \<and> n < 16 \<and> bit (co_g c) (n - 8)) \<or> (n < 8 \<and> bit (co_b c) n)"
  by (auto simp: color_pack_def bit_or_iff byte_shift_bit byte_bit)

lemma color_unpack_pack: "color_unpack (color_pack c) = c"
proof -
  have f3: "ucast (drop_bit 24 (color_pack c) AND 0xFF) = co_hierarchy c" by (rule bit_word_eqI) (auto simp: field_bit color_pack_bit)
  have f2: "ucast (drop_bit 16 (color_pack c) AND 0xFF) = co_r c" by (rule bit_word_eqI) (auto simp: field_bit color_pack_bit)
  have f1: "ucast (drop_bit 8 (color_pack c) AND 0xFF) = co_g c" by (rule bit_word_eqI) (auto simp: field_bit color_pack_bit)
  have f0: "ucast (color_pack c AND 0xFF) = co_b c"
    by (rule bit_word_eqI) (use field_bit [of 0 "color_pack c"] in \<open>auto simp: color_pack_bit\<close>)
  show ?thesis by (simp add: color_unpack_def f0 f1 f2 f3)
qed

lemma color_pack_unpack: "color_pack (color_unpack bits) = bits"
proof (rule bit_word_eqI)
  fix n
  assume n: "n < LENGTH(32)"
  have "bit (ucast (bits AND 0xFF) :: byte) m \<longleftrightarrow> m < 8 \<and> bit bits m" for m
    using field_bit [of 0 bits m] by simp
  then have f: "bit (color_pack (color_unpack bits)) n \<longleftrightarrow> (24 \<le> n \<and> n < 32 \<and> n - 24 < 8 \<and> bit bits (24 + (n - 24)))
      \<or> (16 \<le> n \<and> n < 24 \<and> n - 16 < 8 \<and> bit bits (16 + (n - 16)))
      \<or> (8 \<le> n \<and> n < 16 \<and> n - 8 < 8 \<and> bit bits (8 + (n - 8))) \<or> (n < 8 \<and> bit bits n)"
    by (simp only: color_pack_bit color_unpack_def semantic_color32.simps field_bit) simp
  consider "24 \<le> n" "n < 32" | "16 \<le> n" "n < 24" | "8 \<le> n" "n < 16" | "n < 8" using n by fastforce
  then show "bit (color_pack (color_unpack bits)) n = bit bits n" unfolding f by cases (simp_all add: less_diff_conv2)
qed

text \<open>Packing a colour into 32 bits is a bijection between colours and words, and it puts the hierarchy
  first: colours of a lower hierarchy byte color_pack to smaller codes whatever their RGB.\<close>

theorem color_pack_bijective:
  "color_unpack (color_pack c) = c \<and> color_pack (color_unpack bits) = bits \<and> (co_hierarchy c < co_hierarchy d \<longrightarrow> color_pack c < color_pack d)"
proof -
  have h: "drop_bit 24 (color_pack e) = ucast (co_hierarchy e)" for e
    by (rule bit_word_eqI) (auto simp: bit_drop_bit_eq color_pack_bit byte_bit dest: byte_high)
  have "unat (color_pack e) div 2 ^ 24 = unat (co_hierarchy e)" for e
    using unat_drop_bit_eq [of 24 "color_pack e"] unfolding h byte_widened by (simp only: drop_bit_eq_div)
  then have "unat (color_pack c) < unat (color_pack d)" if "unat (co_hierarchy c) < unat (co_hierarchy d)"
    using that by (metis div_le_mono linorder_not_less)
  then show ?thesis using color_unpack_pack color_pack_unpack by (simp add: word_less_nat_alt)
qed

theorem color_pack_bijective_witness:
  "color_pack (color_new 1 255 255 255) < color_pack (color_new 2 0 0 0) \<and> color_unpack (color_pack (color_new 7 10 20 30)) = color_new 7 10 20 30"
  using color_pack_bijective [of "color_new 1 255 255 255" 0 "color_new 2 0 0 0"]
    color_pack_bijective [of "color_new 7 10 20 30" 0 "color_new 7 10 20 30"] by (simp add: color_new_def)



section \<open>Distances\<close>

lemma abs_diff_value: "\<bar>a - b\<bar> < 2 ^ 31 \<Longrightarrow> unat (abs_diff a b) = nat \<bar>a - b\<bar>"
  by (simp add: abs_diff_def unsigned_of_int take_bit_int_eq_self nat_take_bit_eq [symmetric] flip: of_nat_nat_take_bit_eq)

definition gap :: "byte \<Rightarrow> byte \<Rightarrow> nat" where
  "gap a b = nat \<bar>uint a - uint b\<bar>"

lemma gap_bound: "gap a b \<le> 255"
proof -
  have "uint a < 256" "uint b < 256" "0 \<le> uint a" "0 \<le> uint b"
    using unsigned_less [of a, where 'a = int] unsigned_less [of b, where 'a = int] by simp_all
  then show ?thesis unfolding gap_def nat_le_iff by linarith
qed

lemma gap_eq: "gap a b = 0 \<longleftrightarrow> a = b" "gap a b = gap b a"
  by (auto simp: gap_def abs_minus_commute word_uint_eq_iff)

lemma gap_value: "unat (abs_diff (uint a) (uint b)) = gap a b"
proof -
  have "\<bar>uint a - uint b\<bar> < 2 ^ 31" using gap_bound [of a b] by (simp add: gap_def)
  then show ?thesis by (simp add: abs_diff_value gap_def)
qed

definition color_gap :: "semantic_color32 \<Rightarrow> semantic_color32 \<Rightarrow> nat" where
  "color_gap c d = (gap (co_r c) (co_r d))\<^sup>2 + (gap (co_g c) (co_g d))\<^sup>2 + (gap (co_b c) (co_b d))\<^sup>2"

lemma gap_square: "unat (abs_diff (uint a) (uint b) * abs_diff (uint a) (uint b)) = (gap a b)\<^sup>2" "(gap a b)\<^sup>2 \<le> 65025"
proof -
  have "gap a b * gap a b \<le> 255 * 255" by (rule mult_mono) (use gap_bound in auto)
  then show le: "(gap a b)\<^sup>2 \<le> 65025" by (simp add: power2_eq_square)
  then show "unat (abs_diff (uint a) (uint b) * abs_diff (uint a) (uint b)) = (gap a b)\<^sup>2"
    by (simp add: unat_word_ariths gap_value power2_eq_square)
qed

lemma semantic_distance_value:
  "unat (semantic_distance c d) = (if co_hierarchy c = co_hierarchy d then 0 else 1024) + color_gap c d"
  using gap_square(2) [of "co_r c" "co_r d"] gap_square(2) [of "co_g c" "co_g d"] gap_square(2) [of "co_b c" "co_b d"]
  by (simp add: semantic_distance_def Let_def color_gap_def unat_add_bounded gap_square(1))

text \<open>The distance of two colours never overflows its \<open>u32\<close>: it is the sum of the squared differences
  of the channels and of 1024 for different hierarchies. It is symmetric and zero exactly for equal
  colours, and a colour of another hierarchy can be nearer than one of the same.\<close>

theorem semantic_distance_spec:
  "unat (semantic_distance c d) = (if co_hierarchy c = co_hierarchy d then 0 else 1024) + color_gap c d
    \<and> unat (semantic_distance c d) \<le> 196099 \<and> semantic_distance c d = semantic_distance d c
    \<and> (semantic_distance c d = 0 \<longleftrightarrow> c = d)
    \<and> semantic_distance (color_new 1 0 0 0) (color_new 2 0 0 0) < semantic_distance (color_new 1 0 0 0) (color_new 1 33 0 0)"
proof -
  have "color_gap c d \<le> 195075"
    using gap_square(2) [of "co_r c" "co_r d"] gap_square(2) [of "co_g c" "co_g d"] gap_square(2) [of "co_b c" "co_b d"]
    by (simp add: color_gap_def)
  moreover have "color_gap c d = color_gap d c" by (simp add: color_gap_def gap_eq(2))
  moreover have "color_gap c d = 0 \<longleftrightarrow> co_r c = co_r d \<and> co_g c = co_g d \<and> co_b c = co_b d"
    by (simp add: color_gap_def gap_eq(1))
  ultimately show ?thesis
    using semantic_distance_value [of c d] semantic_distance_value [of d c]
    by (auto simp: word_unat_eq_iff word_less_nat_alt semantic_distance_value color_new_def color_gap_def gap_def)
qed

definition axis_gap :: "i16 \<Rightarrow> i16 \<Rightarrow> nat" where
  "axis_gap a b = nat \<bar>sint a - sint b\<bar>"

lemma axis_gap_bound: "axis_gap a b \<le> 65535"
  using sint_range_size [of a] sint_range_size [of b] by (simp add: axis_gap_def word_size nat_le_iff) linarith

lemma axis_gap_value: "unat (abs_diff (sint a) (sint b)) = axis_gap a b"
proof -
  have "\<bar>sint a - sint b\<bar> < 2 ^ 31" using axis_gap_bound [of a b] by (simp add: axis_gap_def)
  then show ?thesis by (simp add: abs_diff_value axis_gap_def)
qed

lemma axis_gap_metric: "axis_gap a b = axis_gap b a" "axis_gap a b = 0 \<longleftrightarrow> a = b" "axis_gap a c \<le> axis_gap a b + axis_gap b c"
  by (auto simp: axis_gap_def abs_minus_commute intro: signed_word_eqI)

lemma manhattan_value:
  "unat (manhattan_distance p q) = axis_gap (lp3_x p) (lp3_x q) + axis_gap (lp3_y p) (lp3_y q) + axis_gap (lp3_z p) (lp3_z q)
     + (if lp3_layer p = lp3_layer q then 0 else 256)"
  using axis_gap_bound [of "lp3_x p" "lp3_x q"] axis_gap_bound [of "lp3_y p" "lp3_y q"] axis_gap_bound [of "lp3_z p" "lp3_z q"]
  by (simp add: manhattan_distance_def Let_def unat_add_bounded axis_gap_value)

text \<open>The distance of the lattice is a metric, and it never overflows.\<close>

theorem manhattan_metric:
  "unat (manhattan_distance p q) \<le> 196861 \<and> manhattan_distance p q = manhattan_distance q p
    \<and> (manhattan_distance p q = 0 \<longleftrightarrow> p = q)
    \<and> unat (manhattan_distance p r) \<le> unat (manhattan_distance p q) + unat (manhattan_distance q r)"
proof -
  have "unat (manhattan_distance p q) \<le> 196861"
    using axis_gap_bound [of "lp3_x p" "lp3_x q"] axis_gap_bound [of "lp3_y p" "lp3_y q"] axis_gap_bound [of "lp3_z p" "lp3_z q"]
    by (simp add: manhattan_value)
  moreover have "unat (manhattan_distance p q) = unat (manhattan_distance q p)"
    by (simp add: manhattan_value axis_gap_metric(1) [of "lp3_x p"] axis_gap_metric(1) [of "lp3_y p"] axis_gap_metric(1) [of "lp3_z p"])
  moreover have "unat (manhattan_distance p q) = 0 \<longleftrightarrow> p = q"
    by (auto simp: manhattan_value axis_gap_metric(2))
  moreover have "unat (manhattan_distance p r) \<le> unat (manhattan_distance p q) + unat (manhattan_distance q r)"
    using axis_gap_metric(3) [of "lp3_x p" "lp3_x r" "lp3_x q"] axis_gap_metric(3) [of "lp3_y p" "lp3_y r" "lp3_y q"]
      axis_gap_metric(3) [of "lp3_z p" "lp3_z r" "lp3_z q"]
    by (auto simp: manhattan_value)
  ultimately show ?thesis by (simp add: word_unat_eq_iff)
qed

lemma sort_key_map: "sort_key f (map g xs) = map g (sort_key (\<lambda>x. f (g x)) xs)"
proof -
  have "insort_key f (g x) (map g ys) = map g (insort_key (\<lambda>x. f (g x)) x ys)" for x ys
    by (induction ys) simp_all
  then show ?thesis by (induction xs) simp_all
qed

text \<open>A query of the cube answers the labels of the nearest entries, nearest first: they are as many as
  asked for, or all, no other entry is nearer than one of them, and entries at the same distance keep
  their order.\<close>

theorem nearest_labels_spec:
  "\<exists>near far. nearest_labels a query k = map cy_label near \<and> mset (near @ far) = mset (cu3_entries a)
    \<and> length near = min k (length (cu3_entries a))
    \<and> sorted (map (\<lambda>e. manhattan_distance (cy_point e) query) (near @ far))
    \<and> (\<forall>d. filter (\<lambda>e. manhattan_distance (cy_point e) query = d) (near @ far)
          = filter (\<lambda>e. manhattan_distance (cy_point e) query = d) (cu3_entries a))"
proof -
  let ?d = "\<lambda>e. manhattan_distance (cy_point e) query" and ?es = "cu3_entries a"
  let ?s = "sort_key ?d ?es"
  have "nearest_labels a query k = map cy_label (take k ?s)"
    by (simp add: nearest_labels_def Let_def sort_key_map take_map)
  moreover have "filter (\<lambda>e. ?d e = x) ?s = filter (\<lambda>e. ?d e = x) ?es" for x by (rule sort_key_stable)
  ultimately show ?thesis
    by (intro exI [of _ "take k ?s"] exI [of _ "drop k ?s"]) (simp add: min.commute)
qed


section \<open>The pipeline hash\<close>

lemma pipeline_hash_ambiguous: "pipeline_hash H (a @ b) c d = pipeline_hash H a (b @ c) d"
  by (simp add: pipeline_hash_def)

end
