(* ===== verification/Sodl_PolarQuant.thy ===== *)
theory Sodl_PolarQuant
  imports Sodl_Semantic Complex_Main
begin

text \<open>
  The polar quantizer of weight vectors, \<open>crates/sodl-polar-quant/src/lib.rs\<close>. A vector becomes its
  norm on a logarithmic scale and the angles of its polar form, one byte each. The operations on
  \<open>f32\<close> and \<open>f64\<close> values are a record of functions, since IEEE arithmetic and the functions of libm are
  not part of the logic: what does not depend on rounding is proved for every such record, and the
  size of the quantization error for exact arithmetic on the reals.
\<close>

section \<open>Floats\<close>

record ('f, 'd) float_ops =
  fl_lit :: "rat \<Rightarrow> 'f"
  fl_pi :: 'f
  fl_add :: "'f \<Rightarrow> 'f \<Rightarrow> 'f"
  fl_sub :: "'f \<Rightarrow> 'f \<Rightarrow> 'f"
  fl_mul :: "'f \<Rightarrow> 'f \<Rightarrow> 'f"
  fl_div :: "'f \<Rightarrow> 'f \<Rightarrow> 'f"
  fl_rem_euclid :: "'f \<Rightarrow> 'f \<Rightarrow> 'f"
  fl_powf :: "'f \<Rightarrow> 'f \<Rightarrow> 'f"
  fl_max :: "'f \<Rightarrow> 'f \<Rightarrow> 'f"
  fl_clamp :: "'f \<Rightarrow> 'f \<Rightarrow> 'f \<Rightarrow> 'f"
  fl_abs :: "'f \<Rightarrow> 'f"
  fl_sqrt :: "'f \<Rightarrow> 'f"
  fl_acos :: "'f \<Rightarrow> 'f"
  fl_cos :: "'f \<Rightarrow> 'f"
  fl_sin :: "'f \<Rightarrow> 'f"
  fl_log2 :: "'f \<Rightarrow> 'f"
  fl_round :: "'f \<Rightarrow> 'f"
  fl_le :: "'f \<Rightarrow> 'f \<Rightarrow> bool"
  fl_lt :: "'f \<Rightarrow> 'f \<Rightarrow> bool"
  fl_finite :: "'f \<Rightarrow> bool"
  fl_sum :: "'f list \<Rightarrow> 'f"
  fl_as_u8 :: "'f \<Rightarrow> u8"
  fl_as_u32 :: "'f \<Rightarrow> u32"
  fl_of_u8 :: "u8 \<Rightarrow> 'f"
  fl_of_nat :: "nat \<Rightarrow> 'f"
  wd_zero :: 'd
  wd_add :: "'d \<Rightarrow> 'd \<Rightarrow> 'd"
  wd_div :: "'d \<Rightarrow> 'd \<Rightarrow> 'd"
  wd_of :: "'f \<Rightarrow> 'd"
  wd_of_nat :: "nat \<Rightarrow> 'd"
  wd_narrow :: "'d \<Rightarrow> 'f"


section \<open>The quantizer\<close>

datatype polar_error = EmptyVector | DimensionMismatch nat nat | Corrupted string

record polar =
  pq_norm :: u8
  pq_angles :: "u8 list"
  pq_dim :: nat

record 'f quant_stats =
  qs_count :: nat
  qs_original_bytes :: nat
  qs_quantized_bytes :: nat
  qs_ratio :: 'f
  qs_error :: 'f

definition quantize_norm :: "('f, 'd) float_ops \<Rightarrow> 'f \<Rightarrow> u8" where
  "quantize_norm F nrm =
     (if fl_le F nrm (fl_lit F 0) \<or> \<not> fl_finite F nrm then 0
      else
        let q = fl_round F (fl_add F (fl_mul F (fl_log2 F nrm) (fl_lit F 4)) (fl_lit F 128)) in
        fl_as_u8 F (fl_clamp F q (fl_lit F 0) (fl_lit F 255)))"

definition dequantize_norm :: "('f, 'd) float_ops \<Rightarrow> u8 \<Rightarrow> 'f" where
  "dequantize_norm F q = fl_powf F (fl_lit F 2) (fl_div F (fl_sub F (fl_of_u8 F q) (fl_lit F 128)) (fl_lit F 4))"

definition quantize_angle :: "('f, 'd) float_ops \<Rightarrow> 'f \<Rightarrow> u8" where
  "quantize_angle F theta =
     (let two_pi = fl_mul F (fl_lit F 2) (fl_pi F);
          normalized = fl_rem_euclid F theta two_pi;
          q = fl_round F (fl_mul F (fl_div F normalized two_pi) (fl_lit F 256))
      in ucast (fl_as_u32 F q mod 256))"

definition dequantize_angle :: "('f, 'd) float_ops \<Rightarrow> u8 \<Rightarrow> 'f" where
  "dequantize_angle F q = fl_mul F (fl_of_u8 F q) (fl_div F (fl_mul F (fl_lit F 2) (fl_pi F)) (fl_lit F 256))"

definition vec_norm :: "('f, 'd) float_ops \<Rightarrow> 'f list \<Rightarrow> 'f" where
  "vec_norm F ws = fl_sqrt F (fl_sum F (map (\<lambda>w. fl_mul F w w) ws))"

text \<open>The loop over \<open>0..len - 1\<close>; the last angle carries the sign of the last component.\<close>

fun polar_angles :: "('f, 'd) float_ops \<Rightarrow> 'f list \<Rightarrow> 'f \<Rightarrow> 'f list" where
  "polar_angles F (x # y # us) remaining =
     (let cos_theta = (if fl_lt F (fl_lit F (1 / 10 ^ 20)) remaining then fl_div F x (fl_sqrt F remaining) else fl_lit F 0);
          theta = fl_acos F (fl_clamp F cos_theta (fl_lit F (- 1)) (fl_lit F 1));
          signed_theta = (if us = [] \<and> fl_lt F y (fl_lit F 0)
            then fl_sub F (fl_mul F (fl_lit F 2) (fl_pi F)) theta else theta);
          remaining' = fl_max F (fl_sub F remaining (fl_mul F x x)) (fl_lit F 0)
      in signed_theta # polar_angles F (y # us) remaining')"
| "polar_angles F us remaining = []"

definition quantize_vector :: "('f, 'd) float_ops \<Rightarrow> 'f list \<Rightarrow> (polar_error, polar) outcome" where
  "quantize_vector F ws =
     (if ws = [] then Err EmptyVector
      else if length ws = 1 then
        Ok \<lparr>pq_norm = quantize_norm F (fl_abs F (hd ws)), pq_angles = [if fl_le F (fl_lit F 0) (hd ws) then 0 else 128], pq_dim = 1\<rparr>
      else
        let nrm = vec_norm F ws;
            safe_norm = (if fl_lt F (fl_lit F (1 / 10 ^ 30)) nrm then nrm else fl_lit F 1);
            unit_vec = map (\<lambda>w. fl_div F w safe_norm) ws
        in Ok \<lparr>pq_norm = quantize_norm F nrm,
             pq_angles = map (quantize_angle F) (polar_angles F unit_vec (fl_lit F 1)), pq_dim = length ws\<rparr>)"

fun polar_components :: "('f, 'd) float_ops \<Rightarrow> 'f \<Rightarrow> 'f \<Rightarrow> 'f list \<Rightarrow> 'f list" where
  "polar_components F nrm scale [] = []"
| "polar_components F nrm scale (theta # thetas) =
     (let scale' = fl_mul F scale (fl_sin F theta) in
      fl_mul F (fl_mul F nrm scale) (fl_cos F theta)
        # (if thetas = [] then [fl_mul F nrm scale'] else polar_components F nrm scale' thetas))"

definition resize_vec :: "nat \<Rightarrow> 'a \<Rightarrow> 'a list \<Rightarrow> 'a list" where
  "resize_vec n x xs = take n xs @ replicate (n - length xs) x"

definition dequantize_vector :: "('f, 'd) float_ops \<Rightarrow> polar \<Rightarrow> (polar_error, 'f list) outcome" where
  "dequantize_vector F pq =
     (if pq_dim pq = 0 then Err EmptyVector
      else if length (pq_angles pq) + 1 < pq_dim pq \<and> 1 < pq_dim pq
      then Err (DimensionMismatch (pq_dim pq - 1) (length (pq_angles pq)))
      else
        let nrm = dequantize_norm F (pq_norm pq) in
        if pq_dim pq = 1 then
          let first = (case pq_angles pq of [] \<Rightarrow> 0 | a # _ \<Rightarrow> a);
              sign = (if 128 \<le> first then fl_lit F (- 1) else fl_lit F 1)
          in Ok [fl_mul F sign nrm]
        else Ok (resize_vec (pq_dim pq) (fl_lit F 0)
          (polar_components F nrm (fl_lit F 1) (map (dequantize_angle F) (pq_angles pq)))))"

definition reconstruction_error :: "('f, 'd) float_ops \<Rightarrow> 'f list \<Rightarrow> 'f list \<Rightarrow> 'f" where
  "reconstruction_error F ws rs =
     (let orig = vec_norm F ws;
          err = fl_sqrt F (fl_sum F (map (\<lambda>(a, b). fl_mul F (fl_sub F a b) (fl_sub F a b)) (zip ws rs)))
      in if fl_lt F (fl_lit F (1 / 10 ^ 30)) orig then fl_div F err orig else fl_lit F 0)"

fun batch_loop ::
  "('f, 'd) float_ops \<Rightarrow> 'f list list \<Rightarrow> polar list \<Rightarrow> 'd \<Rightarrow> nat \<Rightarrow> nat
     \<Rightarrow> (polar_error, polar list \<times> 'd \<times> nat \<times> nat) outcome" where
  "batch_loop F [] qs err orig quant = Ok (qs, err, orig, quant)"
| "batch_loop F (v # vs) qs err orig quant =
     bindR (quantize_vector F v) (\<lambda>pq.
     bindR (dequantize_vector F pq) (\<lambda>r.
     batch_loop F vs (qs @ [pq]) (wd_add F err (wd_of F (reconstruction_error F v r)))
       (orig + length v * 4) (quant + (1 + length (pq_angles pq)))))"

definition quantize_batch ::
  "('f, 'd) float_ops \<Rightarrow> 'f list list \<Rightarrow> (polar_error, polar list \<times> 'f quant_stats) outcome" where
  "quantize_batch F vectors =
     bindR (batch_loop F vectors [] (wd_zero F) 0 0) (\<lambda>(qs, err, orig, quant).
     Ok (qs, \<lparr>qs_count = length vectors, qs_original_bytes = orig, qs_quantized_bytes = quant,
       qs_ratio = (if 0 < quant then fl_div F (fl_of_nat F orig) (fl_of_nat F quant) else fl_lit F 0),
       qs_error = (if 0 < length vectors then wd_narrow F (wd_div F err (wd_of_nat F (length vectors))) else fl_lit F 0)\<rparr>))"

text \<open>The payload: the dimension as a little-endian \<open>u32\<close>, the norm and the angles.\<close>

definition u32_le :: "u32 \<Rightarrow> bytes" where
  "u32_le w = map (\<lambda>i. ucast (drop_bit (8 * i) w)) [0, 1, 2, 3]"

definition u32_of_le :: "bytes \<Rightarrow> u32" where
  "u32_of_le b = ucast (b ! 0) OR push_bit 8 (ucast (b ! 1)) OR push_bit 16 (ucast (b ! 2)) OR push_bit 24 (ucast (b ! 3))"

definition to_bytes :: "polar \<Rightarrow> bytes" where
  "to_bytes pq = u32_le (of_nat (pq_dim pq)) @ [pq_norm pq] @ pq_angles pq"

definition from_bytes :: "bytes \<Rightarrow> (polar_error, polar) outcome" where
  "from_bytes data =
     (if length data < 5 then Err (Corrupted ''payload too short'')
      else
        let dim = unat (u32_of_le (take 4 data));
            nrm = data ! 4;
            expected = (if 1 < dim then dim - 1 else 1)
        in if length data < 5 + expected
           then Err (Corrupted (''expected '' @ dec_nat expected @ '' angle bytes, got '' @ dec_nat (length data - 5)))
           else Ok \<lparr>pq_norm = nrm, pq_angles = take expected (drop 5 data), pq_dim = dim\<rparr>)"


section \<open>Payloads\<close>

lemma low_field: "(ucast (drop_bit k (w :: u32)) :: byte) = ucast (drop_bit k w AND 0xFF)"
  by (rule bit_word_eqI) (auto simp: low_byte bit_ucast_iff bit_and_iff bit_drop_bit_eq bit_mask_iff)

lemma u32_le_round: "u32_of_le (u32_le w) = w"
proof -
  have "u32_of_le (u32_le w) = color_pack (color_unpack w)"
    using low_field [of 0 w] low_field [of 8 w] low_field [of 16 w] low_field [of 24 w]
    by (simp add: u32_of_le_def u32_le_def color_pack_def color_unpack_def ac_simps)
  then show ?thesis by (simp add: color_pack_unpack)
qed

lemma u32_of_le_round: "length b = 4 \<Longrightarrow> u32_le (u32_of_le b) = b"
proof -
  assume "length b = 4"
  then obtain x0 x1 x2 x3 where b: "b = [x0, x1, x2, x3]"
    by (auto simp: length_Suc_conv eval_nat_numeral)
  have "u32_of_le b = color_pack (color_new x3 x2 x1 x0)" by (simp add: b u32_of_le_def color_pack_def color_new_def ac_simps)
  then have "color_unpack (u32_of_le b) = color_new x3 x2 x1 x0" by (simp add: color_unpack_pack)
  then show ?thesis
    using low_field [of 0 "u32_of_le b"] low_field [of 8 "u32_of_le b"] low_field [of 16 "u32_of_le b"]
      low_field [of 24 "u32_of_le b"]
    by (simp add: b u32_le_def color_unpack_def color_new_def)
qed

lemma length_u32_le [simp]: "length (u32_le w) = 4"
  by (simp add: u32_le_def)

lemma polar_angles_length: "length (polar_angles F us r) = length us - 1"
  by (induction F us r rule: polar_angles.induct) (simp_all add: Let_def)

lemma polar_components_length: "thetas \<noteq> [] \<Longrightarrow> length (polar_components F n s thetas) = length thetas + 1"
  by (induction thetas arbitrary: s) (auto simp: Let_def)

lemma quantize_vector_Ok:
  assumes "ws \<noteq> []"
  obtains pq where "quantize_vector F ws = Ok pq" and "pq_dim pq = length ws"
    and "length (pq_angles pq) = max 1 (length ws - 1)"
proof (cases "length ws = 1")
  case True
  then show ?thesis using that assms by (auto simp: quantize_vector_def)
next
  case False
  then have "2 \<le> length ws" using assms by (cases ws) (auto simp: Suc_le_eq)
  then show ?thesis using that assms by (auto simp: quantize_vector_def Let_def polar_angles_length max_def)
qed

lemma dequantize_vector_Ok:
  assumes "0 < pq_dim pq" and "pq_dim pq \<le> length (pq_angles pq) + 1"
  obtains v where "dequantize_vector F pq = Ok v" and "length v = pq_dim pq"
  using assms that by (cases "pq_dim pq = 1") (auto simp: dequantize_vector_def Let_def resize_vec_def)

lemma from_to_bytes:
  assumes "pq_dim pq < 2 ^ 32" and "length (pq_angles pq) = max 1 (pq_dim pq - 1)"
  shows "from_bytes (to_bytes pq @ rest) = Ok pq"
proof -
  have "unat (u32_of_le (take 4 (to_bytes pq @ rest))) = pq_dim pq"
    using assms(1) by (simp add: to_bytes_def u32_le_round unat_of_nat_u32)
  moreover have "(if 1 < pq_dim pq then pq_dim pq - 1 else 1) = length (pq_angles pq)" using assms(2) by auto
  moreover have "(to_bytes pq @ rest) ! 4 = pq_norm pq" "drop 5 (to_bytes pq @ rest) = pq_angles pq @ rest"
    "length (to_bytes pq @ rest) = 5 + length (pq_angles pq) + length rest"
    by (simp_all add: to_bytes_def nth_append)
  ultimately show ?thesis by (simp add: from_bytes_def Let_def)
qed

text \<open>A payload is accepted exactly if it is the payload of a quantized vector followed by anything:
  the dimension and the number of angles it then has agree. Everything else is an error that says how
  many bytes were missing, never a panic.\<close>

theorem payload_accepted_iff:
  "(from_bytes data = Ok pq \<longleftrightarrow>
     (\<exists>rest. data = to_bytes pq @ rest) \<and> pq_dim pq < 2 ^ 32 \<and> length (pq_angles pq) = max 1 (pq_dim pq - 1))
   \<and> from_bytes data \<noteq> Panic"
proof
  show "from_bytes data \<noteq> Panic" by (simp add: from_bytes_def Let_def)
  show "from_bytes data = Ok pq \<longleftrightarrow>
     (\<exists>rest. data = to_bytes pq @ rest) \<and> pq_dim pq < 2 ^ 32 \<and> length (pq_angles pq) = max 1 (pq_dim pq - 1)"
  proof
    assume ok: "from_bytes data = Ok pq"
    let ?w = "u32_of_le (take 4 data)" and ?n = "max 1 (unat (u32_of_le (take 4 data)) - 1)"
    have n: "(if 1 < unat ?w then unat ?w - 1 else 1) = ?n" by auto
    have len: "5 + ?n \<le> length data" and pq: "pq = \<lparr>pq_norm = data ! 4, pq_angles = take ?n (drop 5 data), pq_dim = unat ?w\<rparr>"
      using ok unfolding from_bytes_def Let_def n by (auto split: if_splits)
    have "data = take 4 data @ [data ! 4] @ drop 5 data"
      using len by (metis Cons_nth_drop_Suc append_Cons append_Nil append_take_drop_id add_leD1 eval_nat_numeral(2,3) less_eq_Suc_le)
    then have "data = take 4 data @ [data ! 4] @ take ?n (drop 5 data) @ drop ?n (drop 5 data)"
      by (subst append_take_drop_id)
    moreover have "to_bytes pq = take 4 data @ [data ! 4] @ take ?n (drop 5 data)"
      using len u32_of_le_round [of "take 4 data"] by (simp add: pq to_bytes_def)
    ultimately have "data = to_bytes pq @ drop ?n (drop 5 data)" by simp
    moreover have "pq_dim pq < 2 ^ 32" "length (pq_angles pq) = max 1 (pq_dim pq - 1)"
      using len u32_bound [of ?w] by (simp_all add: pq)
    ultimately show "(\<exists>rest. data = to_bytes pq @ rest) \<and> pq_dim pq < 2 ^ 32 \<and> length (pq_angles pq) = max 1 (pq_dim pq - 1)"
      by blast
  qed (auto intro: from_to_bytes)
qed

text \<open>C32: Whatever the float operations, every vector but the empty one is quantized, its payload of
  five bytes and one byte per angle is read back as the same value, also when more bytes follow, and
  it is decoded to a vector of the same dimension.\<close>

theorem quantized_round_trip:
  assumes "ws \<noteq> []" and "length ws < 2 ^ 32"
  shows "\<exists>pq v. quantize_vector F ws = Ok pq \<and> from_bytes (to_bytes pq @ rest) = Ok pq
    \<and> length (to_bytes pq) = 5 + max 1 (length ws - 1) \<and> dequantize_vector F pq = Ok v \<and> length v = length ws"
proof -
  obtain pq where pq: "quantize_vector F ws = Ok pq" "pq_dim pq = length ws" "length (pq_angles pq) = max 1 (length ws - 1)"
    by (rule quantize_vector_Ok [OF assms(1)])
  have "0 < pq_dim pq" "pq_dim pq \<le> length (pq_angles pq) + 1" using pq(2,3) assms(1) by auto
  then obtain v where "dequantize_vector F pq = Ok v" "length v = pq_dim pq" by (rule dequantize_vector_Ok)
  then show ?thesis using pq from_to_bytes [of pq rest] assms(2) by (simp add: to_bytes_def)
qed


lemma batch_loop_Ok:
  "\<forall>v \<in> set vs. v \<noteq> [] \<Longrightarrow> \<exists>ps err'. batch_loop F vs qs err orig quant
     = Ok (qs @ ps, err', orig + sum_list (map (\<lambda>v. 4 * length v) vs), quant + sum_list (map (\<lambda>v. 1 + max 1 (length v - 1)) vs))
   \<and> map Ok ps = map (quantize_vector F) vs"
proof (induction vs arbitrary: qs err orig quant)
  case (Cons v vs)
  have v: "v \<noteq> []" using Cons.prems by simp
  obtain pq where pq: "quantize_vector F v = Ok pq" "pq_dim pq = length v" "length (pq_angles pq) = max 1 (length v - 1)"
    by (rule quantize_vector_Ok [OF v])
  have "0 < pq_dim pq" "pq_dim pq \<le> length (pq_angles pq) + 1" using pq(2,3) v by auto
  then obtain r where r: "dequantize_vector F pq = Ok r" by (rule dequantize_vector_Ok)
  let ?err = "wd_add F err (wd_of F (reconstruction_error F v r))"
    and ?orig = "orig + length v * 4" and ?quant = "quant + (1 + length (pq_angles pq))"
  have "\<forall>v \<in> set vs. v \<noteq> []" using Cons.prems by simp
  then obtain ps err' where ps: "batch_loop F vs (qs @ [pq]) ?err ?orig ?quant
    = Ok ((qs @ [pq]) @ ps, err', ?orig + sum_list (map (\<lambda>v. 4 * length v) vs),
        ?quant + sum_list (map (\<lambda>v. 1 + max 1 (length v - 1)) vs))"
    "map Ok ps = map (quantize_vector F) vs"
    using Cons.IH [of "qs @ [pq]" ?err ?orig ?quant] by blast
  have "batch_loop F (v # vs) qs err orig quant = batch_loop F vs (qs @ [pq]) ?err ?orig ?quant"
    using pq(1) r by simp
  then show ?case using ps pq(1,3) by (intro exI [of _ "pq # ps"] exI [of _ err']) simp
qed simp

lemma quantize_batch_Ok:
  assumes "\<forall>v \<in> set vs. v \<noteq> []"
  shows "\<exists>ps st. quantize_batch F vs = Ok (ps, st) \<and> map Ok ps = map (quantize_vector F) vs
    \<and> qs_count st = length vs \<and> qs_original_bytes st = 4 * sum_list (map length vs)
    \<and> qs_quantized_bytes st = sum_list (map (\<lambda>v. 1 + max 1 (length v - 1)) vs)"
proof -
  have "sum_list (map (\<lambda>v. 4 * length v) vs) = 4 * sum_list (map length vs)"
    by (simp add: sum_list_const_mult)
  then show ?thesis
    using batch_loop_Ok [OF assms, of F "[]" "wd_zero F" 0 0] by (auto simp: quantize_batch_def simp del: max_Suc_Suc)
qed


section \<open>Exact arithmetic\<close>

text \<open>The operations on the reals: rounding is to the nearest integer and away from zero on ties, and the
  casts truncate and saturate.\<close>

definition round_away :: "real \<Rightarrow> real" where
  "round_away x = (if 0 \<le> x then of_int \<lfloor>x + 1 / 2\<rfloor> else - of_int \<lfloor>- x + 1 / 2\<rfloor>)"

definition exact :: "(real, real) float_ops" where
  "exact = \<lparr>fl_lit = of_rat, fl_pi = pi, fl_add = (+), fl_sub = (-), fl_mul = (*), fl_div = (/),
     fl_rem_euclid = (\<lambda>x m. x - m * of_int \<lfloor>x / m\<rfloor>), fl_powf = (powr), fl_max = max,
     fl_clamp = (\<lambda>x lo hi. max lo (min hi x)), fl_abs = abs, fl_sqrt = sqrt, fl_acos = arccos, fl_cos = cos,
     fl_sin = sin, fl_log2 = log 2, fl_round = round_away, fl_le = (\<le>), fl_lt = (<), fl_finite = (\<lambda>_. True),
     fl_sum = sum_list, fl_as_u8 = (\<lambda>x. of_nat (min 255 (nat \<lfloor>x\<rfloor>))), fl_as_u32 = (\<lambda>x. of_nat (min (2 ^ 32 - 1) (nat \<lfloor>x\<rfloor>))),
     fl_of_u8 = (\<lambda>w. of_nat (unat w)), fl_of_nat = of_nat, wd_zero = 0, wd_add = (+), wd_div = (/), wd_of = (\<lambda>x. x),
     wd_of_nat = of_nat, wd_narrow = (\<lambda>x. x)\<rparr>"

lemma exact_sel [simp]:
  "fl_lit exact = of_rat" "fl_pi exact = pi" "fl_add exact = (+)" "fl_sub exact = (-)" "fl_mul exact = (*)" "fl_div exact = (/)"
  "fl_rem_euclid exact = (\<lambda>x m. x - m * of_int \<lfloor>x / m\<rfloor>)" "fl_powf exact = (powr)" "fl_max exact = max"
  "fl_clamp exact = (\<lambda>x lo hi. max lo (min hi x))" "fl_abs exact = abs" "fl_sqrt exact = sqrt" "fl_acos exact = arccos"
  "fl_cos exact = cos" "fl_sin exact = sin" "fl_log2 exact = log 2" "fl_round exact = round_away" "fl_le exact = (\<le>)"
  "fl_lt exact = (<)" "fl_finite exact = (\<lambda>_. True)" "fl_sum exact = sum_list"
  "fl_as_u8 exact = (\<lambda>x. of_nat (min 255 (nat \<lfloor>x\<rfloor>)))" "fl_as_u32 exact = (\<lambda>x. of_nat (min (2 ^ 32 - 1) (nat \<lfloor>x\<rfloor>)))"
  "fl_of_u8 exact = (\<lambda>w. of_nat (unat w))"
  by (simp_all add: exact_def)

lemma round_away_pos: "0 \<le> x \<Longrightarrow> \<exists>k. round_away x = of_nat k \<and> \<bar>of_nat k - x\<bar> \<le> 1 / 2"
proof -
  assume x: "0 \<le> x"
  then have "0 \<le> \<lfloor>x + 1 / 2\<rfloor>" by simp
  then obtain k where "\<lfloor>x + 1 / 2\<rfloor> = int k" using nonneg_int_cases by blast
  moreover have "of_int \<lfloor>x + 1 / 2\<rfloor> \<le> x + 1 / 2" "x + 1 / 2 < of_int \<lfloor>x + 1 / 2\<rfloor> + 1" by linarith+
  ultimately have "round_away x = of_nat k" "\<bar>of_nat k - x\<bar> \<le> 1 / 2"
    using x unfolding abs_le_iff by (simp_all add: round_away_def)
  then show ?thesis by blast
qed

lemma dequantize_norm_exact: "dequantize_norm exact q = 2 powr ((of_nat (unat q) - 128) / 4)"
  by (simp add: dequantize_norm_def)

lemma quantize_norm_exact:
  assumes "0 < n" and "0 \<le> log 2 n * 4 + 128" and "log 2 n * 4 + 128 \<le> 255"
  shows "\<exists>k :: nat. unat (quantize_norm exact n) = k \<and> \<bar>of_nat k - (log 2 n * 4 + 128)\<bar> \<le> 1 / 2"
proof -
  let ?x = "log 2 n * 4 + 128"
  obtain k where k: "round_away ?x = of_nat k" "\<bar>of_nat k - ?x\<bar> \<le> 1 / 2"
    using round_away_pos [OF assms(2)] by blast
  have "of_nat k \<le> ?x + 1 / 2" using k(2) by linarith
  then have "(of_nat k :: real) < of_nat 256" using assms(3) by simp
  then have k256: "k < 256" by (simp only: of_nat_less_iff)
  then have "max 0 (min 255 (of_nat k :: real)) = of_nat k" "min 255 k = k" by (simp_all add: min_def)
  then have "quantize_norm exact n = of_nat k"
    using assms(1) k(1) by (simp add: quantize_norm_def Let_def del: min.bounded_iff)
  then show ?thesis using k(2) k256 by (intro exI [of _ k]) (simp add: unat_of_nat)
qed

lemma norm_in_range:
  assumes "2 powr (- 32) \<le> n" and "n \<le> 2 powr (127 / 4)"
  shows "0 < n" and "0 \<le> log 2 n * 4 + 128" and "log 2 n * 4 + 128 \<le> 255"
proof -
  have "(0 :: real) < 2 powr (- 32)" by simp
  then show n: "0 < n" using assms(1) by linarith
  have "- 32 \<le> log 2 n" using assms(1) n by (simp add: le_log_iff)
  then show "0 \<le> log 2 n * 4 + 128" by simp
  have "log 2 n \<le> 127 / 4" using log_le_iff [of 2 n "127 / 4"] assms(2) n by simp
  then show "log 2 n * 4 + 128 \<le> 255" by simp
qed

lemma norm_error:
  assumes "2 powr (- 32) \<le> n" and "n \<le> 2 powr (127 / 4)"
  shows "\<bar>dequantize_norm exact (quantize_norm exact n) - n\<bar> \<le> (2 powr (1 / 8) - 1) * n"
proof -
  let ?x = "log 2 n * 4 + 128"
  note n = norm_in_range [OF assms]
  obtain k where k: "unat (quantize_norm exact n) = k" "\<bar>of_nat k - ?x\<bar> \<le> 1 / 2"
    using quantize_norm_exact [OF n] by blast
  define e where "e = (of_nat k - ?x) / 4"
  have e: "\<bar>e\<bar> \<le> 1 / 8" using k(2) by (simp add: e_def)
  have "(of_nat k - 128) / 4 = e + log 2 n" by (simp add: e_def field_simps)
  then have "dequantize_norm exact (quantize_norm exact n) = 2 powr e * n"
    using n(1) k(1) by (simp only: dequantize_norm_exact powr_add) simp
  moreover have "2 powr e \<le> 2 powr (1 / 8)" using e by (intro powr_mono) auto
  moreover have "2 - 2 powr (1 / 8) \<le> (2 :: real) powr e"
  proof -
    have "(2 :: real) powr (- (1 / 8)) \<le> 2 powr e" using e by (intro powr_mono) auto
    moreover have "2 - a \<le> inverse a" if "0 < a" for a :: real
    proof -
      have "0 \<le> (a - 1)\<^sup>2" by simp
      then have "(2 - a) * a \<le> 1" by (simp add: power2_eq_square algebra_simps)
      then show ?thesis using that by (simp add: field_simps)
    qed
    ultimately show ?thesis by (simp add: powr_minus) (metis order.trans powr_gt_zero zero_neq_numeral)
  qed
  ultimately have "\<bar>(2 powr e - 1) * n\<bar> \<le> (2 powr (1 / 8) - 1) * n"
    using n(1) by (simp add: abs_mult abs_le_iff)
  then show ?thesis
    using \<open>dequantize_norm exact (quantize_norm exact n) = 2 powr e * n\<close> by (simp add: algebra_simps)
qed

text \<open>The bound is attained, and it is more than the 4.4 percent that the documentation names.\<close>

lemma norm_error_tight:
  defines "n \<equiv> 2 powr (1 / 8)"
  shows "2 powr (- 32) \<le> n \<and> n \<le> 2 powr (127 / 4)
    \<and> 9 / 100 * n < \<bar>dequantize_norm exact (quantize_norm exact n) - n\<bar>"
proof -
  have l: "log 2 n = 1 / 8" by (simp add: n_def)
  have "\<lfloor>129 :: real\<rfloor> = 129" by simp
  then have "round_away (128 + 1 / 2) = 129" by (simp add: round_away_def)
  moreover have "\<not> n \<le> 0" by (simp add: n_def)
  ultimately have "quantize_norm exact n = 129" by (simp add: quantize_norm_def Let_def l)
  then have d: "dequantize_norm exact (quantize_norm exact n) = n * n"
    by (simp add: dequantize_norm_exact n_def flip: powr_add)
  have p8: "n ^ 8 = 2" by (simp add: n_def powr_realpow [symmetric] powr_powr)
  have "109 / 100 < n"
  proof (rule ccontr)
    assume "\<not> 109 / 100 < n"
    then have "n ^ 8 \<le> (109 / 100) ^ 8" by (intro power_mono) (simp_all add: n_def)
    also have "\<dots> < 2" by (simp add: power_divide)
    finally show False using p8 by simp
  qed
  then have "0 < n" "9 / 100 * n < (n - 1) * n" by simp_all
  moreover have "(n - 1) * n = n * n - n" by (simp add: algebra_simps)
  ultimately have "9 / 100 * n < \<bar>n * n - n\<bar>" by linarith
  moreover have "2 powr (- 32) \<le> n" "n \<le> 2 powr (127 / 4)" by (simp_all add: n_def powr_mono)
  ultimately show ?thesis using d by simp
qed


text \<open>An angle comes back up to \<open>\<pi> / 256\<close> and whole turns.\<close>

lemma angle_error: "\<exists>m :: int. \<bar>theta - dequantize_angle exact (quantize_angle exact theta) - 2 * pi * m\<bar> \<le> pi / 256"
proof -
  define f where "f = \<lfloor>theta / (2 * pi)\<rfloor>"
  define y where "y = (theta - 2 * pi * of_int f) / (2 * pi) * 256"
  have "of_int f \<le> theta / (2 * pi)" "theta / (2 * pi) < of_int f + 1" unfolding f_def by linarith+
  then have "0 \<le> theta / (2 * pi) - of_int f" "theta / (2 * pi) - of_int f < 1" by linarith+
  moreover have "y = (theta / (2 * pi) - of_int f) * 256" by (simp add: y_def field_simps)
  ultimately have y: "0 \<le> y" "y < 256" by simp_all
  obtain k where k: "round_away y = of_nat k" "\<bar>of_nat k - y\<bar> \<le> 1 / 2" using round_away_pos [OF y(1)] by blast
  have "(of_nat k :: real) < 257" using k(2) y(2) by linarith
  then have k257: "k < 257" by simp
  have q: "quantize_angle exact theta = ucast ((of_nat k :: u32) mod 256)"
    using k(1) k257 by (simp add: quantize_angle_def Let_def y_def f_def min_def)
  have "unat ((of_nat k :: u32) mod 256) = k mod 256" using k257 by (simp add: unat_mod unat_of_nat)
  then have u: "unat (quantize_angle exact theta) = k mod 256"
    unfolding q by (simp add: unsigned_ucast_eq take_bit_eq_mod)
  have dq: "dequantize_angle exact (quantize_angle exact theta) = of_nat (k mod 256) * (2 * pi / 256)"
    by (simp only: dequantize_angle_def exact_sel u of_rat_numeral_eq)
  let ?m = "f + int (k div 256)"
  have "(of_nat (k mod 256 + 256 * (k div 256)) :: real) = of_nat (k mod 256) + 256 * of_nat (k div 256)"
    by (simp only: of_nat_add of_nat_mult of_nat_numeral)
  then have "(of_nat k :: real) = of_nat (k mod 256) + 256 * of_nat (k div 256)"
    by (simp only: mod_mult_div_eq)
  then have "theta - dequantize_angle exact (quantize_angle exact theta) - 2 * pi * of_int ?m = (y - of_nat k) * (pi / 128)"
    unfolding dq by (simp add: y_def field_simps)
  moreover have "\<bar>(y - of_nat k) * (pi / 128)\<bar> \<le> 1 / 2 * (pi / 128)"
    unfolding abs_mult using k(2) by (intro mult_mono) (auto simp: abs_minus_commute)
  moreover have "1 / 2 * (pi / 128) = pi / 256" by simp
  ultimately show ?thesis by metis
qed

lemma trig_lipschitz:
  fixes a b :: real
  assumes "\<bar>a - b - 2 * pi * of_int m\<bar> \<le> d"
  shows "\<bar>cos a - cos b\<bar> \<le> d" and "\<bar>sin a - sin b\<bar> \<le> d"
proof -
  let ?b = "b + 2 * pi * of_int m"
  have b: "cos ?b = cos b" "sin ?b = sin b" by (simp_all add: cos_add sin_add)
  have h: "\<bar>sin ((x :: real) / 2)\<bar> \<le> \<bar>x\<bar> / 2" for x using abs_sin_x_le_abs_x [of "x / 2"] by simp
  have l: "\<bar>2 * s * t\<bar> \<le> 2 * u" if "\<bar>s\<bar> \<le> 1" "\<bar>t\<bar> \<le> u" for s t u :: real
    using mult_mono [OF that(1) that(2)] by (simp add: abs_mult)
  have "\<bar>cos a - cos ?b\<bar> \<le> 2 * (\<bar>?b - a\<bar> / 2)"
    unfolding cos_diff_cos by (rule l [OF _ h]) simp
  then show "\<bar>cos a - cos b\<bar> \<le> d" unfolding b using assms by (simp add: abs_minus_commute diff_diff_eq)
  have "\<bar>2 * cos ((a + ?b) / 2) * sin ((a - ?b) / 2)\<bar> \<le> 2 * (\<bar>a - ?b\<bar> / 2)"
    by (rule l [OF _ h]) simp
  then have "\<bar>sin a - sin ?b\<bar> \<le> 2 * (\<bar>a - ?b\<bar> / 2)" unfolding sin_diff_sin by (simp add: ac_simps)
  then show "\<bar>sin a - sin b\<bar> \<le> d" unfolding b using assms by (simp add: diff_diff_eq)
qed

lemma angle_close:
  "\<bar>cos theta - cos (dequantize_angle exact (quantize_angle exact theta))\<bar> \<le> pi / 256"
  "\<bar>sin theta - sin (dequantize_angle exact (quantize_angle exact theta))\<bar> \<le> pi / 256"
proof -
  obtain m :: int where m: "\<bar>theta - dequantize_angle exact (quantize_angle exact theta) - 2 * pi * m\<bar> \<le> pi / 256"
    using angle_error by blast
  show "\<bar>cos theta - cos (dequantize_angle exact (quantize_angle exact theta))\<bar> \<le> pi / 256"
    "\<bar>sin theta - sin (dequantize_angle exact (quantize_angle exact theta))\<bar> \<le> pi / 256"
    using trig_lipschitz [OF m] by simp_all
qed

lemma components_scaled:
  "polar_components exact n s thetas = map (\<lambda>x. n * x) (polar_components exact 1 s thetas)"
  by (induction thetas arbitrary: s) (auto simp: Let_def)

lemma components_bounded:
  "x \<in> set (polar_components exact 1 s thetas) \<Longrightarrow> \<bar>x\<bar> \<le> \<bar>s\<bar>"
proof (induction thetas arbitrary: s)
  case (Cons t ts)
  have b: "\<bar>s * cos t\<bar> \<le> \<bar>s\<bar>" "\<bar>s * sin t\<bar> \<le> \<bar>s\<bar>" by (simp_all add: abs_mult mult_left_le)
  show ?case using Cons.prems b Cons.IH [of "s * sin t"] by (auto simp: Let_def split: if_splits)
qed simp

lemma components_close:
  assumes "list_all2 (\<lambda>a b. \<bar>cos a - cos b\<bar> \<le> d \<and> \<bar>sin a - sin b\<bar> \<le> d) thetas phis"
    and "\<bar>s\<bar> \<le> 1" and "\<bar>s'\<bar> \<le> 1" and "k < length (polar_components exact 1 s thetas)"
  shows "\<bar>polar_components exact 1 s thetas ! k - polar_components exact 1 s' phis ! k\<bar> \<le> \<bar>s - s'\<bar> + of_nat (length thetas) * d"
  using assms
proof (induction thetas phis arbitrary: s s' k rule: list_all2_induct)
  case (Cons t ts p ps)
  have prod: "\<bar>s * a - s' * b\<bar> \<le> \<bar>s - s'\<bar> + d" if "\<bar>a\<bar> \<le> 1" "\<bar>a - b\<bar> \<le> d" for a b :: real
  proof -
    have "s * a - s' * b = (s - s') * a + s' * (a - b)" by (simp add: algebra_simps)
    moreover have "\<bar>(s - s') * a\<bar> \<le> \<bar>s - s'\<bar>" using that(1) by (simp add: abs_mult mult_left_le)
    moreover have "\<bar>s' * (a - b)\<bar> \<le> d"
      using mult_mono [OF Cons.prems(2) that(2)] by (simp add: abs_mult)
    ultimately show ?thesis by linarith
  qed
  have d: "0 \<le> d" using Cons.hyps(1) abs_ge_zero order_trans by blast
  have c: "\<bar>s * cos t - s' * cos p\<bar> \<le> \<bar>s - s'\<bar> + d" and n: "\<bar>s * sin t - s' * sin p\<bar> \<le> \<bar>s - s'\<bar> + d"
    using Cons.hyps(1) by (auto intro!: prod)
  have s: "\<bar>s * sin t\<bar> \<le> 1" "\<bar>s' * sin p\<bar> \<le> 1"
    using Cons.prems(1,2) mult_mono [OF Cons.prems(1) abs_sin_le_one [of t]] mult_mono [OF Cons.prems(2) abs_sin_le_one [of p]]
    by (simp_all add: abs_mult)
  have many: "\<bar>s - s'\<bar> + d \<le> \<bar>s - s'\<bar> + of_nat (length (t # ts)) * d" using d by (simp add: algebra_simps)
  show ?case
  proof (cases k)
    case 0
    then show ?thesis using c many by (simp add: Let_def)
  next
    case (Suc j)
    show ?thesis
    proof (cases "ts = []")
      case True
      then have "ps = []" using Cons.hyps(2) by simp
      then show ?thesis using Suc True Cons.prems(3) n by (simp add: Let_def)
    next
      case False
      then have "ps \<noteq> []" using Cons.hyps(2) by auto
      then show ?thesis
        using Cons.IH [OF s, of j] Suc False Cons.prems(3) n by (simp add: Let_def algebra_simps)
    qed
  qed
qed simp


definition sq_sum :: "real list \<Rightarrow> real" where
  "sq_sum us = sum_list (map (\<lambda>u. u * u) us)"

lemma sq_sum_nonneg: "0 \<le> sq_sum us"
  unfolding sq_sum_def by (rule sum_list_nonneg) auto

lemma sq_sum_member: "u \<in> set us \<Longrightarrow> \<bar>u\<bar> \<le> sqrt (sq_sum us)"
proof -
  assume u: "u \<in> set us"
  have "u * u \<le> sq_sum us"
    unfolding sq_sum_def by (rule member_le_sum_list) (use u in auto)
  then show ?thesis by (intro real_le_rsqrt) (simp add: power2_eq_square)
qed

text \<open>The polar form of a vector describes the vector, up to the components that come after the loop has
  given up on a remainder of at most \<open>10 ^ -20\<close>.\<close>

lemma polar_form:
  assumes "2 \<le> length us" and "r = sq_sum us" and "k < length us"
  shows "\<bar>polar_components exact 1 (sqrt r) (polar_angles exact us r) ! k - us ! k\<bar> \<le> 2 / 10 ^ 10"
  using assms
proof (induction us arbitrary: r k)
  case (Cons x vs)
  obtain y us where vs: "vs = y # us" using Cons.prems(1) by (cases vs) auto
  let ?ts = "polar_angles exact (x # y # us) r"
  have len: "length (polar_components exact 1 (sqrt r) ?ts) = length (x # y # us)"
    by (subst polar_components_length) (simp_all add: polar_angles_length Let_def)
  have r0: "0 \<le> r" using Cons.prems(2) sq_sum_nonneg by simp
  show ?case
  proof (cases "1 / 10 ^ 20 < r")
    case False
    then have "sqrt r \<le> sqrt ((1 / 10 ^ 10)\<^sup>2)" by (intro real_sqrt_le_mono) (simp add: power_divide)
    then have s: "sqrt r \<le> 1 / 10 ^ 10" by (simp add: real_sqrt_abs)
    have "\<bar>polar_components exact 1 (sqrt r) ?ts ! k\<bar> \<le> \<bar>sqrt r\<bar>"
      by (rule components_bounded, rule nth_mem) (use len Cons.prems(3) vs in simp)
    moreover have "\<bar>(x # y # us) ! k\<bar> \<le> sqrt r"
      unfolding Cons.prems(2) vs by (rule sq_sum_member, rule nth_mem) (use Cons.prems(3) vs in simp)
    moreover have "\<bar>sqrt r\<bar> = sqrt r" using r0 by simp
    ultimately show ?thesis using s unfolding vs by linarith
  next
    case True
    have r1: "0 < r" using True by (simp add: less_trans [of 0 "1 / 10 ^ 20"])
    let ?c = "x / sqrt r"
    have "\<bar>x\<bar> \<le> sqrt r" using sq_sum_member [of x "x # vs"] Cons.prems(2) by simp
    then have c: "- 1 \<le> ?c" "?c \<le> 1" using r1 by (auto simp: field_simps abs_le_iff)
    have x: "sqrt r * ?c = x" using r1 by simp
    have r': "r - x * x = sq_sum (y # us)" using Cons.prems(2) by (simp add: vs sq_sum_def)
    have "sqrt r * sin (arccos ?c) = sqrt (r * (1 - ?c\<^sup>2))" using c by (simp add: sin_arccos real_sqrt_mult)
    moreover have "r * (1 - ?c\<^sup>2) = r - x * x" using r1 by (simp add: field_simps power2_eq_square)
    ultimately have sc: "sqrt r * sin (arccos ?c) = sqrt (sq_sum (y # us))" using r' by simp
    have clamp: "min 1 ?c = ?c" "max (- 1) ?c = ?c" using c by simp_all
    have pos: "max (r - x * x) 0 = sq_sum (y # us)" using r' sq_sum_nonneg [of "y # us"] by simp
    let ?theta = "if us = [] \<and> y < 0 then 2 * pi - arccos ?c else arccos ?c"
    have ts: "?ts = ?theta # polar_angles exact (y # us) (sq_sum (y # us))"
      using True clamp pos by (simp add: Let_def of_rat_divide of_rat_power of_rat_minus)
    have cos: "sqrt r * cos ?theta = x" using c x by (simp add: cos_diff cos_arccos)
    show ?thesis
    proof (cases us)
      case Nil
      have "sqrt (y * y) = \<bar>y\<bar>" by simp
      then have "sqrt r * sin ?theta = y" using sc Nil by (simp add: sin_diff sq_sum_def)
      then show ?thesis using cos Cons.prems(3) unfolding vs ts by (cases k) (simp_all add: Nil Let_def)
    next
      case more: (Cons z zs)
      then have rest: "polar_angles exact (y # us) (sq_sum (y # us)) \<noteq> []" by (simp add: Let_def)
      show ?thesis
      proof (cases k)
        case 0
        then show ?thesis using cos unfolding vs ts by (simp add: Let_def)
      next
        case (Suc j)
        have "\<bar>polar_components exact 1 (sqrt (sq_sum vs)) (polar_angles exact vs (sq_sum vs)) ! j - vs ! j\<bar> \<le> 2 / 10 ^ 10"
          by (rule Cons.IH) (use Suc more Cons.prems(3) vs in simp_all)
        moreover have "polar_components exact 1 (sqrt r) (t # qs) ! Suc j = polar_components exact 1 (sqrt r * sin t) qs ! j"
          if "qs \<noteq> []" for t qs
          by (simp add: that Let_def)
        moreover have "?theta = arccos ?c" using more by simp
        ultimately show ?thesis
          unfolding vs ts Suc nth_Cons_Suc using sc rest by (simp only: if_False simp_thms)
      qed
    qed
  qed
qed simp



section \<open>The size of the error\<close>

lemma scaled_abs: "0 < n \<Longrightarrow> n * \<bar>a - b\<bar> = \<bar>n * a - n * (b :: real)\<bar>"
  by (simp add: abs_mult flip: right_diff_distrib)

lemma vec_norm_exact: "vec_norm exact ws = sqrt (sq_sum ws)"
  by (simp add: vec_norm_def sq_sum_def)

lemma unit_vector:
  assumes "0 < vec_norm exact ws"
  shows "sq_sum (map (\<lambda>w. w / vec_norm exact ws) ws) = 1"
proof -
  let ?n = "vec_norm exact ws"
  have n: "?n * ?n = sq_sum ws" using sq_sum_nonneg [of ws] by (simp add: vec_norm_exact)
  have "sq_sum (map (\<lambda>w. w / ?n) ws) = sum_list (map (\<lambda>w. (w * w) * (1 / (?n * ?n))) ws)"
    by (simp add: sq_sum_def comp_def)
  also have "\<dots> = sq_sum ws * (1 / (?n * ?n))" by (simp only: sq_sum_def sum_list_mult_const)
  finally show ?thesis using assms n by auto
qed

text \<open>C18: In exact arithmetic, for a vector of dimension \<open>d\<close> whose norm lies in the range of the scale,
  every component of the decoded vector is within \<open>2 powr (1/8) - 1 + (d - 1) * \<pi> / 256\<close> (and a little
  for the cut-off of the loop) of the original, relative to the norm. The error of the norm alone can
  be more than nine percent.\<close>

theorem quantization_error:
  assumes "ws \<noteq> []" and "2 powr (- 32) \<le> vec_norm exact ws" and "vec_norm exact ws \<le> 2 powr (127 / 4)"
  shows "(\<exists>pq v. quantize_vector exact ws = Ok pq \<and> dequantize_vector exact pq = Ok v \<and> length v = length ws
    \<and> list_all2 (\<lambda>a b. \<bar>a - b\<bar> \<le> vec_norm exact ws
          * (2 powr (1 / 8) - 1 + of_nat (length ws - 1) * (pi / 256) + 2 / 10 ^ 10)) v ws)
    \<and> (\<exists>n. 2 powr (- 32) \<le> n \<and> n \<le> 2 powr (127 / 4)
        \<and> 9 / 100 * n < \<bar>dequantize_norm exact (quantize_norm exact n) - n\<bar>)"
proof -
  let ?n = "vec_norm exact ws" and ?E = "2 powr (1 / 8) - 1 + of_nat (length ws - 1) * (pi / 256) + 2 / 10 ^ 10 :: real"
  let ?N = "dequantize_norm exact (quantize_norm exact ?n)"
  note n0 = norm_in_range(1) [OF assms(2,3)]
  have N: "\<bar>?N - ?n\<bar> \<le> (2 powr (1 / 8) - 1) * ?n" by (rule norm_error [OF assms(2,3)])
  have "\<exists>pq v. quantize_vector exact ws = Ok pq \<and> dequantize_vector exact pq = Ok v \<and> length v = length ws
    \<and> list_all2 (\<lambda>a b. \<bar>a - b\<bar> \<le> ?n * ?E) v ws"
  proof (cases "length ws = 1")
    case True
    then obtain w where w: "ws = [w]" by (cases ws) auto
    have nw: "?n = \<bar>w\<bar>" by (simp add: w vec_norm_exact sq_sum_def)
    let ?v = "(if 0 \<le> w then 1 else - 1) * ?N"
    let ?pq = "\<lparr>pq_norm = quantize_norm exact \<bar>w\<bar>, pq_angles = [if 0 \<le> w then 0 else 128], pq_dim = 1\<rparr>"
    have "quantize_vector exact ws = Ok ?pq" by (simp add: quantize_vector_def w)
    moreover have "dequantize_vector exact ?pq = Ok [?v]"
      by (simp add: dequantize_vector_def nw of_rat_minus)
    moreover have "\<bar>?v - w\<bar> = \<bar>?N - ?n\<bar>" unfolding nw by (cases "0 \<le> w") (auto simp: abs_if)
    moreover have "(2 powr (1 / 8) - 1) * ?n \<le> ?n * ?E" using n0 by (simp add: w algebra_simps)
    ultimately show ?thesis using N w by fastforce
  next
    case False
    then have d: "2 \<le> length ws" using assms(1) by (cases ws) (auto simp: Suc_le_eq)
    let ?us = "map (\<lambda>w. w / ?n) ws"
    define ts where "ts = polar_angles exact ?us 1"
    define qs where "qs = map (quantize_angle exact) ts"
    let ?pq = "\<lparr>pq_norm = quantize_norm exact ?n, pq_angles = qs, pq_dim = length ws\<rparr>"
    have big: "1 / 10 ^ 30 < ?n"
    proof -
      have "(1 :: real) / 10 ^ 30 < 2 powr (- 32)" by (simp add: powr_minus powr_realpow [of 2 32, simplified])
      then show ?thesis using assms(2) by linarith
    qed
    have q: "quantize_vector exact ws = Ok ?pq"
      using assms(1) False big by (simp add: quantize_vector_def Let_def ts_def qs_def of_rat_divide of_rat_power)
    have lts: "length ts = length ws - 1" "ts \<noteq> []"
      using d polar_angles_length [of exact ?us 1] by (auto simp: ts_def)
    let ?fs = "map (dequantize_angle exact) qs"
    let ?c = "polar_components exact 1 1 ?fs"
    have lc: "length ?c = length ws" using lts d by (simp add: polar_components_length qs_def)
    have v: "dequantize_vector exact ?pq = Ok (map (\<lambda>x. ?N * x) ?c)"
      using assms(1) d lts lc components_scaled [of ?N 1 ?fs] by (simp add: dequantize_vector_def Let_def resize_vec_def qs_def)
    have "\<bar>?N * (?c ! k) - ws ! k\<bar> \<le> ?n * ?E" if k: "k < length ws" for k
    proof -
      have near: "list_all2 (\<lambda>a b. \<bar>cos a - cos b\<bar> \<le> pi / 256 \<and> \<bar>sin a - sin b\<bar> \<le> pi / 256) ts ?fs"
        unfolding qs_def map_map list_all2_map2 by (rule list.rel_refl) (simp only: comp_apply angle_close simp_thms)
      have "\<bar>polar_components exact 1 1 ts ! k - ?c ! k\<bar> \<le> \<bar>1 - 1\<bar> + of_nat (length ts) * (pi / 256)"
        by (rule components_close [OF near]) (use k lts in \<open>simp_all add: polar_components_length\<close>)
      moreover have "\<bar>polar_components exact 1 (sqrt 1) (polar_angles exact ?us 1) ! k - ?us ! k\<bar> \<le> 2 / 10 ^ 10"
        by (rule polar_form) (use d k unit_vector [OF n0] in simp_all)
      ultimately have "\<bar>?c ! k - ?us ! k\<bar> \<le> of_nat (length ws - 1) * (pi / 256) + 2 / 10 ^ 10"
        unfolding ts_def [symmetric] lts(1) real_sqrt_one by linarith
      then have "?n * \<bar>?c ! k - ?us ! k\<bar> \<le> ?n * (of_nat (length ws - 1) * (pi / 256) + 2 / 10 ^ 10)"
        using n0 by (intro mult_left_mono) auto
      moreover have "?n * (?us ! k) = ws ! k" using n0 k by simp
      then have "?n * \<bar>?c ! k - ?us ! k\<bar> = \<bar>?n * (?c ! k) - ws ! k\<bar>"
        using scaled_abs [OF n0, of "?c ! k" "?us ! k"] by (simp only:)
      moreover have "\<bar>?c ! k\<bar> \<le> 1" using components_bounded [of "?c ! k" 1 ?fs] k lc nth_mem by fastforce
      then have "\<bar>(?N - ?n) * (?c ! k)\<bar> \<le> (2 powr (1 / 8) - 1) * ?n"
        using N mult_left_le [of "\<bar>?c ! k\<bar>" "\<bar>?N - ?n\<bar>"] by (simp add: abs_mult)
      moreover have "?N * (?c ! k) - ws ! k = (?N - ?n) * (?c ! k) + (?n * (?c ! k) - ws ! k)" by (simp add: algebra_simps)
      ultimately show ?thesis by (simp add: algebra_simps)
    qed
    then have "list_all2 (\<lambda>a b. \<bar>a - b\<bar> \<le> ?n * ?E) (map (\<lambda>x. ?N * x) ?c) ws"
      using lc by (simp add: list_all2_conv_all_nth)
    then show ?thesis using q v lc by auto
  qed
  then show ?thesis using norm_error_tight by blast
qed

theorem quantization_error_witness:
  "\<exists>pq v. quantize_vector exact [3, - 4] = Ok pq \<and> dequantize_vector exact pq = Ok v
    \<and> list_all2 (\<lambda>a b. \<bar>a - b\<bar> \<le> 5 * (2 powr (1 / 8) - 1 + pi / 256 + 2 / 10 ^ 10)) v [3, - 4]"
proof -
  have n: "vec_norm exact [3, - 4] = 5" by (simp add: vec_norm_exact sq_sum_def)
  have "(2 :: real) powr (- 32) \<le> 1" "(5 :: real) \<le> 2 powr 3" by (simp_all add: powr_minus)
  moreover have "(2 :: real) powr 3 \<le> 2 powr (127 / 4)" by (rule powr_mono) simp_all
  ultimately have "2 powr (- 32) \<le> vec_norm exact [3, - 4]" "vec_norm exact [3, - 4] \<le> 2 powr (127 / 4)" unfolding n by linarith+
  then show ?thesis using quantization_error [of "[3, - 4]"] unfolding n by auto
qed

theorem quantized_round_trip_witness:
  "\<exists>pq v. quantize_vector exact [1, 2, 3] = Ok pq \<and> from_bytes (to_bytes pq @ [7]) = Ok pq
    \<and> length (to_bytes pq) = 7 \<and> dequantize_vector exact pq = Ok v \<and> length v = length [1, 2, 3 :: real]"
  using quantized_round_trip [of "[1, 2, 3]" exact "[7]"] by simp

end
