(* ===== verification/Sodl_Hue.thy ===== *)
theory Sodl_Hue
  imports Sodl_PolarQuant
begin

text \<open>
  The hue of a packed colour, \<open>hue_degrees\<close> of \<open>crates/sodl-semantic-color\<close>, over the float
  operations of the quantizer and the three it needs besides: minimum, equality and the remainder
  of \<open>%\<close>, which has the sign of the dividend.
\<close>

definition hue_degrees ::
  "('f, 'd) float_ops \<Rightarrow> ('f \<Rightarrow> 'f \<Rightarrow> 'f) \<Rightarrow> ('f \<Rightarrow> 'f \<Rightarrow> bool) \<Rightarrow> ('f \<Rightarrow> 'f \<Rightarrow> 'f) \<Rightarrow> semantic_color32 \<Rightarrow> 'f" where
  "hue_degrees F fmin feq frem c =
     (let r = fl_div F (fl_of_u8 F (co_r c)) (fl_lit F 255);
          g = fl_div F (fl_of_u8 F (co_g c)) (fl_lit F 255);
          b = fl_div F (fl_of_u8 F (co_b c)) (fl_lit F 255);
          mx = fl_max F r (fl_max F g b);
          mn = fmin r (fmin g b);
          delta = fl_sub F mx mn in
      if feq delta (fl_lit F 0) then fl_lit F 0
      else
        let h = (if feq mx r then fl_mul F (fl_lit F 60) (frem (fl_div F (fl_sub F g b) delta) (fl_lit F 6))
                 else if feq mx g then fl_mul F (fl_lit F 60) (fl_add F (fl_div F (fl_sub F b r) delta) (fl_lit F 2))
                 else fl_mul F (fl_lit F 60) (fl_add F (fl_div F (fl_sub F r g) delta) (fl_lit F 4))) in
        if fl_lt F h (fl_lit F 0) then fl_add F h (fl_lit F 360) else h)"

definition exact_rem :: "real \<Rightarrow> real \<Rightarrow> real" where
  "exact_rem x m = x - m * (if 0 \<le> x / m then of_int \<lfloor>x / m\<rfloor> else of_int \<lceil>x / m\<rceil>)"

lemma small_rem: "- 6 < x \<Longrightarrow> x < 6 \<Longrightarrow> exact_rem x 6 = x"
proof -
  assume x: "- 6 < x" "x < 6"
  have "\<lfloor>x / 6\<rfloor> = 0" if "0 \<le> x / 6" using that x by (simp add: floor_eq_iff)
  moreover have "\<lceil>x / 6\<rceil> = 0" if "\<not> 0 \<le> x / 6" using that x by (simp add: ceiling_eq_iff)
  ultimately show ?thesis by (simp add: exact_rem_def)
qed

text \<open>In exact arithmetic the hue is an angle in degrees, from 0 up to but not including 360.\<close>

lemma hue_range: "0 \<le> hue_degrees exact min (=) exact_rem c" and "hue_degrees exact min (=) exact_rem c < 360"
proof -
  define r g b where rgb: "r = real (unat (co_r c)) / 255" "g = real (unat (co_g c)) / 255" "b = real (unat (co_b c)) / 255"
  define mx mn where m: "mx = max r (max g b)" "mn = min r (min g b)"
  have ratio: "- 1 \<le> (x - y) / (mx - mn) \<and> (x - y) / (mx - mn) \<le> 1"
    if "mx \<noteq> mn" "x \<in> {r, g, b}" "y \<in> {r, g, b}" for x y
  proof -
    have "mn \<le> mx" "x - y \<le> mx - mn" "- (mx - mn) \<le> x - y" using that(2,3) unfolding m by auto
    then show ?thesis using that(1) by (simp add: field_simps)
  qed
  have hue: "hue_degrees exact min (=) exact_rem c =
     (if mx - mn = 0 then 0 else
      let h = (if mx = r then 60 * exact_rem ((g - b) / (mx - mn)) 6 else if mx = g then 60 * ((b - r) / (mx - mn) + 2)
               else 60 * ((r - g) / (mx - mn) + 4)) in if h < 0 then h + 360 else h)"
    by (simp only: hue_degrees_def exact_def float_ops.simps of_rat_numeral_eq of_rat_0 Let_def rgb m)
  define p q s where pqs: "p = (g - b) / (mx - mn)" "q = (b - r) / (mx - mn)" "s = (r - g) / (mx - mn)"
  have unit: "- 1 \<le> p" "p \<le> 1" "- 1 \<le> q" "q \<le> 1" "- 1 \<le> s" "s \<le> 1" if "mx - mn \<noteq> 0"
    using that ratio [of g b] ratio [of b r] ratio [of r g] unfolding pqs by auto
  show "0 \<le> hue_degrees exact min (=) exact_rem c" "hue_degrees exact min (=) exact_rem c < 360"
    unfolding hue pqs [symmetric] using unit small_rem [of p] by (auto simp: Let_def simp del: right_minus_eq)
qed

end
