(* ===== verification/Sodl_Native.thy ===== *)
theory Sodl_Native
  imports Sodl_Fetch Sodl_MemStores Sodl_Api
begin

text \<open>
  The blob store of the Python bindings, \<open>PyFsBlobStore\<close> of \<open>crates/sodl-python-ffi\<close>: a local
  \<open>FsBlobStore\<close> that reads through to peers, edges and other directories and remembers which
  node was seen with which blob. The state is the file system, that memory and whatever answers
  HTTP requests; the Python interpreter and the conversions of PyO3 are not part of the model.
\<close>

section \<open>Errors\<close>

datatype py_err = PyFileNotFound string | PyValueError string

fun map_sodl_error :: "sodl_error \<Rightarrow> py_err" where
  "map_sodl_error NotFound = PyFileNotFound ''blob not found''"
| "map_sodl_error Integrity = PyValueError ''integrity verification failed''"
| "map_sodl_error other = PyValueError (error_show other)"

type_synonym ('w, 'a) py = "('w, py_err, 'a) act"

text \<open>\<open>.map_err(map_sodl_error)?\<close>.\<close>

definition raising :: "('w, 'a) op \<Rightarrow> ('w, 'a) py" where
  "raising m s = (case m s of (Ok a, t) \<Rightarrow> (Ok a, t) | (Err e, t) \<Rightarrow> (Err (map_sodl_error e), t) | (Panic, t) \<Rightarrow> (Panic, t))"

lemma raising_Ok_iff: "raising m s = (Ok a, t) \<longleftrightarrow> m s = (Ok a, t)"
  by (auto simp: raising_def split: prod.splits outcome.splits)

lemma raising_state [simp]: "snd (raising m s) = snd (m s)"
  by (auto simp: raising_def split: prod.splits outcome.splits)


section \<open>The store and its world\<close>

record 'n native_world =
  nw_fs :: fs
  nw_replicas :: mem_replicas
  nw_net :: 'n

record native_store =
  ns_root :: path
  ns_sources :: "(peer \<times> path) list"
  ns_peer_urls :: "peer list"
  ns_edge_urls :: "string list"

text \<open>The HTTP client: how it is built, how it answers, and the text of its status errors.\<close>

record 'n native_env =
  ne_hashes :: hashes
  ne_client :: "('n, string, unit) act"
  ne_http :: "'n http"
  ne_status :: string

abbreviation on_disk :: "(fs, 'e, 'a) act \<Rightarrow> ('n native_world, 'e, 'a) act" where
  "on_disk \<equiv> liftM nw_fs (\<lambda>s w. w\<lparr>nw_fs := s\<rparr>)"

abbreviation on_seen :: "(mem_replicas, 'e, 'a) act \<Rightarrow> ('n native_world, 'e, 'a) act" where
  "on_seen \<equiv> liftM nw_replicas (\<lambda>s w. w\<lparr>nw_replicas := s\<rparr>)"

definition record_replica :: "blob_id \<Rightarrow> string \<Rightarrow> replica_state \<Rightarrow> time \<Rightarrow> ('n native_world, unit) op" where
  "record_replica b node st now =
     on_seen (mem_upsert_replica \<lparr>rr_blob_id = b, rr_node_id = node, rr_state = st, rr_last_seen = now\<rparr>)"

text \<open>The sources are opened in order; opening creates the directory.\<close>

fun open_sources :: "nat \<Rightarrow> string list \<Rightarrow> (fs, (peer \<times> path) list) op" where
  "open_sources index [] = returnM []"
| "open_sources index (source_root # roots) =
     bindM (fs_blob_open (path_comps source_root)) (\<lambda>source_store.
     bindM (open_sources (Suc index) roots) (\<lambda>others.
       returnM ((''source:'' @ dec_nat index @ '':'' @ source_root, source_store) # others)))"

definition native_new ::
  "string \<Rightarrow> string list option \<Rightarrow> string list option \<Rightarrow> string list option \<Rightarrow> (fs, native_store \<times> mem_replicas) py" where
  "native_new root source_roots peer_urls edge_urls = raising
     (bindM (fs_blob_open (path_comps root)) (\<lambda>store.
      bindM (open_sources 0 (case source_roots of Some rs \<Rightarrow> rs | None \<Rightarrow> [])) (\<lambda>sources.
        returnM (\<lparr>ns_root = store, ns_sources = sources,
          ns_peer_urls = (case peer_urls of Some us \<Rightarrow> us | None \<Rightarrow> []),
          ns_edge_urls = (case edge_urls of Some us \<Rightarrow> us | None \<Rightarrow> [])\<rparr>, []))))"


section \<open>One call\<close>

text \<open>What lives for one call: the providers that the peer source and the edge provider remember.\<close>

record 'n native_call =
  nc_world :: "'n native_world"
  nc_peer :: "peer option"
  nc_edge :: "string option"

abbreviation in_world :: "('n native_world, 'e, 'a) act \<Rightarrow> ('n native_call, 'e, 'a) act" where
  "in_world \<equiv> liftM nc_world (\<lambda>w c. c\<lparr>nc_world := w\<rparr>)"

definition on_peer :: "('n remembering, 'a) op \<Rightarrow> ('n native_call, 'a) op" where
  "on_peer = liftM (\<lambda>c. (nw_net (nc_world c), nc_peer c))
     (\<lambda>(n, l) c. c\<lparr>nc_world := (nc_world c)\<lparr>nw_net := n\<rparr>, nc_peer := l\<rparr>)"

definition on_edge :: "('n remembering, 'a) op \<Rightarrow> ('n native_call, 'a) op" where
  "on_edge = liftM (\<lambda>c. (nw_net (nc_world c), nc_edge c))
     (\<lambda>(n, l) c. c\<lparr>nc_world := (nc_world c)\<lparr>nw_net := n\<rparr>, nc_edge := l\<rparr>)"

definition one_call :: "('n native_call, 'a) op \<Rightarrow> ('n native_world, 'a) py" where
  "one_call m w = (case raising m \<lparr>nc_world = w, nc_peer = None, nc_edge = None\<rparr> of (r, c) \<Rightarrow> (r, nc_world c))"

definition new_client :: "'n native_env \<Rightarrow> ('n native_call, unit) op" where
  "new_client E = in_world (map_err (liftM nw_net (\<lambda>n w. w\<lparr>nw_net := n\<rparr>) (ne_client E)))"

definition peer_source :: "'n native_env \<Rightarrow> native_store \<Rightarrow> 'n remembering fetch_source" where
  "peer_source E st = discovered_peer_source (\<lambda>b n. (fst (find_providers b (discovery_new (ns_peer_urls st))), n))
     (peer_get_blob (ne_http E) (ne_status E))"

definition edges_of :: "'n native_env \<Rightarrow> native_store \<Rightarrow> 'n remembering fetch_source" where
  "edges_of E st = edge_source (ne_http E) (ne_status E) (ns_edge_urls st)"

definition note_seen :: "blob_id \<Rightarrow> time \<Rightarrow> string \<Rightarrow> ('n native_call, unit) op" where
  "note_seen b now node = in_world (record_replica b node Healthy now)"

text \<open>The first of the other directories that has the blob, recorded when it is found.\<close>

fun first_source :: "blob_id \<Rightarrow> time \<Rightarrow> (peer \<times> path) list \<Rightarrow> ('n native_call, peer option) op" where
  "first_source b now [] = returnM None"
| "first_source b now ((p, dir) # rest) =
     bindM (in_world (on_disk (fs_blob_has dir b))) (\<lambda>found.
       if found then seqM (note_seen b now p) (returnM (Some p)) else first_source b now rest)"


section \<open>The methods\<close>

definition provided_by :: "'n native_env \<Rightarrow> (('n remembering, peer option) op \<Rightarrow> ('n native_call, peer option) op)
     \<Rightarrow> ('n native_call, bytes option) op \<Rightarrow> blob_id \<Rightarrow> time \<Rightarrow> ('n native_call, bool) op" where
  "provided_by E on_source asked b now =
     seqM (new_client E) (bindM asked (\<lambda>found.
       case found of
         None \<Rightarrow> returnM False
       | Some _ \<Rightarrow> bindM (on_source last_provider) (\<lambda>l.
           seqM (case l of Some p \<Rightarrow> note_seen b now p | None \<Rightarrow> returnM ()) (returnM True))))"

definition native_has :: "'n native_env \<Rightarrow> time \<Rightarrow> native_store \<Rightarrow> blob_id \<Rightarrow> ('n native_world, bool) py" where
  "native_has E now st b = one_call
     (bindM (in_world (on_disk (fs_blob_has (ns_root st) b))) (\<lambda>here.
      if here then seqM (note_seen b now ''cache'') (returnM True)
      else bindM (if ns_peer_urls st = [] then returnM False
                  else provided_by E on_peer (on_peer (fetch (peer_source E st) b)) b now) (\<lambda>peer.
      if peer then returnM True
      else bindM (if ns_edge_urls st = [] then returnM False
                  else provided_by E on_edge (on_edge (fetch (edges_of E st) b)) b now) (\<lambda>edge.
      if edge then returnM True
      else bindM (first_source b now (ns_sources st)) (\<lambda>source. returnM (source \<noteq> None))))))"

definition native_put :: "time \<Rightarrow> native_store \<Rightarrow> blob_id \<Rightarrow> bytes \<Rightarrow> ('n native_world, unit) py" where
  "native_put now st b d = one_call
     (seqM (in_world (on_disk (fs_blob_put (ns_root st) b d))) (note_seen b now ''cache''))"

definition native_cache :: "path \<Rightarrow> 'n native_call blob_store" where
  "native_cache root = \<lparr>bs_has = (\<lambda>b. in_world (on_disk (fs_blob_has root b))),
     bs_put = (\<lambda>b d. in_world (on_disk (fs_blob_put root b d))),
     bs_get = (\<lambda>b. in_world (on_disk (fs_blob_get root b))),
     bs_delete = (\<lambda>b. in_world (on_disk (fs_blob_delete root b)))\<rparr>"

definition native_pipeline :: "'n native_env \<Rightarrow> native_store \<Rightarrow> 'n native_call fetch_pipeline" where
  "native_pipeline E st = \<lparr>fp_cache = native_cache (ns_root st),
     fp_sources = (if ns_peer_urls st = [] then [] else [\<lparr>fetch = (\<lambda>b. on_peer (fetch (peer_source E st) b))\<rparr>])
       @ (if ns_edge_urls st = [] then [] else [\<lparr>fetch = (\<lambda>b. on_edge (fetch (edges_of E st) b))\<rparr>])
       @ map (\<lambda>(p, dir). store_source (native_cache dir)) (ns_sources st),
     fp_authorizer = None\<rparr>"

text \<open>The clock is read once per record that is made.\<close>

definition native_get :: "'n native_env \<Rightarrow> (nat \<Rightarrow> time) \<Rightarrow> native_store \<Rightarrow> blob_id \<Rightarrow> ('n native_world, bytes) py" where
  "native_get E clock st b = one_call
     (bindM (in_world (on_disk (fs_blob_has (ns_root st) b))) (\<lambda>here.
      if here then bindM (in_world (on_disk (fs_blob_get (ns_root st) b))) (\<lambda>d.
        seqM (note_seen b (clock 0) ''cache'') (returnM d))
      else seqM (new_client E) (seqM (new_client E)
        (bindM (first_source b (clock 0) (ns_sources st)) (\<lambda>source.
         bindM (fetch_get (ne_hashes E) (native_pipeline E st) None None b) (\<lambda>d.
         seqM (note_seen b (clock 1) ''cache'')
         (bindM (on_peer last_provider) (\<lambda>peer. bindM (on_edge last_provider) (\<lambda>edge.
           seqM (case (peer, edge, source) of
                   (Some p, _, _) \<Rightarrow> note_seen b (clock 2) p
                 | (None, Some u, _) \<Rightarrow> note_seen b (clock 2) u
                 | (None, None, Some p) \<Rightarrow> note_seen b (clock 2) p
                 | (None, None, None) \<Rightarrow> returnM ())
             (returnM d))))))))))"

definition native_delete :: "native_store \<Rightarrow> blob_id \<Rightarrow> ('n native_world, unit) py" where
  "native_delete st b = raising (on_disk (fs_blob_delete (ns_root st) b))"

definition replica_nodes :: "blob_id \<Rightarrow> ('n native_world, string list) py" where
  "replica_nodes b = raising (bindM (on_seen (mem_list_replicas b)) (\<lambda>rs.
     returnM (map rr_node_id (filter (\<lambda>r. rr_state r = Healthy) rs))))"

text \<open>\<open>count_blob_files\<close> walks the tree below a directory; what cannot be listed counts as empty. The
  recursion is bounded by the depth of the tree, at most the number of its directories.\<close>

definition is_dir :: "fs \<Rightarrow> path \<Rightarrow> bool" where
  "is_dir s p \<longleftrightarrow> (case fs_walk s [] p of Ok q \<Rightarrow> q \<in> set (fs_dirs s) | _ \<Rightarrow> False)"

fun count_blob_files :: "nat \<Rightarrow> fs \<Rightarrow> path \<Rightarrow> nat" where
  "count_blob_files 0 s p = 0"
| "count_blob_files (Suc k) s p = (case fst (fs_read_dir p s) of
     Ok names \<Rightarrow> sum_list (map (\<lambda>n. if is_dir s (p @ [n]) then count_blob_files k s (p @ [n]) else 1) names)
   | _ \<Rightarrow> 0)"

definition blob_count :: "native_store \<Rightarrow> ('n native_world, nat) py" where
  "blob_count st = readM (\<lambda>w. Ok (count_blob_files (Suc (length (fs_dirs (nw_fs w)))) (nw_fs w) (ns_root st)))"


section \<open>What a call changes\<close>

text \<open>The local store of a call obeys the contract of a blob store.\<close>

lemma in_disk: "in_world (on_disk m) c = (fst (m (nw_fs (nc_world c))),
    c\<lparr>nc_world := (nc_world c)\<lparr>nw_fs := snd (m (nw_fs (nc_world c)))\<rparr>\<rparr>)"
  by (simp add: liftM_def split: prod.splits)

interpretation native_cas: blob_store_laws "native_cache root" "\<lambda>c. fs_blobs root (nw_fs (nc_world c))" good_blob_id
    "\<lambda>c. fs_store_inv root (nw_fs (nc_world c))"
proof
  fix c :: "'n native_call" and b d
  assume c: "fs_store_inv root (nw_fs (nc_world c))" and b: "good_blob_id b"
  show "bs_has (native_cache root) b c = (Ok (fs_blobs root (nw_fs (nc_world c)) b \<noteq> None), c)"
    and "bs_get (native_cache root) b c = (of_option NotFound (fs_blobs root (nw_fs (nc_world c)) b), c)"
    using fs_has_law [OF c b] fs_get_law [OF c b] by (simp_all add: native_cache_def in_disk)
  show "\<exists>t. bs_delete (native_cache root) b c = (Ok (), t) \<and> fs_store_inv root (nw_fs (nc_world t))
      \<and> fs_blobs root (nw_fs (nc_world t)) = (fs_blobs root (nw_fs (nc_world c)))(b := None)"
    using fs_delete_law [OF c b] by (auto simp: native_cache_def in_disk)
  assume "fs_blobs root (nw_fs (nc_world c)) b = None \<or> fs_blobs root (nw_fs (nc_world c)) b = Some d"
  then show "\<exists>t. bs_put (native_cache root) b d c = (Ok (), t) \<and> fs_store_inv root (nw_fs (nc_world t))
      \<and> fs_blobs root (nw_fs (nc_world t)) = (fs_blobs root (nw_fs (nc_world c)))(b \<mapsto> d)"
    using fs_put_law [OF c b, of d] by (auto simp: native_cache_def in_disk)
qed

text \<open>Everything else of a call leaves the file system alone.\<close>

definition keeps_disk :: "('n native_call, 'e, 'a) act \<Rightarrow> bool" where
  "keeps_disk m \<longleftrightarrow> (\<forall>c. nw_fs (nc_world (snd (m c))) = nw_fs (nc_world c))"

named_theorems disk_kept "calls that leave the file system alone"

lemma keeps_diskD: "keeps_disk m \<Longrightarrow> m c = (r, t) \<Longrightarrow> nw_fs (nc_world t) = nw_fs (nc_world c)"
  by (metis keeps_disk_def snd_conv)

lemma keeps_disk_pure [disk_kept]: "keeps_disk (returnM a)" "keeps_disk (pureM r)"
  by (simp_all add: keeps_disk_def)

lemma keeps_disk_bind [disk_kept]:
  assumes "keeps_disk m" and "\<And>a. keeps_disk (f a)"
  shows "keeps_disk (bindM m f)"
  using assms by (auto simp: keeps_disk_def bindM_def split: prod.splits outcome.splits) (metis snd_conv)+

lemma keeps_disk_seq [disk_kept]: "keeps_disk m \<Longrightarrow> keeps_disk k \<Longrightarrow> keeps_disk (seqM m k)"
  unfolding seqM_def by (rule keeps_disk_bind)

lemma keeps_disk_source [disk_kept]: "keeps_disk (on_peer m)" "keeps_disk (on_edge n)" "keeps_disk (new_client E)"
  "keeps_disk (note_seen b now p)"
  by (auto simp: keeps_disk_def on_peer_def on_edge_def new_client_def note_seen_def record_replica_def liftM_def map_err_def
      split: prod.splits outcome.splits)

lemma fs_has_state: "snd (fs_blob_has root b s) = s" and fs_get_state: "snd (fs_blob_get root b s) = s"
  by (auto simp: fs_blob_has_def fs_blob_get_def bindM_def fs_read_def split: prod.splits outcome.splits)

lemma keeps_disk_read [disk_kept]:
  "keeps_disk (in_world (on_disk (fs_blob_has root b)))" "keeps_disk (in_world (on_disk (fs_blob_get root b)))"
  by (simp_all add: keeps_disk_def in_disk fs_has_state fs_get_state)

lemma keeps_disk_if [disk_kept]: "keeps_disk m \<Longrightarrow> keeps_disk k \<Longrightarrow> keeps_disk (if P then m else k)"
  by simp

lemma keeps_disk_option [disk_kept]:
  "keeps_disk m \<Longrightarrow> (\<And>a. keeps_disk (f a)) \<Longrightarrow> keeps_disk (case x of None \<Rightarrow> m | Some a \<Rightarrow> f a)"
  by (cases x) auto

lemma keeps_disk_first [disk_kept]: "keeps_disk (first_source b now srcs)"
proof (induction srcs)
  case Nil
  show ?case unfolding first_source.simps by (intro disk_kept)
next
  case (Cons s srcs)
  then show ?case by (cases s) (simp only: first_source.simps, intro disk_kept)
qed

lemma keeps_disk_provided [disk_kept]:
  "keeps_disk asked \<Longrightarrow> (\<And>m :: ('n remembering, peer option) op. keeps_disk (on_source m)) \<Longrightarrow> keeps_disk (provided_by E on_source asked b now)"
  unfolding provided_by_def by (intro disk_kept)

lemma source_keeps_disk:
  assumes "src \<in> set (fp_sources (native_pipeline E st))"
  shows "keeps_disk (fetch src b)"
proof -
  have "keeps_disk (fetch (store_source (native_cache dir)) b)" for dir
    unfolding store_source_def native_cache_def fetch_source.simps blob_store.simps by (intro disk_kept)
  then show ?thesis
    using assms by (auto simp: native_pipeline_def disk_kept split: if_splits)
qed

lemma one_call_disk: "keeps_disk m \<Longrightarrow> nw_fs (snd (one_call m w)) = nw_fs w"
proof -
  assume m: "keeps_disk m"
  obtain q c where q: "m \<lparr>nc_world = w, nc_peer = None, nc_edge = None\<rparr> = (q, c)" by force
  show ?thesis using keeps_diskD [OF m q] q by (cases q) (simp_all add: one_call_def raising_def)
qed

lemma has_disk: "nw_fs (snd (native_has E now st b w)) = nw_fs w"
  unfolding native_has_def by (rule one_call_disk) (intro disk_kept)


section \<open>Histories\<close>

text \<open>Calls of the interface, between which the network may change in any way.\<close>

datatype 'n native_event =
    NvHas blob_id time
  | NvPut blob_id bytes time
  | NvGet blob_id "nat \<Rightarrow> time"
  | NvDelete blob_id
  | NvNet 'n

fun native_step :: "'n native_env \<Rightarrow> native_store \<Rightarrow> 'n native_event \<Rightarrow> ('n native_world, bytes option) py" where
  "native_step E st (NvHas b now) = bindM (native_has E now st b) (\<lambda>_. returnM None)"
| "native_step E st (NvPut b d now) = bindM (native_put now st b d) (\<lambda>_. returnM None)"
| "native_step E st (NvGet b clock) = bindM (native_get E clock st b) (\<lambda>d. returnM (Some d))"
| "native_step E st (NvDelete b) = bindM (native_delete st b) (\<lambda>_. returnM None)"
| "native_step E st (NvNet n) = bindM (modifyM (\<lambda>w. w\<lparr>nw_net := n\<rparr>)) (\<lambda>_. returnM None)"

text \<open>Identifiers are those of content addressing, and only bytes of that digest are put.\<close>

fun native_allowed :: "hashes \<Rightarrow> 'n native_event \<Rightarrow> bool" where
  "native_allowed H (NvPut b d now) \<longleftrightarrow> good_blob_id b \<and> verify_integrity H b d = Ok ()"
| "native_allowed H (NvGet b clock) \<longleftrightarrow> good_blob_id b"
| "native_allowed H (NvDelete b) \<longleftrightarrow> good_blob_id b"
| "native_allowed H _ \<longleftrightarrow> True"

text \<open>The specification: a map from identifiers to bytes. A get that succeeds adds what it returns,
  a put adds to a vacant identifier, a delete removes.\<close>

fun cached_after :: "'n native_event \<Rightarrow> (py_err, bytes option) outcome \<Rightarrow> (blob_id \<rightharpoonup> bytes) \<Rightarrow> blob_id \<rightharpoonup> bytes" where
  "cached_after (NvPut b d now) _ m = (if m b = None then m(b \<mapsto> d) else m)"
| "cached_after (NvGet b clock) (Ok (Some d)) m = m(b \<mapsto> d)"
| "cached_after (NvDelete b) _ m = m(b := None)"
| "cached_after _ _ m = m"

fun native_run :: "'n native_env \<Rightarrow> native_store \<Rightarrow> 'n native_event list \<Rightarrow> (blob_id \<rightharpoonup> bytes) \<Rightarrow> 'n native_world
     \<Rightarrow> (blob_id \<rightharpoonup> bytes) \<times> 'n native_world" where
  "native_run E st [] m w = (m, w)"
| "native_run E st (ev # evs) m w =
     (case native_step E st ev w of (r, t) \<Rightarrow> native_run E st evs (cached_after ev r m) t)"

definition native_rel :: "hashes \<Rightarrow> path \<Rightarrow> (blob_id \<rightharpoonup> bytes) \<Rightarrow> fs \<Rightarrow> bool" where
  "native_rel H root m s \<longleftrightarrow> fs_store_inv root s \<and> fs_blobs root s = m
     \<and> (\<forall>b d. m b = Some d \<longrightarrow> verify_integrity H b d = Ok ())"

lemma note_seen_run: "note_seen b now p c = (Ok (), c\<lparr>nc_world := (nc_world c)
    \<lparr>nw_replicas := hput (b, p) \<lparr>rr_blob_id = b, rr_node_id = p, rr_state = Healthy, rr_last_seen = now\<rparr> (nw_replicas (nc_world c))\<rparr>\<rparr>)"
  by (simp add: note_seen_def record_replica_def liftM_def mem_upsert_replica_def)

text \<open>A get of a cached blob asks nobody.\<close>

lemma get_cached:
  assumes "fs_store_inv (ns_root st) (nw_fs w)" and "good_blob_id b" and "fs_blobs (ns_root st) (nw_fs w) b = Some d"
  shows "native_get E clock st b w = (Ok d, w\<lparr>nw_replicas := hput (b, ''cache'')
    \<lparr>rr_blob_id = b, rr_node_id = ''cache'', rr_state = Healthy, rr_last_seen = clock 0\<rparr> (nw_replicas w)\<rparr>)"
  using fs_has_law [OF assms(1,2)] fs_get_law [OF assms(1,2)] assms(3)
  by (simp add: native_get_def one_call_def raising_def bindM_def seqM_def in_disk note_seen_run)

definition got :: "hashes \<Rightarrow> path \<Rightarrow> blob_id \<Rightarrow> fs \<Rightarrow> (sodl_error, bytes) outcome \<times> 'n native_call \<Rightarrow> bool" where
  "got H root b s = (\<lambda>(r, c). fs_store_inv root (nw_fs (nc_world c)) \<and> (\<forall>d. r = Ok d \<longrightarrow> verify_integrity H b d = Ok ())
     \<and> fs_blobs root (nw_fs (nc_world c)) = (case r of Ok d \<Rightarrow> (fs_blobs root s)(b \<mapsto> d) | _ \<Rightarrow> fs_blobs root s))"

lemma got_bind:
  assumes "keeps_disk m" and "fs_store_inv root (nw_fs (nc_world c))"
    and "\<And>a t. nw_fs (nc_world t) = nw_fs (nc_world c) \<Longrightarrow> got H root b (nw_fs (nc_world c)) (f a t)"
  shows "got H root b (nw_fs (nc_world c)) (bindM m f c)"
proof -
  obtain q u where m: "m c = (q, u)" by force
  then show ?thesis
    using assms(2) assms(3) [of u] keeps_diskD [OF assms(1) m] by (cases q) (simp_all add: bindM_def got_def)
qed

lemma provider_run: "on_peer last_provider c = (Ok (nc_peer c), c)" "on_edge last_provider c = (Ok (nc_edge c), c)"
  by (simp_all add: on_peer_def on_edge_def last_provider_def liftM_def)

text \<open>A get of another blob changes the cache only by what it returns, and that is verified.\<close>

lemma get_effect:
  assumes s: "fs_store_inv (ns_root st) (nw_fs w)" and b: "good_blob_id b" and m: "fs_blobs (ns_root st) (nw_fs w) b = None"
    and run: "native_get E clock st b w = (r, t)"
  shows "fs_store_inv (ns_root st) (nw_fs t) \<and> (\<forall>d. r = Ok d \<longrightarrow> verify_integrity (ne_hashes E) b d = Ok ())
    \<and> fs_blobs (ns_root st) (nw_fs t) = (case r of Ok d \<Rightarrow> (fs_blobs (ns_root st) (nw_fs w))(b \<mapsto> d) | _ \<Rightarrow> fs_blobs (ns_root st) (nw_fs w))"
proof -
  let ?c = "\<lparr>nc_world = w, nc_peer = None, nc_edge = None\<rparr>" and ?G = "got (ne_hashes E) (ns_root st) b (nw_fs w)"
  let ?rest = "\<lambda>source d. seqM (note_seen b (clock 1) ''cache'')
         (bindM (on_peer last_provider) (\<lambda>peer. bindM (on_edge last_provider) (\<lambda>edge.
           seqM (case (peer, edge, source) of
                   (Some p, _, _) \<Rightarrow> note_seen b (clock 2) p
                 | (None, Some u, _) \<Rightarrow> note_seen b (clock 2) u
                 | (None, None, Some p) \<Rightarrow> note_seen b (clock 2) p
                 | (None, None, None) \<Rightarrow> returnM ())
             (returnM d))))"
  let ?fetched = "\<lambda>source. bindM (fetch_get (ne_hashes E) (native_pipeline E st) None None b) (?rest source)"
  let ?remote = "seqM (new_client E) (seqM (new_client E) (bindM (first_source b (clock 0) (ns_sources st)) ?fetched))"
  have fetched: "?G (?fetched source c)" if c: "nw_fs (nc_world c) = nw_fs w" for source c
  proof -
    obtain q u where f: "fetch_get (ne_hashes E) (native_pipeline E st) None None b c = (q, u)" by force
    have "fs_store_inv (ns_root st) (nw_fs (nc_world u)) \<and> fs_blobs (ns_root st) (nw_fs (nc_world u))
        = (case q of Ok d \<Rightarrow> (fs_blobs (ns_root st) (nw_fs (nc_world c)))(b \<mapsto> d) | _ \<Rightarrow> fs_blobs (ns_root st) (nw_fs (nc_world c)))"
    proof (rule native_cas.fetch_effect [OF _ b _ f])
      show "fp_cache (native_pipeline E st) = native_cache (ns_root st)" and "fp_authorizer (native_pipeline E st) = None"
        by (simp_all add: native_pipeline_def)
      show "fs_store_inv (ns_root st) (nw_fs (nc_world c))" and "fs_blobs (ns_root st) (nw_fs (nc_world c)) b = None"
        using s m c by simp_all
    next
      fix src x y z
      assume "src \<in> set (fp_sources (native_pipeline E st))" and "fs_store_inv (ns_root st) (nw_fs (nc_world x))"
        and "fetch src b x = (y, z)"
      then show "fs_store_inv (ns_root st) (nw_fs (nc_world z)) \<and> fs_blobs (ns_root st) (nw_fs (nc_world z)) = fs_blobs (ns_root st) (nw_fs (nc_world x))"
        using keeps_diskD [OF source_keeps_disk] by metis
    qed
    moreover have "verify_integrity (ne_hashes E) b d = Ok ()" if "q = Ok d" for d
      using f that fetch_authentic [of "ne_hashes E" "native_pipeline E st" None None b c d u] by simp
    ultimately have u: "?G (q, u)" using c by (cases q) (simp_all add: got_def)
    show ?thesis
    proof (cases q)
      case (Ok d)
      have "\<exists>v. ?rest source d u = (Ok d, v) \<and> nw_fs (nc_world v) = nw_fs (nc_world u)"
        by (simp add: seqM_def bindM_def note_seen_run provider_run split: option.split)
      then show ?thesis using u f Ok by (auto simp: got_def bindM_Ok)
    qed (use u f in \<open>auto simp: bindM_def\<close>)
  qed
  have step: "?G (bindM k f c)"
    if "keeps_disk k" and "nw_fs (nc_world c) = nw_fs w" and "\<And>a t. nw_fs (nc_world t) = nw_fs w \<Longrightarrow> ?G (f a t)" for k f c
    using got_bind [of k "ns_root st" c "ne_hashes E" b f] that s by simp
  have step_seq: "?G (seqM k f c)"
    if "keeps_disk k" and "nw_fs (nc_world c) = nw_fs w" and "\<And>t. nw_fs (nc_world t) = nw_fs w \<Longrightarrow> ?G (f t)" for k f c
    unfolding seqM_def by (rule step) (use that in auto)
  have G: "?G (?remote ?c)"
    by (rule step_seq, rule disk_kept, simp, rule step_seq, rule disk_kept, simp, rule step, rule disk_kept, simp, rule fetched)
  obtain q c where q: "?remote ?c = (q, c)" by force
  have "native_get E clock st b w = one_call ?remote w"
    using fs_has_law [OF s b] m by (simp add: native_get_def one_call_def raising_def bindM_def in_disk)
  then have "r = (case q of Ok d \<Rightarrow> Ok d | Err e \<Rightarrow> Err (map_sodl_error e) | Panic \<Rightarrow> Panic)" "t = nc_world c"
    using run q by (cases q; simp add: one_call_def raising_def)+
  then show ?thesis using G q by (cases q) (simp_all add: got_def)
qed

lemma native_step_effect:
  assumes rel: "native_rel (ne_hashes E) (ns_root st) m (nw_fs w)" and ok: "native_allowed (ne_hashes E) ev"
    and run: "native_step E st ev w = (r, t)"
  shows "native_rel (ne_hashes E) (ns_root st) (cached_after ev r m) (nw_fs t)"
proof -
  have s: "fs_store_inv (ns_root st) (nw_fs w)" and m: "fs_blobs (ns_root st) (nw_fs w) = m"
    using rel by (simp_all add: native_rel_def)
  show ?thesis
  proof (cases ev)
    case (NvHas b now)
    then have "nw_fs t = nw_fs w" using run has_disk [of E now st b w]
      by (auto simp: bindM_def split: prod.splits outcome.splits)
    then show ?thesis using rel NvHas by simp
  next
    case (NvPut b d now)
    then have b: "good_blob_id b" and v: "verify_integrity (ne_hashes E) b d = Ok ()" using ok by simp_all
    have put: "nw_fs t = snd (fs_blob_put (ns_root st) b d (nw_fs w))" if "fst (fs_blob_put (ns_root st) b d (nw_fs w)) = Ok ()"
      using run NvPut that
      by (auto simp: native_put_def one_call_def raising_def seqM_def bindM_def in_disk note_seen_run)
    show ?thesis
    proof (cases "m b")
      case None
      then show ?thesis using put fs_put_law [OF s b, of d] m rel v NvPut by (auto simp: native_rel_def)
    next
      case (Some d')
      then show ?thesis using put put_present [OF s b] m rel NvPut by (auto simp: native_rel_def)
    qed
  next
    case (NvGet b clock)
    then have b: "good_blob_id b" using ok by simp
    obtain q where g: "native_get E clock st b w = (q, t)" and r: "r = (case q of Ok d \<Rightarrow> Ok (Some d) | Err e \<Rightarrow> Err e | Panic \<Rightarrow> Panic)"
      using run NvGet by (auto simp: bindM_def split: prod.splits outcome.splits)
    show ?thesis
    proof (cases "m b")
      case None
      then show ?thesis using get_effect [OF s b _ g] m rel r NvGet by (cases q) (auto simp: native_rel_def)
    next
      case (Some d)
      then show ?thesis using get_cached [OF s b, of d E clock] g m rel r NvGet by (auto simp: native_rel_def fun_upd_idem)
    qed
  next
    case (NvDelete b)
    then show ?thesis
      using run fs_delete_law [OF s, of b] m rel ok
      by (auto simp: native_delete_def raising_def bindM_def liftM_def native_rel_def)
  next
    case (NvNet n)
    then show ?thesis using run rel by auto
  qed
qed

lemma native_run_effect:
  "native_rel (ne_hashes E) (ns_root st) m (nw_fs w) \<Longrightarrow> list_all (native_allowed (ne_hashes E)) evs
    \<Longrightarrow> native_run E st evs m w = (m', t) \<Longrightarrow> native_rel (ne_hashes E) (ns_root st) m' (nw_fs t)"
  by (induction evs arbitrary: m w) (auto dest: native_step_effect split: prod.splits)

text \<open>C9: The native store is a verified read-through cache. After any history of has, put, get and delete
  calls, with the network changing between them in any way and putting only bytes that have the digest
  of their identifier, the local directory holds exactly what was put or fetched and not deleted since.
  A get of such a blob returns those bytes without asking anyone; a get of any other blob returns only
  bytes that have its digest, and once it succeeded the blob is held.\<close>

theorem native_read_through:
  assumes "native_rel (ne_hashes E) (ns_root st) m (nw_fs w)" and "list_all (native_allowed (ne_hashes E)) evs"
    and "native_run E st evs m w = (m', t)" and "good_blob_id b" and "native_get E clock st b t = (r, u)"
  shows "fs_blobs (ns_root st) (nw_fs t) = m'
    \<and> (\<forall>d. m' b = Some d \<longrightarrow> r = Ok d \<and> verify_integrity (ne_hashes E) b d = Ok () \<and> nw_net u = nw_net t \<and> nw_fs u = nw_fs t)
    \<and> (m' b = None \<longrightarrow> (\<forall>d. r = Ok d \<longrightarrow> verify_integrity (ne_hashes E) b d = Ok ())
         \<and> fs_blobs (ns_root st) (nw_fs u) = (case r of Ok d \<Rightarrow> m'(b \<mapsto> d) | _ \<Rightarrow> m'))"
proof -
  have rel: "native_rel (ne_hashes E) (ns_root st) m' (nw_fs t)" by (rule native_run_effect [OF assms(1-3)])
  then have s: "fs_store_inv (ns_root st) (nw_fs t)" "fs_blobs (ns_root st) (nw_fs t) = m'" by (simp_all add: native_rel_def)
  show ?thesis
  proof (cases "m' b")
    case None
    then show ?thesis using get_effect [OF s(1) assms(4) _ assms(5)] s(2) by (cases r) simp_all
  next
    case (Some d)
    then show ?thesis using get_cached [OF s(1) assms(4), of d E clock] assms(5) s(2) rel by (auto simp: native_rel_def)
  qed
qed


section \<open>The number of files\<close>

definition files_below :: "fs \<Rightarrow> path \<Rightarrow> path set" where
  "files_below s p = {f. hget (fs_files s) f \<noteq> None \<and> (\<exists>e. e \<noteq> [] \<and> f = p @ e)}"

lemma finite_files_below [simp]: "finite (files_below s p)"
  by (rule finite_subset [OF _ List.finite_set [of "hkeys (fs_files s)"]]) (auto simp: files_below_def set_hkeys)

lemma depth_bound:
  assumes "fs_wf s" and "p @ e \<in> set (fs_dirs s)"
  shows "length e < length (fs_dirs s)"
proof -
  have "(\<lambda>k. take k (p @ e)) ` {length p..length p + length e} \<subseteq> set (fs_dirs s)"
  proof (rule image_subsetI)
    fix k
    show "take k (p @ e) \<in> set (fs_dirs s)"
      by (rule fs_wf_prefix [OF assms(1), of _ "drop k (p @ e)"]) (simp only: append_take_drop_id assms(2))
  qed
  moreover have "inj_on (\<lambda>k. take k (p @ e)) {length p..length p + length e}"
  proof (rule inj_onI)
    fix i j
    assume i: "i \<in> {length p..length p + length e}" and j: "j \<in> {length p..length p + length e}" and eq: "take i (p @ e) = take j (p @ e)"
    have "length (take i (p @ e)) = length (take j (p @ e))" by (simp only: eq)
    then show "i = j" using i j by (simp add: min_def split: if_splits)
  qed
  ultimately have "card {length p..length p + length e} \<le> card (set (fs_dirs s))"
    using card_inj_on_le by blast
  then show ?thesis using card_length [of "fs_dirs s"] by simp
qed

lemma read_dir_distinct:
  assumes "fs_read_dir d s = (Ok names, t)"
  shows "distinct names"
proof -
  obtain q where names: "names = map last (filter (\<lambda>e. e \<noteq> [] \<and> butlast e = q) (remdups (fs_dirs s @ hkeys (fs_files s))))"
    using assms by (auto simp: fs_read_dir_def bindR_eq_Ok split: if_splits)
  have "inj_on last (set (filter (\<lambda>e. e \<noteq> [] \<and> butlast e = q) (remdups (fs_dirs s @ hkeys (fs_files s)))))"
  proof (rule inj_onI)
    fix x y
    assume "x \<in> set (filter (\<lambda>e. e \<noteq> [] \<and> butlast e = q) (remdups (fs_dirs s @ hkeys (fs_files s))))"
      and "y \<in> set (filter (\<lambda>e. e \<noteq> [] \<and> butlast e = q) (remdups (fs_dirs s @ hkeys (fs_files s))))" and "last x = last y"
    then have "butlast x @ [last x] = butlast y @ [last y]" and "x \<noteq> []" and "y \<noteq> []" by auto
    then show "x = y" by simp
  qed
  then show ?thesis by (simp add: names distinct_map del: remdups_append2)
qed

text \<open>The count is that of all files below the root.\<close>

lemma count_blob_files_eq:
  assumes wf: "fs_wf s" and names: "\<And>f. hget (fs_files s) f \<noteq> None \<Longrightarrow> ''..'' \<notin> set f"
  shows "p \<in> set (fs_dirs s) \<Longrightarrow> (\<And>e. p @ e \<in> set (fs_dirs s) \<Longrightarrow> length e < k) \<Longrightarrow> count_blob_files k s p = card (files_below s p)"
proof (induction k arbitrary: p)
  case 0
  then show ?case by (metis append_Nil2 less_nat_zero_code)
next
  case (Suc k)
  obtain ns where rd: "fs_read_dir p s = (Ok ns, s)"
    and ns: "\<And>n. n \<in> set ns \<longleftrightarrow> p @ [n] \<in> set (fs_dirs s) \<or> hget (fs_files s) (p @ [n]) \<noteq> None"
    by (rule fs_read_dir_Ok [OF wf Suc.prems(1)]) blast
  let ?part = "\<lambda>n. if p @ [n] \<in> set (fs_dirs s) then files_below s (p @ [n]) else {p @ [n]}"
  have dir: "is_dir s (p @ [n]) \<longleftrightarrow> p @ [n] \<in> set (fs_dirs s)" if "n \<in> set ns" for n
  proof -
    have "''..'' \<notin> set (p @ [n])"
      using that ns [of n] names [of "p @ [n]"] wf unfolding fs_wf_def by blast
    then have "n \<noteq> ''..''" by auto
    then show ?thesis using fs_walk_child [OF wf Suc.prems(1)] by (simp add: is_dir_def)
  qed
  have "(if is_dir s (p @ [n]) then count_blob_files k s (p @ [n]) else 1) = card (?part n)" if "n \<in> set ns" for n
    using Suc.IH [of "p @ [n]"] Suc.prems(2) [of "n # _"] dir [OF that] by auto
  then have "count_blob_files (Suc k) s p = sum_list (map (\<lambda>n. card (?part n)) ns)"
    using rd by (simp cong: map_cong)
  also have "\<dots> = (\<Sum>n\<in>set ns. card (?part n))"
    by (rule sum_list_distinct_conv_sum_set [OF read_dir_distinct [OF rd]])
  also have "\<dots> = card (\<Union>n\<in>set ns. ?part n)"
    by (rule card_UN_disjoint [symmetric]) (simp, simp, auto simp: files_below_def)
  also have "(\<Union>n\<in>set ns. ?part n) = files_below s p"
  proof (rule set_eqI)
    fix f
    show "f \<in> (\<Union>n\<in>set ns. ?part n) \<longleftrightarrow> f \<in> files_below s p"
    proof
      assume "f \<in> (\<Union>n\<in>set ns. ?part n)"
      then obtain n where n: "n \<in> set ns" "f \<in> ?part n" by blast
      then show "f \<in> files_below s p" using ns [of n] by (auto simp: files_below_def split: if_splits)
    next
      assume f: "f \<in> files_below s p"
      then obtain n e where e: "f = p @ n # e" "hget (fs_files s) f \<noteq> None"
        by (auto simp: files_below_def neq_Nil_conv)
      show "f \<in> (\<Union>n\<in>set ns. ?part n)"
      proof (cases "e = []")
        case True
        then show ?thesis using e ns [of n] fs_wf_kind [OF wf, of f] by (intro UN_I [of n]) auto
      next
        case False
        have "butlast f \<in> set (fs_dirs s)" using e(2) wf unfolding fs_wf_def hhas_def by blast
        then have "p @ [n] \<in> set (fs_dirs s)"
          using fs_wf_prefix [OF wf, of "p @ [n]" "butlast e"] e(1) False by (simp add: butlast_append)
        then show ?thesis using e ns [of n] False by (intro UN_I [of n]) (auto simp: files_below_def)
      qed
    qed
  qed
  finally show ?case .
qed

text \<open>What \<open>blob_count\<close> returns is the number of files below the root, whatever they are: registries of
  documents that the other bindings keep there by default and leftovers of interrupted puts count too.\<close>

lemma blob_count_eq:
  assumes "fs_store_inv (ns_root st) (nw_fs w)" and "\<And>f. hget (fs_files (nw_fs w)) f \<noteq> None \<Longrightarrow> ''..'' \<notin> set f"
  shows "blob_count st w = (Ok (card (files_below (nw_fs w) (ns_root st))), w)"
  using count_blob_files_eq [OF store_inv_wf [OF assms(1)] assms(2) store_inv_root [OF assms(1)]]
    depth_bound [OF store_inv_wf [OF assms(1)], of "ns_root st"] less_Suc_eq
  by (simp add: blob_count_def del: count_blob_files.simps)


section \<open>What the store trusts\<close>

text \<open>C40: The local half is not verified. For every identifier that is not held, a put accepts any bytes,
  whatever their digest, and the following get returns them; after a delete the blob is gone, but the list
  of its replicas still names this cache.\<close>

theorem native_local_read_unverified:
  assumes "fs_store_inv (ns_root st) (nw_fs w)" and "good_blob_id b" and "fs_blobs (ns_root st) (nw_fs w) b = None"
  shows "\<exists>t u ns. native_put now st b d w = (Ok (), t) \<and> fst (native_get E clock st b t) = Ok d
    \<and> native_delete st b t = (Ok (), u) \<and> fs_blobs (ns_root st) (nw_fs u) b = None
    \<and> fst (replica_nodes b u) = Ok ns \<and> ''cache'' \<in> set ns"
proof -
  let ?rec = "\<lparr>rr_blob_id = b, rr_node_id = ''cache'', rr_state = Healthy, rr_last_seen = now\<rparr>"
  obtain s1 where s1: "fs_blob_put (ns_root st) b d (nw_fs w) = (Ok (), s1)" "fs_store_inv (ns_root st) s1"
    "fs_blobs (ns_root st) s1 = (fs_blobs (ns_root st) (nw_fs w))(b \<mapsto> d)"
    using fs_put_law [OF assms(1,2)] assms(3) by blast
  obtain s2 where s2: "fs_blob_delete (ns_root st) b s1 = (Ok (), s2)" "fs_blobs (ns_root st) s2 = (fs_blobs (ns_root st) s1)(b := None)"
    using fs_delete_law [OF s1(2) assms(2)] by blast
  let ?t = "w\<lparr>nw_fs := s1, nw_replicas := hput (b, ''cache'') ?rec (nw_replicas w)\<rparr>"
  show ?thesis
  proof (intro exI conjI)
    show "native_put now st b d w = (Ok (), ?t)"
      using s1(1) by (simp add: native_put_def one_call_def raising_def seqM_def bindM_def in_disk note_seen_run)
    show "fst (native_get E clock st b ?t) = Ok d"
      using get_cached [of st ?t b d E clock] s1(2,3) assms(2) by simp
    show "native_delete st b ?t = (Ok (), ?t\<lparr>nw_fs := s2\<rparr>)"
      using s2(1) by (simp add: native_delete_def raising_def liftM_def)
    show "fs_blobs (ns_root st) (nw_fs (?t\<lparr>nw_fs := s2\<rparr>)) b = None"
      using s2(2) by simp
    let ?l = "filter (\<lambda>r. rr_state r = Healthy) (filter (\<lambda>r. rr_blob_id r = b) (hvals (nw_replicas ?t)))"
    show "fst (replica_nodes b (?t\<lparr>nw_fs := s2\<rparr>)) = Ok (map rr_node_id ?l)"
      by (simp add: replica_nodes_def raising_def liftM_def mem_list_replicas_def bindM_def)
    have "((b, ''cache''), ?rec) \<in> set (hput (b, ''cache'') ?rec (nw_replicas w))" by (rule hget_mem) simp
    then have "?rec \<in> set ?l" by (force simp: hvals_def)
    then show "''cache'' \<in> set (map rr_node_id ?l)" by force
  qed
qed


section \<open>Instances\<close>

text \<open>A network on which every request has the same answer, which is the state of the network.\<close>

definition demo_native_env :: "(string, http_response) outcome native_env" where
  "demo_native_env = \<lparr>ne_hashes = demo_hashes, ne_client = returnM (), ne_http = (\<lambda>url n. (n, n)), ne_status = ''status''\<rparr>"

definition demo_native_store :: native_store where
  "demo_native_store = \<lparr>ns_root = [''blobs''], ns_sources = [], ns_peer_urls = [''http://a/''], ns_edge_urls = []\<rparr>"

definition demo_native_world :: "(string, http_response) outcome \<Rightarrow> (string, http_response) outcome native_world" where
  "demo_native_world n = \<lparr>nw_fs = demo_fs, nw_replicas = [], nw_net = n\<rparr>"

lemma demo_native_rel: "native_rel demo_hashes [''blobs''] Map.empty demo_fs"
  using demo_fs_inv demo_vacant by (auto simp: native_rel_def)

text \<open>A blob is fetched from a peer, the network goes down, and the blob can still be read.\<close>

theorem native_read_through_witness:
  "\<exists>u. (case native_run demo_native_env demo_native_store
            [NvNet (Ok \<lparr>hr_status = 200, hr_body = Ok [1]\<rparr>), NvGet ''blake3:000ab'' int, NvNet (Err ''down'')]
            Map.empty (demo_native_world (Err ''down'')) of
          (m, t) \<Rightarrow> native_get demo_native_env int demo_native_store ''blake3:000ab'' t) = (Ok [1], u)"
proof -
  let ?h = "[NvNet (Ok \<lparr>hr_status = 200, hr_body = Ok [1]\<rparr>), NvGet ''blake3:000ab'' int, NvNet (Err ''down'')]"
  obtain m t where run: "native_run demo_native_env demo_native_store ?h Map.empty (demo_native_world (Err ''down'')) = (m, t)"
    by force
  obtain r u where g: "native_get demo_native_env int demo_native_store ''blake3:000ab'' t = (r, u)" by force
  have good: "good_blob_id ''blake3:000ab''" by code_simp
  have "fst (native_run demo_native_env demo_native_store ?h Map.empty (demo_native_world (Err ''down''))) ''blake3:000ab'' = Some [1]"
    by code_simp
  then have "m ''blake3:000ab'' = Some [1]" using run by simp
  moreover have "ne_hashes demo_native_env = demo_hashes" "ns_root demo_native_store = [''blobs'']"
    "nw_fs (demo_native_world n) = demo_fs" for n
    by (simp_all add: demo_native_env_def demo_native_store_def demo_native_world_def)
  ultimately have "r = Ok [1]"
    using native_read_through [OF _ _ run good g] demo_native_rel good by simp
  then show ?thesis using run g by simp
qed

text \<open>Bytes of another digest are put and read back, and a deleted blob is still listed.\<close>

theorem native_local_read_unverified_witness:
  "verify_integrity demo_hashes ''blake3:000ab'' [2] = Err Integrity
   \<and> (\<exists>t u ns. native_put 7 demo_native_store ''blake3:000ab'' [2] (demo_native_world (Err ''down'')) = (Ok (), t)
       \<and> fst (native_get demo_native_env int demo_native_store ''blake3:000ab'' t) = Ok [2]
       \<and> native_delete demo_native_store ''blake3:000ab'' t = (Ok (), u)
       \<and> fs_blobs [''blobs''] (nw_fs u) ''blake3:000ab'' = None
       \<and> fst (replica_nodes ''blake3:000ab'' u) = Ok ns \<and> ''cache'' \<in> set ns)"
proof
  show "verify_integrity demo_hashes ''blake3:000ab'' [2] = Err Integrity" by code_simp
  have "good_blob_id ''blake3:000ab''" by code_simp
  then show "\<exists>t u ns. native_put 7 demo_native_store ''blake3:000ab'' [2] (demo_native_world (Err ''down'')) = (Ok (), t)
       \<and> fst (native_get demo_native_env int demo_native_store ''blake3:000ab'' t) = Ok [2]
       \<and> native_delete demo_native_store ''blake3:000ab'' t = (Ok (), u)
       \<and> fs_blobs [''blobs''] (nw_fs u) ''blake3:000ab'' = None
       \<and> fst (replica_nodes ''blake3:000ab'' u) = Ok ns \<and> ''cache'' \<in> set ns"
    using native_local_read_unverified [of demo_native_store "demo_native_world (Err ''down'')" "''blake3:000ab''" 7 "[2]" demo_native_env int]
      demo_fs_inv demo_vacant
    by (simp add: demo_native_store_def demo_native_world_def)
qed

end
