(* ===== verification/Sodl_WeightManifest.thy ===== *)
theory Sodl_WeightManifest
  imports Sodl_Registry
begin

text \<open>
  The manifest of shared weight clusters, \<open>crates/sodl-service/src/weight_manifest.rs\<close>: one JSON
  document that names the blob of every cluster. A new manifest inherits the metadata of the previous
  one and deletes the blobs that only the previous one named. The serialiser is an argument; the
  blobs themselves are put by the callers.
\<close>

section \<open>Strings and JSON values\<close>

text \<open>\<open>str::trim\<close> on the UTF-8 encoding: how many bytes the first (last) character has if it is White_Space,
  and 0 otherwise.\<close>

definition blank_lead :: "nat list \<Rightarrow> nat" where
  "blank_lead cs = (if cs \<noteq> [] \<and> blank_codes (take 1 cs) then 1
     else if 2 \<le> length cs \<and> blank_codes (take 2 cs) then 2
     else if 3 \<le> length cs \<and> blank_codes (take 3 cs) then 3 else 0)"

definition blank_tail :: "nat list \<Rightarrow> nat" where
  "blank_tail cs = (if cs \<noteq> [] \<and> blank_codes (drop (length cs - 1) cs) then 1
     else if 2 \<le> length cs \<and> blank_codes (drop (length cs - 2) cs) then 2
     else if 3 \<le> length cs \<and> blank_codes (drop (length cs - 3) cs) then 3 else 0)"

function trim_start :: "string \<Rightarrow> string" where
  "trim_start s = (let n = blank_lead (map of_char s) in if n = 0 then s else trim_start (drop n s))"
  by auto
termination by (relation "measure length") (auto simp: blank_lead_def split: if_splits)

function trim_end :: "string \<Rightarrow> string" where
  "trim_end s = (let n = blank_tail (map of_char s) in if n = 0 then s else trim_end (take (length s - n) s))"
  by auto
termination by (relation "measure length") (auto simp: blank_tail_def split: if_splits)

declare trim_start.simps [simp del] trim_end.simps [simp del]

definition str_trim :: "string \<Rightarrow> string" where
  "str_trim s = trim_end (trim_start s)"

definition as_object :: "json \<Rightarrow> (string \<times> json) list option" where
  "as_object j = (case j of JObj es \<Rightarrow> Some es | _ \<Rightarrow> None)"

definition as_str :: "json \<Rightarrow> string option" where
  "as_str j = (case j of JStr s \<Rightarrow> Some s | _ \<Rightarrow> None)"

definition json_get :: "json \<Rightarrow> string \<Rightarrow> json option" where
  "json_get j k = (case j of JObj es \<Rightarrow> map_of es k | _ \<Rightarrow> None)"

text \<open>\<open>Map::insert\<close>: the entries stay in the order of the keys.\<close>

fun obj_insert :: "string \<Rightarrow> json \<Rightarrow> (string \<times> json) list \<Rightarrow> (string \<times> json) list" where
  "obj_insert k v [] = [(k, v)]"
| "obj_insert k v ((k', v') # es) =
     (if k < k' then (k, v) # (k', v') # es
      else if k = k' then (k, v) # es
      else (k', v') # obj_insert k v es)"

definition obj_extend :: "(string \<times> json) list \<Rightarrow> (string \<times> json) list \<Rightarrow> (string \<times> json) list" where
  "obj_extend target incoming = fold (\<lambda>(k, v) t. obj_insert k v t) incoming target"

definition merge_metadata :: "json \<Rightarrow> json \<Rightarrow> json" where
  "merge_metadata target incoming =
     (let target_map = (case target of JObj es \<Rightarrow> es | _ \<Rightarrow> []) in
      case incoming of
        JObj es \<Rightarrow> JObj (obj_extend target_map es)
      | _ \<Rightarrow> JObj target_map)"


section \<open>The store\<close>

record manifest_cluster =
  mc_cluster_id :: u64
  mc_blob_id :: blob_id
  mc_member_token_ids :: "u32 list"

record weight_manifest =
  wm_origin_id :: string
  wm_vocab_size :: nat
  wm_embedding_dim :: nat
  wm_clusters :: "manifest_cluster list"
  wm_metadata :: json

record manifest_store =
  ms_path :: path
  ms_blobs :: "path option"

text \<open>\<open>Path::parent\<close> of a path with a file name is what remains without it.\<close>

definition manifest_open :: "path \<Rightarrow> path option \<Rightarrow> (fs, manifest_store) op" where
  "manifest_open p blob_root =
     seqM (if p = [] then returnM ()
       else (\<lambda>s. case fs_create_dir_all (butlast p) s of
           (Ok u, t) \<Rightarrow> (Ok (), t)
         | (Err k, t) \<Rightarrow> (Err (Io (''create weight manifest dir: '' @ io_show k)), t)
         | (Panic, t) \<Rightarrow> (Panic, t)))
     (case blob_root of
        None \<Rightarrow> returnM \<lparr>ms_path = p, ms_blobs = None\<rparr>
      | Some root \<Rightarrow> bindM (fs_blob_open root) (\<lambda>root'. returnM \<lparr>ms_path = p, ms_blobs = Some root'\<rparr>))"

definition load_manifest :: "weight_manifest codec \<Rightarrow> manifest_store \<Rightarrow> (fs, weight_manifest option) op" where
  "load_manifest J W =
     bindM (readM (\<lambda>s. Ok (fs_exists s (ms_path W)))) (\<lambda>found.
       if \<not> found then returnM None
       else
         bindM (read_doc ''weight manifest'' (ms_path W)) (\<lambda>b.
         bindM (pureM (parse_doc ''weight manifest'' (ms_path W) J b)) (\<lambda>m. returnM (Some m))))"

text \<open>The origin that the record of a resumed run names.\<close>

definition resumed_origin :: "json option \<Rightarrow> string option" where
  "resumed_origin resume =
     (case Option.bind (Option.bind resume (\<lambda>payload. json_get payload ''metadata'')) as_object of
        None \<Rightarrow> None
      | Some meta \<Rightarrow>
          (case map_option str_trim (Option.bind (map_of meta ''sodl_origin_id'') as_str) of
             Some v \<Rightarrow> if v \<noteq> [] then Some v else None
           | None \<Rightarrow> None))"

definition recorded_checkpoint :: "json \<Rightarrow> string" where
  "recorded_checkpoint metadata =
     (case map_option str_trim (Option.bind (json_get metadata ''checkpoint_origin'') as_str) of
        Some v \<Rightarrow> v | None \<Rightarrow> [])"

definition manifest_origin :: "string \<Rightarrow> weight_manifest option \<Rightarrow> string option \<times> string" where
  "manifest_origin checkpoint manifest =
     (case manifest of
        None \<Rightarrow> (None, ''new'')
      | Some m \<Rightarrow>
          (let org = str_trim (wm_origin_id m); recorded = recorded_checkpoint (wm_metadata m) in
           if org = [] then (None, ''new'')
           else if recorded \<noteq> [] \<and> recorded \<noteq> checkpoint then (None, ''new'')
           else (Some org, ''manifest'')))"

definition resolve_origin_id ::
  "weight_manifest codec \<Rightarrow> manifest_store \<Rightarrow> string \<Rightarrow> json option \<Rightarrow> (fs, string option \<times> string) op" where
  "resolve_origin_id J W checkpoint resume =
     (case resumed_origin resume of
        Some org \<Rightarrow> returnM (Some org, ''resume_record'')
      | None \<Rightarrow> bindM (load_manifest J W) (\<lambda>m. returnM (manifest_origin checkpoint m)))"

definition next_manifest ::
  "weight_manifest option \<Rightarrow> string \<Rightarrow> nat \<Rightarrow> nat \<Rightarrow> manifest_cluster list \<Rightarrow> json option \<Rightarrow> weight_manifest" where
  "next_manifest previous org vocab dim clusters metadata =
     (let old = (case previous of Some m \<Rightarrow> wm_metadata m | None \<Rightarrow> default_json_object) in
      \<lparr>wm_origin_id = org, wm_vocab_size = vocab, wm_embedding_dim = dim,
       wm_clusters = sort_key mc_cluster_id clusters,
       wm_metadata = (case metadata of Some new \<Rightarrow> merge_metadata old new | None \<Rightarrow> old)\<rparr>)"

definition manifest_ids :: "weight_manifest \<Rightarrow> blob_id list" where
  "manifest_ids m = map mc_blob_id (wm_clusters m)"

definition stale_ids :: "weight_manifest \<Rightarrow> weight_manifest \<Rightarrow> blob_id list" where
  "stale_ids previous m = remdups (filter (\<lambda>b. b \<notin> set (manifest_ids m)) (manifest_ids previous))"

definition write_manifest ::
  "weight_manifest codec \<Rightarrow> manifest_store \<Rightarrow> string \<Rightarrow> nat \<Rightarrow> nat \<Rightarrow> manifest_cluster list \<Rightarrow> json option
     \<Rightarrow> (fs, weight_manifest) op" where
  "write_manifest J W org vocab dim clusters metadata =
     bindM (load_manifest J W) (\<lambda>previous.
     let m = next_manifest previous org vocab dim clusters metadata in
     bindM (pureM (print_doc ''weight manifest'' J m)) (\<lambda>b.
     seqM (replace_doc ''weight manifest'' (ms_path W) b)
     (case (previous, ms_blobs W) of
        (Some old, Some root) \<Rightarrow> bindM (delete_blobs root [] (stale_ids old m) 0) (\<lambda>_. returnM m)
      | _ \<Rightarrow> returnM m)))"


section \<open>What the code relies on\<close>

text \<open>
  An object lists its keys in order and once each, as \<open>serde_json::Map\<close> does, and the reader gives up
  on values nested deeper than 127. A decimal form need not keep the last bit of a float, so values
  are compared without them.
\<close>

fun json_sorted :: "json \<Rightarrow> bool" where
  "json_sorted (JArr xs) = list_all json_sorted xs"
| "json_sorted (JObj es) = (sorted (map fst es) \<and> distinct (map fst es) \<and> list_all (\<lambda>(k, v). json_sorted v) es)"
| "json_sorted j = True"

fun json_depth :: "json \<Rightarrow> nat" where
  "json_depth (JArr xs) = Suc (fold (\<lambda>x n. max (json_depth x) n) xs 0)"
| "json_depth (JObj es) = Suc (fold (\<lambda>(k, v) n. max (json_depth v) n) es 0)"
| "json_depth j = 0"

fun json_shape :: "json \<Rightarrow> json" where
  "json_shape (JFloat w) = JFloat 0"
| "json_shape (JArr xs) = JArr (map json_shape xs)"
| "json_shape (JObj es) = JObj (map (\<lambda>(k, v). (k, json_shape v)) es)"
| "json_shape j = j"

definition metadata_ok :: "json \<Rightarrow> bool" where
  "metadata_ok j \<longleftrightarrow> json_sorted j \<and> json_depth j \<le> 126"

definition manifest_shape :: "weight_manifest \<Rightarrow> weight_manifest" where
  "manifest_shape m = m\<lparr>wm_metadata := json_shape (wm_metadata m)\<rparr>"

definition manifest_codec_ok :: "weight_manifest codec \<Rightarrow> bool" where
  "manifest_codec_ok J \<longleftrightarrow>
     (\<forall>m. metadata_ok (wm_metadata m) \<longrightarrow>
        (\<exists>b g. to_vec J m = Ok b \<and> from_slice J b = Ok g \<and> manifest_shape g = manifest_shape m))
     \<and> (\<forall>b g. from_slice J b = Ok g \<longrightarrow> metadata_ok (wm_metadata g))"

section \<open>Metadata\<close>

lemma fold_max_le: "fold (\<lambda>x n. max (f x) n) xs k \<le> (b :: nat) \<longleftrightarrow> k \<le> b \<and> (\<forall>x \<in> set xs. f x \<le> b)"
  by (induction xs arbitrary: k) auto

lemma object_ok:
  "metadata_ok (JObj es) \<longleftrightarrow> sorted_wrt (<) (map fst es) \<and> (\<forall>(k, v) \<in> set es. json_sorted v \<and> json_depth v \<le> 125)"
proof -
  have "json_depth (JObj es) \<le> 126 \<longleftrightarrow> (\<forall>(k, v) \<in> set es. json_depth v \<le> 125)"
    using fold_max_le [of "\<lambda>(k, v). json_depth v" es 0 125] by (simp add: split_def)
  then show ?thesis by (auto simp: metadata_ok_def strict_sorted_iff list_all_iff)
qed

lemma obj_insert_set: "set (obj_insert k v es) \<subseteq> insert (k, v) (set es)"
  and obj_insert_keys: "fst ` set (obj_insert k v es) = insert k (fst ` set es)"
  by (induction es rule: obj_insert.induct) (auto split: if_splits)

lemma obj_insert_sorted: "sorted_wrt (<) (map fst es) \<Longrightarrow> sorted_wrt (<) (map fst (obj_insert k v es))"
proof (induction es)
  case (Cons e es)
  have keys: "fst ` set (obj_insert k v es) = insert k (fst ` set es)" by (rule obj_insert_keys)
  show ?case
  proof (cases "fst e < k")
    case True
    then have "obj_insert k v (e # es) = e # obj_insert k v es" by (cases e) auto
    moreover have "\<forall>x \<in> set (map fst (obj_insert k v es)). fst e < x"
      using Cons.prems True by (simp add: keys)
    moreover have "sorted_wrt (<) (map fst (obj_insert k v es))" using Cons by simp
    ultimately show ?thesis by simp
  next
    case False
    then show ?thesis using Cons.prems by (cases e) (auto intro: order.strict_trans)
  qed
qed simp

lemma merge_metadata_ok:
  assumes "metadata_ok a" and "metadata_ok b"
  shows "metadata_ok (merge_metadata a b)"
proof -
  have fold: "metadata_ok (JObj (obj_extend t es))" if "metadata_ok (JObj t)" "\<forall>(k, v) \<in> set es. json_sorted v \<and> json_depth v \<le> 125" for t es
    using that
  proof (induction es arbitrary: t)
    case (Cons e es)
    have "metadata_ok (JObj (obj_insert (fst e) (snd e) t))"
      using Cons.prems obj_insert_set [of "fst e" "snd e" t] obj_insert_sorted [of t "fst e" "snd e"]
      by (fastforce simp: object_ok split_def)
    then show ?case using Cons by (simp add: obj_extend_def split_def)
  qed (simp add: obj_extend_def)
  have empty: "metadata_ok (JObj [])" by (simp add: object_ok)
  have "metadata_ok (JObj (case a of JObj es \<Rightarrow> es | _ \<Rightarrow> []))" using assms(1) empty by (cases a) auto
  moreover from this have "metadata_ok (JObj (obj_extend (case a of JObj es \<Rightarrow> es | _ \<Rightarrow> []) es))" if "b = JObj es" for es
    using fold assms(2) unfolding that object_ok by blast
  ultimately show ?thesis by (cases b) (simp_all add: merge_metadata_def)
qed

lemma merge_metadata_shape:
  "json_shape (merge_metadata a b) = merge_metadata (json_shape a) (json_shape b)"
proof -
  let ?s = "map (\<lambda>(k, v). (k, json_shape v))"
  have ins: "?s (obj_insert k v es) = obj_insert k (json_shape v) (?s es)" for k v es
    by (induction es) auto
  have ext: "?s (obj_extend t es) = obj_extend (?s t) (?s es)" for t es
    by (induction es arbitrary: t) (simp_all add: obj_extend_def split_def ins [unfolded split_def])
  show ?thesis by (cases a; cases b) (simp_all add: merge_metadata_def ext)
qed

lemma next_manifest_shape:
  "map_option manifest_shape p = map_option manifest_shape q \<Longrightarrow>
   manifest_shape (next_manifest p org v d cs md) = manifest_shape (next_manifest q org v d cs md)"
  by (cases p; cases q)
    (auto simp: next_manifest_def manifest_shape_def Let_def merge_metadata_shape dest: arg_cong [where f = wm_metadata]
      split: option.splits)

lemma manifest_shape_fields:
  assumes "manifest_shape g = manifest_shape m"
  shows "wm_origin_id g = wm_origin_id m" and "wm_clusters g = wm_clusters m" and "manifest_ids g = manifest_ids m"
    and "json_shape (wm_metadata g) = json_shape (wm_metadata m)"
proof -
  have "wm_origin_id (manifest_shape g) = wm_origin_id (manifest_shape m)" "wm_clusters (manifest_shape g) = wm_clusters (manifest_shape m)"
    "wm_metadata (manifest_shape g) = wm_metadata (manifest_shape m)" using assms by simp_all
  then show "wm_origin_id g = wm_origin_id m" "wm_clusters g = wm_clusters m" "manifest_ids g = manifest_ids m"
    "json_shape (wm_metadata g) = json_shape (wm_metadata m)" by (simp_all add: manifest_shape_def manifest_ids_def)
qed

lemma manifest_origin_shape:
  assumes "map_option manifest_shape p = map_option manifest_shape q"
  shows "manifest_origin c p = manifest_origin c q"
proof -
  have str: "as_str (json_shape j) = as_str j" for j by (cases j) (simp_all add: as_str_def)
  have get: "json_get (json_shape j) k = map_option json_shape (json_get j k)" for j k
    by (cases j) (simp_all add: json_get_def map_of_map)
  have rec: "recorded_checkpoint (json_shape j) = recorded_checkpoint j" for j
    by (cases "json_get j ''checkpoint_origin''") (simp_all add: recorded_checkpoint_def get str)
  show ?thesis
  proof (cases p)
    case None
    then show ?thesis using assms by simp
  next
    case (Some g)
    then obtain m where m: "q = Some m" "manifest_shape g = manifest_shape m" using assms by (cases q) auto
    then show ?thesis
      using Some manifest_shape_fields [OF m(2)] rec [of "wm_metadata g"] rec [of "wm_metadata m"]
      by (simp add: manifest_origin_def Let_def)
  qed
qed

section \<open>The abstract store\<close>

text \<open>
  Abstractly the store is the current manifest and the blobs. \<open>manifest_rel\<close> relates it to the file
  system: the document \<open>name\<close> in the directory \<open>dir\<close> holds the manifest, up to the last bit of floats.
\<close>

type_synonym manifest_view = "weight_manifest option \<times> (blob_id \<Rightarrow> bytes option)"

definition manifest_rel :: "weight_manifest codec \<Rightarrow> path \<Rightarrow> path \<Rightarrow> string \<Rightarrow> fs \<Rightarrow> manifest_view \<Rightarrow> bool" where
  "manifest_rel J root dir name s A \<longleftrightarrow>
     registry_inv J root dir name s
     \<and> map_option manifest_shape (doc_at J dir s name) = map_option manifest_shape (fst A)
     \<and> fs_blobs root s = snd A
     \<and> (\<forall>m. fst A = Some m \<longrightarrow> (\<forall>b \<in> set (manifest_ids m). good_blob_id b))"

definition shared_store :: "path \<Rightarrow> path \<Rightarrow> string \<Rightarrow> manifest_store" where
  "shared_store root dir name = \<lparr>ms_path = dir @ [name], ms_blobs = Some root\<rparr>"

datatype manifest_event =
    PutBlob blob_id bytes
  | WriteManifest string nat nat "manifest_cluster list" "json option"

fun manifest_perform :: "weight_manifest codec \<Rightarrow> path \<Rightarrow> manifest_store \<Rightarrow> manifest_event \<Rightarrow> (fs, unit) op" where
  "manifest_perform J root W (PutBlob b d) = fs_blob_put root b d"
| "manifest_perform J root W (WriteManifest org v d cs md) = voidM (write_manifest J W org v d cs md)"

fun manifest_effect :: "manifest_event \<Rightarrow> manifest_view \<Rightarrow> manifest_view" where
  "manifest_effect (PutBlob b d) (M, B) = (M, B(b \<mapsto> d))"
| "manifest_effect (WriteManifest org v d cs md) (M, B) =
     (let m = next_manifest M org v d cs md in
      (Some m, \<lambda>b. if (case M of Some old \<Rightarrow> b \<in> set (manifest_ids old) | None \<Rightarrow> False) \<and> b \<notin> set (manifest_ids m)
         then None else B b))"

text \<open>Blobs are content addressed, and a manifest is written once its blobs are stored.\<close>

fun manifest_allowed :: "manifest_event \<Rightarrow> 'm \<times> (blob_id \<Rightarrow> bytes option) \<Rightarrow> bool" where
  "manifest_allowed (PutBlob b d) (M, B) \<longleftrightarrow> good_blob_id b \<and> (B b = None \<or> B b = Some d)"
| "manifest_allowed (WriteManifest org v d cs md) (M, B) \<longleftrightarrow>
     list_all (\<lambda>c. good_blob_id (mc_blob_id c) \<and> B (mc_blob_id c) \<noteq> None) cs
     \<and> (case md of Some j \<Rightarrow> metadata_ok j | None \<Rightarrow> True)"

fun manifest_lawful :: "manifest_event list \<Rightarrow> manifest_view \<Rightarrow> bool" where
  "manifest_lawful [] A = True"
| "manifest_lawful (ev # evs) A = (manifest_allowed ev A \<and> manifest_lawful evs (manifest_effect ev A))"

lemma manifest_loads:
  assumes rel: "manifest_rel J root dir name s A" and name: "json_suffix name"
  obtains g where "load_manifest J (shared_store root dir name) s = (Ok g, s)"
    and "g = doc_at J dir s name" and "map_option manifest_shape g = map_option manifest_shape (fst A)"
proof -
  have inv: "registry_inv J root dir name s" using rel by (simp add: manifest_rel_def)
  have self: "ends_with name name" by (simp add: ends_with_def)
  have found: "fs_exists s (dir @ [name]) \<longleftrightarrow> doc_at J dir s name \<noteq> None"
    by (rule registry_exists [OF inv name self])
  have "load_manifest J (shared_store root dir name) s = (Ok (doc_at J dir s name), s)"
  proof (cases "doc_at J dir s name")
    case None
    then show ?thesis using found by (simp add: load_manifest_def shared_store_def bindM_def)
  next
    case (Some g)
    obtain b where "read_doc ''weight manifest'' (dir @ [name]) s = (Ok b, s)" "from_slice J b = Ok g"
      by (rule registry_read [OF inv name self Some])
    then show ?thesis using found Some
      by (simp add: load_manifest_def shared_store_def bindM_def parse_doc_Ok)
  qed
  then show ?thesis using that rel by (simp add: manifest_rel_def)
qed

lemma manifest_get:
  assumes "manifest_rel J root dir name s A" and "good_blob_id b"
  shows "fs_blob_get root b s = (of_option NotFound (snd A b), s)"
  using assms fs_get_law [OF registry_store assms(2), of J root dir name s] by (simp add: manifest_rel_def)

lemma manifest_doc_ok:
  assumes "manifest_codec_ok J" and "doc_at J dir s name = Some g"
  shows "metadata_ok (wm_metadata g)"
  using assms by (auto simp: manifest_codec_ok_def doc_at_def try_parse_def split: option.splits outcome.splits)

lemma next_manifest_ok:
  assumes "\<And>g. p = Some g \<Longrightarrow> metadata_ok (wm_metadata g)" and "\<And>j. md = Some j \<Longrightarrow> metadata_ok j"
  shows "metadata_ok (wm_metadata (next_manifest p org v d cs md))"
  using assms merge_metadata_ok
  by (auto simp: next_manifest_def Let_def default_json_object_def object_ok split: option.split)

lemma next_manifest_ids: "set (manifest_ids (next_manifest p org v d cs md)) = mc_blob_id ` set cs"
  by (simp add: next_manifest_def manifest_ids_def Let_def)

lemma manifest_write_step:
  assumes J: "manifest_codec_ok J" and rel: "manifest_rel J root dir name s (M, B)" and name: "json_suffix name"
    and cs: "list_all (\<lambda>c. good_blob_id (mc_blob_id c)) cs" and md: "\<And>j. md = Some j \<Longrightarrow> metadata_ok j"
  shows "\<exists>m t. write_manifest J (shared_store root dir name) org v d cs md s = (Ok m, t)
    \<and> manifest_shape m = manifest_shape (next_manifest M org v d cs md)
    \<and> manifest_rel J root dir name t (manifest_effect (WriteManifest org v d cs md) (M, B))"
proof -
  have inv: "registry_inv J root dir name s" using rel by (simp add: manifest_rel_def)
  have self: "ends_with name name" by (simp add: ends_with_def)
  obtain p where p: "load_manifest J (shared_store root dir name) s = (Ok p, s)" "p = doc_at J dir s name"
    "map_option manifest_shape p = map_option manifest_shape M"
    using manifest_loads [OF rel name] by auto
  let ?m = "next_manifest p org v d cs md" and ?n = "next_manifest M org v d cs md"
  have shape: "manifest_shape ?m = manifest_shape ?n" by (rule next_manifest_shape [OF p(3)])
  have "metadata_ok (wm_metadata ?m)"
    using manifest_doc_ok [OF J] p(2) md by (intro next_manifest_ok) auto
  then obtain b g where b: "to_vec J ?m = Ok b" "from_slice J b = Ok g" "manifest_shape g = manifest_shape ?m"
    using J unfolding manifest_codec_ok_def by blast
  obtain u where r: "replace_doc ''weight manifest'' (dir @ [name]) b s = (Ok (), u)" "registry_inv J root dir name u"
    "fs_blobs root u = fs_blobs root s"
    "\<And>n. ends_with n name \<Longrightarrow> doc_at J dir u n = (if n = name then Some g else doc_at J dir s n)"
    by (rule replace_doc_Ok [where noun = "''weight manifest''", OF inv name self b(2)]) blast
  have u: "registry_inv J root dir name u" "fs_blobs root u = B" "doc_at J dir u name = Some g"
    using r(2,3) r(4) [OF self] rel by (simp_all add: manifest_rel_def)
  have rel': "manifest_rel J root dir name t (Some ?n, B')"
    if "registry_inv J root dir name t" "doc_at J dir t name = Some g" "fs_blobs root t = B'" for t B'
    using that b(3) shape cs by (auto simp: manifest_rel_def next_manifest_ids list_all_iff)
  have run: "write_manifest J (shared_store root dir name) org v d cs md s =
    (case p of Some old \<Rightarrow> bindM (delete_blobs root [] (stale_ids old ?m) 0) (\<lambda>_. returnM ?m) | None \<Rightarrow> returnM ?m) u"
    using p(1) b(1) r(1)
    by (simp add: write_manifest_def bindM_Ok print_doc_def Let_def shared_store_def seqM_Ok split: option.split)
  show ?thesis
  proof (cases p)
    case None
    then have "M = None" using p(3) by simp
    then show ?thesis using run None shape rel' [OF u(1,3,2)] by (auto simp: Let_def)
  next
    case (Some old)
    then obtain old' where old': "M = Some old'" "manifest_shape old = manifest_shape old'" using p(3) by (cases M) auto
    have ids: "manifest_ids old = manifest_ids old'" "manifest_ids ?m = manifest_ids ?n"
      using manifest_shape_fields(3) old'(2) shape by blast+
    have "good_blob_id x" if "x \<in> set (stale_ids old ?m)" for x
      using that rel ids(1) old'(1) by (simp add: stale_ids_def manifest_rel_def)
    then obtain k t where t: "delete_blobs root [] (stale_ids old ?m) 0 u = (Ok k, t)" "fs_store_inv root t"
      "same_outside root u t"
      "fs_blobs root t = (\<lambda>b. if b \<in> set (stale_ids old ?m) \<and> b \<notin> set [] then None else fs_blobs root u b)"
      using delete_blobs_Ok [OF registry_store [OF u(1)], of "stale_ids old ?m" "[]" 0] by blast
    have doc: "registry_inv J root dir name t" "doc_at J dir t name = Some g"
      using same_outside_docs [OF u(1) t(3,2)] self u(3) by simp_all
    have "fs_blobs root t = snd (manifest_effect (WriteManifest org v d cs md) (M, B))"
      unfolding t(4) u(2) using old'(1) ids by (auto simp: Let_def stale_ids_def)
    then have "manifest_rel J root dir name t (manifest_effect (WriteManifest org v d cs md) (M, B))"
      using rel' [OF doc] by (simp add: Let_def)
    moreover have "write_manifest J (shared_store root dir name) org v d cs md s = (Ok ?m, t)"
      using run Some t(1) by (simp add: bindM_Ok)
    ultimately show ?thesis using shape by blast
  qed
qed

lemma manifest_put_step:
  assumes rel: "manifest_rel J root dir name s (M, B)" and "good_blob_id b" and "B b = None \<or> B b = Some d"
  shows "\<exists>t. fs_blob_put root b d s = (Ok (), t) \<and> manifest_rel J root dir name t (M, B(b \<mapsto> d))"
proof -
  have inv: "registry_inv J root dir name s" and B: "fs_blobs root s = B" using rel by (simp_all add: manifest_rel_def)
  obtain t where t: "fs_blob_put root b d s = (Ok (), t)" "fs_store_inv root t" "fs_blobs root t = B(b \<mapsto> d)"
    "same_outside root s t"
    using fs_put_law [OF registry_store [OF inv] assms(2), of d] assms(3) B by auto
  have "ends_with name name" by (simp add: ends_with_def)
  then show ?thesis
    using t same_outside_docs [OF inv t(4,2)] rel by (auto simp: manifest_rel_def)
qed

lemma manifest_histories:
  assumes "manifest_codec_ok J" and "json_suffix name" and "manifest_rel J root dir name s A"
    and "manifest_lawful evs A"
  shows "\<exists>t. forM evs (manifest_perform J root (shared_store root dir name)) s = (Ok (), t)
    \<and> manifest_rel J root dir name t (fold manifest_effect evs A)"
  using assms(3,4)
proof (induction evs arbitrary: s A)
  case Nil
  then show ?case by simp
next
  case (Cons ev evs)
  obtain M B where A: "A = (M, B)" by (cases A)
  obtain u where u: "manifest_perform J root (shared_store root dir name) ev s = (Ok (), u)"
    "manifest_rel J root dir name u (manifest_effect ev A)"
  proof (cases ev)
    case (PutBlob b d)
    then show thesis
      using that manifest_put_step [OF Cons.prems(1) [unfolded A], of b d] Cons.prems(2) A by auto
  next
    case (WriteManifest org v d cs md)
    have "list_all (\<lambda>c. good_blob_id (mc_blob_id c)) cs" "\<And>j. md = Some j \<Longrightarrow> metadata_ok j"
      using Cons.prems(2) A WriteManifest by (auto simp: list_all_iff)
    then show thesis
      using that manifest_write_step [OF assms(1) Cons.prems(1) [unfolded A] assms(2), of cs md org v d] A WriteManifest
      by (auto simp: voidM_def bindM_Ok)
  qed
  then show ?case using Cons.IH [OF u(2)] Cons.prems(2) by (auto simp: seqM_Ok)
qed

text \<open>No blob of the current manifest is missing.\<close>

definition no_dangling :: "manifest_view \<Rightarrow> bool" where
  "no_dangling A \<longleftrightarrow> (\<forall>m. fst A = Some m \<longrightarrow> (\<forall>b \<in> set (manifest_ids m). snd A b \<noteq> None))"

lemma effect_no_dangling:
  assumes "manifest_allowed ev A" and "no_dangling A"
  shows "no_dangling (manifest_effect ev A)"
proof (cases ev)
  case (PutBlob b d)
  then show ?thesis using assms(2) by (cases A) (auto simp: no_dangling_def)
next
  case (WriteManifest org v d cs md)
  then show ?thesis
    using assms(1) by (cases A) (auto simp: no_dangling_def Let_def next_manifest_ids list_all_iff)
qed

lemma history_no_dangling: "manifest_lawful evs A \<Longrightarrow> no_dangling A \<Longrightarrow> no_dangling (fold manifest_effect evs A)"
  by (induction evs arbitrary: A) (simp_all add: effect_no_dangling)

lemma manifest_opened:
  assumes lay: "doc_layout root dir" and name: "json_suffix name"
  obtains s where "manifest_open (dir @ [name]) (Some root) empty_disk = (Ok (shared_store root dir name), s)"
    and "manifest_rel J root dir name s (None, \<lambda>_. None)"
proof -
  obtain s where s: "fs_create_dir_all dir empty_disk = (Ok (), s)" "fs_files s = []"
    "set (fs_dirs s) = {[]} \<union> {q. prefix q dir}"
    using mkdirs_disk [of empty_disk dir] lay by (auto simp: empty_disk_def doc_layout_def)
  obtain t where t: "fs_create_dir_all root s = (Ok (), t)" "fs_files t = []"
    "set (fs_dirs t) = set (fs_dirs s) \<union> {q. prefix q root}"
    using mkdirs_disk [of s root] s(2,3) lay by (auto simp: doc_layout_def)
  have "set (fs_dirs t) = {q. prefix q root \<or> prefix q dir}" using s(3) t(3) by auto
  then have "registry_inv J root dir name t" by (rule registry_opened [OF lay name t(2)])
  then have "manifest_rel J root dir name t (None, \<lambda>_. None)"
    using t(2) by (simp add: manifest_rel_def doc_at_def fs_blobs_def fun_eq_iff)
  moreover have "manifest_open (dir @ [name]) (Some root) empty_disk = (Ok (shared_store root dir name), t)"
    using s(1) t(1) by (simp add: manifest_open_def shared_store_def fs_blob_open_def map_io_def bindM_Ok seqM_Ok)
  ultimately show ?thesis using that by blast
qed

section \<open>What a manifest says\<close>

text \<open>
  The specification, without the code's lists and documents: the last write decides the origin, the
  sizes and the clusters, and the metadata is a map that every write extends, new values over old ones.
  \<open>manifest_shows\<close> says what a reader may rely on: the clusters in the order of their identifiers,
  equal identifiers in the order given, and the metadata under every key up to the last bit of floats.
\<close>

record manifest_spec =
  sp_origin :: string
  sp_vocab :: nat
  sp_dim :: nat
  sp_clusters :: "manifest_cluster list"
  sp_metadata :: "string \<Rightarrow> json option"

type_synonym spec_view = "manifest_spec option \<times> (blob_id \<Rightarrow> bytes option)"

definition spec_blobs :: "manifest_spec option \<Rightarrow> blob_id set" where
  "spec_blobs M = (case M of Some m \<Rightarrow> mc_blob_id ` set (sp_clusters m) | None \<Rightarrow> {})"

fun spec_effect :: "manifest_event \<Rightarrow> spec_view \<Rightarrow> spec_view" where
  "spec_effect (PutBlob b d) (M, B) = (M, B(b \<mapsto> d))"
| "spec_effect (WriteManifest org v d cs md) (M, B) =
     (Some \<lparr>sp_origin = org, sp_vocab = v, sp_dim = d, sp_clusters = cs,
        sp_metadata = (case M of Some m \<Rightarrow> sp_metadata m | None \<Rightarrow> Map.empty)
          ++ (case md of Some (JObj es) \<Rightarrow> map_of es | _ \<Rightarrow> Map.empty)\<rparr>,
      \<lambda>b. if b \<in> spec_blobs M \<and> b \<notin> mc_blob_id ` set cs then None else B b)"

definition spec_history :: "manifest_event list \<Rightarrow> spec_view" where
  "spec_history evs = fold spec_effect evs (None, \<lambda>_. None)"

fun spec_lawful :: "manifest_event list \<Rightarrow> spec_view \<Rightarrow> bool" where
  "spec_lawful [] A = True"
| "spec_lawful (ev # evs) A = (manifest_allowed ev A \<and> spec_lawful evs (spec_effect ev A))"

definition manifest_shows :: "weight_manifest \<Rightarrow> manifest_spec \<Rightarrow> bool" where
  "manifest_shows m a \<longleftrightarrow> wm_origin_id m = sp_origin a \<and> wm_vocab_size m = sp_vocab a
     \<and> wm_embedding_dim m = sp_dim a
     \<and> sorted (map mc_cluster_id (wm_clusters m))
     \<and> (\<forall>i. filter (\<lambda>c. mc_cluster_id c = i) (wm_clusters m) = filter (\<lambda>c. mc_cluster_id c = i) (sp_clusters a))
     \<and> as_object (wm_metadata m) \<noteq> None
     \<and> (\<forall>k. map_option json_shape (json_get (wm_metadata m) k) = map_option json_shape (sp_metadata a k))"

definition spec_origin :: "string \<Rightarrow> manifest_spec option \<Rightarrow> string option \<times> string" where
  "spec_origin checkpoint M =
     (case M of
        None \<Rightarrow> (None, ''new'')
      | Some a \<Rightarrow>
          if str_trim (sp_origin a) = []
            \<or> (case sp_metadata a ''checkpoint_origin'' of
                 Some (JStr r) \<Rightarrow> str_trim r \<noteq> [] \<and> str_trim r \<noteq> checkpoint
               | _ \<Rightarrow> False)
          then (None, ''new'')
          else (Some (str_trim (sp_origin a)), ''manifest''))"

text \<open>What a written manifest says is what the specification says, before the document rounds its floats.\<close>

definition spec_matches :: "weight_manifest option \<Rightarrow> manifest_spec option \<Rightarrow> bool" where
  "spec_matches M S \<longleftrightarrow> (case (M, S) of
      (None, None) \<Rightarrow> True
    | (Some m, Some a) \<Rightarrow> manifest_shows m a \<and> json_get (wm_metadata m) = sp_metadata a
    | _ \<Rightarrow> False)"

lemma map_of_insert: "map_of (obj_insert k v es) = (map_of es)(k \<mapsto> v)"
  by (induction es rule: obj_insert.induct) auto

lemma map_of_extend: "distinct (map fst es) \<Longrightarrow> map_of (obj_extend t es) = map_of t ++ map_of es"
proof (induction es arbitrary: t)
  case Nil
  then show ?case by (simp add: obj_extend_def)
next
  case (Cons e es)
  have "obj_extend t (e # es) = obj_extend (obj_insert (fst e) (snd e) t) es"
    by (simp add: obj_extend_def split_def)
  moreover have "map_of es (fst e) = None" using Cons.prems by (simp add: map_of_eq_None_iff)
  ultimately show ?case using Cons by (auto simp: map_of_insert fun_eq_iff map_add_def split: option.split)
qed

lemma merged_lookup:
  assumes "as_object old \<noteq> None" and "metadata_ok new"
  shows "as_object (merge_metadata old new) \<noteq> None"
    and "json_get (merge_metadata old new) = json_get old ++ (case new of JObj es \<Rightarrow> map_of es | _ \<Rightarrow> Map.empty)"
proof -
  obtain t where t: "old = JObj t" using assms(1) by (cases old) (auto simp: as_object_def)
  have lookup: "json_get (JObj es) = map_of es" for es by (simp add: json_get_def fun_eq_iff)
  show "json_get (merge_metadata old new) = json_get old ++ (case new of JObj es \<Rightarrow> map_of es | _ \<Rightarrow> Map.empty)"
    using assms(2) by (cases new) (simp_all add: t lookup merge_metadata_def metadata_ok_def map_of_extend)
  show "as_object (merge_metadata old new) \<noteq> None"
    by (cases new) (simp_all add: t merge_metadata_def as_object_def)
qed

lemma spec_write_matches:
  assumes "spec_matches M S" and "\<And>j. md = Some j \<Longrightarrow> metadata_ok j"
  shows "spec_matches (Some (next_manifest M org v d cs md)) (fst (spec_effect (WriteManifest org v d cs md) (S, B)))"
proof -
  let ?old = "case M of Some m \<Rightarrow> wm_metadata m | None \<Rightarrow> default_json_object"
  have old: "as_object ?old \<noteq> None" "json_get ?old = (case S of Some a \<Rightarrow> sp_metadata a | None \<Rightarrow> Map.empty)"
    using assms(1) by (auto simp: spec_matches_def manifest_shows_def default_json_object_def as_object_def json_get_def
        fun_eq_iff split: option.splits)
  have meta: "as_object (wm_metadata (next_manifest M org v d cs md)) \<noteq> None"
    "json_get (wm_metadata (next_manifest M org v d cs md))
      = sp_metadata (the (fst (spec_effect (WriteManifest org v d cs md) (S, B))))"
    using old merged_lookup [OF old(1)] assms(2)
    by (cases md; simp add: next_manifest_def Let_def split: json.split)+
  show ?thesis
    using meta by (simp add: spec_matches_def manifest_shows_def next_manifest_def Let_def sort_key_stable)
qed

lemma matches_ids: "spec_matches M S \<Longrightarrow> (case M of Some m \<Rightarrow> set (manifest_ids m) | None \<Rightarrow> {}) = spec_blobs S"
proof -
  assume h: "spec_matches M S"
  have "set (wm_clusters m) = set (sp_clusters a)" if "manifest_shows m a" for m a
  proof -
    have "c \<in> set (wm_clusters m) \<longleftrightarrow> c \<in> set (sp_clusters a)" for c
    proof -
      have "filter (\<lambda>x. mc_cluster_id x = mc_cluster_id c) (wm_clusters m)
        = filter (\<lambda>x. mc_cluster_id x = mc_cluster_id c) (sp_clusters a)"
        using that by (simp add: manifest_shows_def)
      from arg_cong [OF this, of set] show ?thesis by auto
    qed
    then show ?thesis by blast
  qed
  then show ?thesis using h
    by (auto simp: spec_matches_def spec_blobs_def manifest_ids_def split: option.splits)
qed

lemma spec_step:
  assumes "spec_matches M S" and "manifest_allowed ev (M, B)"
  shows "spec_matches (fst (manifest_effect ev (M, B))) (fst (spec_effect ev (S, B)))
    \<and> snd (manifest_effect ev (M, B)) = snd (spec_effect ev (S, B))"
proof (cases ev)
  case (PutBlob b d)
  then show ?thesis using assms(1) by simp
next
  case (WriteManifest org v d cs md)
  then have "\<And>j. md = Some j \<Longrightarrow> metadata_ok j" using assms(2) by simp
  then show ?thesis
    using spec_write_matches [OF assms(1), of md org v d cs B] matches_ids [OF assms(1)]
    by (cases M) (auto simp: WriteManifest Let_def next_manifest_ids)
qed

lemma allowed_any: "manifest_allowed ev (M, B) \<longleftrightarrow> manifest_allowed ev (S, B)"
  by (cases ev) simp_all

lemma spec_runs:
  assumes "spec_matches M S" and "spec_lawful evs (S, B)"
  shows "manifest_lawful evs (M, B)
    \<and> spec_matches (fst (fold manifest_effect evs (M, B))) (fst (fold spec_effect evs (S, B)))
    \<and> snd (fold manifest_effect evs (M, B)) = snd (fold spec_effect evs (S, B))"
  using assms
proof (induction evs arbitrary: M S B)
  case (Cons ev evs)
  have ok: "manifest_allowed ev (M, B)" using Cons.prems(2) allowed_any [of ev M B S] by simp
  obtain M' B' S' B'' where e: "manifest_effect ev (M, B) = (M', B')" "spec_effect ev (S, B) = (S', B'')"
    by (metis surj_pair)
  have "spec_matches M' S'" "B' = B''" using spec_step [OF Cons.prems(1) ok] e by simp_all
  then show ?case using Cons.IH [of M' S' B'] Cons.prems(2) ok e by simp
qed simp

lemma matches_shown:
  assumes "spec_matches M S" and "map_option manifest_shape g = map_option manifest_shape M"
  shows "case S of None \<Rightarrow> g = None | Some a \<Rightarrow> \<exists>m. g = Some m \<and> manifest_shows m a"
proof (cases S)
  case None
  then show ?thesis using assms by (cases M) (auto simp: spec_matches_def)
next
  case (Some a)
  then obtain n where n: "M = Some n" "manifest_shows n a" using assms(1) by (cases M) (auto simp: spec_matches_def)
  then obtain m where m: "g = Some m" "manifest_shape m = manifest_shape n" using assms(2) by (cases g) auto
  have get: "json_get (json_shape j) k = map_option json_shape (json_get j k)" for j k
    by (cases j) (simp_all add: json_get_def map_of_map)
  have obj: "as_object (json_shape j) \<noteq> None \<longleftrightarrow> as_object j \<noteq> None" for j by (cases j) (simp_all add: as_object_def)
  have sizes: "wm_vocab_size m = wm_vocab_size n" "wm_embedding_dim m = wm_embedding_dim n"
    using arg_cong [OF m(2), of wm_vocab_size] arg_cong [OF m(2), of wm_embedding_dim] by (simp_all add: manifest_shape_def)
  have "manifest_shows m a"
    using n(2) manifest_shape_fields [OF m(2)] sizes get [of "wm_metadata m"] get [of "wm_metadata n"]
      obj [of "wm_metadata m"] obj [of "wm_metadata n"]
    by (simp add: manifest_shows_def)
  then show ?thesis using Some m(1) by simp
qed

lemma matches_origin: "spec_matches M S \<Longrightarrow> manifest_origin c M = spec_origin c S"
  by (auto simp: spec_matches_def manifest_shows_def manifest_origin_def spec_origin_def recorded_checkpoint_def as_str_def
      Let_def split: option.splits json.splits)


section \<open>An example serialiser\<close>

text \<open>Values are written as a tag and their parts; the reader is given as many rounds as there are bytes.\<close>

fun json_enc :: "json enc" where
  "json_enc JNull = [0]"
| "json_enc (JBool b) = 1 # bool_enc b"
| "json_enc (JInt i) = 2 # int_enc i"
| "json_enc (JFloat w) = 3 # word_enc w"
| "json_enc (JStr s) = 4 # text_enc s"
| "json_enc (JArr xs) = 5 # nat_enc (length xs) @ concat (map json_enc xs)"
| "json_enc (JObj es) = 6 # nat_enc (length es) @ concat (map (\<lambda>(k, v). text_enc k @ json_enc v) es)"

fun json_dec :: "nat \<Rightarrow> json dec" where
  "json_dec 0 bs = None"
| "json_dec (Suc n) [] = None"
| "json_dec (Suc n) (b # bs) =
     (if b = 0 then Some (JNull, bs)
      else if b = 1 then map_dec JBool bool_dec bs
      else if b = 2 then map_dec JInt int_dec bs
      else if b = 3 then map_dec JFloat word_dec bs
      else if b = 4 then map_dec JStr text_dec bs
      else if b = 5 then map_dec JArr (list_dec (json_dec n)) bs
      else map_dec JObj (list_dec (pair_dec text_dec (json_dec n))) bs)"

lemma reps_code: "(\<And>x r. x \<in> set xs \<Longrightarrow> d (e x @ r) = Some (x, r)) \<Longrightarrow>
  list_dec d (nat_enc (length xs) @ concat (map e xs) @ r) = Some (xs, r)"
proof -
  assume h: "\<And>x r. x \<in> set xs \<Longrightarrow> d (e x @ r) = Some (x, r)"
  have "reps_dec d (length xs) (concat (map e xs) @ r) = Some (xs, r)" using h by (induction xs) auto
  then show ?thesis using nat_code by (simp add: list_dec_def rev_code_def)
qed

lemma float_code: "rev_code (word_enc :: f64 enc) word_dec"
  by (rule word_code)

lemma json_dec_enc: "size j < n \<Longrightarrow> json_dec n (json_enc j @ r) = Some (j, r)"
proof (induction n arbitrary: j r)
  case (Suc n)
  show ?case
  proof (cases j)
    case (JArr xs)
    have "size x < n" if "x \<in> set xs" for x
      using Suc.prems JArr size_list_estimation' [OF that, of "size x" size] by simp
    then show ?thesis using JArr Suc.IH reps_code [of xs "json_dec n" json_enc r] by (simp add: map_dec_def)
  next
    case (JObj es)
    have size: "size (snd e) < n" if "e \<in> set es" for e
      using Suc.prems JObj size_list_estimation' [OF that, of "size (snd e)" "size_prod (\<lambda>_. 0) size"]
      by (cases e) simp
    then have "pair_dec text_dec (json_dec n) ((\<lambda>(k, v). text_enc k @ json_enc v) e @ r) = Some (e, r)"
      if "e \<in> set es" for e r
      using Suc.IH [OF size [OF that]] text_code by (cases e) (simp add: pair_dec_def rev_code_def)
    then show ?thesis
      using JObj reps_code [of es "pair_dec text_dec (json_dec n)" "\<lambda>(k, v). text_enc k @ json_enc v" r]
      by (simp add: map_dec_def)
  qed (use bool_code int_code float_code text_code in \<open>simp_all add: map_dec_def rev_code_def\<close>)
qed simp

definition sized_json_enc :: "json enc" where
  "sized_json_enc j = nat_enc (size j) @ json_enc j"

definition sized_json_dec :: "json dec" where
  "sized_json_dec bs = (case nat_dec bs of None \<Rightarrow> None | Some (n, r) \<Rightarrow> json_dec (Suc n) r)"

lemma sized_json_code: "rev_code sized_json_enc sized_json_dec"
  using nat_code by (simp add: rev_code_def sized_json_enc_def sized_json_dec_def json_dec_enc del: json_dec.simps)

definition cluster_enc :: "manifest_cluster enc" where
  "cluster_enc = map_enc (\<lambda>c. (mc_cluster_id c, mc_blob_id c, mc_member_token_ids c))
     (pair_enc word_enc (pair_enc text_enc (list_enc word_enc)))"

definition cluster_dec :: "manifest_cluster dec" where
  "cluster_dec = map_dec (\<lambda>(i, b, ts). \<lparr>mc_cluster_id = i, mc_blob_id = b, mc_member_token_ids = ts\<rparr>)
     (pair_dec word_dec (pair_dec text_dec (list_dec word_dec)))"

lemma cluster_code: "rev_code cluster_enc cluster_dec"
  unfolding cluster_enc_def cluster_dec_def by (rule map_code, (intro plain_codes)) simp

definition weights_enc :: "weight_manifest enc" where
  "weights_enc = map_enc (\<lambda>m. (wm_origin_id m, wm_vocab_size m, wm_embedding_dim m, wm_clusters m, wm_metadata m))
     (pair_enc text_enc (pair_enc nat_enc (pair_enc nat_enc (pair_enc (list_enc cluster_enc) sized_json_enc))))"

definition weights_dec :: "weight_manifest dec" where
  "weights_dec = map_dec (\<lambda>(org, v, d, cs, j). \<lparr>wm_origin_id = org, wm_vocab_size = v, wm_embedding_dim = d, wm_clusters = cs, wm_metadata = j\<rparr>)
     (pair_dec text_dec (pair_dec nat_dec (pair_dec nat_dec (pair_dec (list_dec cluster_dec) sized_json_dec))))"

lemma weights_code: "rev_code weights_enc weights_dec"
  unfolding weights_enc_def weights_dec_def
  by (rule map_code, (intro plain_codes cluster_code sized_json_code)) simp

definition demo_weights_codec :: "weight_manifest codec" where
  "demo_weights_codec = \<lparr>to_vec = (\<lambda>m. Ok (weights_enc m)),
     from_slice = (\<lambda>b. case weights_dec b of
         Some (m, []) \<Rightarrow> if metadata_ok (wm_metadata m) then Ok m else Err ''recursion limit exceeded''
       | _ \<Rightarrow> Err ''trailing characters'')\<rparr>"

lemma demo_weights_codec_ok: "manifest_codec_ok demo_weights_codec"
  unfolding manifest_codec_ok_def demo_weights_codec_def
  using rev_code_whole [OF weights_code] by (auto split: option.splits list.splits prod.splits if_splits)


section \<open>Properties\<close>


abbreviation demo_cluster :: "u64 \<Rightarrow> blob_id \<Rightarrow> manifest_cluster" where
  "demo_cluster i b \<equiv> \<lparr>mc_cluster_id = i, mc_blob_id = b, mc_member_token_ids = [7]\<rparr>"

abbreviation demo_writes :: "manifest_event list" where
  "demo_writes \<equiv> [PutBlob ''blake3:aaaa'' [1], PutBlob ''blake3:bbbb'' [2],
     WriteManifest '' run:7 '' 2 4 [demo_cluster 1 ''blake3:bbbb'', demo_cluster 0 ''blake3:aaaa'']
       (Some (JObj [(''checkpoint_origin'', JStr ''large'')])),
     WriteManifest '' run:7 '' 1 4 [demo_cluster 1 ''blake3:aaaa'', demo_cluster 0 ''blake3:aaaa'']
       (Some (JObj [(''note'', JStr ''kept'')]))]"

lemma demo_writes_lawful: "spec_lawful demo_writes (None, \<lambda>_. None)"
  by code_simp

lemma demo_writes_view:
  "map_option sp_clusters (fst (spec_history demo_writes)) = Some [demo_cluster 1 ''blake3:aaaa'', demo_cluster 0 ''blake3:aaaa'']"
  "snd (spec_history demo_writes) ''blake3:bbbb'' = None"
  "spec_origin ''large'' (fst (spec_history demo_writes)) = (Some ''run:7'', ''manifest'')"
  "spec_origin ''small'' (fst (spec_history demo_writes)) = (None, ''new'')"
  "(case fst (spec_history demo_writes) of Some a \<Rightarrow> sp_metadata a ''checkpoint_origin'' | None \<Rightarrow> None) = Some (JStr ''large'')"
  by code_simp+


end
