(* ===== verification/Sodl_Bindings.thy ===== *)
theory Sodl_Bindings
  imports Sodl_Native Sodl_Optimizer Sodl_Checkpoint Sodl_WeightManifest Sodl_WeightService
begin

text \<open>
  The other classes of the Python bindings, \<open>crates/sodl-python-ffi\<close>: each wraps one of the stores
  and turns JSON text into its arguments and its results into JSON text. Parsing and printing
  JSON, UUIDs and times are arguments.
\<close>

section \<open>Text in and out\<close>

record bind_env =
  bd_value :: "string \<Rightarrow> (string, json) outcome"
  bd_values :: "string \<Rightarrow> (string, json list) outcome"
  bd_request :: "string \<Rightarrow> (string, ckpt_request) outcome"
  bd_parse_uuid :: "string \<Rightarrow> (string, uuid) outcome"
  bd_time :: "time \<Rightarrow> json"
  bd_print :: "json \<Rightarrow> (string, string) outcome"
  bd_opt_result :: "opt_result \<Rightarrow> (string, string) outcome"
  bd_opt_results :: "opt_result list \<Rightarrow> (string, string) outcome"
  bd_opt_manifest :: "opt_manifest \<Rightarrow> (string, string) outcome"
  bd_opt_stats :: "opt_stats \<Rightarrow> (string, string) outcome"
  bd_ckpt :: "ckpt \<Rightarrow> (string, string) outcome"
  bd_ckpts :: "ckpt list \<Rightarrow> (string, string) outcome"
  bd_manifest :: "weight_manifest \<Rightarrow> (string, string) outcome"

text \<open>\<open>.map_err(|err| PyValueError::new_err(err.to_string()))\<close>.\<close>

definition value_error :: "(string, 'a) outcome \<Rightarrow> (py_err, 'a) outcome" where
  "value_error r = (case r of Ok a \<Rightarrow> Ok a | Err e \<Rightarrow> Err (PyValueError e) | Panic \<Rightarrow> Panic)"

definition printed :: "('a \<Rightarrow> (string, string) outcome) \<Rightarrow> ('w, 'a) op \<Rightarrow> ('w, string) py" where
  "printed f m = bindM (raising m) (\<lambda>a. pureM (value_error (f a)))"

definition parsed :: "(string \<Rightarrow> (string, 'a) outcome) \<Rightarrow> 'a \<Rightarrow> string option \<Rightarrow> (py_err, 'a) outcome" where
  "parsed f absent raw = (case raw of None \<Rightarrow> Ok absent | Some text \<Rightarrow> value_error (f text))"

definition parsed_option :: "(string \<Rightarrow> (string, 'a) outcome) \<Rightarrow> string option \<Rightarrow> (py_err, 'a option) outcome" where
  "parsed_option f raw = (case raw of None \<Rightarrow> Ok None | Some text \<Rightarrow> bindR (value_error (f text)) (\<lambda>a. Ok (Some a)))"

definition strip_prefix :: "string \<Rightarrow> string \<Rightarrow> string option" where
  "strip_prefix p s = (if take (length p) s = p then Some (drop (length p) s) else None)"

definition py_parse_origin_id :: "bind_env \<Rightarrow> string \<Rightarrow> (py_err, origin_id) outcome" where
  "py_parse_origin_id B origin_id =
     (let normalized = str_trim (case strip_prefix ''origin:'' origin_id of Some s \<Rightarrow> s | None \<Rightarrow> origin_id) in
      case bd_parse_uuid B normalized of
        Ok u \<Rightarrow> Ok u
      | Err e \<Rightarrow> Err (PyValueError (''invalid origin id: '' @ e))
      | Panic \<Rightarrow> Panic)"

definition weight_origin_json :: "bind_env \<Rightarrow> weight_origin \<Rightarrow> (py_err, string) outcome" where
  "weight_origin_json B m = value_error (bd_print B (JObj
     [(''created_at'', bd_time B (wo_created_at m)),
      (''model_name'', JStr (wo_model_name m)),
      (''num_clusters'', JInt (int (wo_num_clusters m))),
      (''origin_id'', JStr (''origin:'' @ uuid_show (wo_origin_id m))),
      (''quantization'', JStr (wo_quantization m))]))"


section \<open>PyOptimizerStateStore\<close>

definition py_opt_new :: "string \<Rightarrow> string option \<Rightarrow> int \<Rightarrow> nat \<Rightarrow> nat \<Rightarrow> (fs, opt_store \<times> opt_world) py" where
  "py_opt_new blob_root registry_dir level capacity threshold =
     raising (opt_open (path_comps blob_root)
       (case registry_dir of Some d \<Rightarrow> path_comps d | None \<Rightarrow> path_join (path_comps blob_root) ''optimizer_registry'')
       level capacity threshold)"

definition py_store_block :: "bind_env \<Rightarrow> opt_env \<Rightarrow> opt_store \<Rightarrow> time \<Rightarrow> string \<Rightarrow> string \<Rightarrow> bytes \<Rightarrow> u64 \<Rightarrow> string option
    \<Rightarrow> string option \<Rightarrow> (opt_world, string) py" where
  "py_store_block B E C now org bid payload step shard metadata_json =
     bindM (pureM (parsed (bd_value B) JNull metadata_json)) (\<lambda>metadata.
       printed (bd_opt_result B) (store_block E C now org bid payload step shard metadata))"

definition or_repeat :: "'a \<Rightarrow> nat \<Rightarrow> 'a list option \<Rightarrow> 'a list" where
  "or_repeat x n xs = (case xs of Some l \<Rightarrow> l | None \<Rightarrow> replicate n x)"

definition block_inputs :: "bind_env \<Rightarrow> string list \<Rightarrow> bytes list \<Rightarrow> u64 list \<Rightarrow> string option list \<Rightarrow> string option list
    \<Rightarrow> (py_err, opt_input list) outcome" where
  "block_inputs B bids payloads steps shards metas = mapR (\<lambda>i.
     bindR (parsed (bd_value B) JNull (metas ! i)) (\<lambda>metadata.
       Ok \<lparr>oi_block_id = bids ! i, oi_payload = payloads ! i, oi_step = steps ! i, oi_shard_key = shards ! i,
           oi_metadata = metadata\<rparr>)) [0..<length bids]"

definition py_store_blocks :: "bind_env \<Rightarrow> opt_env \<Rightarrow> opt_store \<Rightarrow> time \<Rightarrow> string \<Rightarrow> string list \<Rightarrow> bytes list \<Rightarrow> u64 list option
    \<Rightarrow> string option list option \<Rightarrow> string option list option \<Rightarrow> (opt_world, string) py" where
  "py_store_blocks B E C now org bids payloads steps shard_keys metadata_jsons =
     (let n = length bids; sts = or_repeat 0 n steps; shards = or_repeat None n shard_keys;
          metas = or_repeat None n metadata_jsons in
      if n \<noteq> length payloads then pureM (Err (PyValueError ''block_ids and payloads must have the same length''))
      else if length sts \<noteq> n then pureM (Err (PyValueError ''steps must match block_ids length''))
      else if length shards \<noteq> n then pureM (Err (PyValueError ''shard_keys must match block_ids length''))
      else if length metas \<noteq> n then pureM (Err (PyValueError ''metadata_jsons must match block_ids length''))
      else bindM (pureM (block_inputs B bids payloads sts shards metas)) (\<lambda>inputs.
        printed (bd_opt_results B) (store_blocks E C now org inputs)))"

definition py_load_block :: "opt_env \<Rightarrow> opt_store \<Rightarrow> time \<Rightarrow> string \<Rightarrow> string \<Rightarrow> (opt_world, bytes) py" where
  "py_load_block E C now org bid = raising (load_block E C now org bid)"

definition py_load_blocks :: "opt_env \<Rightarrow> opt_store \<Rightarrow> time \<Rightarrow> string \<Rightarrow> string list \<Rightarrow> (opt_world, (string \<times> bytes) list) py" where
  "py_load_blocks E C now org bids = raising (load_blocks E C now org bids)"

definition py_prefetch_blocks :: "opt_env \<Rightarrow> opt_store \<Rightarrow> time \<Rightarrow> string \<Rightarrow> string list \<Rightarrow> (opt_world, nat) py" where
  "py_prefetch_blocks E C now org bids = raising (prefetch_blocks E C now org bids 0)"

definition py_pin_blocks :: "string \<Rightarrow> string list \<Rightarrow> (opt_world, unit) py" where
  "py_pin_blocks org bids = raising (pin_blocks org bids)"

definition py_unpin_blocks :: "opt_store \<Rightarrow> string \<Rightarrow> string list \<Rightarrow> (opt_world, unit) py" where
  "py_unpin_blocks C org bids = raising (unpin_blocks C org bids)"

definition py_evict_blocks :: "string \<Rightarrow> string list \<Rightarrow> (opt_world, nat) py" where
  "py_evict_blocks org bids = raising (evict_blocks org bids)"

definition py_flush_origin :: "bind_env \<Rightarrow> opt_env \<Rightarrow> opt_store \<Rightarrow> time \<Rightarrow> string \<Rightarrow> (opt_world, string) py" where
  "py_flush_origin B E C now org = printed (bd_opt_manifest B) (flush_origin E C now org)"

definition py_flush_blocks :: "bind_env \<Rightarrow> opt_env \<Rightarrow> opt_store \<Rightarrow> time \<Rightarrow> string \<Rightarrow> string list \<Rightarrow> (opt_world, string) py" where
  "py_flush_blocks B E C now org bids = printed (bd_opt_manifest B) (flush_blocks E C now org bids)"

definition py_manifest_json :: "bind_env \<Rightarrow> opt_env \<Rightarrow> opt_store \<Rightarrow> time \<Rightarrow> string \<Rightarrow> (opt_world, string) py" where
  "py_manifest_json B E C now org = printed (bd_opt_manifest B) (opt_manifest_of E C now org)"

definition py_latest_blob_id :: "opt_env \<Rightarrow> opt_store \<Rightarrow> time \<Rightarrow> string \<Rightarrow> string \<Rightarrow> (opt_world, string option) py" where
  "py_latest_blob_id E C now org bid = raising (latest_blob_id E C now org bid)"

definition py_dirty_block_count :: "string option \<Rightarrow> (opt_world, nat) py" where
  "py_dirty_block_count org = raising (dirty_block_count org)"

definition py_cache_stats_json :: "bind_env \<Rightarrow> opt_store \<Rightarrow> (opt_world, string) py" where
  "py_cache_stats_json B C = printed (bd_opt_stats B) (cache_stats C)"

definition py_set_cache_capacity :: "nat \<Rightarrow> opt_store \<Rightarrow> opt_store" where
  "py_set_cache_capacity value C = set_cache_capacity value C"


section \<open>PyCheckpointStore\<close>

definition py_ckpt_new :: "string \<Rightarrow> string option \<Rightarrow> int \<Rightarrow> nat \<Rightarrow> (fs, ckpt_store) py" where
  "py_ckpt_new blob_root registry_dir level limit =
     raising (ckpt_open (path_comps blob_root)
       (case registry_dir of Some d \<Rightarrow> path_comps d | None \<Rightarrow> path_join (path_comps blob_root) ''checkpoints'') level limit)"

text \<open>The derived \<open>Default\<close> of a request; its metadata is null, while a request that is parsed without
  metadata has an empty object.\<close>

definition default_request :: ckpt_request where
  "default_request = \<lparr>cq_step = 0, cq_epoch = None, cq_loss = None, cq_metrics = [], cq_parent = None, cq_stage = [],
     cq_metadata = JNull, cq_externalized = False, cq_opt_origin = None, cq_layout = None, cq_block_count = 0,
     cq_datasets = [], cq_logs = [], cq_notes = []\<rparr>"

definition py_save_checkpoint :: "bind_env \<Rightarrow> ckpt_env \<Rightarrow> ckpt_store \<Rightarrow> string \<Rightarrow> bytes \<Rightarrow> string option \<Rightarrow> uuid \<Rightarrow> time
    \<Rightarrow> (fs, string) py" where
  "py_save_checkpoint B E C org payload record_json u now =
     bindM (pureM (parsed (bd_request B) default_request record_json)) (\<lambda>request.
       printed (bd_ckpt B) (save_checkpoint E C org payload request u now))"

definition py_load_checkpoint :: "ckpt_env \<Rightarrow> ckpt_store \<Rightarrow> string \<Rightarrow> string option \<Rightarrow> (fs, bytes) py" where
  "py_load_checkpoint E C org cid = raising (load_checkpoint E C org cid)"

definition py_list_checkpoints :: "bind_env \<Rightarrow> ckpt_env \<Rightarrow> ckpt_store \<Rightarrow> string \<Rightarrow> (fs, string) py" where
  "py_list_checkpoints B E C org = printed (bd_ckpts B) (list_checkpoints E C org)"

definition py_get_checkpoint :: "bind_env \<Rightarrow> ckpt_env \<Rightarrow> ckpt_store \<Rightarrow> string \<Rightarrow> string option \<Rightarrow> (fs, string) py" where
  "py_get_checkpoint B E C org cid = printed (bd_ckpt B) (get_checkpoint E C org cid)"

text \<open>The lineage loop may not end; then neither does the call.\<close>

definition py_get_lineage :: "bind_env \<Rightarrow> ckpt_env \<Rightarrow> ckpt_store \<Rightarrow> string \<Rightarrow> string option \<Rightarrow> fs \<Rightarrow> ((py_err, string) outcome \<times> fs) option" where
  "py_get_lineage B E C org cid s = map_option (\<lambda>x. printed (bd_ckpts B) (\<lambda>_. x) s) (get_lineage E C org cid s)"

definition py_delete_checkpoint :: "ckpt_env \<Rightarrow> ckpt_store \<Rightarrow> string \<Rightarrow> string \<Rightarrow> (fs, bool) py" where
  "py_delete_checkpoint E C org cid = raising (delete_checkpoint E C org cid)"

definition py_diff_checkpoints :: "bind_env \<Rightarrow> ckpt_env \<Rightarrow> ckpt_store \<Rightarrow> string \<Rightarrow> string \<Rightarrow> string \<Rightarrow> (fs, string) py" where
  "py_diff_checkpoints B E C org old_id new_id = printed (bd_print B) (diff_checkpoints E C org old_id new_id)"


section \<open>PyWeightManifestStore\<close>

definition py_manifest_new :: "string \<Rightarrow> string option \<Rightarrow> (fs, manifest_store) py" where
  "py_manifest_new file blob_root = raising (manifest_open (path_comps file) (map_option path_comps blob_root))"

definition py_load_manifest :: "bind_env \<Rightarrow> weight_manifest codec \<Rightarrow> manifest_store \<Rightarrow> (fs, string option) py" where
  "py_load_manifest B J W = bindM (raising (load_manifest J W)) (\<lambda>m.
     case m of None \<Rightarrow> returnM None
     | Some manifest \<Rightarrow> bindM (pureM (value_error (bd_manifest B manifest))) (\<lambda>t. returnM (Some t)))"

definition py_resolve_origin_id :: "bind_env \<Rightarrow> weight_manifest codec \<Rightarrow> manifest_store \<Rightarrow> string \<Rightarrow> string option \<Rightarrow> (fs, string) py" where
  "py_resolve_origin_id B J W checkpoint_origin resume_record_json =
     bindM (pureM (parsed_option (bd_value B) resume_record_json)) (\<lambda>resume_record.
     bindM (raising (resolve_origin_id J W checkpoint_origin resume_record)) (\<lambda>(origin_id, source).
       pureM (value_error (bd_print B (JObj
         [(''origin_id'', case origin_id of Some s \<Rightarrow> JStr s | None \<Rightarrow> JNull), (''source'', JStr source)])))))"

definition as_u64 :: "json \<Rightarrow> u64 option" where
  "as_u64 j = (case j of JInt n \<Rightarrow> if 0 \<le> n \<and> n < 18446744073709551616 then Some (of_int n) else None | _ \<Rightarrow> None)"

definition as_array :: "json \<Rightarrow> json list option" where
  "as_array j = (case j of JArr xs \<Rightarrow> Some xs | _ \<Rightarrow> None)"

definition u32_try_from :: "u64 \<Rightarrow> u32 option" where
  "u32_try_from w = (if unat w < 4294967296 then Some (ucast w) else None)"

definition parse_cluster :: "json \<Rightarrow> (py_err, manifest_cluster) outcome" where
  "parse_cluster payload =
     bindR (of_option (PyValueError ''cluster_id is required'') (Option.bind (json_get payload ''cluster_id'') as_u64)) (\<lambda>cluster_id.
     bindR (of_option (PyValueError ''blob_id is required'') (Option.bind (json_get payload ''blob_id'') as_str)) (\<lambda>blob_id.
     bindR (of_option (PyValueError ''member_token_ids is required'') (Option.bind (json_get payload ''member_token_ids'') as_array)) (\<lambda>items.
     bindR (mapR (\<lambda>value. of_option (PyValueError ''member_token_ids must be integers'') (Option.bind (as_u64 value) u32_try_from)) items) (\<lambda>ids.
       Ok \<lparr>mc_cluster_id = cluster_id, mc_blob_id = blob_id, mc_member_token_ids = ids\<rparr>))))"

definition py_write_manifest :: "bind_env \<Rightarrow> weight_manifest codec \<Rightarrow> manifest_store \<Rightarrow> string \<Rightarrow> nat \<Rightarrow> nat \<Rightarrow> string \<Rightarrow> string option
    \<Rightarrow> (fs, string) py" where
  "py_write_manifest B J W org vocab dim clusters_json metadata_json =
     bindM (pureM (value_error (bd_values B clusters_json))) (\<lambda>raw_clusters.
     bindM (pureM (mapR parse_cluster raw_clusters)) (\<lambda>clusters.
     bindM (pureM (parsed_option (bd_value B) metadata_json)) (\<lambda>metadata.
       printed (bd_manifest B) (write_manifest J W org vocab dim clusters metadata))))"


section \<open>PyWeightOriginRegistry\<close>

text \<open>After a model is made it is looked up again and printed.\<close>

definition described :: "bind_env \<Rightarrow> (origin_index, model_origin) op \<Rightarrow> (origin_index, string) py" where
  "described B m = bindM (raising m) (\<lambda>model.
     bindM (raising (get_model (mo_origin_id model))) (\<lambda>origin. pureM (weight_origin_json B origin)))"

definition py_create_model :: "bind_env \<Rightarrow> uuid \<Rightarrow> time \<Rightarrow> string \<Rightarrow> string \<Rightarrow> (origin_index, string) py" where
  "py_create_model B u now name quantization = described B (create_model u now name quantization)"

definition py_register_model :: "bind_env \<Rightarrow> time \<Rightarrow> string \<Rightarrow> string \<Rightarrow> string \<Rightarrow> nat \<Rightarrow> (origin_index, string) py" where
  "py_register_model B now origin_id name quantization n =
     bindM (pureM (py_parse_origin_id B origin_id)) (\<lambda>org. described B (register_model now org name quantization n))"

definition py_ensure_model :: "bind_env \<Rightarrow> uuid \<Rightarrow> time \<Rightarrow> string \<Rightarrow> string \<Rightarrow> string option \<Rightarrow> nat \<Rightarrow> (origin_index, string) py" where
  "py_ensure_model B u now name quantization origin_id n =
     bindM (pureM (case origin_id of None \<Rightarrow> Ok None
         | Some s \<Rightarrow> bindR (py_parse_origin_id B s) (\<lambda>org. Ok (Some org))))
       (\<lambda>org. described B (ensure_model u now name quantization org n))"

definition py_get_model :: "bind_env \<Rightarrow> string \<Rightarrow> (origin_index, string) py" where
  "py_get_model B origin_id = bindM (pureM (py_parse_origin_id B origin_id)) (\<lambda>org.
     bindM (raising (get_model org)) (\<lambda>origin. pureM (weight_origin_json B origin)))"

definition py_get_model_by_name :: "bind_env \<Rightarrow> string \<Rightarrow> (origin_index, string) py" where
  "py_get_model_by_name B name =
     bindM (raising (get_model_by_name name)) (\<lambda>origin. pureM (weight_origin_json B origin))"

definition py_increment_clusters :: "bind_env \<Rightarrow> string \<Rightarrow> nat \<Rightarrow> (origin_index, unit) py" where
  "py_increment_clusters B origin_id amount = bindM (pureM (py_parse_origin_id B origin_id)) (\<lambda>org.
     raising (increment_clusters org amount))"


section \<open>PyAeadCrypto and the functions of the module\<close>

definition raised :: "'a res \<Rightarrow> (py_err, 'a) outcome" where
  "raised r = (case r of Ok a \<Rightarrow> Ok a | Err e \<Rightarrow> Err (map_sodl_error e) | Panic \<Rightarrow> Panic)"

text \<open>Without a key one is drawn at random: \<open>drawn\<close>.\<close>

definition py_aead_new :: "crypto_prims \<Rightarrow> bytes \<Rightarrow> string option \<Rightarrow> (py_err, aead_crypto) outcome" where
  "py_aead_new P drawn key_hex = (case key_hex of
     Some hex \<Rightarrow> raised (aead_from_hex P hex)
   | None \<Rightarrow> Ok (P, drawn))"

definition py_encrypt :: "bind_env \<Rightarrow> aead_crypto \<Rightarrow> string \<Rightarrow> bytes \<Rightarrow> (py_err, bytes) outcome" where
  "py_encrypt B c origin_id plaintext = bindR (py_parse_origin_id B origin_id) (\<lambda>org. raised (aead_encrypt c org plaintext))"

definition py_decrypt :: "bind_env \<Rightarrow> aead_crypto \<Rightarrow> string \<Rightarrow> bytes \<Rightarrow> (py_err, bytes) outcome" where
  "py_decrypt B c origin_id ciphertext = bindR (py_parse_origin_id B origin_id) (\<lambda>org. raised (aead_decrypt c org ciphertext))"

definition compute_blob_id_py :: "hashes \<Rightarrow> bytes \<Rightarrow> string" where
  "compute_blob_id_py H data = compute_blob_id H data Blake3"

definition verify_integrity_py :: "hashes \<Rightarrow> string \<Rightarrow> bytes \<Rightarrow> (py_err, unit) outcome" where
  "verify_integrity_py H bid data = raised (verify_integrity H bid data)"

definition compress_zstd :: "(int \<Rightarrow> bytes \<Rightarrow> (string, bytes) outcome) \<Rightarrow> bytes \<Rightarrow> int option \<Rightarrow> (py_err, bytes) outcome" where
  "compress_zstd encode_all data level = value_error (encode_all (case level of Some l \<Rightarrow> l | None \<Rightarrow> 3) data)"

definition decompress_zstd :: "(bytes \<Rightarrow> (string, bytes) outcome) \<Rightarrow> bytes \<Rightarrow> (py_err, bytes) outcome" where
  "decompress_zstd decode_all data = value_error (decode_all data)"


section \<open>Origin identifiers\<close>

text \<open>Text of visible ASCII characters is not changed by trimming.\<close>

lemma visible_code: "32 < c \<Longrightarrow> c < 128 \<Longrightarrow> \<not> blank_codes (c # r)"
  by (rule blank_not_blank_cons) simp_all

lemma visible_untrimmed:
  assumes "\<And>c. c \<in> set s \<Longrightarrow> 32 < (of_char c :: nat) \<and> (of_char c :: nat) < 128"
  shows "str_trim s = s"
proof -
  let ?cs = "map of_char s :: nat list"
  have vis: "\<not> blank_codes (c # r)" if c: "c \<in> set ?cs" for c r
  proof -
    obtain x where "x \<in> set s" and "c = of_char x" using c by auto
    then show ?thesis using assms [of x] visible_code [of c r] by simp
  qed
  have lead: "\<not> blank_codes (take k ?cs)" if k: "0 < k" "?cs \<noteq> []" for k
  proof -
    obtain c r where "take k ?cs = c # r" using k by (cases "take k ?cs") auto
    moreover from this have "c \<in> set ?cs" by (metis in_set_takeD list.set_intros(1))
    ultimately show ?thesis using vis by simp
  qed
  have tail: "\<not> blank_codes (drop k ?cs)" if "k < length ?cs" for k
    using vis [of "?cs ! k" "drop (Suc k) ?cs"] that by (simp only: Cons_nth_drop_Suc [symmetric] nth_mem) simp
  have "blank_lead ?cs = 0"
    using lead [of 1] lead [of 2] lead [of 3] by (cases "?cs = []") (simp_all add: blank_lead_def)
  then have "trim_start s = s" by (subst trim_start.simps) simp
  moreover have "blank_tail ?cs = 0" using tail by (cases "?cs = []") (simp_all add: blank_tail_def)
  then have "trim_end s = s" by (subst trim_end.simps) simp
  ultimately show ?thesis by (simp add: str_trim_def)
qed

lemma hex_char_visible: "d < 16 \<Longrightarrow> 32 < (of_char (hex_char d) :: nat) \<and> (of_char (hex_char d) :: nat) < 128 \<and> hex_char d \<noteq> CHR ''o''"
proof -
  assume "d < 16"
  moreover have "\<forall>d \<in> set [0..<16]. 32 < (of_char (hex_char d) :: nat) \<and> (of_char (hex_char d) :: nat) < 128 \<and> hex_char d \<noteq> CHR ''o''"
    by code_simp
  ultimately show ?thesis by simp
qed

lemma uuid_show_visible:
  assumes "c \<in> set (uuid_show u)"
  shows "32 < (of_char c :: nat) \<and> (of_char c :: nat) < 128 \<and> c \<noteq> CHR ''o''"
proof -
  have hex: "32 < (of_char c :: nat) \<and> (of_char c :: nat) < 128 \<and> c \<noteq> CHR ''o''" if c: "c \<in> set (bytes_to_hex b)" for b
  proof -
    obtain x where "c = hex_char (unat (x :: u8) div 16) \<or> c = hex_char (unat x mod 16)"
      using c by (auto simp: bytes_to_hex_def hex2_def)
    then show ?thesis
      by (elim disjE) (simp_all only: hex_char_visible byte_bounds simp_thms)
  qed
  have "c \<in> set (bytes_to_hex (uuid_bytes u)) \<or> c = CHR ''-''"
    using assms by (auto simp: uuid_show_def Let_def dest: in_set_takeD in_set_dropD)
  then show ?thesis
  proof
    assume "c \<in> set (bytes_to_hex (uuid_bytes u))"
    then show ?thesis by (rule hex)
  qed simp
qed

text \<open>\<open>Uuid::parse_str\<close> reads what \<open>Display\<close> writes.\<close>

definition bind_env_ok :: "bind_env \<Rightarrow> bool" where
  "bind_env_ok B \<longleftrightarrow> (\<forall>u. bd_parse_uuid B (uuid_show u) = Ok u)"

text \<open>An origin is named by its UUID with or without the prefix that the bindings print.\<close>

lemma origin_id_forms:
  assumes "bind_env_ok B"
  shows "py_parse_origin_id B (''origin:'' @ uuid_show u) = Ok u" and "py_parse_origin_id B (uuid_show u) = Ok u"
proof -
  have "strip_prefix ''origin:'' (uuid_show u) = None"
    using uuid_show_visible [of "CHR ''o''" u] in_set_takeD [of "CHR ''o''" "length ''origin:''" "uuid_show u"]
    unfolding strip_prefix_def by (metis list.set_intros(1))
  moreover have "strip_prefix ''origin:'' (''origin:'' @ uuid_show u) = Some (uuid_show u)"
    by (simp add: strip_prefix_def)
  moreover have "str_trim (uuid_show u) = uuid_show u"
    using uuid_show_visible by (intro visible_untrimmed) blast
  ultimately show "py_parse_origin_id B (uuid_show u) = Ok u" "py_parse_origin_id B (''origin:'' @ uuid_show u) = Ok u"
    using assms by (simp_all add: py_parse_origin_id_def bind_env_ok_def)
qed

text \<open>What one side encrypts under either form the other decrypts under either form.\<close>

lemma python_crypto_round_trip:
  assumes "bind_env_ok B" and "prims_ok P" and "org \<in> {uuid_show u, ''origin:'' @ uuid_show u}"
    and "org' \<in> {uuid_show u, ''origin:'' @ uuid_show u}" and "py_encrypt B (P, k) org p = Ok ct"
  shows "py_decrypt B (P, k) org' ct = Ok p"
proof -
  have ids: "py_parse_origin_id B org = Ok u" "py_parse_origin_id B org' = Ok u"
    using origin_id_forms [OF assms(1)] assms(3,4) by auto
  then have "aead_encrypt (P, k) u p = Ok ct"
    using assms(5) by (auto simp: py_encrypt_def raised_def split: outcome.splits)
  then have "aead_decrypt (P, k) u ct = Ok p"
    using aead_laws.decrypt_law [of "(P, k)" u p ct] assms(2) by (simp add: aead_provider_def)
  then show ?thesis using ids by (simp add: py_decrypt_def raised_def)
qed

text \<open>A key that was printed makes the same provider again.\<close>

lemma python_key_round_trip:
  assumes "length k = 32"
  shows "py_aead_new P drawn (Some (master_key_hex (P, k))) = Ok (P, k)"
  using assms by (simp add: py_aead_new_def raised_def aead_from_hex_def master_key_hex_def hex_bytes_hex)


section \<open>Checked arguments\<close>

text \<open>Lists of different lengths, or one metadata text that is not JSON, are refused and nothing is staged.\<close>

lemma block_inputs_length:
  assumes "block_inputs B bids payloads steps shards metas = Ok inputs"
  shows "map oi_block_id inputs = bids"
proof -
  let ?g = "\<lambda>i. parsed (bd_value B) JNull (metas ! i)"
  let ?h = "\<lambda>m i. \<lparr>oi_block_id = bids ! i, oi_payload = payloads ! i, oi_step = steps ! i, oi_shard_key = shards ! i,
      oi_metadata = m\<rparr>"
  have "mapR (\<lambda>i. bindR (?g i) (\<lambda>m. Ok (?h m i))) ks = Ok ys \<Longrightarrow> map oi_block_id ys = map (\<lambda>i. bids ! i) ks" for ks ys
    by (induction ks arbitrary: ys) (auto simp: bindR_eq_Ok)
  from this [OF assms [unfolded block_inputs_def]] show ?thesis by (simp only: map_nth)
qed

lemma store_blocks_refused:
  assumes "length payloads \<noteq> length bids \<or> (\<exists>l. steps = Some l \<and> length l \<noteq> length bids)
    \<or> (\<exists>l. shards = Some l \<and> length l \<noteq> length bids) \<or> (\<exists>l. metas = Some l \<and> length l \<noteq> length bids)
    \<or> (\<exists>e. block_inputs B bids payloads (or_repeat 0 (length bids) steps) (or_repeat None (length bids) shards)
          (or_repeat None (length bids) metas) = Err e)"
  shows "\<exists>e. py_store_blocks B E C now org bids payloads steps shards metas w = (Err e, w)"
  using assms by (auto simp: py_store_blocks_def Let_def or_repeat_def act_simps)

text \<open>A cluster is accepted exactly if its fields are there, in range and of the right kind.\<close>

lemma parse_cluster_iff:
  "parse_cluster j = Ok c \<longleftrightarrow> (\<exists>items. Option.bind (json_get j ''cluster_id'') as_u64 = Some (mc_cluster_id c)
     \<and> json_get j ''blob_id'' = Some (JStr (mc_blob_id c)) \<and> json_get j ''member_token_ids'' = Some (JArr items)
     \<and> map (\<lambda>v. Option.bind (as_u64 v) u32_try_from) items = map Some (mc_member_token_ids c))"
proof -
  have ids: "mapR (\<lambda>v. of_option e (f v)) xs = Ok ys \<longleftrightarrow> map f xs = map Some ys" for e f xs ys
  proof (induction xs arbitrary: ys)
    case (Cons x xs)
    then show ?case by (cases "f x"; cases ys) (auto simp: bindR_eq_Ok)
  qed auto
  have str: "Option.bind v as_str = Some s \<longleftrightarrow> v = Some (JStr s)" for v s
    by (cases v) (auto simp: as_str_def split: json.split)
  have arr: "Option.bind v as_array = Some xs \<longleftrightarrow> v = Some (JArr xs)" for v xs
    by (cases v) (auto simp: as_array_def split: json.split)
  have opt: "of_option e x = Ok y \<longleftrightarrow> x = Some y" for e x y
    by (cases x) auto
  show ?thesis
    by (cases c) (auto simp: parse_cluster_def bindR_eq_Ok opt str arr ids)
qed


section \<open>Default directories\<close>

text \<open>The registries lie inside the directory of the blobs by default, where the stores' theorems allow them.\<close>

lemma default_layouts:
  assumes "''..'' \<notin> set root" and "list_all (\<lambda>c. \<not> ends_with c ''.json'' \<and> \<not> ends_with c ''.json.tmp'') root"
  shows "doc_layout root (path_join root ''optimizer_registry'')" and "doc_layout root (path_join root ''checkpoints'')"
proof -
  have "path_comps ''optimizer_registry'' = [''optimizer_registry'']" "path_comps ''checkpoints'' = [''checkpoints'']" by code_simp+
  then have "path_join root ''optimizer_registry'' = root @ [''optimizer_registry'']" "path_join root ''checkpoints'' = root @ [''checkpoints'']"
    by (simp_all add: path_join_def)
  then show "doc_layout root (path_join root ''optimizer_registry'')" and "doc_layout root (path_join root ''checkpoints'')"
    using assms by (simp_all add: doc_layout_def alg_dir_def)
qed


section \<open>Two stores in one directory\<close>

text \<open>The directory of the blobs may be given to both stores, and the default registries suggest it. But each
  store collects blobs by its own registry only: a block and a checkpoint with the same compressed bytes
  are one blob, and when the checkpoint is deleted the block is lost.\<close>

lemma shared_root_loses_block:
  assumes env: "ckpt_env_ok E" and rel: "ckpt_rel E C Z s A"
    and r: "(r, p) \<in> set (A (ckpt_name run))" "ck_id r = cid"
    and only: "ck_blob_id r \<notin> view_refs (A(ckpt_name run := filter (\<lambda>(r, p). ck_id r \<noteq> cid) (A (ckpt_name run))))"
    and del: "py_delete_checkpoint E C run cid s = (x, t)"
    and shared: "ot_root D = cs_root C" and cold: "hget (ow_cache w) (cache_key org bid) = None" and w: "ow_fs w = t"
    and named: "load_opt_manifest F D org now t = (Ok m, t)" "hget (om_blocks m) bid = Some k" "ob_blob_id k = ck_blob_id r"
  shows "x = Ok True \<and> fst (py_load_block F D now org bid w) = Err (PyFileNotFound ''blob not found'')"
proof -
  let ?gone = "filter (\<lambda>(r, p). ck_id r = cid) (A (ckpt_name run))"
  obtain u where u: "delete_checkpoint E C run cid s = (Ok (?gone \<noteq> []), u)"
    "ckpt_rel E C Z u (A(ckpt_name run := filter (\<lambda>(r, p). ck_id r \<noteq> cid) (A (ckpt_name run))))"
    "fs_blobs (cs_root C) u = (\<lambda>b. if b \<in> ck_blob_id ` fst ` set ?gone
        \<and> b \<notin> view_refs (A(ckpt_name run := filter (\<lambda>(r, p). ck_id r \<noteq> cid) (A (ckpt_name run)))) then None else fs_blobs (cs_root C) s b)"
    using delete_step [OF env rel refl refl] by blast
  have mem: "(r, p) \<in> set ?gone" using r by simp
  then have "?gone \<noteq> []" by (metis empty_iff empty_set)
  then have x: "x = Ok True" "u = t" using del u(1) by (simp_all add: py_delete_checkpoint_def raising_def)
  have "ck_blob_id r \<in> ck_blob_id ` fst ` set ?gone" using mem by force
  then have none: "fs_blobs (cs_root C) t (ck_blob_id r) = None" using u(3) only x(2) by simp
  have inv: "fs_store_inv (cs_root C) t" using rel_registry [OF u(2)] x(2) by (simp add: registry_inv_def)
  have good: "good_blob_id (ck_blob_id r)" using rel_payload(1) [OF rel _ r(1)] by simp
  have "fs_blob_get (cs_root C) (ck_blob_id r) t = (Err NotFound, t)" using fs_get_law [OF inv good] none by simp
  then have "fst (load_block F D now org bid w) = Err NotFound"
    using named shared cold w by (simp add: load_block_def fetch_payload_def on_fs_def liftM_def bindM_def)
  then show ?thesis using x(1) by (auto simp: py_load_block_def raising_def split: prod.splits)
qed

end
