(* ===== verification/Spec2Isabelle.thy ===== *)
theory Spec2Isabelle
  imports Sodl_Demo Sodl_Replica Sodl_Fetch Sodl_SqlNode Sodl_WeightService Sodl_Checkpoint Sodl_Optimizer Sodl_ApiRun Sodl_Server Sodl_Tokenizer Sodl_Semantic Sodl_Hue Sodl_Bindings Sodl_Collect
begin

text \<open>
  SODL is a content-addressed store for media, model weights and training state. This development
  models the Rust crates under \<open>src/crates\<close> as functions on explicit states and proves what they
  promise to their callers.

  \<^bold>\<open>How the program is put together.\<close> Every payload is cut into chunks (\<open>sodl-chunk\<close>), encrypted for its
  origin (\<open>sodl-crypto\<close>), addressed by the digest of the ciphertext and put into a blob store
  (\<open>sodl-cas\<close>, \<open>sodl-store\<close>). Metadata (origins, policies, pins, shares, derivations, reference counts,
  lineage edges, tombstones, replicas) is kept in memory (\<open>sodl-index\<close>, \<open>sodl-service\<close>) or in SQLite
  (\<open>sodl-persist\<close>), behind traits. \<open>SodlService\<close> composes the two; the garbage collector and the auditor
  (\<open>sodl-gc\<close>), the repair executor (\<open>sodl-replica\<close>), the fetch pipeline (\<open>sodl-fetch\<close>, \<open>sodl-dist\<close>) and the HTTP
  server (\<open>sodl-api\<close>) are its other clients. Beside it stand the weight store and weight service, the
  checkpoint store, the optimizer state store and the weight manifest store, which keep JSON registries
  next to a blob directory, the Python bindings of all these (\<open>sodl-python-ffi\<close>), and small libraries: the
  tokenizer trainer, the polar quantizer and the semantic artifacts.

  \<^bold>\<open>Conventions.\<close> A call is a function from a state to an outcome (\<open>Ok\<close>, \<open>Err\<close> or \<open>Panic\<close>) and a state
  (\<open>Sodl_Prelude\<close>); \<open>?\<close> is \<open>bindM\<close>, a \<open>for\<close> loop with \<open>?\<close> is \<open>forM\<close>. A struct is a record with a field prefix
  of its own, an enum a datatype, a trait object a record of calls, a \<open>HashMap\<close> an association list whose
  order stands for the unspecified iteration order. Identifiers, clock readings and random keys are
  arguments of the calls that draw them. Machine integers are words where their width matters;
  counters are integers with the 64-bit overflow written out (\<open>Sodl_Index\<close>, \<open>Sodl_Sql\<close>) or, where they
  count objects in memory, naturals. An overflow panics in a build with overflow checks and wraps in a
  release build: the tokenizer takes the kind of build as an argument, and the properties of the trainer hold
  for both; elsewhere overflow is a panic, as in a checked build, and the properties exclude it by bounds.

  \<^bold>\<open>Theories, bottom up.\<close>
  \<^item> \<open>Sodl_Prelude\<close>, \<open>Sodl_Core\<close>, \<open>Sodl_Codec\<close>: outcomes, calls, maps; identifiers and errors
    (\<open>sodl-core\<close>); serialisers as arguments, with a codec on which their hypotheses hold.
  \<^item> \<open>Sodl_Fs\<close>, \<open>Sodl_Cas\<close>, \<open>Sodl_FsCas\<close>: the file system calls, blob identifiers and both blob stores
    (\<open>sodl-cas\<close>). The locale \<open>blob_store_laws\<close> is the contract of a store; it is interpreted on the
    in-memory store, the file-system store and the store of a call of the bindings, and it is a
    sublocale fact of every node. The body of a put is a function of the calls it makes
    (\<open>fs_put_on\<close>): with those of the file system it is the put, with calls that stop after a number of
    steps it is a put whose process is killed. Crash safety and the identifiers that leave the
    directory are here.
  \<^item> \<open>Sodl_Chunk\<close>, \<open>Sodl_Pipeline\<close>, \<open>Sodl_Crypto\<close>, \<open>Sodl_Store\<close>: chunkers (locale \<open>chunker_laws\<close>), the chunk
    manifest, storing and reassembling, the three ciphers (locale \<open>crypto_laws\<close>) and the key manager,
    \<open>EncryptedCas\<close>.
  \<^item> \<open>Sodl_Meta\<close>, \<open>Sodl_Index\<close>, \<open>Sodl_MemStores\<close>, \<open>Sodl_Proof\<close>: metadata records and in-memory tables,
    lineage proofs (locale \<open>signer_laws\<close>) and what exactly their digests cover.
  \<^item> \<open>Sodl_Node\<close>: all traits of a node over one state, the abstract view \<open>facts\<close>, the locale \<open>node_laws\<close>
    and its extension \<open>total_node\<close>, the in-memory node.
  \<^item> \<open>Sodl_Service\<close>, \<open>Sodl_Upload\<close>, \<open>Sodl_Gc\<close>, \<open>Sodl_Collect\<close>, \<open>Sodl_Events\<close>, \<open>Sodl_Lifecycle\<close>: every operation
    of \<open>SodlService\<close>, uploading and reading back, collection and audit (what exactly is planned, and when
    garbage is really collected), each operation as an event with the answer and the records it leaves
    (the inductive relation \<open>event_answer\<close>), and
    histories of events as an inductive relation with their invariants, by rule induction.
  \<^item> \<open>Sodl_Sql\<close>, \<open>Sodl_Persist\<close>, \<open>Sodl_SqlNode\<close>: the SQLite store, which implements the same contract.
  \<^item> \<open>Sodl_Replica\<close>, \<open>Sodl_Fetch\<close>: repair (locale \<open>mesh_laws\<close>) and retrieval from caches, peers and edges.
  \<^item> \<open>Sodl_Api\<close>, \<open>Sodl_Server\<close>, \<open>Sodl_ApiRun\<close>: all HTTP handlers, configuration, builder and routes, and
    histories of requests.
  \<^item> \<open>Sodl_Weights\<close>, \<open>Sodl_WeightCache\<close>, \<open>Sodl_WeightService\<close>: the weight store, the pinned-cluster cache
    with eviction, the gradient counter and the facade.
  \<^item> \<open>Sodl_Registry\<close>, \<open>Sodl_Checkpoint\<close>, \<open>Sodl_Optimizer\<close>, \<open>Sodl_WeightManifest\<close>: registries of documents
    with the collection of blobs they no longer name, and the three stores on them; each is shown
    to refine a map of what was saved, which is defined without the functions of the code.
  \<^item> \<open>Sodl_Native\<close>, \<open>Sodl_Bindings\<close>: the read-through blob store of the Python bindings and their wrappers
    of the other stores.
  \<^item> \<open>Sodl_Tokenizer\<close>, \<open>Sodl_Semantic\<close>, \<open>Sodl_PolarQuant\<close>, \<open>Sodl_Hue\<close>: byte-pair training against a naive
    reference with a replacement of pairs of its own, colours, cube and router, the quantizer and its error in exact arithmetic.
  \<^item> \<open>Sodl_Demo\<close> evaluates short histories for the examples; this theory states the properties of whole
    histories on the in-memory node.

  \<^bold>\<open>What the lemmas show.\<close> Each component has an invariant that every operation keeps, the effect of each
  operation on an abstract view, errors included, and its round trips. The refinement properties
  (nodes, checkpoint, optimizer, weight manifest and native store) are simulations: after any
  history of allowed calls the concrete state represents the specification's. Safety of data
  follows: a live payload, a pinned cluster or a flushed block is never lost. The properties
  about defects state, for every state that satisfies a condition, what goes wrong. The word
  \<open>allowed\<close> in a property names the condition on calls: identifiers are fresh, counters do not overflow,
  no two payloads in play have one digest, and a payload whose ciphertext is stored as one blob is not
  the text of a chunk manifest (\<open>not_manifest\<close>; what happens otherwise is the last property of this theory).

  \<^bold>\<open>Recursion and bounds.\<close> Loops over data are structural or have a measure; \<open>train_bpe\<close> runs at most the
  requested number of merges. Following the parents of a checkpoint is a \<open>partial_function (option)\<close>,
  since it does not return on a cyclic registry; that it returns on every registry the store
  writes is a property. The walk that counts files is bounded by the number of directories, which
  is at least the depth of the tree (\<open>depth_bound\<close>).

  \<^bold>\<open>What is a parameter.\<close> Digests, AEAD and HKDF primitives, Ed25519 and base64, \<open>serde_json\<close>, Zstandard, UUID
  and time formatting, HTTP requests and responses, the opening of SQLite and its statements (given
  their documented meaning on lists of rows), floating-point operations. Where a property relies on
  their documented behaviour it is a named hypothesis (\<open>hash_ok\<close>, \<open>prims_ok\<close>, \<open>codec_ok\<close>, \<open>sql_env_ok\<close> and so
  on) with a witness on a concrete instance. Two of them idealise \<open>serde_json\<close>: \<open>weight_env_ok\<close> reads every finite
  32-bit float back bit by bit, while the code does not ask for the feature \<open>float_roundtrip\<close>,
  and \<open>ckpt_env_ok\<close> reads every document back, also one nested deeper than its limit of 128 levels.

  \<^bold>\<open>Not modelled.\<close> Poisoned locks and other threads (each call holds its lock for a whole access), failures
  of devices, symbolic links, rounding of floats, sockets and the middleware of axum (body limit,
  CORS, tracing), the start of the server process, conversions of PyO3, memory allocation and the
  release of C strings, progress messages. Traits without an implementation (\<open>sodl-fingerprint\<close>,
  authorizers, pin planners), tests, examples and scripts are left out.
\<close>

section \<open>Histories of a node\<close>

text \<open>C1: No live payload is ever lost. After any history of uploads, shares, derivations, pins, unpins,
  releases, tombstones and garbage collections on the in-memory node, with deduplicated chunks and
  in any order, every origin that was uploaded and not tombstoned since reads back as exactly the
  uploaded bytes.\<close>

theorem live_payload_survives:
  assumes "node_run H J svc mem_view mem_world_new h w" and "service_ok mem_node J svc"
    and "(org, d, ids) \<in> set (live H J svc h)"
  shows "get_payload H J svc org w = (Ok d, w)"
  by (rule mem_total.run_keeps_payload [OF assms(1,2) mem_world_new_inv new_ledger assms(3)])

theorem live_payload_survives_witness:
  "\<exists>w. node_run demo_hashes demo_manifest_codec demo_node mem_view mem_world_new
       [EvCollect 9 of_nat, EvTombstone 8 5 ''gone'', EvUpload 6 2 2 2 (demo_request [1, 2, 3]),
        EvUpload 5 1 1 1 (demo_request [1, 2, 3])] w
     \<and> get_payload demo_hashes demo_manifest_codec demo_node 6 w = (Ok [1, 2, 3], w)"
proof -
  let ?req = "demo_request [1, 2, 3]"
  let ?p = "perform demo_hashes demo_manifest_codec demo_node"
  let ?run = "node_run demo_hashes demo_manifest_codec demo_node mem_view mem_world_new"
  define s1 where "s1 = snd (?p (EvUpload 5 1 1 1 ?req) mem_world_new)"
  define s2 where "s2 = snd (?p (EvUpload 6 2 2 2 ?req) s1)"
  define s3 where "s3 = snd (?p (EvTombstone 8 5 ''gone'') s2)"
  have a1: "allowed demo_hashes demo_manifest_codec demo_node (EvUpload 5 1 1 1 ?req) (mem_view mem_world_new)"
    by (rule demo_upload_allowed [OF demo_new_small]) (simp_all add: demo_view_new demo_edge_fresh)
  have f1: "mem_inv s1" "demo_small 3 (mem_view s1)" "f_origins (mem_view s1) 6 = None" "f_origin_refs (mem_view s1) 6 = 0"
    "fresh_edge 2 (mem_view s1)"
    using demo_upload_effect [OF mem_world_new_inv demo_new_small _ demo_edge_fresh _ _ s1_def] demo_uuids
    by (auto simp: demo_view_new demo_empty fresh_edge_def upload_edge_def)
  have "allowed demo_hashes demo_manifest_codec demo_node (EvUpload 6 2 2 2 ?req) (mem_view s1)"
    by (rule demo_upload_allowed [OF f1(2)]) (simp_all add: f1)
  then have "?run [EvUpload 6 2 2 2 ?req, EvUpload 5 1 1 1 ?req] s2"
    unfolding s2_def s1_def by (intro run_step run_start a1)
  then have "?run [EvCollect 9 of_nat, EvTombstone 8 5 ''gone'', EvUpload 6 2 2 2 ?req, EvUpload 5 1 1 1 ?req]
      (snd (?p (EvCollect 9 of_nat) s3))"
    unfolding s3_def by (intro run_step) simp_all
  then show ?thesis
    by (intro exI conjI, assumption, rule live_payload_survives [OF _ demo_node_ok]) (simp_all add: demo_live_upload del: live.simps(2))
qed

text \<open>C3: The in-memory node implements its specification, answers included, for every event: upload, share, derivation,
  release of a share, pin, unpin, tombstone of an origin, collection and reading. An event answers what
  \<open>event_answer\<close> says (\<open>Ok\<close>, \<open>NotFound\<close> for an unknown share, pin or origin, a refused share, a
  collection that cannot plan an origin it lists) and leaves exactly the records, counters, edges,
  fingerprints, tombstones and blobs it says: a refusal and a read change nothing, and a collection
  deletes and marks exactly what is garbage. The conditions, for the events that create something, are those of \<open>allowed\<close>: the
  UUIDs drawn are fresh, no counter is at its maximum, and for an upload the provider encrypts, no digest
  collides and a payload stored as one blob is not the text of a manifest.\<close>

theorem node_refines:
  assumes "service_ok mem_node J svc" and "mem_inv s" and "allowed H J svc ev (mem_view s)"
  shows "\<exists>r t. perform H J svc ev s = (r, t) \<and> mem_inv t
    \<and> event_answer H J svc (hkeys (mi_origin_counts (mw_index s))) (hkeys (mi_blob_counts (mw_index s)))
        ev (mem_view s) r (mem_view t)"
  by (rule mem_total.perform_answers [OF assms mem_listed]) (rule mem_pins_only)

theorem node_refines_witness:
  "\<exists>t. perform demo_hashes demo_manifest_codec demo_node (EvUpload 5 1 1 1 (demo_request [1, 2, 3])) mem_world_new = (Ok (), t)
     \<and> f_origin_refs (mem_view t) 5 = 1"
proof -
  have "allowed demo_hashes demo_manifest_codec demo_node (EvUpload 5 1 1 1 (demo_request [1, 2, 3])) (mem_view mem_world_new)"
    by (rule demo_upload_allowed [OF demo_new_small]) (simp_all add: demo_view_new demo_edge_fresh)
  from node_refines [OF demo_node_ok mem_world_new_inv this] show ?thesis
    by (auto elim!: answer_elims simp: upload_effect_def Let_def demo_view_new)
qed

text \<open>C11: A share proof stays valid. The lineage digest of a share pins the edges before its anchor; as
  long as later edges are not stamped earlier than the anchor (the clock does not run backwards),
  \<open>verify_share_proof\<close> accepts every stored share after any
  history, whatever order the store lists the edges in.\<close>

theorem share_proof_survives:
  assumes "node_run H J svc mem_view mem_world_new h w" and "service_ok mem_node J svc" and "signer_ok svc"
    and "clocked h" and "f_shares (mem_view w) sid = Some sh"
  shows "verify_share_proof H svc sh w = (Ok True, w)"
proof -
  have "mem_inv w \<and> shares_proved H svc h (mem_view w) \<and> edge_ids_distinct (mem_view w)"
    by (rule mem_total.run_shares [OF assms(1,2) mem_world_new_inv new_shares assms(4)])
  then show ?thesis using mem_total.share_verifies [OF assms(2,3)] assms(5)
    unfolding shares_proved_def by blast
qed


theorem share_proof_survives_witness:
  "\<exists>w sh. f_shares (mem_view w) (share_id_of 9) = Some sh
     \<and> node_run demo_hashes demo_manifest_codec demo_node mem_view mem_world_new
         [EvPin 4 30 3 30 ''alice'' 5 2, EvShare 9 20 20 2 20 ''alice'' ''bob'' 5 [Read],
          EvUpload 5 10 1 10 (demo_request [1, 2, 3])] w
     \<and> verify_share_proof demo_hashes demo_node sh w = (Ok True, w)"
proof -
  let ?ev3 = "EvPin 4 30 3 30 ''alice'' 5 2"
  obtain w sh bid where w: "node_run demo_hashes demo_manifest_codec demo_node mem_view mem_world_new [demo_ev2, demo_ev1] w"
    "mem_inv w" "f_shares (mem_view w) (share_id_of 9) = Some sh" "f_origin_refs (mem_view w) 5 = 2" "f_pins (mem_view w) = (\<lambda>_. None)"
    "f_edges (mem_view w) = {#plain_edge 5 2 20 (RefShare (share_id_of 9) ''alice'' ''bob''), upload_edge 5 1 10 bid#}"
    by (rule demo_shared)
  define v where "v = snd (perform demo_hashes demo_manifest_codec demo_node ?ev3 w)"
  have al: "allowed demo_hashes demo_manifest_codec demo_node ?ev3 (mem_view w)"
    using w(4-6) demo_uuids by (simp add: I64_MAX_def fresh_edge_def plain_edge_def upload_edge_def)
  have eff: "event_effect demo_hashes demo_manifest_codec demo_node ?ev3 (mem_view w) (mem_view v)"
    using mem_total.perform_refines [OF demo_node_ok w(2) al] by (simp add: v_def)
  have run: "node_run demo_hashes demo_manifest_codec demo_node mem_view mem_world_new [?ev3, demo_ev2, demo_ev1] v"
    unfolding v_def by (rule run_step [OF w(1) al])
  have share: "f_shares (mem_view v) (share_id_of 9) = Some sh"
    using eff w(3,6) by (auto elim!: effect_elims simp: ref_effect_def org_refs_def plain_edge_def upload_edge_def)
  have "signer_ok demo_node" by (simp add: signer_ok_def demo_service_def)
  then have "verify_share_proof demo_hashes demo_node sh v = (Ok True, v)"
    using share_proof_survives [OF run demo_node_ok _ _ share] by simp
  then show ?thesis using run share by blast
qed

section \<open>Where the code departs from its comments\<close>

text \<open>C38: Tombstoning leaks chunks. Although the upload counts a reference for every chunk, the
  tombstone releases only the root blob: after the upload of a chunked payload, its tombstone and a
  garbage collection, every chunk is still stored and still has a reference, so no later
  collection can remove it.\<close>

theorem tombstone_leaks_chunks:
  assumes "service_ok mem_node J svc" and "mem_inv s"
    and "allowed H J svc (EvUpload org t_rec u t_edge req) (mem_view s)"
    and "upload H J svc org t_rec u t_edge req s = (Ok r, s1)"
    and "tombstone_origin svc now org reason s1 = (q, s2)"
    and "gc_collect mem_node later ids s2 = (g, s3)" and "b \<in> set (ul_chunk_blobs r)"
  shows "q = Ok () \<and> 1 \<le> f_blob_refs (mem_view s3) b \<and> f_blobs (mem_view s3) b \<noteq> None"
  by (rule mem_total.tombstone_leak [OF assms])

theorem tombstone_leaks_chunks_witness:
  "\<exists>r s1 s2 s3 q g. upload demo_hashes demo_manifest_codec demo_node 5 1 1 1 (demo_request [1, 2, 3]) mem_world_new = (Ok r, s1)
     \<and> tombstone_origin demo_node 2 5 ''gone'' s1 = (q, s2) \<and> gc_collect mem_node 3 of_nat s2 = (g, s3)
     \<and> length (ul_chunk_blobs r) = 2 \<and> (\<forall>b \<in> set (ul_chunk_blobs r). f_blobs (mem_view s3) b \<noteq> None)"
proof -
  let ?req = "demo_request [1, 2, 3]"
  have al: "allowed demo_hashes demo_manifest_codec demo_node (EvUpload 5 1 1 1 ?req) (mem_view mem_world_new)"
    by (rule demo_upload_allowed [OF demo_new_small]) (simp_all add: demo_view_new demo_edge_fresh)
  obtain r s1 where up: "upload demo_hashes demo_manifest_codec demo_node 5 1 1 1 ?req mem_world_new = (Ok r, s1)"
    "length (ul_chunk_blobs r) = 2" by (rule demo_upload_chunks)
  obtain q s2 where "tombstone_origin demo_node 2 5 ''gone'' s1 = (q, s2)" by force
  moreover obtain g s3 where "gc_collect mem_node 3 of_nat s2 = (g, s3)" by force
  ultimately show ?thesis
    using up tombstone_leaks_chunks [OF demo_node_ok mem_world_new_inv al up(1)] by blast
qed

text \<open>C20: Releasing a share is not idempotent. A share that was released is still there, and releasing it again
  succeeds and removes another reference of its origin, one that belongs to somebody else: after \<open>k\<close> releases of one
  share the origin has \<open>k\<close> references fewer, down to zero, nothing else has changed, and from
  as many releases as it had references on, the origin with its live record is a candidate for collection.\<close>

theorem double_release:
  assumes "service_ok mem_node J svc" and "mem_inv s" and "f_shares (mem_view s) sid = Some sh"
  shows "\<exists>t. forM [0..<k] (\<lambda>_. release_share svc sid) s = (Ok (), t)
    \<and> mem_view t = org_refs (sr_origin_id sh) (max 0 (f_origin_refs (mem_view s) (sr_origin_id sh) - int k)) (mem_view s)
    \<and> is_gc_candidate svc (sr_origin_id sh) t = (Ok (f_origin_refs (mem_view s) (sr_origin_id sh) \<le> int k), t)"
  using mem_total.release_again [OF assms, of k] by blast

theorem double_release_witness:
  "\<exists>s t. f_origins (mem_view s) 5 \<noteq> None \<and> forM [0..<2] (\<lambda>_. release_share demo_node (share_id_of 9)) s = (Ok (), t)
     \<and> f_origins (mem_view t) 5 \<noteq> None \<and> is_gc_candidate demo_node 5 t = (Ok True, t)"
proof -
  obtain w sh where w: "mem_inv w" "f_shares (mem_view w) (share_id_of 9) = Some sh" "sr_origin_id sh = 5"
    "f_origin_refs (mem_view w) 5 = 2" "f_origins (mem_view w) 5 \<noteq> None" by (rule demo_shared)
  show ?thesis using double_release [OF demo_node_ok w(1,2), of 2] w(3-5) by (auto simp: org_refs_def)
qed

text \<open>C39: A payload that is the text of a chunk manifest is not read back. Whenever the ciphertext is stored
  as one blob and parses as a manifest \<open>m\<close>, the upload succeeds, but reading the origin reassembles the
  chunks that \<open>m\<close> names: it answers bytes only if the node holds all of them, and then the decryption of these chunks,
  and it fails with \<open>NotFound\<close> if the first is missing. The uploaded bytes decide nothing else. The conditions are
  those of an upload: a node within bounds, a fresh edge identifier and no colliding digest.\<close>

theorem manifest_payload_lost:
  assumes "service_ok mem_node J svc" and "mem_inv s" and "cr_encrypt (sv_crypto svc) org (ur_bytes req) = Ok ct"
    and "upload_plan H J svc ct = [ct]" and "try_parse_manifest J ct = Some m"
    and "upload_ok H J svc (f_blobs (mem_view s)) ct"
    and "plain_fingerprints H (sv_chunk_config svc) (ur_bytes req) = Ok fps"
    and "upload_room [ct] org (mem_view s)" and "fresh_edge u (mem_view s)"
  shows "\<exists>t r. upload H J svc org t_rec u t_edge req s = (Ok r, t)
    \<and> f_blobs (mem_view t) = (f_blobs (mem_view s))(compute_blob_id H ct (ec_hash_alg (sv_enc_cas svc)) \<mapsto> ct)
    \<and> (\<forall>d w. get_payload H J svc org t = (Ok d, w) \<longrightarrow>
        (\<exists>parts. map (\<lambda>e. f_blobs (mem_view t) (ce_blob_id e)) (cm_chunks m) = map Some parts
           \<and> cr_decrypt (sv_crypto svc) org (concat parts) = Ok d))
    \<and> (\<forall>e es. cm_chunks m = e # es \<and> f_blobs (mem_view t) (ce_blob_id e) = None \<and> unat (cm_total_size m) < 2 ^ 63 \<longrightarrow>
        get_payload H J svc org t = (Err NotFound, t))"
proof -
  obtain t r where t: "upload H J svc org t_rec u t_edge req s = (Ok r, t)"
    "f_blobs (mem_view t) = (f_blobs (mem_view s))(compute_blob_id H ct (ec_hash_alg (sv_enc_cas svc)) \<mapsto> ct)"
    "get_payload H J svc org t
        = (bindR (reassemble_pure H m (f_blobs (mem_view t))) (\<lambda>c. cr_decrypt (sv_crypto svc) org c), t)"
    using mem_total.manifest_misread [OF assms, of t_rec t_edge] by blast
  have "\<exists>parts. map (\<lambda>e. f_blobs (mem_view t) (ce_blob_id e)) (cm_chunks m) = map Some parts
      \<and> cr_decrypt (sv_crypto svc) org (concat parts) = Ok d" if got: "get_payload H J svc org t = (Ok d, w)" for d w
  proof -
    obtain c where "reassemble_pure H m (f_blobs (mem_view t)) = Ok c" "cr_decrypt (sv_crypto svc) org c = Ok d"
      using got t(3) by (auto simp: bindR_eq_Ok)
    then show ?thesis using reassembled_parts by metis
  qed
  moreover have "get_payload H J svc org t = (Err NotFound, t)"
    if "cm_chunks m = e # es \<and> f_blobs (mem_view t) (ce_blob_id e) = None \<and> unat (cm_total_size m) < 2 ^ 63" for e es
    using t(3) reassemble_missing [of m e es "f_blobs (mem_view t)" H] that by simp
  ultimately show ?thesis using t(1,2) by blast
qed

theorem manifest_payload_lost_witness:
  "\<exists>d t r. upload demo_hashes demo_manifest_codec (demo_service mem_node null_crypto None) 5 1 1 1 (demo_request d) mem_world_new = (Ok r, t)
     \<and> get_payload demo_hashes demo_manifest_codec (demo_service mem_node null_crypto None) 5 t = (Err NotFound, t)"
proof -
  let ?svc = "demo_service mem_node null_crypto None"
  obtain d where d: "to_vec demo_manifest_codec stray_manifest = Ok d" "length d < 2 ^ 63" by (rule demo_stray)
  have svc: "service_ok mem_node demo_manifest_codec ?svc"
    by (rule demo_service_ok) (simp_all add: null_provider.provider_ok)
  have plan: "upload_plan demo_hashes demo_manifest_codec ?svc d = [d]" by (simp add: upload_plan_def demo_service_def)
  have parse: "try_parse_manifest demo_manifest_codec d = Some stray_manifest"
    using codec_ok_parse [OF _ d(1)] svc by (simp add: try_parse_manifest_def service_ok_def)
  have ct: "cr_encrypt (sv_crypto ?svc) 5 (ur_bytes (demo_request d)) = Ok d"
    by (simp add: demo_service_def null_crypto_def demo_request_def)
  have ok: "upload_ok demo_hashes demo_manifest_codec ?svc (f_blobs (mem_view mem_world_new)) d"
    using plan d(2) by (simp add: upload_ok_def cas_ok_def no_collision_def demo_view_new)
  have fps: "plain_fingerprints demo_hashes (sv_chunk_config ?svc) (ur_bytes (demo_request d)) = Ok [compute_blob_id demo_hashes d Blake3]"
    by (simp add: plain_fingerprints_def demo_service_def demo_request_def)
  have room: "upload_room [d] 5 (mem_view mem_world_new)" by (simp add: upload_room_def demo_view_new I64_MAX_def)
  obtain t r where t: "upload demo_hashes demo_manifest_codec ?svc 5 1 1 1 (demo_request d) mem_world_new = (Ok r, t)"
    "f_blobs (mem_view t) = (f_blobs (mem_view mem_world_new))(compute_blob_id demo_hashes d (ec_hash_alg (sv_enc_cas ?svc)) \<mapsto> d)"
    "\<And>e es. cm_chunks stray_manifest = e # es \<and> f_blobs (mem_view t) (ce_blob_id e) = None \<and> unat (cm_total_size stray_manifest) < 2 ^ 63 \<Longrightarrow>
        get_payload demo_hashes demo_manifest_codec ?svc 5 t = (Err NotFound, t)"
    using manifest_payload_lost [OF svc mem_world_new_inv ct plan parse ok fps room demo_edge_fresh, of 1 1] by blast
  have "compute_blob_id demo_hashes d (ec_hash_alg (sv_enc_cas ?svc)) \<noteq> []"
    by (cases "ec_hash_alg (sv_enc_cas ?svc)") simp_all
  then have "f_blobs (mem_view t) [] = None" using t(2) by (simp add: demo_view_new)
  then show ?thesis using t(1,3) by (auto simp: stray_manifest_def build_manifest_def)
qed

end
